(* ===== verification/Go_Prelude.thy ===== *)
theory Go_Prelude
  imports Main "HOL-Library.AList" "HOL-Library.List_Lexorder" "HOL-Library.Char_ord"
    "HOL-Library.Word" "HOL-Library.Sublist" "HOL-Library.Multiset"
begin

text \<open>
  What the components share: the Go types the sources use (byte strings, 64-bit counters,
  instants, maps), the functions of the Go standard library they call (\<open>strings\<close>,
  \<open>strconv\<close>, \<open>bufio.Scanner\<close>, \<open>sort\<close>), and the lemmas on them that the component proofs use.

  A Go string is a sequence of bytes, here a \<^typ>\<open>string\<close>: \<open>len\<close> is \<^const>\<open>length\<close>, and the
  comparison \<open><\<close> is the bytewise lexicographic order of the library (\<open>List_Lexorder\<close> over
  \<open>Char_ord\<close>). A Go map is an association list; the functions below keep its keys distinct,
  and where the code ranges over a map the list's order stands for one iteration order.
  A result with an error is a sum, \<open>Inl\<close> the error.
\<close>

named_theorems go_simps \<open>rewrite rules for the operations on Go strings and maps\<close>

section \<open>Types\<close>

type_synonym uint64 = "64 word"

text \<open>An instant: nanoseconds, with 0 the zero value \<open>time.Time{}\<close>.\<close>

type_synonym time = int

abbreviation (input) zeroTime :: time where
  "zeroTime \<equiv> 0"

type_synonym ('k, 'v) gomap = "('k \<times> 'v) list"

abbreviation mget :: "('k, 'v) gomap \<Rightarrow> 'k \<Rightarrow> 'v option" where
  "mget \<equiv> map_of"

abbreviation mput :: "('k, 'v) gomap \<Rightarrow> 'k \<Rightarrow> 'v \<Rightarrow> ('k, 'v) gomap" where
  "mput m k v \<equiv> AList.update k v m"

abbreviation mdel :: "('k, 'v) gomap \<Rightarrow> 'k \<Rightarrow> ('k, 'v) gomap" where
  "mdel m k \<equiv> AList.delete k m"

abbreviation mapok :: "('k, 'v) gomap \<Rightarrow> bool" where
  "mapok m \<equiv> distinct (map fst m)"

section \<open>Strings\<close>

abbreviation NL :: char where
  "NL \<equiv> CHR 0x0A"

abbreviation CR :: char where
  "CR \<equiv> CHR 0x0D"

definition HasPrefix :: "string \<Rightarrow> string \<Rightarrow> bool" where
  "HasPrefix s p \<longleftrightarrow> take (length p) s = p"

definition HasSuffix :: "string \<Rightarrow> string \<Rightarrow> bool" where
  "HasSuffix s p \<longleftrightarrow> length p \<le> length s \<and> drop (length s - length p) s = p"

definition TrimPrefix :: "string \<Rightarrow> string \<Rightarrow> string" where
  "TrimPrefix s p = (if HasPrefix s p then drop (length p) s else s)"

definition TrimSuffix :: "string \<Rightarrow> string \<Rightarrow> string" where
  "TrimSuffix s p = (if HasSuffix s p then take (length s - length p) s else s)"

fun Contains :: "string \<Rightarrow> string \<Rightarrow> bool" where
  "Contains [] p \<longleftrightarrow> p = []"
| "Contains (c # s) p \<longleftrightarrow> HasPrefix (c # s) p \<or> Contains s p"

text \<open>\<open>strings.TrimRight(s, "c")\<close> for a one-byte cutset.\<close>

fun TrimRightByte :: "char \<Rightarrow> string \<Rightarrow> string" where
  "TrimRightByte c [] = []"
| "TrimRightByte c (x # xs) =
     (let r = TrimRightByte c xs in if r = [] \<and> x = c then [] else x # r)"

text \<open>
  The UTF-8 encodings of the code points of \<open>unicode.IsSpace\<close>: the six ASCII spaces, U+0085,
  U+00A0, U+1680, U+2000 to U+200A, U+2028, U+2029, U+202F, U+205F and U+3000.
\<close>

definition space_encodings :: "string list" where
  "space_encodings =
     [[CHR 0x09], [CHR 0x0A], [CHR 0x0B], [CHR 0x0C], [CHR 0x0D], [CHR 0x20],
      [CHR 0xC2, CHR 0x85], [CHR 0xC2, CHR 0xA0], [CHR 0xE1, CHR 0x9A, CHR 0x80],
      [CHR 0xE2, CHR 0x80, CHR 0x80], [CHR 0xE2, CHR 0x80, CHR 0x81],
      [CHR 0xE2, CHR 0x80, CHR 0x82], [CHR 0xE2, CHR 0x80, CHR 0x83],
      [CHR 0xE2, CHR 0x80, CHR 0x84], [CHR 0xE2, CHR 0x80, CHR 0x85],
      [CHR 0xE2, CHR 0x80, CHR 0x86], [CHR 0xE2, CHR 0x80, CHR 0x87],
      [CHR 0xE2, CHR 0x80, CHR 0x88], [CHR 0xE2, CHR 0x80, CHR 0x89],
      [CHR 0xE2, CHR 0x80, CHR 0x8A], [CHR 0xE2, CHR 0x80, CHR 0xA8],
      [CHR 0xE2, CHR 0x80, CHR 0xA9], [CHR 0xE2, CHR 0x80, CHR 0xAF],
      [CHR 0xE2, CHR 0x81, CHR 0x9F], [CHR 0xE3, CHR 0x80, CHR 0x80]]"

text \<open>
  The number of bytes of the white space a string starts with, and ends with (0: none). A
  continuation byte never starts a rune, so a string ends in the encoding of a white space
  rune exactly when \<open>utf8.DecodeLastRune\<close> reads that rune there.
\<close>

definition lead_space :: "string \<Rightarrow> nat" where
  "lead_space s = (case find (HasPrefix s) space_encodings of None \<Rightarrow> 0 | Some e \<Rightarrow> length e)"

definition trail_space :: "string \<Rightarrow> nat" where
  "trail_space s = (case find (HasSuffix s) space_encodings of None \<Rightarrow> 0 | Some e \<Rightarrow> length e)"

function TrimLeftSpace :: "string \<Rightarrow> string" where
  "TrimLeftSpace s =
     (if s = [] \<or> lead_space s = 0 then s else TrimLeftSpace (drop (lead_space s) s))"
  by pat_completeness auto
termination
  by (relation "measure length") auto

function TrimRightSpace :: "string \<Rightarrow> string" where
  "TrimRightSpace s =
     (if s = [] \<or> trail_space s = 0 then s
      else TrimRightSpace (take (length s - trail_space s) s))"
  by pat_completeness auto
termination
  by (relation "measure length") auto

declare TrimLeftSpace.simps [simp del] TrimRightSpace.simps [simp del]

definition TrimSpace :: "string \<Rightarrow> string" where
  "TrimSpace s = TrimRightSpace (TrimLeftSpace s)"

text \<open>
  \<open>strings.ToLower\<close> as far as a search for ASCII text can tell: the ASCII letters, and the two
  other code points whose lower case is ASCII (U+0130 to \<open>i\<close>, U+212A to \<open>k\<close>). Every other
  rune is left as it is.
\<close>

definition lower_char :: "char \<Rightarrow> char" where
  "lower_char c =
     (if CHR ''A'' \<le> c \<and> c \<le> CHR ''Z'' then char_of (of_char c + 32 :: nat) else c)"

fun ToLower :: "string \<Rightarrow> string" where
  "ToLower [] = []"
| "ToLower (a # b # c # s) =
     (if [a, b] = [CHR 0xC4, CHR 0xB0] then CHR ''i'' # ToLower (c # s)
      else if [a, b, c] = [CHR 0xE2, CHR 0x84, CHR 0xAA] then CHR ''k'' # ToLower s
      else lower_char a # ToLower (b # c # s))"
| "ToLower [a, b] =
     (if [a, b] = [CHR 0xC4, CHR 0xB0] then [CHR ''i''] else [lower_char a, lower_char b])"
| "ToLower [a] = [lower_char a]"

text \<open>\<open>strings.Split(s, sep)\<close> for a one-byte separator: always at least one part.\<close>

fun SplitByte :: "char \<Rightarrow> string \<Rightarrow> string list" where
  "SplitByte c [] = [[]]"
| "SplitByte c (x # xs) =
     (if x = c then [] # SplitByte c xs
      else (case SplitByte c xs of [] \<Rightarrow> [[x]] | p # ps \<Rightarrow> (x # p) # ps))"

fun Join :: "string list \<Rightarrow> string \<Rightarrow> string" where
  "Join [] sep = []"
| "Join [p] sep = p"
| "Join (p # q # ps) sep = p @ sep @ Join (q # ps) sep"

text \<open>
  The lines a \<open>bufio.Scanner\<close> delivers: text up to each newline without a final carriage
  return, no empty line after the last newline, and nothing from the first line on that does
  not fit the scanner's buffer of 65536 bytes.
\<close>

definition scanLines :: "string \<Rightarrow> string list" where
  "scanLines s =
     (let parts = SplitByte NL s;
          lines = (if last parts = [] then butlast parts else parts)
      in map (\<lambda>l. TrimSuffix l [CR]) (takeWhile (\<lambda>l. length l < 65536) lines))"

text \<open>\<open>strconv.Itoa\<close>, \<open>FormatInt(_, 10)\<close> and \<open>%d\<close>.\<close>

fun nat_digits :: "nat \<Rightarrow> string" where
  "nat_digits n =
     (if n < 10 then [char_of (48 + n)] else nat_digits (n div 10) @ [char_of (48 + n mod 10)])"

declare nat_digits.simps [simp del]

definition Itoa :: "int \<Rightarrow> string" where
  "Itoa i = (if i < 0 then CHR ''-'' # nat_digits (nat (- i)) else nat_digits (nat i))"

section \<open>Lemmas on maps\<close>

text \<open>Lookups stay lookups: the simplifier must not turn them into membership in the list.\<close>

declare map_of_eq_Some_iff [simp del] Some_eq_map_of_iff [simp del]

lemma mget_mput [simp, go_simps]: "mget (mput m k v) k' = (if k' = k then Some v else mget m k')"
  by (simp add: update_conv)

lemma mget_mdel [simp, go_simps]:
  "mapok m \<Longrightarrow> mget (mdel m k) k' = (if k' = k then None else mget m k')"
  by (simp add: delete_conv)

lemma mapok_mput [simp, intro]: "mapok m \<Longrightarrow> mapok (mput m k v)"
  by (simp add: distinct_update)

lemma mapok_mdel [simp, intro]: "mapok m \<Longrightarrow> mapok (mdel m k)"
  by (simp add: distinct_delete)

lemma mapok_mget_iff: "mapok m \<Longrightarrow> mget m k = Some v \<longleftrightarrow> (k, v) \<in> set m"
  by (rule map_of_eq_Some_iff)

lemma mget_set_snd: "mget m k = Some v \<Longrightarrow> v \<in> set (map snd m)"
  by (force dest: map_of_SomeD)

text \<open>
  The interface of a Go map that the stores below rely on, and what follows from it: an
  insertion is read back, and inserting after a deletion is inserting.
\<close>

locale go_map =
  fixes lookup :: "'m \<Rightarrow> 'k \<Rightarrow> 'v option"
    and insert :: "'m \<Rightarrow> 'k \<Rightarrow> 'v \<Rightarrow> 'm"
    and remove :: "'m \<Rightarrow> 'k \<Rightarrow> 'm"
    and ok :: "'m \<Rightarrow> bool"
  assumes lookup_insert: "ok m \<Longrightarrow> lookup (insert m k v) = (lookup m)(k \<mapsto> v)"
    and lookup_remove: "ok m \<Longrightarrow> lookup (remove m k) = (lookup m)(k := None)"
    and ok_insert: "ok m \<Longrightarrow> ok (insert m k v)"
    and ok_remove: "ok m \<Longrightarrow> ok (remove m k)"
begin

lemma dom_insert: "ok m \<Longrightarrow> dom (lookup (insert m k v)) = Set.insert k (dom (lookup m))"
  by (simp add: lookup_insert)

lemma dom_remove: "ok m \<Longrightarrow> dom (lookup (remove m k)) = dom (lookup m) - {k}"
  by (simp add: lookup_remove)

lemma insert_remove: "ok m \<Longrightarrow> lookup (insert (remove m k) k v) = lookup (insert m k v)"
  by (simp add: lookup_insert lookup_remove ok_remove)

end

interpretation gm: go_map mget mput mdel mapok
  by unfold_locales (auto simp: update_conv' delete_conv' distinct_update distinct_delete)

section \<open>Lemmas on strings\<close>

lemma HasPrefix_append [simp, go_simps]: "HasPrefix (p @ s) p"
  by (simp add: HasPrefix_def)

lemma HasPrefix_iff: "HasPrefix s p \<longleftrightarrow> (\<exists>t. s = p @ t)"
  by (metis HasPrefix_def append_eq_conv_conj)

lemma HasSuffix_append [simp, go_simps]: "HasSuffix (s @ p) p"
  by (simp add: HasSuffix_def)

lemma HasSuffix_iff: "HasSuffix s p \<longleftrightarrow> (\<exists>t. s = t @ p)"
  by (metis HasSuffix_append HasSuffix_def append_take_drop_id)

lemma TrimSuffix_append [simp, go_simps]: "TrimSuffix (s @ p) p = s"
  by (simp add: TrimSuffix_def)

lemma Contains_iff: "Contains s p \<longleftrightarrow> (\<exists>a b. s = a @ p @ b)"
proof (induction s)
  case (Cons c s)
  show ?case
  proof
    assume "Contains (c # s) p"
    then consider "HasPrefix (c # s) p" | "Contains s p" by auto
    then show "\<exists>a b. c # s = a @ p @ b"
    proof cases
      case 1
      then show ?thesis by (metis HasPrefix_iff append_Nil)
    next
      case 2
      then show ?thesis using Cons.IH by (metis append_Cons)
    qed
  next
    assume "\<exists>a b. c # s = a @ p @ b"
    then obtain a b where ab: "c # s = a @ p @ b" by blast
    show "Contains (c # s) p"
    proof (cases a)
      case Nil
      with ab show ?thesis by (metis Contains.simps(2) HasPrefix_iff append_Nil)
    next
      case (Cons x xs)
      with ab have "s = xs @ p @ b" by simp
      then show ?thesis using Cons.IH by auto
    qed
  qed
qed simp

lemma space_encodings_nonempty: "e \<in> set space_encodings \<Longrightarrow> e \<noteq> []"
  by (auto simp: space_encodings_def)

lemma lead_space_0: "lead_space s = 0 \<longleftrightarrow> (\<forall>e \<in> set space_encodings. \<not> HasPrefix s e)"
  using space_encodings_nonempty
  by (auto simp: lead_space_def find_None_iff find_Some_iff split: option.splits)

lemma trail_space_0: "trail_space s = 0 \<longleftrightarrow> (\<forall>e \<in> set space_encodings. \<not> HasSuffix s e)"
  using space_encodings_nonempty
  by (auto simp: trail_space_def find_None_iff find_Some_iff split: option.splits)

lemma TrimLeftSpace_lead: "lead_space (TrimLeftSpace s) = 0 \<or> TrimLeftSpace s = []"
  by (induction s rule: TrimLeftSpace.induct) (subst (1 2) TrimLeftSpace.simps, auto)

lemma TrimRightSpace_trail: "trail_space (TrimRightSpace s) = 0 \<or> TrimRightSpace s = []"
  by (induction s rule: TrimRightSpace.induct) (subst (1 2) TrimRightSpace.simps, auto)

lemma TrimRightSpace_prefix: "\<exists>t. s = TrimRightSpace s @ t"
proof (induction s rule: TrimRightSpace.induct)
  case (1 s)
  show ?case
  proof (cases "s = [] \<or> trail_space s = 0")
    case True
    then show ?thesis by (subst TrimRightSpace.simps) auto
  next
    case False
    let ?u = "take (length s - trail_space s) s"
    from "1.IH" [OF False] obtain t where "?u = TrimRightSpace ?u @ t" ..
    then have "s = TrimRightSpace ?u @ t @ drop (length s - trail_space s) s"
      by (metis append.assoc append_take_drop_id)
    with False show ?thesis by (metis TrimRightSpace.simps)
  qed
qed

lemma TrimLeftSpace_suffix: "\<exists>t. s = t @ TrimLeftSpace s"
proof (induction s rule: TrimLeftSpace.induct)
  case (1 s)
  show ?case
  proof (cases "s = [] \<or> lead_space s = 0")
    case True
    then show ?thesis by (subst TrimLeftSpace.simps) auto
  next
    case False
    let ?u = "drop (lead_space s) s"
    from "1.IH" [OF False] obtain t where "?u = t @ TrimLeftSpace ?u" ..
    then have "s = (take (lead_space s) s @ t) @ TrimLeftSpace ?u"
      by (metis append.assoc append_take_drop_id)
    with False show ?thesis by (metis TrimLeftSpace.simps)
  qed
qed

lemma TrimSpace_Nil [simp, go_simps]: "TrimSpace [] = []"
  by (simp add: TrimSpace_def TrimLeftSpace.simps TrimRightSpace.simps)

lemma TrimSpace_lead: "lead_space (TrimSpace s) = 0 \<or> TrimSpace s = []"
proof (cases "TrimSpace s = []")
  case False
  obtain t where t: "TrimLeftSpace s = TrimSpace s @ t"
    using TrimRightSpace_prefix unfolding TrimSpace_def by blast
  with False TrimLeftSpace_lead [of s] have "lead_space (TrimSpace s @ t) = 0" by auto
  then show ?thesis unfolding lead_space_0 HasPrefix_iff by (metis append.assoc)
qed simp

text \<open>Trimming twice is trimming once, so a trimmed identifier is a fixed point.\<close>

lemma TrimSpace_idem [simp, go_simps]: "TrimSpace (TrimSpace s) = TrimSpace s"
proof -
  have "TrimLeftSpace (TrimSpace s) = TrimSpace s"
    using TrimSpace_lead [of s] by (subst TrimLeftSpace.simps) auto
  moreover have "TrimRightSpace (TrimSpace s) = TrimSpace s"
    using TrimRightSpace_trail [of "TrimLeftSpace s"] unfolding TrimSpace_def
    by (subst TrimRightSpace.simps) auto
  ultimately show ?thesis by (simp add: TrimSpace_def [of "TrimSpace s"])
qed

lemma length_TrimSpace: "length (TrimSpace s) \<le> length s"
  by (metis TrimLeftSpace_suffix TrimRightSpace_prefix TrimSpace_def le_add1 le_add2
      length_append order_trans)

lemma SplitByte_nonempty [simp]: "SplitByte c s \<noteq> []"
  by (cases s) (auto split: list.splits)

lemma Join_SplitByte [simp, go_simps]: "Join (SplitByte c s) [c] = s"
proof (induction s)
  case (Cons x xs)
  then show ?case
    by (cases "SplitByte c xs") (auto split: list.splits, (metis Join.simps append_Cons neq_Nil_conv)+)
qed simp

lemma nat_digits_chars: "d \<in> set (nat_digits n) \<Longrightarrow> CHR ''0'' \<le> d \<and> d \<le> CHR ''9''"
proof (induction n rule: nat_digits.induct)
  case (1 n)
  have small: "CHR ''0'' \<le> char_of (48 + k) \<and> char_of (48 + k) \<le> CHR ''9''" if "k < 10" for k :: nat
    using that by (simp add: less_eq_char_def)
  show ?case
  proof (cases "n < 10")
    case True
    then show ?thesis using "1.prems" small by (simp add: nat_digits.simps [of n])
  next
    case False
    then show ?thesis using "1.prems" "1.IH" small [of "n mod 10"]
      by (auto simp: nat_digits.simps [of n])
  qed
qed

lemma nat_digits_no_colon: "CHR '':'' \<notin> set (nat_digits n)"
  using nat_digits_chars [of "CHR '':''" n] by (auto simp: less_eq_char_def)

lemma nat_digits_value: "foldl (\<lambda>a d. 10 * a + (of_char d - 48 :: nat)) 0 (nat_digits n) = n"
proof (induction n rule: nat_digits.induct)
  case (1 n)
  show ?case
  proof (cases "n < 10")
    case True
    then show ?thesis by (simp add: nat_digits.simps [of n])
  next
    case False
    then show ?thesis using "1.IH" by (subst nat_digits.simps) simp
  qed
qed

lemma nat_digits_inject [simp]: "nat_digits m = nat_digits n \<longleftrightarrow> m = n"
  by (metis nat_digits_value)

section \<open>Lemmas on counters and sorting\<close>

lemma uint64_Suc: "g \<noteq> (- 1 :: uint64) \<Longrightarrow> unat (g + 1) = Suc (unat g)"
  using unatSuc [of g] by (auto simp: add.commute add_eq_0_iff)

lemma sorted_distinct_unique:
  "sorted (map f xs) \<Longrightarrow> sorted (map f ys) \<Longrightarrow> distinct (map f xs) \<Longrightarrow> distinct (map f ys)
    \<Longrightarrow> set xs = set ys \<Longrightarrow> xs = ys"
proof -
  assume sx: "sorted (map f xs)" and sy: "sorted (map f ys)"
    and dx: "distinct (map f xs)" and dy: "distinct (map f ys)" and eq: "set xs = set ys"
  have "map f xs = map f ys"
    using sx sy dx dy eq by (intro sorted_distinct_set_unique) auto
  moreover have "inj_on f (set xs \<union> set ys)"
    using dx eq by (simp add: distinct_map)
  ultimately show "xs = ys" by (simp add: inj_on_map_eq_map)
qed

section \<open>Calls and what they implement\<close>

text \<open>A sequence of calls with the clock's readings: the last state, and what each call returned.\<close>

fun run_ops :: "(time \<Rightarrow> 'op \<Rightarrow> 'r \<Rightarrow> 'r \<times> 'o) \<Rightarrow> (time \<times> 'op) list \<Rightarrow> 'r \<Rightarrow> 'r \<times> 'o list" where
  "run_ops step [] r = (r, [])"
| "run_ops step ((now, op) # ops) r =
     (let (r1, out) = step now op r; (r2, outs) = run_ops step ops r1 in (r2, out # outs))"

lemma run_ops_Cons [simp]:
  "fst (run_ops step ((now, op) # ops) r) = fst (run_ops step ops (fst (step now op r)))"
  "snd (run_ops step ((now, op) # ops) r) =
     snd (step now op r) # snd (run_ops step ops (fst (step now op r)))"
  by (simp_all add: case_prod_beta Let_def)

lemma run_ops_append:
  "fst (run_ops step (ops @ ops') r) = fst (run_ops step ops' (fst (run_ops step ops r)))"
proof (induction ops arbitrary: r)
  case (Cons x ops)
  then show ?case by (cases x) (simp del: run_ops.simps)
qed simp

text \<open>
  A component implements a specification when every call on a consistent state keeps it consistent,
  returns what the specification returns, and changes the view of the state in the same way. Then a
  whole run does.
\<close>

locale implementation =
  fixes step :: "time \<Rightarrow> 'op \<Rightarrow> 'r \<Rightarrow> 'r \<times> 'o"
    and spec :: "time \<Rightarrow> 'op \<Rightarrow> 'a \<Rightarrow> 'a \<times> 'o"
    and view :: "'r \<Rightarrow> 'a"
    and ok :: "'r \<Rightarrow> bool"
  assumes ok_step: "ok r \<Longrightarrow> ok (fst (step now op r))"
    and view_step: "ok r \<Longrightarrow> (view (fst (step now op r)), snd (step now op r)) = spec now op (view r)"
begin

lemma run_view:
  "ok r \<Longrightarrow> ok (fst (run_ops step ops r)) \<and>
     fst (run_ops spec ops (view r)) = view (fst (run_ops step ops r)) \<and>
     snd (run_ops spec ops (view r)) = snd (run_ops step ops r)"
proof (induction ops arbitrary: r)
  case (Cons x ops)
  obtain now op where x: "x = (now, op)" by (cases x)
  from Cons.prems have s: "spec now op (view r) = (view (fst (step now op r)), snd (step now op r))"
    by (simp add: view_step)
  from Cons.IH [OF ok_step [OF Cons.prems, of now op]] show ?case
    by (simp add: x s del: run_ops.simps)
qed simp

end

end
