(* ===== verification/Go_Monad.thy ===== *)
theory Go_Monad
  imports Go_Prelude "HOL-Library.State_Monad"
begin

text \<open>
  Functions that work on a shared state are values of the library's state monad; their loops
  over a slice are \<open>forEach\<close>, and \<open>forUntil\<close> where the body may return from the function. This
  theory has the triples that the proofs about them use: \<open>valid P f Q\<close> says that from a state
  satisfying \<open>P\<close> the function ends with a result and a state satisfying \<open>Q\<close>, and \<open>keeps I f\<close>
  that it preserves \<open>I\<close>. The rules for \<open>keeps\<close> are collected in \<open>keep\<close>, so that a function
  built from parts that keep an invariant keeps it by \<open>auto intro!: keep\<close>.
\<close>

named_theorems keep \<open>introduction rules for functions that keep an invariant\<close>

text \<open>Lookups stay lookups, as in the prelude.\<close>

declare map_of_eq_Some_iff [simp del] Some_eq_map_of_iff [simp del]

abbreviation return :: "'a \<Rightarrow> ('s, 'a) state" where
  "return \<equiv> State_Monad.return"

definition gets :: "('s \<Rightarrow> 'a) \<Rightarrow> ('s, 'a) state" where
  "gets f = State (\<lambda>s. (f s, s))"

definition modify :: "('s \<Rightarrow> 's) \<Rightarrow> ('s, unit) state" where
  "modify f = State (\<lambda>s. ((), f s))"

fun forEach :: "'a list \<Rightarrow> ('a \<Rightarrow> ('s, unit) state) \<Rightarrow> ('s, unit) state" where
  "forEach [] f = return ()"
| "forEach (x # xs) f = do { f x; forEach xs f }"

text \<open>A loop whose body returns \<open>Some\<close> result to leave the function, with an accumulator.\<close>

fun forUntil :: "'a list \<Rightarrow> 'b \<Rightarrow> ('a \<Rightarrow> 'b \<Rightarrow> ('s, 'r + 'b) state) \<Rightarrow> ('s, 'r + 'b) state" where
  "forUntil [] acc f = return (Inr acc)"
| "forUntil (x # xs) acc f = do {
     r \<leftarrow> f x acc;
     case r of Inl out \<Rightarrow> return (Inl out) | Inr acc' \<Rightarrow> forUntil xs acc' f }"

section \<open>Triples\<close>

definition valid :: "('s \<Rightarrow> bool) \<Rightarrow> ('s, 'a) state \<Rightarrow> ('a \<Rightarrow> 's \<Rightarrow> bool) \<Rightarrow> bool" where
  "valid P f Q \<longleftrightarrow> (\<forall>s. P s \<longrightarrow> Q (fst (run_state f s)) (snd (run_state f s)))"

definition keeps :: "('s \<Rightarrow> bool) \<Rightarrow> ('s, 'a) state \<Rightarrow> bool" where
  "keeps I f \<longleftrightarrow> valid I f (\<lambda>_. I)"

lemma run_gets [simp]: "run_state (gets f) s = (f s, s)"
  by (simp add: gets_def)

lemma run_modify [simp]: "run_state (modify f) s = ((), f s)"
  by (simp add: modify_def)

lemma validD: "valid P f Q \<Longrightarrow> P s \<Longrightarrow> run_state f s = (r, s') \<Longrightarrow> Q r s'"
  by (auto simp: valid_def)

lemma keepsD: "keeps I f \<Longrightarrow> I s \<Longrightarrow> I (snd (run_state f s))"
  by (simp add: keeps_def valid_def)

lemma valid_bind: "valid P f R \<Longrightarrow> (\<And>x. valid (R x) (g x) Q) \<Longrightarrow> valid P (State_Monad.bind f g) Q"
  by (auto simp: valid_def split: prod.splits)

lemma valid_return: "(\<And>s. P s \<Longrightarrow> Q x s) \<Longrightarrow> valid P (return x) Q"
  by (simp add: valid_def)

lemma valid_weaken: "valid P f Q \<Longrightarrow> (\<And>s. P' s \<Longrightarrow> P s) \<Longrightarrow> (\<And>r s. Q r s \<Longrightarrow> Q' r s) \<Longrightarrow> valid P' f Q'"
  by (simp add: valid_def)

lemma valid_pre_pure: "(X \<Longrightarrow> valid P f Q) \<Longrightarrow> valid (\<lambda>s. X \<and> P s) f Q"
  by (simp add: valid_def)

lemma valid_gets: "(\<And>s. P s \<Longrightarrow> Q (f s) s) \<Longrightarrow> valid P (gets f) Q"
  by (simp add: valid_def)

lemma valid_modify: "(\<And>s. P s \<Longrightarrow> Q () (f s)) \<Longrightarrow> valid P (modify f) Q"
  by (simp add: valid_def)

lemma valid_keeps: "keeps I f \<Longrightarrow> valid I f (\<lambda>_. I)"
  by (simp add: keeps_def)

lemma keeps_return [keep]: "keeps I (return x)"
  by (simp add: keeps_def valid_def)

lemma keeps_gets [keep]: "keeps I (gets f)"
  by (simp add: keeps_def valid_def)

lemma keeps_get [keep]: "keeps I State_Monad.get"
  by (simp add: keeps_def valid_def)

lemma keeps_bind [keep]: "keeps I f \<Longrightarrow> (\<And>x. keeps I (g x)) \<Longrightarrow> keeps I (State_Monad.bind f g)"
  unfolding keeps_def by (rule valid_bind)

lemma keeps_modify: "(\<And>s. I s \<Longrightarrow> I (f s)) \<Longrightarrow> keeps I (modify f)"
  by (simp add: keeps_def valid_def)

lemma keeps_if [keep]: "(b \<Longrightarrow> keeps I f) \<Longrightarrow> (\<not> b \<Longrightarrow> keeps I g) \<Longrightarrow> keeps I (if b then f else g)"
  by simp

lemma keeps_case_option [keep]: "(x = None \<Longrightarrow> keeps I f) \<Longrightarrow> (\<And>y. x = Some y \<Longrightarrow> keeps I (g y)) \<Longrightarrow> keeps I (case x of None \<Rightarrow> f | Some y \<Rightarrow> g y)"
  by (cases x) simp_all

lemma keeps_case_sum [keep]: "(\<And>x. keeps I (f x)) \<Longrightarrow> (\<And>x. keeps I (g x)) \<Longrightarrow> keeps I (case x of Inl y \<Rightarrow> f y | Inr y \<Rightarrow> g y)"
  by (cases x) simp_all

lemma keeps_case_prod [keep]: "(\<And>a b. keeps I (f a b)) \<Longrightarrow> keeps I (case x of (a, b) \<Rightarrow> f a b)"
  by (cases x) simp

lemma keeps_case_list [keep]: "keeps I f \<Longrightarrow> (\<And>x xs. keeps I (g x xs)) \<Longrightarrow> keeps I (case l of [] \<Rightarrow> f | x # xs \<Rightarrow> g x xs)"
  by (cases l) simp_all

lemma keeps_Let [keep]: "keeps I (f x) \<Longrightarrow> keeps I (Let x f)"
  by simp

lemma keeps_forEach [keep]: "(\<And>x. x \<in> set xs \<Longrightarrow> keeps I (f x)) \<Longrightarrow> keeps I (forEach xs f)"
  by (induction xs) (auto intro: keep)

lemma keeps_forUntil [keep]: "(\<And>x acc. x \<in> set xs \<Longrightarrow> keeps I (f x acc)) \<Longrightarrow> keeps I (forUntil xs acc f)"
  by (induction xs arbitrary: acc) (auto intro!: keep)

text \<open>A loop preserves an invariant of the accumulator and the state.\<close>

lemma valid_forUntil:
  assumes "\<And>x acc. x \<in> set xs \<Longrightarrow> valid (I acc) (f x acc) (\<lambda>r s. case r of Inl out \<Rightarrow> Q out s | Inr acc' \<Rightarrow> I acc' s)"
  shows "valid (I acc) (forUntil xs acc f) (\<lambda>r s. case r of Inl out \<Rightarrow> Q out s | Inr acc' \<Rightarrow> I acc' s)"
  using assms
proof (induction xs arbitrary: acc)
  case Nil
  then show ?case by (simp add: valid_def)
next
  case (Cons x xs)
  have "valid (I acc) (f x acc) (\<lambda>r s. case r of Inl out \<Rightarrow> Q out s | Inr acc' \<Rightarrow> I acc' s)"
    using Cons.prems by simp
  moreover have "valid (\<lambda>s. case r of Inl out \<Rightarrow> Q out s | Inr acc' \<Rightarrow> I acc' s)
      (case r of Inl out \<Rightarrow> return (Inl out) | Inr acc' \<Rightarrow> forUntil xs acc' f)
      (\<lambda>r s. case r of Inl out \<Rightarrow> Q out s | Inr acc' \<Rightarrow> I acc' s)" for r
    using Cons.IH Cons.prems by (cases r) (simp_all add: valid_def)
  ultimately show ?case unfolding forUntil.simps by (rule valid_bind)
qed

end
