(* ===== verification/EventBus.thy ===== *)
theory EventBus
  imports Go_Prelude
begin

text \<open>
  The in-process event bus, \<^verbatim>\<open>src/internal/eventbus/{types,bus}.go\<close>. The bus's mutex makes each
  operation atomic, so an operation is a function on the bus record. A subscriber's channel
  is a bounded buffer with a closed flag; channels stay readable after the bus has dropped
  them, so they are kept apart from the set of registered subscribers. Sending on or closing
  a closed channel panics in Go: those operations return \<open>None\<close> there.

  The lemmas show that the operations never panic, that a buffer never exceeds its capacity,
  that the retained history is the last 128 events of the whole publication log, and that
  what a subscriber reads is a subsequence of that log in publication order.
\<close>

section \<open>Data\<close>

datatype EventType =
    TypeRawOutput | TypeServerReady | TypeTestFailed | TypeTestPassed | TypePaneClosed
  | TypeMessageSent | TypeHealthChanged | TypeSubscribeError | TypeAgentStateChanged

record Event =
  ev_Type :: EventType
  ev_PaneID :: string
  ev_TaskID :: string
  ev_AgentID :: string
  ev_ZellijPaneID :: string
  ev_AgentKind :: string
  ev_PreviousState :: string
  ev_AgentState :: string
  ev_MatchedRule :: string
  ev_Reason :: string
  ev_Message :: string
  ev_Time :: time

definition emptyEvent :: "EventType \<Rightarrow> Event" where
  "emptyEvent ty = \<lparr>ev_Type = ty, ev_PaneID = [], ev_TaskID = [], ev_AgentID = [],
     ev_ZellijPaneID = [], ev_AgentKind = [], ev_PreviousState = [], ev_AgentState = [],
     ev_MatchedRule = [], ev_Reason = [], ev_Message = [], ev_Time = zeroTime\<rparr>"

text \<open>A buffered channel of capacity \<open>bufferN\<close> of the bus that made it.\<close>

record Chan =
  ch_buf :: "Event list"
  ch_closed :: bool

record Bus =
  bus_closed :: bool
  bus_nextID :: nat
  bus_subs :: "nat list"
  bus_chans :: "(nat, Chan) gomap"
  bus_bufferN :: nat
  bus_history :: "Event list"
  bus_historyN :: nat

definition defaultBuffer :: int where
  "defaultBuffer = 64"

definition defaultHistory :: nat where
  "defaultHistory = 128"

section \<open>Operations\<close>

definition NewWithBuffer :: "int \<Rightarrow> Bus" where
  "NewWithBuffer buffer =
     (let b = (if buffer < 1 then 1 else buffer)
      in \<lparr>bus_closed = False, bus_nextID = 0, bus_subs = [], bus_chans = [],
          bus_bufferN = nat b, bus_history = [], bus_historyN = defaultHistory\<rparr>)"

definition NewBus :: Bus where
  "NewBus = NewWithBuffer defaultBuffer"

text \<open>\<open>Subscribe\<close>: on a closed bus the caller gets a closed channel that the bus does not know.\<close>

definition Subscribe :: "Bus \<Rightarrow> Bus \<times> nat option" where
  "Subscribe b =
     (if bus_closed b then (b, None)
      else let i = bus_nextID b
           in (b\<lparr>bus_nextID := Suc i, bus_subs := bus_subs b @ [i],
                 bus_chans := mput (bus_chans b) i \<lparr>ch_buf = [], ch_closed = False\<rparr>\<rparr>, Some i))"

definition close_chan :: "nat \<Rightarrow> (nat, Chan) gomap \<Rightarrow> (nat, Chan) gomap option" where
  "close_chan i chs =
     (case mget chs i of
        None \<Rightarrow> None
      | Some c \<Rightarrow> if ch_closed c then None else Some (mput chs i (c\<lparr>ch_closed := True\<rparr>)))"

text \<open>The function \<open>Subscribe\<close> returns; the subscription's context runs it when it ends.\<close>

definition unregister :: "nat \<Rightarrow> Bus \<Rightarrow> Bus option" where
  "unregister i b =
     (if i \<in> set (bus_subs b)
      then map_option (\<lambda>chs. b\<lparr>bus_subs := filter (\<lambda>j. j \<noteq> i) (bus_subs b), bus_chans := chs\<rparr>)
             (close_chan i (bus_chans b))
      else Some b)"

text \<open>One non-blocking send of \<open>Publish\<close>: a full buffer drops the event.\<close>

definition offer :: "nat \<Rightarrow> Event \<Rightarrow> nat \<Rightarrow> (nat, Chan) gomap \<Rightarrow> (nat, Chan) gomap option" where
  "offer cap e i chs =
     (case mget chs i of
        None \<Rightarrow> None
      | Some c \<Rightarrow>
          if ch_closed c then None
          else if length (ch_buf c) < cap then Some (mput chs i (c\<lparr>ch_buf := ch_buf c @ [e]\<rparr>))
          else Some chs)"

fun offer_all :: "nat \<Rightarrow> Event \<Rightarrow> nat list \<Rightarrow> (nat, Chan) gomap \<Rightarrow> (nat, Chan) gomap option" where
  "offer_all cap e [] chs = Some chs"
| "offer_all cap e (i # is) chs = Option.bind (offer cap e i chs) (offer_all cap e is)"

definition Publish :: "Event \<Rightarrow> Bus \<Rightarrow> Bus option" where
  "Publish e b =
     (if bus_closed b then Some b
      else let h = bus_history b @ [e];
               h' = drop (length h - bus_historyN b) h
           in map_option (\<lambda>chs. b\<lparr>bus_history := h', bus_chans := chs\<rparr>)
                (offer_all (bus_bufferN b) e (bus_subs b) (bus_chans b)))"

definition Recent :: "Bus \<Rightarrow> int \<Rightarrow> Event list" where
  "Recent b limit =
     (let n = length (bus_history b);
          start = (if 0 < limit \<and> limit < int n then n - nat limit else 0)
      in drop start (bus_history b))"

fun close_all :: "nat list \<Rightarrow> (nat, Chan) gomap \<Rightarrow> (nat, Chan) gomap option" where
  "close_all [] chs = Some chs"
| "close_all (i # is) chs = Option.bind (close_chan i chs) (close_all is)"

definition Close :: "Bus \<Rightarrow> Bus option" where
  "Close b =
     (if bus_closed b then Some b
      else map_option (\<lambda>chs. b\<lparr>bus_closed := True, bus_subs := [], bus_chans := chs\<rparr>)
             (close_all (bus_subs b) (bus_chans b)))"

text \<open>A receive by the owner of channel \<open>i\<close>: the oldest buffered event, if there is one.\<close>

definition receive :: "nat \<Rightarrow> Bus \<Rightarrow> Bus \<times> Event option" where
  "receive i b =
     (case mget (bus_chans b) i of
        None \<Rightarrow> (b, None)
      | Some c \<Rightarrow>
          (case ch_buf c of
             [] \<Rightarrow> (b, None)
           | e # es \<Rightarrow> (b\<lparr>bus_chans := mput (bus_chans b) i (c\<lparr>ch_buf := es\<rparr>)\<rparr>, Some e)))"

section \<open>Runs\<close>

text \<open>
  The operations in the order the mutex lets them in, with two histories the code does not
  keep: every event published while the bus was open, and what each subscriber has read.
\<close>

datatype bus_op = OpPublish Event | OpSubscribe | OpUnregister nat | OpReceive nat | OpClose

record bus_run =
  run_bus :: Bus
  run_log :: "Event list"
  run_read :: "nat \<Rightarrow> Event list"

definition run_new :: "int \<Rightarrow> bus_run" where
  "run_new buffer = \<lparr>run_bus = NewWithBuffer buffer, run_log = [], run_read = (\<lambda>_. [])\<rparr>"

fun bus_step :: "bus_op \<Rightarrow> bus_run \<Rightarrow> bus_run option" where
  "bus_step (OpPublish e) r =
     map_option (\<lambda>b. r\<lparr>run_bus := b,
                       run_log := (if bus_closed (run_bus r) then run_log r else run_log r @ [e])\<rparr>)
       (Publish e (run_bus r))"
| "bus_step OpSubscribe r = Some (r\<lparr>run_bus := fst (Subscribe (run_bus r))\<rparr>)"
| "bus_step (OpUnregister i) r = map_option (\<lambda>b. r\<lparr>run_bus := b\<rparr>) (unregister i (run_bus r))"
| "bus_step (OpReceive i) r =
     Some (case receive i (run_bus r) of
             (b, None) \<Rightarrow> r
           | (b, Some e) \<Rightarrow> r\<lparr>run_bus := b, run_read := (run_read r)(i := run_read r i @ [e])\<rparr>)"
| "bus_step OpClose r = map_option (\<lambda>b. r\<lparr>run_bus := b\<rparr>) (Close (run_bus r))"

fun bus_exec :: "bus_op list \<Rightarrow> bus_run \<Rightarrow> bus_run option" where
  "bus_exec [] r = Some r"
| "bus_exec (x # xs) r = Option.bind (bus_step x r) (bus_exec xs)"

section \<open>Invariant\<close>

text \<open>
  Registered channels exist and are open, identifiers are fresh, buffers fit, and the two
  histories agree with the bus.
\<close>

definition chans_ok :: "nat \<Rightarrow> nat \<Rightarrow> (nat, Chan) gomap \<Rightarrow> bool" where
  "chans_ok next cap chs \<longleftrightarrow>
     mapok chs \<and> (\<forall>i c. mget chs i = Some c \<longrightarrow> i < next \<and> length (ch_buf c) \<le> cap)"

definition subs_open :: "nat list \<Rightarrow> (nat, Chan) gomap \<Rightarrow> bool" where
  "subs_open is chs \<longleftrightarrow>
     distinct is \<and> (\<forall>i \<in> set is. \<exists>c. mget chs i = Some c \<and> \<not> ch_closed c)"

definition bus_inv :: "Bus \<Rightarrow> bool" where
  "bus_inv b \<longleftrightarrow>
     chans_ok (bus_nextID b) (bus_bufferN b) (bus_chans b) \<and>
     subs_open (bus_subs b) (bus_chans b) \<and> 0 < bus_bufferN b \<and> bus_historyN b = defaultHistory"

definition buffered :: "Bus \<Rightarrow> nat \<Rightarrow> Event list" where
  "buffered b i = (case mget (bus_chans b) i of None \<Rightarrow> [] | Some c \<Rightarrow> ch_buf c)"

definition stream_of :: "bus_run \<Rightarrow> nat \<Rightarrow> Event list" where
  "stream_of r i =
     run_read r i @ buffered (run_bus r) i"

definition run_inv :: "bus_run \<Rightarrow> bool" where
  "run_inv r \<longleftrightarrow>
     bus_inv (run_bus r) \<and>
     bus_history (run_bus r) = drop (length (run_log r) - defaultHistory) (run_log r) \<and>
     (\<forall>i. subseq (stream_of r i) (run_log r)) \<and>
     (\<forall>i. run_read r i \<noteq> [] \<longrightarrow> i < bus_nextID (run_bus r))"

section \<open>The operations keep the invariant\<close>

lemma offer_ok:
  assumes "chans_ok n cap chs" and "mget chs i = Some c" and "\<not> ch_closed c"
  shows "\<exists>chs'. offer cap e i chs = Some chs' \<and> chans_ok n cap chs' \<and>
    (\<forall>j. mget chs' j = (if j = i \<and> length (ch_buf c) < cap
                        then Some (c\<lparr>ch_buf := ch_buf c @ [e]\<rparr>) else mget chs j))"
  using assms by (auto simp: offer_def chans_ok_def)

lemma offer_all_ok:
  assumes "chans_ok n cap chs" and "subs_open is chs"
  shows "\<exists>chs'. offer_all cap e is chs = Some chs' \<and> chans_ok n cap chs' \<and> subs_open is chs' \<and>
    (\<forall>j. mget chs' j = (case mget chs j of
           None \<Rightarrow> None
         | Some c \<Rightarrow> if j \<in> set is \<and> length (ch_buf c) < cap
                      then Some (c\<lparr>ch_buf := ch_buf c @ [e]\<rparr>) else Some c))"
  using assms
proof (induction "is" arbitrary: chs)
  case Nil
  then show ?case by (auto split: option.splits)
next
  case (Cons i "is")
  from Cons.prems(2) obtain c where c: "mget chs i = Some c" "\<not> ch_closed c" and "i \<notin> set is"
    by (auto simp: subs_open_def)
  from offer_ok [OF Cons.prems(1) c, of e] obtain chs1 where
    o: "offer cap e i chs = Some chs1" and ok1: "chans_ok n cap chs1"
    and g1: "\<And>j. mget chs1 j = (if j = i \<and> length (ch_buf c) < cap
                then Some (c\<lparr>ch_buf := ch_buf c @ [e]\<rparr>) else mget chs j)" by blast
  have "subs_open is chs1"
    using Cons.prems(2) \<open>i \<notin> set is\<close> by (auto simp: subs_open_def g1)
  from Cons.IH [OF ok1 this] obtain chs2 where
    o2: "offer_all cap e is chs1 = Some chs2" and ok2: "chans_ok n cap chs2"
    and s2: "subs_open is chs2"
    and g2: "\<And>j. mget chs2 j = (case mget chs1 j of None \<Rightarrow> None
         | Some c \<Rightarrow> if j \<in> set is \<and> length (ch_buf c) < cap
                      then Some (c\<lparr>ch_buf := ch_buf c @ [e]\<rparr>) else Some c)" by blast
  have "subs_open (i # is) chs2"
    using s2 c \<open>i \<notin> set is\<close> by (auto simp: subs_open_def g1 g2)
  moreover have "mget chs2 j = (case mget chs j of None \<Rightarrow> None
         | Some c \<Rightarrow> if j \<in> set (i # is) \<and> length (ch_buf c) < cap
                      then Some (c\<lparr>ch_buf := ch_buf c @ [e]\<rparr>) else Some c)" for j
    using c \<open>i \<notin> set is\<close> by (auto simp: g1 g2 split: option.splits)
  ultimately show ?case using o o2 ok2 by auto
qed

lemma close_chan_ok:
  assumes "chans_ok n cap chs" and "mget chs i = Some c" and "\<not> ch_closed c"
  shows "\<exists>chs'. close_chan i chs = Some chs' \<and> chans_ok n cap chs' \<and>
    (\<forall>j. mget chs' j = (if j = i then Some (c\<lparr>ch_closed := True\<rparr>) else mget chs j))"
  using assms by (auto simp: close_chan_def chans_ok_def)

lemma close_all_ok:
  assumes "chans_ok n cap chs" and "subs_open is chs"
  shows "\<exists>chs'. close_all is chs = Some chs' \<and> chans_ok n cap chs' \<and>
    (\<forall>j. map_option ch_buf (mget chs' j) = map_option ch_buf (mget chs j))"
  using assms
proof (induction "is" arbitrary: chs)
  case (Cons i "is")
  from Cons.prems(2) obtain c where c: "mget chs i = Some c" "\<not> ch_closed c" and "i \<notin> set is"
    by (auto simp: subs_open_def)
  from close_chan_ok [OF Cons.prems(1) c] obtain chs1 where
    o: "close_chan i chs = Some chs1" and ok1: "chans_ok n cap chs1"
    and g1: "\<And>j. mget chs1 j = (if j = i then Some (c\<lparr>ch_closed := True\<rparr>) else mget chs j)"
    by blast
  have "subs_open is chs1"
    using Cons.prems(2) \<open>i \<notin> set is\<close> by (auto simp: subs_open_def g1)
  from Cons.IH [OF ok1 this] obtain chs2 where "close_all is chs1 = Some chs2"
    "chans_ok n cap chs2" "\<And>j. map_option ch_buf (mget chs2 j) = map_option ch_buf (mget chs1 j)"
    by blast
  then show ?case using o c by (auto simp: g1)
qed simp

lemma bus_inv_new: "bus_inv (NewWithBuffer buffer)"
  by (simp add: bus_inv_def NewWithBuffer_def Let_def chans_ok_def subs_open_def)

lemma bus_inv_subscribe: "bus_inv b \<Longrightarrow> bus_inv (fst (Subscribe b))"
  by (auto simp: Subscribe_def Let_def bus_inv_def chans_ok_def subs_open_def less_Suc_eq)
    (metis less_irrefl)

lemma Subscribe_bufs:
  assumes "bus_inv b"
  shows "buffered (fst (Subscribe b)) i = buffered b i"
proof -
  have "mget (bus_chans b) (bus_nextID b) = None"
    using assms by (cases "mget (bus_chans b) (bus_nextID b)") (auto simp: bus_inv_def chans_ok_def)
  then show ?thesis by (auto simp: buffered_def Subscribe_def Let_def)
qed

lemma unregister_ok:
  assumes "bus_inv b"
  shows "\<exists>b'. unregister i b = Some b' \<and> bus_inv b' \<and> bus_history b' = bus_history b \<and>
    bus_nextID b' = bus_nextID b \<and>
    (\<forall>j. map_option ch_buf (mget (bus_chans b') j) = map_option ch_buf (mget (bus_chans b) j))"
proof (cases "i \<in> set (bus_subs b)")
  case True
  with assms obtain c where c: "mget (bus_chans b) i = Some c" "\<not> ch_closed c"
    and ok: "chans_ok (bus_nextID b) (bus_bufferN b) (bus_chans b)"
    by (auto simp: bus_inv_def subs_open_def)
  from close_chan_ok [OF ok c] obtain chs' where "close_chan i (bus_chans b) = Some chs'"
    and "chans_ok (bus_nextID b) (bus_bufferN b) chs'"
    and "\<And>j. mget chs' j = (if j = i then Some (c\<lparr>ch_closed := True\<rparr>) else mget (bus_chans b) j)"
    by blast
  with True assms c show ?thesis by (auto simp: unregister_def bus_inv_def subs_open_def)
qed (use assms in \<open>simp add: unregister_def\<close>)

lemma Close_ok:
  assumes "bus_inv b"
  shows "\<exists>b'. Close b = Some b' \<and> bus_inv b' \<and> bus_closed b' \<and> bus_history b' = bus_history b \<and>
    bus_nextID b' = bus_nextID b \<and>
    (\<forall>j. map_option ch_buf (mget (bus_chans b') j) = map_option ch_buf (mget (bus_chans b) j))"
proof (cases "bus_closed b")
  case False
  from assms obtain chs' where "close_all (bus_subs b) (bus_chans b) = Some chs'"
    and "chans_ok (bus_nextID b) (bus_bufferN b) chs'"
    and "\<And>j. map_option ch_buf (mget chs' j) = map_option ch_buf (mget (bus_chans b) j)"
    using close_all_ok by (metis bus_inv_def)
  with False assms show ?thesis by (auto simp: Close_def bus_inv_def subs_open_def)
qed (use assms in \<open>simp add: Close_def\<close>)

text \<open>
  \<open>Publish\<close> on an open bus: the event joins the history and the buffer of every registered
  subscriber with room, and nothing else changes.
\<close>

lemma Publish_ok:
  assumes "bus_inv b" and "\<not> bus_closed b"
  shows "\<exists>b'. Publish e b = Some b' \<and> bus_inv b' \<and>
    bus_history b' = drop (Suc (length (bus_history b)) - defaultHistory) (bus_history b @ [e]) \<and>
    bus_nextID b' = bus_nextID b \<and> bus_subs b' = bus_subs b \<and>
    (\<forall>j. mget (bus_chans b') j = (case mget (bus_chans b) j of
           None \<Rightarrow> None
         | Some c \<Rightarrow> if j \<in> set (bus_subs b) \<and> length (ch_buf c) < bus_bufferN b
                      then Some (c\<lparr>ch_buf := ch_buf c @ [e]\<rparr>) else Some c))"
proof -
  from assms(1) have "chans_ok (bus_nextID b) (bus_bufferN b) (bus_chans b)"
    and "subs_open (bus_subs b) (bus_chans b)" and h: "bus_historyN b = defaultHistory"
    by (auto simp: bus_inv_def)
  from offer_all_ok [OF this(1,2), of e] obtain chs' where
    "offer_all (bus_bufferN b) e (bus_subs b) (bus_chans b) = Some chs'"
    "chans_ok (bus_nextID b) (bus_bufferN b) chs'" "subs_open (bus_subs b) chs'"
    "\<forall>j. mget chs' j = (case mget (bus_chans b) j of None \<Rightarrow> None
         | Some c \<Rightarrow> if j \<in> set (bus_subs b) \<and> length (ch_buf c) < bus_bufferN b
                      then Some (c\<lparr>ch_buf := ch_buf c @ [e]\<rparr>) else Some c)" by blast
  with assms h show ?thesis by (simp add: Publish_def Let_def bus_inv_def)
qed

section \<open>Every run keeps the run invariant\<close>

lemma last_n_snoc:
  "drop (Suc (length (drop (length xs - n) xs)) - n) (drop (length xs - n) xs @ [x])
   = drop (length (xs @ [x]) - n) (xs @ [x])"
  by (cases "n \<le> length xs") (auto simp: Suc_diff_le)

lemma subseq_snoc_both: "subseq xs ys \<Longrightarrow> subseq (xs @ [x]) (ys @ [x])"
  by (simp add: list_emb_append_mono)

lemma subseq_snoc_right: "subseq xs ys \<Longrightarrow> subseq xs (ys @ [y])"
  by (rule subseq_order.order_trans [of xs ys]) auto

lemma stream_same_bufs:
  assumes "\<And>j. map_option ch_buf (mget (bus_chans b) j) = map_option ch_buf (mget (bus_chans (run_bus r)) j)"
  shows "stream_of (r\<lparr>run_bus := b\<rparr>) i = stream_of r i"
  using assms [of i] by (auto simp: stream_of_def buffered_def split: option.splits)

lemma run_inv_new: "run_inv (run_new buffer)"
  using bus_inv_new [of buffer]
  by (simp add: run_inv_def run_new_def stream_of_def buffered_def NewWithBuffer_def Let_def)

lemma run_inv_publish:
  assumes "run_inv r"
  shows "\<exists>r'. bus_step (OpPublish e) r = Some r' \<and> run_inv r'"
proof (cases "bus_closed (run_bus r)")
  case True
  then show ?thesis using assms by (simp add: Publish_def)
next
  case False
  from assms have inv: "bus_inv (run_bus r)" by (simp add: run_inv_def)
  from Publish_ok [OF inv False, of e] obtain b' where p: "Publish e (run_bus r) = Some b'"
    and "bus_inv b'"
    and h: "bus_history b' = drop (Suc (length (bus_history (run_bus r))) - defaultHistory)
              (bus_history (run_bus r) @ [e])"
    and n: "bus_nextID b' = bus_nextID (run_bus r)"
    and g: "\<And>j. mget (bus_chans b') j = (case mget (bus_chans (run_bus r)) j of None \<Rightarrow> None
         | Some c \<Rightarrow> if j \<in> set (bus_subs (run_bus r)) \<and> length (ch_buf c) < bus_bufferN (run_bus r)
                      then Some (c\<lparr>ch_buf := ch_buf c @ [e]\<rparr>) else Some c)" by blast
  let ?r' = "r\<lparr>run_bus := b', run_log := run_log r @ [e]\<rparr>"
  have "subseq (stream_of ?r' i) (run_log r @ [e])" for i
  proof -
    have "stream_of ?r' i = stream_of r i \<or> stream_of ?r' i = stream_of r i @ [e]"
      by (auto simp: stream_of_def buffered_def g split: option.splits)
    then show ?thesis
      using assms subseq_snoc_both subseq_snoc_right by (metis run_inv_def)
  qed
  moreover have "bus_history b' = drop (length (run_log r @ [e]) - defaultHistory) (run_log r @ [e])"
    using assms h unfolding run_inv_def by (simp only: last_n_snoc)
  ultimately show ?thesis
    using False p n \<open>bus_inv b'\<close> assms by (auto simp: run_inv_def)
qed

lemma run_inv_receive:
  assumes "run_inv r"
  shows "\<exists>r'. bus_step (OpReceive i) r = Some r' \<and> run_inv r'"
proof (cases "mget (bus_chans (run_bus r)) i")
  case None
  then show ?thesis using assms by (simp add: receive_def)
next
  case (Some c)
  show ?thesis
  proof (cases "ch_buf c")
    case Nil
    then show ?thesis using Some assms by (simp add: receive_def)
  next
    case (Cons e es)
    let ?b = "(run_bus r)\<lparr>bus_chans := mput (bus_chans (run_bus r)) i (c\<lparr>ch_buf := es\<rparr>)\<rparr>"
    let ?r = "r\<lparr>run_bus := ?b, run_read := (run_read r)(i := run_read r i @ [e])\<rparr>"
    have "stream_of ?r j = stream_of r j" for j
      using Some Cons by (simp add: stream_of_def buffered_def)
    moreover have "bus_inv ?b"
      using assms Some Cons by (fastforce simp: run_inv_def bus_inv_def chans_ok_def subs_open_def)
    moreover have "i < bus_nextID (run_bus r)"
      using assms Some by (auto simp: run_inv_def bus_inv_def chans_ok_def)
    ultimately have "run_inv ?r" using assms by (auto simp: run_inv_def)
    then show ?thesis using Some Cons by (simp add: receive_def)
  qed
qed

lemma run_inv_subscribe:
  assumes "run_inv r"
  shows "run_inv (r\<lparr>run_bus := fst (Subscribe (run_bus r))\<rparr>)"
proof -
  have inv: "bus_inv (run_bus r)" using assms by (simp add: run_inv_def)
  have "stream_of (r\<lparr>run_bus := fst (Subscribe (run_bus r))\<rparr>) i = stream_of r i" for i
    by (simp add: stream_of_def Subscribe_bufs [OF inv])
  moreover have "bus_history (fst (Subscribe b)) = bus_history b" for b
    by (simp add: Subscribe_def Let_def)
  moreover have "bus_nextID b \<le> bus_nextID (fst (Subscribe b))" for b
    by (simp add: Subscribe_def Let_def)
  ultimately show ?thesis
    using assms bus_inv_subscribe [OF inv] by (auto simp: run_inv_def intro: less_le_trans)
qed

lemma run_inv_step: "run_inv r \<Longrightarrow> \<exists>r'. bus_step x r = Some r' \<and> run_inv r'"
proof (cases x)
  case (OpUnregister i)
  assume r: "run_inv r"
  then obtain b' where "unregister i (run_bus r) = Some b'" "bus_inv b'"
    "bus_history b' = bus_history (run_bus r)" "bus_nextID b' = bus_nextID (run_bus r)"
    "\<And>j. map_option ch_buf (mget (bus_chans b') j) = map_option ch_buf (mget (bus_chans (run_bus r)) j)"
    using unregister_ok by (metis run_inv_def)
  then show ?thesis using r OpUnregister by (auto simp: run_inv_def stream_same_bufs)
next
  case OpClose
  assume r: "run_inv r"
  then obtain b' where "Close (run_bus r) = Some b'" "bus_inv b'"
    "bus_history b' = bus_history (run_bus r)" "bus_nextID b' = bus_nextID (run_bus r)"
    "\<And>j. map_option ch_buf (mget (bus_chans b') j) = map_option ch_buf (mget (bus_chans (run_bus r)) j)"
    using Close_ok by (metis run_inv_def)
  then show ?thesis using r OpClose by (auto simp: run_inv_def stream_same_bufs)
next
  case (OpPublish e)
  assume "run_inv r"
  then show ?thesis unfolding OpPublish by (rule run_inv_publish)
next
  case (OpReceive i)
  assume "run_inv r"
  then show ?thesis unfolding OpReceive by (rule run_inv_receive)
next
  case OpSubscribe
  assume "run_inv r"
  then show ?thesis using OpSubscribe run_inv_subscribe by simp
qed

lemma run_inv_exec: "run_inv r \<Longrightarrow> \<exists>r'. bus_exec xs r = Some r' \<and> run_inv r'"
proof (induction xs arbitrary: r)
  case (Cons x xs)
  from run_inv_step [OF Cons.prems, of x] obtain r1 where "bus_step x r = Some r1" "run_inv r1"
    by blast
  then show ?case using Cons.IH by auto
qed simp

lemma bus_step_bufferN:
  "bus_step x r = Some r' \<Longrightarrow> bus_bufferN (run_bus r') = bus_bufferN (run_bus r)"
  by (cases x)
    (auto simp: Publish_def Let_def Subscribe_def unregister_def Close_def receive_def
      split: if_splits option.splits list.splits)

lemma bus_exec_bufferN:
  "bus_exec xs r = Some r' \<Longrightarrow> bus_bufferN (run_bus r') = bus_bufferN (run_bus r)"
proof (induction xs arbitrary: r)
  case (Cons x xs)
  then obtain r1 where "bus_step x r = Some r1" "bus_exec xs r1 = Some r'"
    by (cases "bus_step x r") auto
  then show ?case using Cons.IH bus_step_bufferN by fastforce
qed simp

lemma buffered_bound: "bus_inv b \<Longrightarrow> length (buffered b i) \<le> bus_bufferN b"
  by (auto simp: buffered_def bus_inv_def chans_ok_def split: option.splits)

lemma run_new_bufferN: "bus_bufferN (run_bus (run_new buffer)) = nat (max 1 buffer)"
  by (simp add: run_new_def NewWithBuffer_def Let_def max_def)

section \<open>Properties\<close>


text \<open>\<open>Recent\<close> answers from the log: after any run, a positive limit gives the last
  \<open>min limit 128\<close> published events, and a non-positive one the last 128.\<close>

theorem Recent_is_log_suffix:
  assumes "bus_exec ops (run_new buffer) = Some r"
  shows "Recent (run_bus r) limit =
    drop (length (run_log r) - (if 0 < limit then min (nat limit) 128 else 128)) (run_log r)"
proof -
  have "run_inv r" using assms run_inv_exec [OF run_inv_new] by (metis option.inject)
  then have h: "bus_history (run_bus r) = drop (length (run_log r) - 128) (run_log r)"
    by (simp add: run_inv_def defaultHistory_def)
  have "length (run_log r) - 128 = length (run_log r) - nat limit"
    if "\<not> limit < int (length (run_log r)) - int (length (run_log r) - 128)" and "nat limit \<le> 128"
    using that by linarith
  then show ?thesis by (auto simp: Recent_def Let_def h min_def)
qed

theorem Recent_is_log_suffix_witness:
  "\<exists>r. bus_exec [OpSubscribe, OpPublish (emptyEvent TypeRawOutput), OpPublish (emptyEvent TypePaneClosed)]
          (run_new 1) = Some r \<and>
       Recent (run_bus r) 1 = [emptyEvent TypePaneClosed]"
proof -
  let ?ops = "[OpSubscribe, OpPublish (emptyEvent TypeRawOutput), OpPublish (emptyEvent TypePaneClosed)]"
  obtain r where r: "bus_exec ?ops (run_new 1) = Some r" and
    l: "run_log r = [emptyEvent TypeRawOutput, emptyEvent TypePaneClosed]"
    by (simp add: run_new_def NewWithBuffer_def Let_def Subscribe_def Publish_def offer_def)
  show ?thesis using r Recent_is_log_suffix [OF r, of 1] by (simp add: l)
qed

end
