(* ===== verification/Persistence.thy ===== *)
theory Persistence
  imports Go_Prelude
begin

text \<open>
  The asynchronous writer of \<^verbatim>\<open>src/internal/persistence/writer.go\<close>: producers append changes
  to a FIFO under a short lock, one goroutine takes up to 256 of them, commits them in one
  transaction and retries the same batch until it commits or the writer is cancelled.

  A row's data is the stored value itself (the type variable), standing for its JSON text.
  The SQLite connection is the component's environment: the outcome of a commit attempt is
  an argument, and the parts of it that the code decides are written out (an invalid table,
  the unique index on the pane of an agent). \<open>run_iter\<close> is one pass of the goroutine's loop;
  producers interleave between passes. The lock file, the schema set-up and the wake-up
  channel carry no state that the changes depend on and are left out.

  The lemmas show that the database always is the effect of a prefix of everything enqueued,
  in order and without gaps; that a waiting producer hears success only for a change in that
  prefix; and that a closing writer on working storage drains the queue completely.
\<close>

section \<open>Data\<close>

type_synonym Table = string

definition Sessions :: Table where "Sessions = ''sessions''"
definition Tabs :: Table where "Tabs = ''tabs''"
definition Panes :: Table where "Panes = ''panes''"
definition Agents :: Table where "Agents = ''agents''"
definition Metadata :: Table where "Metadata = ''metadata''"
definition Followups :: Table where "Followups = ''followup_queues''"

lemmas table_defs = Sessions_def Tabs_def Panes_def Agents_def Metadata_def Followups_def

definition tables :: "Table list" where
  "tables = [Sessions, Tabs, Panes, Agents, Metadata, Followups]"

record 'v Change =
  c_Table :: Table
  c_ID :: string
  c_Parent :: string
  c_PaneID :: string
  c_Value :: "'v option"

record 'v Row =
  row_ID :: string
  row_Parent :: string
  row_PaneID :: string
  row_Data :: 'v

text \<open>A queued change carries the acknowledgement channel of a waiting producer, by number.\<close>

record 'v queuedChange =
  q_Change :: "'v Change"
  q_committed :: "nat option"

type_synonym 'v db = "Table \<Rightarrow> (string, 'v Row) gomap"

datatype persist_error =
    ErrClosed | ErrInvalidTable string | ErrUniquePane string | ErrStorage string | ErrContext

text \<open>
  The writer: \<open>w_batch\<close> is the loop's local batch, \<open>w_ctxDone\<close> its cancelled context,
  \<open>w_acks\<close> what it sent on acknowledgement channels (an empty list of errors is \<open>nil\<close>), and
  \<open>w_panicked\<close> records the panic of \<open>Enqueue\<close> on a closing writer.
\<close>

record 'v Writer =
  w_db :: "'v db"
  w_pending :: "'v queuedChange list"
  w_closing :: bool
  w_batch :: "'v queuedChange list"
  w_ctxDone :: bool
  w_done :: bool
  w_err :: "persist_error list"
  w_acks :: "(nat \<times> persist_error list) list"
  w_panicked :: bool

definition OpenWriter :: "'v db \<Rightarrow> 'v Writer" where
  "OpenWriter d = \<lparr>w_db = d, w_pending = [], w_closing = False, w_batch = [], w_ctxDone = False,
     w_done = False, w_err = [], w_acks = [], w_panicked = False\<rparr>"

section \<open>Operations\<close>

definition validTable :: "Table \<Rightarrow> bool" where
  "validTable t \<longleftrightarrow> t \<in> set tables"

definition Enqueue :: "'v Change list \<Rightarrow> 'v Writer \<Rightarrow> 'v Writer" where
  "Enqueue cs w =
     (if w_closing w then w\<lparr>w_panicked := True\<rparr>
      else w\<lparr>w_pending := w_pending w @ map (\<lambda>c. \<lparr>q_Change = c, q_committed = None\<rparr>) cs\<rparr>)"

text \<open>The part of \<open>EnqueueAndWait\<close> before it waits on its acknowledgement channel.\<close>

definition EnqueueAndWait :: "bool \<Rightarrow> 'v Change \<Rightarrow> nat \<Rightarrow> 'v Writer \<Rightarrow> persist_error + 'v Writer" where
  "EnqueueAndWait ctxErr c tok w =
     (if ctxErr then Inl ErrContext
      else if w_closing w \<or> w_ctxDone w then Inl ErrClosed
      else Inr (w\<lparr>w_pending := w_pending w @ [\<lparr>q_Change = c, q_committed = Some tok\<rparr>]\<rparr>))"

definition Load :: "'v db \<Rightarrow> Table \<Rightarrow> persist_error + 'v Row list" where
  "Load d t =
     (if \<not> validTable t then Inl (ErrInvalidTable t)
      else Inr (map snd (sort_key fst (d t))))"

text \<open>
  One statement of a transaction. The upsert conflicts on the row's id only, so the unique
  index on \<open>agents(pane_id)\<close> refuses a pane that another agent's row holds.
\<close>

definition apply_change :: "'v db \<Rightarrow> 'v Change \<Rightarrow> persist_error + 'v db" where
  "apply_change d c =
     (if \<not> validTable (c_Table c) then Inl (ErrInvalidTable (c_Table c))
      else case c_Value c of
        None \<Rightarrow> Inr (d(c_Table c := mdel (d (c_Table c)) (c_ID c)))
      | Some v \<Rightarrow>
          if c_Table c = Agents \<and>
             list_ex (\<lambda>(k, row). k \<noteq> c_ID c \<and> row_PaneID row = c_PaneID c) (d Agents)
          then Inl (ErrUniquePane (c_PaneID c))
          else Inr (d(c_Table c := mput (d (c_Table c)) (c_ID c)
                 \<lparr>row_ID = c_ID c, row_Parent = c_Parent c, row_PaneID = c_PaneID c, row_Data = v\<rparr>)))"

fun apply_changes :: "'v db \<Rightarrow> 'v Change list \<Rightarrow> persist_error + 'v db" where
  "apply_changes d [] = Inr d"
| "apply_changes d (c # cs) =
     (case apply_change d c of Inl e \<Rightarrow> Inl e | Inr d' \<Rightarrow> apply_changes d' cs)"

text \<open>\<open>commit\<close>: an error of the connection or of any statement rolls the whole batch back.\<close>

definition commit :: "persist_error option \<Rightarrow> 'v db \<Rightarrow> 'v queuedChange list \<Rightarrow> persist_error + 'v db" where
  "commit storage d batch =
     (case storage of Some e \<Rightarrow> Inl e | None \<Rightarrow> apply_changes d (map q_Change batch))"

definition acknowledge ::
  "'v queuedChange list \<Rightarrow> persist_error list \<Rightarrow> (nat \<times> persist_error list) list" where
  "acknowledge batch err = List.map_filter (\<lambda>q. map_option (\<lambda>t. (t, err)) (q_committed q)) batch"

text \<open>The deferred function of \<open>run\<close>.\<close>

definition run_exit :: "persist_error list \<Rightarrow> 'v Writer \<Rightarrow> 'v Writer" where
  "run_exit err w =
     w\<lparr>w_closing := True, w_pending := [], w_batch := [], w_done := True, w_err := err,
       w_acks := w_acks w @ acknowledge (w_batch w) (ErrClosed # err)
                          @ acknowledge (w_pending w) (ErrClosed # err)\<rparr>"

definition take_batch :: "'v Writer \<Rightarrow> 'v Writer" where
  "take_batch w =
     (if w_batch w = [] then w\<lparr>w_batch := take 256 (w_pending w), w_pending := drop 256 (w_pending w)\<rparr>
      else w)"

text \<open>One pass of the loop; \<open>storage\<close> is what the connection answers to this commit.\<close>

definition run_iter :: "persist_error option \<Rightarrow> 'v Writer \<Rightarrow> 'v Writer" where
  "run_iter storage w =
     (if w_done w then w
      else let w1 = take_batch w in
        if w_batch w1 = [] then
          (if w_closing w1 then run_exit [] w1
           else if w_ctxDone w1 then run_exit [ErrContext] w1
           else w1)
        else (case commit (if w_ctxDone w1 then Some ErrContext else storage) (w_db w1) (w_batch w1) of
            Inl e \<Rightarrow> if w_ctxDone w1 then run_exit [ErrContext, e] w1 else w1
          | Inr d' \<Rightarrow> w1\<lparr>w_db := d', w_batch := [], w_acks := w_acks w1 @ acknowledge (w_batch w1) []\<rparr>))"

definition CloseWriter :: "'v Writer \<Rightarrow> 'v Writer" where
  "CloseWriter w = w\<lparr>w_closing := True\<rparr>"

definition CancelWriter :: "'v Writer \<Rightarrow> 'v Writer" where
  "CancelWriter w = w\<lparr>w_ctxDone := True\<rparr>"

text \<open>The goroutine from here on, for at most \<open>n\<close> passes, on storage that answers.\<close>

fun run_loop :: "nat \<Rightarrow> 'v Writer \<Rightarrow> 'v Writer" where
  "run_loop 0 w = w"
| "run_loop (Suc n) w = run_loop n (run_iter None w)"

section \<open>Runs\<close>

text \<open>
  A run of the writer with a log the code does not keep: every change accepted so far. The
  rules are the critical sections of the producers, one pass of the loop, and shutdown.
\<close>

inductive wsteps :: "'v Writer \<times> 'v queuedChange list \<Rightarrow> 'v Writer \<times> 'v queuedChange list \<Rightarrow> bool" where
  start: "wsteps s s"
| enqueue: "wsteps s (w, log) \<Longrightarrow> \<not> w_closing w \<Longrightarrow>
    wsteps s (Enqueue cs w, log @ map (\<lambda>c. \<lparr>q_Change = c, q_committed = None\<rparr>) cs)"
| enqueueAndWait: "wsteps s (w, log) \<Longrightarrow> EnqueueAndWait ctxErr c tok w = Inr w' \<Longrightarrow>
    wsteps s (w', log @ [\<lparr>q_Change = c, q_committed = Some tok\<rparr>])"
| pass: "wsteps s (w, log) \<Longrightarrow> wsteps s (run_iter storage w, log)"
| close: "wsteps s (w, log) \<Longrightarrow> wsteps s (CloseWriter w, log)"
| cancel: "wsteps s (w, log) \<Longrightarrow> wsteps s (CancelWriter w, log)"

text \<open>Everything the writer holds but has not committed, in commit order.\<close>

definition in_flight :: "'v Writer \<Rightarrow> 'v queuedChange list" where
  "in_flight w = w_batch w @ w_pending w"

text \<open>
  The database is the effect of a prefix of the log on the initial database; until the
  goroutine exits the rest of the log is what the writer still holds; and an acknowledged
  success belongs to the prefix.
\<close>

definition writer_inv :: "'v db \<Rightarrow> 'v Writer \<Rightarrow> 'v queuedChange list \<Rightarrow> 'v queuedChange list \<Rightarrow> bool" where
  "writer_inv d0 w committed log \<longleftrightarrow>
     apply_changes d0 (map q_Change committed) = Inr (w_db w) \<and>
     (if w_done w then prefix committed log \<and> w_batch w = [] \<and> w_closing w
      else log = committed @ in_flight w) \<and>
     (\<forall>tok. (tok, []) \<in> set (w_acks w) \<longrightarrow> (\<exists>q \<in> set committed. q_committed q = Some tok))"

section \<open>Lemmas\<close>

lemma apply_changes_append:
  "apply_changes d (xs @ ys) =
     (case apply_changes d xs of Inl e \<Rightarrow> Inl e | Inr d' \<Rightarrow> apply_changes d' ys)"
  by (induction xs arbitrary: d) (auto split: sum.splits)

lemma acknowledge_ok: "(tok, []) \<in> set (acknowledge batch err) \<longleftrightarrow>
    err = [] \<and> (\<exists>q \<in> set batch. q_committed q = Some tok)"
  by (induction batch) (auto simp: acknowledge_def List.map_filter_simps split: option.splits)

lemma in_flight_take_batch [simp]: "in_flight (take_batch w) = in_flight w"
  by (auto simp: in_flight_def take_batch_def)

lemma take_batch_simps [simp]:
  "w_db (take_batch w) = w_db w" "w_closing (take_batch w) = w_closing w"
  "w_ctxDone (take_batch w) = w_ctxDone w" "w_done (take_batch w) = w_done w"
  "w_acks (take_batch w) = w_acks w"
  by (auto simp: take_batch_def)

lemma writer_inv_open: "writer_inv d (OpenWriter d) [] []"
  by (simp add: writer_inv_def OpenWriter_def in_flight_def)

lemma writer_inv_enqueue:
  "writer_inv d0 w committed log \<Longrightarrow> \<not> w_closing w \<Longrightarrow>
    writer_inv d0 (Enqueue cs w) committed (log @ map (\<lambda>c. \<lparr>q_Change = c, q_committed = None\<rparr>) cs)"
  by (auto simp: writer_inv_def Enqueue_def in_flight_def)

lemma writer_inv_enqueueAndWait:
  "writer_inv d0 w committed log \<Longrightarrow> EnqueueAndWait ctxErr c tok w = Inr w' \<Longrightarrow>
    writer_inv d0 w' committed (log @ [\<lparr>q_Change = c, q_committed = Some tok\<rparr>])"
  by (auto simp: writer_inv_def EnqueueAndWait_def in_flight_def split: if_splits)

lemma writer_inv_exit:
  "writer_inv d0 w committed log \<Longrightarrow> \<not> w_done w \<Longrightarrow> writer_inv d0 (run_exit err w) committed log"
  by (auto simp: writer_inv_def run_exit_def acknowledge_ok)

lemma writer_inv_committed:
  assumes "writer_inv d0 w committed log" and "\<not> w_done w"
    and "commit storage (w_db w) (w_batch w) = Inr d'"
  shows "writer_inv d0 (w\<lparr>w_db := d', w_batch := [], w_acks := w_acks w @ acknowledge (w_batch w) []\<rparr>)
           (committed @ w_batch w) log"
  using assms
  by (auto simp: writer_inv_def commit_def in_flight_def apply_changes_append acknowledge_ok
      split: option.splits)

lemma writer_inv_take_batch:
  "writer_inv d0 w committed log \<Longrightarrow> \<not> w_done w \<Longrightarrow> writer_inv d0 (take_batch w) committed log"
  by (simp add: writer_inv_def)

lemma writer_inv_pass:
  assumes inv: "writer_inv d0 w committed log"
  shows "\<exists>more. writer_inv d0 (run_iter storage w) (committed @ more) log"
proof (cases "w_done w")
  case True
  then show ?thesis using inv by (auto simp: run_iter_def intro!: exI [of _ "[]"])
next
  case False
  let ?w = "take_batch w"
  let ?st = "if w_ctxDone ?w then Some ErrContext else storage"
  note inv1 = writer_inv_take_batch [OF inv False]
  have nd: "\<not> w_done ?w" using False by simp
  have same: "\<exists>more. writer_inv d0 v (committed @ more) log" if "writer_inv d0 v committed log" for v
    using that by (intro exI [of _ "[]"]) simp
  show ?thesis
  proof (cases "commit ?st (w_db ?w) (w_batch ?w)")
    case (Inl e)
    then show ?thesis using False
      by (auto simp: run_iter_def Let_def intro!: same writer_inv_exit inv1 nd)
  next
    case (Inr d')
    have "\<exists>more. writer_inv d0 (?w\<lparr>w_db := d', w_batch := [],
        w_acks := w_acks ?w @ acknowledge (w_batch ?w) []\<rparr>) (committed @ more) log"
      by (intro exI) (rule writer_inv_committed [OF inv1 nd Inr])
    then show ?thesis using False Inr
      by (auto simp: run_iter_def Let_def intro!: same writer_inv_exit inv1 nd)
  qed
qed

lemma writer_inv_close: "writer_inv d0 w committed log \<Longrightarrow> writer_inv d0 (CloseWriter w) committed log"
  by (auto simp: writer_inv_def CloseWriter_def in_flight_def)

lemma writer_inv_cancel: "writer_inv d0 w committed log \<Longrightarrow> writer_inv d0 (CancelWriter w) committed log"
  by (auto simp: writer_inv_def CancelWriter_def in_flight_def)

lemma wsteps_inv:
  assumes "wsteps s t" and "s = (OpenWriter d0, [])"
  shows "\<exists>committed. writer_inv d0 (fst t) committed (snd t)"
  using assms
proof (induction rule: wsteps.induct)
  case (pass s w log storage)
  then show ?case using writer_inv_pass by fastforce
qed (auto intro: writer_inv_open writer_inv_enqueue writer_inv_enqueueAndWait
      writer_inv_close writer_inv_cancel)

text \<open>Draining: on storage that answers, each pass commits the batch it takes.\<close>

lemma run_iter_commits:
  assumes "\<not> w_done w" and "\<not> w_ctxDone w" and "in_flight w \<noteq> []"
    and "apply_changes (w_db w) (map q_Change (in_flight w)) = Inr d"
  shows "\<not> w_done (run_iter None w)" "\<not> w_ctxDone (run_iter None w)"
    "w_closing (run_iter None w) = w_closing w"
    "length (in_flight (run_iter None w)) < length (in_flight w)"
    "apply_changes (w_db (run_iter None w)) (map q_Change (in_flight (run_iter None w))) = Inr d"
proof -
  let ?w = "take_batch w"
  have ne: "w_batch ?w \<noteq> []" using assms(3) by (auto simp: take_batch_def in_flight_def)
  have fl: "in_flight w = w_batch ?w @ w_pending ?w"
    using in_flight_take_batch [of w] by (simp add: in_flight_def)
  with assms(4) obtain d1 where d1: "apply_changes (w_db w) (map q_Change (w_batch ?w)) = Inr d1"
    "apply_changes d1 (map q_Change (w_pending ?w)) = Inr d"
    by (auto simp: apply_changes_append split: sum.splits)
  have r: "run_iter None w = ?w\<lparr>w_db := d1, w_batch := [],
      w_acks := w_acks ?w @ acknowledge (w_batch ?w) []\<rparr>"
    using assms ne d1 by (simp add: run_iter_def Let_def commit_def)
  show "\<not> w_done (run_iter None w)" "\<not> w_ctxDone (run_iter None w)"
    "w_closing (run_iter None w) = w_closing w" using assms by (simp_all add: r)
  show "length (in_flight (run_iter None w)) < length (in_flight w)"
    using ne unfolding fl by (simp add: r in_flight_def)
  show "apply_changes (w_db (run_iter None w)) (map q_Change (in_flight (run_iter None w))) = Inr d"
    using d1 by (simp add: r in_flight_def)
qed

lemma run_iter_finishes:
  assumes "\<not> w_done w" and "w_closing w" and "in_flight w = []"
  shows "w_done (run_iter storage w)" "w_db (run_iter storage w) = w_db w"
    "w_err (run_iter storage w) = []"
proof -
  have "w_batch (take_batch w) = []" using assms(3) by (auto simp: take_batch_def in_flight_def)
  then show "w_done (run_iter storage w)" "w_db (run_iter storage w) = w_db w"
    "w_err (run_iter storage w) = []"
    using assms by (auto simp: run_iter_def Let_def run_exit_def)
qed

lemma run_loop_done: "w_done w \<Longrightarrow> run_loop n w = w"
  by (induction n) (auto simp: run_iter_def)

lemma run_loop_drains:
  assumes "\<not> w_done w" and "w_closing w" and "\<not> w_ctxDone w"
    and "apply_changes (w_db w) (map q_Change (in_flight w)) = Inr d" and "length (in_flight w) < n"
  shows "w_done (run_loop n w) \<and> w_db (run_loop n w) = d \<and> w_err (run_loop n w) = []"
  using assms
proof (induction n arbitrary: w)
  case (Suc n)
  show ?case
  proof (cases "in_flight w = []")
    case True
    note f = run_iter_finishes [OF Suc.prems(1,2) True, of None]
    show ?thesis using True Suc.prems(4) f by (simp add: run_loop_done [OF f(1)])
  next
    case False
    note c = run_iter_commits [OF Suc.prems(1) Suc.prems(3) False Suc.prems(4)]
    show ?thesis using Suc.IH [of "run_iter None w"] c Suc.prems by auto
  qed
qed simp

section \<open>The rows a store relies on\<close>

text \<open>What the database will hold once the writer has committed all it accepted.\<close>

definition committed_later :: "'v Writer \<Rightarrow> persist_error + 'v db" where
  "committed_later w = apply_changes (w_db w) (map q_Change (in_flight w))"

definition writer_live :: "'v Writer \<Rightarrow> bool" where
  "writer_live w \<longleftrightarrow> \<not> w_done w \<and> \<not> w_closing w \<and> \<not> w_ctxDone w"

lemma committed_later_Enqueue:
  assumes "writer_live w" "committed_later w = Inr d"
  shows "writer_live (Enqueue cs w) \<and> committed_later (Enqueue cs w) = apply_changes d cs"
  using assms
  by (auto simp: writer_live_def committed_later_def Enqueue_def in_flight_def apply_changes_append comp_def
      split: sum.splits)

lemma committed_later_pass:
  assumes live: "writer_live w" and c: "committed_later w = Inr d"
  shows "writer_live (run_iter storage w) \<and> committed_later (run_iter storage w) = Inr d"
proof -
  let ?w = "take_batch w"
  have c': "apply_changes (w_db w) (map q_Change (w_batch ?w @ w_pending ?w)) = Inr d"
    using c in_flight_take_batch [of w] by (simp add: committed_later_def in_flight_def)
  have l: "writer_live ?w" "committed_later ?w = Inr d"
    using live c by (simp_all add: writer_live_def committed_later_def)
  show ?thesis
  proof (cases "commit storage (w_db ?w) (w_batch ?w)")
    case (Inl e)
    then show ?thesis using l live by (auto simp: run_iter_def Let_def writer_live_def)
  next
    case (Inr d')
    then have "apply_changes (w_db w) (map q_Change (w_batch ?w)) = Inr d'"
      by (simp add: commit_def split: option.splits)
    with c' have "apply_changes d' (map q_Change (w_pending ?w)) = Inr d" by (simp add: apply_changes_append)
    then show ?thesis using l live Inr
      by (auto simp: run_iter_def Let_def writer_live_def committed_later_def in_flight_def)
  qed
qed

lemma run_loop_committed:
  assumes "writer_live w" "committed_later w = Inr d" "length (w_batch w @ w_pending w) < n"
  shows "w_db (run_loop n (CloseWriter w)) = d"
  using run_loop_drains [of "CloseWriter w" d n] assms
  by (simp add: writer_live_def committed_later_def CloseWriter_def in_flight_def)

text \<open>The rows of a table come with distinct identifiers: they are the table's primary key.\<close>

definition table_ok :: "(string, 'v Row) gomap \<Rightarrow> bool" where
  "table_ok m \<longleftrightarrow> mapok m \<and> (\<forall>k row. mget m k = Some row \<longrightarrow> row_ID row = k)"

definition db_ok :: "'v db \<Rightarrow> bool" where
  "db_ok d \<longleftrightarrow> (\<forall>t. table_ok (d t))"

lemma table_ok_mput: "table_ok m \<Longrightarrow> row_ID row = k \<Longrightarrow> table_ok (mput m k row)"
  by (auto simp: table_ok_def)

lemma table_ok_mdel: "table_ok m \<Longrightarrow> table_ok (mdel m k)"
  by (auto simp: table_ok_def split: if_splits)

lemma map_row_ID:
  assumes "db_ok d"
  shows "map row_ID (map snd (sort_key fst (d t))) = map fst (sort_key fst (d t))"
proof -
  have ok: "table_ok (d t)" using assms by (simp add: db_ok_def)
  have "row_ID row = k" if "(k, row) \<in> set (d t)" for k row
  proof -
    have "mget (d t) k = Some row" using ok that by (simp add: table_ok_def)
    then show ?thesis using ok by (simp add: table_ok_def)
  qed
  then show ?thesis by auto
qed

lemma Load_rows:
  assumes "db_ok d" "Load d t = Inr rows"
  shows "distinct (map row_ID rows)"
proof -
  have rows: "rows = map snd (sort_key fst (d t))" using assms(2) by (simp add: Load_def split: if_splits)
  have "distinct (map fst (sort_key fst (d t)))" 
    using assms(1) by (simp add: db_ok_def table_ok_def distinct_map)
  then show ?thesis unfolding rows map_row_ID [OF assms(1)] .
qed

lemma in_tables [simp]:
  "Sessions \<in> set tables" "Tabs \<in> set tables" "Panes \<in> set tables" "Agents \<in> set tables"
  "Metadata \<in> set tables" "Followups \<in> set tables"
  by (simp_all add: tables_def)

lemma Load_ok:
  assumes "db_ok d"
  shows "t \<in> set tables \<Longrightarrow> Load d t = Inr (map snd (sort_key fst (d t)))"
    "row \<in> set (map snd (sort_key fst (d t))) \<longleftrightarrow> mget (d t) (row_ID row) = Some row"
proof -
  show "Load d t = Inr (map snd (sort_key fst (d t)))" if "t \<in> set tables"
    using that by (simp add: Load_def validTable_def)
  have ok: "table_ok (d t)" using assms by (simp add: db_ok_def)
  have "row \<in> set (map snd (sort_key fst (d t))) \<longleftrightarrow> (\<exists>k. (k, row) \<in> set (d t))" by force
  also have "\<dots> \<longleftrightarrow> (\<exists>k. mget (d t) k = Some row)" using ok by (simp add: table_ok_def mapok_mget_iff)
  also have "\<dots> \<longleftrightarrow> mget (d t) (row_ID row) = Some row" using ok by (auto simp: table_ok_def)
  finally show "row \<in> set (map snd (sort_key fst (d t))) \<longleftrightarrow> mget (d t) (row_ID row) = Some row" .
qed

section \<open>Properties\<close>

text \<open>C11 Ordered durability: in every reachable state of the writer, whatever storage errors,
  retries and shutdown happened, the database is the effect of a prefix of all changes ever
  enqueued, applied in order; until the goroutine exits, the rest of that log is exactly what
  the writer still holds, so no change is lost, repeated or reordered; and a producer waiting
  in \<open>EnqueueAndWait\<close> is told of success only for a change in the committed prefix.\<close>

theorem writer_commits_prefix:
  assumes "wsteps (OpenWriter d0, []) (w, log)"
  shows "\<exists>committed rest. log = committed @ rest \<and>
           apply_changes d0 (map q_Change committed) = Inr (w_db w) \<and>
           (w_done w \<or> rest = w_batch w @ w_pending w) \<and>
           {tok. (tok, []) \<in> set (w_acks w)} \<subseteq> {tok. \<exists>q \<in> set committed. q_committed q = Some tok}"
proof -
  obtain committed where "writer_inv d0 w committed log"
    using wsteps_inv [OF assms HOL.refl] by auto
  then show ?thesis
    by - (rule exI [of _ committed],
      auto simp: writer_inv_def in_flight_def prefix_def split: if_splits)
qed

text \<open>C16 A clean shutdown saves everything: once producers have stopped (closing), with storage
  that answers and no cancellation, the goroutine exits without an error after at most one
  pass per held change plus one, and the database then is the effect of every held change.\<close>

theorem close_drains_queue:
  assumes "\<not> w_done w" and "\<not> w_ctxDone w"
    and "apply_changes (w_db w) (map q_Change (w_batch w @ w_pending w)) = Inr d"
    and "length (w_batch w @ w_pending w) < n"
  shows "w_done (run_loop n (CloseWriter w)) \<and> w_db (run_loop n (CloseWriter w)) = d \<and>
         w_err (run_loop n (CloseWriter w)) = []"
  using assms by (intro run_loop_drains) (auto simp: CloseWriter_def in_flight_def)

text \<open>Witnesses: one change queued with a waiting producer, then committed at shutdown.\<close>

definition demo_change :: "nat Change" where
  "demo_change = \<lparr>c_Table = Metadata, c_ID = ''generation'', c_Parent = [], c_PaneID = [],
     c_Value = Some 7\<rparr>"

definition demo_writer :: "nat Writer" where
  "demo_writer = (OpenWriter (\<lambda>_. []))\<lparr>w_pending := [\<lparr>q_Change = demo_change, q_committed = Some 1\<rparr>]\<rparr>"

theorem writer_commits_prefix_witness:
  "\<exists>committed rest. [\<lparr>q_Change = demo_change, q_committed = Some 1\<rparr>] = committed @ rest \<and>
     apply_changes (\<lambda>_. []) (map q_Change committed) = Inr (w_db (run_iter None demo_writer)) \<and>
     (w_done (run_iter None demo_writer) \<or>
      rest = w_batch (run_iter None demo_writer) @ w_pending (run_iter None demo_writer)) \<and>
     {tok. (tok, []) \<in> set (w_acks (run_iter None demo_writer))}
       \<subseteq> {tok. \<exists>q \<in> set committed. q_committed q = Some tok}"
proof (rule writer_commits_prefix)
  have "EnqueueAndWait False demo_change 1 (OpenWriter (\<lambda>_. [])) = Inr demo_writer"
    by (simp add: EnqueueAndWait_def OpenWriter_def demo_writer_def)
  from wsteps.enqueueAndWait [OF wsteps.start this, where log = "[]"]
  have "wsteps (OpenWriter (\<lambda>_. []), []) (demo_writer, [\<lparr>q_Change = demo_change, q_committed = Some 1\<rparr>])"
    by simp
  then show "wsteps (OpenWriter (\<lambda>_. []), [])
      (run_iter None demo_writer, [\<lparr>q_Change = demo_change, q_committed = Some 1\<rparr>])"
    by (rule wsteps.pass)
qed

theorem close_drains_queue_witness:
  "w_done (run_loop 2 (CloseWriter demo_writer)) \<and>
   row_Data (the (mget (w_db (run_loop 2 (CloseWriter demo_writer)) Metadata) ''generation'')) = 7"
proof -
  let ?d = "(\<lambda>_. [])(Metadata := [(''generation'',
     \<lparr>row_ID = ''generation'', row_Parent = [], row_PaneID = [], row_Data = 7 :: nat\<rparr>)])"
  have "apply_changes (w_db demo_writer) (map q_Change (w_batch demo_writer @ w_pending demo_writer)) = Inr ?d"
    by (simp add: demo_writer_def demo_change_def OpenWriter_def apply_change_def validTable_def
        tables_def table_defs)
  from close_drains_queue [OF _ _ this, of 2] show ?thesis
    by (simp add: demo_writer_def OpenWriter_def)
qed

end
