(* ===== verification/Registry.thy ===== *)
theory Registry
  imports Persistence
begin

text \<open>
  The pane registry, \<^verbatim>\<open>src/internal/registry/{types,registry}.go\<close>, and \<open>saveLocked\<close> of its
  \<^verbatim>\<open>persistence.go\<close>. The registry's lock makes each method atomic, so a method is a function on
  the registry record; the clock's reading is an argument. The clone functions of the source
  return equal values and need no counterpart here.

  The registry keeps panes in a hierarchy (session, tab, pane) with two indexes beside it. The
  lemmas show that the hierarchy and the indexes stay consistent (\<open>registry_inv\<close>), and that
  every method acts on the flat view \<open>lookupPane\<close> of the panes by identifier as one update of
  that map, which is what its callers rely on (locale \<open>pane_table\<close>). On top of that:
  generations are never reused, stale generations change nothing, and each generation's close
  notification is claimed at most once.
\<close>

section \<open>Data\<close>

type_synonym PaneID = string
type_synonym SessionID = string
type_synonym TabID = string
type_synonym ZellijPaneID = string

datatype PaneStatus =
    PaneStatusStarting | PaneStatusRunning | PaneStatusExited | PaneStatusClosed
  | PaneStatusLost | PaneStatusError

record PaneRecord =
  p_ParentPaneID :: PaneID
  p_ID :: PaneID
  p_OwnershipToken :: string
  p_Generation :: uint64
  p_SessionID :: SessionID
  p_TabID :: TabID
  p_TaskID :: string
  p_AgentID :: string
  p_ZellijPaneID :: ZellijPaneID
  p_ZellijTabID :: "int option"
  p_TabName :: string
  p_Role :: string
  p_Command :: "string list"
  p_CWD :: string
  p_Status :: PaneStatus
  p_LastOutput :: string
  p_LastInstruction :: string
  p_LastInstructionAt :: time
  p_StatusMessage :: string
  p_CreatedAt :: time
  p_UpdatedAt :: time
  p_closeNotificationClaimed :: bool

record TabRecord =
  t_ID :: TabID
  t_Name :: string
  t_Panes :: "(PaneID, PaneRecord) gomap"
  t_CreatedAt :: time
  t_UpdatedAt :: time

record SessionRecord =
  s_ID :: SessionID
  s_Tabs :: "(TabID, TabRecord) gomap"
  s_CreatedAt :: time
  s_UpdatedAt :: time

text \<open>A request's status may be the empty string, here \<open>None\<close>.\<close>

record RegisterPaneRequest =
  rq_ParentPaneID :: PaneID
  rq_ID :: PaneID
  rq_OwnershipToken :: string
  rq_SessionID :: SessionID
  rq_TabID :: TabID
  rq_TaskID :: string
  rq_AgentID :: string
  rq_ZellijPaneID :: ZellijPaneID
  rq_ZellijTabID :: "int option"
  rq_TabName :: string
  rq_Role :: string
  rq_Command :: "string list"
  rq_CWD :: string
  rq_Status :: "PaneStatus option"

datatype reg_error =
    ErrInvalidRequest string | ErrZellijPaneAlreadyRegistered SessionID ZellijPaneID
  | ErrAlreadyExists | ErrNotFound | ErrStaleRecord | ErrInvalidStored string | ErrLoad persist_error

record paneLocation =
  l_SessionID :: SessionID
  l_TabID :: TabID

text \<open>The values the registry stores: JSON drops the unexported claim flag of a pane.\<close>

datatype stored =
    StoredSession SessionRecord | StoredTab TabRecord | StoredPane PaneRecord
  | StoredGeneration uint64

record Registry =
  r_persist :: "stored Writer option"
  r_sessions :: "(SessionID, SessionRecord) gomap"
  r_paneToLocation :: "(PaneID, paneLocation) gomap"
  r_latestByZellij :: "(ZellijPaneID, PaneID) gomap"
  r_nextGeneration :: uint64

definition NewRegistry :: Registry where
  "NewRegistry = \<lparr>r_persist = None, r_sessions = [], r_paneToLocation = [],
     r_latestByZellij = [], r_nextGeneration = 0\<rparr>"

section \<open>Validation and lookup\<close>

definition ValidateRegisterPane :: "RegisterPaneRequest \<Rightarrow> reg_error option" where
  "ValidateRegisterPane req =
     (if rq_ID req = [] then Some (ErrInvalidRequest ''ID is required'')
      else case rq_ZellijTabID req of
        Some n \<Rightarrow> if n < 0 then Some (ErrInvalidRequest ''ZellijTabID cannot be negative'') else None
      | None \<Rightarrow> None)"

fun isTerminalPaneStatus :: "PaneStatus \<Rightarrow> bool" where
  "isTerminalPaneStatus PaneStatusClosed = True"
| "isTerminalPaneStatus PaneStatusExited = True"
| "isTerminalPaneStatus PaneStatusLost = True"
| "isTerminalPaneStatus _ = False"

definition applyRegisterPaneDefaults :: "RegisterPaneRequest \<Rightarrow> RegisterPaneRequest" where
  "applyRegisterPaneDefaults req =
     (let req1 = (if rq_Status req = None then req\<lparr>rq_Status := Some PaneStatusStarting\<rparr> else req);
          req2 = (if rq_SessionID req1 = [] then req1\<lparr>rq_SessionID := ''default''\<rparr> else req1)
      in if rq_TabID req2 = [] then
           (case rq_ZellijTabID req2 of
              Some n \<Rightarrow> req2\<lparr>rq_TabID := Itoa n\<rparr>
            | None \<Rightarrow> if rq_TabName req2 \<noteq> [] then req2\<lparr>rq_TabID := rq_TabName req2\<rparr>
                      else req2\<lparr>rq_TabID := ''default''\<rparr>)
         else req2)"

definition validatePaneUniqueLocked :: "Registry \<Rightarrow> PaneID \<Rightarrow> reg_error option" where
  "validatePaneUniqueLocked r i =
     (case mget (r_paneToLocation r) i of Some _ \<Rightarrow> Some ErrAlreadyExists | None \<Rightarrow> None)"

definition validateActiveZellijPaneUniqueLocked ::
  "Registry \<Rightarrow> SessionID \<Rightarrow> ZellijPaneID \<Rightarrow> reg_error option" where
  "validateActiveZellijPaneUniqueLocked r sid z =
     (if z = [] then None
      else case mget (r_sessions r) sid of
        None \<Rightarrow> None
      | Some session \<Rightarrow>
          if list_ex (\<lambda>(_, tab). list_ex (\<lambda>(_, pane).
                p_ZellijPaneID pane = z \<and> \<not> isTerminalPaneStatus (p_Status pane)) (t_Panes tab))
               (s_Tabs session)
          then Some (ErrZellijPaneAlreadyRegistered sid z) else None)"

definition getSessionLocked :: "Registry \<Rightarrow> SessionID \<Rightarrow> reg_error + SessionRecord" where
  "getSessionLocked r i = (case mget (r_sessions r) i of None \<Rightarrow> Inl ErrNotFound | Some s \<Rightarrow> Inr s)"

definition getTabLocked :: "Registry \<Rightarrow> SessionID \<Rightarrow> TabID \<Rightarrow> reg_error + TabRecord" where
  "getTabLocked r sid tid =
     (case getSessionLocked r sid of
        Inl e \<Rightarrow> Inl e
      | Inr s \<Rightarrow> (case mget (s_Tabs s) tid of None \<Rightarrow> Inl ErrNotFound | Some t \<Rightarrow> Inr t))"

definition getPaneLocationLocked :: "Registry \<Rightarrow> PaneID \<Rightarrow> reg_error + paneLocation" where
  "getPaneLocationLocked r i =
     (case mget (r_paneToLocation r) i of None \<Rightarrow> Inl ErrNotFound | Some l \<Rightarrow> Inr l)"

definition resolvePanePathLocked ::
  "Registry \<Rightarrow> PaneID \<Rightarrow> reg_error + (paneLocation \<times> SessionRecord \<times> TabRecord \<times> PaneRecord)" where
  "resolvePanePathLocked r i =
     (case getPaneLocationLocked r i of
        Inl e \<Rightarrow> Inl e
      | Inr loc \<Rightarrow>
          (case getSessionLocked r (l_SessionID loc) of
             Inl e \<Rightarrow> Inl e
           | Inr session \<Rightarrow>
               (case mget (s_Tabs session) (l_TabID loc) of
                  None \<Rightarrow> Inl ErrNotFound
                | Some tab \<Rightarrow>
                    (case mget (t_Panes tab) i of
                       None \<Rightarrow> Inl ErrNotFound
                     | Some pane \<Rightarrow> Inr (loc, session, tab, pane)))))"

text \<open>
  The two steps most methods start with: resolve the path, then refuse a generation other
  than the pane's (0 stands for any generation).
\<close>

definition resolveGeneration ::
  "Registry \<Rightarrow> PaneID \<Rightarrow> uint64 \<Rightarrow> reg_error + (paneLocation \<times> SessionRecord \<times> TabRecord \<times> PaneRecord)" where
  "resolveGeneration r i generation =
     (case resolvePanePathLocked r i of
        Inl e \<Rightarrow> Inl e
      | Inr (loc, session, tab, pane) \<Rightarrow>
          if generation \<noteq> 0 \<and> p_Generation pane \<noteq> generation then Inl ErrStaleRecord
          else Inr (loc, session, tab, pane))"

section \<open>Saving\<close>

definition tabStorageID :: "SessionID \<Rightarrow> TabID \<Rightarrow> string" where
  "tabStorageID session tab = Itoa (int (length session)) @ '':'' @ session @ tab"

definition jsonPane :: "PaneRecord \<Rightarrow> PaneRecord" where
  "jsonPane p = p\<lparr>p_closeNotificationClaimed := False\<rparr>"

definition saveChanges ::
  "uint64 \<Rightarrow> SessionRecord \<Rightarrow> TabRecord \<Rightarrow> PaneRecord \<Rightarrow> bool \<Rightarrow> stored Change list" where
  "saveChanges generation session tab pane deleted =
     [\<lparr>c_Table = Sessions, c_ID = s_ID session, c_Parent = [], c_PaneID = [],
       c_Value = Some (StoredSession (session\<lparr>s_Tabs := []\<rparr>))\<rparr>,
      \<lparr>c_Table = Tabs, c_ID = tabStorageID (s_ID session) (t_ID tab), c_Parent = s_ID session,
       c_PaneID = [], c_Value = Some (StoredTab (tab\<lparr>t_Panes := []\<rparr>))\<rparr>,
      \<lparr>c_Table = Panes, c_ID = p_ID pane, c_Parent = tabStorageID (s_ID session) (t_ID tab),
       c_PaneID = [],
       c_Value = (if deleted then None else Some (StoredPane (jsonPane (pane\<lparr>p_LastOutput := []\<rparr>))))\<rparr>,
      \<lparr>c_Table = Metadata, c_ID = ''generation'', c_Parent = [], c_PaneID = [],
       c_Value = Some (StoredGeneration generation)\<rparr>]"

definition saveLocked ::
  "SessionRecord \<Rightarrow> TabRecord \<Rightarrow> PaneRecord \<Rightarrow> bool \<Rightarrow> Registry \<Rightarrow> Registry" where
  "saveLocked session tab pane deleted r =
     (case r_persist r of
        None \<Rightarrow> r
      | Some w \<Rightarrow> r\<lparr>r_persist :=
          Some (Enqueue (saveChanges (r_nextGeneration r) session tab pane deleted) w)\<rparr>)"

section \<open>Methods\<close>

text \<open>The write-back every update shares: the pane into its tab, the tab into its session.\<close>

definition stampTab :: "time \<Rightarrow> (PaneID, PaneRecord) gomap \<Rightarrow> TabRecord \<Rightarrow> TabRecord" where
  "stampTab now panes tab = tab\<lparr>t_Panes := panes, t_UpdatedAt := now\<rparr>"

definition stampSession :: "time \<Rightarrow> TabID \<Rightarrow> TabRecord \<Rightarrow> SessionRecord \<Rightarrow> SessionRecord" where
  "stampSession now tid tab session =
     session\<lparr>s_Tabs := mput (s_Tabs session) tid tab, s_UpdatedAt := now\<rparr>"

definition writeBack ::
  "time \<Rightarrow> bool \<Rightarrow> paneLocation \<Rightarrow> SessionRecord \<Rightarrow> TabRecord \<Rightarrow> PaneRecord \<Rightarrow> PaneID \<Rightarrow> Registry \<Rightarrow> Registry" where
  "writeBack now save loc session tab pane i r =
     (let tab' = stampTab now (mput (t_Panes tab) i pane) tab;
          session' = stampSession now (l_TabID loc) tab' session;
          r' = r\<lparr>r_sessions := mput (r_sessions r) (l_SessionID loc) session'\<rparr>
      in if save then saveLocked session' tab' pane False r' else r')"

definition newPaneRecord :: "time \<Rightarrow> uint64 \<Rightarrow> RegisterPaneRequest \<Rightarrow> PaneRecord" where
  "newPaneRecord now generation req =
     \<lparr>p_ParentPaneID = rq_ParentPaneID req, p_ID = rq_ID req,
      p_OwnershipToken = rq_OwnershipToken req, p_Generation = generation,
      p_SessionID = rq_SessionID req, p_TabID = rq_TabID req, p_TaskID = rq_TaskID req,
      p_AgentID = rq_AgentID req, p_ZellijPaneID = rq_ZellijPaneID req,
      p_ZellijTabID = rq_ZellijTabID req, p_TabName = rq_TabName req, p_Role = rq_Role req,
      p_Command = rq_Command req, p_CWD = rq_CWD req,
      p_Status = (case rq_Status req of Some st \<Rightarrow> st | None \<Rightarrow> PaneStatusStarting),
      p_LastOutput = [], p_LastInstruction = [], p_LastInstructionAt = zeroTime,
      p_StatusMessage = [], p_CreatedAt = now, p_UpdatedAt = now,
      p_closeNotificationClaimed = False\<rparr>"

definition RegisterPane ::
  "time \<Rightarrow> RegisterPaneRequest \<Rightarrow> Registry \<Rightarrow> reg_error + (Registry \<times> PaneRecord)" where
  "RegisterPane now req0 r =
     (case ValidateRegisterPane req0 of
        Some e \<Rightarrow> Inl e
      | None \<Rightarrow>
          let req = applyRegisterPaneDefaults req0 in
          (case validatePaneUniqueLocked r (rq_ID req) of
             Some e \<Rightarrow> Inl e
           | None \<Rightarrow>
               (case validateActiveZellijPaneUniqueLocked r (rq_SessionID req) (rq_ZellijPaneID req) of
                  Some e \<Rightarrow> Inl e
                | None \<Rightarrow>
                    let generation = r_nextGeneration r + 1;
                        record = newPaneRecord now generation req;
                        session = (case mget (r_sessions r) (rq_SessionID req) of
                            None \<Rightarrow> \<lparr>s_ID = rq_SessionID req, s_Tabs = [], s_CreatedAt = now,
                                     s_UpdatedAt = now\<rparr>
                          | Some s \<Rightarrow> s\<lparr>s_UpdatedAt := now\<rparr>);
                        tab = (case mget (s_Tabs session) (rq_TabID req) of
                            None \<Rightarrow> \<lparr>t_ID = rq_TabID req, t_Name = rq_TabName req, t_Panes = [],
                                     t_CreatedAt = now, t_UpdatedAt = now\<rparr>
                          | Some t \<Rightarrow> t\<lparr>t_UpdatedAt := now,
                                t_Name := (if t_Name t = [] \<and> rq_TabName req \<noteq> []
                                           then rq_TabName req else t_Name t)\<rparr>);
                        loc = \<lparr>l_SessionID = rq_SessionID req, l_TabID = rq_TabID req\<rparr>;
                        r1 = writeBack now True loc session tab record (rq_ID req)
                               (r\<lparr>r_nextGeneration := generation\<rparr>);
                        r2 = r1\<lparr>r_paneToLocation := mput (r_paneToLocation r1) (rq_ID req) loc\<rparr>;
                        r3 = (if p_ZellijPaneID record \<noteq> []
                              then r2\<lparr>r_latestByZellij :=
                                     mput (r_latestByZellij r2) (p_ZellijPaneID record) (p_ID record)\<rparr>
                              else r2)
                    in Inr (r3, record))))"

definition GetPane :: "PaneID \<Rightarrow> Registry \<Rightarrow> reg_error + PaneRecord" where
  "GetPane i r =
     (case resolvePanePathLocked r i of Inl e \<Rightarrow> Inl e | Inr (_, _, _, pane) \<Rightarrow> Inr pane)"

definition GetLatestByZellijPaneID :: "ZellijPaneID \<Rightarrow> Registry \<Rightarrow> reg_error + PaneRecord" where
  "GetLatestByZellijPaneID z r =
     (case mget (r_latestByZellij r) z of None \<Rightarrow> Inl ErrNotFound | Some i \<Rightarrow> GetPane i r)"

definition tab_panes :: "TabRecord \<Rightarrow> PaneRecord list" where
  "tab_panes tab = map snd (t_Panes tab)"

definition session_panes :: "SessionRecord \<Rightarrow> PaneRecord list" where
  "session_panes session = concat (map (tab_panes \<circ> snd) (s_Tabs session))"

definition all_panes :: "Registry \<Rightarrow> PaneRecord list" where
  "all_panes r = concat (map (session_panes \<circ> snd) (r_sessions r))"

definition ListPanes :: "Registry \<Rightarrow> PaneRecord list" where
  "ListPanes r = sort_key p_ID (all_panes r)"

definition updatePaneStatusGeneration ::
  "time \<Rightarrow> PaneID \<Rightarrow> uint64 \<Rightarrow> PaneStatus \<Rightarrow> string \<Rightarrow> Registry \<Rightarrow> reg_error + (Registry \<times> PaneRecord)" where
  "updatePaneStatusGeneration now i generation status message r =
     (case resolveGeneration r i generation of
        Inl e \<Rightarrow> Inl e
      | Inr (loc, session, tab, pane) \<Rightarrow>
          let pane' = pane\<lparr>p_Status := status, p_StatusMessage := message, p_UpdatedAt := now\<rparr>
          in Inr (writeBack now True loc session tab pane' i r, pane'))"

definition UpdatePaneStatus ::
  "time \<Rightarrow> PaneID \<Rightarrow> PaneStatus \<Rightarrow> string \<Rightarrow> Registry \<Rightarrow> reg_error + (Registry \<times> PaneRecord)" where
  "UpdatePaneStatus now i status message r = updatePaneStatusGeneration now i 0 status message r"

definition UpdateActivePaneStatusGeneration ::
  "time \<Rightarrow> PaneID \<Rightarrow> uint64 \<Rightarrow> PaneStatus \<Rightarrow> string \<Rightarrow> Registry
     \<Rightarrow> reg_error + (Registry \<times> PaneRecord \<times> bool)" where
  "UpdateActivePaneStatusGeneration now i generation status message r =
     (case resolveGeneration r i generation of
        Inl e \<Rightarrow> Inl e
      | Inr (loc, session, tab, pane) \<Rightarrow>
          if isTerminalPaneStatus (p_Status pane) then Inr (r, pane, False)
          else let pane' = pane\<lparr>p_Status := status, p_StatusMessage := message, p_UpdatedAt := now\<rparr>
               in Inr (writeBack now True loc session tab pane' i r, pane', True))"

definition ClaimPaneClosureGeneration ::
  "time \<Rightarrow> PaneID \<Rightarrow> uint64 \<Rightarrow> PaneStatus \<Rightarrow> string \<Rightarrow> Registry
     \<Rightarrow> reg_error + (Registry \<times> PaneRecord \<times> bool)" where
  "ClaimPaneClosureGeneration now i generation status message r =
     (case resolveGeneration r i generation of
        Inl e \<Rightarrow> Inl e
      | Inr (loc, session, tab, pane) \<Rightarrow>
          let pane1 = (if isTerminalPaneStatus (p_Status pane) then pane
                       else pane\<lparr>p_Status := status, p_StatusMessage := message, p_UpdatedAt := now\<rparr>);
              claimed = (\<not> p_closeNotificationClaimed pane1);
              pane2 = pane1\<lparr>p_closeNotificationClaimed := True\<rparr>
          in Inr (writeBack now True loc session tab pane2 i r, pane2, claimed))"

text \<open>This method checks the generation without the exception for 0.\<close>

definition RecordPaneInstructionGeneration ::
  "time \<Rightarrow> PaneID \<Rightarrow> uint64 \<Rightarrow> string \<Rightarrow> Registry \<Rightarrow> reg_error + (Registry \<times> PaneRecord)" where
  "RecordPaneInstructionGeneration now i generation text r =
     (case resolvePanePathLocked r i of
        Inl e \<Rightarrow> Inl e
      | Inr (loc, session, tab, pane) \<Rightarrow>
          if p_Generation pane \<noteq> generation then Inl ErrStaleRecord
          else let pane' = pane\<lparr>p_LastInstruction := text, p_LastInstructionAt := now, p_UpdatedAt := now\<rparr>
               in Inr (writeBack now True loc session tab pane' i r, pane'))"

definition updatePaneOutputGeneration ::
  "time \<Rightarrow> PaneID \<Rightarrow> uint64 \<Rightarrow> string \<Rightarrow> Registry \<Rightarrow> reg_error + (Registry \<times> PaneRecord)" where
  "updatePaneOutputGeneration now i generation output r =
     (case resolveGeneration r i generation of
        Inl e \<Rightarrow> Inl e
      | Inr (loc, session, tab, pane) \<Rightarrow>
          let pane' = pane\<lparr>p_LastOutput := output, p_UpdatedAt := now\<rparr>
          in Inr (writeBack now False loc session tab pane' i r, pane'))"

definition UpdateActivePaneOutputGeneration ::
  "time \<Rightarrow> PaneID \<Rightarrow> uint64 \<Rightarrow> string \<Rightarrow> Registry \<Rightarrow> reg_error + (Registry \<times> PaneRecord \<times> bool)" where
  "UpdateActivePaneOutputGeneration now i generation output r =
     (case resolveGeneration r i generation of
        Inl e \<Rightarrow> Inl e
      | Inr (loc, session, tab, pane) \<Rightarrow>
          if isTerminalPaneStatus (p_Status pane) then Inr (r, pane, False)
          else let pane' = pane\<lparr>p_LastOutput := output, p_UpdatedAt := now\<rparr>
               in Inr (writeBack now False loc session tab pane' i r, pane', True))"

definition removePaneLocked ::
  "time \<Rightarrow> paneLocation \<Rightarrow> SessionRecord \<Rightarrow> TabRecord \<Rightarrow> PaneRecord \<Rightarrow> Registry \<Rightarrow> Registry" where
  "removePaneLocked now loc session tab pane r =
     (let tab' = stampTab now (mdel (t_Panes tab) (p_ID pane)) tab;
          session' = stampSession now (l_TabID loc) tab' session;
          r1 = saveLocked session' tab' pane True
                 (r\<lparr>r_sessions := mput (r_sessions r) (l_SessionID loc) session'\<rparr>);
          r2 = r1\<lparr>r_paneToLocation := mdel (r_paneToLocation r1) (p_ID pane)\<rparr>
      in if p_ZellijPaneID pane \<noteq> [] \<and>
            mget (r_latestByZellij r2) (p_ZellijPaneID pane) = Some (p_ID pane)
         then r2\<lparr>r_latestByZellij := mdel (r_latestByZellij r2) (p_ZellijPaneID pane)\<rparr>
         else r2)"

definition removePaneGeneration ::
  "time \<Rightarrow> PaneID \<Rightarrow> uint64 \<Rightarrow> Registry \<Rightarrow> reg_error + (Registry \<times> PaneRecord)" where
  "removePaneGeneration now i generation r =
     (case resolveGeneration r i generation of
        Inl e \<Rightarrow> Inl e
      | Inr (loc, session, tab, pane) \<Rightarrow> Inr (removePaneLocked now loc session tab pane r, pane))"

definition RemovePaneGenerationClaimingClosure ::
  "time \<Rightarrow> PaneID \<Rightarrow> uint64 \<Rightarrow> Registry \<Rightarrow> reg_error + (Registry \<times> PaneRecord \<times> bool)" where
  "RemovePaneGenerationClaimingClosure now i generation r =
     (case resolveGeneration r i generation of
        Inl e \<Rightarrow> Inl e
      | Inr (loc, session, tab, pane) \<Rightarrow>
          let claimed = (\<not> p_closeNotificationClaimed pane);
              pane' = pane\<lparr>p_closeNotificationClaimed := True\<rparr>
          in Inr (removePaneLocked now loc session tab pane' r, pane', claimed))"

definition GetSession :: "SessionID \<Rightarrow> Registry \<Rightarrow> reg_error + SessionRecord" where
  "GetSession i r = getSessionLocked r i"

definition ListSessions :: "Registry \<Rightarrow> SessionRecord list" where
  "ListSessions r = sort_key s_ID (map snd (r_sessions r))"

definition GetTab :: "SessionID \<Rightarrow> TabID \<Rightarrow> Registry \<Rightarrow> reg_error + TabRecord" where
  "GetTab sid tid r = getTabLocked r sid tid"

definition ListTabs :: "SessionID \<Rightarrow> Registry \<Rightarrow> reg_error + TabRecord list" where
  "ListTabs sid r =
     (case getSessionLocked r sid of
        Inl e \<Rightarrow> Inl e
      | Inr s \<Rightarrow> Inr (sort_key t_ID (map snd (s_Tabs s))))"

section \<open>Sequences of method calls\<close>

datatype reg_op =
    OpRegister RegisterPaneRequest
  | OpStatus PaneID uint64 PaneStatus string
  | OpActiveStatus PaneID uint64 PaneStatus string
  | OpClaimClosure PaneID uint64 PaneStatus string
  | OpInstruction PaneID uint64 string
  | OpOutput PaneID uint64 string
  | OpActiveOutput PaneID uint64 string
  | OpRemove PaneID uint64
  | OpRemoveClaiming PaneID uint64

datatype reg_out = RErr reg_error | RPane PaneRecord | RFlag PaneRecord bool

definition ret_pane :: "Registry \<Rightarrow> reg_error + (Registry \<times> PaneRecord) \<Rightarrow> Registry \<times> reg_out" where
  "ret_pane r x = (case x of Inl e \<Rightarrow> (r, RErr e) | Inr (r', p) \<Rightarrow> (r', RPane p))"

definition ret_flag :: "Registry \<Rightarrow> reg_error + (Registry \<times> PaneRecord \<times> bool) \<Rightarrow> Registry \<times> reg_out" where
  "ret_flag r x = (case x of Inl e \<Rightarrow> (r, RErr e) | Inr (r', p, b) \<Rightarrow> (r', RFlag p b))"

fun reg_step :: "time \<Rightarrow> reg_op \<Rightarrow> Registry \<Rightarrow> Registry \<times> reg_out" where
  "reg_step now (OpRegister req) r = ret_pane r (RegisterPane now req r)"
| "reg_step now (OpStatus i g st m) r = ret_pane r (updatePaneStatusGeneration now i g st m r)"
| "reg_step now (OpActiveStatus i g st m) r = ret_flag r (UpdateActivePaneStatusGeneration now i g st m r)"
| "reg_step now (OpClaimClosure i g st m) r = ret_flag r (ClaimPaneClosureGeneration now i g st m r)"
| "reg_step now (OpInstruction i g x) r = ret_pane r (RecordPaneInstructionGeneration now i g x r)"
| "reg_step now (OpOutput i g x) r = ret_pane r (updatePaneOutputGeneration now i g x r)"
| "reg_step now (OpActiveOutput i g x) r = ret_flag r (UpdateActivePaneOutputGeneration now i g x r)"
| "reg_step now (OpRemove i g) r = ret_pane r (removePaneGeneration now i g r)"
| "reg_step now (OpRemoveClaiming i g) r = ret_flag r (RemovePaneGenerationClaimingClosure now i g r)"

section \<open>Specification: a table of panes\<close>

text \<open>
  What the registry promises: a table of panes by identifier, the pane each backend
  identifier was last given to, and the last generation handed out.
\<close>

record pane_spec =
  sp_panes :: "PaneID \<rightharpoonup> PaneRecord"
  sp_latest :: "ZellijPaneID \<rightharpoonup> PaneID"
  sp_next :: uint64

definition paneAt :: "Registry \<Rightarrow> SessionID \<Rightarrow> TabID \<Rightarrow> PaneID \<Rightarrow> PaneRecord option" where
  "paneAt r sid tid i =
     (case mget (r_sessions r) sid of
        None \<Rightarrow> None
      | Some s \<Rightarrow> (case mget (s_Tabs s) tid of None \<Rightarrow> None | Some t \<Rightarrow> mget (t_Panes t) i))"

definition lookupPane :: "Registry \<Rightarrow> PaneID \<Rightarrow> PaneRecord option" where
  "lookupPane r i =
     (case mget (r_paneToLocation r) i of
        None \<Rightarrow> None | Some loc \<Rightarrow> paneAt r (l_SessionID loc) (l_TabID loc) i)"

definition reg_abs :: "Registry \<Rightarrow> pane_spec" where
  "reg_abs r = \<lparr>sp_panes = lookupPane r, sp_latest = mget (r_latestByZellij r),
     sp_next = r_nextGeneration r\<rparr>"

text \<open>An update of a pane whose generation is checked, with the pane it stores and returns.\<close>

definition sp_put :: "PaneRecord \<Rightarrow> pane_spec \<Rightarrow> pane_spec" where
  "sp_put p a = a\<lparr>sp_panes := (sp_panes a)(p_ID p \<mapsto> p)\<rparr>"

definition sp_del :: "PaneRecord \<Rightarrow> pane_spec \<Rightarrow> pane_spec" where
  "sp_del p a = a\<lparr>sp_panes := (sp_panes a)(p_ID p := None),
     sp_latest := (if sp_latest a (p_ZellijPaneID p) = Some (p_ID p)
                   then (sp_latest a)(p_ZellijPaneID p := None) else sp_latest a)\<rparr>"

definition sp_at :: "PaneID \<Rightarrow> (PaneRecord \<Rightarrow> bool) \<Rightarrow> (PaneRecord \<Rightarrow> pane_spec \<times> reg_out) \<Rightarrow> pane_spec
    \<Rightarrow> pane_spec \<times> reg_out" where
  "sp_at i fresh f a =
     (case sp_panes a i of
        None \<Rightarrow> (a, RErr ErrNotFound)
      | Some p \<Rightarrow> if fresh p then f p else (a, RErr ErrStaleRecord))"

definition gen_ok :: "uint64 \<Rightarrow> PaneRecord \<Rightarrow> bool" where
  "gen_ok g p \<longleftrightarrow> g = 0 \<or> p_Generation p = g"

definition setStatus :: "time \<Rightarrow> PaneStatus \<Rightarrow> string \<Rightarrow> PaneRecord \<Rightarrow> PaneRecord" where
  "setStatus now st m p = p\<lparr>p_Status := st, p_StatusMessage := m, p_UpdatedAt := now\<rparr>"

definition setOutput :: "time \<Rightarrow> string \<Rightarrow> PaneRecord \<Rightarrow> PaneRecord" where
  "setOutput now x p = p\<lparr>p_LastOutput := x, p_UpdatedAt := now\<rparr>"

definition active_holder :: "pane_spec \<Rightarrow> SessionID \<Rightarrow> ZellijPaneID \<Rightarrow> PaneID \<Rightarrow> bool" where
  "active_holder a sid z i \<longleftrightarrow> z \<noteq> [] \<and>
     (\<exists>p. sp_panes a i = Some p \<and> p_SessionID p = sid \<and> p_ZellijPaneID p = z
        \<and> \<not> isTerminalPaneStatus (p_Status p))"

definition sp_register :: "time \<Rightarrow> RegisterPaneRequest \<Rightarrow> pane_spec \<Rightarrow> pane_spec \<times> reg_out" where
  "sp_register now req0 a =
     (let req = applyRegisterPaneDefaults req0 in
      case ValidateRegisterPane req0 of
        Some e \<Rightarrow> (a, RErr e)
      | None \<Rightarrow>
          if sp_panes a (rq_ID req) \<noteq> None then (a, RErr ErrAlreadyExists)
          else if \<exists>i. active_holder a (rq_SessionID req) (rq_ZellijPaneID req) i
          then (a, RErr (ErrZellijPaneAlreadyRegistered (rq_SessionID req) (rq_ZellijPaneID req)))
          else let p = newPaneRecord now (sp_next a + 1) req
               in (\<lparr>sp_panes = (sp_panes a)(p_ID p \<mapsto> p),
                    sp_latest = (if p_ZellijPaneID p = [] then sp_latest a
                                 else (sp_latest a)(p_ZellijPaneID p \<mapsto> p_ID p)),
                    sp_next = sp_next a + 1\<rparr>, RPane p))"

fun sp_step :: "time \<Rightarrow> reg_op \<Rightarrow> pane_spec \<Rightarrow> pane_spec \<times> reg_out" where
  "sp_step now (OpRegister req) a = sp_register now req a"
| "sp_step now (OpStatus i g st m) a =
     sp_at i (gen_ok g) (\<lambda>p. (sp_put (setStatus now st m p) a, RPane (setStatus now st m p))) a"
| "sp_step now (OpActiveStatus i g st m) a =
     sp_at i (gen_ok g) (\<lambda>p. if isTerminalPaneStatus (p_Status p) then (a, RFlag p False)
       else (sp_put (setStatus now st m p) a, RFlag (setStatus now st m p) True)) a"
| "sp_step now (OpClaimClosure i g st m) a =
     sp_at i (gen_ok g) (\<lambda>p.
       let q = (if isTerminalPaneStatus (p_Status p) then p else setStatus now st m p)
                 \<lparr>p_closeNotificationClaimed := True\<rparr>
       in (sp_put q a, RFlag q (\<not> p_closeNotificationClaimed p))) a"
| "sp_step now (OpInstruction i g x) a =
     sp_at i (\<lambda>p. p_Generation p = g) (\<lambda>p.
       let q = p\<lparr>p_LastInstruction := x, p_LastInstructionAt := now, p_UpdatedAt := now\<rparr>
       in (sp_put q a, RPane q)) a"
| "sp_step now (OpOutput i g x) a =
     sp_at i (gen_ok g) (\<lambda>p. (sp_put (setOutput now x p) a, RPane (setOutput now x p))) a"
| "sp_step now (OpActiveOutput i g x) a =
     sp_at i (gen_ok g) (\<lambda>p. if isTerminalPaneStatus (p_Status p) then (a, RFlag p False)
       else (sp_put (setOutput now x p) a, RFlag (setOutput now x p) True)) a"
| "sp_step now (OpRemove i g) a = sp_at i (gen_ok g) (\<lambda>p. (sp_del p a, RPane p)) a"
| "sp_step now (OpRemoveClaiming i g) a =
     sp_at i (gen_ok g) (\<lambda>p. (sp_del p a,
       RFlag (p\<lparr>p_closeNotificationClaimed := True\<rparr>) (\<not> p_closeNotificationClaimed p))) a"

section \<open>The invariant\<close>

definition tab_ok :: "TabID \<Rightarrow> TabRecord \<Rightarrow> bool" where
  "tab_ok tid t \<longleftrightarrow> t_ID t = tid \<and> mapok (t_Panes t)"

definition session_ok :: "SessionID \<Rightarrow> SessionRecord \<Rightarrow> bool" where
  "session_ok sid s \<longleftrightarrow> s_ID s = sid \<and> mapok (s_Tabs s) \<and>
     (\<forall>tid t. mget (s_Tabs s) tid = Some t \<longrightarrow> tab_ok tid t)"

definition struct_ok :: "Registry \<Rightarrow> bool" where
  "struct_ok r \<longleftrightarrow> mapok (r_sessions r) \<and> mapok (r_paneToLocation r) \<and> mapok (r_latestByZellij r) \<and>
     mget (r_latestByZellij r) [] = None \<and> (\<forall>sid s. mget (r_sessions r) sid = Some s \<longrightarrow> session_ok sid s)"

text \<open>The location index and the hierarchy hold the same panes, each under its own keys.\<close>

definition index_ok :: "Registry \<Rightarrow> bool" where
  "index_ok r \<longleftrightarrow>
     (\<forall>sid tid i p. paneAt r sid tid i = Some p \<longrightarrow>
        mget (r_paneToLocation r) i = Some \<lparr>l_SessionID = sid, l_TabID = tid\<rparr> \<and>
        p_ID p = i \<and> p_SessionID p = sid \<and> p_TabID p = tid) \<and>
     (\<forall>i loc. mget (r_paneToLocation r) i = Some loc \<longrightarrow> lookupPane r i \<noteq> None)"

definition spec_inv :: "pane_spec \<Rightarrow> bool" where
  "spec_inv a \<longleftrightarrow>
     (\<forall>i p. sp_panes a i = Some p \<longrightarrow> p_ID p = i \<and> i \<noteq> [] \<and> p_Generation p \<noteq> 0 \<and>
        p_Generation p \<le> sp_next a) \<and>
     (\<forall>i j p q. sp_panes a i = Some p \<longrightarrow> sp_panes a j = Some q \<longrightarrow>
        p_Generation p = p_Generation q \<longrightarrow> i = j) \<and>
     (\<forall>z i. sp_latest a z = Some i \<longrightarrow> z \<noteq> [] \<and>
        (\<exists>p. sp_panes a i = Some p \<and> p_ZellijPaneID p = z))"

definition registry_inv :: "Registry \<Rightarrow> bool" where
  "registry_inv r \<longleftrightarrow> struct_ok r \<and> index_ok r"

section \<open>Paths\<close>

definition path :: "Registry \<Rightarrow> PaneID \<Rightarrow> paneLocation \<Rightarrow> SessionRecord \<Rightarrow> TabRecord \<Rightarrow> PaneRecord \<Rightarrow> bool" where
  "path r i loc s t p \<longleftrightarrow> mget (r_paneToLocation r) i = Some loc \<and>
     mget (r_sessions r) (l_SessionID loc) = Some s \<and> mget (s_Tabs s) (l_TabID loc) = Some t \<and>
     mget (t_Panes t) i = Some p"

lemma resolvePanePath_alt:
  "lookupPane r i = None \<and> resolvePanePathLocked r i = Inl ErrNotFound \<or>
   (\<exists>loc s t p. lookupPane r i = Some p \<and> resolvePanePathLocked r i = Inr (loc, s, t, p) \<and>
      path r i loc s t p)"
  by (auto simp: lookupPane_def paneAt_def resolvePanePathLocked_def getPaneLocationLocked_def
      getSessionLocked_def path_def split: option.splits)

lemma resolvePanePath_cases:
  obtains "lookupPane r i = None" "resolvePanePathLocked r i = Inl ErrNotFound"
  | loc s t p where "lookupPane r i = Some p" "resolvePanePathLocked r i = Inr (loc, s, t, p)"
      "path r i loc s t p"
  using resolvePanePath_alt [of r i] by metis

lemma resolveGeneration_alt:
  "lookupPane r i = None \<and> resolveGeneration r i g = Inl ErrNotFound \<or>
   (\<exists>p. lookupPane r i = Some p \<and> \<not> gen_ok g p \<and> resolveGeneration r i g = Inl ErrStaleRecord) \<or>
   (\<exists>loc s t p. lookupPane r i = Some p \<and> gen_ok g p \<and>
      resolveGeneration r i g = Inr (loc, s, t, p) \<and> path r i loc s t p)"
  by (cases rule: resolvePanePath_cases [of r i]) (auto simp: resolveGeneration_def gen_ok_def)

lemma resolveGeneration_cases:
  obtains "lookupPane r i = None" "resolveGeneration r i g = Inl ErrNotFound"
  | p where "lookupPane r i = Some p" "\<not> gen_ok g p" "resolveGeneration r i g = Inl ErrStaleRecord"
  | loc s t p where "lookupPane r i = Some p" "gen_ok g p"
      "resolveGeneration r i g = Inr (loc, s, t, p)" "path r i loc s t p"
  using resolveGeneration_alt [of r i g] by metis

lemma GetPane_lookup: "GetPane i r = (case lookupPane r i of None \<Rightarrow> Inl ErrNotFound | Some p \<Rightarrow> Inr p)"
  by (cases rule: resolvePanePath_cases [of r i]) (auto simp: GetPane_def)

text \<open>
  What one write-back does to the hierarchy. The premises say that the session and the tab at
  hand hold the panes the registry has there, which covers the new ones of a registration.
\<close>

definition session_at :: "SessionRecord \<Rightarrow> TabID \<Rightarrow> PaneID \<Rightarrow> PaneRecord option" where
  "session_at s tid i = (case mget (s_Tabs s) tid of None \<Rightarrow> None | Some t \<Rightarrow> mget (t_Panes t) i)"

lemma paneAt_session_at:
  "paneAt r sid tid i = (case mget (r_sessions r) sid of None \<Rightarrow> None | Some s \<Rightarrow> session_at s tid i)"
  by (simp add: paneAt_def session_at_def split: option.splits)

lemma r_sessions_saveLocked [simp]:
  "r_sessions (saveLocked s t p d r) = r_sessions r"
  "r_paneToLocation (saveLocked s t p d r) = r_paneToLocation r"
  "r_latestByZellij (saveLocked s t p d r) = r_latestByZellij r"
  "r_nextGeneration (saveLocked s t p d r) = r_nextGeneration r"
  by (simp_all add: saveLocked_def split: option.splits)

lemma writeBack_frame [simp]:
  "r_paneToLocation (writeBack now save loc s t p i r) = r_paneToLocation r"
  "r_latestByZellij (writeBack now save loc s t p i r) = r_latestByZellij r"
  "r_nextGeneration (writeBack now save loc s t p i r) = r_nextGeneration r"
  by (simp_all add: writeBack_def Let_def)

lemma writeBack_sessions:
  "r_sessions (writeBack now save loc s t p i r) =
     mput (r_sessions r) (l_SessionID loc)
       (stampSession now (l_TabID loc) (stampTab now (mput (t_Panes t) i p) t) s)"
  by (simp add: writeBack_def Let_def)

lemma session_at_stamp:
  "session_at (stampSession now tid (stampTab now panes t) s) tid' i =
     (if tid' = tid then mget panes i else session_at s tid' i)"
  by (simp add: session_at_def stampSession_def stampTab_def)

lemma paneAt_writeBack:
  assumes "\<And>tid i. session_at s tid i = paneAt r (l_SessionID loc) tid i"
    and "\<And>i. mget (t_Panes t) i = paneAt r (l_SessionID loc) (l_TabID loc) i"
  shows "paneAt (writeBack now save loc s t p i r) sid tid i' =
     (if sid = l_SessionID loc \<and> tid = l_TabID loc \<and> i' = i then Some p else paneAt r sid tid i')"
  using assms
  by (auto simp: paneAt_session_at [of "writeBack now save loc s t p i r"] writeBack_sessions
      session_at_stamp) (auto simp: paneAt_session_at)

lemma session_ok_stamp:
  "session_ok sid s \<Longrightarrow> tab_ok tid t \<Longrightarrow> mapok panes \<Longrightarrow>
   session_ok sid (stampSession now tid (stampTab now panes t) s)"
  by (auto simp: session_ok_def tab_ok_def stampSession_def stampTab_def)

lemma struct_ok_writeBack:
  assumes "struct_ok r" "session_ok (l_SessionID loc) s" "tab_ok (l_TabID loc) t"
  shows "struct_ok (writeBack now save loc s t p i r)"
proof -
  have "mapok (mput (t_Panes t) i p)" using assms(3) by (auto simp: tab_ok_def)
  from session_ok_stamp [OF assms(2,3) this] show ?thesis
    using assms(1) by (auto simp: struct_ok_def writeBack_sessions)
qed

lemma path_ok:
  assumes "struct_ok r" "path r i loc s t p"
  shows "session_ok (l_SessionID loc) s" "tab_ok (l_TabID loc) t"
    "\<And>tid j. session_at s tid j = paneAt r (l_SessionID loc) tid j"
    "\<And>j. mget (t_Panes t) j = paneAt r (l_SessionID loc) (l_TabID loc) j"
    "paneAt r (l_SessionID loc) (l_TabID loc) i = Some p"
  using assms by (auto simp: struct_ok_def session_ok_def path_def paneAt_session_at session_at_def)

lemma lookupPane_paneAt:
  "index_ok r \<Longrightarrow> lookupPane r i = Some p \<longleftrightarrow> (\<exists>sid tid. paneAt r sid tid i = Some p)"
  by (auto simp: index_ok_def lookupPane_def split: option.splits)

lemma lookupPane_ids:
  assumes "index_ok r" "lookupPane r i = Some p"
  shows "p_ID p = i" "mget (r_paneToLocation r) i = Some \<lparr>l_SessionID = p_SessionID p, l_TabID = p_TabID p\<rparr>"
    "paneAt r (p_SessionID p) (p_TabID p) i = Some p"
  using assms by (auto simp: lookupPane_paneAt) (auto simp: index_ok_def)

lemma path_ids:
  assumes "registry_inv r" "path r i loc s t p"
  shows "p_ID p = i" "loc = \<lparr>l_SessionID = p_SessionID p, l_TabID = p_TabID p\<rparr>"
    "lookupPane r i = Some p"
proof -
  show l: "lookupPane r i = Some p"
    using assms path_ok(5) by (auto simp: registry_inv_def lookupPane_def path_def)
  show "p_ID p = i" "loc = \<lparr>l_SessionID = p_SessionID p, l_TabID = p_TabID p\<rparr>"
    using lookupPane_ids [OF _ l] assms by (auto simp: registry_inv_def path_def)
qed

text \<open>An update of a registered pane that keeps its identity is one update of the table.\<close>

definition same_place :: "PaneRecord \<Rightarrow> PaneRecord \<Rightarrow> bool" where
  "same_place p q \<longleftrightarrow> p_ID p = p_ID q \<and> p_SessionID p = p_SessionID q \<and> p_TabID p = p_TabID q"

lemma writeBack_update:
  assumes inv: "registry_inv r" and path: "path r i loc s t p" and same: "same_place p q"
  shows "registry_inv (writeBack now save loc s t q i r) \<and>
    reg_abs (writeBack now save loc s t q i r) = sp_put q (reg_abs r)"
proof -
  let ?r = "writeBack now save loc s t q i r"
  note ids = path_ids [OF inv path]
  have st: "struct_ok r" and ix: "index_ok r" using inv by (simp_all add: registry_inv_def)
  note pok = path_ok [OF st path]
  have at: "paneAt ?r sid tid j = (if sid = l_SessionID loc \<and> tid = l_TabID loc \<and> j = i then Some q
      else paneAt r sid tid j)" for sid tid j
    by (rule paneAt_writeBack) (use pok in auto)
  have loc: "mget (r_paneToLocation r) i = Some loc" using path by (simp add: path_def)
  have lk: "lookupPane ?r = (lookupPane r)(i \<mapsto> q)"
  proof
    fix j
    show "lookupPane ?r j = ((lookupPane r)(i \<mapsto> q)) j"
      using loc by (auto simp: lookupPane_def at split: option.splits)
  qed
  have "index_ok ?r" unfolding index_ok_def at lk writeBack_frame
    using ix ids same loc by (auto simp: index_ok_def same_place_def)
  moreover have "struct_ok ?r" by (rule struct_ok_writeBack [OF st pok(1,2)])
  moreover have "p_ID q = i" using same ids by (simp add: same_place_def)
  ultimately show ?thesis using lk by (simp add: registry_inv_def reg_abs_def sp_put_def)
qed

section \<open>Removal\<close>

definition deletePane :: "time \<Rightarrow> paneLocation \<Rightarrow> SessionRecord \<Rightarrow> TabRecord \<Rightarrow> PaneID \<Rightarrow> (SessionID, SessionRecord) gomap
    \<Rightarrow> (SessionID, SessionRecord) gomap" where
  "deletePane now loc s t i m =
     mput m (l_SessionID loc) (stampSession now (l_TabID loc) (stampTab now (mdel (t_Panes t) i) t) s)"

lemma removePaneLocked_fields:
  "r_sessions (removePaneLocked now loc s t p r) = deletePane now loc s t (p_ID p) (r_sessions r)"
  "r_paneToLocation (removePaneLocked now loc s t p r) = mdel (r_paneToLocation r) (p_ID p)"
  "r_nextGeneration (removePaneLocked now loc s t p r) = r_nextGeneration r"
  "r_latestByZellij (removePaneLocked now loc s t p r) =
     (if p_ZellijPaneID p \<noteq> [] \<and> mget (r_latestByZellij r) (p_ZellijPaneID p) = Some (p_ID p)
      then mdel (r_latestByZellij r) (p_ZellijPaneID p) else r_latestByZellij r)"
  by (simp_all add: removePaneLocked_def deletePane_def Let_def)

lemma paneAt_removePane:
  assumes st: "struct_ok r" and path: "path r i loc s t p" and id: "p_ID q = i"
  shows "paneAt (removePaneLocked now loc s t q r) sid tid j =
     (if sid = l_SessionID loc \<and> tid = l_TabID loc \<and> j = i then None else paneAt r sid tid j)"
proof -
  note pok = path_ok [OF st path]
  have "mapok (t_Panes t)" using pok(2) by (simp add: tab_ok_def)
  then show ?thesis using pok(3,4) id
    by (auto simp: paneAt_session_at [of "removePaneLocked now loc s t q r"] removePaneLocked_fields
        deletePane_def session_at_stamp) (auto simp: paneAt_session_at)
qed

lemma struct_ok_removePane:
  assumes st: "struct_ok r" and path: "path r i loc s t p"
  shows "struct_ok (removePaneLocked now loc s t q r)"
proof -
  note pok = path_ok [OF st path]
  have "mapok (mdel (t_Panes t) (p_ID q))" using pok(2) by (auto simp: tab_ok_def)
  from session_ok_stamp [OF pok(1,2) this] show ?thesis
    using st by (auto simp: struct_ok_def removePaneLocked_fields deletePane_def)
qed

lemma removePane_update:
  assumes inv: "registry_inv r" and path: "path r i loc s t p"
    and q: "p_ID q = p_ID p" "p_ZellijPaneID q = p_ZellijPaneID p"
  shows "registry_inv (removePaneLocked now loc s t q r) \<and>
    reg_abs (removePaneLocked now loc s t q r) = sp_del p (reg_abs r)"
proof -
  let ?r = "removePaneLocked now loc s t q r"
  note ids = path_ids [OF inv path]
  have st: "struct_ok r" and ix: "index_ok r" using inv by (simp_all add: registry_inv_def)
  have m: "mapok (r_paneToLocation r)" "mapok (r_latestByZellij r)" "mget (r_latestByZellij r) [] = None"
    using st by (simp_all add: struct_ok_def)
  have at: "paneAt ?r sid tid j = (if sid = l_SessionID loc \<and> tid = l_TabID loc \<and> j = i then None
      else paneAt r sid tid j)" for sid tid j
    by (rule paneAt_removePane [OF st path]) (use ids q in simp)
  have loc: "mget (r_paneToLocation r) i = Some loc" using path by (simp add: path_def)
  have idq: "p_ID q = i" using ids q by simp
  have lk: "lookupPane ?r = (lookupPane r)(i := None)"
  proof
    fix j
    show "lookupPane ?r j = ((lookupPane r)(i := None)) j"
      using m(1) idq by (auto simp: lookupPane_def at removePaneLocked_fields split: option.splits)
  qed
  have "paneAt r sid tid i = None" if "\<not> (sid = l_SessionID loc \<and> tid = l_TabID loc)" for sid tid
    using ix loc that by (cases "paneAt r sid tid i") (auto simp: index_ok_def)
  then have "index_ok ?r" unfolding index_ok_def at lk removePaneLocked_fields idq
    using ix m(1) by (auto simp: index_ok_def)
  moreover have "mget (r_latestByZellij ?r) = sp_latest (sp_del p (reg_abs r))"
    using m q by (auto simp: removePaneLocked_fields sp_del_def reg_abs_def fun_eq_iff)
  ultimately show ?thesis using lk struct_ok_removePane [OF st path] ids
    by (simp add: registry_inv_def reg_abs_def sp_del_def removePaneLocked_fields)
qed

section \<open>Registration\<close>

lemma registered_iff:
  "registry_inv r \<Longrightarrow> mget (r_paneToLocation r) i = None \<longleftrightarrow> lookupPane r i = None"
  by (auto simp: registry_inv_def index_ok_def lookupPane_def split: option.splits)

lemma active_holder_paneAt:
  assumes "index_ok r"
  shows "(\<exists>i. active_holder (reg_abs r) sid z i) \<longleftrightarrow> z \<noteq> [] \<and>
    (\<exists>tid i p. paneAt r sid tid i = Some p \<and> p_ZellijPaneID p = z \<and> \<not> isTerminalPaneStatus (p_Status p))"
proof -
  have "p_SessionID p = sid" "lookupPane r i = Some p" if "paneAt r sid tid i = Some p" for tid i p
    using that assms by (auto simp: index_ok_def lookupPane_def)
  then show ?thesis unfolding active_holder_def reg_abs_def
    using lookupPane_ids(3) [OF assms] by simp metis
qed

lemma session_at_iff:
  assumes "session_ok sid s"
  shows "session_at s tid i = Some p \<longleftrightarrow> (\<exists>t. (tid, t) \<in> set (s_Tabs s) \<and> (i, p) \<in> set (t_Panes t))"
proof -
  have "mapok (s_Tabs s)" using assms by (simp add: session_ok_def)
  note tabs = mapok_mget_iff [OF this, symmetric]
  have "(i, p) \<in> set (t_Panes t) \<longleftrightarrow> mget (t_Panes t) i = Some p" if "mget (s_Tabs s) tid = Some t" for t
    using assms that by (intro mapok_mget_iff [symmetric]) (auto simp: session_ok_def tab_ok_def)
  then show ?thesis unfolding tabs session_at_def by (auto split: option.splits)
qed

lemma list_ex_session_at:
  assumes "session_ok sid s"
  shows "list_ex (\<lambda>(_, t). list_ex (\<lambda>(_, p). P p) (t_Panes t)) (s_Tabs s) \<longleftrightarrow>
    (\<exists>tid i p. session_at s tid i = Some p \<and> P p)"
  unfolding session_at_iff [OF assms] list_ex_iff by auto

lemma validateActive_holder:
  assumes "registry_inv r"
  shows "validateActiveZellijPaneUniqueLocked r sid z =
     (if \<exists>i. active_holder (reg_abs r) sid z i then Some (ErrZellijPaneAlreadyRegistered sid z) else None)"
proof -
  have ix: "index_ok r" and st: "struct_ok r" using assms by (simp_all add: registry_inv_def)
  have "(\<exists>i. active_holder (reg_abs r) sid z i) \<longleftrightarrow> validateActiveZellijPaneUniqueLocked r sid z \<noteq> None"
  proof (cases "mget (r_sessions r) sid")
    case None
    then show ?thesis
      by (simp add: active_holder_paneAt [OF ix] validateActiveZellijPaneUniqueLocked_def paneAt_def)
  next
    case (Some s)
    then have "session_ok sid s" using st by (simp add: struct_ok_def)
    from list_ex_session_at [OF this] show ?thesis unfolding active_holder_paneAt [OF ix] using Some
      by (simp add: validateActiveZellijPaneUniqueLocked_def paneAt_session_at)
  qed
  then show ?thesis
    by (auto simp: validateActiveZellijPaneUniqueLocked_def split: option.splits if_splits)
qed

text \<open>The session and the tab a registration writes into hold the panes already there.\<close>

definition regSession :: "time \<Rightarrow> RegisterPaneRequest \<Rightarrow> Registry \<Rightarrow> SessionRecord" where
  "regSession now req r = (case mget (r_sessions r) (rq_SessionID req) of
      None \<Rightarrow> \<lparr>s_ID = rq_SessionID req, s_Tabs = [], s_CreatedAt = now, s_UpdatedAt = now\<rparr>
    | Some s \<Rightarrow> s\<lparr>s_UpdatedAt := now\<rparr>)"

definition regTab :: "time \<Rightarrow> RegisterPaneRequest \<Rightarrow> SessionRecord \<Rightarrow> TabRecord" where
  "regTab now req session = (case mget (s_Tabs session) (rq_TabID req) of
      None \<Rightarrow> \<lparr>t_ID = rq_TabID req, t_Name = rq_TabName req, t_Panes = [],
               t_CreatedAt = now, t_UpdatedAt = now\<rparr>
    | Some t \<Rightarrow> t\<lparr>t_UpdatedAt := now,
          t_Name := (if t_Name t = [] \<and> rq_TabName req \<noteq> [] then rq_TabName req else t_Name t)\<rparr>)"

definition regResult :: "time \<Rightarrow> RegisterPaneRequest \<Rightarrow> Registry \<Rightarrow> Registry" where
  "regResult now req r =
     (let p = newPaneRecord now (r_nextGeneration r + 1) req;
          loc = \<lparr>l_SessionID = rq_SessionID req, l_TabID = rq_TabID req\<rparr>;
          session = regSession now req r;
          r1 = writeBack now True loc session (regTab now req session) p (rq_ID req)
                 (r\<lparr>r_nextGeneration := r_nextGeneration r + 1\<rparr>)
      in r1\<lparr>r_paneToLocation := mput (r_paneToLocation r1) (rq_ID req) loc,
            r_latestByZellij := (if rq_ZellijPaneID req \<noteq> []
               then mput (r_latestByZellij r) (rq_ZellijPaneID req) (rq_ID req) else r_latestByZellij r)\<rparr>)"

lemma newPaneRecord_sel [simp]:
  "p_ID (newPaneRecord now g req) = rq_ID req"
  "p_SessionID (newPaneRecord now g req) = rq_SessionID req"
  "p_TabID (newPaneRecord now g req) = rq_TabID req"
  "p_ZellijPaneID (newPaneRecord now g req) = rq_ZellijPaneID req"
  "p_Generation (newPaneRecord now g req) = g"
  "p_closeNotificationClaimed (newPaneRecord now g req) = False"
  by (simp_all add: newPaneRecord_def)

lemma rq_ID_defaults [simp]: "rq_ID (applyRegisterPaneDefaults req) = rq_ID req"
  by (simp add: applyRegisterPaneDefaults_def Let_def split: option.splits)

lemma RegisterPane_alt:
  "RegisterPane now req0 r =
     (let req = applyRegisterPaneDefaults req0 in
      case ValidateRegisterPane req0 of
        Some e \<Rightarrow> Inl e
      | None \<Rightarrow> (case validatePaneUniqueLocked r (rq_ID req) of
          Some e \<Rightarrow> Inl e
        | None \<Rightarrow> (case validateActiveZellijPaneUniqueLocked r (rq_SessionID req) (rq_ZellijPaneID req) of
            Some e \<Rightarrow> Inl e
          | None \<Rightarrow> Inr (regResult now req r, newPaneRecord now (r_nextGeneration r + 1) req))))"
  by (simp add: RegisterPane_def regResult_def regSession_def regTab_def Let_def split: option.splits)

lemma reg_targets_ok:
  assumes "struct_ok r"
  shows "session_ok (rq_SessionID req) (regSession now req r)"
    "tab_ok (rq_TabID req) (regTab now req (regSession now req r))"
    "session_at (regSession now req r) tid i = paneAt r (rq_SessionID req) tid i"
    "mget (t_Panes (regTab now req (regSession now req r))) i = paneAt r (rq_SessionID req) (rq_TabID req) i"
  using assms
  by (auto simp: struct_ok_def session_ok_def tab_ok_def regSession_def regTab_def paneAt_def
      session_at_def split: option.splits)

lemma paneAt_nextGeneration [simp]: "paneAt (r\<lparr>r_nextGeneration := g\<rparr>) = paneAt r"
  "paneAt (r\<lparr>r_paneToLocation := l\<rparr>) = paneAt r" "paneAt (r\<lparr>r_latestByZellij := z\<rparr>) = paneAt r"
  by (simp_all add: paneAt_def fun_eq_iff)

lemma regResult_update:
  assumes inv: "registry_inv r" and new: "lookupPane r (rq_ID req) = None"
  shows "registry_inv (regResult now req r) \<and>
    reg_abs (regResult now req r) =
      \<lparr>sp_panes = (lookupPane r)(rq_ID req \<mapsto> newPaneRecord now (r_nextGeneration r + 1) req),
       sp_latest = (if rq_ZellijPaneID req = [] then mget (r_latestByZellij r)
                    else (mget (r_latestByZellij r))(rq_ZellijPaneID req \<mapsto> rq_ID req)),
       sp_next = r_nextGeneration r + 1\<rparr>"
proof -
  let ?r = "regResult now req r" and ?p = "newPaneRecord now (r_nextGeneration r + 1) req"
  let ?loc = "\<lparr>l_SessionID = rq_SessionID req, l_TabID = rq_TabID req\<rparr>"
  have st: "struct_ok r" and ix: "index_ok r" using inv by (simp_all add: registry_inv_def)
  note tg = reg_targets_ok [OF st, where req = req and now = now]
  have free: "mget (r_paneToLocation r) (rq_ID req) = None" using new registered_iff [OF inv] by simp
  have at: "paneAt ?r sid tid j = (if sid = rq_SessionID req \<and> tid = rq_TabID req \<and> j = rq_ID req
      then Some ?p else paneAt r sid tid j)" for sid tid j
    using tg by (simp add: regResult_def Let_def paneAt_writeBack)
  have ptl: "mget (r_paneToLocation ?r) = (mget (r_paneToLocation r))(rq_ID req \<mapsto> ?loc)"
    and lat: "mget (r_latestByZellij ?r) = (if rq_ZellijPaneID req = [] then mget (r_latestByZellij r)
                    else (mget (r_latestByZellij r))(rq_ZellijPaneID req \<mapsto> rq_ID req))"
    and gen: "r_nextGeneration ?r = r_nextGeneration r + 1"
    by (auto simp: regResult_def Let_def)
  have lk: "lookupPane ?r = (lookupPane r)(rq_ID req \<mapsto> ?p)"
    by (auto simp: lookupPane_def ptl at fun_eq_iff split: option.splits)
  have none: "paneAt r sid tid (rq_ID req) = None" for sid tid
    using ix free by (cases "paneAt r sid tid (rq_ID req)") (auto simp: index_ok_def)
  have "index_ok ?r" unfolding index_ok_def at ptl lk using ix none by (auto simp: index_ok_def)
  moreover have "struct_ok ?r"
    using st struct_ok_writeBack [of "r\<lparr>r_nextGeneration := r_nextGeneration r + 1\<rparr>" ?loc
        "regSession now req r" "regTab now req (regSession now req r)"] tg(1,2)
    by (auto simp: struct_ok_def regResult_def Let_def)
  ultimately show ?thesis using lk lat gen by (simp add: registry_inv_def reg_abs_def)
qed

section \<open>Every method implements the table\<close>

definition step_refines :: "time \<Rightarrow> reg_op \<Rightarrow> Registry \<Rightarrow> bool" where
  "step_refines now op r \<longleftrightarrow> registry_inv (fst (reg_step now op r)) \<and>
     (reg_abs (fst (reg_step now op r)), snd (reg_step now op r)) = sp_step now op (reg_abs r)"

lemma step_refinesI:
  assumes "reg_step now op r = (r', out)" "sp_step now op (reg_abs r) = (a', out)"
    and "registry_inv r' \<and> reg_abs r' = a'"
  shows "step_refines now op r"
  using assms by (simp add: step_refines_def)

lemma sp_panes_abs [simp]: "sp_panes (reg_abs r) = lookupPane r"
  "sp_latest (reg_abs r) = mget (r_latestByZellij r)" "sp_next (reg_abs r) = r_nextGeneration r"
  by (simp_all add: reg_abs_def)

lemmas modify_defs = updatePaneStatusGeneration_def UpdateActivePaneStatusGeneration_def
  ClaimPaneClosureGeneration_def updatePaneOutputGeneration_def UpdateActivePaneOutputGeneration_def
  removePaneGeneration_def RemovePaneGenerationClaimingClosure_def RecordPaneInstructionGeneration_def

lemmas step_defs = modify_defs ret_pane_def ret_flag_def sp_at_def setStatus_def setOutput_def Let_def

text \<open>The methods that check a generation and then store an updated pane, or leave it.\<close>

lemma modify_refines:
  assumes inv: "registry_inv r"
    and conc: "reg_step now op r = (case resolveGeneration r i g of
        Inl e \<Rightarrow> (r, RErr e)
      | Inr (loc, s, t, p) \<Rightarrow> (if keep p then r else writeBack now save loc s t (f p) i r, out p))"
    and spec: "sp_step now op (reg_abs r) =
       sp_at i (gen_ok g) (\<lambda>p. (if keep p then reg_abs r else sp_put (f p) (reg_abs r), out p)) (reg_abs r)"
    and same: "\<And>p. same_place p (f p)"
  shows "step_refines now op r"
proof (cases rule: resolveGeneration_cases [of r i g])
  case (3 loc s t p)
  with conc spec writeBack_update [OF inv 3(4) same] inv show ?thesis
    by (simp add: step_refines_def sp_at_def)
qed (use conc spec inv in \<open>simp_all add: step_refines_def sp_at_def\<close>)

lemma status_refines:
  assumes inv: "registry_inv r"
  shows "step_refines now (OpStatus i g st m) r"
  by (rule modify_refines [OF inv, where keep = "\<lambda>_. False" and f = "setStatus now st m" and save = True
        and out = "\<lambda>p. RPane (setStatus now st m p)" and i = i and g = g])
    (simp_all add: step_defs same_place_def split: sum.splits)

lemma active_status_refines:
  assumes inv: "registry_inv r"
  shows "step_refines now (OpActiveStatus i g st m) r"
  by (rule modify_refines [OF inv, where keep = "\<lambda>p. isTerminalPaneStatus (p_Status p)"
        and f = "setStatus now st m" and save = True and i = i and g = g
        and out = "\<lambda>p. if isTerminalPaneStatus (p_Status p) then RFlag p False
                       else RFlag (setStatus now st m p) True"])
    (auto simp: step_defs same_place_def fun_eq_iff split: sum.splits option.splits)

lemma output_refines:
  assumes inv: "registry_inv r"
  shows "step_refines now (OpOutput i g x) r"
  by (rule modify_refines [OF inv, where keep = "\<lambda>_. False" and f = "setOutput now x" and save = False
        and out = "\<lambda>p. RPane (setOutput now x p)" and i = i and g = g])
    (simp_all add: step_defs same_place_def split: sum.splits)

lemma active_output_refines:
  assumes inv: "registry_inv r"
  shows "step_refines now (OpActiveOutput i g x) r"
  by (rule modify_refines [OF inv, where keep = "\<lambda>p. isTerminalPaneStatus (p_Status p)"
        and f = "setOutput now x" and save = False and i = i and g = g
        and out = "\<lambda>p. if isTerminalPaneStatus (p_Status p) then RFlag p False
                       else RFlag (setOutput now x p) True"])
    (auto simp: step_defs same_place_def fun_eq_iff split: sum.splits option.splits)

lemma claim_refines:
  assumes inv: "registry_inv r"
  shows "step_refines now (OpClaimClosure i g st m) r"
  by (rule modify_refines [OF inv, where keep = "\<lambda>_. False" and save = True and i = i and g = g
        and f = "\<lambda>p. (if isTerminalPaneStatus (p_Status p) then p else setStatus now st m p)
                 \<lparr>p_closeNotificationClaimed := True\<rparr>"
        and out = "\<lambda>p. RFlag ((if isTerminalPaneStatus (p_Status p) then p else setStatus now st m p)
                 \<lparr>p_closeNotificationClaimed := True\<rparr>) (\<not> p_closeNotificationClaimed p)"])
    (simp_all add: step_defs same_place_def split: sum.splits)

lemma instruction_refines:
  assumes inv: "registry_inv r"
  shows "step_refines now (OpInstruction i g x) r"
proof (cases rule: resolvePanePath_cases [of r i])
  case (2 loc s t p)
  have "same_place p (p\<lparr>p_LastInstruction := x, p_LastInstructionAt := now, p_UpdatedAt := now\<rparr>)"
    by (simp add: same_place_def)
  from 2 writeBack_update [OF inv 2(3) this] inv show ?thesis
    by (auto simp: step_refines_def step_defs)
qed (use inv in \<open>simp add: step_refines_def step_defs\<close>)

lemma remove_refines:
  assumes inv: "registry_inv r"
  shows "step_refines now (OpRemove i g) r"
proof (cases rule: resolveGeneration_cases [of r i g])
  case (3 loc s t p)
  with removePane_update [OF inv 3(4), of p] show ?thesis by (simp add: step_refines_def step_defs)
qed (use inv in \<open>simp_all add: step_refines_def step_defs\<close>)

lemma remove_claiming_refines:
  assumes inv: "registry_inv r"
  shows "step_refines now (OpRemoveClaiming i g) r"
proof (cases rule: resolveGeneration_cases [of r i g])
  case (3 loc s t p)
  with removePane_update [OF inv 3(4), of "p\<lparr>p_closeNotificationClaimed := True\<rparr>"] show ?thesis
    by (simp add: step_refines_def step_defs)
qed (use inv in \<open>simp_all add: step_refines_def step_defs\<close>)

lemma register_refines:
  assumes inv: "registry_inv r"
  shows "step_refines now (OpRegister req) r"
proof -
  let ?req = "applyRegisterPaneDefaults req"
  have u: "validatePaneUniqueLocked r i = (if lookupPane r i = None then None else Some ErrAlreadyExists)" for i
    using registered_iff [OF inv, of i] by (auto simp: validatePaneUniqueLocked_def split: option.splits)
  note regResult_update [OF inv, of ?req now]
  then show ?thesis using inv
    by (auto simp: step_refines_def ret_pane_def RegisterPane_alt u validateActive_holder [OF inv]
        sp_register_def Let_def split: option.splits)
qed

lemma reg_step_refines: "registry_inv r \<Longrightarrow> step_refines now op r"
  by (cases op) (simp_all only: status_refines active_status_refines output_refines
      active_output_refines claim_refines instruction_refines remove_refines
      remove_claiming_refines register_refines)

lemma registry_inv_New [simp]: "registry_inv NewRegistry"
  by (simp add: registry_inv_def struct_ok_def index_ok_def NewRegistry_def paneAt_def)

section \<open>What the table keeps\<close>

definition pure_status_op :: "reg_op \<Rightarrow> bool" where
  "pure_status_op op \<longleftrightarrow> (\<exists>i g st m. op = OpStatus i g st m)"

text \<open>How one call may change a pane that stays registered.\<close>

definition evolves :: "reg_op \<Rightarrow> PaneRecord \<Rightarrow> PaneRecord \<Rightarrow> bool" where
  "evolves op p q \<longleftrightarrow> p_ID q = p_ID p \<and> p_Generation q = p_Generation p \<and>
     p_SessionID q = p_SessionID p \<and> p_ZellijPaneID q = p_ZellijPaneID p \<and>
     (p_closeNotificationClaimed p \<longrightarrow> p_closeNotificationClaimed q) \<and>
     (isTerminalPaneStatus (p_Status p) \<longrightarrow> \<not> pure_status_op op \<longrightarrow>
        p_Status q = p_Status p \<and> p_StatusMessage q = p_StatusMessage p)"

definition ids_ok :: "pane_spec \<Rightarrow> bool" where
  "ids_ok a \<longleftrightarrow> (\<forall>i p. sp_panes a i = Some p \<longrightarrow> p_ID p = i)"

lemma evolves_refl [simp]: "evolves op p p"
  by (simp add: evolves_def)

lemma sp_step_next:
  "sp_next (fst (sp_step now op a)) = sp_next a + (case op of OpRegister req \<Rightarrow>
     (case snd (sp_step now op a) of RPane _ \<Rightarrow> 1 | _ \<Rightarrow> 0) | _ \<Rightarrow> 0)"
  by (cases op) (auto simp: sp_register_def sp_at_def sp_put_def sp_del_def Let_def split: option.splits)

lemma sp_step_pane:
  assumes ids: "ids_ok a" and q: "sp_panes (fst (sp_step now op a)) j = Some q"
  shows "(\<exists>p. sp_panes a j = Some p \<and> evolves op p q) \<or>
    (sp_panes a j = None \<and> p_Generation q = sp_next a + 1 \<and> sp_next (fst (sp_step now op a)) = sp_next a + 1 \<and>
     p_ID q = j \<and> j \<noteq> [] \<and> snd (sp_step now op a) = RPane q \<and> (\<exists>req. op = OpRegister req))"
proof (cases op)
  case (OpRegister req)
  with q show ?thesis
    by (auto simp: sp_register_def ValidateRegisterPane_def Let_def split: option.splits if_splits)
next
  case (OpStatus i g st m)
  with q ids show ?thesis
    by (auto simp: sp_at_def sp_put_def ids_ok_def evolves_def setStatus_def pure_status_op_def
        split: option.splits if_splits)
next
  case (OpActiveStatus i g st m)
  with q ids show ?thesis
    by (auto simp: sp_at_def sp_put_def ids_ok_def evolves_def setStatus_def split: option.splits if_splits)
next
  case (OpClaimClosure i g st m)
  with q ids show ?thesis
    by (auto simp: sp_at_def sp_put_def ids_ok_def evolves_def setStatus_def Let_def split: option.splits if_splits)
next
  case (OpInstruction i g x)
  with q ids show ?thesis
    by (auto simp: sp_at_def sp_put_def ids_ok_def evolves_def Let_def split: option.splits if_splits)
next
  case (OpOutput i g x)
  with q ids show ?thesis
    by (auto simp: sp_at_def sp_put_def ids_ok_def evolves_def setOutput_def split: option.splits if_splits)
next
  case (OpActiveOutput i g x)
  with q ids show ?thesis
    by (auto simp: sp_at_def sp_put_def ids_ok_def evolves_def setOutput_def split: option.splits if_splits)
next
  case (OpRemove i g)
  with q ids show ?thesis
    by (auto simp: sp_at_def sp_del_def split: option.splits if_splits)
next
  case (OpRemoveClaiming i g)
  with q ids show ?thesis
    by (auto simp: sp_at_def sp_del_def split: option.splits if_splits)
qed

lemma spec_inv_ids: "spec_inv a \<Longrightarrow> ids_ok a"
  by (simp add: spec_inv_def ids_ok_def)

lemma sp_step_next_cases:
  "sp_next (fst (sp_step now op a)) = sp_next a \<or> sp_next (fst (sp_step now op a)) = sp_next a + 1"
  using sp_step_next [of now op a] by (cases op) (auto split: reg_out.splits)

lemma uint64_le_Suc:
  fixes x n :: uint64
  assumes "x \<le> n" "n + 1 \<noteq> 0"
  shows "x \<le> n + 1" "x \<noteq> n + 1" "n < n + 1"
proof -
  have "n \<noteq> - 1" using assms(2) by auto
  from uint64_Suc [OF this] have "n < n + 1" by (simp add: word_less_nat_alt)
  then show "x \<le> n + 1" "x \<noteq> n + 1" "n < n + 1" using assms(1) by auto
qed

lemma sp_latest_step:
  assumes inv: "spec_inv a" and l: "sp_latest (fst (sp_step now op a)) z = Some i"
  shows "z \<noteq> [] \<and> (\<exists>p. sp_panes (fst (sp_step now op a)) i = Some p \<and> p_ZellijPaneID p = z)"
proof -
  have ids: "p_ID p = j" if "sp_panes a j = Some p" for j p
    using inv that by (simp add: spec_inv_def)
  have lat: "z \<noteq> [] \<and> (\<exists>p. sp_panes a i = Some p \<and> p_ZellijPaneID p = z)" if "sp_latest a z = Some i" for z i
    using inv that by (auto simp: spec_inv_def)
  show ?thesis
  proof (cases op)
    case (OpRegister req)
    then show ?thesis using l lat [of z i]
      by (auto simp: sp_register_def Let_def split: option.splits if_splits)
  qed (use l lat [of z i] ids in \<open>auto simp: sp_at_def sp_put_def sp_del_def setStatus_def setOutput_def Let_def
        split: option.splits if_splits\<close>)
qed

lemma spec_inv_step:
  assumes inv: "spec_inv a" and room: "sp_next a + 1 \<noteq> 0"
  shows "spec_inv (fst (sp_step now op a))"
proof -
  let ?a = "fst (sp_step now op a)"
  note pane = sp_step_pane [OF spec_inv_ids [OF inv], of now op]
  have old: "p_ID p = j \<and> j \<noteq> [] \<and> p_Generation p \<noteq> 0 \<and> p_Generation p \<le> sp_next a"
    if "sp_panes a j = Some p" for j p using inv that by (auto simp: spec_inv_def)
  have inj: "i = j" if "sp_panes a i = Some p" "sp_panes a j = Some q" "p_Generation p = p_Generation q"
    for i j p q using inv that by (auto simp: spec_inv_def)
  have 1: "p_ID q = j \<and> j \<noteq> [] \<and> p_Generation q \<noteq> 0 \<and> p_Generation q \<le> sp_next ?a"
    if "sp_panes ?a j = Some q" for j q
    using pane [OF that] old uint64_le_Suc [OF _ room] sp_step_next_cases [of now op a] room
    by (auto simp: evolves_def)
  have 2: "i = j" if p: "sp_panes ?a i = Some p" and q: "sp_panes ?a j = Some q"
    and g: "p_Generation p = p_Generation q" for i j p q
  proof -
    have new: "p' = q'" if "snd (sp_step now op a) = RPane p'" "snd (sp_step now op a) = RPane q'" for p' q'
      using that by simp
    show ?thesis using pane [OF p] pane [OF q] g inj old uint64_le_Suc(2) [OF _ room]
      by (auto simp: evolves_def) metis+
  qed
  show ?thesis unfolding spec_inv_def using 1 2 sp_latest_step [OF inv] by blast
qed

section \<open>Runs\<close>

text \<open>The generations whose close notification a call claims, and a run claims.\<close>

fun claim_of :: "reg_op \<Rightarrow> reg_out \<Rightarrow> uint64 list" where
  "claim_of (OpClaimClosure i g st m) (RFlag p b) = (if b then [p_Generation p] else [])"
| "claim_of (OpRemoveClaiming i g) (RFlag p b) = (if b then [p_Generation p] else [])"
| "claim_of _ _ = []"

definition claims :: "(time \<times> reg_op) list \<Rightarrow> reg_out list \<Rightarrow> uint64 list" where
  "claims ops outs = concat (map2 claim_of (map snd ops) outs)"

text \<open>The generations a run hands out.\<close>

fun registered_of :: "reg_op \<Rightarrow> reg_out \<Rightarrow> uint64 list" where
  "registered_of (OpRegister req) (RPane p) = [p_Generation p]"
| "registered_of _ _ = []"

definition registered :: "(time \<times> reg_op) list \<Rightarrow> reg_out list \<Rightarrow> uint64 list" where
  "registered ops outs = concat (map2 registered_of (map snd ops) outs)"

text \<open>The call addresses a pane by a generation other than 0.\<close>

fun handle_op :: "PaneID \<Rightarrow> uint64 \<Rightarrow> reg_op \<Rightarrow> bool" where
  "handle_op i g (OpRegister req) = False"
| "handle_op i g (OpStatus j h _ _) = (j = i \<and> h = g)"
| "handle_op i g (OpActiveStatus j h _ _) = (j = i \<and> h = g)"
| "handle_op i g (OpClaimClosure j h _ _) = (j = i \<and> h = g)"
| "handle_op i g (OpInstruction j h _) = (j = i \<and> h = g)"
| "handle_op i g (OpOutput j h _) = (j = i \<and> h = g)"
| "handle_op i g (OpActiveOutput j h _) = (j = i \<and> h = g)"
| "handle_op i g (OpRemove j h) = (j = i \<and> h = g)"
| "handle_op i g (OpRemoveClaiming j h) = (j = i \<and> h = g)"

definition active_unique :: "pane_spec \<Rightarrow> bool" where
  "active_unique a \<longleftrightarrow> (\<forall>sid z i j. active_holder a sid z i \<longrightarrow> active_holder a sid z j \<longrightarrow> i = j)"

definition claim_inv :: "uint64 list \<Rightarrow> pane_spec \<Rightarrow> bool" where
  "claim_inv gs a \<longleftrightarrow> spec_inv a \<and> distinct gs \<and> (\<forall>g \<in> set gs. g \<le> sp_next a) \<and>
     (\<forall>i p. sp_panes a i = Some p \<longrightarrow> p_Generation p \<in> set gs \<longrightarrow> p_closeNotificationClaimed p)"

lemma claim_of_new:
  assumes ids: "ids_ok a" and g: "g \<in> set (claim_of op (snd (sp_step now op a)))"
  shows "\<exists>i p. claim_of op (snd (sp_step now op a)) = [g] \<and> sp_panes a i = Some p \<and> p_Generation p = g \<and>
    \<not> p_closeNotificationClaimed p \<and>
    (\<forall>q. sp_panes (fst (sp_step now op a)) i = Some q \<longrightarrow> p_closeNotificationClaimed q)"
  using assms
  by (cases op) (auto simp: sp_at_def sp_put_def sp_del_def setStatus_def ids_ok_def Let_def
      split: option.splits if_splits)

lemma sp_next_mono:
  assumes "sp_next a + 1 \<noteq> 0" "g \<le> sp_next a"
  shows "g \<le> sp_next (fst (sp_step now op a))"
  using sp_step_next_cases [of now op a] uint64_le_Suc [OF assms(2,1)] assms(2) by auto

lemma claim_inv_step:
  assumes inv: "claim_inv gs a" and room: "sp_next a + 1 \<noteq> 0"
  shows "claim_inv (gs @ claim_of op (snd (sp_step now op a))) (fst (sp_step now op a))"
proof -
  let ?a = "fst (sp_step now op a)" and ?new = "claim_of op (snd (sp_step now op a))"
  have si: "spec_inv a" and ids: "ids_ok a" and d: "distinct gs" and le: "\<forall>g \<in> set gs. g \<le> sp_next a"
    and cl: "\<And>i p. sp_panes a i = Some p \<Longrightarrow> p_Generation p \<in> set gs \<Longrightarrow> p_closeNotificationClaimed p"
    using inv spec_inv_ids by (auto simp: claim_inv_def)
  have old: "p_Generation p \<le> sp_next a" if "sp_panes a i = Some p" for i p
    using si that by (auto simp: spec_inv_def)
  have new: "?new = [] \<or> (\<exists>g i p. ?new = [g] \<and> g \<notin> set gs \<and> g \<le> sp_next a \<and> sp_panes a i = Some p \<and>
      p_Generation p = g \<and> (\<forall>q. sp_panes ?a i = Some q \<longrightarrow> p_closeNotificationClaimed q))"
  proof (cases "?new = []")
    case False
    then obtain g where "g \<in> set ?new" by (metis list.set_intros(1) neq_Nil_conv)
    from claim_of_new [OF ids this] show ?thesis using cl old by metis
  qed simp
  have claimed: "p_closeNotificationClaimed q"
    if q: "sp_panes ?a j = Some q" and g: "p_Generation q \<in> set (gs @ ?new)" for j q
    using sp_step_pane [OF ids q]
  proof
    assume "\<exists>p. sp_panes a j = Some p \<and> evolves op p q"
    then obtain p where p: "sp_panes a j = Some p" "evolves op p q" by blast
    then have gen: "p_Generation q = p_Generation p" by (simp add: evolves_def)
    show ?thesis
    proof (cases "p_Generation p \<in> set gs")
      case True
      then show ?thesis using cl p by (auto simp: evolves_def)
    next
      case False
      with g gen new obtain i p' where i: "sp_panes a i = Some p'" "p_Generation p' = p_Generation p"
        "\<forall>q. sp_panes ?a i = Some q \<longrightarrow> p_closeNotificationClaimed q" by auto
      then have "i = j" using si p(1) by (auto simp: spec_inv_def)
      then show ?thesis using i q by simp
    qed
  next
    assume "sp_panes a j = None \<and> p_Generation q = sp_next a + 1 \<and> sp_next ?a = sp_next a + 1 \<and>
      p_ID q = j \<and> j \<noteq> [] \<and> snd (sp_step now op a) = RPane q \<and> (\<exists>req. op = OpRegister req)"
    then have "sp_next a + 1 \<in> set gs \<or> sp_next a + 1 \<in> set ?new" using g by simp
    then have "sp_next a + 1 \<le> sp_next a" using le new by auto
    then show ?thesis using uint64_le_Suc(2) [OF _ room] by blast
  qed
  have "distinct (gs @ ?new)" using d new by auto
  moreover have "\<forall>g \<in> set (gs @ ?new). g \<le> sp_next ?a"
    using le new sp_next_mono [OF room] by auto
  ultimately show ?thesis using claimed spec_inv_step [OF si room] by (simp add: claim_inv_def)
qed

text \<open>Room for \<open>n\<close> more generations before the counter wraps around.\<close>

definition room :: "nat \<Rightarrow> uint64 \<Rightarrow> bool" where
  "room n g \<longleftrightarrow> unat g + n < 2 ^ 64"

lemma room_step:
  assumes "room (Suc n) (sp_next a)"
  shows "sp_next a + 1 \<noteq> 0" "room n (sp_next (fst (sp_step now op a)))"
proof -
  have ne: "sp_next a \<noteq> - 1"
  proof
    assume "sp_next a = - 1"
    moreover have "unat (- 1 :: uint64) = 2 ^ 64 - 1"
      by (simp add: unsigned_minus_1_eq_mask mask_eq_exp_minus_1)
    ultimately show False using assms by (simp add: room_def)
  qed
  then show "sp_next a + 1 \<noteq> 0" by (auto simp: add_eq_0_iff2)
  show "room n (sp_next (fst (sp_step now op a)))"
    using sp_step_next_cases [of now op a] uint64_Suc [OF ne] assms by (auto simp: room_def)
qed

text \<open>An invariant of single calls that needs room holds along every run that has it.\<close>

lemma sp_run_invariant:
  assumes step: "\<And>a now op. I a \<Longrightarrow> sp_next a + 1 \<noteq> 0 \<Longrightarrow> op \<in> snd ` set ops \<Longrightarrow> I (fst (sp_step now op a))"
    and init: "I a" and rm: "room (length ops) (sp_next a)"
  shows "I (fst (run_ops sp_step ops a))"
  using assms
proof (induction ops arbitrary: a)
  case (Cons x ops)
  obtain now op where x: "x = (now, op)" by (cases x)
  have rm: "room (Suc (length ops)) (sp_next a)" using Cons.prems(3) by simp
  have "I (fst (sp_step now op a))"
    using Cons.prems(1) [OF Cons.prems(2) room_step(1) [OF rm]] x by simp
  then show ?case using Cons.IH [OF _ _ room_step(2) [OF rm]] Cons.prems(1) x
    by (simp del: run_ops.simps)
qed simp

lemma claim_inv_run:
  "claim_inv gs a \<Longrightarrow> room (length ops) (sp_next a) \<Longrightarrow>
   claim_inv (gs @ claims ops (snd (run_ops sp_step ops a))) (fst (run_ops sp_step ops a))"
proof (induction ops arbitrary: gs a)
  case (Cons x ops)
  obtain now op where x: "x = (now, op)" by (cases x)
  have rm: "room (Suc (length ops)) (sp_next a)" using Cons.prems(2) by simp
  from Cons.IH [OF claim_inv_step [OF Cons.prems(1) room_step(1) [OF rm]] room_step(2) [OF rm]]
  show ?case by (simp add: x claims_def del: run_ops.simps)
qed (simp add: claims_def)

lemma registered_run:
  "room (length ops) (sp_next a) \<Longrightarrow>
   sorted_wrt (<) (registered ops (snd (run_ops sp_step ops a))) \<and>
   (\<forall>g \<in> set (registered ops (snd (run_ops sp_step ops a))). sp_next a < g)"
proof (induction ops arbitrary: a)
  case (Cons x ops)
  obtain now op where x: "x = (now, op)" by (cases x)
  let ?a = "fst (sp_step now op a)"
  have rm: "room (Suc (length ops)) (sp_next a)" using Cons.prems by simp
  note IH = Cons.IH [OF room_step(2) [OF rm, of now op]]
  have lt: "sp_next a < sp_next a + 1" and le: "sp_next a \<le> sp_next ?a"
    using uint64_le_Suc [OF order_refl room_step(1) [OF rm]] sp_next_mono [OF room_step(1) [OF rm] order_refl]
    by auto
  have reg: "registered_of op (snd (sp_step now op a)) = [] \<or>
      registered_of op (snd (sp_step now op a)) = [sp_next a + 1] \<and> sp_next ?a = sp_next a + 1"
    by (cases op) (auto simp: sp_register_def Let_def split: option.splits)
  have "registered (x # ops) (snd (run_ops sp_step (x # ops) a)) =
      registered_of op (snd (sp_step now op a)) @ registered ops (snd (run_ops sp_step ops ?a))"
    by (simp add: x registered_def del: run_ops.simps)
  then show ?case using IH reg lt le by (auto simp: sorted_wrt_append intro: le_less_trans less_trans)
qed (simp add: registered_def)

text \<open>The interface the daemon's components use: any store whose calls implement the table.\<close>

locale pane_store = implementation step sp_step view ok
  for step :: "time \<Rightarrow> reg_op \<Rightarrow> 'r \<Rightarrow> 'r \<times> reg_out"
    and view :: "'r \<Rightarrow> pane_spec"
    and ok :: "'r \<Rightarrow> bool"
begin

lemma claims_distinct:
  assumes "ok r" "spec_inv (view r)" "room (length ops) (sp_next (view r))"
  shows "distinct (claims ops (snd (run_ops step ops r)))"
proof -
  have "claim_inv [] (view r)" using assms by (simp add: claim_inv_def)
  from claim_inv_run [OF this assms(3)] run_view [OF assms(1), of ops] show ?thesis
    by (auto simp: claim_inv_def)
qed

lemma run_invariant:
  assumes "ok r" "I (view r)" "room (length ops) (sp_next (view r))"
    and "\<And>a now op. I a \<Longrightarrow> sp_next a + 1 \<noteq> 0 \<Longrightarrow> op \<in> snd ` set ops \<Longrightarrow> I (fst (sp_step now op a))"
  shows "I (view (fst (run_ops step ops r)))"
  using sp_run_invariant [of I ops "view r", OF assms(4,2,3)] run_view [OF assms(1), of ops] by simp

lemma registered_increasing:
  assumes "ok r" "room (length ops) (sp_next (view r))"
  shows "sorted_wrt (<) (registered ops (snd (run_ops step ops r)))"
  using registered_run [OF assms(2)] run_view [OF assms(1), of ops] by simp

end

interpretation reg: pane_store reg_step reg_abs registry_inv
  using reg_step_refines by unfold_locales (auto simp: step_refines_def)

section \<open>Correctness of the registry\<close>

text \<open>
  C4. Through every sequence of calls the registry behaves as the table of panes: its view is
  the table's state, it returns the table's results, errors included, and its hierarchy and
  location index stay consistent.
\<close>

theorem registry_refines_table:
  "let r = fst (run_ops reg_step ops (NewRegistry\<lparr>r_persist := w\<rparr>));
       outs = snd (run_ops reg_step ops (NewRegistry\<lparr>r_persist := w\<rparr>))
   in registry_inv r \<and>
      reg_abs r = fst (run_ops sp_step ops (reg_abs NewRegistry)) \<and>
      outs = snd (run_ops sp_step ops (reg_abs NewRegistry))"
proof -
  let ?r = "NewRegistry\<lparr>r_persist := w\<rparr>"
  have "registry_inv ?r" "reg_abs ?r = reg_abs NewRegistry"
    by (simp_all add: registry_inv_def struct_ok_def index_ok_def NewRegistry_def paneAt_def reg_abs_def
        lookupPane_def fun_eq_iff)
  with reg.run_view [of ?r ops] show ?thesis by simp
qed

definition registry_ok :: "Registry \<Rightarrow> bool" where
  "registry_ok r \<longleftrightarrow> registry_inv r \<and> spec_inv (reg_abs r)"

lemma registry_ok_New: "registry_ok (NewRegistry\<lparr>r_persist := w\<rparr>)"
  by (simp add: registry_ok_def registry_inv_def struct_ok_def index_ok_def NewRegistry_def paneAt_def
      reg_abs_def lookupPane_def spec_inv_def)

lemma registry_ok_run:
  assumes "registry_ok r" "room (length ops) (r_nextGeneration r)"
  shows "registry_ok (fst (run_ops reg_step ops r))"
  using assms reg.run_view [of r ops] reg.run_invariant [of r spec_inv ops] spec_inv_step
  by (simp add: registry_ok_def)

lemma registry_ok_run_New: "room (length ops) 0 \<Longrightarrow> registry_ok (fst (run_ops reg_step ops NewRegistry))"
  using registry_ok_run [of NewRegistry ops] registry_ok_New [of None] by (simp add: NewRegistry_def)

definition demo_request :: "string \<Rightarrow> string \<Rightarrow> RegisterPaneRequest" where
  "demo_request i z = \<lparr>rq_ParentPaneID = [], rq_ID = i, rq_OwnershipToken = [], rq_SessionID = [],
     rq_TabID = [], rq_TaskID = [], rq_AgentID = [], rq_ZellijPaneID = z, rq_ZellijTabID = None,
     rq_TabName = [], rq_Role = [], rq_Command = [], rq_CWD = [], rq_Status = None\<rparr>"

lemmas demo_eval = demo_request_def NewRegistry_def RegisterPane_def ValidateRegisterPane_def
  applyRegisterPaneDefaults_def validatePaneUniqueLocked_def validateActiveZellijPaneUniqueLocked_def
  newPaneRecord_def writeBack_def saveLocked_def stampTab_def stampSession_def ret_pane_def ret_flag_def
  modify_defs resolveGeneration_def resolvePanePathLocked_def getPaneLocationLocked_def
  getSessionLocked_def removePaneLocked_def Let_def

text \<open>
  However status updates, closes and removals interleave, the close notification of a pane
  generation is claimed at most once, so its observers hear of the closing once.
\<close>

theorem close_notification_once:
  assumes "registry_ok r" "room (length ops) (r_nextGeneration r)"
  shows "distinct (claims ops (snd (run_ops reg_step ops r)))"
  using assms reg.claims_distinct [of r ops] by (simp add: registry_ok_def)

theorem close_notification_once_witness:
  "let ops = [(1, OpRegister (demo_request ''a'' ''t1'')), (2, OpClaimClosure ''a'' 1 PaneStatusClosed []),
              (3, OpClaimClosure ''a'' 1 PaneStatusLost []), (4, OpRemoveClaiming ''a'' 1)]
   in claims ops (snd (run_ops reg_step ops NewRegistry)) = [1] \<and>
      distinct (claims ops (snd (run_ops reg_step ops NewRegistry)))"
  using close_notification_once [of NewRegistry "[(1, OpRegister (demo_request ''a'' ''t1'')),
      (2, OpClaimClosure ''a'' 1 PaneStatusClosed []), (3, OpClaimClosure ''a'' 1 PaneStatusLost []),
      (4, OpRemoveClaiming ''a'' 1)]"] registry_ok_New [of None]
  by (simp add: demo_eval claims_def room_def)

text \<open>
  C36. Generations are never reused: a run hands out strictly increasing generations.
\<close>

theorem generations_increase:
  assumes "registry_inv r" "room (length ops) (r_nextGeneration r)"
  shows "sorted_wrt (<) (registered ops (snd (run_ops reg_step ops r)))"
  using assms reg.registered_increasing [of r ops] by simp

theorem generations_increase_witness:
  "let ops = [(1, OpRegister (demo_request ''a'' ''t1'')), (2, OpRemove ''a'' 0),
              (3, OpRegister (demo_request ''a'' ''t1''))]
   in registered ops (snd (run_ops reg_step ops NewRegistry)) = [1, 2] \<and>
      sorted_wrt (<) (registered ops (snd (run_ops reg_step ops NewRegistry)))"
  using generations_increase [of NewRegistry "[(1, OpRegister (demo_request ''a'' ''t1'')),
      (2, OpRemove ''a'' 0), (3, OpRegister (demo_request ''a'' ''t1''))]"] registry_inv_New
  by (simp add: demo_eval registered_def room_def)

text \<open>A pane generation that is gone stays gone.\<close>

definition gone :: "PaneID \<Rightarrow> uint64 \<Rightarrow> pane_spec \<Rightarrow> bool" where
  "gone i g a \<longleftrightarrow> spec_inv a \<and> g \<le> sp_next a \<and> (\<forall>p. sp_panes a i = Some p \<longrightarrow> p_Generation p \<noteq> g)"

lemma gone_step:
  assumes "gone i g a" "sp_next a + 1 \<noteq> 0"
  shows "gone i g (fst (sp_step now op a))"
proof -
  have inv: "spec_inv a" and le: "g \<le> sp_next a" using assms by (simp_all add: gone_def)
  have "p_Generation q \<noteq> g" if q: "sp_panes (fst (sp_step now op a)) i = Some q" for q
    using sp_step_pane [OF spec_inv_ids [OF inv] q] assms(1) uint64_le_Suc(2) [OF le assms(2)]
    by (auto simp: gone_def evolves_def)
  then show ?thesis
    using spec_inv_step [OF inv assms(2)] sp_next_mono [OF assms(2) le] by (simp add: gone_def)
qed

lemma gone_handle:
  assumes "gone i g a" "handle_op i g op" "g \<noteq> 0"
  shows "sp_step now op a = (a, RErr (if sp_panes a i = None then ErrNotFound else ErrStaleRecord))"
  using assms by (cases op) (auto simp: gone_def sp_at_def gen_ok_def split: option.splits)

lemma resolve_error_unchanged:
  assumes "registry_inv r" "sp_step now op (reg_abs r) = (reg_abs r, RErr e)"
  shows "snd (reg_step now op r) = RErr e \<and> reg_abs (fst (reg_step now op r)) = reg_abs r"
  using reg.view_step [OF assms(1), of now op] assms(2) by simp

lemma reg_step_error_unchanged: "snd (reg_step now op r) = RErr e \<Longrightarrow> fst (reg_step now op r) = r"
  by (cases op) (auto simp: ret_pane_def ret_flag_def split: sum.splits)

text \<open>
  A handle to a pane that was removed is dead: after any further calls, re-registrations
  under the same identifier included, a call with the removed pane's generation fails and
  leaves the registry exactly as it was.
\<close>

theorem stale_handle_refused:
  assumes ok: "registry_ok r" and rm: "room (length ops) (r_nextGeneration r)"
    and g: "g \<noteq> 0" "g \<le> r_nextGeneration r" and removed: "lookupPane r i = None"
    and op: "handle_op i g op"
  shows "let r' = fst (run_ops reg_step ops r) in
    reg_step now op r' = (r', RErr (if lookupPane r' i = None then ErrNotFound else ErrStaleRecord))"
proof -
  let ?r = "fst (run_ops reg_step ops r)"
  have inv: "registry_inv r" and si: "spec_inv (reg_abs r)" using ok by (simp_all add: registry_ok_def)
  have "gone i g (reg_abs r)" using si g removed by (simp add: gone_def)
  then have "gone i g (reg_abs ?r)"
    using reg.run_invariant [of r "gone i g" ops] inv rm gone_step by simp
  from gone_handle [OF this op g(1)] reg.run_view [OF inv, of ops] resolve_error_unchanged
  have out: "snd (reg_step now op ?r) = RErr (if lookupPane ?r i = None then ErrNotFound else ErrStaleRecord)"
    by simp
  show ?thesis using out reg_step_error_unchanged [OF out] by (simp add: Let_def prod_eq_iff)
qed

theorem stale_handle_refused_witness:
  "let r0 = fst (run_ops reg_step [(1, OpRegister (demo_request ''a'' ''t1'')), (2, OpRemove ''a'' 0)] NewRegistry);
       r' = fst (run_ops reg_step [(3, OpRegister (demo_request ''a'' ''t1''))] r0)
   in reg_step 4 (OpStatus ''a'' 1 PaneStatusLost []) r' = (r', RErr ErrStaleRecord)"
proof -
  let ?ops = "[(1, OpRegister (demo_request ''a'' ''t1'')), (2, OpRemove ''a'' 0)]"
  have "registry_ok (fst (run_ops reg_step ?ops NewRegistry))"
    by (rule registry_ok_run_New) (simp add: room_def)
  from stale_handle_refused [OF this, of "[(3, OpRegister (demo_request ''a'' ''t1''))]" 1 "''a''"
      "OpStatus ''a'' 1 PaneStatusLost []" 4]
  show ?thesis by (simp add: demo_eval lookupPane_def paneAt_def room_def)
qed

definition diagnosed :: "PaneRecord \<Rightarrow> pane_spec \<Rightarrow> bool" where
  "diagnosed p a \<longleftrightarrow> spec_inv a \<and> p_Generation p \<le> sp_next a \<and>
     (\<forall>q. sp_panes a (p_ID p) = Some q \<longrightarrow> p_Generation q = p_Generation p \<longrightarrow>
        p_Status q = p_Status p \<and> p_StatusMessage q = p_StatusMessage p)"

lemma diagnosed_step:
  assumes "diagnosed p a" "isTerminalPaneStatus (p_Status p)" "sp_next a + 1 \<noteq> 0" "\<not> pure_status_op op"
  shows "diagnosed p (fst (sp_step now op a))"
proof -
  have inv: "spec_inv a" and le: "p_Generation p \<le> sp_next a" using assms(1) by (simp_all add: diagnosed_def)
  have "p_Status q = p_Status p \<and> p_StatusMessage q = p_StatusMessage p"
    if q: "sp_panes (fst (sp_step now op a)) (p_ID p) = Some q" "p_Generation q = p_Generation p" for q
    using sp_step_pane [OF spec_inv_ids [OF inv] q(1)] assms q(2) uint64_le_Suc(2) [OF le assms(3)]
    by (auto simp: diagnosed_def evolves_def)
  then show ?thesis
    using spec_inv_step [OF inv assms(3)] sp_next_mono [OF assms(3) le] by (simp add: diagnosed_def)
qed

text \<open>
  The first terminal diagnosis of a pane generation is kept: no call other than the
  unconditional status update changes the status or the message of a terminal pane.
\<close>

theorem terminal_diagnosis_kept:
  assumes ok: "registry_ok r" and rm: "room (length ops) (r_nextGeneration r)"
    and p: "lookupPane r i = Some p" "isTerminalPaneStatus (p_Status p)"
    and ops: "\<forall>(now, op) \<in> set ops. \<not> pure_status_op op"
    and q: "lookupPane (fst (run_ops reg_step ops r)) i = Some q" "p_Generation q = p_Generation p"
  shows "p_Status q = p_Status p \<and> p_StatusMessage q = p_StatusMessage p"
proof -
  have inv: "registry_inv r" and si: "spec_inv (reg_abs r)" using ok by (simp_all add: registry_ok_def)
  have "diagnosed p (reg_abs r)" "p_ID p = i" using si p by (auto simp: diagnosed_def spec_inv_def)
  then have "diagnosed p (reg_abs (fst (run_ops reg_step ops r)))"
    using reg.run_invariant [of r "diagnosed p" ops] inv rm ops p(2) diagnosed_step by fastforce
  then show ?thesis using q \<open>p_ID p = i\<close> by (simp add: diagnosed_def)
qed

theorem terminal_diagnosis_kept_witness:
  "let r = fst (run_ops reg_step [(1, OpRegister (demo_request ''a'' ''t1'')),
             (2, OpActiveStatus ''a'' 1 PaneStatusExited ''exit 1'')] NewRegistry);
       ops = [(3, OpClaimClosure ''a'' 1 PaneStatusLost ''gone''), (4, OpActiveStatus ''a'' 1 PaneStatusRunning [])]
   in map_option p_StatusMessage (lookupPane (fst (run_ops reg_step ops r)) ''a'') = Some ''exit 1''"
proof -
  let ?ops = "[(1, OpRegister (demo_request ''a'' ''t1'')), (2, OpActiveStatus ''a'' 1 PaneStatusExited ''exit 1'')]"
  have "registry_ok (fst (run_ops reg_step ?ops NewRegistry))"
    by (rule registry_ok_run_New) (simp add: room_def)
  from terminal_diagnosis_kept [OF this, of "[(3, OpClaimClosure ''a'' 1 PaneStatusLost ''gone''),
      (4, OpActiveStatus ''a'' 1 PaneStatusRunning [])]" "''a''"
      "the (lookupPane (fst (run_ops reg_step ?ops NewRegistry)) ''a'')"
      "the (lookupPane (fst (run_ops reg_step [(3, OpClaimClosure ''a'' 1 PaneStatusLost ''gone''),
      (4, OpActiveStatus ''a'' 1 PaneStatusRunning [])] (fst (run_ops reg_step ?ops NewRegistry)))) ''a'')"]
  show ?thesis by (simp add: demo_eval lookupPane_def paneAt_def room_def pure_status_op_def)
qed

section \<open>Active holders of a backend pane\<close>

lemma active_unique_put:
  assumes u: "active_unique a" and p: "sp_panes a (p_ID q) = Some p" and e: "evolves op p q"
    and t: "isTerminalPaneStatus (p_Status p) \<longrightarrow> isTerminalPaneStatus (p_Status q)"
  shows "active_unique (sp_put q a)"
proof -
  have "active_holder a sid z i" if "active_holder (sp_put q a) sid z i" for sid z i
    using that p e t by (auto simp: active_holder_def sp_put_def evolves_def split: if_splits)
  then show ?thesis using u by (meson active_unique_def)
qed

lemma active_unique_del:
  assumes "active_unique a"
  shows "active_unique (sp_del p a)"
proof -
  have "active_holder a sid z i" if "active_holder (sp_del p a) sid z i" for sid z i
    using that by (auto simp: active_holder_def sp_del_def split: if_splits)
  then show ?thesis using assms by (meson active_unique_def)
qed

lemma active_unique_step:
  assumes ids: "ids_ok a" and u: "active_unique a" and op: "\<not> pure_status_op op"
  shows "active_unique (fst (sp_step now op a))"
proof (cases op)
  case (OpRegister req)
  let ?req = "applyRegisterPaneDefaults req" and ?a = "fst (sp_step now op a)"
  have "active_holder a sid z i \<or> (i = rq_ID req \<and> sid = rq_SessionID ?req \<and> z = rq_ZellijPaneID ?req \<and>
      (\<forall>j. \<not> active_holder a sid z j))" if "active_holder ?a sid z i" for sid z i
    using that OpRegister
    by (auto simp: sp_register_def Let_def active_holder_def split: option.splits if_splits)
  then show ?thesis using u unfolding active_unique_def by metis
next
  case (OpStatus i g st m)
  then show ?thesis using op by (simp add: pure_status_op_def)
next
  case (OpActiveStatus i g st m)
  then show ?thesis using u ids active_unique_put [OF u, of _ _ op]
    by (auto simp: sp_at_def evolves_def setStatus_def ids_ok_def split: option.splits)
next
  case (OpClaimClosure i g st m)
  then show ?thesis using u ids active_unique_put [OF u, of _ _ op]
    by (auto simp: sp_at_def evolves_def setStatus_def ids_ok_def Let_def split: option.splits)
next
  case (OpInstruction i g x)
  then show ?thesis using u ids active_unique_put [OF u, of _ _ op]
    by (auto simp: sp_at_def evolves_def ids_ok_def Let_def split: option.splits)
next
  case (OpOutput i g x)
  then show ?thesis using u ids active_unique_put [OF u, of _ _ op]
    by (auto simp: sp_at_def evolves_def setOutput_def ids_ok_def split: option.splits)
next
  case (OpActiveOutput i g x)
  then show ?thesis using u ids active_unique_put [OF u, of _ _ op]
    by (auto simp: sp_at_def evolves_def setOutput_def ids_ok_def split: option.splits)
next
  case (OpRemove i g)
  then show ?thesis using u active_unique_del [OF u] by (simp add: sp_at_def split: option.splits)
next
  case (OpRemoveClaiming i g)
  then show ?thesis using u active_unique_del [OF u] by (simp add: sp_at_def split: option.splits)
qed

text \<open>
  Within a session at most one active pane holds a backend pane identifier, and every call
  other than the unconditional status update keeps it so.
\<close>

theorem active_backend_pane_unique:
  assumes ok: "registry_ok r" and rm: "room (length ops) (r_nextGeneration r)"
    and u: "active_unique (reg_abs r)" and ops: "\<forall>(now, op) \<in> set ops. \<not> pure_status_op op"
  shows "active_unique (reg_abs (fst (run_ops reg_step ops r)))"
proof -
  have inv: "registry_inv r" and si: "spec_inv (reg_abs r)" using ok by (simp_all add: registry_ok_def)
  let ?I = "\<lambda>a. spec_inv a \<and> active_unique a"
  have "?I (fst (sp_step now op a))" if "?I a" "sp_next a + 1 \<noteq> 0" "op \<in> snd ` set ops" for a now op
    using that spec_inv_step [of a] active_unique_step [OF spec_inv_ids] ops by fastforce
  then show ?thesis using reg.run_invariant [of r ?I ops] inv si u rm by simp
qed

theorem active_backend_pane_unique_witness:
  "active_unique (reg_abs (fst (run_ops reg_step [(1, OpRegister (demo_request ''a'' ''t1'')),
     (2, OpActiveStatus ''a'' 1 PaneStatusExited []), (3, OpRegister (demo_request ''b'' ''t1'')),
     (4, OpRegister (demo_request ''c'' ''t1''))] NewRegistry)))"
  by (rule active_backend_pane_unique)
    (use registry_ok_New [of None] in \<open>simp_all add: room_def pure_status_op_def active_unique_def
        active_holder_def lookupPane_def NewRegistry_def\<close>)

section \<open>Listing\<close>

lemma paneAt_Some:
  "paneAt r sid tid i = Some p \<longleftrightarrow> (\<exists>s. mget (r_sessions r) sid = Some s \<and> session_at s tid i = Some p)"
  by (simp add: paneAt_session_at split: option.splits)

lemma set_session_panes:
  "session_ok sid s \<Longrightarrow> set (session_panes s) = {p. \<exists>tid i. session_at s tid i = Some p}"
  by (force simp: session_panes_def tab_panes_def session_at_iff)

lemma set_all_panes:
  assumes "registry_inv r"
  shows "set (all_panes r) = ran (lookupPane r)"
proof -
  have st: "struct_ok r" and ix: "index_ok r" using assms by (simp_all add: registry_inv_def)
  have "set (all_panes r) = {p. \<exists>sid s. mget (r_sessions r) sid = Some s \<and> p \<in> set (session_panes s)}"
    using st by (force simp: all_panes_def struct_ok_def mapok_mget_iff)
  also have "\<dots> = {p. \<exists>sid tid i. paneAt r sid tid i = Some p}"
    unfolding paneAt_Some using st set_session_panes by (auto simp: struct_ok_def) blast+
  also have "\<dots> = ran (lookupPane r)" using lookupPane_paneAt [OF ix] by (auto simp: ran_def)
  finally show ?thesis .
qed

text \<open>A concatenation over a map has distinct keys when every part has and the parts share none.\<close>

lemma distinct_map_concat:
  assumes "mapok m" "\<And>k v. (k, v) \<in> set m \<Longrightarrow> distinct (map f (g v))"
    and "\<And>k v k' v' x y. (k, v) \<in> set m \<Longrightarrow> (k', v') \<in> set m \<Longrightarrow> x \<in> set (g v) \<Longrightarrow> y \<in> set (g v') \<Longrightarrow>
      f x = f y \<Longrightarrow> k = k'"
  shows "distinct (map f (concat (map (g \<circ> snd) m)))"
  using assms
proof (induction m)
  case (Cons kv m)
  obtain k v where kv: "kv = (k, v)" by (cases kv)
  have IH: "distinct (map f (concat (map (g \<circ> snd) m)))"
    by (rule Cons.IH) (use Cons.prems in \<open>auto\<close>, blast)
  have "f x \<noteq> f y" if x: "x \<in> set (g v)" and y: "y \<in> set (g v')" "(k', v') \<in> set m" for x y k' v'
  proof
    assume "f x = f y"
    then have "k = k'" using Cons.prems(3) [of k v k' v' x y] x y kv by auto
    then show False using Cons.prems(1) y(2) kv by force
  qed
  then have "f ` set (g v) \<inter> f ` set (concat (map (g \<circ> snd) m)) = {}" by fastforce
  then show ?case using IH Cons.prems(2) [of k v] kv by (simp add: comp_def)
qed simp

lemma distinct_session_panes:
  assumes ix: "index_ok r" and st: "struct_ok r" and s: "mget (r_sessions r) sid = Some s"
  shows "distinct (map p_ID (session_panes s))"
  unfolding session_panes_def
proof (rule distinct_map_concat)
  have ok: "session_ok sid s" using st s by (simp add: struct_ok_def)
  then show "mapok (s_Tabs s)" by (simp add: session_ok_def)
  have key: "p_ID p = i \<and> p_TabID p = tid" if "(tid, t) \<in> set (s_Tabs s)" "(i, p) \<in> set (t_Panes t)" for tid t i p
  proof -
    have "paneAt r sid tid i = Some p" using that s session_at_iff [OF ok] by (auto simp: paneAt_session_at)
    then show ?thesis using ix by (auto simp: index_ok_def)
  qed
  show "distinct (map p_ID (tab_panes t))" if t: "(tid, t) \<in> set (s_Tabs s)" for tid t
  proof -
    have "map p_ID (tab_panes t) = map fst (t_Panes t)" using key [OF t] by (auto simp: tab_panes_def)
    moreover have "mget (s_Tabs s) tid = Some t"
      using ok t mapok_mget_iff [of "s_Tabs s"] by (simp add: session_ok_def)
    then have "mapok (t_Panes t)" using ok by (auto simp: session_ok_def tab_ok_def)
    ultimately show ?thesis by simp
  qed
  show "tid = tid'" if a: "(tid, t) \<in> set (s_Tabs s)" "(tid', t') \<in> set (s_Tabs s)" "x \<in> set (tab_panes t)"
    "y \<in> set (tab_panes t')" "p_ID x = p_ID y" for tid t tid' t' x y
  proof -
    obtain i j where ij: "(i, x) \<in> set (t_Panes t)" "(j, y) \<in> set (t_Panes t')"
      using a by (auto simp: tab_panes_def)
    have "paneAt r sid tid i = Some x" "paneAt r sid tid' j = Some y"
      using ij a s session_at_iff [OF ok] by (auto simp: paneAt_session_at)
    then show ?thesis using ix a(5) unfolding index_ok_def by (metis option.inject paneLocation.ext_inject)
  qed
qed

lemma distinct_all_panes:
  assumes "registry_inv r"
  shows "distinct (map p_ID (all_panes r))"
  unfolding all_panes_def
proof (rule distinct_map_concat)
  have ix: "index_ok r" and st: "struct_ok r" using assms by (simp_all add: registry_inv_def)
  then show m: "mapok (r_sessions r)" by (simp add: struct_ok_def)
  show "distinct (map p_ID (session_panes s))" if "(sid, s) \<in> set (r_sessions r)" for sid s
    using distinct_session_panes [OF ix st] that m by (simp add: mapok_mget_iff)
  have at: "\<exists>tid i. paneAt r sid tid i = Some p" if "(sid, s) \<in> set (r_sessions r)" "p \<in> set (session_panes s)" for sid s p
  proof -
    have "mget (r_sessions r) sid = Some s" "session_ok sid s"
      using that m st by (auto simp: mapok_mget_iff struct_ok_def)
    then show ?thesis using that(2) by (auto simp: set_session_panes paneAt_session_at)
  qed
  show "sid = sid'" if a: "(sid, s) \<in> set (r_sessions r)" "(sid', s') \<in> set (r_sessions r)"
    "x \<in> set (session_panes s)" "y \<in> set (session_panes s')" "p_ID x = p_ID y" for sid s sid' s' x y
  proof -
    obtain tid i tid' i' where "paneAt r sid tid i = Some x" "paneAt r sid' tid' i' = Some y"
      using at [OF a(1,3)] at [OF a(2,4)] by blast
    then show ?thesis using ix a(5) unfolding index_ok_def by (metis option.inject paneLocation.ext_inject)
  qed
qed

text \<open>
  \<open>ListPanes\<close> returns exactly the registered panes, each once, in strictly increasing order
  of identifiers: the iteration order of the maps does not show.
\<close>

theorem ListPanes_correct:
  assumes "registry_inv r"
  shows "set (ListPanes r) = ran (lookupPane r) \<and> sorted_wrt (\<lambda>p q. p_ID p < p_ID q) (ListPanes r)"
proof -
  have "distinct (map p_ID (ListPanes r))" "sorted (map p_ID (ListPanes r))"
    using distinct_all_panes [OF assms] by (simp_all add: ListPanes_def distinct_map)
  then have "sorted_wrt (<) (map p_ID (ListPanes r))" by (simp add: strict_sorted_iff)
  then show ?thesis using set_all_panes [OF assms] by (simp add: ListPanes_def sorted_wrt_map)
qed

theorem ListPanes_correct_witness:
  "let r = fst (run_ops reg_step [(1, OpRegister (demo_request ''b'' [])), (2, OpRegister (demo_request ''a'' []))]
             NewRegistry)
   in sorted_wrt (\<lambda>p q. p_ID p < p_ID q) (ListPanes r) \<and> map p_ID (ListPanes r) = [''a'', ''b'']"
proof -
  let ?ops = "[(1, OpRegister (demo_request ''b'' [])), (2, OpRegister (demo_request ''a'' []))]"
  have "registry_inv (fst (run_ops reg_step ?ops NewRegistry))"
    using registry_ok_run_New [of ?ops] by (simp add: registry_ok_def room_def)
  from ListPanes_correct [OF this] show ?thesis
    by (simp add: demo_eval ListPanes_def all_panes_def session_panes_def tab_panes_def)
qed

lemma tabStorageID_inject: "tabStorageID s t = tabStorageID s' t' \<longleftrightarrow> s = s' \<and> t = t'"
proof
  assume eq: "tabStorageID s t = tabStorageID s' t'"
  let ?d = "\<lambda>n. nat_digits (length n)"
  have "takeWhile (\<lambda>c. c \<noteq> CHR '':'') (?d u @ '':'' @ v) = ?d u" for u v
    using nat_digits_no_colon [of "length u"] by (simp add: takeWhile_append)
  then have "?d s = ?d s'" using eq by (metis Itoa_def nat_int of_nat_less_0_iff tabStorageID_def append.assoc)
  then have l: "length s = length s'" by simp
  with eq have "s @ t = s' @ t'" by (simp add: tabStorageID_def)
  with l show "s = s' \<and> t = t'" by simp
qed simp

text \<open>
  The storage identifier of a tab determines its session and its tab, whatever bytes the
  two identifiers hold.
\<close>

theorem tabStorageID_injective: "tabStorageID s t = tabStorageID s' t' \<longleftrightarrow> s = s' \<and> t = t'"
  by (rule tabStorageID_inject)

end
