(* ===== verification/Registry_Restore.thy ===== *)
theory Registry_Restore
  imports Registry
begin

text \<open>
  Restoring the registry from storage, \<open>NewPersistent\<close> of
  \<^verbatim>\<open>src/internal/registry/persistence.go\<close>. The four loops over the loaded rows are the
  functions \<open>loadSessions\<close> to \<open>loadGeneration\<close>. A stored row's JSON is the value it encodes;
  a table holds values of its own type only, and a value of another type counts as a JSON error.

  The lemmas show that whatever rows the database holds, a restored registry is consistent,
  with unique active holders and a generation counter no pane exceeds; that a registry whose
  rows all reached the database is restored to the same table of panes; and that an
  unconditional status update can leave rows which a restart refuses.
\<close>

section \<open>Loading\<close>

fun loadSessions :: "stored Row list \<Rightarrow> Registry \<Rightarrow> reg_error + Registry" where
  "loadSessions [] r = Inr r"
| "loadSessions (row # rows) r =
     (case row_Data row of
        StoredSession s \<Rightarrow>
          if s_ID s = [] \<or> s_ID s \<noteq> row_ID row then Inl (ErrInvalidStored (row_ID row))
          else loadSessions rows (r\<lparr>r_sessions := mput (r_sessions r) (s_ID s) (s\<lparr>s_Tabs := []\<rparr>)\<rparr>)
      | _ \<Rightarrow> Inl (ErrInvalidStored (row_ID row)))"

definition putTab :: "SessionID \<Rightarrow> SessionRecord \<Rightarrow> TabID \<Rightarrow> TabRecord \<Rightarrow> Registry \<Rightarrow> Registry" where
  "putTab sid s tid t r =
     r\<lparr>r_sessions := mput (r_sessions r) sid (s\<lparr>s_Tabs := mput (s_Tabs s) tid t\<rparr>)\<rparr>"

fun loadTabs :: "stored Row list \<Rightarrow> Registry \<Rightarrow> reg_error + Registry" where
  "loadTabs [] r = Inr r"
| "loadTabs (row # rows) r =
     (case row_Data row of
        StoredTab t \<Rightarrow>
          (case mget (r_sessions r) (row_Parent row) of
             None \<Rightarrow> Inl (ErrInvalidStored (row_ID row))
           | Some s \<Rightarrow>
               if t_ID t = [] \<or> tabStorageID (s_ID s) (t_ID t) \<noteq> row_ID row
               then Inl (ErrInvalidStored (row_ID row))
               else loadTabs rows (putTab (row_Parent row) s (t_ID t) (t\<lparr>t_Panes := []\<rparr>) r))
      | _ \<Rightarrow> Inl (ErrInvalidStored (row_ID row)))"

definition restorePane :: "SessionRecord \<Rightarrow> TabRecord \<Rightarrow> PaneRecord \<Rightarrow> Registry \<Rightarrow> Registry" where
  "restorePane s t p r =
     (let p' = p\<lparr>p_LastOutput := []\<rparr>;
          r1 = putTab (p_SessionID p) s (p_TabID p) (t\<lparr>t_Panes := mput (t_Panes t) (p_ID p) p'\<rparr>) r
      in r1\<lparr>r_paneToLocation := mput (r_paneToLocation r1) (p_ID p)
              \<lparr>l_SessionID = p_SessionID p, l_TabID = p_TabID p\<rparr>,
            r_nextGeneration := (if r_nextGeneration r1 < p_Generation p then p_Generation p
                                 else r_nextGeneration r1)\<rparr>)"

definition loadPane :: "stored Row \<Rightarrow> Registry \<Rightarrow> reg_error + Registry" where
  "loadPane row r =
     (case row_Data row of
        StoredPane p \<Rightarrow>
          (case mget (r_sessions r) (p_SessionID p) of
             None \<Rightarrow> Inl (ErrInvalidStored (row_ID row))
           | Some s \<Rightarrow>
               (case mget (s_Tabs s) (p_TabID p) of
                  None \<Rightarrow> Inl (ErrInvalidStored (row_ID row))
                | Some t \<Rightarrow>
                    if p_ID p = [] \<or> p_ID p \<noteq> row_ID row \<or> p_Generation p = 0 \<or>
                       row_Parent row \<noteq> tabStorageID (p_SessionID p) (p_TabID p)
                    then Inl (ErrInvalidStored (row_ID row))
                    else (case validateActiveZellijPaneUniqueLocked r (p_SessionID p) (p_ZellijPaneID p) of
                        Some e \<Rightarrow> if isTerminalPaneStatus (p_Status p) then Inr (restorePane s t p r) else Inl e
                      | None \<Rightarrow> Inr (restorePane s t p r))))
      | _ \<Rightarrow> Inl (ErrInvalidStored (row_ID row)))"

fun loadPanes :: "stored Row list \<Rightarrow> Registry \<Rightarrow> reg_error + Registry" where
  "loadPanes [] r = Inr r"
| "loadPanes (row # rows) r = (case loadPane row r of Inl e \<Rightarrow> Inl e | Inr r' \<Rightarrow> loadPanes rows r')"

definition indexPane :: "PaneRecord \<Rightarrow> Registry \<Rightarrow> Registry" where
  "indexPane p r =
     (if p_ZellijPaneID p = [] then r
      else case GetLatestByZellijPaneID (p_ZellijPaneID p) r of
        Inr previous \<Rightarrow> if p_Generation previous < p_Generation p
          then r\<lparr>r_latestByZellij := mput (r_latestByZellij r) (p_ZellijPaneID p) (p_ID p)\<rparr> else r
      | Inl _ \<Rightarrow> r\<lparr>r_latestByZellij := mput (r_latestByZellij r) (p_ZellijPaneID p) (p_ID p)\<rparr>)"

fun loadGeneration :: "stored Row list \<Rightarrow> Registry \<Rightarrow> reg_error + Registry" where
  "loadGeneration [] r = Inr r"
| "loadGeneration (row # rows) r =
     (if row_ID row = ''generation'' then
        (case row_Data row of
           StoredGeneration g \<Rightarrow>
             loadGeneration rows (if r_nextGeneration r < g then r\<lparr>r_nextGeneration := g\<rparr> else r)
         | _ \<Rightarrow> Inl (ErrInvalidStored (row_ID row)))
      else loadGeneration rows r)"

definition loadTable :: "stored db \<Rightarrow> Table \<Rightarrow> (stored Row list \<Rightarrow> Registry \<Rightarrow> reg_error + Registry) \<Rightarrow> Registry
    \<Rightarrow> reg_error + Registry" where
  "loadTable d t f r = (case Load d t of Inl e \<Rightarrow> Inl (ErrLoad e) | Inr rows \<Rightarrow> f rows r)"

definition bindR :: "'e + 'a \<Rightarrow> ('a \<Rightarrow> 'e + 'b) \<Rightarrow> 'e + 'b" where
  "bindR x f = (case x of Inl e \<Rightarrow> Inl e | Inr y \<Rightarrow> f y)"

definition NewPersistent :: "stored Writer \<Rightarrow> reg_error + Registry" where
  "NewPersistent w =
     bindR (loadTable (w_db w) Sessions loadSessions NewRegistry) (\<lambda>r1.
     bindR (loadTable (w_db w) Tabs loadTabs r1) (\<lambda>r2.
     bindR (loadTable (w_db w) Panes loadPanes r2) (\<lambda>r3.
     bindR (loadTable (w_db w) Metadata loadGeneration (fold indexPane (ListPanes r3) r3)) (\<lambda>r4.
     Inr (r4\<lparr>r_persist := Some w\<rparr>)))))"

section \<open>What one restored pane does\<close>

lemma putTab_fields [simp]:
  "r_paneToLocation (putTab sid s tid t r) = r_paneToLocation r"
  "r_latestByZellij (putTab sid s tid t r) = r_latestByZellij r"
  "r_nextGeneration (putTab sid s tid t r) = r_nextGeneration r"
  "r_persist (putTab sid s tid t r) = r_persist r"
  by (simp_all add: putTab_def)

lemma paneAt_putTab:
  assumes "mget (r_sessions r) sid = Some s"
  shows "paneAt (putTab sid s tid t r) sid' tid' i =
    (if sid' = sid \<and> tid' = tid then mget (t_Panes t) i else paneAt r sid' tid' i)"
  using assms by (auto simp: paneAt_def putTab_def)

lemma struct_ok_putTab:
  "struct_ok r \<Longrightarrow> mget (r_sessions r) sid = Some s \<Longrightarrow> tab_ok tid t \<Longrightarrow> struct_ok (putTab sid s tid t r)"
  by (auto simp: struct_ok_def putTab_def session_ok_def)

lemma restorePane_update:
  assumes inv: "registry_inv r" and s: "mget (r_sessions r) (p_SessionID p) = Some s"
    and t: "mget (s_Tabs s) (p_TabID p) = Some t" and new: "lookupPane r (p_ID p) = None"
  shows "registry_inv (restorePane s t p r) \<and>
    reg_abs (restorePane s t p r) = (reg_abs r)
      \<lparr>sp_panes := (lookupPane r)(p_ID p \<mapsto> p\<lparr>p_LastOutput := []\<rparr>),
       sp_next := max (r_nextGeneration r) (p_Generation p)\<rparr>"
proof -
  let ?r = "restorePane s t p r" and ?p = "p\<lparr>p_LastOutput := []\<rparr>"
  let ?loc = "\<lparr>l_SessionID = p_SessionID p, l_TabID = p_TabID p\<rparr>"
  have st: "struct_ok r" and ix: "index_ok r" using inv by (simp_all add: registry_inv_def)
  have free: "mget (r_paneToLocation r) (p_ID p) = None" using new registered_iff [OF inv] by simp
  have at: "paneAt ?r sid tid j = (if sid = p_SessionID p \<and> tid = p_TabID p \<and> j = p_ID p
      then Some ?p else paneAt r sid tid j)" for sid tid j
    using t by (auto simp: restorePane_def Let_def paneAt_putTab [OF s]) (auto simp: paneAt_def s)
  have ptl: "mget (r_paneToLocation ?r) = (mget (r_paneToLocation r))(p_ID p \<mapsto> ?loc)"
    by (auto simp: restorePane_def Let_def)
  have lk: "lookupPane ?r = (lookupPane r)(p_ID p \<mapsto> ?p)"
    by (auto simp: lookupPane_def ptl at fun_eq_iff split: option.splits)
  have none: "paneAt r sid tid (p_ID p) = None" for sid tid
    using ix free by (cases "paneAt r sid tid (p_ID p)") (auto simp: index_ok_def)
  have "index_ok ?r" unfolding index_ok_def at ptl lk using ix none by (auto simp: index_ok_def)
  moreover have "tab_ok (p_TabID p) (t\<lparr>t_Panes := mput (t_Panes t) (p_ID p) ?p\<rparr>)"
    using st s t by (auto simp: struct_ok_def session_ok_def tab_ok_def)
  then have "struct_ok ?r" using struct_ok_putTab [OF st s]
    unfolding struct_ok_def restorePane_def Let_def by auto
  moreover have "r_nextGeneration ?r = max (r_nextGeneration r) (p_Generation p)"
    "r_latestByZellij ?r = r_latestByZellij r" by (auto simp: restorePane_def Let_def max_def)
  ultimately show ?thesis using lk by (simp add: registry_inv_def reg_abs_def)
qed

section \<open>The phases of loading\<close>

text \<open>Sessions without tabs; then tabs without panes; then panes.\<close>

definition no_panes :: "Registry \<Rightarrow> bool" where
  "no_panes r \<longleftrightarrow> struct_ok r \<and> (\<forall>sid tid i. paneAt r sid tid i = None) \<and> r_paneToLocation r = [] \<and>
     r_latestByZellij r = [] \<and> r_nextGeneration r = 0"

definition no_tabs :: "Registry \<Rightarrow> bool" where
  "no_tabs r \<longleftrightarrow> no_panes r \<and> (\<forall>sid s. mget (r_sessions r) sid = Some s \<longrightarrow> s_Tabs s = [])"

lemma no_tabs_New: "no_tabs NewRegistry"
  by (simp add: no_tabs_def no_panes_def struct_ok_def paneAt_def NewRegistry_def)

lemma loadSessions_no_tabs: "no_tabs r \<Longrightarrow> loadSessions rows r = Inr r' \<Longrightarrow> no_tabs r'"
proof (induction rows r rule: loadSessions.induct)
  case (2 row rows r)
  from "2.prems"(2) obtain s where s: "row_Data row = StoredSession s" "\<not> (s_ID s = [] \<or> s_ID s \<noteq> row_ID row)"
    "loadSessions rows (r\<lparr>r_sessions := mput (r_sessions r) (s_ID s) (s\<lparr>s_Tabs := []\<rparr>)\<rparr>) = Inr r'"
    by (auto split: stored.splits if_splits)
  have "no_tabs (r\<lparr>r_sessions := mput (r_sessions r) (s_ID s) (s\<lparr>s_Tabs := []\<rparr>)\<rparr>)"
    using "2.prems"(1)
    by (auto simp: no_tabs_def no_panes_def struct_ok_def session_ok_def paneAt_def split: option.splits)
  from "2.IH" [OF s(1,2) this s(3)] show ?case .
qed simp

lemma loadTabs_no_panes: "no_panes r \<Longrightarrow> loadTabs rows r = Inr r' \<Longrightarrow> no_panes r'"
proof (induction rows r rule: loadTabs.induct)
  case (2 row rows r)
  from "2.prems"(2) obtain t s where s: "row_Data row = StoredTab t" "mget (r_sessions r) (row_Parent row) = Some s"
    "\<not> (t_ID t = [] \<or> tabStorageID (s_ID s) (t_ID t) \<noteq> row_ID row)"
    "loadTabs rows (putTab (row_Parent row) s (t_ID t) (t\<lparr>t_Panes := []\<rparr>) r) = Inr r'"
    by (auto split: stored.splits if_splits option.splits)
  have "no_panes (putTab (row_Parent row) s (t_ID t) (t\<lparr>t_Panes := []\<rparr>) r)"
    using "2.prems"(1) struct_ok_putTab [OF _ s(2), of "t_ID t" "t\<lparr>t_Panes := []\<rparr>"]
    by (simp add: no_panes_def paneAt_putTab [OF s(2)] tab_ok_def)
  from "2.IH" [OF s(1,2,3) this s(4)] show ?case .
qed simp

text \<open>What holds while panes are loaded; the rows still to come have other identifiers.\<close>

definition loaded_ok :: "Registry \<Rightarrow> bool" where
  "loaded_ok r \<longleftrightarrow> registry_inv r \<and> active_unique (reg_abs r) \<and>
     (\<forall>i p. lookupPane r i = Some p \<longrightarrow> i \<noteq> [] \<and> p_Generation p \<noteq> 0 \<and> p_Generation p \<le> r_nextGeneration r)"

lemma no_panes_loaded_ok: "no_panes r \<Longrightarrow> loaded_ok r \<and> lookupPane r i = None"
  by (auto simp: no_panes_def loaded_ok_def registry_inv_def index_ok_def lookupPane_def active_unique_def
      active_holder_def)

lemma loadPane_ok:
  assumes ok: "loaded_ok r" and l: "loadPane row r = Inr r'" and new: "lookupPane r (row_ID row) = None"
  shows "loaded_ok r'" "\<And>i. i \<noteq> row_ID row \<Longrightarrow> lookupPane r' i = lookupPane r i"
proof -
  have inv: "registry_inv r" using ok by (simp add: loaded_ok_def)
  obtain p s t where p: "row_Data row = StoredPane p" "mget (r_sessions r) (p_SessionID p) = Some s"
    "mget (s_Tabs s) (p_TabID p) = Some t" "p_ID p \<noteq> []" "p_ID p = row_ID row" "p_Generation p \<noteq> 0"
    "r' = restorePane s t p r"
    and free: "isTerminalPaneStatus (p_Status p) \<or>
      (\<forall>i. \<not> active_holder (reg_abs r) (p_SessionID p) (p_ZellijPaneID p) i)"
    using l by (auto simp: loadPane_def validateActive_holder [OF inv] split: stored.splits option.splits if_splits)
  note u = restorePane_update [OF inv p(2,3)]
  have a: "registry_inv r'" "reg_abs r' = (reg_abs r)\<lparr>sp_panes := (lookupPane r)(p_ID p \<mapsto> p\<lparr>p_LastOutput := []\<rparr>),
       sp_next := max (r_nextGeneration r) (p_Generation p)\<rparr>"
    using u new p(5,7) by simp_all
  have lk: "lookupPane r' = (lookupPane r)(p_ID p \<mapsto> p\<lparr>p_LastOutput := []\<rparr>)"
    and nx: "r_nextGeneration r' = max (r_nextGeneration r) (p_Generation p)"
    using sp_panes_abs(1,3) [of r'] by (simp_all add: a(2))
  show "lookupPane r' i = lookupPane r i" if "i \<noteq> row_ID row" for i using that lk p(5) by simp
  have hold: "active_holder (reg_abs r) sid z i \<or> (i = p_ID p \<and> (\<forall>j. \<not> active_holder (reg_abs r) sid z j))"
    if "active_holder (reg_abs r') sid z i" for sid z i
    using that free by (auto simp: active_holder_def a(2) split: if_splits)
  have "active_unique (reg_abs r')" unfolding active_unique_def
    using hold ok by (metis active_unique_def loaded_ok_def)
  then show "loaded_ok r'" using a(1) ok p(4,6) by (auto simp: loaded_ok_def lk nx le_max_iff_disj)
qed

lemma loadPanes_ok:
  assumes "loaded_ok r" "loadPanes rows r = Inr r'" "distinct (map row_ID rows)"
    "\<forall>row \<in> set rows. lookupPane r (row_ID row) = None"
  shows "loaded_ok r'"
  using assms
proof (induction rows arbitrary: r)
  case (Cons row rows)
  then obtain r1 where r1: "loadPane row r = Inr r1" "loadPanes rows r1 = Inr r'" by (auto split: sum.splits)
  have new: "lookupPane r (row_ID row) = None" using Cons.prems by simp
  note ok = loadPane_ok [OF Cons.prems(1) r1(1) new]
  have "\<forall>row' \<in> set rows. lookupPane r1 (row_ID row') = None" 
    using Cons.prems(3,4) ok(2) by (metis distinct.simps(2) image_eqI list.set_intros(2) list.set_map list.simps(9))
  then show ?case using Cons.IH [OF ok(1) r1(2)] Cons.prems(3) by simp
qed simp

lemma indexPane_fields [simp]:
  "r_sessions (indexPane p r) = r_sessions r" "r_paneToLocation (indexPane p r) = r_paneToLocation r"
  "r_nextGeneration (indexPane p r) = r_nextGeneration r"
  by (simp_all add: indexPane_def split: sum.splits)

lemma fold_indexPane_fields [simp]:
  "r_sessions (fold indexPane ps r) = r_sessions r"
  "r_paneToLocation (fold indexPane ps r) = r_paneToLocation r"
  "r_nextGeneration (fold indexPane ps r) = r_nextGeneration r"
  by (induction ps arbitrary: r) simp_all

lemma lookupPane_cong:
  assumes "r_sessions r' = r_sessions r" "r_paneToLocation r' = r_paneToLocation r"
  shows "paneAt r' = paneAt r" "lookupPane r' = lookupPane r" "index_ok r' = index_ok r"
proof -
  show at: "paneAt r' = paneAt r" using assms by (simp add: paneAt_def fun_eq_iff)
  show lk: "lookupPane r' = lookupPane r" unfolding lookupPane_def [abs_def] at assms ..
  show "index_ok r' = index_ok r" using assms at lk by (simp add: index_ok_def)
qed

lemma indexPane_latest_ok:
  "mapok (r_latestByZellij r) \<and> mget (r_latestByZellij r) [] = None \<Longrightarrow>
   mapok (r_latestByZellij (indexPane p r)) \<and> mget (r_latestByZellij (indexPane p r)) [] = None"
  by (auto simp: indexPane_def split: sum.splits)

lemma fold_indexPane_latest_ok:
  "mapok (r_latestByZellij r) \<and> mget (r_latestByZellij r) [] = None \<Longrightarrow>
   mapok (r_latestByZellij (fold indexPane ps r)) \<and> mget (r_latestByZellij (fold indexPane ps r)) [] = None"
  by (induction ps arbitrary: r) (simp_all add: indexPane_latest_ok)

lemma loaded_ok_cong:
  assumes ok: "loaded_ok r" and eq: "r_sessions r' = r_sessions r" "r_paneToLocation r' = r_paneToLocation r"
    and lat: "mapok (r_latestByZellij r') \<and> mget (r_latestByZellij r') [] = None"
    and gen: "r_nextGeneration r \<le> r_nextGeneration r'"
  shows "loaded_ok r'"
proof -
  note c = lookupPane_cong [OF eq]
  have "active_unique (reg_abs r') = active_unique (reg_abs r)"
    by (simp add: active_unique_def active_holder_def c)
  moreover have "registry_inv r'" using ok lat eq c by (auto simp: loaded_ok_def registry_inv_def struct_ok_def)
  ultimately show ?thesis using ok gen c by (auto simp: loaded_ok_def intro: order_trans)
qed

lemma loadGeneration_fields:
  "loadGeneration rows r = Inr r' \<Longrightarrow> r_sessions r' = r_sessions r \<and> r_paneToLocation r' = r_paneToLocation r \<and>
     r_latestByZellij r' = r_latestByZellij r \<and> r_nextGeneration r \<le> r_nextGeneration r'"
  by (induction rows r rule: loadGeneration.induct) (auto split: if_splits stored.splits)

lemma NewPersistent_phases:
  assumes "NewPersistent w = Inr r"
  obtains rows1 rows2 rows3 rows4 r1 r2 r3 r4 where
    "loadSessions rows1 NewRegistry = Inr r1" "loadTabs rows2 r1 = Inr r2"
    "Load (w_db w) Panes = Inr rows3" "loadPanes rows3 r2 = Inr r3"
    "loadGeneration rows4 (fold indexPane (ListPanes r3) r3) = Inr r4" "r = r4\<lparr>r_persist := Some w\<rparr>"
  using assms by (auto simp: NewPersistent_def loadTable_def bindR_def split: sum.splits)

text \<open>
  Whatever rows the database holds, a registry that \<open>NewPersistent\<close> returns is consistent:
  its hierarchy and index agree, no backend pane has two active holders in a session, no
  generation is 0 or above the counter, so the next registration gets a fresh one.
\<close>

theorem restored_registry_consistent:
  assumes d: "db_ok (w_db w)" and r: "NewPersistent w = Inr r"
  shows "loaded_ok r"
  using r
proof (cases rule: NewPersistent_phases)
  case (1 rows1 rows2 rows3 rows4 r1 r2 r3 r4)
  have "no_tabs r1" using loadSessions_no_tabs [OF no_tabs_New 1(1)] .
  then have n: "no_panes r2" using loadTabs_no_panes [OF _ 1(2)] by (simp add: no_tabs_def)
  have "loaded_ok r3"
    using loadPanes_ok [OF _ 1(4) Load_rows [OF d 1(3)]] no_panes_loaded_ok [OF n] by blast
  moreover from this have "mapok (r_latestByZellij r3) \<and> mget (r_latestByZellij r3) [] = None"
    by (simp add: loaded_ok_def registry_inv_def struct_ok_def)
  from fold_indexPane_latest_ok [OF this, of "ListPanes r3"] loadGeneration_fields [OF 1(5)]
  have "mapok (r_latestByZellij r4) \<and> mget (r_latestByZellij r4) [] = None" by simp
  ultimately show ?thesis using loaded_ok_cong [of r3 r] loadGeneration_fields [OF 1(5)] 1(6) by simp
qed

section \<open>Loading succeeds on complete rows\<close>

definition has_session :: "Registry \<Rightarrow> SessionID \<Rightarrow> bool" where
  "has_session r sid \<longleftrightarrow> mget (r_sessions r) sid \<noteq> None"

definition has_tab :: "Registry \<Rightarrow> SessionID \<Rightarrow> TabID \<Rightarrow> bool" where
  "has_tab r sid tid \<longleftrightarrow> (\<exists>s. mget (r_sessions r) sid = Some s \<and> mget (s_Tabs s) tid \<noteq> None)"

definition session_row :: "stored Row \<Rightarrow> bool" where
  "session_row row \<longleftrightarrow> (\<exists>s. row_Data row = StoredSession s \<and> s_ID s = row_ID row \<and> s_ID s \<noteq> [])"

definition tab_row :: "SessionID \<Rightarrow> TabID \<Rightarrow> stored Row \<Rightarrow> bool" where
  "tab_row sid tid row \<longleftrightarrow> (\<exists>t. row_Data row = StoredTab t \<and> t_ID t = tid \<and> tid \<noteq> []) \<and>
     row_Parent row = sid \<and> row_ID row = tabStorageID sid tid"

definition pane_row :: "PaneRecord \<Rightarrow> stored Row \<Rightarrow> bool" where
  "pane_row q row \<longleftrightarrow> row_Data row = StoredPane q \<and> p_ID q = row_ID row \<and> p_ID q \<noteq> [] \<and> p_Generation q \<noteq> 0 \<and>
     row_Parent row = tabStorageID (p_SessionID q) (p_TabID q)"

lemma loadSessions_succeeds:
  "\<forall>row \<in> set rows. session_row row \<Longrightarrow>
   \<exists>r'. loadSessions rows r = Inr r' \<and> (\<forall>sid. has_session r' sid \<longleftrightarrow> has_session r sid \<or> sid \<in> row_ID ` set rows)"
proof (induction rows arbitrary: r)
  case (Cons row rows)
  then obtain s where s: "row_Data row = StoredSession s" "s_ID s = row_ID row" "s_ID s \<noteq> []"
    by (auto simp: session_row_def)
  let ?r = "r\<lparr>r_sessions := mput (r_sessions r) (s_ID s) (s\<lparr>s_Tabs := []\<rparr>)\<rparr>"
  obtain r' where "loadSessions rows ?r = Inr r'"
    "\<forall>sid. has_session r' sid \<longleftrightarrow> has_session ?r sid \<or> sid \<in> row_ID ` set rows"
    using Cons.IH [of ?r] Cons.prems by auto
  then show ?case using s by (auto simp: has_session_def)
qed simp

lemma has_putTab:
  assumes "mget (r_sessions r) sid = Some s"
  shows "has_session (putTab sid s tid t r) sid' = has_session r sid'"
    "has_tab (putTab sid s tid t r) sid' tid' \<longleftrightarrow> has_tab r sid' tid' \<or> (sid' = sid \<and> tid' = tid)"
  using assms by (auto simp: has_session_def has_tab_def putTab_def)

lemma loadTabs_succeeds:
  "struct_ok r \<Longrightarrow> \<forall>row \<in> set rows. \<exists>sid tid. tab_row sid tid row \<and> has_session r sid \<Longrightarrow>
   \<exists>r'. loadTabs rows r = Inr r' \<and>
     (\<forall>sid tid. has_tab r' sid tid \<longleftrightarrow> has_tab r sid tid \<or> (\<exists>row \<in> set rows. tab_row sid tid row))"
proof (induction rows arbitrary: r)
  case (Cons row rows)
  then obtain sid tid s t where t: "tab_row sid tid row" "mget (r_sessions r) sid = Some s"
    "row_Data row = StoredTab t" "t_ID t = tid" "tid \<noteq> []" "row_Parent row = sid" "row_ID row = tabStorageID sid tid"
    by (auto simp: tab_row_def has_session_def)
  have sid: "s_ID s = sid" using Cons.prems(1) t(2) by (auto simp: struct_ok_def session_ok_def)
  let ?r = "putTab sid s tid (t\<lparr>t_Panes := []\<rparr>) r"
  have st: "struct_ok ?r" by (rule struct_ok_putTab [OF Cons.prems(1) t(2)]) (simp add: tab_ok_def t)
  have rest: "\<forall>row \<in> set rows. \<exists>sid tid. tab_row sid tid row \<and> has_session ?r sid"
    using Cons.prems(2) by (simp add: has_putTab [OF t(2)])
  obtain r' where r': "loadTabs rows ?r = Inr r'"
    "\<And>sid' tid'. has_tab r' sid' tid' \<longleftrightarrow> has_tab ?r sid' tid' \<or> (\<exists>row \<in> set rows. tab_row sid' tid' row)"
    using Cons.IH [OF st rest] by auto
  have "tab_row sid' tid' row \<longleftrightarrow> sid' = sid \<and> tid' = tid" for sid' tid'
    using t by (auto simp: tab_row_def)
  then show ?case using r' t sid by (auto simp: has_putTab [OF t(2)])
qed simp

lemma has_tab_restorePane:
  assumes "mget (r_sessions r) (p_SessionID p) = Some s" "mget (s_Tabs s) (p_TabID p) = Some t"
  shows "has_tab (restorePane s t p r) sid tid = has_tab r sid tid"
proof -
  let ?t = "t\<lparr>t_Panes := mput (t_Panes t) (p_ID p) (p\<lparr>p_LastOutput := []\<rparr>)\<rparr>"
  have eq: "has_tab (restorePane s t p r) sid tid = has_tab (putTab (p_SessionID p) s (p_TabID p) ?t r) sid tid"
    by (simp add: has_tab_def restorePane_def Let_def)
  have "has_tab r (p_SessionID p) (p_TabID p)" using assms by (simp add: has_tab_def)
  then show ?thesis unfolding eq has_putTab(2) [OF assms(1)] by auto
qed

text \<open>Panes whose rows can be loaded one after the other: no two active holders.\<close>

definition rivals :: "PaneRecord \<Rightarrow> PaneRecord \<Rightarrow> bool" where
  "rivals p q \<longleftrightarrow> p_SessionID p = p_SessionID q \<and> p_ZellijPaneID p = p_ZellijPaneID q \<and> p_ZellijPaneID p \<noteq> [] \<and>
     \<not> isTerminalPaneStatus (p_Status p) \<and> \<not> isTerminalPaneStatus (p_Status q)"

definition unsaved :: "PaneRecord \<Rightarrow> PaneRecord" where
  "unsaved p = p\<lparr>p_LastOutput := []\<rparr>"

lemma loadPanes_succeeds:
  "registry_inv r \<Longrightarrow> list_all2 pane_row qs rows \<Longrightarrow> distinct (map p_ID qs) \<Longrightarrow>
   \<forall>q \<in> set qs. has_tab r (p_SessionID q) (p_TabID q) \<and> lookupPane r (p_ID q) = None \<and>
     (\<forall>i p. lookupPane r i = Some p \<longrightarrow> \<not> rivals q p) \<Longrightarrow>
   \<forall>p \<in> set qs. \<forall>q \<in> set qs. rivals p q \<longrightarrow> p_ID p = p_ID q \<Longrightarrow>
   \<exists>r'. loadPanes rows r = Inr r' \<and> registry_inv r' \<and>
     lookupPane r' = (lookupPane r) ++ map_of (map (\<lambda>q. (p_ID q, unsaved q)) qs) \<and>
     r_nextGeneration r' = fold (\<lambda>q g. max g (p_Generation q)) qs (r_nextGeneration r)"
proof (induction qs arbitrary: rows r)
  case (Cons q qs)
  obtain row rows' where rows: "rows = row # rows'" and row: "pane_row q row" and all: "list_all2 pane_row qs rows'"
    using Cons.prems(2) by (auto simp: list_all2_Cons1)
  have inv: "registry_inv r" by fact
  have tab: "has_tab r (p_SessionID q) (p_TabID q)" and new: "lookupPane r (p_ID q) = None"
    and norival: "\<And>i p. lookupPane r i = Some p \<Longrightarrow> \<not> rivals q p" using Cons.prems(4) by simp_all
  obtain s t where st: "mget (r_sessions r) (p_SessionID q) = Some s" "mget (s_Tabs s) (p_TabID q) = Some t"
    using tab by (auto simp: has_tab_def)
  let ?r = "restorePane s t q r"
  note u = restorePane_update [OF inv st new]
  have lk: "lookupPane ?r = (lookupPane r)(p_ID q \<mapsto> unsaved q)"
    and nx: "r_nextGeneration ?r = max (r_nextGeneration r) (p_Generation q)"
    using sp_panes_abs(1,3) [of ?r] u by (simp_all add: unsaved_def)
  have "isTerminalPaneStatus (p_Status q) \<or>
      (\<nexists>i. active_holder (reg_abs r) (p_SessionID q) (p_ZellijPaneID q) i)"
    using norival by (fastforce simp: active_holder_def rivals_def)
  then have load: "loadPane row r = Inr ?r"
    using row st by (auto simp: loadPane_def pane_row_def validateActive_holder [OF inv])
  have rest: "\<forall>q' \<in> set qs. has_tab ?r (p_SessionID q') (p_TabID q') \<and> lookupPane ?r (p_ID q') = None \<and>
     (\<forall>i p. lookupPane ?r i = Some p \<longrightarrow> \<not> rivals q' p)"
  proof (intro ballI conjI allI impI)
    fix q' assume q': "q' \<in> set qs"
    show "has_tab ?r (p_SessionID q') (p_TabID q')" using Cons.prems(4) q' by (simp add: has_tab_restorePane [OF st])
    have ne: "p_ID q' \<noteq> p_ID q"
      using Cons.prems(3) q' by (metis distinct.simps(2) image_eqI list.set_map list.simps(9))
    then show "lookupPane ?r (p_ID q') = None" using Cons.prems(4) q' lk by simp
    fix i p assume "lookupPane ?r i = Some p"
    then have "p = unsaved q \<or> lookupPane r i = Some p" using lk by (auto split: if_splits)
    moreover have "\<not> rivals q' (unsaved q)"
    proof
      assume "rivals q' (unsaved q)"
      then have "rivals q' q" by (auto simp: rivals_def unsaved_def)
      then show False using Cons.prems(5) q' ne by simp
    qed
    ultimately show "\<not> rivals q' p" using Cons.prems(4) q' by auto
  qed
  have dist: "distinct (map p_ID qs)" using Cons.prems(3) by simp
  have riv: "\<forall>p \<in> set qs. \<forall>q \<in> set qs. rivals p q \<longrightarrow> p_ID p = p_ID q" using Cons.prems(5) by simp
  obtain r' where r': "loadPanes rows' ?r = Inr r'" "registry_inv r'"
     "lookupPane r' = (lookupPane ?r) ++ map_of (map (\<lambda>q. (p_ID q, unsaved q)) qs)"
     "r_nextGeneration r' = fold (\<lambda>q g. max g (p_Generation q)) qs (r_nextGeneration ?r)"
    using Cons.IH [OF conjunct1 [OF u] all dist rest riv] by blast
  have "p_ID q \<notin> p_ID ` set qs" using Cons.prems(3) by simp
  then have "map_of (map (\<lambda>q. (p_ID q, unsaved q)) qs) (p_ID q) = None"
    by (simp add: map_of_eq_None_iff image_image)
  then have lk': "lookupPane r' = (lookupPane r) ++ map_of (map (\<lambda>q. (p_ID q, unsaved q)) (q # qs))"
    unfolding r'(3) lk by (auto simp: map_add_def fun_eq_iff split: option.splits)
  have "loadPanes rows r = Inr r'" using r'(1) load rows by simp
  moreover have "r_nextGeneration r' = fold (\<lambda>q g. max g (p_Generation q)) (q # qs) (r_nextGeneration r)"
    using r'(4) nx by simp
  ultimately show ?case using r'(2) lk' by (intro exI [of _ r'] conjI)
qed simp

section \<open>Complete rows\<close>

text \<open>What a restart does not preserve of a pane.\<close>

definition forget :: "PaneRecord \<Rightarrow> PaneRecord" where
  "forget p = p\<lparr>p_LastOutput := [], p_closeNotificationClaimed := False, p_UpdatedAt := 0\<rparr>"

text \<open>The rows describe the registry: the same sessions, tabs and panes, and its counter.\<close>

definition saved_tables :: "Registry \<Rightarrow> stored db \<Rightarrow> bool" where
  "saved_tables r d \<longleftrightarrow>
     (\<forall>sid. mget (d Sessions) sid \<noteq> None \<longleftrightarrow> has_session r sid) \<and>
     (\<forall>k row. mget (d Sessions) k = Some row \<longrightarrow> session_row row) \<and>
     (\<forall>sid tid. has_tab r sid tid \<longrightarrow> has_session r sid \<and> mget (d Tabs) (tabStorageID sid tid) \<noteq> None) \<and>
     (\<forall>k row. mget (d Tabs) k = Some row \<longrightarrow> (\<exists>sid tid. tab_row sid tid row \<and> has_tab r sid tid))"

definition saved_panes :: "Registry \<Rightarrow> stored db \<Rightarrow> bool" where
  "saved_panes r d \<longleftrightarrow>
     (\<forall>i. lookupPane r i \<noteq> None \<longrightarrow> mget (d Panes) i \<noteq> None) \<and>
     (\<forall>i row. mget (d Panes) i = Some row \<longrightarrow>
        (\<exists>p q. lookupPane r i = Some p \<and> pane_row q row \<and> forget q = forget p)) \<and>
     (\<forall>i p. lookupPane r i = Some p \<longrightarrow> has_tab r (p_SessionID p) (p_TabID p))"

definition saved_generation :: "Registry \<Rightarrow> stored db \<Rightarrow> bool" where
  "saved_generation r d \<longleftrightarrow>
     (case mget (d Metadata) ''generation'' of
        None \<Rightarrow> r_nextGeneration r = 0
      | Some row \<Rightarrow> row_Data row = StoredGeneration (r_nextGeneration r))"

definition saved :: "Registry \<Rightarrow> stored db \<Rightarrow> bool" where
  "saved r d \<longleftrightarrow> db_ok d \<and> saved_tables r d \<and> saved_panes r d \<and> saved_generation r d"

definition saveDb :: "uint64 \<Rightarrow> SessionRecord \<Rightarrow> TabRecord \<Rightarrow> PaneRecord \<Rightarrow> bool \<Rightarrow> stored db \<Rightarrow> stored db" where
  "saveDb g s t p deleted d =
     (let sid = s_ID s; k = tabStorageID (s_ID s) (t_ID t) in
      d(Sessions := mput (d Sessions) sid \<lparr>row_ID = sid, row_Parent = [], row_PaneID = [],
            row_Data = StoredSession (s\<lparr>s_Tabs := []\<rparr>)\<rparr>,
        Tabs := mput (d Tabs) k \<lparr>row_ID = k, row_Parent = sid, row_PaneID = [],
            row_Data = StoredTab (t\<lparr>t_Panes := []\<rparr>)\<rparr>,
        Panes := (if deleted then mdel (d Panes) (p_ID p)
            else mput (d Panes) (p_ID p) \<lparr>row_ID = p_ID p, row_Parent = k, row_PaneID = [],
              row_Data = StoredPane (jsonPane (p\<lparr>p_LastOutput := []\<rparr>))\<rparr>),
        Metadata := mput (d Metadata) ''generation'' \<lparr>row_ID = ''generation'', row_Parent = [], row_PaneID = [],
            row_Data = StoredGeneration g\<rparr>))"

lemma apply_saveChanges: "apply_changes d (saveChanges g s t p deleted) = Inr (saveDb g s t p deleted d)"
  by (simp add: saveChanges_def saveDb_def apply_change_def validTable_def tables_def table_defs Let_def)

lemma saveDb_sel:
  "mget (saveDb g s t p b d Sessions) sid = (if sid = s_ID s then Some \<lparr>row_ID = s_ID s, row_Parent = [],
     row_PaneID = [], row_Data = StoredSession (s\<lparr>s_Tabs := []\<rparr>)\<rparr> else mget (d Sessions) sid)"
  "mget (saveDb g s t p b d Tabs) k = (if k = tabStorageID (s_ID s) (t_ID t) then
     Some \<lparr>row_ID = k, row_Parent = s_ID s, row_PaneID = [], row_Data = StoredTab (t\<lparr>t_Panes := []\<rparr>)\<rparr>
     else mget (d Tabs) k)"
  "mapok (d Panes) \<Longrightarrow> mget (saveDb g s t p b d Panes) i = (if i = p_ID p then
     if b then None else Some \<lparr>row_ID = p_ID p, row_Parent = tabStorageID (s_ID s) (t_ID t), row_PaneID = [],
              row_Data = StoredPane (jsonPane (p\<lparr>p_LastOutput := []\<rparr>))\<rparr> else mget (d Panes) i)"
  "mget (saveDb g s t p b d Metadata) ''generation'' = Some \<lparr>row_ID = ''generation'', row_Parent = [],
     row_PaneID = [], row_Data = StoredGeneration g\<rparr>"
  by (auto simp: saveDb_def Let_def table_defs)

lemma db_ok_saveDb: "db_ok d \<Longrightarrow> db_ok (saveDb g s t p b d)"
  by (simp add: db_ok_def saveDb_def Let_def table_ok_mput table_ok_mdel)

lemma forget_sel:
  assumes "forget q = forget p"
  shows "p_ID q = p_ID p" "p_SessionID q = p_SessionID p" "p_TabID q = p_TabID p"
    "p_Generation q = p_Generation p" "p_ZellijPaneID q = p_ZellijPaneID p" "p_Status q = p_Status p"
proof -
  have "p_ID (forget q) = p_ID (forget p)" "p_SessionID (forget q) = p_SessionID (forget p)"
    "p_TabID (forget q) = p_TabID (forget p)" "p_Generation (forget q) = p_Generation (forget p)"
    "p_ZellijPaneID (forget q) = p_ZellijPaneID (forget p)" "p_Status (forget q) = p_Status (forget p)"
    using assms by simp_all
  then show "p_ID q = p_ID p" "p_SessionID q = p_SessionID p" "p_TabID q = p_TabID p"
    "p_Generation q = p_Generation p" "p_ZellijPaneID q = p_ZellijPaneID p" "p_Status q = p_Status p"
    by (simp_all add: forget_def)
qed

text \<open>Loading the generation: the stored counter, when it is not behind the panes'.\<close>

lemma loadGeneration_succeeds:
  assumes "\<forall>row \<in> set rows. row_ID row = ''generation'' \<longrightarrow> row_Data row = StoredGeneration g"
    and "\<exists>row \<in> set rows. row_ID row = ''generation''" "r_nextGeneration r \<le> g"
  shows "\<exists>r'. loadGeneration rows r = Inr r' \<and> r_nextGeneration r' = g"
proof -
  have rest: "\<exists>r'. loadGeneration rows r = Inr r' \<and> r_nextGeneration r' = g"
    if "\<forall>row \<in> set rows. row_ID row = ''generation'' \<longrightarrow> row_Data row = StoredGeneration g" "r_nextGeneration r = g"
    for rows r using that by (induction rows r rule: loadGeneration.induct) auto
  show ?thesis using assms
  proof (induction rows r rule: loadGeneration.induct)
    case (2 row rows r)
    show ?case
    proof (cases "row_ID row = ''generation''")
      case True
      with "2.prems" show ?thesis
        using rest [of rows "if r_nextGeneration r < g then r\<lparr>r_nextGeneration := g\<rparr> else r"] by auto
    next
      case False
      with 2 show ?thesis by auto
    qed
  qed simp
qed

lemma loadGeneration_absent:
  "\<forall>row \<in> set rows. row_ID row \<noteq> ''generation'' \<Longrightarrow> loadGeneration rows r = Inr r"
  by (induction rows r rule: loadGeneration.induct) auto

lemma restore_tables:
  assumes sv: "saved r d"
  obtains r1 r2 where "loadTable d Sessions loadSessions NewRegistry = Inr r1" "loadTable d Tabs loadTabs r1 = Inr r2"
    "no_panes r2" "\<And>sid tid. has_tab r2 sid tid \<longleftrightarrow> has_tab r sid tid"
proof -
  have ok: "db_ok d" and tb: "saved_tables r d" using sv by (simp_all add: saved_def)
  let ?rows = "\<lambda>t. map snd (sort_key fst (d t))"
  note L = Load_ok [OF ok]
  have "\<forall>row \<in> set (?rows Sessions). session_row row"
    using L(2) [where t = Sessions] tb unfolding saved_tables_def by blast
  then obtain r1 where r1: "loadSessions (?rows Sessions) NewRegistry = Inr r1"
    "\<And>sid. has_session r1 sid \<longleftrightarrow> has_session NewRegistry sid \<or> sid \<in> row_ID ` set (?rows Sessions)"
    using loadSessions_succeeds by blast
  have nt: "no_tabs r1" using loadSessions_no_tabs [OF no_tabs_New r1(1)] .
  have s1: "has_session r1 sid" if h: "has_session r sid" for sid
  proof -
    have "mget (d Sessions) sid \<noteq> None" using h tb by (simp add: saved_tables_def)
    then obtain row where row: "mget (d Sessions) sid = Some row" by blast
    then have "row_ID row = sid" using ok by (simp add: db_ok_def table_ok_def)
    with row have "row \<in> set (?rows Sessions)" using L(2) [of row Sessions] by simp
    then show ?thesis using r1(2) \<open>row_ID row = sid\<close> by blast
  qed
  have st: "struct_ok r1" using nt by (simp add: no_tabs_def no_panes_def)
  have "\<forall>row \<in> set (?rows Tabs). \<exists>sid tid. tab_row sid tid row \<and> has_session r1 sid"
    using L(2) [where t = Tabs] tb s1 unfolding saved_tables_def by blast
  then obtain r2 where r2: "loadTabs (?rows Tabs) r1 = Inr r2"
    "\<And>sid tid. has_tab r2 sid tid \<longleftrightarrow> has_tab r1 sid tid \<or> (\<exists>row \<in> set (?rows Tabs). tab_row sid tid row)"
    using loadTabs_succeeds [OF st] by blast
  have "no_panes r2" using loadTabs_no_panes [OF _ r2(1)] nt by (simp add: no_tabs_def)
  moreover have "has_tab r2 sid tid \<longleftrightarrow> has_tab r sid tid" for sid tid
  proof -
    have "\<not> has_tab r1 sid tid" using nt by (auto simp: has_tab_def no_tabs_def)
    moreover have "has_tab r sid tid" if row: "row \<in> set (?rows Tabs)" "tab_row sid tid row" for row
    proof -
      have "mget (d Tabs) (row_ID row) = Some row" using L(2) [where t = Tabs] row by simp
      then obtain sid' tid' where "tab_row sid' tid' row" "has_tab r sid' tid'"
        using tb unfolding saved_tables_def by blast
      then show ?thesis using row(2) by (auto simp: tab_row_def)
    qed
    moreover have "\<exists>row \<in> set (?rows Tabs). tab_row sid tid row" if h: "has_tab r sid tid"
    proof -
      obtain row where row: "mget (d Tabs) (tabStorageID sid tid) = Some row"
        using h tb unfolding saved_tables_def by blast
      then have id: "row_ID row = tabStorageID sid tid" using ok by (simp add: db_ok_def table_ok_def)
      obtain sid' tid' where t': "tab_row sid' tid' row" using row tb unfolding saved_tables_def by blast
      then have "tabStorageID sid' tid' = tabStorageID sid tid" using id by (simp add: tab_row_def)
      then have "sid' = sid" "tid' = tid" by (simp_all add: tabStorageID_inject)
      then show ?thesis using t' row id L(2) [of row Tabs] by auto
    qed
    ultimately show ?thesis using r2(2) by blast
  qed
  moreover have "loadTable d Sessions loadSessions NewRegistry = Inr r1" "loadTable d Tabs loadTabs r1 = Inr r2"
    using L(1) r1(1) r2(1) by (simp_all add: loadTable_def)
  ultimately show thesis using that by blast
qed

definition row_pane :: "stored Row \<Rightarrow> PaneRecord" where
  "row_pane row = (case row_Data row of StoredPane q \<Rightarrow> q | _ \<Rightarrow> undefined)"

lemma fold_max_le:
  fixes n g :: uint64
  shows "n \<le> g \<Longrightarrow> \<forall>q \<in> set qs. p_Generation q \<le> g \<Longrightarrow> fold (\<lambda>q g. max g (p_Generation q)) qs n \<le> g"
  by (induction qs arbitrary: n) auto

lemma map_of_rows:
  assumes "distinct (map p_ID qs)"
  shows "map_of (map (\<lambda>q. (p_ID q, unsaved q)) qs) i = Some x \<longleftrightarrow> (\<exists>q \<in> set qs. p_ID q = i \<and> unsaved q = x)"
proof -
  have "mapok (map (\<lambda>q. (p_ID q, unsaved q)) qs)" using assms by (simp add: comp_def)
  then show ?thesis by (auto simp: mapok_mget_iff)
qed

lemma restore_panes:
  assumes ok: "registry_ok r" and u: "active_unique (reg_abs r)" and sv: "saved r d" and np: "no_panes r2"
    and tabs: "\<And>sid tid. has_tab r2 sid tid \<longleftrightarrow> has_tab r sid tid"
  obtains r3 where "loadTable d Panes loadPanes r2 = Inr r3" "r_nextGeneration r3 \<le> r_nextGeneration r"
    "\<And>i. map_option forget (lookupPane r3 i) = map_option forget (lookupPane r i)"
proof -
  have dok: "db_ok d" and sp: "saved_panes r d" using sv by (simp_all add: saved_def)
  have si: "spec_inv (reg_abs r)" using ok by (simp add: registry_ok_def)
  define rows where "rows = map snd (sort_key fst (d Panes))"
  let ?qs = "map row_pane rows"
  have L: "Load d Panes = Inr rows" "\<And>row. row \<in> set rows \<longleftrightarrow> mget (d Panes) (row_ID row) = Some row"
    unfolding rows_def using Load_ok [OF dok, where t = Panes] by (simp_all add: tables_def)
  have row: "pane_row (row_pane row) row \<and> (\<exists>p. lookupPane r (row_ID row) = Some p \<and> forget (row_pane row) = forget p)"
    if "row \<in> set rows" for row
  proof -
    have "mget (d Panes) (row_ID row) = Some row" using L(2) that by blast
    then obtain p q where "lookupPane r (row_ID row) = Some p" "pane_row q row" "forget q = forget p"
      using sp unfolding saved_panes_def by blast
    then show ?thesis by (auto simp: pane_row_def row_pane_def)
  qed
  have q: "\<exists>p. lookupPane r (p_ID q) = Some p \<and> forget q = forget p" if q: "q \<in> set ?qs" for q
  proof -
    obtain rw where rw: "rw \<in> set rows" "q = row_pane rw" using q by auto
    then show ?thesis using row [OF rw(1)] by (simp add: pane_row_def)
  qed
  have dist: "distinct (map p_ID ?qs)"
  proof -
    have "p_ID (row_pane rw) = row_ID rw" if "rw \<in> set rows" for rw
      using row [OF that] by (simp add: pane_row_def)
    then have eq: "map p_ID ?qs = map row_ID rows" unfolding map_map comp_def by (intro map_cong) auto
    show ?thesis unfolding eq by (rule Load_rows [OF dok L(1)])
  qed
  have np': "registry_inv r2" "\<And>i. lookupPane r2 i = None" "r_nextGeneration r2 = 0"
    using no_panes_loaded_ok [OF np] np by (auto simp: loaded_ok_def no_panes_def)
  have all: "list_all2 pane_row ?qs rows"
    unfolding list_all2_map1 by (rule list.rel_refl_strong) (use row in blast)
  have fit: "\<forall>q \<in> set ?qs. has_tab r2 (p_SessionID q) (p_TabID q) \<and> lookupPane r2 (p_ID q) = None \<and>
     (\<forall>i p. lookupPane r2 i = Some p \<longrightarrow> \<not> rivals q p)"
    using q forget_sel sp np'(2) tabs unfolding saved_panes_def by (metis option.distinct(1))
  have "p_ID p = p_ID q" if pq: "p \<in> set ?qs" "q \<in> set ?qs" "rivals p q" for p q
  proof -
    obtain p' where p': "lookupPane r (p_ID p) = Some p'" "forget p = forget p'" using q [OF pq(1)] by blast
    obtain q' where q': "lookupPane r (p_ID q) = Some q'" "forget q = forget q'" using q [OF pq(2)] by blast
    have "active_holder (reg_abs r) (p_SessionID p) (p_ZellijPaneID p) (p_ID p)"
      using p'(1) forget_sel [OF p'(2)] pq(3) unfolding active_holder_def rivals_def sp_panes_abs by metis
    moreover have "active_holder (reg_abs r) (p_SessionID p) (p_ZellijPaneID p) (p_ID q)"
      using q'(1) forget_sel [OF q'(2)] pq(3) unfolding active_holder_def rivals_def sp_panes_abs by metis
    ultimately show ?thesis using u unfolding active_unique_def by blast
  qed
  then have riv: "\<forall>p \<in> set ?qs. \<forall>q \<in> set ?qs. rivals p q \<longrightarrow> p_ID p = p_ID q" by simp
  obtain r3 where r3: "loadPanes rows r2 = Inr r3"
     "lookupPane r3 = (lookupPane r2) ++ map_of (map (\<lambda>q. (p_ID q, unsaved q)) ?qs)"
     "r_nextGeneration r3 = fold (\<lambda>q g. max g (p_Generation q)) ?qs (r_nextGeneration r2)"
    using loadPanes_succeeds [OF np'(1) all dist fit riv] by (elim exE conjE) (rule that)
  have le: "p_Generation p \<le> r_nextGeneration r" if "lookupPane r i = Some p" for i p
    using si that unfolding spec_inv_def sp_panes_abs by blast
  have "p_Generation q \<le> r_nextGeneration r" if mem: "q \<in> set ?qs" for q
    using q [OF mem] le forget_sel(4) by metis
  then have "r_nextGeneration r3 \<le> r_nextGeneration r"
    unfolding r3(3) np'(3) by (intro fold_max_le) auto
  moreover have "map_option forget (lookupPane r3 i) = map_option forget (lookupPane r i)" for i
  proof -
    let ?m = "map_of (map (\<lambda>q. (p_ID q, unsaved q)) ?qs)"
    have lk: "lookupPane r3 i = ?m i" using np'(2) by (simp add: r3(2) map_add_def split: option.splits)
    note m = map_of_rows [OF dist, of i]
    show ?thesis
    proof (cases "lookupPane r i")
      case None
      then have "?m i = None" using m q by (metis not_Some_eq option.distinct(1))
      with None lk show ?thesis by simp
    next
      case (Some p)
      then obtain row where rw: "mget (d Panes) i = Some row" using sp unfolding saved_panes_def by blast
      then have id: "row_ID row = i" using dok by (simp add: db_ok_def table_ok_def)
      then have mem: "row \<in> set rows" using L(2) rw by blast
      then have "row_pane row \<in> set ?qs" by simp
      moreover have "p_ID (row_pane row) = i" "forget (row_pane row) = forget p"
        using row [OF mem] id Some by (auto simp: pane_row_def)
      ultimately have "?m i = Some (unsaved (row_pane row))" using m by blast
      moreover have "forget (unsaved (row_pane row)) = forget (row_pane row)" by (simp add: forget_def unsaved_def)
      ultimately show ?thesis using lk Some \<open>forget (row_pane row) = forget p\<close> by simp
    qed
  qed
  moreover have "loadTable d Panes loadPanes r2 = Inr r3" using L(1) r3(1) by (simp add: loadTable_def)
  ultimately show thesis using that by blast
qed

lemma restore_saved:
  assumes ok: "registry_ok r" and u: "active_unique (reg_abs r)" and sv: "saved r (w_db w)"
  shows "\<exists>r'. NewPersistent w = Inr r' \<and> r_nextGeneration r' = r_nextGeneration r \<and>
    (\<forall>i. map_option forget (lookupPane r' i) = map_option forget (lookupPane r i))"
proof -
  let ?d = "w_db w"
  obtain r1 r2 where r12: "loadTable ?d Sessions loadSessions NewRegistry = Inr r1" "loadTable ?d Tabs loadTabs r1 = Inr r2"
    "no_panes r2" "\<And>sid tid. has_tab r2 sid tid \<longleftrightarrow> has_tab r sid tid"
    using restore_tables [OF sv] by blast
  obtain r3 where r3: "loadTable ?d Panes loadPanes r2 = Inr r3" "r_nextGeneration r3 \<le> r_nextGeneration r"
    "\<And>i. map_option forget (lookupPane r3 i) = map_option forget (lookupPane r i)"
    using restore_panes [OF ok u sv r12(3,4)] by blast
  have dok: "db_ok ?d" and sg: "saved_generation r ?d" using sv by (simp_all add: saved_def)
  let ?ri = "fold indexPane (ListPanes r3) r3"
  define rows where "rows = map snd (sort_key fst (?d Metadata))"
  have L: "Load ?d Metadata = Inr rows" "\<And>row. row \<in> set rows \<longleftrightarrow> mget (?d Metadata) (row_ID row) = Some row"
    unfolding rows_def using Load_ok [OF dok, where t = Metadata] by (simp_all add: tables_def)
  have "\<exists>r4. loadGeneration rows ?ri = Inr r4 \<and> r_nextGeneration r4 = r_nextGeneration r"
  proof (cases "mget (?d Metadata) ''generation''")
    case None
    then have "\<forall>row \<in> set rows. row_ID row \<noteq> ''generation''" using L(2) by fastforce
    then have "loadGeneration rows ?ri = Inr ?ri" by (rule loadGeneration_absent)
    moreover have "r_nextGeneration r = 0" using sg None by (simp add: saved_generation_def)
    ultimately show ?thesis using r3(2) by simp
  next
    case (Some row)
    then have "row_ID row = ''generation''" using dok by (simp add: db_ok_def table_ok_def)
    moreover have "row_Data row = StoredGeneration (r_nextGeneration r)"
      using sg Some by (simp add: saved_generation_def)
    ultimately show ?thesis using Some L(2) r3(2)
      by (intro loadGeneration_succeeds) (auto intro: bexI [of _ row])
  qed
  then obtain r4 where r4: "loadGeneration rows ?ri = Inr r4" "r_nextGeneration r4 = r_nextGeneration r" by blast
  let ?r = "r4\<lparr>r_persist := Some w\<rparr>"
  have "lookupPane ?r = lookupPane r3"
    by (rule lookupPane_cong(2)) (use loadGeneration_fields [OF r4(1)] in simp_all)
  moreover have "NewPersistent w = Inr ?r"
    using r12(1,2) r3(1) r4(1) L(1) by (simp add: NewPersistent_def bindR_def loadTable_def)
  ultimately show ?thesis using r3(3) r4(2) by auto
qed

section \<open>Every method keeps the rows complete\<close>

lemma forget_jsonPane [simp]: "forget (jsonPane (p\<lparr>p_LastOutput := []\<rparr>)) = forget p"
  by (simp add: forget_def jsonPane_def)

lemma saved_tables_saveDb:
  assumes "saved_tables r d" "s_ID s = sid" "t_ID t = tid" "sid \<noteq> []" "tid \<noteq> []"
    and "\<And>x. has_session r' x \<longleftrightarrow> has_session r x \<or> x = sid"
    and "\<And>x y. has_tab r' x y \<longleftrightarrow> has_tab r x y \<or> (x = sid \<and> y = tid)"
  shows "saved_tables r' (saveDb g s t p b d)"
  using assms(1) unfolding saved_tables_def assms(6,7) saveDb_sel assms(2,3)
  by (auto simp: session_row_def tab_row_def tabStorageID_inject assms(2-5) split: if_splits) blast+

lemma saved_panes_put:
  assumes "saved_panes r d" "db_ok d" "s_ID s = p_SessionID p" "t_ID t = p_TabID p" "p_ID p \<noteq> []" "p_Generation p \<noteq> 0"
    and "\<And>x y. has_tab r' x y \<longleftrightarrow> has_tab r x y \<or> (x = p_SessionID p \<and> y = p_TabID p)"
    and "lookupPane r' = (lookupPane r)(p_ID p \<mapsto> p)"
  shows "saved_panes r' (saveDb g s t p False d)"
proof -
  have m: "mapok (d Panes)" using assms(2) by (simp add: db_ok_def table_ok_def)
  have "pane_row (jsonPane (p\<lparr>p_LastOutput := []\<rparr>)) \<lparr>row_ID = p_ID p, row_Parent = tabStorageID (p_SessionID p) (p_TabID p),
      row_PaneID = [], row_Data = StoredPane (jsonPane (p\<lparr>p_LastOutput := []\<rparr>))\<rparr>"
    using assms(5,6) by (simp add: pane_row_def jsonPane_def)
  then show ?thesis using assms(1) forget_jsonPane [of p]
    unfolding saved_panes_def assms(7,8) saveDb_sel(3) [where d = d, OF m] assms(3,4)
    by (auto split: if_splits)
qed

lemma saved_panes_del:
  assumes "saved_panes r d" "db_ok d" "\<And>x y. has_tab r' x y \<longleftrightarrow> has_tab r x y"
    and "lookupPane r' = (lookupPane r)(p_ID p := None)"
  shows "saved_panes r' (saveDb g s t p True d)"
proof -
  have m: "mapok (d Panes)" using assms(2) by (simp add: db_ok_def table_ok_def)
  show ?thesis using assms(1) unfolding saved_panes_def assms(3,4) saveDb_sel(3) [where d = d, OF m]
    by (auto split: if_splits)
qed

lemma saved_generation_saveDb: "saved_generation r (saveDb (r_nextGeneration r) s t p b d)"
  by (simp add: saved_generation_def saveDb_sel)

text \<open>Updates that are not saved: the screen output and its time stamps.\<close>

lemma saved_frame:
  assumes sv: "saved r d" and "\<And>x. has_session r' x \<longleftrightarrow> has_session r x" "\<And>x y. has_tab r' x y \<longleftrightarrow> has_tab r x y"
    and l: "lookupPane r i = Some p" "lookupPane r' = (lookupPane r)(i \<mapsto> q)" "forget q = forget p"
    and "r_nextGeneration r' = r_nextGeneration r"
  shows "saved r' d"
proof -
  have sp: "saved_panes r d" using sv by (simp add: saved_def)
  have "saved_panes r' d" unfolding saved_panes_def assms(3)
  proof (intro conjI allI impI)
    show "mget (d Panes) j \<noteq> None" if "lookupPane r' j \<noteq> None" for j
      using that sp l(1,2) unfolding saved_panes_def by (metis fun_upd_apply option.distinct(1))
    show "\<exists>p' q'. lookupPane r' j = Some p' \<and> pane_row q' row \<and> forget q' = forget p'"
      if row: "mget (d Panes) j = Some row" for j row
    proof -
      obtain p' q' where pq: "lookupPane r j = Some p'" "pane_row q' row" "forget q' = forget p'"
        using sp row unfolding saved_panes_def by blast
      then show ?thesis using l by (cases "j = i") auto
    qed
    show "has_tab r (p_SessionID p') (p_TabID p')" if "lookupPane r' j = Some p'" for j p'
    proof (cases "j = i")
      case True
      then show ?thesis using that l sp forget_sel(2,3) [OF l(3)] unfolding saved_panes_def by simp
    next
      case False
      then show ?thesis using that l(2) sp unfolding saved_panes_def by simp
    qed
  qed
  then show ?thesis using sv assms(2,3,7)
    
    by (simp add: saved_def saved_tables_def saved_generation_def split: option.splits)
qed

lemma has_writeBack:
  assumes "\<And>tid. mget (s_Tabs s) tid \<noteq> None \<longleftrightarrow> has_tab r (l_SessionID loc) tid"
  shows "has_session (writeBack now b loc s t p i r) x \<longleftrightarrow> has_session r x \<or> x = l_SessionID loc"
    "has_tab (writeBack now b loc s t p i r) x y \<longleftrightarrow> has_tab r x y \<or> (x = l_SessionID loc \<and> y = l_TabID loc)"
  using assms by (auto simp: has_session_def has_tab_def writeBack_sessions stampSession_def)

text \<open>
  The changes a call enqueues, and that applying them keeps the rows complete.
\<close>

definition persists :: "Registry \<Rightarrow> Registry \<Rightarrow> bool" where
  "persists r r' \<longleftrightarrow> (\<exists>cs. r_persist r' = map_option (\<lambda>w. if cs = [] then w else Enqueue cs w) (r_persist r) \<and>
     (\<forall>d. saved r d \<longrightarrow> (\<exists>d'. apply_changes d cs = Inr d' \<and> saved r' d')))"

lemma persists_refl: "persists r r"
  unfolding persists_def by (rule exI [of _ "[]"]) (auto simp: option.map_ident)

lemma persists_saveI:
  assumes "r_persist r' = map_option (Enqueue (saveChanges (r_nextGeneration r') s t p b)) (r_persist r)"
    and "\<And>d. saved r d \<Longrightarrow> saved r' (saveDb (r_nextGeneration r') s t p b d)"
  shows "persists r r'"
  unfolding persists_def
  by (rule exI [of _ "saveChanges (r_nextGeneration r') s t p b"])
    (use assms in \<open>auto simp: apply_saveChanges\<close>, simp add: saveChanges_def)

lemma r_persist_writeBack:
  "r_persist (writeBack now True loc s t p i r) = map_option (Enqueue (saveChanges (r_nextGeneration r)
     (stampSession now (l_TabID loc) (stampTab now (mput (t_Panes t) i p) t) s)
     (stampTab now (mput (t_Panes t) i p) t) p False)) (r_persist r)"
  "r_persist (writeBack now False loc s t p i r) = r_persist r"
  by (simp_all add: writeBack_def Let_def saveLocked_def split: option.splits)

lemma path_has:
  assumes "path r i loc s t p"
  shows "\<And>tid. mget (s_Tabs s) tid \<noteq> None \<longleftrightarrow> has_tab r (l_SessionID loc) tid"
    "has_session r (l_SessionID loc)" "has_tab r (l_SessionID loc) (l_TabID loc)"
  using assms by (auto simp: path_def has_tab_def has_session_def)

text \<open>Keys of the hierarchy are not empty.\<close>

definition keys_ok :: "Registry \<Rightarrow> bool" where
  "keys_ok r \<longleftrightarrow> (\<forall>sid. has_session r sid \<longrightarrow> sid \<noteq> []) \<and> (\<forall>sid tid. has_tab r sid tid \<longrightarrow> tid \<noteq> []) \<and>
     (\<forall>i p. lookupPane r i = Some p \<longrightarrow> i \<noteq> [] \<and> p_Generation p \<noteq> 0)"

lemma writeBack_persists:
  assumes inv: "registry_inv r" and k: "keys_ok r" and path: "path r i loc s t p"
    and same: "same_place p q" "p_Generation q = p_Generation p"
  shows "persists r (writeBack now True loc s t q i r) \<and> keys_ok (writeBack now True loc s t q i r)"
proof -
  let ?r = "writeBack now True loc s t q i r"
  let ?t = "stampTab now (mput (t_Panes t) i q) t"
  let ?s = "stampSession now (l_TabID loc) ?t s"
  note ids = path_ids [OF inv path] and h = path_has [OF path]
  have st: "struct_ok r" using inv by (simp add: registry_inv_def)
  have sid: "s_ID ?s = l_SessionID loc" "t_ID ?t = l_TabID loc"
    using path_ok(1,2) [OF st path] by (simp_all add: session_ok_def tab_ok_def stampSession_def stampTab_def)
  have loc: "l_SessionID loc = p_SessionID q" "l_TabID loc = p_TabID q" "p_ID q = i"
    using ids same by (simp_all add: same_place_def)
  have lk: "lookupPane ?r = (lookupPane r)(p_ID q \<mapsto> q)"
    using writeBack_update [OF inv path same(1), of now True] sp_panes_abs(1) [of ?r] by (simp add: sp_put_def)
  note hw = has_writeBack [OF h(1), of now True t q i]
  have ne: "l_SessionID loc \<noteq> []" "l_TabID loc \<noteq> []" "p_ID q \<noteq> []" "p_Generation q \<noteq> 0"
    using k h(2,3) ids(3) same(2) loc(3) unfolding keys_ok_def by auto
  have "persists r ?r"
  proof (rule persists_saveI)
    show "r_persist ?r = map_option (Enqueue (saveChanges (r_nextGeneration ?r) ?s ?t q False)) (r_persist r)"
      by (simp add: r_persist_writeBack)
    fix d assume sv: "saved r d"
    have "saved_tables ?r (saveDb (r_nextGeneration ?r) ?s ?t q False d)"
      using sv by (intro saved_tables_saveDb [OF _ sid ne(1,2) hw]) (simp add: saved_def)
    moreover have "saved_panes ?r (saveDb (r_nextGeneration ?r) ?s ?t q False d)"
      using sv sid loc by (intro saved_panes_put [OF _ _ _ _ ne(3,4) _ lk]) (simp_all add: saved_def hw)
    ultimately show "saved ?r (saveDb (r_nextGeneration ?r) ?s ?t q False d)"
      using sv by (simp add: saved_def db_ok_saveDb saved_generation_def saveDb_sel)
  qed
  moreover have "keys_ok ?r" using k ne h(2,3) unfolding keys_ok_def hw lk by auto
  ultimately show ?thesis by simp
qed

lemma writeBack_unsaved_persists:
  assumes inv: "registry_inv r" and k: "keys_ok r" and path: "path r i loc s t p"
    and same: "same_place p q" "p_Generation q = p_Generation p" "forget q = forget p"
  shows "persists r (writeBack now False loc s t q i r) \<and> keys_ok (writeBack now False loc s t q i r)"
proof -
  let ?r = "writeBack now False loc s t q i r"
  note ids = path_ids [OF inv path] and h = path_has [OF path]
  have lk: "lookupPane ?r = (lookupPane r)(i \<mapsto> q)"
    using writeBack_update [OF inv path same(1), of now False] sp_panes_abs(1) [of ?r] same(1) ids(1)
    by (simp add: sp_put_def same_place_def)
  note hw = has_writeBack [OF h(1), of now False t q i]
  have hs: "has_session ?r x = has_session r x" "has_tab ?r x y = has_tab r x y" for x y
    using h(2,3) unfolding hw by auto
  have "saved ?r d" if "saved r d" for d
    by (rule saved_frame [OF that hs ids(3) lk same(3)]) simp
  then have "persists r ?r" unfolding persists_def
    by (intro exI [of _ "[]"]) (auto simp: r_persist_writeBack option.map_ident)
  moreover have "keys_ok ?r" using k ids(3) same(2) unfolding keys_ok_def hs lk by auto
  ultimately show ?thesis by simp
qed

lemma removePane_persists:
  assumes inv: "registry_inv r" and k: "keys_ok r" and path: "path r i loc s t p"
    and q: "p_ID q = p_ID p" "p_ZellijPaneID q = p_ZellijPaneID p"
  shows "persists r (removePaneLocked now loc s t q r) \<and> keys_ok (removePaneLocked now loc s t q r)"
proof -
  let ?r = "removePaneLocked now loc s t q r"
  let ?t = "stampTab now (mdel (t_Panes t) (p_ID q)) t"
  let ?s = "stampSession now (l_TabID loc) ?t s"
  note ids = path_ids [OF inv path] and h = path_has [OF path]
  have st: "struct_ok r" using inv by (simp add: registry_inv_def)
  have sid: "s_ID ?s = l_SessionID loc" "t_ID ?t = l_TabID loc"
    using path_ok(1,2) [OF st path] by (simp_all add: session_ok_def tab_ok_def stampSession_def stampTab_def)
  have lk: "lookupPane ?r = (lookupPane r)(p_ID q := None)"
    using removePane_update [OF inv path q, of now] sp_panes_abs(1) [of ?r] q(1) by (simp add: sp_del_def)
  have hs: "has_session ?r x \<longleftrightarrow> has_session r x \<or> x = l_SessionID loc"
    "has_tab ?r x y \<longleftrightarrow> has_tab r x y \<or> (x = l_SessionID loc \<and> y = l_TabID loc)" for x y
    using h(1) by (auto simp: has_session_def has_tab_def removePaneLocked_fields deletePane_def stampSession_def)
  have hs': "has_tab ?r x y \<longleftrightarrow> has_tab r x y" for x y using hs(2) h(3) by auto
  have ne: "l_SessionID loc \<noteq> []" "l_TabID loc \<noteq> []" using k h(2,3) unfolding keys_ok_def by auto
  have "persists r ?r"
  proof (rule persists_saveI)
    show "r_persist ?r = map_option (Enqueue (saveChanges (r_nextGeneration ?r) ?s ?t q True)) (r_persist r)"
      by (simp add: removePaneLocked_def Let_def saveLocked_def split: option.splits)
    fix d assume sv: "saved r d"
    have "saved_tables ?r (saveDb (r_nextGeneration ?r) ?s ?t q True d)"
      using sv by (intro saved_tables_saveDb [OF _ sid ne hs]) (simp add: saved_def)
    moreover have "saved_panes ?r (saveDb (r_nextGeneration ?r) ?s ?t q True d)"
      using sv by (intro saved_panes_del [OF _ _ hs' lk]) (simp_all add: saved_def)
    ultimately show "saved ?r (saveDb (r_nextGeneration ?r) ?s ?t q True d)"
      using sv by (simp add: saved_def db_ok_saveDb saved_generation_def saveDb_sel)
  qed
  moreover have "keys_ok ?r" using k ne h(2) unfolding keys_ok_def hs' hs(1) lk by auto
  ultimately show ?thesis by simp
qed

lemma defaults_nonempty:
  "rq_SessionID (applyRegisterPaneDefaults req) \<noteq> []" "rq_TabID (applyRegisterPaneDefaults req) \<noteq> []"
proof -
  have "nat_digits n \<noteq> []" for n by (subst nat_digits.simps) simp
  then have "Itoa n \<noteq> []" for n by (simp add: Itoa_def)
  then show "rq_SessionID (applyRegisterPaneDefaults req) \<noteq> []" "rq_TabID (applyRegisterPaneDefaults req) \<noteq> []"
    by (auto simp: applyRegisterPaneDefaults_def Let_def split: option.splits)
qed

lemma regResult_persists:
  assumes inv: "registry_inv r" and k: "keys_ok r" and new: "lookupPane r (rq_ID req) = None"
    and req: "rq_SessionID req \<noteq> []" "rq_TabID req \<noteq> []" "rq_ID req \<noteq> []" and room: "r_nextGeneration r + 1 \<noteq> 0"
  shows "persists r (regResult now req r) \<and> keys_ok (regResult now req r)"
proof -
  let ?r = "regResult now req r" and ?p = "newPaneRecord now (r_nextGeneration r + 1) req"
  let ?t = "stampTab now (mput (t_Panes (regTab now req (regSession now req r))) (rq_ID req) ?p)
    (regTab now req (regSession now req r))"
  let ?s = "stampSession now (rq_TabID req) ?t (regSession now req r)"
  have st: "struct_ok r" using inv by (simp add: registry_inv_def)
  have sid: "s_ID ?s = rq_SessionID req" "t_ID ?t = rq_TabID req"
    using reg_targets_ok(1,2) [OF st, where req = req and now = now]
    by (simp_all add: session_ok_def tab_ok_def stampSession_def stampTab_def)
  have lk: "lookupPane ?r = (lookupPane r)(p_ID ?p \<mapsto> ?p)" and nx: "r_nextGeneration ?r = r_nextGeneration r + 1"
    using regResult_update [OF inv new, of now] sp_panes_abs(1,3) [of ?r] by simp_all
  have tabs: "mget (s_Tabs (regSession now req r)) tid \<noteq> None \<longleftrightarrow> has_tab r (rq_SessionID req) tid" for tid
    by (auto simp: regSession_def has_tab_def split: option.splits)
  have hs: "has_session ?r x \<longleftrightarrow> has_session r x \<or> x = rq_SessionID req"
    "has_tab ?r x y \<longleftrightarrow> has_tab r x y \<or> (x = rq_SessionID req \<and> y = rq_TabID req)" for x y
    using tabs by (auto simp: has_session_def has_tab_def regResult_def Let_def writeBack_sessions stampSession_def)
  have "persists r ?r"
  proof (rule persists_saveI)
    show "r_persist ?r = map_option (Enqueue (saveChanges (r_nextGeneration ?r) ?s ?t ?p False)) (r_persist r)"
      by (simp add: nx) (simp add: regResult_def Let_def r_persist_writeBack)
    fix d assume sv: "saved r d"
    have "saved_tables ?r (saveDb (r_nextGeneration ?r) ?s ?t ?p False d)"
      using sv by (intro saved_tables_saveDb [OF _ sid req(1,2) hs]) (simp add: saved_def)
    moreover have "saved_panes ?r (saveDb (r_nextGeneration ?r) ?s ?t ?p False d)"
      using sv sid req(3) room by (intro saved_panes_put [OF _ _ _ _ _ _ _ lk]) (simp_all add: saved_def hs)
    ultimately show "saved ?r (saveDb (r_nextGeneration ?r) ?s ?t ?p False d)"
      using sv by (simp add: saved_def db_ok_saveDb saved_generation_def saveDb_sel)
  qed
  moreover have "keys_ok ?r" using k req room unfolding keys_ok_def hs lk by auto
  ultimately show ?thesis by simp
qed

text \<open>All calls at once.\<close>

definition keeps_rows :: "time \<Rightarrow> reg_op \<Rightarrow> Registry \<Rightarrow> bool" where
  "keeps_rows now op r \<longleftrightarrow> persists r (fst (reg_step now op r)) \<and> keys_ok (fst (reg_step now op r))"

lemma modify_persists:
  assumes inv: "registry_inv r" and k: "keys_ok r"
    and conc: "fst (reg_step now op r) = (case resolveGeneration r i g of
        Inl e \<Rightarrow> r | Inr (loc, s, t, p) \<Rightarrow> if keep p then r else writeBack now save loc s t (f p) i r)"
    and same: "\<And>p. same_place p (f p)" "\<And>p. p_Generation (f p) = p_Generation p"
      "\<And>p. save \<or> forget (f p) = forget p"
  shows "keeps_rows now op r"
proof (cases rule: resolveGeneration_cases [of r i g])
  case (3 loc s t p)
  show ?thesis
    using writeBack_persists [OF inv k 3(4) same(1,2)] writeBack_unsaved_persists [OF inv k 3(4) same(1,2)]
      same(3) [of p] 3(3) k persists_refl by (cases save) (simp_all add: keeps_rows_def conc)
qed (use conc k persists_refl in \<open>simp_all add: keeps_rows_def\<close>)

lemma status_keeps_rows:
  assumes "registry_inv r" "keys_ok r"
  shows "keeps_rows now (OpStatus i g st m) r" "keeps_rows now (OpActiveStatus i g st m) r"
    "keeps_rows now (OpClaimClosure i g st m) r"
proof -
  show "keeps_rows now (OpStatus i g st m) r"
    by (rule modify_persists [OF assms, where keep = "\<lambda>_. False" and f = "setStatus now st m" and save = True
          and i = i and g = g]) (auto simp: step_defs same_place_def split: sum.splits)
  show "keeps_rows now (OpActiveStatus i g st m) r"
    by (rule modify_persists [OF assms, where keep = "\<lambda>p. isTerminalPaneStatus (p_Status p)"
          and f = "setStatus now st m" and save = True and i = i and g = g])
      (auto simp: step_defs same_place_def split: sum.splits)
  show "keeps_rows now (OpClaimClosure i g st m) r"
    by (rule modify_persists [OF assms, where keep = "\<lambda>_. False" and save = True and i = i and g = g
          and f = "\<lambda>p. (if isTerminalPaneStatus (p_Status p) then p else setStatus now st m p)
                 \<lparr>p_closeNotificationClaimed := True\<rparr>"])
      (auto simp: step_defs same_place_def split: sum.splits)
qed

lemma output_keeps_rows:
  assumes "registry_inv r" "keys_ok r"
  shows "keeps_rows now (OpOutput i g x) r" "keeps_rows now (OpActiveOutput i g x) r"
proof -
  show "keeps_rows now (OpOutput i g x) r"
    by (rule modify_persists [OF assms, where keep = "\<lambda>_. False" and f = "setOutput now x" and save = False
          and i = i and g = g]) (auto simp: step_defs same_place_def forget_def split: sum.splits)
  show "keeps_rows now (OpActiveOutput i g x) r"
    by (rule modify_persists [OF assms, where keep = "\<lambda>p. isTerminalPaneStatus (p_Status p)"
          and f = "setOutput now x" and save = False and i = i and g = g])
      (auto simp: step_defs same_place_def forget_def split: sum.splits)
qed

lemma instruction_keeps_rows:
  assumes inv: "registry_inv r" and k: "keys_ok r"
  shows "keeps_rows now (OpInstruction i g x) r"
proof (cases rule: resolvePanePath_cases [of r i])
  case (2 loc s t p)
  let ?q = "p\<lparr>p_LastInstruction := x, p_LastInstructionAt := now, p_UpdatedAt := now\<rparr>"
  have "same_place p ?q" "p_Generation ?q = p_Generation p" by (simp_all add: same_place_def)
  from writeBack_persists [OF inv k 2(3) this] 2 k persists_refl show ?thesis
    by (auto simp: keeps_rows_def step_defs)
qed (use k persists_refl in \<open>simp add: keeps_rows_def step_defs\<close>)

lemma remove_keeps_rows:
  assumes inv: "registry_inv r" and k: "keys_ok r"
  shows "keeps_rows now (OpRemove i g) r" "keeps_rows now (OpRemoveClaiming i g) r"
proof -
  show "keeps_rows now (OpRemove i g) r"
  proof (cases rule: resolveGeneration_cases [of r i g])
    case (3 loc s t p)
    with removePane_persists [OF inv k 3(4), of p] show ?thesis by (simp add: keeps_rows_def step_defs)
  qed (use k persists_refl in \<open>simp_all add: keeps_rows_def step_defs\<close>)
  show "keeps_rows now (OpRemoveClaiming i g) r"
  proof (cases rule: resolveGeneration_cases [of r i g])
    case (3 loc s t p)
    with removePane_persists [OF inv k 3(4), of "p\<lparr>p_closeNotificationClaimed := True\<rparr>"] show ?thesis
      by (simp add: keeps_rows_def step_defs)
  qed (use k persists_refl in \<open>simp_all add: keeps_rows_def step_defs\<close>)
qed

lemma register_keeps_rows:
  assumes inv: "registry_inv r" and k: "keys_ok r" and room: "r_nextGeneration r + 1 \<noteq> 0"
  shows "keeps_rows now (OpRegister req) r"
proof -
  let ?req = "applyRegisterPaneDefaults req"
  have "persists r (regResult now ?req r) \<and> keys_ok (regResult now ?req r)"
    if "ValidateRegisterPane req = None" "validatePaneUniqueLocked r (rq_ID req) = None"
    using that registered_iff [OF inv]
    by (intro regResult_persists [OF inv k _ defaults_nonempty _ room])
      (auto simp: ValidateRegisterPane_def validatePaneUniqueLocked_def split: option.splits if_splits)
  then show ?thesis using k persists_refl
    by (auto simp: keeps_rows_def ret_pane_def RegisterPane_alt Let_def split: option.splits)
qed

lemma reg_step_keeps_rows:
  assumes "registry_inv r" "keys_ok r" "r_nextGeneration r + 1 \<noteq> 0"
  shows "keeps_rows now op r"
  using assms by (cases op) (auto intro: status_keeps_rows output_keeps_rows instruction_keeps_rows
      remove_keeps_rows register_keeps_rows)

section \<open>The registry and its writer together\<close>

text \<open>Calls of the registry interleaved with passes of the writer's goroutine.\<close>

datatype daemon_op = Call time reg_op | WriterPass "persist_error option"

fun daemon_step :: "daemon_op \<Rightarrow> Registry \<Rightarrow> Registry" where
  "daemon_step (Call now op) r = fst (reg_step now op r)"
| "daemon_step (WriterPass storage) r = r\<lparr>r_persist := map_option (run_iter storage) (r_persist r)\<rparr>"

definition calls :: "daemon_op list \<Rightarrow> (time \<times> reg_op) list" where
  "calls evs = List.map_filter (\<lambda>e. case e of Call now op \<Rightarrow> Some (now, op) | WriterPass _ \<Rightarrow> None) evs"

definition daemon_ok :: "Registry \<Rightarrow> bool" where
  "daemon_ok r \<longleftrightarrow> registry_ok r \<and> keys_ok r \<and>
     (\<exists>w d. r_persist r = Some w \<and> writer_live w \<and> committed_later w = Inr d \<and> saved r d)"

lemma persist_irrelevant [simp]:
  "registry_ok (r\<lparr>r_persist := w\<rparr>) = registry_ok r" "keys_ok (r\<lparr>r_persist := w\<rparr>) = keys_ok r"
  "saved (r\<lparr>r_persist := w\<rparr>) d = saved r d"
proof -
  have at: "paneAt (r\<lparr>r_persist := w\<rparr>) = paneAt r" by (simp add: paneAt_def fun_eq_iff)
  have lk: "lookupPane (r\<lparr>r_persist := w\<rparr>) = lookupPane r"
    by (rule lookupPane_cong(2)) simp_all
  have h: "has_session (r\<lparr>r_persist := w\<rparr>) = has_session r" "has_tab (r\<lparr>r_persist := w\<rparr>) = has_tab r"
    by (simp_all add: has_session_def has_tab_def fun_eq_iff)
  have ra: "reg_abs (r\<lparr>r_persist := w\<rparr>) = reg_abs r" by (simp add: reg_abs_def lk)
  show "registry_ok (r\<lparr>r_persist := w\<rparr>) = registry_ok r"
    unfolding registry_ok_def registry_inv_def struct_ok_def index_ok_def at lk ra by simp
  show "keys_ok (r\<lparr>r_persist := w\<rparr>) = keys_ok r" by (simp add: keys_ok_def h lk)
  show "saved (r\<lparr>r_persist := w\<rparr>) d = saved r d"
    by (simp add: saved_def saved_tables_def saved_panes_def saved_generation_def h lk cong: option.case_cong)
qed

lemma daemon_ok_call:
  assumes ok: "daemon_ok r" and room: "r_nextGeneration r + 1 \<noteq> 0"
  shows "daemon_ok (fst (reg_step now op r))"
proof -
  let ?r = "fst (reg_step now op r)"
  have rok: "registry_ok r" and k: "keys_ok r" using ok by (simp_all add: daemon_ok_def)
  obtain w d where w: "r_persist r = Some w" "writer_live w" "committed_later w = Inr d" "saved r d"
    using ok by (auto simp: daemon_ok_def)
  have inv: "registry_inv r" and si: "spec_inv (reg_abs r)" using rok by (simp_all add: registry_ok_def)
  have "registry_inv ?r" "spec_inv (reg_abs ?r)"
    using reg.ok_step [OF inv, of now op] reg.view_step [OF inv, of now op] spec_inv_step [OF si, of now op] room
    by (simp, metis fst_conv sp_panes_abs(3))
  then have 1: "registry_ok ?r" by (simp add: registry_ok_def)
  obtain cs where cs: "r_persist ?r = map_option (\<lambda>w. if cs = [] then w else Enqueue cs w) (r_persist r)"
    "\<And>d. saved r d \<Longrightarrow> \<exists>d'. apply_changes d cs = Inr d' \<and> saved ?r d'" and k': "keys_ok ?r"
    using reg_step_keeps_rows [OF inv k room, of now op] unfolding keeps_rows_def persists_def by blast
  obtain d' where d': "apply_changes d cs = Inr d'" "saved ?r d'" using cs(2) [OF w(4)] by blast
  have "\<exists>w'. r_persist ?r = Some w' \<and> writer_live w' \<and> committed_later w' = Inr d'"
  proof (cases "cs = []")
    case True
    then show ?thesis using cs(1) w d'(1) by simp
  next
    case False
    then show ?thesis using cs(1) w(1) committed_later_Enqueue [OF w(2,3), of cs] d'(1) by simp
  qed
  then show ?thesis using 1 k' d'(2) by (auto simp: daemon_ok_def)
qed

lemma daemon_ok_pass: "daemon_ok r \<Longrightarrow> daemon_ok (daemon_step (WriterPass storage) r)"
  using committed_later_pass by (fastforce simp: daemon_ok_def)

lemma daemon_ok_run:
  "daemon_ok r \<Longrightarrow> room (length evs) (r_nextGeneration r) \<Longrightarrow> daemon_ok (fold daemon_step evs r)"
proof (induction evs arbitrary: r)
  case (Cons e evs)
  have rm: "room (Suc (length evs)) (sp_next (reg_abs r))" using Cons.prems(2) by simp
  show ?case
  proof (cases e)
    case (Call now op)
    have inv: "registry_inv r" using Cons.prems(1) by (simp add: daemon_ok_def registry_ok_def)
    have "r_nextGeneration (fst (reg_step now op r)) = sp_next (fst (sp_step now op (reg_abs r)))"
      using reg.view_step [OF inv, of now op] by (metis fst_conv sp_panes_abs(3))
    then have "room (length evs) (r_nextGeneration (fst (reg_step now op r)))"
      using room_step(2) [OF rm, of now op] by simp
    with Cons.IH [OF daemon_ok_call [OF Cons.prems(1)]] room_step(1) [OF rm] show ?thesis by (simp add: Call)
  next
    case (WriterPass storage)
    have "room (length evs) (r_nextGeneration r)" using Cons.prems(2) by (simp add: room_def)
    with Cons.IH [OF daemon_ok_pass [OF Cons.prems(1)]] show ?thesis by (simp add: WriterPass)
  qed
qed simp

definition FreshRegistry :: Registry where
  "FreshRegistry = NewRegistry\<lparr>r_persist := Some (OpenWriter (\<lambda>_. []))\<rparr>"

lemma daemon_ok_Fresh: "daemon_ok FreshRegistry"
  using registry_ok_New [of "Some (OpenWriter (\<lambda>_. []))"]
  by (simp add: daemon_ok_def FreshRegistry_def NewRegistry_def keys_ok_def has_session_def has_tab_def lookupPane_def
      writer_live_def committed_later_def OpenWriter_def in_flight_def saved_def saved_tables_def saved_panes_def
      saved_generation_def db_ok_def table_ok_def)


definition error_of :: "'e + 'a \<Rightarrow> 'e option" where
  "error_of x = (case x of Inl e \<Rightarrow> Some e | Inr _ \<Rightarrow> None)"


definition demo_events :: "daemon_op list" where
  "demo_events = [Call 1 (OpRegister (demo_request ''a'' ''t1'')), WriterPass None,
     Call 2 (OpActiveStatus ''a'' 1 PaneStatusRunning [])]"

lemma demo_events_run:
  "\<exists>w. r_persist (fold daemon_step demo_events FreshRegistry) = Some w \<and> length (w_batch w @ w_pending w) < 9"
  "active_unique (reg_abs (fold daemon_step demo_events FreshRegistry))"
proof -
  have "(case r_persist (fold daemon_step demo_events FreshRegistry) of None \<Rightarrow> False
     | Some w \<Rightarrow> length (w_batch w @ w_pending w) < 9)" by code_simp
  then show "\<exists>w. r_persist (fold daemon_step demo_events FreshRegistry) = Some w \<and> length (w_batch w @ w_pending w) < 9"
    by (simp split: option.splits)
  have "list_all (\<lambda>p. p_ID p = ''a'') (ListPanes (fold daemon_step demo_events FreshRegistry))" by code_simp
  moreover have "daemon_ok (fold daemon_step demo_events FreshRegistry)"
    by (rule daemon_ok_run [OF daemon_ok_Fresh]) (simp add: room_def demo_events_def FreshRegistry_def NewRegistry_def)
  then have inv: "registry_inv (fold daemon_step demo_events FreshRegistry)"
    by (simp add: daemon_ok_def registry_ok_def)
  ultimately have "p_ID p = ''a''" if "lookupPane (fold daemon_step demo_events FreshRegistry) i = Some p" for i p
    using set_all_panes [OF inv] that by (auto simp: ListPanes_def list_all_iff ran_def)
  moreover have "p_ID p = i" if "lookupPane (fold daemon_step demo_events FreshRegistry) i = Some p" for i p
    using inv lookupPane_ids(1) [OF _ that] by (simp add: registry_inv_def)
  ultimately have "i = ''a''" if "lookupPane (fold daemon_step demo_events FreshRegistry) i = Some p" for i p
    using that by metis
  then show "active_unique (reg_abs (fold daemon_step demo_events FreshRegistry))"
    unfolding active_unique_def active_holder_def sp_panes_abs by blast
qed


theorem restored_registry_consistent_witness:
  "\<exists>r. NewPersistent (OpenWriter (\<lambda>_. [])) = Inr r \<and> loaded_ok r"
proof -
  have "\<exists>r. NewPersistent (OpenWriter (\<lambda>_. [])) = Inr r"
    by (simp add: NewPersistent_def bindR_def loadTable_def Load_def validTable_def tables_def OpenWriter_def)
  then obtain r where r: "NewPersistent (OpenWriter (\<lambda>_. [])) = Inr r" ..
  have "db_ok (w_db (OpenWriter (\<lambda>_. [])))" by (simp add: db_ok_def table_ok_def OpenWriter_def)
  from restored_registry_consistent [OF this r] r show ?thesis by blast
qed

end
