(* ===== verification/Runtime_Text.thy ===== *)
theory Runtime_Text
  imports Registry EventBus
begin

text \<open>
  The text processing of the runtime: \<^verbatim>\<open>src/internal/runtime/parser.go\<close> (frames of
  \<open>zellij subscribe\<close>, semantic events from rendered text) and
  \<^verbatim>\<open>src/internal/runtime/marker_watch.go\<close> (waiting for a marker line).

  A line's JSON is decoded by the argument \<open>decode\<close> to a value of the type \<open>json\<close>, whose
  numbers keep their literal; what \<open>json.Unmarshal\<close> makes of a value for the struct and the
  types at hand is written out below.
\<close>

section \<open>JSON values and how they are unmarshalled\<close>

datatype json =
    JNull | JBool bool | JNumber string | JString string | JArray "json list"
  | JObject "(string \<times> json) list"

text \<open>The digits of a non-negative number, \<open>None\<close> for anything else.\<close>

fun digits_value :: "nat \<Rightarrow> string \<Rightarrow> nat option" where
  "digits_value acc [] = Some acc"
| "digits_value acc (c # cs) =
     (if CHR ''0'' \<le> c \<and> c \<le> CHR ''9'' then digits_value (10 * acc + (of_char c - 48)) cs else None)"

text \<open>\<open>strconv.ParseInt(s, 10, 64)\<close> on a JSON number literal.\<close>

definition parseInt64 :: "string \<Rightarrow> int option" where
  "parseInt64 s =
     (let neg = (case s of c # _ \<Rightarrow> c = CHR ''-'' | [] \<Rightarrow> False);
          ds = (if neg then tl s else s)
      in if ds = [] then None
         else case digits_value 0 ds of
           None \<Rightarrow> None
         | Some n \<Rightarrow> let i = (if neg then - int n else int n)
                     in if - (2 ^ 63) \<le> i \<and> i < 2 ^ 63 then Some i else None)"

text \<open>Into a \<open>string\<close>: null leaves the old value; other types are errors.\<close>

fun into_string :: "json \<Rightarrow> string \<Rightarrow> string option" where
  "into_string JNull old = Some old"
| "into_string (JString s) old = Some s"
| "into_string _ old = None"

fun into_strings :: "json \<Rightarrow> string list \<Rightarrow> string list option" where
  "into_strings JNull old = Some []"
| "into_strings (JArray vs) old = those (map (\<lambda>v. into_string v []) vs)"
| "into_strings _ old = None"

record subscribeEnvelope =
  env_Name :: string
  env_Type :: string
  env_Event :: string
  env_PaneID :: "json option"
  env_Viewport :: "string list"
  env_Scrollback :: "string list"
  env_Lines :: "string list"
  env_Content :: string

definition emptyEnvelope :: subscribeEnvelope where
  "emptyEnvelope = \<lparr>env_Name = [], env_Type = [], env_Event = [], env_PaneID = None, env_Viewport = [],
     env_Scrollback = [], env_Lines = [], env_Content = []\<rparr>"

text \<open>One member of an object; a key matches a field's name up to the case of its letters.\<close>

definition set_member :: "string \<times> json \<Rightarrow> subscribeEnvelope \<Rightarrow> subscribeEnvelope option" where
  "set_member m env =
     (let (key, v) = m; k = ToLower key in
      if k = ''name'' then map_option (\<lambda>s. env\<lparr>env_Name := s\<rparr>) (into_string v (env_Name env))
      else if k = ''type'' then map_option (\<lambda>s. env\<lparr>env_Type := s\<rparr>) (into_string v (env_Type env))
      else if k = ''event'' then map_option (\<lambda>s. env\<lparr>env_Event := s\<rparr>) (into_string v (env_Event env))
      else if k = ''pane_id'' then Some (env\<lparr>env_PaneID := Some v\<rparr>)
      else if k = ''viewport'' then map_option (\<lambda>s. env\<lparr>env_Viewport := s\<rparr>) (into_strings v (env_Viewport env))
      else if k = ''scrollback'' then map_option (\<lambda>s. env\<lparr>env_Scrollback := s\<rparr>) (into_strings v (env_Scrollback env))
      else if k = ''lines'' then map_option (\<lambda>s. env\<lparr>env_Lines := s\<rparr>) (into_strings v (env_Lines env))
      else if k = ''content'' then map_option (\<lambda>s. env\<lparr>env_Content := s\<rparr>) (into_string v (env_Content env))
      else Some env)"

fun set_members :: "(string \<times> json) list \<Rightarrow> subscribeEnvelope \<Rightarrow> subscribeEnvelope option" where
  "set_members [] env = Some env"
| "set_members (m # ms) env = (case set_member m env of None \<Rightarrow> None | Some env' \<Rightarrow> set_members ms env')"

fun unmarshalEnvelope :: "json \<Rightarrow> subscribeEnvelope option" where
  "unmarshalEnvelope (JObject ms) = set_members ms emptyEnvelope"
| "unmarshalEnvelope JNull = Some emptyEnvelope"
| "unmarshalEnvelope _ = None"

section \<open>Frames\<close>

datatype ParsedSubscribeKind =
    ParsedSubscribeUnknown | ParsedSubscribePaneUpdate | ParsedSubscribePaneClosed

record ParsedSubscribeLine =
  pl_Kind :: ParsedSubscribeKind
  pl_ZellijPaneID :: string
  pl_RenderedText :: string

definition unknownLine :: ParsedSubscribeLine where
  "unknownLine = \<lparr>pl_Kind = ParsedSubscribeUnknown, pl_ZellijPaneID = [], pl_RenderedText = []\<rparr>"

definition parseSubscribePaneID :: "json option \<Rightarrow> string" where
  "parseSubscribePaneID raw =
     (case raw of
        Some (JString s) \<Rightarrow> TrimSpace s
      | Some (JNumber lit) \<Rightarrow> (case parseInt64 lit of Some n \<Rightarrow> ''terminal_'' @ Itoa n | None \<Rightarrow> [])
      | _ \<Rightarrow> [])"

text \<open>The builder's loop: its text and whether a line was written.\<close>

fun writeBlock :: "string list \<Rightarrow> string \<times> bool \<Rightarrow> string \<times> bool" where
  "writeBlock [] (b, first) = (b, first)"
| "writeBlock (s # ss) (b, first) =
     writeBlock ss (b @ (if first then [] else [NL]) @ TrimRightByte CR s, False)"

definition joinSubscribeText :: "string list \<Rightarrow> string list \<Rightarrow> string list \<Rightarrow> string \<Rightarrow> string" where
  "joinSubscribeText viewport scrollback lines content =
     (let (b, _) = writeBlock lines (writeBlock viewport (writeBlock scrollback ([], True)))
      in if TrimSpace content \<noteq> [] then (if b \<noteq> [] then b @ [NL] else b) @ content else b)"

text \<open>\<open>Inl\<close> is the error of the JSON decoder.\<close>

definition ParseSubscribeNDJSONLine :: "(string \<Rightarrow> json option) \<Rightarrow> string \<Rightarrow> unit + ParsedSubscribeLine" where
  "ParseSubscribeNDJSONLine decode line0 =
     (let line = TrimSpace line0 in
      if line = [] then Inr unknownLine
      else case Option.bind (decode line) unmarshalEnvelope of
        None \<Rightarrow> Inl ()
      | Some env \<Rightarrow>
          let kind1 = env_Name env;
              kind2 = (if kind1 = [] then env_Type env else kind1);
              kind3 = (if kind2 = [] then env_Event env else kind2);
              kind = ToLower kind3;
              paneID = parseSubscribePaneID (env_PaneID env)
          in Inr (if kind = ''pane_update'' \<or> kind = ''paneupdate'' then
                    \<lparr>pl_Kind = ParsedSubscribePaneUpdate, pl_ZellijPaneID = paneID,
                     pl_RenderedText = joinSubscribeText (env_Viewport env) (env_Scrollback env)
                       (env_Lines env) (env_Content env)\<rparr>
                  else if kind = ''pane_closed'' \<or> kind = ''paneclosed'' then
                    \<lparr>pl_Kind = ParsedSubscribePaneClosed, pl_ZellijPaneID = paneID, pl_RenderedText = []\<rparr>
                  else if TrimSpace (env_Content env) \<noteq> [] \<and> paneID \<noteq> [] then
                    \<lparr>pl_Kind = ParsedSubscribePaneUpdate, pl_ZellijPaneID = paneID,
                     pl_RenderedText = env_Content env\<rparr>
                  else unknownLine))"

section \<open>Semantic events\<close>

definition trimSnippet :: "string \<Rightarrow> nat \<Rightarrow> string" where
  "trimSnippet s0 maxLen = (let s = TrimSpace s0 in if length s \<le> maxLen then s else take maxLen s @ ''...'')"

definition TAB :: char where "TAB = CHR 0x09"

definition looksReady :: "string \<Rightarrow> bool" where
  "looksReady text \<longleftrightarrow> (let lower = ToLower text in
     Contains lower ''listening on '' \<or> Contains lower ''server listening'' \<or>
     Contains lower ''accepting connections'' \<or> Contains text '':3000'' \<or>
     Contains lower '' ready '' \<or> HasSuffix lower '' ready'')"

definition looksFailed :: "string \<Rightarrow> bool" where
  "looksFailed text \<longleftrightarrow> Contains text ''--- FAIL:'' \<or> Contains text ([NL] @ ''FAIL'' @ [TAB]) \<or>
     Contains text ([NL] @ ''FAIL '')"

definition looksPassed :: "string \<Rightarrow> bool" where
  "looksPassed text \<longleftrightarrow> Contains text ''--- PASS:'' \<or> Contains text ([NL] @ ''PASS'' @ [TAB]) \<or>
     Contains text ([NL] @ ''ok '')"

definition SemanticEventsFromText :: "string \<Rightarrow> Event \<Rightarrow> Event list" where
  "SemanticEventsFromText text0 rawEvt =
     (let text = TrimSpace text0;
          tagged = (\<lambda>ty. rawEvt\<lparr>ev_Type := ty, ev_Message := trimSnippet text 512\<rparr>)
      in if text = [] then []
         else (if looksReady text then [tagged TypeServerReady] else []) @
              (if looksFailed text then [tagged TypeTestFailed] else []) @
              (if looksPassed text then [tagged TypeTestPassed] else []))"

section \<open>Waiting for a marker\<close>

definition markerMatches :: "string \<Rightarrow> bool \<Rightarrow> string \<Rightarrow> bool" where
  "markerMatches marker matchPrefix line \<longleftrightarrow>
     (\<not> matchPrefix \<and> line = marker) \<or> (matchPrefix \<and> HasPrefix line marker)"

definition findMarkerLine :: "string \<Rightarrow> string \<Rightarrow> bool \<Rightarrow> string option" where
  "findMarkerLine text marker matchPrefix =
     find (markerMatches marker matchPrefix) (map TrimSpace (scanLines text))"

section \<open>Lemmas\<close>

lemma writeBlock_append: "writeBlock ys (writeBlock xs st) = writeBlock (xs @ ys) st"
  by (induction xs arbitrary: st) (auto split: prod.splits)

lemma writeBlock_started:
  "fst (writeBlock ls (b, False)) = b @ concat (map (\<lambda>s. NL # TrimRightByte CR s) ls)"
  by (induction ls arbitrary: b) auto

lemma Join_Cons: "Join (p # ps) [c] = p @ concat (map (\<lambda>q. c # q) ps)"
  by (induction ps arbitrary: p) auto

lemma writeBlock_Join: "fst (writeBlock ls ([], True)) = Join (map (TrimRightByte CR) ls) [NL]"
  by (cases ls) (simp_all add: writeBlock_started Join_Cons comp_def)

lemma Join_snoc: "ps \<noteq> [] \<Longrightarrow> Join (ps @ [q]) [c] = Join ps [c] @ c # q"
  by (cases ps) (simp_all add: Join_Cons)

lemma Join_eq_Nil: "Join ps [c] = [] \<longleftrightarrow> ps = [] \<or> ps = [[]]"
  by (cases ps) (auto simp: Join_Cons)

text \<open>
  The text of a frame is its scrollback, viewport and extra lines, stripped of trailing
  carriage returns, then its content unless blank, joined by newlines. (When the lines are one
  empty line the newline before the content is missing.)
\<close>

theorem joinSubscribeText_is_join:
  "joinSubscribeText viewport scrollback lines content =
     (let ls = map (TrimRightByte CR) (scrollback @ viewport @ lines);
          blank = TrimSpace content = []
      in if ls = [[]] then (if blank then [] else content)
         else Join (ls @ (if blank then [] else [content])) [NL])"
proof -
  let ?ls = "map (TrimRightByte CR) (scrollback @ viewport @ lines)"
  have "fst (writeBlock lines (writeBlock viewport (writeBlock scrollback ([], True)))) = Join ?ls [NL]"
    by (simp add: writeBlock_append writeBlock_Join del: map_append)
  then have "joinSubscribeText viewport scrollback lines content =
      (if TrimSpace content \<noteq> [] then (if Join ?ls [NL] \<noteq> [] then Join ?ls [NL] @ [NL] else Join ?ls [NL]) @ content
       else Join ?ls [NL])"
    by (simp add: joinSubscribeText_def case_prod_beta Let_def)
  then show ?thesis unfolding Join_eq_Nil
    by (cases "?ls = []") (auto simp: Let_def Join_snoc simp del: map_append)
qed

lemma length_trimSnippet: "length (trimSnippet s n) \<le> n + 3"
  by (simp add: trimSnippet_def Let_def)

text \<open>
  Text classification: the events derived from a text are, in this order and each at most
  once, those whose patterns the trimmed text shows; each keeps the pane's identifiers and
  carries at most 515 bytes of the text.
\<close>

theorem semantic_events_classify:
  "let out = SemanticEventsFromText text e; t = TrimSpace text in
     map ev_Type out = (if t = [] then [] else
       (if looksReady t then [TypeServerReady] else []) @ (if looksFailed t then [TypeTestFailed] else []) @
       (if looksPassed t then [TypeTestPassed] else [])) \<and>
     list_all (\<lambda>x. ev_PaneID x = ev_PaneID e \<and> ev_TaskID x = ev_TaskID e \<and> ev_AgentID x = ev_AgentID e \<and>
       ev_ZellijPaneID x = ev_ZellijPaneID e \<and> ev_Time x = ev_Time e \<and> length (ev_Message x) \<le> 515) out"
  using length_trimSnippet [of "TrimSpace text" 512]
  by (simp add: SemanticEventsFromText_def Let_def)

text \<open>
  A marker is found exactly when one of the scanned lines, trimmed, matches it; the line
  returned is the first such line and itself matches.
\<close>

theorem findMarkerLine_first:
  "findMarkerLine text marker pre = Some line \<longleftrightarrow>
     (\<exists>before after. map TrimSpace (scanLines text) = before @ line # after \<and>
        markerMatches marker pre line \<and> list_all (\<lambda>l. \<not> markerMatches marker pre l) before)"
proof
  assume "findMarkerLine text marker pre = Some line"
  then obtain i where i: "i < length (map TrimSpace (scanLines text))"
    "markerMatches marker pre (map TrimSpace (scanLines text) ! i)" "line = map TrimSpace (scanLines text) ! i"
    "\<forall>j<i. \<not> markerMatches marker pre (map TrimSpace (scanLines text) ! j)"
    unfolding findMarkerLine_def find_Some_iff by blast
  let ?ls = "map TrimSpace (scanLines text)"
  have "?ls = take i ?ls @ line # drop (Suc i) ?ls" using i(1,3) id_take_nth_drop by blast
  moreover have "list_all (\<lambda>l. \<not> markerMatches marker pre l) (take i ?ls)"
    using i(1,4) by (auto simp: list_all_iff in_set_conv_nth)
  ultimately show "\<exists>before after. ?ls = before @ line # after \<and>
        markerMatches marker pre line \<and> list_all (\<lambda>l. \<not> markerMatches marker pre l) before"
    using i(2,3) by blast
next
  assume "\<exists>before after. map TrimSpace (scanLines text) = before @ line # after \<and>
        markerMatches marker pre line \<and> list_all (\<lambda>l. \<not> markerMatches marker pre l) before"
  then obtain before after where ba: "map TrimSpace (scanLines text) = before @ line # after"
    "markerMatches marker pre line" "list_all (\<lambda>l. \<not> markerMatches marker pre l) before" by blast
  have "find P (xs @ y # zs) = Some y" if "P y" "list_all (\<lambda>l. \<not> P l) xs" for P :: "string \<Rightarrow> bool" and xs y zs
    using that by (induction xs) auto
  then show "findMarkerLine text marker pre = Some line" unfolding findMarkerLine_def ba(1) using ba(2,3) by simp
qed

end
