(* ===== verification/Runtime_Manager.thy ===== *)
theory Runtime_Manager
  imports Runtime_Text
begin

text \<open>
  The subscription manager's own state, \<^verbatim>\<open>src/internal/runtime/subscriptions.go\<close>: one
  \<open>zellij subscribe\<close> process per managed pane generation. A subscription is an object shared by
  the manager's map and its worker goroutine; the map holds its index in \<open>sm_objects\<close>. The
  critical sections of the manager are the steps \<open>sub_step\<close>, and whatever their order there is
  one live subscription per pane.

  The channel of capacity one between the reader of a process's output and the worker, with its
  rule of which frame may replace which, is the step relation \<open>channel_step\<close>.
\<close>

section \<open>The manager's state\<close>

text \<open>Subscriptions are objects: the manager's map holds their numbers.\<close>

type_synonym subscriptionKey = "PaneID \<times> uint64"

record paneSubscription =
  sub_key :: subscriptionKey
  sub_cancelled :: bool
  sub_done :: bool

record SubscriptionManager =
  sm_closed :: bool
  sm_cancelByPaneID :: "(PaneID, nat) gomap"
  sm_objects :: "paneSubscription list"
  sm_lastRendered :: "(subscriptionKey, string) gomap"
  sm_running :: "(nat \<times> PaneRecord) list"

definition NewSubscriptionManager :: SubscriptionManager where
  "NewSubscriptionManager = \<lparr>sm_closed = False, sm_cancelByPaneID = [], sm_objects = [], sm_lastRendered = [],
     sm_running = []\<rparr>"

definition sub_of :: "SubscriptionManager \<Rightarrow> nat \<Rightarrow> paneSubscription" where
  "sub_of m n = (if n < length (sm_objects m) then sm_objects m ! n
     else \<lparr>sub_key = ([], 0), sub_cancelled = True, sub_done = True\<rparr>)"

definition cancelSub :: "nat \<Rightarrow> SubscriptionManager \<Rightarrow> SubscriptionManager" where
  "cancelSub n m = m\<lparr>sm_objects := (sm_objects m)[n := (sub_of m n)\<lparr>sub_cancelled := True\<rparr>]\<rparr>"

definition closeDone :: "nat \<Rightarrow> SubscriptionManager \<Rightarrow> SubscriptionManager" where
  "closeDone n m = m\<lparr>sm_objects := (sm_objects m)[n := (sub_of m n)\<lparr>sub_done := True\<rparr>]\<rparr>"

definition takeSubscription :: "PaneID \<Rightarrow> nat option \<Rightarrow> SubscriptionManager \<Rightarrow> SubscriptionManager \<times> nat option" where
  "takeSubscription i expected m =
     (case mget (sm_cancelByPaneID m) i of
        None \<Rightarrow> (m, None)
      | Some current \<Rightarrow>
          if expected \<noteq> None \<and> expected \<noteq> Some current then (m, None)
          else (m\<lparr>sm_cancelByPaneID := mdel (sm_cancelByPaneID m) i,
                  sm_lastRendered := mdel (sm_lastRendered m) (sub_key (sub_of m current))\<rparr>, Some current))"

definition stopPaneGeneration :: "PaneID \<Rightarrow> uint64 \<Rightarrow> SubscriptionManager \<Rightarrow> SubscriptionManager" where
  "stopPaneGeneration i generation m =
     (case mget (sm_cancelByPaneID m) i of
        None \<Rightarrow> m
      | Some n \<Rightarrow>
          if generation \<noteq> 0 \<and> snd (sub_key (sub_of m n)) \<noteq> generation then m
          else cancelSub n (m\<lparr>sm_cancelByPaneID := mdel (sm_cancelByPaneID m) i,
                 sm_lastRendered := mdel (sm_lastRendered m) (sub_key (sub_of m n))\<rparr>))"

text \<open>The first critical section of \<open>startRecord\<close>: install the subscription of a captured record.\<close>

datatype install = Installed nat "nat option" | Refused | Retry

definition installSubscription :: "PaneRecord \<Rightarrow> SubscriptionManager \<Rightarrow> SubscriptionManager \<times> install" where
  "installSubscription record m =
     (let existing = mget (sm_cancelByPaneID m) (p_ID record);
          gen = (\<lambda>n. snd (sub_key (sub_of m n)))
      in if sm_closed m then (m, Refused)
         else if existing \<noteq> None \<and> gen (the existing) = p_Generation record then (m, Refused)
         else if existing \<noteq> None \<and> p_Generation record < gen (the existing) then (m, Retry)
         else let n = length (sm_objects m);
                  sub = \<lparr>sub_key = (p_ID record, p_Generation record), sub_cancelled = False, sub_done = False\<rparr>
              in (m\<lparr>sm_objects := sm_objects m @ [sub],
                    sm_cancelByPaneID := mput (sm_cancelByPaneID m) (p_ID record) n\<rparr>, Installed n existing))"

text \<open>What \<open>startRecord\<close> does with its subscription when the pane's generation has moved on.\<close>

definition abandonSubscription :: "PaneID \<Rightarrow> nat \<Rightarrow> SubscriptionManager \<Rightarrow> SubscriptionManager" where
  "abandonSubscription i n m = closeDone n (cancelSub n (fst (takeSubscription i (Some n) m)))"

definition cancelAll :: "nat list \<Rightarrow> SubscriptionManager \<Rightarrow> SubscriptionManager" where
  "cancelAll ns m = fold cancelSub ns m"

text \<open>A frame is a parsed line or the error of parsing it.\<close>

type_synonym frame = "unit + ParsedSubscribeLine"

text \<open>The frames the reader offers for the lines of a process's output, in \<open>readLatestSubscribeFrames\<close>.\<close>

definition readSubscribeFrames :: "(string \<Rightarrow> json option) \<Rightarrow> string list \<Rightarrow> frame list" where
  "readSubscribeFrames decode lines =
     filter (\<lambda>f. case f of
         Inl _ \<Rightarrow> True
       | Inr l \<Rightarrow> pl_Kind l \<noteq> ParsedSubscribeUnknown \<or> pl_RenderedText l \<noteq> [] \<or> pl_ZellijPaneID l \<noteq> [])
       (map (ParseSubscribeNDJSONLine decode) (filter (\<lambda>l. l \<noteq> []) lines))"

section \<open>The reader's channel\<close>

text \<open>
  The channel between the reader and the worker holds one frame. The reader
  tries to put a frame, may take the waiting frame out, and puts frames back; the worker
  receives at any moment. The reader's program counter:
\<close>

datatype reader =
    Idle
  | Trying frame
  | Holding frame frame
  | Putting "frame list"

definition isUpdate :: "frame \<Rightarrow> bool" where
  "isUpdate f = (case f of Inl _ \<Rightarrow> False | Inr l \<Rightarrow> pl_Kind l = ParsedSubscribePaneUpdate)"

text \<open>
  \<open>reader_step slot pc\<close> is one select statement or one send of \<open>offerSubscribeFrame\<close>. A send to
  a full channel blocks: it leaves everything as it is.
\<close>

fun reader_step :: "frame option \<Rightarrow> reader \<Rightarrow> frame option \<times> reader" where
  "reader_step slot Idle = (slot, Idle)"
| "reader_step None (Trying f) = (Some f, Idle)"
| "reader_step (Some pending) (Trying f) = (None, Holding f pending)"
| "reader_step slot (Holding f pending) =
     (if \<not> isUpdate pending then (slot, Putting (if isUpdate f then [pending] else [pending, f]))
      else (slot, Trying f))"
| "reader_step None (Putting (f # fs)) = (Some f, Putting fs)"
| "reader_step (Some x) (Putting (f # fs)) = (Some x, Putting (f # fs))"
| "reader_step slot (Putting []) = (slot, Idle)"

record channel =
  k_slot :: "frame option"
  k_reader :: reader
  k_offered :: "frame list"
  k_received :: "frame list"

inductive channel_step :: "channel \<Rightarrow> channel \<Rightarrow> bool" where
  offer: "k_reader k = Idle \<Longrightarrow> channel_step k (k\<lparr>k_reader := Trying f, k_offered := k_offered k @ [f]\<rparr>)"
| reader: "reader_step (k_slot k) (k_reader k) = (slot, pc) \<Longrightarrow> channel_step k (k\<lparr>k_slot := slot, k_reader := pc\<rparr>)"
| receive: "k_slot k = Some f \<Longrightarrow> channel_step k (k\<lparr>k_slot := None, k_received := k_received k @ [f]\<rparr>)"

definition emptyChannel :: channel where
  "emptyChannel = \<lparr>k_slot = None, k_reader = Idle, k_offered = [], k_received = []\<rparr>"

inductive channel_reach :: "channel \<Rightarrow> bool" where
  init: "channel_reach emptyChannel"
| step: "channel_reach k \<Longrightarrow> channel_step k k' \<Longrightarrow> channel_reach k'"

text \<open>The frames the reader still holds, in the order it will deliver them.\<close>

fun in_hand :: "reader \<Rightarrow> frame list" where
  "in_hand Idle = []"
| "in_hand (Trying f) = [f]"
| "in_hand (Holding f pending) = [pending, f]"
| "in_hand (Putting fs) = fs"

definition controls :: "frame list \<Rightarrow> frame list" where
  "controls = filter (\<lambda>f. \<not> isUpdate f)"

definition channel_inv :: "channel \<Rightarrow> bool" where
  "channel_inv k \<longleftrightarrow>
     controls (k_offered k) = controls (k_received k @ (case k_slot k of None \<Rightarrow> [] | Some f \<Rightarrow> [f]) @ in_hand (k_reader k)) \<and>
     (case k_reader k of Holding f p \<Rightarrow> k_slot k = None
       | Putting fs \<Rightarrow> \<forall>f \<in> set fs. \<not> isUpdate f | _ \<Rightarrow> True)"

lemma channel_inv_step: "channel_step k k' \<Longrightarrow> channel_inv k \<Longrightarrow> channel_inv k'"
proof (induction rule: channel_step.induct)
  case (reader k slot pc)
  then show ?case
    by (cases "k_reader k"; cases "k_slot k")
      (auto simp: channel_inv_def controls_def split: if_splits option.splits reader.splits list.splits
        elim!: reader_step.elims)
qed (auto simp: channel_inv_def controls_def split: option.splits reader.splits)

lemma channel_inv_reach: "channel_reach k \<Longrightarrow> channel_inv k"
proof (induction rule: channel_reach.induct)
  case init
  then show ?case by (simp add: channel_inv_def emptyChannel_def)
next
  case (step k k')
  then show ?case by (blast intro: channel_inv_step)
qed



section \<open>One subscription per pane\<close>

text \<open>The manager's critical sections, as steps of the manager alone.\<close>

datatype sub_op =
    SInstall PaneRecord | STake PaneID nat | SStop PaneID uint64 | SRender subscriptionKey string
  | SDone nat | SClose | SRun nat PaneRecord | SAbandon PaneID nat

fun sub_step :: "sub_op \<Rightarrow> SubscriptionManager \<Rightarrow> SubscriptionManager" where
  "sub_step (SInstall record) m =
     (case installSubscription record m of
        (m1, Installed n existing) \<Rightarrow> (case existing of None \<Rightarrow> m1 | Some e \<Rightarrow> cancelSub e m1)
      | _ \<Rightarrow> m)"
| "sub_step (STake i n) m =
     (case takeSubscription i (Some n) m of (m', Some owned) \<Rightarrow> cancelSub owned m' | (_, None) \<Rightarrow> m)"
| "sub_step (SStop i g) m = stopPaneGeneration i g m"
| "sub_step (SRender key text) m = m\<lparr>sm_lastRendered := mput (sm_lastRendered m) key text\<rparr>"
| "sub_step (SDone n) m = closeDone n m"
| "sub_step SClose m = (cancelAll (map snd (sm_cancelByPaneID m)) m)
     \<lparr>sm_closed := True, sm_cancelByPaneID := [], sm_lastRendered := []\<rparr>"
| "sub_step (SRun n record) m = m\<lparr>sm_running := sm_running m @ [(n, record)]\<rparr>"
| "sub_step (SAbandon i n) m =
     (if n < length (sm_objects m) \<and> fst (sub_key (sm_objects m ! n)) = i then abandonSubscription i n m else m)"

definition live_sub :: "SubscriptionManager \<Rightarrow> nat \<Rightarrow> bool" where
  "live_sub m n \<longleftrightarrow> n < length (sm_objects m) \<and> \<not> sub_cancelled (sm_objects m ! n)"

text \<open>The map holds exactly the live subscriptions, each under its pane.\<close>

definition sub_inv :: "SubscriptionManager \<Rightarrow> bool" where
  "sub_inv m \<longleftrightarrow> mapok (sm_cancelByPaneID m) \<and>
     (\<forall>i n. mget (sm_cancelByPaneID m) i = Some n \<longleftrightarrow> live_sub m n \<and> fst (sub_key (sm_objects m ! n)) = i)"

lemma length_cancelSub [simp]: "length (sm_objects (cancelSub n m)) = length (sm_objects m)"
  "length (sm_objects (closeDone n m)) = length (sm_objects m)"
  by (simp_all add: cancelSub_def closeDone_def)

lemma cancelSub_fields [simp]:
  "sm_cancelByPaneID (cancelSub n m) = sm_cancelByPaneID m" "sm_closed (cancelSub n m) = sm_closed m"
  "sm_cancelByPaneID (closeDone n m) = sm_cancelByPaneID m"
  by (simp_all add: cancelSub_def closeDone_def)

lemma live_sub_cancel: "live_sub (cancelSub n m) k \<longleftrightarrow> live_sub m k \<and> k \<noteq> n"
  by (cases "n < length (sm_objects m)") (auto simp: live_sub_def cancelSub_def nth_list_update)

lemma sub_key_cancel [simp]: "k < length (sm_objects m) \<Longrightarrow> sub_key (sm_objects (cancelSub n m) ! k) = sub_key (sm_objects m ! k)"
  by (cases "n = k") (auto simp: cancelSub_def sub_of_def)

lemma live_sub_objects: "sm_objects m' = sm_objects m \<Longrightarrow> live_sub m' = live_sub m"
  by (simp add: live_sub_def fun_eq_iff)

lemma sub_inv_drop:
  assumes inv: "sub_inv m" and n: "mget (sm_cancelByPaneID m) i = Some n"
  shows "sub_inv (cancelSub n (m\<lparr>sm_cancelByPaneID := mdel (sm_cancelByPaneID m) i, sm_lastRendered := lr\<rparr>))"
proof -
  let ?m = "m\<lparr>sm_cancelByPaneID := mdel (sm_cancelByPaneID m) i, sm_lastRendered := lr\<rparr>"
  have l: "live_sub ?m = live_sub m" by (rule live_sub_objects) simp
  have ok: "mapok (sm_cancelByPaneID m)"
    and iff: "\<And>j k. mget (sm_cancelByPaneID m) j = Some k \<longleftrightarrow> live_sub m k \<and> fst (sub_key (sm_objects m ! k)) = j"
    using inv by (simp_all add: sub_inv_def)
  have "mget (sm_cancelByPaneID (cancelSub n ?m)) j = Some k \<longleftrightarrow>
      live_sub (cancelSub n ?m) k \<and> fst (sub_key (sm_objects (cancelSub n ?m) ! k)) = j" for j k
  proof (cases "k < length (sm_objects m)")
    case True
    then show ?thesis using iff [of j k] iff [of i n] iff [of i k] n ok unfolding live_sub_cancel l by auto
  next
    case False
    then have "\<not> live_sub m k" by (simp add: live_sub_def)
    then show ?thesis using iff [of j k] ok unfolding live_sub_cancel l by auto
  qed
  then show ?thesis using ok by (simp add: sub_inv_def)
qed

lemma sub_inv_take: "sub_inv m \<Longrightarrow> sub_inv (sub_step (STake i n) m)"
  using sub_inv_drop by (auto simp: takeSubscription_def split: option.splits)

lemma sub_inv_stop: "sub_inv m \<Longrightarrow> sub_inv (stopPaneGeneration i g m)"
  using sub_inv_drop by (auto simp: stopPaneGeneration_def split: option.splits)

lemma sub_inv_install:
  assumes inv: "sub_inv m"
  shows "sub_inv (sub_step (SInstall r) m)"
proof (cases "installSubscription r m")
  case (Pair m1 res)
  show ?thesis
  proof (cases res)
    case (Installed n existing)
    let ?sub = "\<lparr>sub_key = (p_ID r, p_Generation r), sub_cancelled = False, sub_done = False\<rparr>"
    have m1: "m1 = m\<lparr>sm_objects := sm_objects m @ [?sub], sm_cancelByPaneID := mput (sm_cancelByPaneID m) (p_ID r) n\<rparr>"
      "n = length (sm_objects m)" "existing = mget (sm_cancelByPaneID m) (p_ID r)"
      using Pair Installed by (auto simp: installSubscription_def Let_def split: if_splits)
    have l1: "live_sub m1 k \<longleftrightarrow> live_sub m k \<or> k = n" for k
      by (auto simp: live_sub_def m1 nth_append)
    have k1: "k < n \<Longrightarrow> sm_objects m1 ! k = sm_objects m ! k" "sm_objects m1 ! n = ?sub" for k
      by (simp_all add: m1 nth_append)
    have ok: "mapok (sm_cancelByPaneID m)"
      and iff: "\<And>i k. mget (sm_cancelByPaneID m) i = Some k \<longleftrightarrow> live_sub m k \<and> fst (sub_key (sm_objects m ! k)) = i"
      using inv by (simp_all add: sub_inv_def)
    have lt: "live_sub m k \<Longrightarrow> k < n" for k by (simp add: live_sub_def m1(2))
    have len: "length (sm_objects m1) = Suc n" by (simp add: m1)
    show ?thesis
    proof (cases existing)
      case None
      have "mget (sm_cancelByPaneID m1) i = Some k \<longleftrightarrow> live_sub m1 k \<and> fst (sub_key (sm_objects m1 ! k)) = i" for i k
        using iff [of i k] iff [of "p_ID r" k] None lt [of k] k1 unfolding l1
        by (auto simp: m1)
      then show ?thesis using Pair Installed None ok by (simp add: sub_inv_def m1)
    next
      case (Some e)
      have "mget (sm_cancelByPaneID m1) i = Some k \<longleftrightarrow>
          live_sub (cancelSub e m1) k \<and> fst (sub_key (sm_objects (cancelSub e m1) ! k)) = i" for i k
      proof (cases "k < Suc n")
        case True
        then show ?thesis
          using iff [of i k] iff [of "p_ID r" k] iff [of "p_ID r" e] Some lt [of k] lt [of e] k1 m1(3)
          unfolding live_sub_cancel l1 by (auto simp: m1 len)
      next
        case False
        then show ?thesis using iff [of i k] lt [of k] unfolding live_sub_cancel l1 by (auto simp: m1)
      qed
      then show ?thesis using Pair Installed Some ok by (simp add: sub_inv_def m1)
    qed
  qed (use Pair inv in simp_all)
qed

lemma cancelAll_live: "live_sub (cancelAll ns m) k \<longleftrightarrow> live_sub m k \<and> k \<notin> set ns"
  unfolding cancelAll_def by (induction ns arbitrary: m) (auto simp: live_sub_cancel)

lemma sub_inv_close:
  assumes "sub_inv m"
  shows "sub_inv (sub_step SClose m)"
proof -
  let ?m = "cancelAll (map snd (sm_cancelByPaneID m)) m"
  have "\<not> live_sub ?m k" for k
  proof
    assume h: "live_sub ?m k"
    then have "mget (sm_cancelByPaneID m) (fst (sub_key (sm_objects m ! k))) = Some k"
      using assms by (simp add: sub_inv_def cancelAll_live)
    then have "k \<in> set (map snd (sm_cancelByPaneID m))" by (rule mget_set_snd)
    then show False using h by (simp add: cancelAll_live)
  qed
  moreover have "live_sub (sub_step SClose m) = live_sub ?m" by (rule live_sub_objects) simp
  ultimately show ?thesis by (simp add: sub_inv_def)
qed

lemma sub_inv_done:
  assumes "sub_inv m"
  shows "sub_inv (closeDone n m)"
proof -
  have "live_sub (closeDone n m) k = live_sub m k"
    "k < length (sm_objects m) \<Longrightarrow> sub_key (sm_objects (closeDone n m) ! k) = sub_key (sm_objects m ! k)" for k
    by (cases "n = k"; auto simp: live_sub_def closeDone_def sub_of_def)+
  then show ?thesis using assms by (auto simp: sub_inv_def live_sub_def)
qed

lemma sub_inv_cancel_dead:
  assumes "sub_inv m" "\<not> live_sub m n"
  shows "sub_inv (cancelSub n m)"
proof -
  have "live_sub (cancelSub n m) k = live_sub m k" for k using assms(2) by (auto simp: live_sub_cancel)
  then show ?thesis using assms(1) by (auto simp: sub_inv_def live_sub_def)
qed

lemma sub_inv_abandon:
  assumes inv: "sub_inv m"
  shows "sub_inv (sub_step (SAbandon i n) m)"
proof (cases "n < length (sm_objects m) \<and> fst (sub_key (sm_objects m ! n)) = i")
  case True
  have "sub_inv (cancelSub n (fst (takeSubscription i (Some n) m)))"
  proof (cases "mget (sm_cancelByPaneID m) i = Some n")
    case t: True
    then show ?thesis using sub_inv_drop [OF inv t] by (simp add: takeSubscription_def)
  next
    case False
    then have "\<not> live_sub m n" using inv True by (auto simp: sub_inv_def)
    then show ?thesis using False sub_inv_cancel_dead [OF inv]
      by (auto simp: takeSubscription_def split: option.splits)
  qed
  then show ?thesis using True sub_inv_done by (simp add: abandonSubscription_def)
qed (use inv in auto)

lemma sub_inv_step: "sub_inv m \<Longrightarrow> sub_inv (sub_step op m)"
proof (cases op)
  case (SRender key t)
  assume "sub_inv m"
  then show ?thesis using SRender by (simp add: sub_inv_def live_sub_def)
next
  case (SRun n r)
  assume "sub_inv m"
  then show ?thesis using SRun by (simp add: sub_inv_def live_sub_def)
next
  case (SStop i g)
  assume "sub_inv m"
  then show ?thesis using SStop by (simp add: sub_inv_stop)
next
  case (SDone n)
  assume "sub_inv m"
  then show ?thesis using SDone by (simp add: sub_inv_done)
qed (simp_all add: sub_inv_install sub_inv_take sub_inv_close sub_inv_abandon del: sub_step.simps)

lemma sub_inv_fold: "sub_inv m \<Longrightarrow> sub_inv (fold sub_step ops m)"
  by (induction ops arbitrary: m) (auto intro: sub_inv_step simp del: sub_step.simps)

lemma sub_inv_New: "sub_inv NewSubscriptionManager"
  by (simp add: sub_inv_def NewSubscriptionManager_def live_sub_def)

lemma sub_inv_unique:
  "sub_inv m \<Longrightarrow> live_sub m n \<Longrightarrow> live_sub m k \<Longrightarrow>
    fst (sub_key (sub_of m n)) = fst (sub_key (sub_of m k)) \<Longrightarrow> n = k"
  by (auto simp: sub_inv_def live_sub_def sub_of_def) (metis option.inject)

text \<open>Subscriptions are never renamed or forgotten.\<close>

definition extends :: "SubscriptionManager \<Rightarrow> SubscriptionManager \<Rightarrow> bool" where
  "extends m m' \<longleftrightarrow> length (sm_objects m) \<le> length (sm_objects m') \<and>
     (\<forall>n < length (sm_objects m). sub_key (sm_objects m' ! n) = sub_key (sm_objects m ! n))"

lemma extends_refl [simp]: "extends m m"
  by (simp add: extends_def)

lemma extends_trans: "extends a b \<Longrightarrow> extends b c \<Longrightarrow> extends a c"
  by (auto simp: extends_def)

lemma extends_cancelSub [simp]: "extends m (cancelSub n m)"
  by (simp add: extends_def)

lemma extends_objects: "sm_objects m' = sm_objects m \<Longrightarrow> extends m m'"
  by (simp add: extends_def)

lemma extends_closeDone [simp]: "extends m (closeDone n m)"
  by (auto simp: extends_def closeDone_def sub_of_def nth_list_update)

lemma extends_cancelAll [simp]: "extends m (cancelAll ns m)"
  unfolding cancelAll_def by (induction ns arbitrary: m) (auto intro: extends_trans [OF extends_cancelSub])

lemma extends_take: "extends m (fst (takeSubscription i e m))"
  by (rule extends_objects) (simp add: takeSubscription_def split: option.splits)

lemma extends_install: "extends m (fst (installSubscription r m))"
  by (auto simp: extends_def installSubscription_def Let_def nth_append)

lemma extends_step: "extends m (sub_step op m)"
proof (cases op)
  case (SInstall r)
  then show ?thesis using extends_install [of m r]
    by (auto split: prod.splits install.splits option.splits intro: extends_trans)
next
  case (STake i n)
  then show ?thesis using extends_take [of m i "Some n"]
    by (auto split: prod.splits option.splits intro: extends_trans)
next
  case (SStop i g)
  then show ?thesis
    by (auto simp: stopPaneGeneration_def split: option.splits
        intro: extends_trans [OF extends_objects extends_cancelSub])
next
  case SClose
  then show ?thesis
    by (auto intro: extends_trans [OF extends_cancelAll extends_objects])
next
  case (SAbandon i n)
  have "extends m (abandonSubscription i n m)" unfolding abandonSubscription_def
    by (rule extends_trans [OF extends_take extends_trans [OF extends_cancelSub extends_closeDone]])
  then show ?thesis using SAbandon by simp
qed (simp_all add: extends_objects)

lemma extends_fold: "extends m (fold sub_step ops m)"
  by (induction ops arbitrary: m) (auto intro: extends_trans [OF extends_step] simp del: sub_step.simps)

lemma replaced_older:
  assumes "live_sub m n" "\<not> live_sub (sub_step (SInstall r) m) n"
  shows "mget (sm_cancelByPaneID m) (p_ID r) = Some n \<and> snd (sub_key (sub_of m n)) < p_Generation r"
proof -
  have new: "live_sub (m\<lparr>sm_objects := sm_objects m @ [x], sm_cancelByPaneID := c\<rparr>) n" for x c
    using assms(1) by (simp add: live_sub_def nth_append)
  show ?thesis using assms new
    by (auto simp: installSubscription_def Let_def live_sub_cancel not_less split: if_splits option.splits)
qed

lemma stopped_only:
  assumes "live_sub m n" "\<not> live_sub (stopPaneGeneration i g m) n"
  shows "mget (sm_cancelByPaneID m) i = Some n \<and> (g = 0 \<or> snd (sub_key (sub_of m n)) = g)"
proof -
  have "live_sub (m\<lparr>sm_cancelByPaneID := c, sm_lastRendered := l\<rparr>) n" for c l
    using assms(1) by (simp add: live_sub_def)
  then show ?thesis using assms
    by (auto simp: stopPaneGeneration_def live_sub_cancel split: if_splits option.splits)
qed


end
