(* ===== verification/Runtime_Base.thy ===== *)
theory Runtime_Base
  imports Runtime_Manager Go_Monad
begin

text \<open>
  What the parts of the runtime share: the service's state
  (\<open>Service\<close> of \<^verbatim>\<open>src/internal/runtime/service.go\<close>), the Zellij backend it calls
  (the interface of \<^verbatim>\<open>src/internal/zellij/types.go\<close>), its error values and the types of
  \<^verbatim>\<open>src/internal/runtime/types.go\<close>.

  The daemon serves requests in goroutines that share the registry, the subscription manager and
  the observer. A function of the runtime is a value of the state monad over the whole service
  state. Whatever leaves the service is an argument of the model, the record \<open>Backend\<close> of such
  functions; the type variable is whatever state the outside world has. Other goroutines run
  between any two accesses of the shared state: \<open>be_other\<close> comes before each of them.

  What the theorems assume of the arguments is \<open>backend_steps\<close>: between the call and its return
  the registry and the manager change through their own operations only, and whoever reports a
  pane as closed has claimed its notification. Every operation of the runtime meets the same
  contract (\<open>steps\<close>), so the assumption is one that each goroutine keeps. Calls of the
  registry, the observer and the event bus are recorded in the order they are made.
\<close>

section \<open>Zellij\<close>

record ZPane =
  z_ID :: string
  z_IsPlugin :: bool
  z_IsFocused :: bool
  z_IsFloating :: bool
  z_Title :: string
  z_TitleAvailable :: bool
  z_Command :: string
  z_CWD :: string
  z_Exited :: bool
  z_TabID :: int
  z_TabName :: string

section \<open>Errors\<close>

text \<open>
  An error value is the list of errors it wraps; \<open>errors.Is\<close> is membership, \<open>errors.Join\<close> and
  \<open>%w\<close> concatenate.
\<close>

datatype rt_cause =
    ErrPaneNotFound | ErrMissingPaneID | ErrPaneInitializationFailed | ErrCleanupPartial
  | ErrSessionNotFound | ErrTabNotFound | ErrInvalidMessage | ErrInvalidPaneTarget
  | ErrZellijSessionRequired | ErrInvalidExecutionPlan | ErrRegistry reg_error | ErrCanceled
  | ErrOther string | ErrJSON

type_synonym rt_error = "rt_cause list"

text \<open>
  The texts of errors, which the runtime stores in a pane's status and publishes. The decoder's
  own message for a line that is not JSON is left out.
\<close>

fun reg_text :: "reg_error \<Rightarrow> string" where
  "reg_text (ErrInvalidRequest m) = ''invalid registry request: '' @ m"
| "reg_text (ErrZellijPaneAlreadyRegistered s z) = ''zellij pane already registered''"
| "reg_text ErrAlreadyExists = ''registry record already exists''"
| "reg_text ErrNotFound = ''registry record not found''"
| "reg_text ErrStaleRecord = ''registry record generation mismatch''"
| "reg_text (ErrInvalidStored m) = m"
| "reg_text (ErrLoad e) = []"

fun cause_text :: "rt_cause \<Rightarrow> string" where
  "cause_text ErrPaneNotFound = ''runtime pane not found''"
| "cause_text ErrMissingPaneID = ''runtime pane id is required''"
| "cause_text ErrPaneInitializationFailed = ''runtime pane initialization failed''"
| "cause_text ErrCleanupPartial = ''runtime cleanup partially failed''"
| "cause_text ErrSessionNotFound = ''runtime session not found''"
| "cause_text ErrTabNotFound = ''runtime tab not found''"
| "cause_text ErrInvalidMessage = ''runtime: invalid message''"
| "cause_text ErrInvalidPaneTarget = ''runtime: invalid pane target''"
| "cause_text ErrZellijSessionRequired = ''runtime: zellij session is required''"
| "cause_text ErrInvalidExecutionPlan = ''runtime: invalid execution plan''"
| "cause_text (ErrRegistry e) = reg_text e"
| "cause_text ErrCanceled = ''context canceled''"
| "cause_text (ErrOther m) = m"
| "cause_text ErrJSON = []"

definition err_text :: "rt_error \<Rightarrow> string" where
  "err_text e = Join (map cause_text e) [NL]"

section \<open>State\<close>

record PaneView =
  pv_ParentPaneID :: PaneID
  pv_ID :: PaneID
  pv_OwnershipToken :: string
  pv_SessionID :: SessionID
  pv_TabID :: TabID
  pv_TaskID :: string
  pv_AgentID :: string
  pv_ZellijPaneID :: ZellijPaneID
  pv_ZellijTabID :: "int option"
  pv_TabName :: string
  pv_Role :: string
  pv_Command :: "string list"
  pv_CWD :: string
  pv_Status :: "PaneStatus option"
  pv_LastOutput :: string
  pv_LastInstruction :: string
  pv_LastInstructionAt :: time
  pv_StatusMessage :: string
  pv_CreatedAt :: time
  pv_UpdatedAt :: time

definition paneFromRecord :: "PaneRecord \<Rightarrow> PaneView" where
  "paneFromRecord p =
     \<lparr>pv_ParentPaneID = p_ParentPaneID p, pv_ID = p_ID p, pv_OwnershipToken = p_OwnershipToken p,
      pv_SessionID = p_SessionID p, pv_TabID = p_TabID p, pv_TaskID = p_TaskID p,
      pv_AgentID = p_AgentID p, pv_ZellijPaneID = p_ZellijPaneID p, pv_ZellijTabID = p_ZellijTabID p,
      pv_TabName = p_TabName p, pv_Role = p_Role p, pv_Command = p_Command p, pv_CWD = p_CWD p,
      pv_Status = Some (p_Status p), pv_LastOutput = p_LastOutput p,
      pv_LastInstruction = p_LastInstruction p, pv_LastInstructionAt = p_LastInstructionAt p,
      pv_StatusMessage = p_StatusMessage p, pv_CreatedAt = p_CreatedAt p, pv_UpdatedAt = p_UpdatedAt p\<rparr>"

text \<open>The zero \<open>Pane\<close> with an identifier; its status is the empty string.\<close>

definition emptyPane :: "PaneID \<Rightarrow> PaneView" where
  "emptyPane i =
     \<lparr>pv_ParentPaneID = [], pv_ID = i, pv_OwnershipToken = [], pv_SessionID = [], pv_TabID = [],
      pv_TaskID = [], pv_AgentID = [], pv_ZellijPaneID = [], pv_ZellijTabID = None, pv_TabName = [],
      pv_Role = [], pv_Command = [], pv_CWD = [], pv_Status = None, pv_LastOutput = [],
      pv_LastInstruction = [], pv_LastInstructionAt = zeroTime, pv_StatusMessage = [],
      pv_CreatedAt = zeroTime, pv_UpdatedAt = zeroTime\<rparr>"

datatype notification =
    NOpened PaneRecord | NOutput PaneRecord string | NClosed PaneRecord | NError PaneRecord rt_error
  | NMetadata PaneRecord string bool

record CreatePaneRequest =
  cr_NoFocus :: bool
  cr_ReuseParentTab :: bool
  cr_ReuseDirectoryTab :: bool
  cr_EnsureSession :: bool
  cr_ParentPaneID :: PaneID
  cr_ID :: PaneID
  cr_TaskID :: string
  cr_AgentID :: string
  cr_Role :: string
  cr_Name :: string
  cr_ZellijSession :: string
  cr_NewTab :: bool
  cr_TabName :: string
  cr_LayoutString :: string
  cr_ZellijTabID :: "int option"
  cr_SameTabAsPaneID :: PaneID
  cr_SameTabAsZellijPaneID :: ZellijPaneID
  cr_Command :: "string list"
  cr_CWD :: string
  cr_InitialInput :: string
  cr_InitialInputReadyText :: string

text \<open>A call in \<open>creates\<close>; its result is \<open>None\<close> until its channel \<open>done\<close> is closed.\<close>

record createPaneCall =
  cc_request :: CreatePaneRequest
  cc_result :: "(rt_error + PaneRecord) option"
  cc_createdRecord :: "PaneRecord option"

text \<open>
  \<open>sv_observer\<close> and \<open>sv_metadata\<close> say whether there is a pane observer and whether it takes
  metadata; \<open>sv_trace\<close> holds the calls of the registry's methods.
\<close>

record 'w Service =
  sv_reg :: Registry
  sv_subs :: "SubscriptionManager option"
  sv_observer :: bool
  sv_metadata :: bool
  sv_creates :: "(PaneID, nat) gomap"
  sv_calls :: "createPaneCall list"
  sv_trace :: "(time \<times> reg_op) list"
  sv_obs :: "notification list"
  sv_published :: "Event list"
  sv_world :: 'w

type_synonym ('w, 'a) rt = "('w Service, 'a) state"

text \<open>What the runtime asks of Zellij when it creates a tab or a pane.\<close>

record ZCreate =
  zc_NoFocus :: bool
  zc_Session :: string
  zc_Name :: string
  zc_CWD :: string
  zc_LayoutString :: string
  zc_TabID :: "int option"
  zc_Command :: "string list"

text \<open>
  The calls that leave the service. \<open>be_rounds\<close> is how often a loop that polls or waits goes
  around before its context ends (\<open>be_Strip\<close> is the package \<open>ansi\<close>'s, \<open>be_Quote\<close> the
  verb \<open>%q\<close>); a wait whose context never ends and which is never answered
  does not return, and has no counterpart. The optional parts are interfaces a backend may lack.\<close>

record 'w Backend =
  be_now :: "'w Service \<Rightarrow> time"
  be_other :: "('w, unit) rt"
  be_rounds :: "'w Service \<Rightarrow> nat"
  be_ctxErr :: "('w, rt_error option) rt"
  be_ListPanes :: "string \<Rightarrow> ('w, rt_error + ZPane list) rt"
  be_ClosePane :: "string \<Rightarrow> ZellijPaneID \<Rightarrow> ('w, rt_error option) rt"
  be_CloseTab :: "string \<Rightarrow> int \<Rightarrow> ('w, rt_error option) rt"
  be_CreateTab :: "ZCreate \<Rightarrow> ('w, rt_error + int) rt"
  be_CreatePane :: "ZCreate \<Rightarrow> ('w, rt_error + ZellijPaneID) rt"
  be_SendInput :: "string \<Rightarrow> ZellijPaneID \<Rightarrow> string \<Rightarrow> ('w, rt_error option) rt"
  be_DumpScreen :: "string \<Rightarrow> ZellijPaneID \<Rightarrow> bool \<Rightarrow> bool \<Rightarrow> ('w, rt_error + string) rt"
  be_ActiveSessions :: "('w, rt_error + string list) rt option"
  be_EnsureSession :: "(string \<Rightarrow> ('w, rt_error option) rt) option"
  be_SwitchSession :: "(string \<Rightarrow> ZellijPaneID \<Rightarrow> string \<Rightarrow> ZellijPaneID \<Rightarrow> ('w, rt_error option) rt) option"
  be_newPaneID :: "('w, PaneID) rt"
  be_newOwnershipToken :: "('w, rt_error + string) rt"
  be_EvalSymlinks :: "string \<Rightarrow> ('w, rt_error + string) rt"
  be_startProcess :: "PaneRecord \<Rightarrow> ('w, rt_error option) rt"
  be_waitProcess :: "PaneRecord \<Rightarrow> ('w, rt_error option) rt"
  be_Strip :: "string \<Rightarrow> string"
  be_Quote :: "string \<Rightarrow> string"

section \<open>Accesses of the shared state\<close>

definition timeNow :: "'w Backend \<Rightarrow> ('w, time) rt" where
  "timeNow be = gets (be_now be)"

definition reg_call :: "'w Backend \<Rightarrow> reg_op \<Rightarrow> ('w, reg_out) rt" where
  "reg_call be op = do {
     be_other be;
     t \<leftarrow> timeNow be;
     out \<leftarrow> gets (\<lambda>s. snd (reg_step t op (sv_reg s)));
     modify (\<lambda>s. s\<lparr>sv_reg := fst (reg_step t op (sv_reg s)), sv_trace := sv_trace s @ [(t, op)]\<rparr>);
     return out }"

definition getPane :: "'w Backend \<Rightarrow> PaneID \<Rightarrow> ('w, reg_error + PaneRecord) rt" where
  "getPane be i = do { be_other be; gets (\<lambda>s. GetPane i (sv_reg s)) }"

definition listPanes :: "'w Backend \<Rightarrow> ('w, PaneRecord list) rt" where
  "listPanes be = do { be_other be; gets (\<lambda>s. ListPanes (sv_reg s)) }"

definition notify :: "notification \<Rightarrow> ('w, unit) rt" where
  "notify n = modify (\<lambda>s. if sv_observer s then s\<lparr>sv_obs := sv_obs s @ [n]\<rparr> else s)"

definition publish :: "Event \<Rightarrow> ('w, unit) rt" where
  "publish e = modify (\<lambda>s. s\<lparr>sv_published := sv_published s @ [e]\<rparr>)"

definition subs_do :: "'w Backend \<Rightarrow> (SubscriptionManager \<Rightarrow> SubscriptionManager) \<Rightarrow> ('w, unit) rt" where
  "subs_do be f = do { be_other be; modify (\<lambda>s. s\<lparr>sv_subs := map_option f (sv_subs s)\<rparr>) }"

definition StopPaneGeneration :: "'w Backend \<Rightarrow> PaneID \<Rightarrow> uint64 \<Rightarrow> ('w, unit) rt" where
  "StopPaneGeneration be i generation = subs_do be (stopPaneGeneration i generation)"

definition svcLookupPane :: "'w Backend \<Rightarrow> PaneID \<Rightarrow> ('w, rt_error + PaneRecord) rt" where
  "svcLookupPane be i =
     (if i = [] then return (Inl [ErrMissingPaneID])
      else do {
        r \<leftarrow> getPane be i;
        return (case r of
          Inl e \<Rightarrow> if e = ErrNotFound then Inl [ErrPaneNotFound] else Inl [ErrRegistry e]
        | Inr p \<Rightarrow> if p_ZellijPaneID p = [] then Inl [ErrPaneNotFound] else Inr p) })"

definition currentPaneGeneration :: "'w Backend \<Rightarrow> PaneRecord \<Rightarrow> ('w, reg_error + PaneRecord) rt" where
  "currentPaneGeneration be record = do {
     r \<leftarrow> getPane be (p_ID record);
     return (case r of
       Inl e \<Rightarrow> Inl e
     | Inr p \<Rightarrow> if p_Generation p \<noteq> p_Generation record then Inl ErrStaleRecord else Inr p) }"

definition eventFromRecord :: "PaneRecord \<Rightarrow> time \<Rightarrow> EventType \<Rightarrow> string \<Rightarrow> Event" where
  "eventFromRecord p t ty message =
     (emptyEvent ty)\<lparr>ev_PaneID := p_ID p, ev_TaskID := p_TaskID p, ev_AgentID := p_AgentID p,
        ev_ZellijPaneID := p_ZellijPaneID p, ev_Message := message, ev_Time := t\<rparr>"

section \<open>The contract\<close>

text \<open>The generations reported closed to the observer.\<close>

fun closed_gen :: "notification \<Rightarrow> uint64 list" where
  "closed_gen (NClosed p) = [p_Generation p]"
| "closed_gen _ = []"

definition closed_gens :: "notification list \<Rightarrow> uint64 list" where
  "closed_gens ns = concat (map closed_gen ns)"

text \<open>
  From \<open>s\<close> to \<open>s'\<close> the registry changed by calls allowed by \<open>A\<close>, which are recorded, and the
  manager by its critical sections; the generations newly reported closed, and those in
  \<open>credit\<close> that may still be reported, were claimed by these calls.
\<close>

definition steps :: "(reg_op \<Rightarrow> bool) \<Rightarrow> uint64 multiset \<Rightarrow> 'w Service \<Rightarrow> 'w Service \<Rightarrow> bool" where
  "steps A credit s s' \<longleftrightarrow> (\<exists>ops news sops.
     sv_trace s' = sv_trace s @ ops \<and> list_all (A \<circ> snd) ops \<and>
     sv_reg s' = fst (run_ops reg_step ops (sv_reg s)) \<and>
     closed_gens (sv_obs s') = closed_gens (sv_obs s) @ news \<and>
     mset news + credit \<subseteq># mset (claims ops (snd (run_ops reg_step ops (sv_reg s)))) \<and>
     sv_subs s' = map_option (fold sub_step sops) (sv_subs s))"

definition stays :: "(reg_op \<Rightarrow> bool) \<Rightarrow> ('w, 'a) rt \<Rightarrow> bool" where
  "stays A f \<longleftrightarrow> (\<forall>s. steps A {#} s (snd (run_state f s)))"

definition backend_steps :: "(reg_op \<Rightarrow> bool) \<Rightarrow> 'w Backend \<Rightarrow> bool" where
  "backend_steps A be \<longleftrightarrow>
     stays A (be_other be) \<and> stays A (be_ctxErr be) \<and> (\<forall>x. stays A (be_ListPanes be x)) \<and>
     (\<forall>x y. stays A (be_ClosePane be x y)) \<and> (\<forall>x y. stays A (be_CloseTab be x y)) \<and>
     (\<forall>x. stays A (be_CreateTab be x)) \<and> (\<forall>x. stays A (be_CreatePane be x)) \<and>
     (\<forall>x y z. stays A (be_SendInput be x y z)) \<and> (\<forall>x y a b. stays A (be_DumpScreen be x y a b)) \<and>
     (\<forall>f. be_ActiveSessions be = Some f \<longrightarrow> stays A f) \<and>
     (\<forall>f x. be_EnsureSession be = Some f \<longrightarrow> stays A (f x)) \<and>
     (\<forall>f a b c d. be_SwitchSession be = Some f \<longrightarrow> stays A (f a b c d)) \<and>
     stays A (be_newPaneID be) \<and> stays A (be_newOwnershipToken be) \<and> (\<forall>x. stays A (be_EvalSymlinks be x)) \<and>
     (\<forall>x. stays A (be_startProcess be x)) \<and> (\<forall>x. stays A (be_waitProcess be x))"

lemma claims_append:
  "length outs = length ops \<Longrightarrow> claims (ops @ ops') (outs @ outs') = claims ops outs @ claims ops' outs'"
  by (simp add: claims_def zip_append)

lemma length_run_ops: "length (snd (run_ops step ops r)) = length ops"
proof (induction ops arbitrary: r)
  case (Cons x ops)
  then show ?case by (cases x) (simp del: run_ops.simps)
qed simp

lemma run_ops_append_snd:
  "snd (run_ops step (ops @ ops') r) = snd (run_ops step ops r) @ snd (run_ops step ops' (fst (run_ops step ops r)))"
proof (induction ops arbitrary: r)
  case (Cons x ops)
  then show ?case by (cases x) (simp del: run_ops.simps)
qed simp

lemma steps_frame:
  assumes "sv_reg s' = sv_reg s" "sv_trace s' = sv_trace s" "closed_gens (sv_obs s') = closed_gens (sv_obs s)"
    "sv_subs s' = sv_subs s"
  shows "steps A {#} s s'"
  unfolding steps_def using assms
  by (intro exI [of _ "[]"]) (simp add: claims_def option.map_id)

lemma steps_refl [simp]: "steps A {#} s s"
  by (rule steps_frame) simp_all

lemma steps_trans:
  assumes "steps A c1 s s1" "steps A c2 s1 s2"
  shows "steps A (c1 + c2) s s2"
proof -
  obtain ops1 n1 so1 where 1: "sv_trace s1 = sv_trace s @ ops1" "list_all (A \<circ> snd) ops1"
    "sv_reg s1 = fst (run_ops reg_step ops1 (sv_reg s))"
    "closed_gens (sv_obs s1) = closed_gens (sv_obs s) @ n1"
    "mset n1 + c1 \<subseteq># mset (claims ops1 (snd (run_ops reg_step ops1 (sv_reg s))))"
    "sv_subs s1 = map_option (fold sub_step so1) (sv_subs s)"
    using assms(1) by (auto simp: steps_def)
  obtain ops2 n2 so2 where 2: "sv_trace s2 = sv_trace s1 @ ops2" "list_all (A \<circ> snd) ops2"
    "sv_reg s2 = fst (run_ops reg_step ops2 (sv_reg s1))"
    "closed_gens (sv_obs s2) = closed_gens (sv_obs s1) @ n2"
    "mset n2 + c2 \<subseteq># mset (claims ops2 (snd (run_ops reg_step ops2 (sv_reg s1))))"
    "sv_subs s2 = map_option (fold sub_step so2) (sv_subs s1)"
    using assms(2) by (auto simp: steps_def)
  have "mset (n1 @ n2) + (c1 + c2) \<subseteq># mset (claims (ops1 @ ops2) (snd (run_ops reg_step (ops1 @ ops2) (sv_reg s))))"
    using subset_mset.add_mono [OF 1(5) 2(5)]
    by (simp add: run_ops_append_snd claims_append length_run_ops 1(3) union_ac)
  then show ?thesis unfolding steps_def
    by (intro exI [of _ "ops1 @ ops2"] exI [of _ "n1 @ n2"] exI [of _ "so1 @ so2"])
      (use 1 2 in \<open>simp add: run_ops_append option.map_comp o_def\<close>)
qed

lemma steps_trans0: "steps A c s s1 \<Longrightarrow> steps A {#} s1 s2 \<Longrightarrow> steps A c s s2"
  using steps_trans [of A c s s1 "{#}" s2] by simp

lemma steps_weaken: "steps A c s s' \<Longrightarrow> c' \<subseteq># c \<Longrightarrow> steps A c' s s'"
  unfolding steps_def by (meson subset_mset.add_left_mono subset_mset.order_trans)

lemma keeps_stays: "stays A f \<Longrightarrow> keeps (steps A c s0) f"
  by (auto simp: keeps_def valid_def stays_def intro: steps_trans0)

section \<open>Rules for the accesses\<close>

lemma backend_keeps:
  assumes "backend_steps A be"
  shows "keeps (steps A c s0) (be_other be)" "keeps (steps A c s0) (be_ctxErr be)" "keeps (steps A c s0) (be_ListPanes be x)"
    "keeps (steps A c s0) (be_ClosePane be x y)" "keeps (steps A c s0) (be_CloseTab be x n)"
    "keeps (steps A c s0) (be_CreateTab be r)" "keeps (steps A c s0) (be_CreatePane be r)"
    "keeps (steps A c s0) (be_SendInput be x y z)" "keeps (steps A c s0) (be_DumpScreen be x y a b)"
    "keeps (steps A c s0) (be_newPaneID be)" "keeps (steps A c s0) (be_newOwnershipToken be)"
    "keeps (steps A c s0) (be_EvalSymlinks be x)" "keeps (steps A c s0) (be_startProcess be p)"
    "keeps (steps A c s0) (be_waitProcess be p)"
  using assms unfolding backend_steps_def by (simp_all add: keeps_stays)

lemma backend_keeps_optional:
  assumes "backend_steps A be"
  shows "be_ActiveSessions be = Some f1 \<Longrightarrow> keeps (steps A c s0) f1"
    "be_EnsureSession be = Some f2 \<Longrightarrow> keeps (steps A c s0) (f2 x)"
    "be_SwitchSession be = Some f3 \<Longrightarrow> keeps (steps A c s0) (f3 x y z w)"
  using assms unfolding backend_steps_def by (simp_all add: keeps_stays)

lemma keeps_timeNow [keep]: "keeps I (timeNow be)"
  by (simp add: timeNow_def keeps_gets)

lemma keeps_case_reg_out [keep]:
  "(\<And>e. keeps I (f e)) \<Longrightarrow> (\<And>p. keeps I (g p)) \<Longrightarrow> (\<And>p b. keeps I (h p b)) \<Longrightarrow>
    keeps I (case out of RErr e \<Rightarrow> f e | RPane p \<Rightarrow> g p | RFlag p b \<Rightarrow> h p b)"
  by (cases out) simp_all

lemma steps_reg:
  assumes "steps A c s0 s" "A op"
  shows "steps A (c + mset (claim_of op (snd (reg_step t op (sv_reg s))))) s0
    (s\<lparr>sv_reg := fst (reg_step t op (sv_reg s)), sv_trace := sv_trace s @ [(t, op)]\<rparr>)"
  by (rule steps_trans [OF assms(1)], unfold steps_def,
      intro exI [of _ "[(t, op)]"] exI [of _ "[]"])
    (simp add: claims_def assms(2) case_prod_beta option.map_id)

lemma valid_reg_call:
  assumes "backend_steps A be" "A op"
  shows "valid (steps A c s0) (reg_call be op) (\<lambda>out. steps A (c + mset (claim_of op out)) s0)"
  unfolding reg_call_def
proof (rule valid_bind [OF valid_keeps [OF backend_keeps(1) [OF assms(1)]]], rule valid_bind [OF valid_keeps [OF keeps_timeNow]])
  fix t
  show "valid (steps A c s0) (do {
      out \<leftarrow> gets (\<lambda>s. snd (reg_step t op (sv_reg s)));
      modify (\<lambda>s. s\<lparr>sv_reg := fst (reg_step t op (sv_reg s)), sv_trace := sv_trace s @ [(t, op)]\<rparr>);
      return out}) (\<lambda>out. steps A (c + mset (claim_of op out)) s0)"
    using assms(2) by (simp add: valid_def steps_reg)
qed

lemma keeps_reg_call:
  assumes "backend_steps A be" "A op"
  shows "keeps (steps A c s0) (reg_call be op)"
  unfolding keeps_def by (rule valid_weaken [OF valid_reg_call [OF assms]]) (auto intro: steps_weaken)

lemma keeps_getPane: "backend_steps A be \<Longrightarrow> keeps (steps A c s0) (getPane be i)"
  unfolding getPane_def by (intro keep backend_keeps)

lemma keeps_listPanes: "backend_steps A be \<Longrightarrow> keeps (steps A c s0) (listPanes be)"
  unfolding listPanes_def by (intro keep backend_keeps)

lemma keeps_notify [keep]:
  "keeps (steps A c s0) (notify (NOpened p))" "keeps (steps A c s0) (notify (NOutput p x))"
  "keeps (steps A c s0) (notify (NError p e))" "keeps (steps A c s0) (notify (NMetadata p x b))"
  "keeps (steps A c s0) (publish e')"
  unfolding notify_def publish_def
  by (rule keeps_stays; auto intro!: steps_frame simp: stays_def closed_gens_def)+

lemma valid_notify_closed:
  "valid (steps A (add_mset (p_Generation p) c) s0) (notify (NClosed p)) (\<lambda>_. steps A c s0)"
  unfolding valid_def notify_def
proof (intro allI impI)
  fix s
  assume h: "steps A (add_mset (p_Generation p) c) s0 s"
  then obtain ops news sops where o: "sv_trace s = sv_trace s0 @ ops" "list_all (A \<circ> snd) ops"
    "sv_reg s = fst (run_ops reg_step ops (sv_reg s0))"
    "closed_gens (sv_obs s) = closed_gens (sv_obs s0) @ news"
    "mset news + add_mset (p_Generation p) c \<subseteq># mset (claims ops (snd (run_ops reg_step ops (sv_reg s0))))"
    "sv_subs s = map_option (fold sub_step sops) (sv_subs s0)"
    by (auto simp: steps_def)
  have "steps A c s0 (s\<lparr>sv_obs := sv_obs s @ [NClosed p]\<rparr>)" unfolding steps_def
    by (intro exI [of _ ops] exI [of _ "news @ [p_Generation p]"] exI [of _ sops])
      (use o in \<open>simp add: closed_gens_def\<close>)
  moreover have "steps A c s0 s" using h by (rule steps_weaken) simp
  ultimately show "steps A c s0 (snd (run_state (modify (\<lambda>s. if sv_observer s then s\<lparr>sv_obs := sv_obs s @ [NClosed p]\<rparr> else s)) s))"
    by simp
qed

lemma steps_sub_step: "steps A {#} s (s\<lparr>sv_subs := map_option (fold sub_step sops) (sv_subs s)\<rparr>)"
  unfolding steps_def by (intro exI [of _ "[]"] exI [of _ sops]) (simp add: claims_def)

lemma keeps_subs_do:
  assumes "backend_steps A be" "\<And>m. f m = fold sub_step sops m"
  shows "keeps (steps A c s0) (subs_do be f)"
proof -
  have "f = fold sub_step sops" using assms(2) by blast
  then show ?thesis unfolding subs_do_def
    by (intro keep backend_keeps assms(1) keeps_modify) (auto intro: steps_trans0 steps_sub_step)
qed

lemma keeps_StopPaneGeneration: "backend_steps A be \<Longrightarrow> keeps (steps A c s0) (StopPaneGeneration be i g)"
  unfolding StopPaneGeneration_def by (rule keeps_subs_do [where sops = "[SStop i g]"]) simp_all

lemma keeps_lookup:
  assumes "backend_steps A be"
  shows "keeps (steps A c s0) (svcLookupPane be i)" "keeps (steps A c s0) (currentPaneGeneration be p)"
  unfolding svcLookupPane_def currentPaneGeneration_def by (intro keep keeps_getPane assms)+

lemmas rt_keep = backend_keeps keeps_reg_call keeps_getPane keeps_listPanes keeps_StopPaneGeneration keeps_lookup

end
