(* ===== verification/Runtime_Subs.thy ===== *)
theory Runtime_Subs
  imports Runtime_Base
begin

text \<open>
  The subscription manager at work, \<^verbatim>\<open>src/internal/runtime/subscriptions.go\<close>: starting a
  pane's subscription, the worker goroutine that handles the frames of its process, and what the
  frames do to the pane: new output, a close, an error.

  The worker's body is \<open>run_worker\<close>. Building and starting the process and waiting for its end are
  arguments (\<open>be_startProcess\<close>, \<open>be_waitProcess\<close>), and so is the list of frames the worker
  receives from its channel. Cancelling a replaced subscription follows the critical section that
  replaces it and is part of the same step.
\<close>

section \<open>Starting\<close>

definition startRecord :: "'w Backend \<Rightarrow> PaneRecord \<Rightarrow> ('w, bool) rt" where
  "startRecord be record = do {
     be_other be;
     subs \<leftarrow> gets sv_subs;
     case subs of
       None \<Rightarrow> return False
     | Some m \<Rightarrow>
         (case installSubscription record m of (m1, result) \<Rightarrow>
          (case result of
             Refused \<Rightarrow> return False
           | Retry \<Rightarrow> return True
           | Installed n existing \<Rightarrow> do {
               modify (\<lambda>s. s\<lparr>sv_subs := Some (case existing of None \<Rightarrow> m1 | Some e \<Rightarrow> cancelSub e m1)\<rparr>);
               current \<leftarrow> getPane be (p_ID record);
               (case current of
                  Inl _ \<Rightarrow> do { subs_do be (abandonSubscription (p_ID record) n); return False }
                | Inr c \<Rightarrow>
                    if p_Generation c \<noteq> p_Generation record
                    then do { subs_do be (abandonSubscription (p_ID record) n); return True }
                    else do { subs_do be (\<lambda>m. m\<lparr>sm_running := sm_running m @ [(n, record)]\<rparr>); return False }) })) }"

text \<open>
  \<open>StartPane\<close>'s loop goes around as often as the pane is registered anew meanwhile, so it has
  fuel; the result says whether it came to an end.
\<close>

fun StartPane :: "nat \<Rightarrow> 'w Backend \<Rightarrow> PaneID \<Rightarrow> ('w, bool) rt" where
  "StartPane 0 be i = return False"
| "StartPane (Suc fuel) be i = do {
     subs \<leftarrow> gets sv_subs;
     if subs = None then return True
     else do {
       r \<leftarrow> getPane be i;
       case r of
         Inl e \<Rightarrow>
           if e = ErrNotFound then return True
           else do {
             t \<leftarrow> timeNow be;
             publish ((emptyEvent TypeHealthChanged)\<lparr>ev_PaneID := i,
               ev_Message := ''subscribe skipped: registry pane unavailable'', ev_Time := t\<rparr>);
             return True }
       | Inr record \<Rightarrow> do {
           again \<leftarrow> startRecord be record;
           if again then StartPane fuel be i else return True } } }"

definition subscriptionIsCurrent :: "'w Backend \<Rightarrow> PaneRecord \<Rightarrow> nat \<Rightarrow> ('w, bool) rt" where
  "subscriptionIsCurrent be record n = do {
     be_other be;
     subs \<leftarrow> gets sv_subs;
     case subs of
       None \<Rightarrow> return False
     | Some m \<Rightarrow>
         if sub_cancelled (sub_of m n) \<or> mget (sm_cancelByPaneID m) (p_ID record) \<noteq> Some n then return False
         else do {
           r \<leftarrow> getPane be (p_ID record);
           return (case r of Inl _ \<Rightarrow> False | Inr c \<Rightarrow> p_Generation c = p_Generation record) } }"

section \<open>Publishing\<close>

text \<open>The manager's \<open>currentPaneGeneration\<close>: the record, if it is registered and not terminal.\<close>

definition currentActive :: "'w Backend \<Rightarrow> PaneRecord \<Rightarrow> ('w, PaneRecord option) rt" where
  "currentActive be record = do {
     r \<leftarrow> getPane be (p_ID record);
     return (case r of
       Inl _ \<Rightarrow> None
     | Inr c \<Rightarrow> if p_Generation c \<noteq> p_Generation record \<or> isTerminalPaneStatus (p_Status c) then None else Some c) }"

definition publishStreamError :: "'w Backend \<Rightarrow> PaneRecord \<Rightarrow> rt_error \<Rightarrow> ('w, unit) rt" where
  "publishStreamError be record cause = do {
     current \<leftarrow> currentActive be record;
     (case current of None \<Rightarrow> return () | Some c \<Rightarrow> notify (NError c cause));
     t \<leftarrow> timeNow be;
     publish (eventFromRecord record t TypeSubscribeError (err_text cause)) }"

definition publishSubscribeParseError :: "'w Backend \<Rightarrow> PaneRecord \<Rightarrow> rt_error \<Rightarrow> ('w, unit) rt" where
  "publishSubscribeParseError be record cause = do {
     current \<leftarrow> currentActive be record;
     (case current of None \<Rightarrow> return () | Some c \<Rightarrow> notify (NError c cause));
     t \<leftarrow> timeNow be;
     publish (eventFromRecord record t TypeSubscribeError (err_text cause)) }"

definition publishSubscribeStartupFailure :: "'w Backend \<Rightarrow> PaneRecord \<Rightarrow> rt_error \<Rightarrow> ('w, unit) rt" where
  "publishSubscribeStartupFailure be record cause = do {
     out \<leftarrow> reg_call be (OpActiveStatus (p_ID record) (p_Generation record) PaneStatusError (err_text cause));
     let applied = (case out of RFlag updated a \<Rightarrow> a | _ \<Rightarrow> False);
     let record' = (case out of RFlag updated a \<Rightarrow> if a then updated else record | _ \<Rightarrow> record);
     (if applied then notify (NError record' cause) else return ());
     t \<leftarrow> timeNow be;
     publish (eventFromRecord record' t TypeSubscribeError (err_text cause));
     publish (eventFromRecord record' t TypeHealthChanged ''subscribe failed to start'') }"

section \<open>Frames\<close>

abbreviation gone_error :: "reg_error \<Rightarrow> bool" where
  "gone_error e \<equiv> e = ErrNotFound \<or> e = ErrStaleRecord"

definition handlePaneClosed :: "'w Backend \<Rightarrow> PaneRecord \<Rightarrow> ('w, unit) rt" where
  "handlePaneClosed be record = do {
     out \<leftarrow> reg_call be (OpRemoveClaiming (p_ID record) (p_Generation record));
     case out of
       RErr e \<Rightarrow> if gone_error e then return () else publishStreamError be record [ErrRegistry e]
     | RFlag removed claimed \<Rightarrow> do {
         t \<leftarrow> timeNow be;
         (if claimed then notify (NClosed removed) else return ());
         publish (eventFromRecord removed t TypePaneClosed ''pane_closed'') }
     | RPane _ \<Rightarrow> return () }"

definition handlePaneUpdate :: "'w Backend \<Rightarrow> PaneRecord \<Rightarrow> string \<Rightarrow> ('w, unit) rt" where
  "handlePaneUpdate be record rendered = do {
     let txt = TrimSpace rendered;
     let key = (p_ID record, p_Generation record);
     be_other be;
     subs \<leftarrow> gets sv_subs;
     (case subs of
        None \<Rightarrow> return ()
      | Some m \<Rightarrow>
          if mget (sm_lastRendered m) key = Some txt then return ()
          else do {
            modify (\<lambda>s. s\<lparr>sv_subs := Some (m\<lparr>sm_lastRendered := mput (sm_lastRendered m) key txt\<rparr>)\<rparr>);
            out \<leftarrow> reg_call be (OpActiveOutput (p_ID record) (p_Generation record) txt);
            case out of
              RErr e \<Rightarrow> if gone_error e then return () else publishStreamError be record [ErrRegistry e]
            | RFlag updated applied \<Rightarrow>
                if \<not> applied then return ()
                else do {
                  notify (NOutput updated txt);
                  t \<leftarrow> timeNow be;
                  publish (eventFromRecord updated t TypeRawOutput txt);
                  forEach (SemanticEventsFromText txt (eventFromRecord updated t TypeRawOutput [])) publish }
            | RPane _ \<Rightarrow> return () }) }"

text \<open>\<open>takeSubscription\<close> followed by cancelling what it took.\<close>

definition takeAndCancel :: "'w Backend \<Rightarrow> PaneID \<Rightarrow> nat \<Rightarrow> ('w, unit) rt" where
  "takeAndCancel be i n = subs_do be (\<lambda>m.
     case takeSubscription i (Some n) m of (m', Some owned) \<Rightarrow> cancelSub owned m' | (_, None) \<Rightarrow> m)"

definition handleParsedLine :: "'w Backend \<Rightarrow> PaneRecord \<Rightarrow> nat \<Rightarrow> frame \<Rightarrow> ('w, unit) rt" where
  "handleParsedLine be record n frame = do {
     current \<leftarrow> subscriptionIsCurrent be record n;
     if \<not> current then return ()
     else case frame of
       Inl _ \<Rightarrow> publishSubscribeParseError be record [ErrJSON]
     | Inr parsed \<Rightarrow>
         if pl_Kind parsed = ParsedSubscribeUnknown \<and> pl_RenderedText parsed = [] \<and> pl_ZellijPaneID parsed = [] then return ()
         else if pl_ZellijPaneID parsed \<noteq> [] \<and> p_ZellijPaneID record \<noteq> [] \<and>
                 pl_ZellijPaneID parsed \<noteq> p_ZellijPaneID record then return ()
         else (case pl_Kind parsed of
             ParsedSubscribePaneClosed \<Rightarrow> do { takeAndCancel be (p_ID record) n; handlePaneClosed be record }
           | ParsedSubscribePaneUpdate \<Rightarrow> handlePaneUpdate be record (pl_RenderedText parsed)
           | ParsedSubscribeUnknown \<Rightarrow> return ()) }"

definition handleLine :: "(string \<Rightarrow> json option) \<Rightarrow> 'w Backend \<Rightarrow> PaneRecord \<Rightarrow> nat \<Rightarrow> string \<Rightarrow> ('w, unit) rt" where
  "handleLine decode be record n line = do {
     current \<leftarrow> subscriptionIsCurrent be record n;
     if \<not> current then return ()
     else handleParsedLine be record n (ParseSubscribeNDJSONLine decode line) }"

section \<open>The worker\<close>

definition ifCurrent :: "'w Backend \<Rightarrow> PaneRecord \<Rightarrow> nat \<Rightarrow> ('w, unit) rt \<Rightarrow> ('w, unit) rt" where
  "ifCurrent be record n f = do { c \<leftarrow> subscriptionIsCurrent be record n; if c then f else return () }"

text \<open>Up to the point where the worker reads frames; the result says whether it goes on to read.\<close>

definition run_start :: "'w Backend \<Rightarrow> PaneRecord \<Rightarrow> nat \<Rightarrow> ('w, bool) rt" where
  "run_start be record n = do {
     err \<leftarrow> be_startProcess be record;
     case err of
       Some cause \<Rightarrow> do { ifCurrent be record n (publishSubscribeStartupFailure be record cause); return False }
     | None \<Rightarrow> do {
         out \<leftarrow> reg_call be (OpActiveStatus (p_ID record) (p_Generation record) PaneStatusRunning ''subscribe active'');
         case out of
           RErr e \<Rightarrow>
             if gone_error e then return False
             else do { ifCurrent be record n (publishSubscribeStartupFailure be record [ErrRegistry e]); return False }
         | RFlag _ applied \<Rightarrow> return applied
         | RPane _ \<Rightarrow> return False } }"

definition run_end :: "'w Backend \<Rightarrow> rt_error option \<Rightarrow> PaneRecord \<Rightarrow> nat \<Rightarrow> ('w, unit) rt" where
  "run_end be readErr record n = do {
     (case readErr of None \<Rightarrow> return () | Some e \<Rightarrow> ifCurrent be record n (publishStreamError be record e));
     waitErr \<leftarrow> be_waitProcess be record;
     (case waitErr of None \<Rightarrow> return () | Some e \<Rightarrow> ifCurrent be record n (publishStreamError be record e));
     (if readErr = None \<and> waitErr = None
      then ifCurrent be record n (publishStreamError be record [ErrOther ''subscribe process exited unexpectedly''])
      else return ());
     ifCurrent be record n (do {
       t \<leftarrow> timeNow be;
       publish (eventFromRecord record t TypeHealthChanged ''subscribe process exited'') }) }"

definition run_worker :: "'w Backend \<Rightarrow> frame list \<Rightarrow> rt_error option \<Rightarrow> PaneRecord \<Rightarrow> nat \<Rightarrow> ('w, unit) rt" where
  "run_worker be frames readErr record n = do {
     reading \<leftarrow> run_start be record n;
     (if reading then do { forEach frames (handleParsedLine be record n); run_end be readErr record n }
      else return ());
     takeAndCancel be (p_ID record) n;
     subs_do be (closeDone n) }"

definition CloseSubscriptions :: "'w Backend \<Rightarrow> ('w, unit) rt" where
  "CloseSubscriptions be = subs_do be (\<lambda>m. (cancelAll (map snd (sm_cancelByPaneID m)) m)
     \<lparr>sm_closed := True, sm_cancelByPaneID := [], sm_lastRendered := []\<rparr>)"

section \<open>The contract holds\<close>

text \<open>The calls on the handle of a record are allowed.\<close>

definition allows :: "(reg_op \<Rightarrow> bool) \<Rightarrow> PaneRecord \<Rightarrow> bool" where
  "allows A p \<longleftrightarrow> (\<forall>op. handle_op (p_ID p) (p_Generation p) op \<longrightarrow> A op)"

lemma allowsD:
  assumes "allows A p"
  shows "A (OpStatus (p_ID p) (p_Generation p) st m)" "A (OpActiveStatus (p_ID p) (p_Generation p) st m)"
    "A (OpClaimClosure (p_ID p) (p_Generation p) st m)" "A (OpInstruction (p_ID p) (p_Generation p) x)"
    "A (OpOutput (p_ID p) (p_Generation p) x)" "A (OpActiveOutput (p_ID p) (p_Generation p) x)"
    "A (OpRemove (p_ID p) (p_Generation p))" "A (OpRemoveClaiming (p_ID p) (p_Generation p))"
  using assms by (simp_all add: allows_def)

text \<open>A claimed closure may be reported once.\<close>

lemma keeps_claiming:
  assumes "backend_steps A be" "A op"
    and "\<And>out. valid (steps A (c + mset (claim_of op out)) s0) (g out) (\<lambda>_. steps A c s0)"
  shows "keeps (steps A c s0) (State_Monad.bind (reg_call be op) g)"
  unfolding keeps_def by (rule valid_bind [OF valid_reg_call [OF assms(1,2)] assms(3)])

lemma valid_drop:
  assumes "\<And>d. keeps (steps A d s0) f" "c \<subseteq># d"
  shows "valid (steps A d s0) f (\<lambda>_. steps A c s0)"
  using valid_keeps [OF assms(1)] by (rule valid_weaken) (auto intro: steps_weaken assms(2))

lemma valid_report:
  "valid (steps A (c + (if b then {#p_Generation p#} else {#})) s0) (if b then notify (NClosed p) else return ())
     (\<lambda>_. steps A c s0)"
  using valid_notify_closed [of A p c s0] by (cases b) (simp_all add: valid_return)

lemma stays_keeps: "(\<And>s0. keeps (steps A {#} s0) f) \<Longrightarrow> stays A f"
  unfolding stays_def by (metis keepsD steps_refl)

text \<open>The subscription \<open>n\<close> belongs to the pane \<open>i\<close>; this outlives anything goroutines do.\<close>

definition owns :: "nat \<Rightarrow> PaneID \<Rightarrow> 'w Service \<Rightarrow> bool" where
  "owns n i s \<longleftrightarrow> (\<forall>m. sv_subs s = Some m \<longrightarrow> n < length (sm_objects m) \<and> fst (sub_key (sm_objects m ! n)) = i)"

lemma owns_steps: "steps A c s s' \<Longrightarrow> owns n i s \<Longrightarrow> owns n i s'"
  using extends_fold unfolding steps_def owns_def extends_def
  by (cases "sv_subs s") (auto simp: less_le_trans)

lemma keeps_owns: "stays A f \<Longrightarrow> keeps (\<lambda>s. steps A c s0 s \<and> owns n i s) f"
  unfolding keeps_def valid_def stays_def by (blast intro: steps_trans0 owns_steps)

lemma valid_abandon:
  assumes "backend_steps A be"
  shows "valid (\<lambda>s. steps A c s0 s \<and> owns n i s) (subs_do be (abandonSubscription i n)) (\<lambda>_. steps A c s0)"
  unfolding subs_do_def
proof (rule valid_bind [OF valid_keeps [OF keeps_owns]])
  show "stays A (be_other be)" using assms by (simp add: backend_steps_def)
  show "valid (\<lambda>s. steps A c s0 s \<and> owns n i s)
      (modify (\<lambda>s. s\<lparr>sv_subs := map_option (abandonSubscription i n) (sv_subs s)\<rparr>)) (\<lambda>_. steps A c s0)"
  proof (rule valid_modify)
    fix s
    assume h: "steps A c s0 s \<and> owns n i s"
    then have "map_option (abandonSubscription i n) (sv_subs s) = map_option (fold sub_step [SAbandon i n]) (sv_subs s)"
      by (cases "sv_subs s") (simp_all add: owns_def)
    then show "steps A c s0 (s\<lparr>sv_subs := map_option (abandonSubscription i n) (sv_subs s)\<rparr>)"
      using h steps_sub_step [of A s "[SAbandon i n]"] by (metis steps_trans0)
  qed
qed

lemma valid_capture:
  "(\<And>x. valid (\<lambda>s. steps A c s0 s \<and> f s = x) (g x) Q) \<Longrightarrow> valid (steps A c s0) (State_Monad.bind (gets f) g) Q"
  by (rule valid_bind [of _ _ "\<lambda>x s. steps A c s0 s \<and> f s = x"]) (auto intro: valid_gets)

lemma valid_forget: "valid P f Q \<Longrightarrow> valid (\<lambda>s. P s \<and> X s) f Q"
  by (simp add: valid_def)

lemma steps_set_subs:
  assumes "steps A c s0 s" "sv_subs s = Some m"
  shows "steps A c s0 (s\<lparr>sv_subs := Some (sub_step op m)\<rparr>)"
  using steps_trans0 [OF assms(1) steps_sub_step [of A s "[op]"]] assms(2) by simp

lemma install_step:
  assumes "installSubscription record m = (m1, Installed n existing)"
  shows "(case existing of None \<Rightarrow> m1 | Some e \<Rightarrow> cancelSub e m1) = sub_step (SInstall record) m"
    "n < length (sm_objects m1)" "fst (sub_key (sm_objects m1 ! n)) = p_ID record"
  using assms by (auto simp: installSubscription_def Let_def nth_append split: if_splits)

lemma valid_install:
  assumes be: "backend_steps A be" and inst: "installSubscription record m = (m1, Installed n existing)"
  shows "valid (\<lambda>s. steps A c s0 s \<and> sv_subs s = Some m)
    (modify (\<lambda>s. s\<lparr>sv_subs := Some (case existing of None \<Rightarrow> m1 | Some e \<Rightarrow> cancelSub e m1)\<rparr>))
    (\<lambda>_ s. steps A c s0 s \<and> owns n (p_ID record) s)"
proof (rule valid_modify)
  fix s
  assume h: "steps A c s0 s \<and> sv_subs s = Some m"
  let ?m = "case existing of None \<Rightarrow> m1 | Some e \<Rightarrow> cancelSub e m1"
  have "owns n (p_ID record) (s\<lparr>sv_subs := Some ?m\<rparr>)"
    using install_step(2,3) [OF inst] by (auto simp: owns_def split: option.splits)
  moreover have "steps A c s0 (s\<lparr>sv_subs := Some ?m\<rparr>)"
    unfolding install_step(1) [OF inst] using h by (blast intro: steps_set_subs)
  ultimately show "steps A c s0 (s\<lparr>sv_subs := Some ?m\<rparr>) \<and> owns n (p_ID record) (s\<lparr>sv_subs := Some ?m\<rparr>)" by blast
qed

lemma keeps_startRecord:
  assumes be: "backend_steps A be"
  shows "keeps (steps A c s0) (startRecord be record)"
proof -
  have stay: "stays A (getPane be i)" for i by (rule stays_keeps) (rule keeps_getPane [OF be])
  have abandon: "valid (\<lambda>s. steps A c s0 s \<and> owns n i s)
      (do { subs_do be (abandonSubscription i n); return b }) (\<lambda>_. steps A c s0)" for n i b
    by (rule valid_bind [OF valid_abandon [OF be]]) (rule valid_return)
  have run: "keeps (steps A c s0) (subs_do be (\<lambda>m. m\<lparr>sm_running := sm_running m @ [(n, record)]\<rparr>))" for n
    by (rule keeps_subs_do [OF be, where sops = "[SRun n record]"]) simp
  have main: "valid (\<lambda>s. steps A c s0 s \<and> sv_subs s = Some m)
      (case result of Refused \<Rightarrow> return False | Retry \<Rightarrow> return True
        | Installed n existing \<Rightarrow> do {
           modify (\<lambda>s. s\<lparr>sv_subs := Some (case existing of None \<Rightarrow> m1 | Some e \<Rightarrow> cancelSub e m1)\<rparr>);
           current \<leftarrow> getPane be (p_ID record);
           (case current of
              Inl _ \<Rightarrow> do { subs_do be (abandonSubscription (p_ID record) n); return False }
            | Inr c \<Rightarrow>
                if p_Generation c \<noteq> p_Generation record
                then do { subs_do be (abandonSubscription (p_ID record) n); return True }
                else do { subs_do be (\<lambda>m. m\<lparr>sm_running := sm_running m @ [(n, record)]\<rparr>); return False }) })
      (\<lambda>_. steps A c s0)" if inst: "installSubscription record m = (m1, result)" for m m1 result
  proof (cases result)
    case (Installed n existing)
    show ?thesis unfolding Installed install.case
      by (rule valid_bind [OF valid_install [OF be inst [unfolded Installed]]],
          rule valid_bind [OF valid_keeps [OF keeps_owns [OF stay]]])
        (auto split: sum.split intro!: abandon valid_forget valid_bind [OF valid_keeps [OF run]] valid_return)
  qed (auto intro: valid_return)
  show ?thesis unfolding keeps_def startRecord_def
    by (rule valid_bind [OF valid_keeps [OF backend_keeps(1) [OF be]]], rule valid_capture)
      (auto split: option.split prod.split intro: valid_return main)
qed

lemma keeps_StartPane: "backend_steps A be \<Longrightarrow> keeps (steps A c s0) (StartPane fuel be i)"
  by (induction fuel) (auto intro!: keep rt_keep keeps_startRecord)

lemma keeps_observers:
  assumes be: "backend_steps A be"
  shows "keeps (steps A c s0) (subscriptionIsCurrent be record n)" "keeps (steps A c s0) (currentActive be record)"
    "keeps (steps A c s0) (publishStreamError be record cause)"
    "keeps (steps A c s0) (publishSubscribeParseError be record cause)"
  unfolding subscriptionIsCurrent_def publishStreamError_def publishSubscribeParseError_def currentActive_def
  by (auto intro!: keep rt_keep be)

lemma keeps_publishSubscribeStartupFailure:
  assumes be: "backend_steps A be" and A: "allows A record"
  shows "keeps (steps A c s0) (publishSubscribeStartupFailure be record cause)"
  unfolding publishSubscribeStartupFailure_def by (auto intro!: keep rt_keep be allowsD [OF A])

lemma keeps_handlePaneClosed:
  assumes be: "backend_steps A be" and A: "allows A record"
  shows "keeps (steps A c s0) (handlePaneClosed be record)"
  unfolding handlePaneClosed_def
proof (rule keeps_claiming [OF be allowsD(8) [OF A]])
  fix out
  show "valid (steps A (c + mset (claim_of (OpRemoveClaiming (p_ID record) (p_Generation record)) out)) s0)
     (case out of
       RErr e \<Rightarrow> if gone_error e then return () else publishStreamError be record [ErrRegistry e]
     | RFlag removed claimed \<Rightarrow> do {
         t \<leftarrow> timeNow be;
         (if claimed then notify (NClosed removed) else return ());
         publish (eventFromRecord removed t TypePaneClosed ''pane_closed'') }
     | RPane _ \<Rightarrow> return ()) (\<lambda>_. steps A c s0)"
  proof (cases out)
    case (RFlag p b)
    have "mset (claim_of (OpRemoveClaiming (p_ID record) (p_Generation record)) out) = (if b then {#p_Generation p#} else {#})"
      using RFlag by simp
    then have "steps A (c + mset (claim_of (OpRemoveClaiming (p_ID record) (p_Generation record)) out)) s0 =
        steps A (c + (if b then {#p_Generation p#} else {#})) s0" by (rule arg_cong)
    then show ?thesis unfolding RFlag reg_out.case
      by (simp only:) (rule valid_bind [OF valid_keeps [OF keeps_timeNow]], rule valid_bind [OF valid_report],
          simp add: valid_keeps keep)
  qed (auto intro!: valid_keeps keeps_observers be keep)
qed
lemma keeps_handlePaneUpdate:
  assumes be: "backend_steps A be" and A: "allows A record"
  shows "keeps (steps A c s0) (handlePaneUpdate be record txt)"
proof -
  have set: "valid (\<lambda>s. steps A c s0 s \<and> sv_subs s = Some m)
      (modify (\<lambda>s. s\<lparr>sv_subs := Some (m\<lparr>sm_lastRendered := mput (sm_lastRendered m) k t\<rparr>)\<rparr>)) (\<lambda>_. steps A c s0)" for m k t
    by (rule valid_modify) (use steps_set_subs [of A c s0 _ m "SRender k t"] in simp)
  show ?thesis unfolding handlePaneUpdate_def Let_def keeps_def
    by (rule valid_bind [OF valid_keeps [OF backend_keeps(1) [OF be]]], rule valid_capture)
      (auto split: option.split reg_out.split intro!: valid_return valid_bind [OF set] valid_keeps keep rt_keep be
        allowsD [OF A] keeps_observers)
qed

lemma keeps_takeAndCancel: "backend_steps A be \<Longrightarrow> keeps (steps A c s0) (takeAndCancel be i n)"
  unfolding takeAndCancel_def by (rule keeps_subs_do [where sops = "[STake i n]"]) simp_all

lemma keeps_case_kind [keep]:
  "keeps I a \<Longrightarrow> keeps I b \<Longrightarrow> keeps I d \<Longrightarrow> keeps I (case k of ParsedSubscribeUnknown \<Rightarrow> a
    | ParsedSubscribePaneUpdate \<Rightarrow> b | ParsedSubscribePaneClosed \<Rightarrow> d)"
  by (cases k) simp_all

lemma keeps_handleParsedLine:
  assumes be: "backend_steps A be" and A: "allows A record"
  shows "keeps (steps A c s0) (handleParsedLine be record n frame)"
  unfolding handleParsedLine_def
  by (intro keeps_case_kind keep rt_keep be A keeps_observers keeps_takeAndCancel keeps_handlePaneClosed keeps_handlePaneUpdate)

lemma keeps_run_worker:
  assumes be: "backend_steps A be" and A: "allows A record"
  shows "keeps (steps A c s0) (run_worker be frames readErr record n)"
  unfolding run_worker_def run_start_def run_end_def ifCurrent_def
  by (auto intro!: keep rt_keep be A keeps_observers keeps_takeAndCancel keeps_handleParsedLine
      keeps_publishSubscribeStartupFailure allowsD [OF A] keeps_subs_do [where sops = "[SDone n]"])

lemma keeps_CloseSubscriptions: "backend_steps A be \<Longrightarrow> keeps (steps A c s0) (CloseSubscriptions be)"
  unfolding CloseSubscriptions_def by (rule keeps_subs_do [where sops = "[SClose]"]) simp_all

lemma keeps_handleLine:
  assumes be: "backend_steps A be" and A: "allows A record"
  shows "keeps (steps A c s0) (handleLine decode be record n line)"
  unfolding handleLine_def by (auto intro!: keep rt_keep be A keeps_observers keeps_handleParsedLine)

end
