(* ===== verification/Runtime_Create.thy ===== *)
theory Runtime_Create
  imports Runtime_Subs
begin

text \<open>
  Creating panes: \<open>CreatePane\<close> of \<^verbatim>\<open>src/internal/runtime/service.go\<close> with everything it calls,
  \<^verbatim>\<open>src/internal/runtime/parent_tab.go\<close>, \<^verbatim>\<open>src/internal/runtime/pane_initialization.go\<close> and
  \<^verbatim>\<open>src/internal/runtime/claim.go\<close>.

  Concurrent requests for one pane identifier are merged: the first is the leader and does the
  work, the others wait for its result. The map of calls changes in two critical sections,
  \<open>beginCreate\<close> and \<open>finishCreate\<close>, which are functions on the map and the calls; their state
  machine is \<open>create_reach\<close>. The lock \<open>parentTabMu\<close> has no counterpart: the theorems hold
  whatever runs in between.
\<close>

section \<open>Merging requests\<close>

datatype begun = Leader nat | Follower nat

type_synonym creates = "(PaneID, nat) gomap \<times> createPaneCall list"

definition samePaneGeneration :: "PaneRecord option \<Rightarrow> PaneRecord \<Rightarrow> bool" where
  "samePaneGeneration want got =
     (case want of
        None \<Rightarrow> False
      | Some w \<Rightarrow> p_ID w \<noteq> [] \<and> p_ID w = p_ID got \<and> p_Generation w = p_Generation got \<and>
          p_ZellijPaneID w = p_ZellijPaneID got)"

definition call_of :: "createPaneCall list \<Rightarrow> nat \<Rightarrow> createPaneCall option" where
  "call_of calls n = (if n < length calls then Some (calls ! n) else None)"

text \<open>The critical section of \<open>beginCreatePane\<close>; \<open>dropping\<close> says that a finished call may go.\<close>

definition beginCreate :: "bool \<Rightarrow> CreatePaneRequest \<Rightarrow> creates \<Rightarrow> (rt_error + begun) \<times> creates" where
  "beginCreate dropping req = (\<lambda>(cs, calls).
     let i = cr_ID req;
         finished = (\<lambda>n. case call_of calls n of None \<Rightarrow> True | Some c \<Rightarrow> cc_result c \<noteq> None);
         cs' = (case mget cs i of None \<Rightarrow> cs | Some n \<Rightarrow> if finished n \<and> dropping then mdel cs i else cs)
     in case mget cs' i of
          Some n \<Rightarrow>
            (if map_option cc_request (call_of calls n) \<noteq> Some req then Inl [ErrRegistry ErrAlreadyExists]
             else Inr (Follower n), (cs', calls))
        | None \<Rightarrow>
            (Inr (Leader (length calls)),
             (mput cs' i (length calls),
              calls @ [\<lparr>cc_request = req, cc_result = None, cc_createdRecord = None\<rparr>])))"

definition finishCreate :: "nat \<Rightarrow> PaneRecord option \<Rightarrow> rt_error + PaneRecord \<Rightarrow> creates \<Rightarrow> creates" where
  "finishCreate n created result = (\<lambda>(cs, calls).
     case call_of calls n of
       None \<Rightarrow> (cs, calls)
     | Some c \<Rightarrow>
         ((case result of
             Inl err \<Rightarrow> if ErrCleanupPartial \<in> set err then cs else mdel cs (cr_ID (cc_request c))
           | Inr _ \<Rightarrow> cs),
          calls[n := c\<lparr>cc_createdRecord := (case created of Some r \<Rightarrow> if p_ID r \<noteq> [] then Some r else cc_createdRecord c
                                                      | None \<Rightarrow> cc_createdRecord c),
                       cc_result := Some result\<rparr>]))"

definition creates_of :: "'w Service \<Rightarrow> creates" where
  "creates_of s = (sv_creates s, sv_calls s)"

definition set_creates :: "creates \<Rightarrow> 'w Service \<Rightarrow> 'w Service" where
  "set_creates x s = s\<lparr>sv_creates := fst x, sv_calls := snd x\<rparr>"

text \<open>Whether the finished call for the identifier may be forgotten.\<close>

definition mayDrop :: "'w Backend \<Rightarrow> PaneID \<Rightarrow> ('w, bool) rt" where
  "mayDrop be i = do {
     existing \<leftarrow> gets (\<lambda>s. case mget (sv_creates s) i of None \<Rightarrow> None | Some n \<Rightarrow> call_of (sv_calls s) n);
     case existing of
       None \<Rightarrow> return False
     | Some call \<Rightarrow>
         (case cc_result call of
            None \<Rightarrow> return False
          | Some result \<Rightarrow> do {
              r \<leftarrow> getPane be i;
              (case result of
                 Inr _ \<Rightarrow> return (case r of
                     Inl e \<Rightarrow> e = ErrNotFound
                   | Inr record \<Rightarrow> p_Status record \<noteq> PaneStatusStarting \<and> p_Status record \<noteq> PaneStatusRunning)
               | Inl err \<Rightarrow>
                   if ErrCleanupPartial \<in> set err then
                     (case r of
                        Inl _ \<Rightarrow> return False
                      | Inr record \<Rightarrow>
                          if samePaneGeneration (cc_createdRecord call) record \<and> isTerminalPaneStatus (p_Status record)
                          then do {
                            out \<leftarrow> reg_call be (OpRemove (p_ID record) (p_Generation record));
                            return (case out of RErr e \<Rightarrow> e = ErrNotFound | _ \<Rightarrow> True) }
                          else return False)
                   else return False) }) }"

definition beginCreatePane :: "'w Backend \<Rightarrow> CreatePaneRequest \<Rightarrow> ('w, rt_error + begun) rt" where
  "beginCreatePane be req = do {
     be_other be;
     dropping \<leftarrow> mayDrop be (cr_ID req);
     result \<leftarrow> gets (\<lambda>s. fst (beginCreate dropping req (creates_of s)));
     modify (\<lambda>s. set_creates (snd (beginCreate dropping req (creates_of s))) s);
     return result }"

definition finishCreatePane :: "'w Backend \<Rightarrow> nat \<Rightarrow> PaneRecord option \<Rightarrow> rt_error + PaneRecord \<Rightarrow> ('w, unit) rt" where
  "finishCreatePane be n created result = do {
     be_other be;
     modify (\<lambda>s. set_creates (finishCreate n created result (creates_of s)) s) }"

text \<open>A follower waits for the leader's result or the end of its context.\<close>

fun awaitCreate :: "nat \<Rightarrow> 'w Backend \<Rightarrow> nat \<Rightarrow> ('w, rt_error + PaneRecord) rt" where
  "awaitCreate 0 be n = do { e \<leftarrow> be_ctxErr be; return (Inl (case e of None \<Rightarrow> [ErrCanceled] | Some err \<Rightarrow> err)) }"
| "awaitCreate (Suc k) be n = do {
     be_other be;
     call \<leftarrow> gets (\<lambda>s. call_of (sv_calls s) n);
     case call of
       None \<Rightarrow> awaitCreate k be n
     | Some c \<Rightarrow> (case cc_result c of None \<Rightarrow> awaitCreate k be n | Some r \<Rightarrow> return r) }"

section \<open>Choosing the tab\<close>

definition with_tab :: "int \<Rightarrow> CreatePaneRequest \<Rightarrow> CreatePaneRequest" where
  "with_tab t req = req\<lparr>cr_ZellijTabID := Some t\<rparr>"

definition sibling :: "CreatePaneRequest \<Rightarrow> PaneRecord \<Rightarrow> bool" where
  "sibling req r \<longleftrightarrow> p_ParentPaneID r = cr_ParentPaneID req \<and> p_SessionID r = cr_ZellijSession req \<and>
     (p_Status r = PaneStatusStarting \<or> p_Status r = PaneStatusRunning) \<and> p_ZellijPaneID r \<noteq> []"

fun first_live :: "PaneRecord list \<Rightarrow> ZPane list \<Rightarrow> ZPane option" where
  "first_live [] panes = None"
| "first_live (r # rs) panes =
     (case find (\<lambda>p. z_ID p = p_ZellijPaneID r \<and> \<not> z_IsPlugin p \<and> \<not> z_Exited p) panes of
        Some p \<Rightarrow> Some p | None \<Rightarrow> first_live rs panes)"

definition resolveParentTab :: "'w Backend \<Rightarrow> CreatePaneRequest \<Rightarrow> ('w, rt_error + CreatePaneRequest) rt" where
  "resolveParentTab be req = do {
     e \<leftarrow> be_ctxErr be;
     case e of
       Some err \<Rightarrow> return (Inl err)
     | None \<Rightarrow>
         if cr_ParentPaneID req = [] \<or> \<not> cr_NewTab req \<or> cr_ZellijTabID req \<noteq> None \<or>
            cr_SameTabAsPaneID req \<noteq> [] \<or> cr_SameTabAsZellijPaneID req \<noteq> [] then return (Inl [ErrInvalidPaneTarget])
         else do {
           records \<leftarrow> listPanes be;
           let siblings = filter (sibling req) records;
           if siblings = [] then return (Inr req)
           else do {
             panes \<leftarrow> be_ListPanes be (cr_ZellijSession req);
             return (case panes of
               Inl err \<Rightarrow> Inl err
             | Inr ps \<Rightarrow>
                 (case first_live siblings ps of
                    None \<Rightarrow> Inr req
                  | Some p \<Rightarrow> Inr ((with_tab (z_TabID p) req)\<lparr>cr_NewTab := False, cr_TabName := z_TabName p\<rparr>))) } } }"

text \<open>\<open>sessions[0]\<close> and the requested session change places.\<close>

definition swap_front :: "string \<Rightarrow> string list \<Rightarrow> string list" where
  "swap_front x xs =
     (case filter (\<lambda>j. xs ! j = x) [0..<length xs] of
        [] \<Rightarrow> xs
      | j # _ \<Rightarrow> xs[0 := xs ! j, j := xs ! 0])"

fun find_cwd :: "'w Backend \<Rightarrow> string \<Rightarrow> ZPane list \<Rightarrow> ('w, ZPane option) rt" where
  "find_cwd be want [] = return None"
| "find_cwd be want (p # ps) =
     (if z_IsPlugin p \<or> z_Exited p \<or> z_CWD p = [] then find_cwd be want ps
      else do {
        cwd \<leftarrow> be_EvalSymlinks be (z_CWD p);
        if cwd = Inr want then return (Some p) else find_cwd be want ps })"

definition resolveDirectoryTab :: "'w Backend \<Rightarrow> CreatePaneRequest \<Rightarrow> ('w, rt_error + CreatePaneRequest) rt" where
  "resolveDirectoryTab be req =
     (if \<not> cr_NewTab req \<or> cr_ZellijTabID req \<noteq> None \<or> cr_SameTabAsPaneID req \<noteq> [] \<or> cr_SameTabAsZellijPaneID req \<noteq> []
      then return (Inl [ErrInvalidPaneTarget])
      else case be_ActiveSessions be of
        None \<Rightarrow> return (Inl [ErrOther ''listing live Zellij sessions is unavailable''])
      | Some active \<Rightarrow> do {
          want \<leftarrow> be_EvalSymlinks be (cr_CWD req);
          case want of
            Inl err \<Rightarrow> return (Inl err)
          | Inr dir \<Rightarrow> do {
              sessions \<leftarrow> active;
              case sessions of
                Inl err \<Rightarrow> return (Inl err)
              | Inr ss \<Rightarrow> do {
                  r \<leftarrow> forUntil (swap_front (cr_ZellijSession req) (sort ss)) () (\<lambda>session _. do {
                    panes \<leftarrow> be_ListPanes be session;
                    case panes of
                      Inl err \<Rightarrow> return (Inl (Inl err))
                    | Inr ps \<Rightarrow> do {
                        hit \<leftarrow> find_cwd be dir ps;
                        return (case hit of
                          None \<Rightarrow> Inr ()
                        | Some p \<Rightarrow> Inl (Inr ((with_tab (z_TabID p) req)\<lparr>cr_ZellijSession := session, cr_NewTab := False\<rparr>))) } });
                  return (case r of Inl out \<Rightarrow> out | Inr _ \<Rightarrow> Inr req) } } })"

text \<open>The only pane with an identifier, if it is a terminal.\<close>

definition only_terminal :: "ZellijPaneID \<Rightarrow> ZPane list \<Rightarrow> rt_error + ZPane" where
  "only_terminal z panes =
     (case filter (\<lambda>p. z_ID p = z) panes of
        [] \<Rightarrow> Inl [ErrPaneNotFound]
      | [p] \<Rightarrow> if z_IsPlugin p then Inl [ErrInvalidPaneTarget] else Inr p
      | _ \<Rightarrow> Inl [ErrInvalidPaneTarget])"

definition resolveCreatePaneTarget :: "'w Backend \<Rightarrow> CreatePaneRequest \<Rightarrow> ('w, rt_error + CreatePaneRequest) rt" where
  "resolveCreatePaneTarget be req =
     (if cr_NewTab req \<and> cr_ZellijTabID req \<noteq> None then return (Inl [ErrInvalidPaneTarget])
      else if cr_SameTabAsZellijPaneID req \<noteq> [] then
        if cr_NewTab req \<or> cr_ZellijTabID req \<noteq> None \<or> cr_SameTabAsPaneID req \<noteq> [] then return (Inl [ErrInvalidPaneTarget])
        else do {
          panes \<leftarrow> be_ListPanes be (cr_ZellijSession req);
          return (case panes of
            Inl err \<Rightarrow> Inl err
          | Inr ps \<Rightarrow>
              (case only_terminal (cr_SameTabAsZellijPaneID req) ps of
                 Inl err \<Rightarrow> Inl err
               | Inr p \<Rightarrow> Inr (with_tab (z_TabID p) req))) }
      else if cr_SameTabAsPaneID req = [] then return (Inr req)
      else if cr_NewTab req \<or> cr_ZellijTabID req \<noteq> None then return (Inl [ErrInvalidPaneTarget])
      else do {
        anchor \<leftarrow> svcLookupPane be (cr_SameTabAsPaneID req);
        return (case anchor of
          Inl err \<Rightarrow> Inl err
        | Inr a \<Rightarrow>
            if p_Status a \<noteq> PaneStatusStarting \<and> p_Status a \<noteq> PaneStatusRunning then Inl [ErrInvalidPaneTarget]
            else if p_SessionID a \<noteq> cr_ZellijSession req then Inl [ErrInvalidPaneTarget]
            else (case p_ZellijTabID a of
                    None \<Rightarrow> Inl [ErrInvalidPaneTarget]
                  | Some t \<Rightarrow> Inr (with_tab t req))) })"

section \<open>Creating the backend's pane\<close>

definition findPaneByID :: "'w Backend \<Rightarrow> string \<Rightarrow> ZellijPaneID \<Rightarrow> ('w, rt_error + ZPane) rt" where
  "findPaneByID be session z = do {
     panes \<leftarrow> be_ListPanes be session;
     return (case panes of
       Inl err \<Rightarrow> Inl err
     | Inr ps \<Rightarrow> (case find (\<lambda>p. z_ID p = z) ps of None \<Rightarrow> Inl [ErrPaneNotFound] | Some p \<Rightarrow> Inr p)) }"

fun findPaneInTab :: "nat \<Rightarrow> 'w Backend \<Rightarrow> string \<Rightarrow> int \<Rightarrow> ('w, rt_error + ZPane) rt" where
  "findPaneInTab k be session tab = do {
     panes \<leftarrow> be_ListPanes be session;
     case panes of
       Inl err \<Rightarrow> return (Inl err)
     | Inr ps \<Rightarrow>
         (case find (\<lambda>p. z_TabID p = tab \<and> \<not> z_IsPlugin p) ps of
            Some p \<Rightarrow> return (Inr p)
          | None \<Rightarrow> (case k of
              0 \<Rightarrow> do { e \<leftarrow> be_ctxErr be; return (Inl (ErrPaneNotFound # (case e of None \<Rightarrow> [ErrCanceled] | Some err \<Rightarrow> err))) }
            | Suc k' \<Rightarrow> findPaneInTab k' be session tab)) }"

declare findPaneInTab.simps [simp del]

datatype cleanup = NilCleanup | CleanTab string int | CleanPane string ZellijPaneID

fun runCleanup :: "'w Backend \<Rightarrow> cleanup \<Rightarrow> ('w, rt_error option) rt" where
  "runCleanup be NilCleanup = return None"
| "runCleanup be (CleanTab session tab) = be_CloseTab be session tab"
| "runCleanup be (CleanPane session z) = be_ClosePane be session z"

record backendPane =
  bp_ID :: ZellijPaneID
  bp_Tab :: "int option"
  bp_TabName :: string
  bp_Cleanup :: cleanup

definition createBackendPane :: "'w Backend \<Rightarrow> CreatePaneRequest \<Rightarrow> ('w, (rt_error \<times> cleanup) + backendPane) rt" where
  "createBackendPane be req = do {
     ensured \<leftarrow> (if cr_EnsureSession req then
         (case be_EnsureSession be of
            None \<Rightarrow> return (Some [ErrOther ''session creation is unavailable''])
          | Some ensure \<Rightarrow> ensure (cr_ZellijSession req))
       else return None);
     case ensured of
       Some err \<Rightarrow> return (Inl (err, NilCleanup))
     | None \<Rightarrow>
         if cr_NewTab req then do {
           tab \<leftarrow> be_CreateTab be \<lparr>zc_NoFocus = cr_NoFocus req, zc_Session = cr_ZellijSession req, zc_Name = cr_TabName req,
               zc_CWD = cr_CWD req, zc_LayoutString = cr_LayoutString req, zc_TabID = None, zc_Command = cr_Command req\<rparr>;
           case tab of
             Inl err \<Rightarrow> return (Inl (err, NilCleanup))
           | Inr t \<Rightarrow> do {
               k \<leftarrow> gets (be_rounds be);
               pane \<leftarrow> findPaneInTab k be (cr_ZellijSession req) t;
               return (case pane of
                 Inl err \<Rightarrow> Inl (err, CleanTab (cr_ZellijSession req) t)
               | Inr p \<Rightarrow> Inr \<lparr>bp_ID = z_ID p, bp_Tab = Some t,
                   bp_TabName = (if cr_TabName req = [] then z_TabName p else cr_TabName req),
                   bp_Cleanup = CleanTab (cr_ZellijSession req) t\<rparr>) } }
         else do {
           created \<leftarrow> be_CreatePane be \<lparr>zc_NoFocus = cr_NoFocus req, zc_Session = cr_ZellijSession req, zc_Name = cr_Name req,
               zc_CWD = cr_CWD req, zc_LayoutString = [], zc_TabID = cr_ZellijTabID req, zc_Command = cr_Command req\<rparr>;
           case created of
             Inl err \<Rightarrow> return (Inl (err, NilCleanup))
           | Inr z \<Rightarrow> do {
               pane \<leftarrow> findPaneByID be (cr_ZellijSession req) z;
               return (Inr \<lparr>bp_ID = z,
                 bp_Tab = (case pane of Inl _ \<Rightarrow> cr_ZellijTabID req | Inr p \<Rightarrow> Some (z_TabID p)),
                 bp_TabName = (case pane of Inl _ \<Rightarrow> cr_TabName req | Inr p \<Rightarrow> z_TabName p),
                 bp_Cleanup = CleanPane (cr_ZellijSession req) z\<rparr>) } } }"

definition createPaneCleanupError :: "rt_error \<Rightarrow> rt_error option \<Rightarrow> rt_error" where
  "createPaneCleanupError cause cleanupErr = (case cleanupErr of None \<Rightarrow> cause | Some _ \<Rightarrow> cause @ [ErrCleanupPartial])"

text \<open>\<open>filepath.Base\<close> on a slash-separated path.\<close>

definition path_Base :: "string \<Rightarrow> string" where
  "path_Base p =
     (let q = TrimRightByte CHR ''/'' p
      in if p = [] then ''.'' else if q = [] then ''/'' else last (SplitByte CHR ''/'' q))"

text \<open>The parent's part of \<open>createPaneOnce\<close>: the tab is named after the parent's title or directory.\<close>

definition nameAfterParent :: "'w Backend \<Rightarrow> CreatePaneRequest \<Rightarrow> PaneID \<Rightarrow> ('w, rt_error + CreatePaneRequest) rt" where
  "nameAfterParent be req i =
     (if cr_ParentPaneID req = [] then return (Inr req)
      else if cr_ParentPaneID req = i then return (Inl [ErrInvalidPaneTarget])
      else do {
        parent \<leftarrow> svcLookupPane be (cr_ParentPaneID req);
        case parent of
          Inl err \<Rightarrow> return (Inl err)
        | Inr p \<Rightarrow>
            if cr_NewTab req \<and> cr_TabName req = [] then do {
              live \<leftarrow> findPaneByID be (p_SessionID p) (p_ZellijPaneID p);
              return (case live of
                Inl err \<Rightarrow> Inl err
              | Inr z \<Rightarrow> let title = TrimSpace (z_Title z)
                         in Inr (req\<lparr>cr_TabName := (if title = [] then path_Base (p_CWD p) else title)\<rparr>)) }
            else return (Inr req) })"

definition registerRequest :: "CreatePaneRequest \<Rightarrow> PaneID \<Rightarrow> string \<Rightarrow> backendPane \<Rightarrow> RegisterPaneRequest" where
  "registerRequest req i token bp =
     \<lparr>rq_ParentPaneID = cr_ParentPaneID req, rq_ID = i, rq_OwnershipToken = token, rq_SessionID = cr_ZellijSession req,
      rq_TabID = (case bp_Tab bp of Some t \<Rightarrow> Itoa t | None \<Rightarrow> bp_TabName bp),
      rq_TaskID = cr_TaskID req, rq_AgentID = cr_AgentID req, rq_ZellijPaneID = bp_ID bp, rq_ZellijTabID = bp_Tab bp,
      rq_TabName = bp_TabName bp, rq_Role = cr_Role req, rq_Command = cr_Command req, rq_CWD = cr_CWD req, rq_Status = None\<rparr>"

definition startSubscription :: "'w Backend \<Rightarrow> PaneID \<Rightarrow> ('w, unit) rt" where
  "startSubscription be i = do { k \<leftarrow> gets (be_rounds be); StartPane k be i; return () }"

definition createPaneOnce :: "'w Backend \<Rightarrow> CreatePaneRequest \<Rightarrow> PaneID \<Rightarrow> ('w, rt_error + PaneRecord) rt" where
  "createPaneOnce be req0 i = do {
     named \<leftarrow> nameAfterParent be req0 i;
     case named of
       Inl err \<Rightarrow> return (Inl err)
     | Inr req \<Rightarrow> do {
         token \<leftarrow> be_newOwnershipToken be;
         case token of
           Inl err \<Rightarrow> return (Inl err)
         | Inr tok \<Rightarrow> do {
             pane \<leftarrow> createBackendPane be req;
             case pane of
               Inl (err, clean) \<Rightarrow> do { e \<leftarrow> runCleanup be clean; return (Inl (createPaneCleanupError err e)) }
             | Inr bp \<Rightarrow> do {
                 out \<leftarrow> reg_call be (OpRegister (registerRequest req i tok bp));
                 case out of
                   RErr e \<Rightarrow> do { e' \<leftarrow> runCleanup be (bp_Cleanup bp); return (Inl (createPaneCleanupError [ErrRegistry e] e')) }
                 | RPane record \<Rightarrow> do { notify (NOpened record); startSubscription be i; return (Inr record) }
                 | RFlag record _ \<Rightarrow> return (Inr record) } } } }"

section \<open>The first input\<close>

fun waitForPaneInitialInputReady :: "nat \<Rightarrow> 'w Backend \<Rightarrow> PaneRecord \<Rightarrow> string \<Rightarrow> rt_error \<Rightarrow> ('w, rt_error option) rt" where
  "waitForPaneInitialInputReady k be record ready lastErr =
     (if ready = [] then return None
      else do {
        screen \<leftarrow> be_DumpScreen be (p_SessionID record) (p_ZellijPaneID record) False False;
        let lastErr' = (case screen of Inl err \<Rightarrow> err | Inr _ \<Rightarrow> lastErr);
        if (case screen of Inl _ \<Rightarrow> False | Inr output \<Rightarrow> Contains output ready) then return None
        else (case k of
            0 \<Rightarrow> do { e \<leftarrow> be_ctxErr be; return (Some ((case e of None \<Rightarrow> [ErrCanceled] | Some err \<Rightarrow> err) @ lastErr')) }
          | Suc k' \<Rightarrow> waitForPaneInitialInputReady k' be record ready lastErr') })"

declare waitForPaneInitialInputReady.simps [simp del]

definition initializeCreatedPane :: "'w Backend \<Rightarrow> PaneRecord \<Rightarrow> string \<Rightarrow> string \<Rightarrow> ('w, rt_error option) rt" where
  "initializeCreatedPane be record initialInput readyText =
     (if initialInput = [] then return None
      else do {
        k \<leftarrow> gets (be_rounds be);
        waited \<leftarrow> waitForPaneInitialInputReady k be record readyText [];
        case waited of
          Some err \<Rightarrow> return (Some err)
        | None \<Rightarrow> do {
            current \<leftarrow> getPane be (p_ID record);
            case current of
              Inl e \<Rightarrow> return (Some [ErrRegistry e])
            | Inr c \<Rightarrow>
                if p_Generation c \<noteq> p_Generation record then return (Some [ErrRegistry ErrStaleRecord])
                else be_SendInput be (p_SessionID record) (p_ZellijPaneID record) initialInput } })"

definition cleanupCreatedPane :: "'w Backend \<Rightarrow> PaneRecord \<Rightarrow> ('w, rt_error option) rt" where
  "cleanupCreatedPane be record = do {
     closed \<leftarrow> be_ClosePane be (p_SessionID record) (p_ZellijPaneID record);
     case closed of
       Some err \<Rightarrow> return (Some err)
     | None \<Rightarrow> do {
         StopPaneGeneration be (p_ID record) (p_Generation record);
         out \<leftarrow> reg_call be (OpRemove (p_ID record) (p_Generation record));
         return (case out of RErr e \<Rightarrow> if gone_error e then None else Some [ErrRegistry e] | _ \<Rightarrow> None) } }"

definition paneInitializationError :: "rt_error \<Rightarrow> rt_error option \<Rightarrow> rt_error" where
  "paneInitializationError cause cleanupErr =
     ErrPaneInitializationFailed # cause @ (case cleanupErr of None \<Rightarrow> [] | Some _ \<Rightarrow> [ErrCleanupPartial])"

section \<open>CreatePane\<close>

text \<open>The leader's work: the created record, if there is one, and the result.\<close>

definition leadCreate :: "'w Backend \<Rightarrow> CreatePaneRequest \<Rightarrow> ('w, PaneRecord option \<times> (rt_error + PaneRecord)) rt" where
  "leadCreate be req0 = do {
     r1 \<leftarrow> (if cr_ReuseParentTab req0 then resolveParentTab be req0 else return (Inr req0));
     case r1 of
       Inl err \<Rightarrow> return (None, Inl err)
     | Inr req1 \<Rightarrow> do {
         r2 \<leftarrow> (if cr_ReuseDirectoryTab req1 then resolveDirectoryTab be req1 else return (Inr req1));
         case r2 of
           Inl err \<Rightarrow> return (None, Inl err)
         | Inr req2 \<Rightarrow> do {
             r3 \<leftarrow> resolveCreatePaneTarget be req2;
             case r3 of
               Inl err \<Rightarrow> return (None, Inl err)
             | Inr req \<Rightarrow> do {
                 created \<leftarrow> createPaneOnce be req (cr_ID req);
                 case created of
                   Inl err \<Rightarrow> return (None, Inl err)
                 | Inr record \<Rightarrow> do {
                     e \<leftarrow> initializeCreatedPane be record (cr_InitialInput req) (cr_InitialInputReadyText req);
                     case e of
                       None \<Rightarrow> return (Some record, Inr record)
                     | Some err \<Rightarrow> do {
                         cleanupErr \<leftarrow> cleanupCreatedPane be record;
                         return (Some record, Inl (paneInitializationError err cleanupErr)) } } } } } }"

definition CreatePane :: "'w Backend \<Rightarrow> CreatePaneRequest \<Rightarrow> ('w, rt_error + PaneRecord) rt" where
  "CreatePane be req0 = do {
     let req1 = req0\<lparr>cr_ZellijSession := TrimSpace (cr_ZellijSession req0)\<rparr>;
     if cr_ZellijSession req1 = [] then return (Inl [ErrZellijSessionRequired])
     else do {
       i \<leftarrow> (if cr_ID req1 = [] then be_newPaneID be else return (cr_ID req1));
       if i = [] then return (Inl [ErrMissingPaneID])
       else do {
         let req = req1\<lparr>cr_ID := i\<rparr>;
         begun \<leftarrow> beginCreatePane be req;
         case begun of
           Inl err \<Rightarrow> return (Inl err)
         | Inr b \<Rightarrow>
             (case b of
                Follower n \<Rightarrow> do { k \<leftarrow> gets (be_rounds be); awaitCreate k be n }
              | Leader n \<Rightarrow> do {
                  out \<leftarrow> leadCreate be req;
                  finishCreatePane be n (fst out) (snd out);
                  return (snd out) }) } } }"

section \<open>ClaimPane\<close>

record ClaimPaneRequest =
  cl_ID :: PaneID
  cl_TaskID :: string
  cl_AgentID :: string
  cl_Role :: string
  cl_ZellijSession :: string
  cl_ZellijPaneID :: ZellijPaneID
  cl_Command :: "string list"
  cl_CWD :: string

definition ClaimPane :: "'w Backend \<Rightarrow> ClaimPaneRequest \<Rightarrow> ('w, rt_error + PaneRecord) rt" where
  "ClaimPane be req0 = do {
     let req = req0\<lparr>cl_ID := TrimSpace (cl_ID req0), cl_TaskID := TrimSpace (cl_TaskID req0),
           cl_AgentID := TrimSpace (cl_AgentID req0), cl_Role := TrimSpace (cl_Role req0),
           cl_ZellijSession := TrimSpace (cl_ZellijSession req0), cl_ZellijPaneID := TrimSpace (cl_ZellijPaneID req0)\<rparr>;
     if cl_ZellijSession req = [] then return (Inl [ErrZellijSessionRequired])
     else if cl_ID req = [] then return (Inl [ErrMissingPaneID])
     else if cl_ZellijPaneID req = [] then return (Inl [ErrInvalidPaneTarget])
     else do {
       panes \<leftarrow> be_ListPanes be (cl_ZellijSession req);
       case panes of
         Inl err \<Rightarrow> return (Inl err)
       | Inr ps \<Rightarrow>
           (case only_terminal (cl_ZellijPaneID req) ps of
              Inl err \<Rightarrow> return (Inl err)
            | Inr match \<Rightarrow> do {
                token \<leftarrow> be_newOwnershipToken be;
                (case token of
                   Inl err \<Rightarrow> return (Inl err)
                 | Inr tok \<Rightarrow> do {
                     out \<leftarrow> reg_call be (OpRegister \<lparr>rq_ParentPaneID = [], rq_ID = cl_ID req, rq_OwnershipToken = tok,
                       rq_SessionID = cl_ZellijSession req, rq_TabID = Itoa (z_TabID match), rq_TaskID = cl_TaskID req,
                       rq_AgentID = cl_AgentID req, rq_ZellijPaneID = cl_ZellijPaneID req,
                       rq_ZellijTabID = Some (z_TabID match), rq_TabName = z_TabName match, rq_Role = cl_Role req,
                       rq_Command = cl_Command req, rq_CWD = cl_CWD req, rq_Status = None\<rparr>);
                     (case out of
                        RErr e \<Rightarrow> return (Inl (case e of
                            ErrZellijPaneAlreadyRegistered _ _ \<Rightarrow> [ErrInvalidPaneTarget]
                          | _ \<Rightarrow> [ErrRegistry e]))
                      | RPane record \<Rightarrow> do { notify (NOpened record); startSubscription be (cl_ID req); return (Inr record) }
                      | RFlag record _ \<Rightarrow> return (Inr record)) }) }) } }"
section \<open>The contract holds\<close>

lemma keeps_set_creates: "keeps (steps A c s0) (modify (\<lambda>s. set_creates (f s) s))"
  by (rule keeps_stays) (auto simp: stays_def set_creates_def intro: steps_frame)

lemma keeps_case_begun [keep]:
  "(\<And>n. keeps I (f n)) \<Longrightarrow> (\<And>n. keeps I (g n)) \<Longrightarrow> keeps I (case b of Leader n \<Rightarrow> f n | Follower n \<Rightarrow> g n)"
  by (cases b) simp_all

lemma keeps_case_nat [keep]: "(n = 0 \<Longrightarrow> keeps I f) \<Longrightarrow> (\<And>k. n = Suc k \<Longrightarrow> keeps I (g k)) \<Longrightarrow> keeps I (case n of 0 \<Rightarrow> f | Suc k \<Rightarrow> g k)"
  by (cases n) simp_all

lemma keeps_merge:
  assumes be: "backend_steps A be" and A: "\<And>op. A op"
  shows "keeps (steps A c s0) (beginCreatePane be req)" "keeps (steps A c s0) (finishCreatePane be n created result)"
    "keeps (steps A c s0) (awaitCreate k be n)"
proof -
  show "keeps (steps A c s0) (beginCreatePane be req)" unfolding beginCreatePane_def mayDrop_def
    by (intro keep rt_keep keeps_set_creates be A)
  show "keeps (steps A c s0) (finishCreatePane be n created result)" unfolding finishCreatePane_def
    by (intro keep rt_keep keeps_set_creates be A)
  show "keeps (steps A c s0) (awaitCreate k be n)" by (induction k) (auto intro!: keep rt_keep be)
qed

lemma keeps_find_cwd: "backend_steps A be \<Longrightarrow> keeps (steps A c s0) (find_cwd be want ps)"
  by (induction ps) (auto intro!: keep rt_keep)

lemma keeps_resolve:
  assumes be: "backend_steps A be"
  shows "keeps (steps A c s0) (resolveParentTab be req)" "keeps (steps A c s0) (resolveDirectoryTab be req)"
    "keeps (steps A c s0) (resolveCreatePaneTarget be req)" "keeps (steps A c s0) (findPaneByID be session z)"
    "keeps (steps A c s0) (findPaneInTab k be session tab)" "keeps (steps A c s0) (nameAfterParent be req i)"
proof -
  show find: "keeps (steps A c s0) (findPaneByID be session z)" for session z
    unfolding findPaneByID_def by (intro keep rt_keep be)
  show "keeps (steps A c s0) (resolveParentTab be req)" "keeps (steps A c s0) (resolveCreatePaneTarget be req)"
    "keeps (steps A c s0) (nameAfterParent be req i)"
    unfolding resolveParentTab_def resolveCreatePaneTarget_def nameAfterParent_def by (intro keep rt_keep be find)+
  show "keeps (steps A c s0) (findPaneInTab k be session tab)"
  proof (induction k)
    case 0
    show ?case by (subst findPaneInTab.simps) (auto intro!: keep rt_keep be)
  next
    case (Suc k)
    then show ?case by (subst findPaneInTab.simps) (auto intro!: keep rt_keep be)
  qed
  show "keeps (steps A c s0) (resolveDirectoryTab be req)"
    unfolding resolveDirectoryTab_def
    by (cases "be_ActiveSessions be") (auto intro!: keep rt_keep keeps_find_cwd be backend_keeps_optional(1) [OF be])
qed

lemma keeps_createBackendPane:
  assumes be: "backend_steps A be"
  shows "keeps (steps A c s0) (createBackendPane be req)" "keeps (steps A c s0) (runCleanup be x)"
proof -
  show "keeps (steps A c s0) (createBackendPane be req)" unfolding createBackendPane_def
    by (cases "be_EnsureSession be") (auto intro!: keep rt_keep be keeps_resolve backend_keeps_optional(2) [OF be])
  show "keeps (steps A c s0) (runCleanup be x)" by (cases x) (auto intro!: keep rt_keep be)
qed

lemma keeps_startSubscription: "backend_steps A be \<Longrightarrow> keeps (steps A c s0) (startSubscription be i)"
  unfolding startSubscription_def by (intro keep rt_keep keeps_StartPane)

lemma keeps_createPaneOnce:
  assumes be: "backend_steps A be" and A: "\<And>op. A op"
  shows "keeps (steps A c s0) (createPaneOnce be req i)"
  unfolding createPaneOnce_def
  by (intro keep rt_keep be A keeps_resolve keeps_createBackendPane keeps_startSubscription)

lemma keeps_initialize:
  assumes be: "backend_steps A be"
  shows "keeps (steps A c s0) (initializeCreatedPane be record txt ready)"
proof -
  have "keeps (steps A c s0) (waitForPaneInitialInputReady k be record r e)" for k r e
  proof (induction k arbitrary: e)
    case 0
    show ?case by (subst waitForPaneInitialInputReady.simps) (auto intro!: keep rt_keep be)
  next
    case (Suc k)
    then show ?case by (subst waitForPaneInitialInputReady.simps) (auto intro!: keep rt_keep be)
  qed
  then show ?thesis unfolding initializeCreatedPane_def by (intro keep rt_keep be)
qed

lemma keeps_cleanupCreatedPane:
  assumes be: "backend_steps A be" and A: "allows A record"
  shows "keeps (steps A c s0) (cleanupCreatedPane be record)"
  unfolding cleanupCreatedPane_def by (intro keep rt_keep be allowsD [OF A])

lemma keeps_CreatePane:
  assumes be: "backend_steps A be" and A: "\<And>op. A op"
  shows "keeps (steps A c s0) (CreatePane be req)"
proof -
  have "allows A p" for p by (simp add: allows_def A)
  then have "keeps (steps A c s0) (leadCreate be r)" for r unfolding leadCreate_def
    by (intro keep rt_keep be A keeps_resolve keeps_createPaneOnce keeps_initialize keeps_cleanupCreatedPane)
  then show ?thesis unfolding CreatePane_def by (intro keep rt_keep be A keeps_merge)
qed

lemma keeps_ClaimPane:
  assumes be: "backend_steps A be" and A: "\<And>op. A op"
  shows "keeps (steps A c s0) (ClaimPane be req)"
  unfolding ClaimPane_def by (intro keep rt_keep be A keeps_startSubscription)

section \<open>One leader per pane\<close>

text \<open>
  The calls of concurrent requests, and the numbers of the calls whose leaders are at work: a
  request begins, as a leader or not, and a leader at work finishes.
\<close>

inductive create_reach :: "creates \<Rightarrow> nat list \<Rightarrow> bool" where
  init: "create_reach ([], []) []"
| lead: "create_reach c ls \<Longrightarrow> beginCreate dropping req c = (Inr (Leader n), c') \<Longrightarrow> create_reach c' (n # ls)"
| join: "create_reach c ls \<Longrightarrow> beginCreate dropping req c = (r, c') \<Longrightarrow> (\<And>n. r \<noteq> Inr (Leader n)) \<Longrightarrow> create_reach c' ls"
| finish: "create_reach c ls \<Longrightarrow> n \<in> set ls \<Longrightarrow> create_reach (finishCreate n created result c) (remove1 n ls)"

definition create_inv :: "creates \<Rightarrow> nat list \<Rightarrow> bool" where
  "create_inv = (\<lambda>(cs, calls) ls. mapok cs \<and> distinct ls \<and>
     (\<forall>n. n \<in> set ls \<longleftrightarrow> n < length calls \<and> cc_result (calls ! n) = None) \<and>
     (\<forall>n \<in> set ls. mget cs (cr_ID (cc_request (calls ! n))) = Some n) \<and>
     (\<forall>i n. mget cs i = Some n \<longrightarrow> n < length calls \<and> cr_ID (cc_request (calls ! n)) = i))"

lemma create_invD:
  assumes "create_inv (cs, calls) ls"
  shows "mapok cs" "distinct ls" "\<And>n. n \<in> set ls \<longleftrightarrow> n < length calls \<and> cc_result (calls ! n) = None"
    "\<And>n. n \<in> set ls \<Longrightarrow> mget cs (cr_ID (cc_request (calls ! n))) = Some n"
    "\<And>i n. mget cs i = Some n \<Longrightarrow> n < length calls \<and> cr_ID (cc_request (calls ! n)) = i"
  using assms by (auto simp: create_inv_def)

text \<open>Forgetting a finished call.\<close>

lemma create_inv_drop:
  assumes inv: "create_inv (cs, calls) ls" and n: "mget cs i = Some n" "n \<notin> set ls"
  shows "create_inv (mdel cs i, calls) ls"
proof -
  note d = create_invD [OF inv]
  have "mget (mdel cs i) (cr_ID (cc_request (calls ! k))) = Some k" if "k \<in> set ls" for k
    using d(4) [OF that] that n d(1) by auto
  then show ?thesis using inv d(1) by (auto simp: create_inv_def)
qed

text \<open>A call that is not done keeps its entry, whatever \<open>dropping\<close> says.\<close>

definition kept_creates :: "bool \<Rightarrow> PaneID \<Rightarrow> creates \<Rightarrow> (PaneID, nat) gomap" where
  "kept_creates dropping i = (\<lambda>(cs, calls).
     case mget cs i of
       None \<Rightarrow> cs
     | Some n \<Rightarrow> if (case call_of calls n of None \<Rightarrow> True | Some c \<Rightarrow> cc_result c \<noteq> None) \<and> dropping then mdel cs i else cs)"

lemma create_inv_kept:
  assumes "create_inv (cs, calls) ls"
  shows "create_inv (kept_creates dropping i (cs, calls), calls) ls"
proof (cases "mget cs i")
  case (Some n)
  then show ?thesis
    using assms create_inv_drop [OF assms Some] create_invD(3) [OF assms, of n]
    by (auto simp: kept_creates_def call_of_def)
qed (use assms in \<open>simp add: kept_creates_def\<close>)

lemma beginCreate_kept:
  "beginCreate dropping req (cs, calls) =
     (case mget (kept_creates dropping (cr_ID req) (cs, calls)) (cr_ID req) of
        Some n \<Rightarrow>
          (if map_option cc_request (call_of calls n) \<noteq> Some req then Inl [ErrRegistry ErrAlreadyExists]
           else Inr (Follower n), (kept_creates dropping (cr_ID req) (cs, calls), calls))
      | None \<Rightarrow>
          (Inr (Leader (length calls)),
           (mput (kept_creates dropping (cr_ID req) (cs, calls)) (cr_ID req) (length calls),
            calls @ [\<lparr>cc_request = req, cc_result = None, cc_createdRecord = None\<rparr>])))"
  unfolding beginCreate_def kept_creates_def Let_def case_prod_conv by (rule refl)

lemma create_inv_lead:
  assumes inv: "create_inv (cs, calls) ls" and none: "mget cs (cr_ID req) = None"
  shows "create_inv (mput cs (cr_ID req) (length calls), calls @ [\<lparr>cc_request = req, cc_result = None, cc_createdRecord = x\<rparr>])
     (length calls # ls)"
proof -
  note d = create_invD [OF inv]
  have lt: "k < length calls" if "k \<in> set ls" for k using d(3) that by blast
  have ne: "cr_ID (cc_request (calls ! k)) \<noteq> cr_ID req" if "k \<in> set ls" for k
    using d(4) [OF that] none by auto
  let ?calls = "calls @ [\<lparr>cc_request = req, cc_result = None, cc_createdRecord = x\<rparr>]"
  have "k \<in> set (length calls # ls) \<longleftrightarrow> k < length ?calls \<and> cc_result (?calls ! k) = None" for k
    using d(3) [of k] by (auto simp: nth_append)
  moreover have "k < length ?calls \<and> cr_ID (cc_request (?calls ! k)) = i"
    if "mget (mput cs (cr_ID req) (length calls)) i = Some k" for i k
    using that d(5) [of i k] by (auto simp: nth_append split: if_splits)
  moreover have "mget (mput cs (cr_ID req) (length calls)) (cr_ID (cc_request (?calls ! k))) = Some k"
    if "k \<in> set (length calls # ls)" for k using that d(4) lt ne by (auto simp: nth_append)
  moreover have "distinct (length calls # ls)" using d(2) lt by auto
  ultimately show ?thesis unfolding create_inv_def case_prod_conv using mapok_mput [OF d(1)] by blast
qed

lemma create_inv_finish:
  assumes inv: "create_inv (cs, calls) ls" and n: "n \<in> set ls"
  shows "create_inv (finishCreate n created result (cs, calls)) (remove1 n ls)"
proof -
  note d = create_invD [OF inv]
  have lt: "n < length calls" using d(3) n by blast
  define c where "c = (calls ! n)\<lparr>cc_createdRecord := (case created of Some r \<Rightarrow> if p_ID r \<noteq> [] then Some r
    else cc_createdRecord (calls ! n) | None \<Rightarrow> cc_createdRecord (calls ! n)), cc_result := Some result\<rparr>"
  have c: "cc_request c = cc_request (calls ! n)" "cc_result c \<noteq> None" by (simp_all add: c_def)
  have "create_inv (cs, calls[n := c]) (remove1 n ls)"
    using d lt c by (auto simp: create_inv_def nth_list_update)
  moreover from this have "create_inv (mdel cs (cr_ID (cc_request (calls ! n))), calls[n := c]) (remove1 n ls)"
    by (rule create_inv_drop [where n = n]) (use d n in auto)
  ultimately show ?thesis using lt
    by (auto simp: finishCreate_def call_of_def c_def [symmetric] split: sum.splits)
qed

lemma create_inv_reach: "create_reach c ls \<Longrightarrow> create_inv c ls"
proof (induction rule: create_reach.induct)
  case init
  then show ?case by (simp add: create_inv_def)
next
  case (lead c ls dropping req n c')
  obtain cs calls where c: "c = (cs, calls)" by (cases c)
  show ?case using lead.hyps(2) create_inv_lead [OF create_inv_kept [OF lead.IH [unfolded c]]]
    by (auto simp: c beginCreate_kept split: option.splits if_splits)
next
  case (join c ls dropping req r c')
  obtain cs calls where c: "c = (cs, calls)" by (cases c)
  show ?case using join.hyps(2,3) create_inv_kept [OF join.IH [unfolded c]]
    by (auto simp: c beginCreate_kept split: option.splits if_splits)
next
  case (finish c ls n created result)
  obtain cs calls where "c = (cs, calls)" by (cases c)
  then show ?case using finish.IH finish.hyps create_inv_finish by simp
qed

text \<open>
  C7. Concurrent requests for a pane are merged: at any time at most one leader works on a
  pane identifier; a leader that finishes finds its call open, so closing the channel cannot
  panic; a call that is not done has its leader at work, so nobody waits for a call that no one
  completes; and a follower waits for a call with exactly its own request.
\<close>

theorem create_single_leader:
  assumes "create_reach (cs, calls) ls"
  shows "distinct (map (\<lambda>n. cr_ID (cc_request (calls ! n))) ls) \<and>
    (\<forall>n < length calls. cc_result (calls ! n) = None \<longleftrightarrow> n \<in> set ls) \<and>
    (\<forall>n \<in> set ls. n < length calls) \<and>
    (\<forall>dropping req n c'. beginCreate dropping req (cs, calls) = (Inr (Follower n), c') \<longrightarrow>
       n < length calls \<and> cc_request (calls ! n) = req)"
proof -
  note d = create_invD [OF create_inv_reach [OF assms]]
  have "inj_on (\<lambda>n. cr_ID (cc_request (calls ! n))) (set ls)"
    by (rule inj_onI) (metis d(4) option.inject)
  moreover have "n < length calls \<and> cc_request (calls ! n) = req"
    if "beginCreate dropping req (cs, calls) = (Inr (Follower n), c')" for dropping req n c'
    using that by (auto simp: beginCreate_kept call_of_def split: option.splits if_splits)
  ultimately show ?thesis using d(2,3) by (auto simp: distinct_map)
qed

definition demo_create :: "string \<Rightarrow> CreatePaneRequest" where
  "demo_create i = \<lparr>cr_NoFocus = False, cr_ReuseParentTab = False, cr_ReuseDirectoryTab = False, cr_EnsureSession = False,
     cr_ParentPaneID = [], cr_ID = i, cr_TaskID = [], cr_AgentID = [], cr_Role = [], cr_Name = [],
     cr_ZellijSession = ''s'', cr_NewTab = False, cr_TabName = [], cr_LayoutString = [], cr_ZellijTabID = None,
     cr_SameTabAsPaneID = [], cr_SameTabAsZellijPaneID = [], cr_Command = [], cr_CWD = [], cr_InitialInput = [],
     cr_InitialInputReadyText = []\<rparr>"

theorem create_single_leader_witness:
  "\<exists>calls. create_reach ([(''a'', 0)], calls) [0] \<and> cc_result (calls ! 0) = None \<and>
     fst (beginCreate True (demo_create ''a'') ([(''a'', 0)], calls)) = Inr (Follower 0) \<and>
     cc_request (calls ! 0) = demo_create ''a''"
proof -
  let ?calls = "[\<lparr>cc_request = demo_create ''a'', cc_result = None, cc_createdRecord = None\<rparr>]"
  have "beginCreate True (demo_create ''a'') ([], []) = (Inr (Leader 0), ([(''a'', 0)], ?calls))"
    by (simp add: beginCreate_def demo_create_def Let_def)
  then have r: "create_reach ([(''a'', 0)], ?calls) [0]"
    by (rule create_reach.lead [OF create_reach.init])
  have f: "beginCreate True (demo_create ''a'') ([(''a'', 0)], ?calls) = (Inr (Follower 0), ([(''a'', 0)], ?calls))"
    by (simp add: beginCreate_def demo_create_def Let_def call_of_def)
  show ?thesis using r f create_single_leader [OF r] by (intro exI [of _ ?calls]) auto
qed

end
