(* ===== verification/Runtime_Service.thy ===== *)
theory Runtime_Service
  imports Runtime_Create
begin

text \<open>
  The operations of the runtime on existing panes: the rest of
  \<^verbatim>\<open>src/internal/runtime/service.go\<close>, \<^verbatim>\<open>src/internal/runtime/cleanup.go\<close>,
  \<^verbatim>\<open>src/internal/runtime/reconcile.go\<close>, \<^verbatim>\<open>src/internal/runtime/recovery.go\<close> and
  \<open>WaitForOutputMarker\<close> of \<^verbatim>\<open>src/internal/runtime/marker_watch.go\<close>.

  The locks that serialise input to one pane have no counterpart; whatever runs in between is
  \<open>be_other\<close>. The callback \<open>BeforeSend\<close> of an input request is part of the request.
\<close>

section \<open>Focus\<close>

definition FocusPane :: "'w Backend \<Rightarrow> PaneID \<Rightarrow> string \<Rightarrow> ZellijPaneID \<Rightarrow> ('w, rt_error + PaneView) rt" where
  "FocusPane be i sourceSession sourcePane = do {
     r \<leftarrow> svcLookupPane be i;
     case r of
       Inl err \<Rightarrow> return (Inl err)
     | Inr record \<Rightarrow>
         if p_Status record \<noteq> PaneStatusStarting \<and> p_Status record \<noteq> PaneStatusRunning then return (Inl [ErrInvalidPaneTarget])
         else do {
           let target = TrimSpace (p_SessionID record);
           let pane = TrimSpace (p_ZellijPaneID record);
           if target = [] \<or> pane = [] then return (Inl [ErrInvalidPaneTarget])
           else (case be_SwitchSession be of
               None \<Rightarrow> return (Inl [ErrInvalidPaneTarget])
             | Some switch \<Rightarrow> do {
                 e \<leftarrow> switch (TrimSpace sourceSession) (TrimSpace sourcePane) target pane;
                 return (case e of Some err \<Rightarrow> Inl err | None \<Rightarrow> Inr (paneFromRecord record)) }) } }"

definition focusable :: "ZPane \<Rightarrow> bool" where
  "focusable p \<longleftrightarrow> \<not> z_IsPlugin p \<and> \<not> z_Exited p \<and> z_ID p \<noteq> []"

fun focusedTerminal :: "ZellijPaneID \<Rightarrow> ZPane list \<Rightarrow> ZellijPaneID" where
  "focusedTerminal fallback [] = fallback"
| "focusedTerminal fallback (p # ps) =
     (if \<not> focusable p then focusedTerminal fallback ps
      else if z_IsFocused p then z_ID p
      else focusedTerminal (if fallback = [] then z_ID p else fallback) ps)"

definition focusedTerminalPaneID :: "ZPane list \<Rightarrow> ZellijPaneID" where
  "focusedTerminalPaneID panes = focusedTerminal [] panes"

definition FocusSession :: "'w Backend \<Rightarrow> string \<Rightarrow> string \<Rightarrow> ZellijPaneID \<Rightarrow> ('w, rt_error + (string \<times> ZellijPaneID)) rt" where
  "FocusSession be sessionID sourceSession0 sourcePane0 = do {
     let sourceSession = TrimSpace sourceSession0;
     let sourcePane = TrimSpace sourcePane0;
     let target = TrimSpace sessionID;
     if sourceSession = [] \<or> sourcePane = [] \<or> target = [] then return (Inl [ErrInvalidPaneTarget])
     else (case be_SwitchSession be of
         None \<Rightarrow> return (Inl [ErrInvalidPaneTarget])
       | Some switch \<Rightarrow> do {
           panes \<leftarrow> be_ListPanes be target;
           case panes of
             Inl err \<Rightarrow> return (Inl err)
           | Inr ps \<Rightarrow>
               let pane = focusedTerminalPaneID ps
               in if pane = [] then return (Inl [ErrPaneNotFound])
                  else do {
                    e \<leftarrow> switch sourceSession sourcePane target pane;
                    return (case e of Some err \<Rightarrow> Inl err | None \<Rightarrow> Inr (target, pane)) } }) }"

section \<open>Input\<close>

record 'w SendInputRequest =
  si_PaneID :: PaneID
  si_Text :: string
  si_OwnershipToken :: string
  si_BeforeSend :: "('w, rt_error option) rt option"

definition inputTarget :: "'w Backend \<Rightarrow> 'w SendInputRequest \<Rightarrow> ('w, rt_error + PaneRecord) rt" where
  "inputTarget be req = do {
     r \<leftarrow> svcLookupPane be (si_PaneID req);
     return (case r of
       Inl err \<Rightarrow> Inl err
     | Inr record \<Rightarrow>
         if si_OwnershipToken req \<noteq> [] \<and> si_OwnershipToken req \<noteq> p_OwnershipToken record then Inl [ErrInvalidPaneTarget]
         else if si_OwnershipToken req \<noteq> [] \<and> p_Status record \<noteq> PaneStatusRunning then Inl [ErrInvalidPaneTarget]
         else Inr record) }"

text \<open>From the guard to the target: \<open>BeforeSend\<close>, and the second look at the registry after it.\<close>

definition guardedTarget :: "'w Backend \<Rightarrow> 'w SendInputRequest \<Rightarrow> PaneRecord \<Rightarrow> ('w, rt_error + PaneRecord) rt" where
  "guardedTarget be req record =
     (case si_BeforeSend req of
        None \<Rightarrow> return (Inr record)
      | Some guard \<Rightarrow> do {
          e \<leftarrow> guard;
          case e of Some err \<Rightarrow> return (Inl err) | None \<Rightarrow> inputTarget be req })"

definition deliverInput :: "'w Backend \<Rightarrow> 'w SendInputRequest \<Rightarrow> PaneRecord \<Rightarrow> ('w, rt_error option) rt" where
  "deliverInput be req record = do {
     sent \<leftarrow> be_SendInput be (p_SessionID record) (p_ZellijPaneID record) (si_Text req);
     case sent of
       Some err \<Rightarrow> do {
         reg_call be (OpStatus (p_ID record) (p_Generation record) PaneStatusError (err_text err));
         return (Some err) }
     | None \<Rightarrow>
         if HasSuffix (si_Text req) [NL] \<and> TrimSpace (TrimSuffix (si_Text req) [NL]) \<noteq> [] then do {
           out \<leftarrow> reg_call be (OpInstruction (p_ID record) (p_Generation record) (TrimSuffix (si_Text req) [NL]));
           return (case out of RErr e \<Rightarrow> Some [ErrRegistry e] | _ \<Rightarrow> None) }
         else return None }"

definition SendInput :: "'w Backend \<Rightarrow> 'w SendInputRequest \<Rightarrow> ('w, rt_error option) rt" where
  "SendInput be req =
     (if si_PaneID req = [] then return (Some [ErrMissingPaneID])
      else do {
        e \<leftarrow> be_ctxErr be;
        case e of
          Some err \<Rightarrow> return (Some err)
        | None \<Rightarrow> do {
            first \<leftarrow> inputTarget be req;
            case first of
              Inl err \<Rightarrow> return (Some err)
            | Inr record0 \<Rightarrow> do {
                target \<leftarrow> guardedTarget be req record0;
                case target of
                  Inl err \<Rightarrow> return (Some err)
                | Inr record \<Rightarrow> do {
                    e' \<leftarrow> be_ctxErr be;
                    case e' of Some err \<Rightarrow> return (Some err) | None \<Rightarrow> deliverInput be req record } } } })"

definition sameManagedTab :: "PaneRecord \<Rightarrow> PaneRecord \<Rightarrow> bool" where
  "sameManagedTab a b \<longleftrightarrow>
     p_SessionID a \<noteq> [] \<and> p_SessionID a = p_SessionID b \<and>
     (if p_ZellijTabID a \<noteq> None \<and> p_ZellijTabID b \<noteq> None then p_ZellijTabID a = p_ZellijTabID b
      else p_TabID a \<noteq> [] \<and> p_TabID a = p_TabID b)"

definition formatPaneMessage :: "PaneID \<Rightarrow> string \<Rightarrow> string \<Rightarrow> string" where
  "formatPaneMessage src messageType body =
     (let txt = ''[agentd] message from='' @ src @ '' type='' @ messageType @ [NL] @ body
      in if HasSuffix txt [NL] then txt else txt @ [NL])"

record SendMessageResponse =
  sr_From :: PaneView
  sr_To :: PaneView
  sr_Type :: string
  sr_Body :: string
  sr_DeliveredText :: string

definition SendMessage :: "'w Backend \<Rightarrow> PaneID \<Rightarrow> PaneID \<Rightarrow> string \<Rightarrow> string \<Rightarrow> ('w, rt_error + SendMessageResponse) rt" where
  "SendMessage be src dst ty body =
     (if src = [] then return (Inl [ErrInvalidMessage])
      else if dst = [] then return (Inl [ErrInvalidMessage])
      else do {
        f \<leftarrow> svcLookupPane be src;
        case f of
          Inl err \<Rightarrow> return (Inl err)
        | Inr fromRecord \<Rightarrow> do {
            t \<leftarrow> svcLookupPane be dst;
            case t of
              Inl err \<Rightarrow> return (Inl err)
            | Inr toRecord \<Rightarrow>
                if \<not> sameManagedTab fromRecord toRecord then return (Inl [ErrInvalidMessage])
                else do {
                  let messageType = (if TrimSpace ty = [] then ''message'' else TrimSpace ty);
                  let delivered = formatPaneMessage (p_ID fromRecord) messageType body;
                  e \<leftarrow> SendInput be \<lparr>si_PaneID = p_ID toRecord, si_Text = delivered, si_OwnershipToken = [], si_BeforeSend = None\<rparr>;
                  (case e of
                     Some err \<Rightarrow> return (Inl err)
                   | None \<Rightarrow> do {
                       at \<leftarrow> timeNow be;
                       publish (eventFromRecord toRecord at TypeMessageSent
                         (''from='' @ p_ID fromRecord @ '' to='' @ p_ID toRecord @ '' type='' @ messageType));
                       return (Inr \<lparr>sr_From = paneFromRecord fromRecord, sr_To = paneFromRecord toRecord,
                         sr_Type = messageType, sr_Body = body, sr_DeliveredText = delivered\<rparr>) }) } } })"

section \<open>Looking at panes\<close>

definition ListPaneViews :: "'w Backend \<Rightarrow> ('w, PaneView list) rt" where
  "ListPaneViews be = do { records \<leftarrow> listPanes be; return (map paneFromRecord records) }"

definition InspectPane :: "'w Backend \<Rightarrow> PaneID \<Rightarrow> ('w, rt_error + PaneView) rt" where
  "InspectPane be i = do {
     r \<leftarrow> svcLookupPane be i;
     return (case r of Inl err \<Rightarrow> Inl err | Inr record \<Rightarrow> Inr (paneFromRecord record)) }"

definition SnapshotOutput :: "'w Backend \<Rightarrow> PaneID \<Rightarrow> bool \<Rightarrow> bool \<Rightarrow> ('w, rt_error + (PaneView \<times> string)) rt" where
  "SnapshotOutput be i full ansi = do {
     r \<leftarrow> svcLookupPane be i;
     case r of
       Inl err \<Rightarrow> return (Inl err)
     | Inr record \<Rightarrow> do {
         screen \<leftarrow> be_DumpScreen be (p_SessionID record) (p_ZellijPaneID record) full ansi;
         case screen of
           Inl err \<Rightarrow> do {
             reg_call be (OpStatus (p_ID record) (p_Generation record) PaneStatusError (err_text err));
             return (Inl err) }
         | Inr output \<Rightarrow> do {
             out \<leftarrow> reg_call be (OpOutput (p_ID record) (p_Generation record) output);
             case out of
               RErr e \<Rightarrow> return (Inl [ErrRegistry e])
             | RPane updated \<Rightarrow> do {
                 notify (NOutput updated (be_Strip be output));
                 return (Inr (paneFromRecord updated, output)) }
             | RFlag updated _ \<Rightarrow> return (Inr (paneFromRecord updated, output)) } } }"

text \<open>
  What the select statement of \<open>WaitForOutputMarker\<close> receives: the end of the context, an event,
  or the end of the subscription. The wait goes through the list; \<open>None\<close> means it goes on.
\<close>

datatype wake = CtxDone rt_error | GotEvent Event | SubscriptionClosed

record MarkerMatch =
  mm_PaneID :: PaneID
  mm_Marker :: string
  mm_MatchedLine :: string
  mm_MatchedAt :: time

fun awaitMarker :: "'w Backend \<Rightarrow> PaneID \<Rightarrow> string \<Rightarrow> bool \<Rightarrow> wake list \<Rightarrow> ('w, (rt_error + MarkerMatch) option) rt" where
  "awaitMarker be i marker matchPrefix [] = return None"
| "awaitMarker be i marker matchPrefix (w # ws) = do {
     be_other be;
     case w of
       CtxDone err \<Rightarrow> return (Some (Inl err))
     | SubscriptionClosed \<Rightarrow> do {
         e \<leftarrow> be_ctxErr be;
         return (Some (Inl (case e of Some err \<Rightarrow> err | None \<Rightarrow> [ErrOther ''runtime: event subscription closed'']))) }
     | GotEvent ev \<Rightarrow>
         if ev_Type ev \<noteq> TypeRawOutput \<or> ev_PaneID ev \<noteq> i then awaitMarker be i marker matchPrefix ws
         else (case findMarkerLine (ev_Message ev) marker matchPrefix of
             None \<Rightarrow> awaitMarker be i marker matchPrefix ws
           | Some line \<Rightarrow> return (Some (Inr \<lparr>mm_PaneID = i, mm_Marker = marker, mm_MatchedLine = line,
               mm_MatchedAt = ev_Time ev\<rparr>))) }"

definition WaitForOutputMarker :: "'w Backend \<Rightarrow> PaneID \<Rightarrow> string \<Rightarrow> bool \<Rightarrow> wake list \<Rightarrow> ('w, (rt_error + MarkerMatch) option) rt" where
  "WaitForOutputMarker be i marker matchPrefix wakes =
     (if TrimSpace marker = [] \<or> CR \<in> set marker \<or> NL \<in> set marker
      then return (Some (Inl [ErrOther ''runtime: marker must be one non-empty line'']))
      else do {
        e \<leftarrow> be_ctxErr be;
        case e of
          Some err \<Rightarrow> return (Some (Inl err))
        | None \<Rightarrow> do {
            inspected \<leftarrow> InspectPane be i;
            case inspected of
              Inl err \<Rightarrow> return (Some (Inl err))
            | Inr pane \<Rightarrow>
                (case findMarkerLine (pv_LastOutput pane) marker matchPrefix of
                   Some line \<Rightarrow> do {
                     t \<leftarrow> timeNow be;
                     return (Some (Inr \<lparr>mm_PaneID = i, mm_Marker = marker, mm_MatchedLine = line, mm_MatchedAt = t\<rparr>)) }
                 | None \<Rightarrow> awaitMarker be i marker matchPrefix wakes) } })"

section \<open>Closing\<close>

definition ClosePane :: "'w Backend \<Rightarrow> PaneID \<Rightarrow> ('w, rt_error option \<times> PaneView option) rt" where
  "ClosePane be i = do {
     r \<leftarrow> svcLookupPane be i;
     case r of
       Inl err \<Rightarrow> return (Some err, None)
     | Inr record \<Rightarrow> do {
         closed \<leftarrow> be_ClosePane be (p_SessionID record) (p_ZellijPaneID record);
         case closed of
           Some err \<Rightarrow> do {
             out \<leftarrow> reg_call be (OpActiveStatus (p_ID record) (p_Generation record) PaneStatusError (err_text err));
             return (case out of
               RErr e \<Rightarrow> (Some (err @ [ErrRegistry e]), None)
             | RFlag updated _ \<Rightarrow> (Some err, Some (paneFromRecord updated))
             | RPane updated \<Rightarrow> (Some err, Some (paneFromRecord updated))) }
         | None \<Rightarrow> do {
             out \<leftarrow> reg_call be (OpClaimClosure (p_ID record) (p_Generation record) PaneStatusClosed ''closed by runtime service'');
             case out of
               RErr e \<Rightarrow> return (Some [ErrRegistry e], None)
             | RFlag updated claimed \<Rightarrow> do {
                 StopPaneGeneration be (p_ID record) (p_Generation record);
                 (if claimed then notify (NClosed updated) else return ());
                 return (None, Some (paneFromRecord updated)) }
             | RPane updated \<Rightarrow> return (None, Some (paneFromRecord updated)) } } }"

record CleanupRequest =
  cu_PaneIDs :: "PaneID list"
  cu_Targets :: "(PaneID \<times> string) list"
  cu_TaskID :: string
  cu_Role :: string

record CleanupResponse =
  cp_Closed :: "PaneView list"
  cp_Failed :: "(PaneView \<times> string) list"
  cp_Skipped :: "PaneView list"

text \<open>Targets with an identifier, later ones replacing earlier ones, and requested identifiers.\<close>

definition requestedCleanupTargets :: "(PaneID \<times> string) list \<Rightarrow> (PaneID, string) gomap" where
  "requestedCleanupTargets targets = fold (\<lambda>(i, token) m. if i \<noteq> [] then mput m i token else m) targets []"

definition requestedPaneIDs :: "PaneID list \<Rightarrow> (PaneID, bool) gomap" where
  "requestedPaneIDs ids = fold (\<lambda>i m. if i \<noteq> [] then mput m i True else m) ids []"

definition cleanupMatches :: "PaneRecord \<Rightarrow> CleanupRequest \<Rightarrow> (PaneID, bool) gomap \<Rightarrow> bool \<Rightarrow> bool" where
  "cleanupMatches record req requested requestedOnly =
     (if requestedOnly then mget requested (p_ID record) \<noteq> None
      else if cu_TaskID req \<noteq> [] \<and> cu_TaskID req \<noteq> p_TaskID record then False
      else if cu_Role req \<noteq> [] \<and> cu_Role req \<noteq> p_Role record then False
      else True)"

definition releaseCleanupRecord :: "'w Backend \<Rightarrow> PaneRecord \<Rightarrow> ('w, reg_error + PaneRecord) rt" where
  "releaseCleanupRecord be record = do {
     out \<leftarrow> reg_call be (OpRemove (p_ID record) (p_Generation record));
     return (case out of
       RErr e \<Rightarrow> if gone_error e then Inr record else Inl e
     | RPane removed \<Rightarrow> Inr removed
     | RFlag removed _ \<Rightarrow> Inr removed) }"

definition errorsMessage :: "rt_error \<Rightarrow> reg_error \<Rightarrow> string" where
  "errorsMessage err updateErr = err_text err @ ''; registry update failed: '' @ reg_text updateErr"

definition addSkipped :: "PaneRecord \<Rightarrow> CleanupResponse \<Rightarrow> CleanupResponse" where
  "addSkipped p resp = resp\<lparr>cp_Skipped := cp_Skipped resp @ [paneFromRecord p]\<rparr>"

definition addFailed :: "PaneView \<Rightarrow> string \<Rightarrow> CleanupResponse \<Rightarrow> CleanupResponse" where
  "addFailed p msg resp = resp\<lparr>cp_Failed := cp_Failed resp @ [(p, msg)]\<rparr>"

text \<open>The loop's body from the point where the record is known to be cleaned up.\<close>

definition cleanupRecord :: "'w Backend \<Rightarrow> PaneRecord \<Rightarrow> CleanupResponse \<Rightarrow> ('w, CleanupResponse) rt" where
  "cleanupRecord be record resp =
     (if isTerminalPaneStatus (p_Status record) then do {
        StopPaneGeneration be (p_ID record) (p_Generation record);
        released \<leftarrow> releaseCleanupRecord be record;
        return (case released of
          Inl e \<Rightarrow> addFailed (paneFromRecord record) (reg_text e) resp
        | Inr p \<Rightarrow> addSkipped p resp) }
      else do {
        closed \<leftarrow> be_ClosePane be (p_SessionID record) (p_ZellijPaneID record);
        case closed of
          Some err \<Rightarrow> do {
            out \<leftarrow> reg_call be (OpStatus (p_ID record) (p_Generation record) PaneStatusError (err_text err));
            return (case out of
              RErr e \<Rightarrow>
                if gone_error e then
                  addSkipped (record\<lparr>p_Status := PaneStatusClosed, p_StatusMessage := ''closed before runtime cleanup''\<rparr>) resp
                else addFailed (paneFromRecord record) (errorsMessage err e) resp
            | RPane updated \<Rightarrow> addFailed (paneFromRecord updated) (err_text err) resp
            | RFlag updated _ \<Rightarrow> addFailed (paneFromRecord updated) (err_text err) resp) }
        | None \<Rightarrow> do {
            StopPaneGeneration be (p_ID record) (p_Generation record);
            released \<leftarrow> releaseCleanupRecord be record;
            return (case released of
              Inl e \<Rightarrow> addFailed (paneFromRecord record) (reg_text e) resp
            | Inr p \<Rightarrow> resp\<lparr>cp_Closed := cp_Closed resp @ [paneFromRecord
                (p\<lparr>p_Status := PaneStatusClosed, p_StatusMessage := ''closed by runtime cleanup''\<rparr>)]\<rparr>) } })"

fun cleanupRecords :: "'w Backend \<Rightarrow> CleanupRequest \<Rightarrow> bool \<Rightarrow> bool \<Rightarrow> PaneRecord list
    \<Rightarrow> (PaneID, string) gomap \<times> (PaneID, bool) gomap \<times> CleanupResponse
    \<Rightarrow> ('w, (PaneID, string) gomap \<times> (PaneID, bool) gomap \<times> CleanupResponse) rt" where
  "cleanupRecords be req qualifiedOnly requestedOnly [] x = return x"
| "cleanupRecords be req qualifiedOnly requestedOnly (record # records) (targets, requested, resp) =
     (let next = cleanupRecords be req qualifiedOnly requestedOnly records;
          clean = (\<lambda>targets'. do {
            resp' \<leftarrow> cleanupRecord be record resp;
            next (targets', mdel requested (p_ID record), resp') })
      in if qualifiedOnly then
           (case mget targets (p_ID record) of
              None \<Rightarrow> next (targets, requested, resp)
            | Some token \<Rightarrow>
                if token = [] \<or> token \<noteq> p_OwnershipToken record
                then next (mdel targets (p_ID record), requested, addSkipped record resp)
                else clean (mdel targets (p_ID record)))
         else if \<not> cleanupMatches record req requested requestedOnly then next (targets, requested, resp)
         else clean targets)"

definition Cleanup :: "'w Backend \<Rightarrow> CleanupRequest \<Rightarrow> ('w, CleanupResponse \<times> rt_error option) rt" where
  "Cleanup be req = do {
     records \<leftarrow> listPanes be;
     let requested = requestedPaneIDs (cu_PaneIDs req);
     let targets = requestedCleanupTargets (cu_Targets req);
     let qualifiedOnly = (targets \<noteq> []);
     let requestedOnly = (requested \<noteq> [] \<and> \<not> qualifiedOnly);
     out \<leftarrow> cleanupRecords be req qualifiedOnly requestedOnly records
       (targets, requested, \<lparr>cp_Closed = [], cp_Failed = [], cp_Skipped = []\<rparr>);
     return (case out of (targets', requested', resp) \<Rightarrow>
       let missing = (if qualifiedOnly then map fst targets' else []) @ (if requestedOnly then map fst requested' else []);
           resp' = fold (\<lambda>i. addFailed (emptyPane i) (cause_text ErrPaneNotFound)) missing resp
       in (resp', if cp_Failed resp' \<noteq> [] then Some [ErrCleanupPartial] else None)) }"

section \<open>Reconciliation\<close>

type_synonym livePaneKey = "SessionID \<times> ZellijPaneID"

definition notifyPaneMetadata :: "'w Backend \<Rightarrow> PaneRecord \<Rightarrow> string \<Rightarrow> bool \<Rightarrow> ('w, unit) rt" where
  "notifyPaneMetadata be record title available = do {
     takes \<leftarrow> gets (\<lambda>s. sv_observer s \<and> sv_metadata s);
     if \<not> takes then return ()
     else do {
       r \<leftarrow> currentPaneGeneration be record;
       case r of
         Inl _ \<Rightarrow> return ()
       | Inr current \<Rightarrow>
           if isTerminalPaneStatus (p_Status current) then return ()
           else notify (NMetadata current title available) } }"

definition publishRuntimeHealth :: "string \<Rightarrow> ('w, unit) rt" where
  "publishRuntimeHealth message = publish ((emptyEvent TypeHealthChanged)\<lparr>ev_Message := message\<rparr>)"

definition notifyReconciledPaneClosed :: "'w Backend \<Rightarrow> PaneRecord \<Rightarrow> ('w, unit) rt" where
  "notifyReconciledPaneClosed be record = do {
     StopPaneGeneration be (p_ID record) (p_Generation record);
     notify (NClosed record) }"

text \<open>A closure that is claimed and, if it was claimed by this call, reported.\<close>

definition claimAndReport :: "'w Backend \<Rightarrow> reg_op \<Rightarrow> (PaneRecord \<Rightarrow> PaneRecord) \<Rightarrow> ('w, unit) rt \<Rightarrow> ('w, reg_error + PaneRecord) rt" where
  "claimAndReport be op fix_up otherwise = do {
     out \<leftarrow> reg_call be op;
     case out of
       RErr e \<Rightarrow> do { otherwise; return (Inl e) }
     | RFlag p claimed \<Rightarrow> do {
         (if claimed then notifyReconciledPaneClosed be (fix_up p) else otherwise);
         return (Inr (fix_up p)) }
     | RPane p \<Rightarrow> return (Inr (fix_up p)) }"

definition exitedUnlessTerminal :: "PaneRecord \<Rightarrow> PaneRecord" where
  "exitedUnlessTerminal p =
     (if isTerminalPaneStatus (p_Status p) then p
      else p\<lparr>p_Status := PaneStatusExited, p_StatusMessage := ''zellij pane exited during reconcile''\<rparr>)"

definition reconcileRecord :: "'w Backend \<Rightarrow> (livePaneKey, ZPane) gomap \<Rightarrow> PaneRecord \<Rightarrow> ('w, reg_error + PaneRecord) rt" where
  "reconcileRecord be liveByKey record =
     (if p_Status record = PaneStatusExited
      then claimAndReport be (OpRemoveClaiming (p_ID record) (p_Generation record)) id (return ())
      else if isTerminalPaneStatus (p_Status record)
      then claimAndReport be (OpClaimClosure (p_ID record) (p_Generation record) (p_Status record) (p_StatusMessage record)) id
             (StopPaneGeneration be (p_ID record) (p_Generation record))
      else if p_ZellijPaneID record = [] then do {
        r \<leftarrow> currentPaneGeneration be record;
        case r of
          Inl e \<Rightarrow> return (Inl e)
        | Inr current \<Rightarrow> do { StopPaneGeneration be (p_ID record) (p_Generation record); return (Inr current) } }
      else case mget liveByKey (p_SessionID record, p_ZellijPaneID record) of
        None \<Rightarrow> claimAndReport be (OpClaimClosure (p_ID record) (p_Generation record) PaneStatusLost
                  ''zellij pane missing during reconcile'') id (return ())
      | Some live \<Rightarrow>
          if z_Exited live
          then claimAndReport be (OpRemoveClaiming (p_ID record) (p_Generation record)) exitedUnlessTerminal (return ())
          else if p_Status record = PaneStatusRunning then currentPaneGeneration be record
          else do {
            out \<leftarrow> reg_call be (OpActiveStatus (p_ID record) (p_Generation record) PaneStatusRunning
              ''zellij pane live during reconcile'');
            return (case out of RErr e \<Rightarrow> Inl e | RFlag current _ \<Rightarrow> Inr current | RPane current \<Rightarrow> Inr current) })"

record ReconcileResponse =
  rr_Panes :: "PaneView list"
  rr_Active :: "PaneView list"
  rr_Exited :: "PaneView list"
  rr_Lost :: "PaneView list"
  rr_Unmanaged :: "ZellijPaneID list"

definition addLive :: "SessionID \<Rightarrow> ZPane \<Rightarrow> (livePaneKey, ZPane) gomap \<times> livePaneKey list
    \<Rightarrow> (livePaneKey, ZPane) gomap \<times> livePaneKey list" where
  "addLive sid pane x =
     (if z_IsPlugin pane \<or> z_ID pane = [] then x
      else let key = (sid, z_ID pane)
           in (mput (fst x) key pane, if mget (fst x) key = None then snd x @ [key] else snd x))"

definition sessionsToInspect :: "PaneRecord list \<Rightarrow> SessionID list" where
  "sessionsToInspect records =
     sort (remdups (map p_SessionID (filter (\<lambda>r. \<not> isTerminalPaneStatus (p_Status r)) records)))"

definition addReconciled :: "PaneRecord \<Rightarrow> ReconcileResponse \<Rightarrow> ReconcileResponse" where
  "addReconciled p resp =
     (let pane = paneFromRecord p; resp' = resp\<lparr>rr_Panes := rr_Panes resp @ [pane]\<rparr>
      in case p_Status p of
           PaneStatusRunning \<Rightarrow> resp'\<lparr>rr_Active := rr_Active resp' @ [pane]\<rparr>
         | PaneStatusStarting \<Rightarrow> resp'\<lparr>rr_Active := rr_Active resp' @ [pane]\<rparr>
         | PaneStatusExited \<Rightarrow> resp'\<lparr>rr_Exited := rr_Exited resp' @ [pane]\<rparr>
         | PaneStatusLost \<Rightarrow> resp'\<lparr>rr_Lost := rr_Lost resp' @ [pane]\<rparr>
         | _ \<Rightarrow> resp')"

definition collectLive :: "'w Backend \<Rightarrow> PaneRecord list
    \<Rightarrow> ('w, rt_error + ((livePaneKey, ZPane) gomap \<times> livePaneKey list)) rt" where
  "collectLive be records =
     forUntil (sessionsToInspect records) ([], []) (\<lambda>sid acc. do {
       panes \<leftarrow> be_ListPanes be sid;
       case panes of
         Inl err \<Rightarrow> do {
           forEach records (\<lambda>r. notifyPaneMetadata be r [] False);
           publishRuntimeHealth (''reconcile failed for session '' @ be_Quote be sid @ '': '' @ err_text err);
           return (Inl err) }
       | Inr ps \<Rightarrow> return (Inr (fold (addLive sid) ps acc)) })"

definition reconcileOne :: "'w Backend \<Rightarrow> (livePaneKey, ZPane) gomap \<Rightarrow> PaneRecord \<Rightarrow> ReconcileResponse
    \<Rightarrow> ('w, (rt_error \<times> ReconcileResponse) + ReconcileResponse) rt" where
  "reconcileOne be live record resp = do {
     r \<leftarrow> reconcileRecord be live record;
     case r of
       Inl e \<Rightarrow>
         if gone_error e then return (Inr resp)
         else do {
           publishRuntimeHealth (''reconcile pane '' @ p_ID record @ '' failed: '' @ reg_text e);
           return (Inl ([ErrRegistry e], resp)) }
     | Inr reconciled \<Rightarrow> do {
         (case mget live (p_SessionID reconciled, p_ZellijPaneID reconciled) of
            None \<Rightarrow> return ()
          | Some z \<Rightarrow> if z_Exited z then return () else notifyPaneMetadata be reconciled (z_Title z) (z_TitleAvailable z));
         return (Inr (addReconciled reconciled resp)) } }"

definition Reconcile :: "'w Backend \<Rightarrow> ('w, rt_error option \<times> ReconcileResponse) rt" where
  "Reconcile be = do {
     records \<leftarrow> listPanes be;
     live \<leftarrow> collectLive be records;
     let empty = \<lparr>rr_Panes = [], rr_Active = [], rr_Exited = [], rr_Lost = [], rr_Unmanaged = []\<rparr>;
     case live of
       Inl err \<Rightarrow> return (Some err, empty)
     | Inr (liveByKey, liveKeys) \<Rightarrow> do {
         out \<leftarrow> forUntil records empty (reconcileOne be liveByKey);
         return (case out of
           Inl (err, resp) \<Rightarrow> (Some err, resp)
         | Inr resp \<Rightarrow>
             let managed = (\<lambda>key. \<exists>r \<in> set records. p_ZellijPaneID r \<noteq> [] \<and> (p_SessionID r, p_ZellijPaneID r) = key)
             in (None, resp\<lparr>rr_Unmanaged := map snd (filter (\<lambda>key. \<not> managed key) liveKeys)\<rparr>)) } }"

section \<open>Recovery\<close>

definition recoverLive :: "'w Backend \<Rightarrow> string list option \<Rightarrow> PaneRecord list
    \<Rightarrow> ('w, rt_error + ((livePaneKey, ZPane) gomap \<times> SessionID list)) rt" where
  "recoverLive be active records =
     forUntil records ([], []) (\<lambda>record (live, inspected).
       if isTerminalPaneStatus (p_Status record) \<or> p_SessionID record \<in> set inspected then return (Inr (live, inspected))
       else if (case active of None \<Rightarrow> False | Some ss \<Rightarrow> p_SessionID record \<notin> set ss)
       then return (Inr (live, p_SessionID record # inspected))
       else do {
         panes \<leftarrow> be_ListPanes be (p_SessionID record);
         return (case panes of
           Inl err \<Rightarrow> Inl err
         | Inr ps \<Rightarrow> Inr (fold (\<lambda>p m. if z_IsPlugin p then m else mput m (p_SessionID record, z_ID p) p) ps live,
             p_SessionID record # inspected)) })"

definition identityLost :: "(livePaneKey, ZPane) gomap \<Rightarrow> PaneRecord \<Rightarrow> bool" where
  "identityLost live record \<longleftrightarrow>
     \<not> isTerminalPaneStatus (p_Status record) \<and>
     (case mget live (p_SessionID record, p_ZellijPaneID record) of
        None \<Rightarrow> True
      | Some z \<Rightarrow> p_OwnershipToken record = [] \<or> (case p_ZellijTabID record of None \<Rightarrow> False | Some t \<Rightarrow> t \<noteq> z_TabID z))"

definition recoverRecord :: "'w Backend \<Rightarrow> (livePaneKey, ZPane) gomap \<Rightarrow> PaneRecord \<Rightarrow> unit \<Rightarrow> ('w, rt_error + unit) rt" where
  "recoverRecord be live record _ = do {
     notify (NOpened record);
     if identityLost live record then do {
       out \<leftarrow> reg_call be (OpClaimClosure (p_ID record) (p_Generation record) PaneStatusLost
         ''stored pane identity could not be recovered'');
       case out of
         RErr e \<Rightarrow> return (Inl [ErrRegistry e])
       | RFlag updated _ \<Rightarrow> do { notifyReconciledPaneClosed be updated; return (Inr ()) }
       | RPane _ \<Rightarrow> return (Inr ()) }
     else do {
       r \<leftarrow> reconcileRecord be live record;
       case r of
         Inl e \<Rightarrow> return (Inl [ErrRegistry e])
       | Inr current \<Rightarrow> do {
           (if isTerminalPaneStatus (p_Status current) then return () else startSubscription be (p_ID current));
           return (Inr ()) } } }"

definition Recover :: "'w Backend \<Rightarrow> ('w, rt_error option) rt" where
  "Recover be = do {
     records \<leftarrow> listPanes be;
     if records = [] then return None
     else do {
       active \<leftarrow> (case be_ActiveSessions be of
           None \<Rightarrow> return (Inr None)
         | Some lister \<Rightarrow> do { ss \<leftarrow> lister; return (case ss of Inl err \<Rightarrow> Inl err | Inr l \<Rightarrow> Inr (Some l)) });
       case active of
         Inl err \<Rightarrow> return (Some err)
       | Inr sessions \<Rightarrow> do {
           live \<leftarrow> recoverLive be sessions records;
           case live of
             Inl err \<Rightarrow> return (Some err)
           | Inr (liveByKey, _) \<Rightarrow> do {
               out \<leftarrow> forUntil records () (recoverRecord be liveByKey);
               return (case out of Inl err \<Rightarrow> Some err | Inr _ \<Rightarrow> None) } } } }"

definition StopObservations :: "'w Backend \<Rightarrow> ('w, unit) rt" where
  "StopObservations be = CloseSubscriptions be"

section \<open>Sessions and tabs\<close>

definition svcGetSession :: "SessionID \<Rightarrow> Registry \<Rightarrow> rt_error + SessionRecord" where
  "svcGetSession sid r =
     (case GetSession sid r of
        Inl e \<Rightarrow> if e = ErrNotFound then Inl [ErrSessionNotFound] else Inl [ErrRegistry e]
      | Inr x \<Rightarrow> Inr x)"

definition svcListTabs :: "SessionID \<Rightarrow> Registry \<Rightarrow> rt_error + TabRecord list" where
  "svcListTabs sid r =
     (case ListTabs sid r of
        Inl e \<Rightarrow> if e = ErrNotFound then Inl [ErrSessionNotFound] else Inl [ErrRegistry e]
      | Inr x \<Rightarrow> Inr x)"

definition svcGetTab :: "SessionID \<Rightarrow> TabID \<Rightarrow> Registry \<Rightarrow> rt_error + TabRecord" where
  "svcGetTab sid tid r =
     (case GetTab sid tid r of
        Inl e \<Rightarrow>
          if e = ErrNotFound then
            (if GetSession sid r = Inl ErrNotFound then Inl [ErrSessionNotFound] else Inl [ErrTabNotFound])
          else Inl [ErrRegistry e]
      | Inr x \<Rightarrow> Inr x)"

end
