(* ===== verification/Runtime_Plan.thy ===== *)
theory Runtime_Plan
  imports Runtime_Service
begin

text \<open>
  Execution plans, \<^verbatim>\<open>src/internal/runtime/execution_plan.go\<close>, and the summaries of
  \<^verbatim>\<open>src/internal/runtime/introspection.go\<close>.

  A plan's tabs are created one after the other. The panes of a tab after its first are created
  by one goroutine each; \<open>schedule n\<close>, an argument, is the order in which \<open>n\<close> of them
  finish, and the results are collected in that order. What runs in between is \<open>be_other\<close>.
\<close>

section \<open>Execution plans\<close>

record ExecutionPlanPaneSpec =
  ps_ID :: PaneID
  ps_Role :: string
  ps_AgentID :: string
  ps_Command :: "string list"
  ps_CWD :: string
  ps_InitialInput :: string
  ps_InitialInputReadyText :: string

record ExecutionPlanTabSpec =
  ts_Name :: string
  ts_LayoutString :: string
  ts_Panes :: "ExecutionPlanPaneSpec list"

record ApplyExecutionPlanRequest =
  ap_RequestID :: string
  ap_Session :: string
  ap_ZellijSession :: string
  ap_Layout :: string
  ap_Tabs :: "ExecutionPlanTabSpec list"

record ExecutionPlanTabResult =
  tr_Name :: string
  tr_Panes :: "PaneView list"

record ApplyExecutionPlanResponse =
  ar_RequestID :: string
  ar_Session :: string
  ar_Layout :: string
  ar_Tabs :: "ExecutionPlanTabResult list"

fun validatePanes :: "ExecutionPlanPaneSpec list \<Rightarrow> PaneID list \<Rightarrow> rt_error + PaneID list" where
  "validatePanes [] seen = Inr seen"
| "validatePanes (p # ps) seen =
     (if ps_ID p = [] then Inl [ErrInvalidExecutionPlan]
      else if ps_ID p \<in> set seen then Inl [ErrInvalidExecutionPlan]
      else validatePanes ps (ps_ID p # seen))"

fun validateTabs :: "ExecutionPlanTabSpec list \<Rightarrow> PaneID list \<Rightarrow> rt_error option" where
  "validateTabs [] seen = None"
| "validateTabs (t # ts) seen =
     (if ts_Panes t = [] then Some [ErrInvalidExecutionPlan]
      else case validatePanes (ts_Panes t) seen of Inl e \<Rightarrow> Some e | Inr seen' \<Rightarrow> validateTabs ts seen')"

definition validateExecutionPlan :: "ApplyExecutionPlanRequest \<Rightarrow> rt_error option" where
  "validateExecutionPlan req =
     (if TrimSpace (ap_ZellijSession req) = [] then Some [ErrZellijSessionRequired]
      else if ap_Session req = [] then Some [ErrInvalidExecutionPlan]
      else if ap_Tabs req = [] then Some [ErrInvalidExecutionPlan]
      else validateTabs (ap_Tabs req) [])"

text \<open>The script is two lines; a quote is \<open>CHR 0x27\<close>, a double quote \<open>CHR 0x22\<close>.\<close>

definition readyScript :: string where
  "readyScript = ''printf '' @ [CHR 0x27] @ ''agentd_execution_plan_ready:%s'' @ [CHR 0x5C, CHR ''n'', CHR 0x27] @ '' '' @
     [CHR 0x22] @ ''$1'' @ [CHR 0x22, NL] @ ''exec sh''"

definition DefaultExecutionPlanPaneCommand :: "string \<Rightarrow> string list" where
  "DefaultExecutionPlanPaneCommand i = [''sh'', ''-lc'', readyScript, ''agentd-execution-plan'', i]"

definition executionPlanCommand :: "ExecutionPlanPaneSpec \<Rightarrow> string list" where
  "executionPlanCommand spec = (if ps_Command spec \<noteq> [] then ps_Command spec else DefaultExecutionPlanPaneCommand (ps_ID spec))"

definition planRequest :: "string \<Rightarrow> string \<Rightarrow> string \<Rightarrow> bool \<Rightarrow> string \<Rightarrow> int option \<Rightarrow> ExecutionPlanPaneSpec \<Rightarrow> CreatePaneRequest" where
  "planRequest zellijSession taskID tabName newTab layout tab spec =
     \<lparr>cr_NoFocus = False, cr_ReuseParentTab = False, cr_ReuseDirectoryTab = False, cr_EnsureSession = False,
      cr_ParentPaneID = [], cr_ID = ps_ID spec, cr_TaskID = taskID, cr_AgentID = ps_AgentID spec, cr_Role = ps_Role spec,
      cr_Name = ps_ID spec, cr_ZellijSession = zellijSession, cr_NewTab = newTab, cr_TabName = tabName,
      cr_LayoutString = layout, cr_ZellijTabID = tab, cr_SameTabAsPaneID = [], cr_SameTabAsZellijPaneID = [],
      cr_Command = executionPlanCommand spec, cr_CWD = ps_CWD spec, cr_InitialInput = ps_InitialInput spec,
      cr_InitialInputReadyText = ps_InitialInputReadyText spec\<rparr>"

type_synonym planResult = "nat \<times> (rt_error + PaneRecord)"

fun collectResults :: "planResult list \<Rightarrow> PaneRecord option list \<times> PaneRecord list \<times> rt_error
    \<Rightarrow> PaneRecord option list \<times> PaneRecord list \<times> rt_error" where
  "collectResults [] x = x"
| "collectResults ((i, Inl err) # rs) (panes, created, errs) = collectResults rs (panes, created, errs @ err)"
| "collectResults ((i, Inr r) # rs) (panes, created, errs) =
     (if p_ID r \<noteq> [] then collectResults rs (panes[i := Some r], created @ [r], errs)
      else collectResults rs (panes, created, errs))"

text \<open>With an error, the panes that were created, in the order of arrival; else one per spec, in theirs.\<close>

definition collectExecutionPlanPaneResults :: "nat \<Rightarrow> planResult list \<Rightarrow> (rt_error \<times> PaneRecord list) + PaneRecord option list" where
  "collectExecutionPlanPaneResults n results =
     (case collectResults results (replicate n None, [], []) of (panes, created, errs) \<Rightarrow>
        if errs \<noteq> [] then Inl (errs, created) else Inr panes)"

fun createScheduled :: "'w Backend \<Rightarrow> (ExecutionPlanPaneSpec \<Rightarrow> CreatePaneRequest) \<Rightarrow> ExecutionPlanPaneSpec list \<Rightarrow> nat list
    \<Rightarrow> ('w, planResult list) rt" where
  "createScheduled be mk specs [] = return []"
| "createScheduled be mk specs (i # is) = do {
     r \<leftarrow> CreatePane be (mk (specs ! i));
     rs \<leftarrow> createScheduled be mk specs is;
     return ((i, r) # rs) }"

definition createRemainingExecutionPlanTabPanes :: "'w Backend \<Rightarrow> (nat \<Rightarrow> nat list) \<Rightarrow> string \<Rightarrow> string \<Rightarrow> string \<Rightarrow> int
    \<Rightarrow> ExecutionPlanPaneSpec list \<Rightarrow> ('w, (rt_error \<times> PaneRecord list) + PaneRecord option list) rt" where
  "createRemainingExecutionPlanTabPanes be schedule zellijSession taskID tabName tab specs =
     (if specs = [] then return (Inr [])
      else do {
        results \<leftarrow> createScheduled be (planRequest zellijSession taskID tabName False [] (Some tab)) specs (schedule (length specs));
        return (collectExecutionPlanPaneResults (length specs) results) })"

fun rollbackPanes :: "'w Backend \<Rightarrow> PaneRecord list \<Rightarrow> rt_error \<Rightarrow> ('w, rt_error) rt" where
  "rollbackPanes be [] errs = return errs"
| "rollbackPanes be (r # rs) errs = do {
     e \<leftarrow> cleanupCreatedPane be r;
     rollbackPanes be rs (errs @ (case e of None \<Rightarrow> [] | Some err \<Rightarrow> err)) }"

definition rollbackExecutionPlan :: "'w Backend \<Rightarrow> PaneRecord list \<Rightarrow> ('w, rt_error) rt" where
  "rollbackExecutionPlan be created = do {
     errs \<leftarrow> rollbackPanes be created [];
     return (if errs = [] then [] else ErrCleanupPartial # errs) }"

definition applyTab :: "'w Backend \<Rightarrow> (nat \<Rightarrow> nat list) \<Rightarrow> ApplyExecutionPlanRequest \<Rightarrow> ExecutionPlanTabSpec
    \<Rightarrow> PaneRecord list \<times> ExecutionPlanTabResult list
    \<Rightarrow> ('w, rt_error + (PaneRecord list \<times> ExecutionPlanTabResult list)) rt" where
  "applyTab be schedule req tab = (\<lambda>(createdAll, results). do {
     let tabName = (if ts_Name tab = [] then ap_Session req else ts_Name tab);
     let first = hd (ts_Panes tab);
     let rest = tl (ts_Panes tab);
     r \<leftarrow> CreatePane be (planRequest (ap_ZellijSession req) (ap_Session req) tabName True (ts_LayoutString tab) None first);
     (case r of
        Inl err \<Rightarrow> do { e \<leftarrow> rollbackExecutionPlan be createdAll; return (Inl (err @ e)) }
      | Inr record \<Rightarrow> do {
          let created1 = createdAll @ [record];
          (if rest = [] then return (Inr (created1, results @ [\<lparr>tr_Name = tabName, tr_Panes = [paneFromRecord record]\<rparr>]))
           else (case p_ZellijTabID record of
               None \<Rightarrow> do { e \<leftarrow> rollbackExecutionPlan be created1; return (Inl (ErrInvalidExecutionPlan # e)) }
             | Some t \<Rightarrow> do {
                 remaining \<leftarrow> createRemainingExecutionPlanTabPanes be schedule (ap_ZellijSession req) (ap_Session req) tabName t rest;
                 (case remaining of
                    Inl (err, created) \<Rightarrow> do {
                      e \<leftarrow> rollbackExecutionPlan be (created1 @ created); return (Inl (err @ e)) }
                  | Inr panes \<Rightarrow>
                      let more = map the (filter (\<lambda>x. x \<noteq> None) panes)
                      in return (Inr (created1 @ more,
                           results @ [\<lparr>tr_Name = tabName, tr_Panes = map paneFromRecord (record # more)\<rparr>]))) })) }) })"

definition ApplyExecutionPlan :: "'w Backend \<Rightarrow> (nat \<Rightarrow> nat list) \<Rightarrow> ApplyExecutionPlanRequest
    \<Rightarrow> ('w, rt_error + ApplyExecutionPlanResponse) rt" where
  "ApplyExecutionPlan be schedule req =
     (case validateExecutionPlan req of
        Some err \<Rightarrow> return (Inl err)
      | None \<Rightarrow> do {
          out \<leftarrow> forUntil (ap_Tabs req) ([], []) (applyTab be schedule req);
          return (case out of
            Inl err \<Rightarrow> Inl err
          | Inr (_, tabs) \<Rightarrow> Inr \<lparr>ar_RequestID = ap_RequestID req, ar_Session = ap_Session req, ar_Layout = ap_Layout req,
              ar_Tabs = tabs\<rparr>) })"

section \<open>Introspection\<close>

record RuntimeCounts =
  n_Managed :: nat
  n_Starting :: nat
  n_Running :: nat
  n_Exited :: nat
  n_Closed :: nat
  n_Lost :: nat
  n_Error :: nat
  n_Active :: nat
  n_Terminal :: nat

definition count_status :: "PaneView \<Rightarrow> RuntimeCounts \<Rightarrow> RuntimeCounts" where
  "count_status pane c =
     (case pv_Status pane of
        None \<Rightarrow> c
      | Some st \<Rightarrow> (case st of
            PaneStatusStarting \<Rightarrow> c\<lparr>n_Starting := Suc (n_Starting c), n_Active := Suc (n_Active c)\<rparr>
          | PaneStatusRunning \<Rightarrow> c\<lparr>n_Running := Suc (n_Running c), n_Active := Suc (n_Active c)\<rparr>
          | PaneStatusExited \<Rightarrow> c\<lparr>n_Exited := Suc (n_Exited c), n_Terminal := Suc (n_Terminal c)\<rparr>
          | PaneStatusClosed \<Rightarrow> c\<lparr>n_Closed := Suc (n_Closed c), n_Terminal := Suc (n_Terminal c)\<rparr>
          | PaneStatusLost \<Rightarrow> c\<lparr>n_Lost := Suc (n_Lost c), n_Terminal := Suc (n_Terminal c)\<rparr>
          | PaneStatusError \<Rightarrow> c\<lparr>n_Error := Suc (n_Error c)\<rparr>))"

definition countPanes :: "PaneView list \<Rightarrow> RuntimeCounts" where
  "countPanes panes = fold count_status panes
     \<lparr>n_Managed = length panes, n_Starting = 0, n_Running = 0, n_Exited = 0, n_Closed = 0, n_Lost = 0, n_Error = 0,
      n_Active = 0, n_Terminal = 0\<rparr>"

text \<open>\<open>byKey[key] = append(byKey[key], pane)\<close> for every pane, then the keys in order.\<close>

definition groupPanes :: "(PaneView \<Rightarrow> string) \<Rightarrow> PaneView list \<Rightarrow> (string \<times> PaneView list) list" where
  "groupPanes key panes =
     (let byKey = fold (\<lambda>p m. mput m (key p) ((case mget m (key p) of None \<Rightarrow> [] | Some ps \<Rightarrow> ps) @ [p])) panes [];
          keys = sort (map fst byKey)
      in map (\<lambda>k. (k, case mget byKey k of None \<Rightarrow> [] | Some ps \<Rightarrow> ps)) keys)"

definition groupPanesByTask :: "PaneView list \<Rightarrow> (string \<times> PaneView list) list" where
  "groupPanesByTask panes = groupPanes pv_TaskID panes"

definition role_key :: "PaneView \<Rightarrow> string" where
  "role_key p = (if pv_Role p = [] then ''unknown'' else pv_Role p)"

definition groupPanesByRole :: "PaneView list \<Rightarrow> (string \<times> PaneView list) list" where
  "groupPanesByRole panes = groupPanes role_key panes"

record PaneOutputSummary =
  os_PaneID :: PaneID
  os_TaskID :: string
  os_Role :: string
  os_Status :: "PaneStatus option"
  os_LastOutput :: string
  os_UpdatedAt :: time

definition outputSummaries :: "PaneView list \<Rightarrow> PaneOutputSummary list" where
  "outputSummaries panes = map (\<lambda>p. \<lparr>os_PaneID = pv_ID p, os_TaskID = pv_TaskID p, os_Role = pv_Role p,
     os_Status = pv_Status p, os_LastOutput = pv_LastOutput p, os_UpdatedAt = pv_UpdatedAt p\<rparr>) panes"

definition runtimeStatusMessage :: "nat \<Rightarrow> string" where
  "runtimeStatusMessage n = (if n = 0 then ''no managed panes'' else nat_digits n @ '' managed pane(s)'')"

record InspectRuntimeResponse =
  ir_Message :: string
  ir_Counts :: RuntimeCounts
  ir_Panes :: "PaneView list"
  ir_Tasks :: "(string \<times> PaneView list) list"
  ir_Roles :: "(string \<times> PaneView list) list"
  ir_Outputs :: "PaneOutputSummary list"

definition InspectRuntime :: "'w Backend \<Rightarrow> ('w, InspectRuntimeResponse) rt" where
  "InspectRuntime be = do {
     records \<leftarrow> listPanes be;
     let panes = map paneFromRecord records;
     return \<lparr>ir_Message = runtimeStatusMessage (length panes), ir_Counts = countPanes panes, ir_Panes = panes,
       ir_Tasks = groupPanesByTask panes, ir_Roles = groupPanesByRole panes, ir_Outputs = outputSummaries panes\<rparr> }"

text \<open>An event summary has the event's own fields, so it is the event.\<close>

definition RecentEvents :: "Bus \<Rightarrow> int \<Rightarrow> EventType list \<Rightarrow> Event list" where
  "RecentEvents bus limit types =
     (let summaries = filter (\<lambda>e. types = [] \<or> ev_Type e \<in> set types) (Recent bus 0)
      in if 0 < limit \<and> limit < int (length summaries) then drop (length summaries - nat limit) summaries else summaries)"
section \<open>Properties of plans\<close>

text \<open>The accepted plans.\<close>

lemma validatePanes_Inr:
  "validatePanes ps seen = Inr seen' \<longleftrightarrow>
    [] \<notin> set (map ps_ID ps) \<and> distinct (map ps_ID ps) \<and> set (map ps_ID ps) \<inter> set seen = {} \<and> seen' = rev (map ps_ID ps) @ seen"
  by (induction ps arbitrary: seen) auto

lemma validatePanes_Inl: "validatePanes ps seen = Inl e \<Longrightarrow> e = [ErrInvalidExecutionPlan]"
  by (induction ps arbitrary: seen) (auto split: if_splits)

definition plan_ids :: "ExecutionPlanTabSpec list \<Rightarrow> PaneID list" where
  "plan_ids ts = concat (map (\<lambda>t. map ps_ID (ts_Panes t)) ts)"

lemma validateTabs_None:
  "validateTabs ts seen = None \<longleftrightarrow>
    (\<forall>t \<in> set ts. ts_Panes t \<noteq> []) \<and> [] \<notin> set (plan_ids ts) \<and> distinct (plan_ids ts) \<and> set (plan_ids ts) \<inter> set seen = {}"
proof (induction ts arbitrary: seen)
  case (Cons t ts)
  show ?case
  proof (cases "validatePanes (ts_Panes t) seen")
    case (Inl e)
    then have "\<not> ([] \<notin> set (map ps_ID (ts_Panes t)) \<and> distinct (map ps_ID (ts_Panes t)) \<and>
        set (map ps_ID (ts_Panes t)) \<inter> set seen = {})"
      using validatePanes_Inr [of "ts_Panes t" seen "rev (map ps_ID (ts_Panes t)) @ seen"] by auto
    then show ?thesis using Inl by (auto simp: plan_ids_def)
  next
    case (Inr seen')
    define ids where "ids = map ps_ID (ts_Panes t)"
    have v: "[] \<notin> set ids" "distinct ids" "set ids \<inter> set seen = {}" "set seen' = set ids \<union> set seen"
      using Inr by (simp_all add: validatePanes_Inr ids_def)
    have "plan_ids (t # ts) = ids @ plan_ids ts" by (simp add: plan_ids_def ids_def)
    moreover have "set (plan_ids ts) \<inter> set seen' = {} \<longleftrightarrow>
        set ids \<inter> set (plan_ids ts) = {} \<and> set (plan_ids ts) \<inter> set seen = {}"
      unfolding v(4) by blast
    ultimately show ?thesis using Inr v(1-3) Cons.IH [of seen'] by (simp add: Int_Un_distrib2)
  qed
qed (simp add: plan_ids_def)

text \<open>
  A plan is accepted exactly if it names a Zellij session and a session, has at least one
  tab, every tab has a pane, and the pane identifiers are non-empty and differ throughout the
  plan.
\<close>

theorem plan_accepted_iff:
  "validateExecutionPlan req = None \<longleftrightarrow>
    TrimSpace (ap_ZellijSession req) \<noteq> [] \<and> ap_Session req \<noteq> [] \<and> ap_Tabs req \<noteq> [] \<and>
    list_all (\<lambda>t. ts_Panes t \<noteq> []) (ap_Tabs req) \<and> [] \<notin> set (plan_ids (ap_Tabs req)) \<and> distinct (plan_ids (ap_Tabs req))"
  by (simp add: validateExecutionPlan_def validateTabs_None list_all_iff)

lemma collectResults_ok:
  assumes "\<And>i r. (i, r) \<in> set rs \<Longrightarrow> \<exists>p. r = Inr p \<and> p_ID p \<noteq> [] \<and> i < length panes" "distinct (map fst rs)"
  shows "collectResults rs (panes, created, []) =
    (map (\<lambda>i. case map_of rs i of Some (Inr p) \<Rightarrow> Some p | _ \<Rightarrow> panes ! i) [0..<length panes],
     created @ map (\<lambda>(i, r). projr r) rs, [])"
  using assms
proof (induction rs arbitrary: panes created)
  case Nil
  then show ?case by (simp add: map_nth)
next
  case (Cons x rs)
  obtain i r where x: "x = (i, r)" by (cases x)
  then obtain p where p: "r = Inr p" "p_ID p \<noteq> []" "i < length panes" using Cons.prems(1) by fastforce
  have new: "map_of rs i = None" using Cons.prems(2) x by (simp add: map_of_eq_None_iff)
  have IH: "collectResults rs (panes[i := Some p], created @ [p], []) =
    (map (\<lambda>j. case map_of rs j of Some (Inr p) \<Rightarrow> Some p | _ \<Rightarrow> panes[i := Some p] ! j) [0..<length panes],
     (created @ [p]) @ map (\<lambda>(i, r). projr r) rs, [])"
    using Cons.IH [of "panes[i := Some p]" "created @ [p]"] Cons.prems by (simp add: x)
  show ?case using p IH new by (auto simp: x nth_list_update split: option.splits sum.splits)
qed

text \<open>
  The panes of a tab come back in the order of the plan, whatever the order in which the
  goroutines finish, when all of them succeed.
\<close>

theorem plan_results_in_order:
  assumes "distinct (map fst results)" "set (map fst results) = {..<n}"
    and "\<And>i r. (i, r) \<in> set results \<Longrightarrow> \<exists>p. r = Inr p \<and> p_ID p \<noteq> []"
  shows "collectExecutionPlanPaneResults n results =
    Inr (map (\<lambda>i. case map_of results i of Some (Inr p) \<Rightarrow> Some p | _ \<Rightarrow> None) [0..<n])"
proof -
  have "\<exists>p. r = Inr p \<and> p_ID p \<noteq> [] \<and> i < length (replicate n None)" if "(i, r) \<in> set results" for i r
    using assms(2,3) that by force
  from collectResults_ok [of results "replicate n None" "[]", OF this assms(1)]
  have "collectResults results (replicate n None, [], []) =
    (map (\<lambda>i. case map_of results i of Some (Inr p) \<Rightarrow> Some p | _ \<Rightarrow> replicate n None ! i) [0..<n],
     map (\<lambda>(i, r). projr r) results, [])" by simp
  moreover have "map (\<lambda>i. case map_of results i of Some (Inr p) \<Rightarrow> Some p | _ \<Rightarrow> replicate n None ! i) [0..<n] =
    map (\<lambda>i. case map_of results i of Some (Inr p) \<Rightarrow> Some p | _ \<Rightarrow> None) [0..<n]"
    by (rule map_cong) (auto split: option.splits sum.splits)
  ultimately show ?thesis by (simp add: collectExecutionPlanPaneResults_def)
qed

theorem plan_results_in_order_witness:
  "let p = newPaneRecord 0 1 (demo_request ''p'' []); q = newPaneRecord 0 2 (demo_request ''q'' [])
   in collectExecutionPlanPaneResults 2 [(1, Inr q), (0, Inr p)] = Inr [Some p, Some q]"
proof -
  let ?p = "newPaneRecord 0 1 (demo_request ''p'' [])" and ?q = "newPaneRecord 0 2 (demo_request ''q'' [])"
  have "p_ID ?p \<noteq> []" "p_ID ?q \<noteq> []" by (simp_all add: newPaneRecord_def demo_request_def)
  then have "\<exists>x. r = Inr x \<and> p_ID x \<noteq> []" if "(i, r) \<in> set [(1, Inr ?q), (0, Inr ?p)]" for i :: nat and r :: "rt_error + PaneRecord"
    using that by auto
  from plan_results_in_order [of "[(1, Inr ?q), (0, Inr ?p)]" 2, OF _ _ this] show ?thesis
    by (simp add: Let_def lessThan_Suc numeral_2_eq_2 upt_rec insert_commute)
qed

section \<open>Properties of summaries\<close>

lemma groupPanes_map:
  fixes panes :: "PaneView list"
  defines "ins \<equiv> \<lambda>key p m. mput m (key p) ((case mget m (key p) of None \<Rightarrow> [] | Some ps \<Rightarrow> ps) @ [p])"
  shows "mapok m \<Longrightarrow> mapok (fold (ins key) panes m)"
    "(case mget (fold (ins key) panes m) k of None \<Rightarrow> [] | Some ps \<Rightarrow> ps) =
      (case mget m k of None \<Rightarrow> [] | Some ps \<Rightarrow> ps) @ filter (\<lambda>p. key p = k) panes"
    "set (map fst (fold (ins key) panes m)) = set (map fst m) \<union> key ` set panes"
proof (induction panes arbitrary: m)
  case (Cons p panes)
  { case 1 then show ?case using Cons.IH(1) by (simp add: ins_def) }
  { case 2 show ?case using Cons.IH(2) [of "ins key p m"] by (auto simp: ins_def) }
  { case 3 show ?case using Cons.IH(3) [of "ins key p m"] by (auto simp: ins_def dom_update) }
qed simp_all

text \<open>
  Grouping the panes by task or role partitions them: the keys come in strictly increasing
  order, exactly those that occur, and each group holds the panes with its key in their order.
\<close>

theorem groups_partition:
  "sorted_wrt (<) (map fst (groupPanes key panes)) \<and> set (map fst (groupPanes key panes)) = key ` set panes \<and>
   list_all (\<lambda>(k, ps). ps = filter (\<lambda>p. key p = k) panes) (groupPanes key panes)"
proof -
  let ?m = "fold (\<lambda>p m. mput m (key p) ((case mget m (key p) of None \<Rightarrow> [] | Some ps \<Rightarrow> ps) @ [p])) panes []"
  have ok: "mapok ?m" using groupPanes_map(1) [of "[]" key panes] by simp
  have keys: "set (map fst ?m) = key ` set panes" using groupPanes_map(3) [of key panes "[]"] by simp
  have get: "(case mget ?m k of None \<Rightarrow> [] | Some ps \<Rightarrow> ps) = filter (\<lambda>p. key p = k) panes" for k
    using groupPanes_map(2) [of key panes "[]" k] by simp
  have g: "groupPanes key panes = map (\<lambda>k. (k, filter (\<lambda>p. key p = k) panes)) (sort (map fst ?m))"
    unfolding groupPanes_def Let_def get by (rule refl)
  have "sorted_wrt (<) (sort (map fst ?m))" using ok by (simp add: strict_sorted_iff)
  then show ?thesis using keys by (simp add: g o_def list_all_iff del: sort_key_simps)
qed

lemma count_status_fold:
  assumes "\<And>p. p \<in> set panes \<Longrightarrow> pv_Status p \<noteq> None"
  shows "n_Active (fold count_status panes c) + n_Terminal (fold count_status panes c) + n_Error (fold count_status panes c) =
      n_Active c + n_Terminal c + n_Error c + length panes \<and>
    n_Running (fold count_status panes c) = n_Running c + length (filter (\<lambda>p. pv_Status p = Some PaneStatusRunning) panes) \<and>
    n_Managed (fold count_status panes c) = n_Managed c"
  using assms
proof (induction panes arbitrary: c)
  case (Cons p panes)
  have "pv_Status p \<noteq> None" using Cons.prems by simp
  then obtain st where st: "pv_Status p = Some st" by blast
  from Cons.IH [of "count_status p c"] Cons.prems show ?case
    by (cases st) (simp_all add: count_status_def st)
qed simp

text \<open>
  What \<open>InspectRuntime\<close> counts adds up: every managed pane is counted once, as active,
  terminal or in error, and the running ones are those registered as running.
\<close>

theorem counts_add_up:
  "let c = countPanes (map paneFromRecord records)
   in n_Managed c = length records \<and> n_Active c + n_Terminal c + n_Error c = length records \<and>
      n_Running c = length (filter (\<lambda>r. p_Status r = PaneStatusRunning) records)"
proof -
  have "filter (\<lambda>p. pv_Status p = Some PaneStatusRunning) (map paneFromRecord records) =
      map paneFromRecord (filter (\<lambda>r. p_Status r = PaneStatusRunning) records)"
    by (simp add: filter_map o_def paneFromRecord_def)
  moreover have "pv_Status p \<noteq> None" if "p \<in> set (map paneFromRecord records)" for p
    using that by (auto simp: paneFromRecord_def)
  note sums = count_status_fold [of "map paneFromRecord records" "\<lparr>n_Managed = length records, n_Starting = 0,
    n_Running = 0, n_Exited = 0, n_Closed = 0, n_Lost = 0, n_Error = 0, n_Active = 0, n_Terminal = 0\<rparr>", OF this]
  ultimately show ?thesis using sums by (simp add: countPanes_def Let_def)
qed

end
