(* ===== verification/Runtime_Safety.thy ===== *)
theory Runtime_Safety
  imports Runtime_Plan
begin

text \<open>
  What holds of the runtime as a whole. Every operation meets the contract \<open>steps\<close> that it
  assumes of its environment, so any number of goroutines running them meets it too. From this:
  a pane's closing is reported to the observer at most once, the registry and the subscription
  manager keep their invariants, and a clean-up of qualified targets leaves every other pane
  alone.
\<close>

section \<open>Every operation meets the contract\<close>

lemma allows_all: "(\<And>op. A op) \<Longrightarrow> allows A p"
  by (simp add: allows_def)

lemma keeps_focus:
  assumes be: "backend_steps A be"
  shows "keeps (steps A c s0) (FocusPane be i x y)" "keeps (steps A c s0) (FocusSession be i x y)"
proof -
  have sw: "keeps (steps A c s0) (f x y z w)" if "be_SwitchSession be = Some f" for f x y z w
    by (rule backend_keeps_optional(3) [OF be that])
  show "keeps (steps A c s0) (FocusPane be i x y)" "keeps (steps A c s0) (FocusSession be i x y)"
    unfolding FocusPane_def FocusSession_def
    by (intro keep rt_keep be; erule sw)+
qed

lemma keeps_SendInput:
  assumes be: "backend_steps A be" and A: "\<And>op. A op" and guard: "\<And>g. si_BeforeSend req = Some g \<Longrightarrow> stays A g"
  shows "keeps (steps A c s0) (SendInput be req)"
proof -
  have g: "keeps (steps A c s0) g" if "si_BeforeSend req = Some g" for g
    by (rule keeps_stays [OF guard [OF that]])
  have t: "keeps (steps A c s0) (inputTarget be req)" unfolding inputTarget_def by (intro keep rt_keep be)
  have "keeps (steps A c s0) (guardedTarget be req r)" for r
    unfolding guardedTarget_def by (cases "si_BeforeSend req") (auto intro!: keep t g)
  then show ?thesis unfolding SendInput_def deliverInput_def by (intro keep rt_keep be A t)
qed

lemma keeps_SendMessage:
  assumes be: "backend_steps A be" and A: "\<And>op. A op"
  shows "keeps (steps A c s0) (SendMessage be src dst ty body)"
  unfolding SendMessage_def by (intro keep rt_keep keeps_SendInput be A) simp

lemma keeps_inspect:
  assumes be: "backend_steps A be" and A: "\<And>op. A op"
  shows "keeps (steps A c s0) (ListPaneViews be)" "keeps (steps A c s0) (InspectPane be i)"
    "keeps (steps A c s0) (SnapshotOutput be i full ansi)"
  unfolding ListPaneViews_def InspectPane_def SnapshotOutput_def by (intro keep rt_keep be A)+

lemma keeps_case_wake [keep]:
  "(\<And>e. keeps I (f e)) \<Longrightarrow> (\<And>ev. keeps I (g ev)) \<Longrightarrow> keeps I h \<Longrightarrow>
    keeps I (case w of CtxDone e \<Rightarrow> f e | GotEvent ev \<Rightarrow> g ev | SubscriptionClosed \<Rightarrow> h)"
  by (cases w) simp_all

lemma keeps_WaitForOutputMarker:
  assumes be: "backend_steps A be" and A: "\<And>op. A op"
  shows "keeps (steps A c s0) (WaitForOutputMarker be i marker matchPrefix wakes)"
proof -
  have "keeps (steps A c s0) (awaitMarker be i marker matchPrefix wakes)"
    by (induction wakes) (auto intro!: keep rt_keep be)
  then show ?thesis unfolding WaitForOutputMarker_def by (intro keep rt_keep keeps_inspect be A)
qed

text \<open>The credit of a claim, spent by reporting it.\<close>

lemma valid_claimed_report:
  assumes be: "backend_steps A be"
  shows "valid (steps A (c + mset (if claimed then [p_Generation p] else [])) s0)
    (do { StopPaneGeneration be i g; (if claimed then notify (NClosed p) else return ()); return x }) (\<lambda>_. steps A c s0)"
proof -
  have "mset (if claimed then [p_Generation p] else []) = (if claimed then {#p_Generation p#} else {#})" by simp
  then show ?thesis
    by (simp only:) (rule valid_bind [OF valid_keeps [OF keeps_StopPaneGeneration [OF be]]],
        rule valid_bind [OF valid_report valid_return], assumption)
qed

lemma keeps_ClosePane:
  assumes be: "backend_steps A be" and A: "\<And>op. A op"
  shows "keeps (steps A c s0) (ClosePane be i)"
proof -
  have claim: "keeps (steps A c s0) (do {
      out \<leftarrow> reg_call be (OpClaimClosure i g st m);
      case out of
        RErr e \<Rightarrow> return (f e)
      | RFlag updated claimed \<Rightarrow> do {
          StopPaneGeneration be j h;
          (if claimed then notify (NClosed updated) else return ());
          return (r updated) }
      | RPane updated \<Rightarrow> return (r' updated) })" for i g st m f j h r r'
  proof (rule keeps_claiming [OF be A])
    fix out
    show "valid (steps A (c + mset (claim_of (OpClaimClosure i g st m) out)) s0)
       (case out of RErr e \<Rightarrow> return (f e)
        | RFlag updated claimed \<Rightarrow> do {
            StopPaneGeneration be j h;
            (if claimed then notify (NClosed updated) else return ());
            return (r updated) }
        | RPane updated \<Rightarrow> return (r' updated)) (\<lambda>_. steps A c s0)"
    proof (cases out)
      case (RFlag p b)
      show ?thesis unfolding RFlag reg_out.case claim_of.simps by (rule valid_claimed_report [OF be])
    qed (simp_all add: valid_return)
  qed
  show ?thesis unfolding ClosePane_def by (intro keep rt_keep be A claim)
qed

lemma keeps_cleanupRecord:
  assumes be: "backend_steps A be" and A: "allows A p"
  shows "keeps (steps A c s0) (cleanupRecord be p resp)"
  unfolding cleanupRecord_def releaseCleanupRecord_def by (intro keep rt_keep be allowsD [OF A])

text \<open>The clean-up's loop acts on the records it selects.\<close>

lemma keeps_cleanupRecords:
  assumes be: "backend_steps A be"
    and "\<And>p. p \<in> set records \<Longrightarrow> \<not> q \<or> mget (fst x) (p_ID p) = Some (p_OwnershipToken p) \<and> p_OwnershipToken p \<noteq> []
      \<Longrightarrow> allows A p"
  shows "keeps (steps A c s0) (cleanupRecords be req q ro records x)"
  using assms(2)
proof (induction records arbitrary: x)
  case (Cons p records)
  obtain t r resp where x: "x = (t, r, resp)" by (cases x)
  have del: "mget (mdel t j) k = Some v \<Longrightarrow> mget t k = Some v" for j k v
    by (cases "k = j") (simp_all add: delete_conv')
  have IH: "keeps (steps A c s0) (cleanupRecords be req q ro records (t', r', resp'))"
    if "t' = t \<or> t' = mdel t (p_ID p)" for t' r' resp'
    using that Cons.prems del by (intro Cons.IH) (auto simp: x)
  have clean: "keeps (steps A c s0) (cleanupRecord be p resp)"
    if "\<not> q \<or> mget t (p_ID p) = Some (p_OwnershipToken p) \<and> p_OwnershipToken p \<noteq> []"
    using that Cons.prems by (intro keeps_cleanupRecord be) (simp add: x)
  show ?case unfolding x cleanupRecords.simps Let_def
    by (intro keep IH clean) auto
qed (auto intro: keep)

lemma keeps_Cleanup:
  assumes be: "backend_steps A be" and A: "\<And>op. A op"
  shows "keeps (steps A c s0) (Cleanup be req)"
  unfolding Cleanup_def by (intro keep rt_keep be keeps_cleanupRecords allows_all A)

lemma keeps_metadata:
  assumes be: "backend_steps A be"
  shows "keeps (steps A c s0) (notifyPaneMetadata be p title b)" "keeps (steps A c s0) (publishRuntimeHealth m)"
  unfolding notifyPaneMetadata_def publishRuntimeHealth_def by (intro keep rt_keep be)+

lemma keeps_claimAndReport:
  assumes be: "backend_steps A be" and A: "A op" and gen: "\<And>p. p_Generation (f p) = p_Generation p"
    and op: "\<And>p b. claim_of op (RFlag p b) = (if b then [p_Generation p] else [])"
    and other: "\<And>d. keeps (steps A d s0) g"
  shows "keeps (steps A c s0) (claimAndReport be op f g)"
  unfolding claimAndReport_def
proof (rule keeps_claiming [OF be A])
  fix out
  show "valid (steps A (c + mset (claim_of op out)) s0)
     (case out of
        RErr e \<Rightarrow> do { g; return (Inl e) }
      | RFlag p claimed \<Rightarrow> do {
          (if claimed then notifyReconciledPaneClosed be (f p) else g);
          return (Inr (f p)) }
      | RPane p \<Rightarrow> return (Inr (f p))) (\<lambda>_. steps A c s0)"
  proof (cases out)
    case (RFlag p b)
    show ?thesis
    proof (cases b)
      case True
      have "valid (steps A (add_mset (p_Generation (f p)) c) s0) (notifyReconciledPaneClosed be (f p)) (\<lambda>_. steps A c s0)"
        unfolding notifyReconciledPaneClosed_def
        by (rule valid_bind [OF valid_keeps [OF keeps_StopPaneGeneration [OF be]] valid_notify_closed])
      then show ?thesis using True by (simp add: RFlag op gen) (rule valid_bind [OF _ valid_return])
    next
      case False
      then show ?thesis by (simp add: RFlag op valid_keeps keep other)
    qed
  next
    case (RErr e)
    have "valid (steps A (c + mset (claim_of op out)) s0) (do { g; return (Inl e) }) (\<lambda>_. steps A c s0)"
      by (rule valid_drop) (auto intro: keep other)
    then show ?thesis by (simp add: RErr)
  next
    case (RPane p)
    have "valid (steps A (c + mset (claim_of op out)) s0) (return (Inr (f p))) (\<lambda>_. steps A c s0)"
      by (rule valid_drop) (auto intro: keep)
    then show ?thesis by (simp add: RPane)
  qed
qed

lemma keeps_reconcileRecord:
  assumes be: "backend_steps A be" and A: "allows A p"
  shows "keeps (steps A c s0) (reconcileRecord be live p)"
  unfolding reconcileRecord_def
  by (auto intro!: keep rt_keep keeps_claimAndReport be allowsD [OF A] simp: exitedUnlessTerminal_def)

lemma keeps_Reconcile:
  assumes be: "backend_steps A be" and A: "\<And>op. A op"
  shows "keeps (steps A c s0) (Reconcile be)"
  unfolding Reconcile_def collectLive_def reconcileOne_def
  by (auto intro!: keep rt_keep keeps_metadata keeps_reconcileRecord be A allows_all)
lemma keeps_ApplyExecutionPlan:
  assumes be: "backend_steps A be" and A: "\<And>op. A op"
  shows "keeps (steps A c s0) (ApplyExecutionPlan be schedule req)"
proof -
  have roll: "keeps (steps A c s0) (rollbackExecutionPlan be created)" for created
  proof -
    have "keeps (steps A c s0) (rollbackPanes be created errs)" for errs
      by (induction created arbitrary: errs) (auto intro!: keep keeps_cleanupCreatedPane be allows_all A)
    then show ?thesis unfolding rollbackExecutionPlan_def by (intro keep)
  qed
  have "keeps (steps A c s0) (createScheduled be mk specs is)" for mk specs "is"
    by (induction "is") (auto intro!: keep keeps_CreatePane be A)
  then have "keeps (steps A c s0) (createRemainingExecutionPlanTabPanes be schedule x y z t specs)" for x y z t specs
    unfolding createRemainingExecutionPlanTabPanes_def by (intro keep)
  then have "keeps (steps A c s0) (applyTab be schedule req t acc)" for t acc
    unfolding applyTab_def by (intro keep keeps_CreatePane be A roll)
  then show ?thesis unfolding ApplyExecutionPlan_def by (intro keep)
qed

section \<open>Any number of requests\<close>

text \<open>
  What a goroutine of the daemon may run: a request, the worker of a subscription, or the end of
  the observations.
\<close>

datatype 'w rt_op =
    RCreate CreatePaneRequest | RClaim ClaimPaneRequest | RSend "'w SendInputRequest"
  | RMessage PaneID PaneID string string | RSnapshot PaneID bool bool | RWait PaneID string bool "wake list"
  | RClose PaneID | RCleanup CleanupRequest | RReconcile | RFocusPane PaneID string ZellijPaneID
  | RFocusSession string string ZellijPaneID | RWorker "frame list" "rt_error option" PaneRecord nat | RStop
  | RPlan "nat \<Rightarrow> nat list" ApplyExecutionPlanRequest

fun rt_exec :: "'w Backend \<Rightarrow> 'w rt_op \<Rightarrow> ('w, unit) rt" where
  "rt_exec be (RCreate req) = do { CreatePane be req; return () }"
| "rt_exec be (RClaim req) = do { ClaimPane be req; return () }"
| "rt_exec be (RSend req) = do { SendInput be req; return () }"
| "rt_exec be (RMessage src dst ty body) = do { SendMessage be src dst ty body; return () }"
| "rt_exec be (RSnapshot i full ansi) = do { SnapshotOutput be i full ansi; return () }"
| "rt_exec be (RWait i marker pre wakes) = do { WaitForOutputMarker be i marker pre wakes; return () }"
| "rt_exec be (RClose i) = do { ClosePane be i; return () }"
| "rt_exec be (RCleanup req) = do { Cleanup be req; return () }"
| "rt_exec be RReconcile = do { Reconcile be; return () }"
| "rt_exec be (RFocusPane i x y) = do { FocusPane be i x y; return () }"
| "rt_exec be (RFocusSession i x y) = do { FocusSession be i x y; return () }"
| "rt_exec be (RWorker frames readErr record n) = run_worker be frames readErr record n"
| "rt_exec be RStop = StopObservations be"
| "rt_exec be (RPlan schedule req) = do { ApplyExecutionPlan be schedule req; return () }"

text \<open>The callback of an input request keeps the contract too.\<close>

fun guard_ok :: "'w rt_op \<Rightarrow> bool" where
  "guard_ok (RSend req) = (case si_BeforeSend req of None \<Rightarrow> True | Some g \<Rightarrow> stays (\<lambda>_. True) g)"
| "guard_ok _ = True"

lemma keeps_rt_exec:
  assumes be: "backend_steps (\<lambda>_. True) be" and g: "guard_ok op"
  shows "keeps (steps (\<lambda>_. True) c s0) (rt_exec be op)"
  using g
  by (cases op) (auto intro!: keep keeps_CreatePane keeps_ClaimPane keeps_SendInput keeps_SendMessage keeps_inspect
      keeps_WaitForOutputMarker keeps_ClosePane keeps_Cleanup keeps_Reconcile keeps_focus keeps_run_worker
      keeps_CloseSubscriptions keeps_ApplyExecutionPlan be simp: StopObservations_def allows_def)

lemma run_steps:
  assumes "backend_steps (\<lambda>_. True) be" "list_all guard_ok ops"
  shows "steps (\<lambda>_. True) {#} s (snd (run_state (forEach ops (rt_exec be)) s))"
  by (rule keepsD [OF keeps_forEach [OF keeps_rt_exec [OF assms(1)]] steps_refl])
    (use assms(2) in \<open>simp add: list_all_iff\<close>)

lemma distinct_submset:
  assumes "mset xs \<subseteq># mset ys" "distinct ys"
  shows "distinct xs"
proof -
  have "count (mset xs) a = (if a \<in> set xs then 1 else 0)" for a
  proof (cases "a \<in> set xs")
    case True
    have "count (mset xs) a \<le> count (mset ys) a" by (rule mset_subset_eq_count [OF assms(1)])
    also have "\<dots> \<le> 1" using assms(2) by (simp add: distinct_count_atmost_1)
    finally show ?thesis using True by (simp add: le_Suc_eq count_mset_0_iff)
  qed (simp add: count_mset_0_iff)
  then show ?thesis by (simp add: distinct_count_atmost_1)
qed

lemma steps_effects:
  assumes st: "steps A {#} s s'" and ok: "registry_ok (sv_reg s)"
    and room: "room (length (sv_trace s') - length (sv_trace s)) (r_nextGeneration (sv_reg s))"
    and fresh: "closed_gens (sv_obs s) = []" and subs: "\<And>m. sv_subs s = Some m \<Longrightarrow> sub_inv m"
  shows "distinct (closed_gens (sv_obs s'))" "registry_ok (sv_reg s')" "\<And>m. sv_subs s' = Some m \<Longrightarrow> sub_inv m"
proof -
  obtain ops news sops where o: "sv_trace s' = sv_trace s @ ops"
    "sv_reg s' = fst (run_ops reg_step ops (sv_reg s))"
    "closed_gens (sv_obs s') = closed_gens (sv_obs s) @ news"
    "mset news \<subseteq># mset (claims ops (snd (run_ops reg_step ops (sv_reg s))))"
    "sv_subs s' = map_option (fold sub_step sops) (sv_subs s)"
    using st by (auto simp: steps_def)
  have r: "room (length ops) (r_nextGeneration (sv_reg s))" using room o(1) by simp
  have "distinct (claims ops (snd (run_ops reg_step ops (sv_reg s))))"
    using ok r reg.claims_distinct [of "sv_reg s" ops] by (simp add: registry_ok_def)
  then show "distinct (closed_gens (sv_obs s'))" using o(3,4) fresh distinct_submset by simp
  show "registry_ok (sv_reg s')" using registry_ok_run [OF ok r] o(2) by simp
  show "\<And>m. sv_subs s' = Some m \<Longrightarrow> sub_inv m" using o(5) subs sub_inv_fold by (cases "sv_subs s") auto
qed

text \<open>A backend with one terminal pane, alone with the daemon.\<close>

definition demo_zpane :: ZPane where
  "demo_zpane = \<lparr>z_ID = ''terminal_1'', z_IsPlugin = False, z_IsFocused = True, z_IsFloating = False, z_Title = ''t'',
     z_TitleAvailable = True, z_Command = [], z_CWD = ''/w'', z_Exited = False, z_TabID = 3, z_TabName = ''tab''\<rparr>"

definition demo_backend :: "nat Backend" where
  "demo_backend =
     \<lparr>be_now = (\<lambda>s. 1), be_other = return (), be_rounds = (\<lambda>_. 3), be_ctxErr = return None,
      be_ListPanes = (\<lambda>_. return (Inr [demo_zpane])), be_ClosePane = (\<lambda>_ _. return None), be_CloseTab = (\<lambda>_ _. return None),
      be_CreateTab = (\<lambda>_. return (Inr 3)), be_CreatePane = (\<lambda>_. return (Inr ''terminal_1'')),
      be_SendInput = (\<lambda>_ _ _. do { modify (\<lambda>s. s\<lparr>sv_world := Suc (sv_world s)\<rparr>); return None }),
      be_DumpScreen = (\<lambda>_ _ _ _. return (Inr ''screen'')),
      be_ActiveSessions = Some (return (Inr [''s''])), be_EnsureSession = None, be_SwitchSession = None,
      be_newPaneID = return ''pane-1'', be_newOwnershipToken = return (Inr ''tok''),
      be_EvalSymlinks = (\<lambda>x. return (Inr x)), be_startProcess = (\<lambda>_. return None), be_waitProcess = (\<lambda>_. return None),
      be_Strip = id, be_Quote = id\<rparr>"

definition demo_service :: "nat Service" where
  "demo_service = \<lparr>sv_reg = NewRegistry, sv_subs = Some NewSubscriptionManager, sv_observer = True, sv_metadata = True,
     sv_creates = [], sv_calls = [], sv_trace = [], sv_obs = [], sv_published = [], sv_world = 0\<rparr>"

definition demo_claim :: ClaimPaneRequest where
  "demo_claim = \<lparr>cl_ID = ''a'', cl_TaskID = [], cl_AgentID = [], cl_Role = [], cl_ZellijSession = ''s'',
     cl_ZellijPaneID = ''terminal_1'', cl_Command = [], cl_CWD = []\<rparr>"

lemma demo_backend_steps: "backend_steps A demo_backend"
  by (auto simp: backend_steps_def demo_backend_def stays_def intro: steps_frame)

section \<open>Clean-up and other panes\<close>

fun op_pane :: "reg_op \<Rightarrow> PaneID" where
  "op_pane (OpRegister req) = rq_ID req"
| "op_pane (OpStatus i g _ _) = i"
| "op_pane (OpActiveStatus i g _ _) = i"
| "op_pane (OpClaimClosure i g _ _) = i"
| "op_pane (OpInstruction i g _) = i"
| "op_pane (OpOutput i g _) = i"
| "op_pane (OpActiveOutput i g _) = i"
| "op_pane (OpRemove i g) = i"
| "op_pane (OpRemoveClaiming i g) = i"

text \<open>A call on one pane leaves the others alone.\<close>

lemma sp_at_other:
  assumes "ids_ok a" "j \<noteq> i" "\<And>p. p_ID p = j \<Longrightarrow> sp_panes (fst (f p)) i = sp_panes a i"
  shows "sp_panes (fst (sp_at j fresh f a)) i = sp_panes a i"
  using assms by (auto simp: sp_at_def ids_ok_def split: option.split)

lemma sp_put_other [simp]: "p_ID q \<noteq> i \<Longrightarrow> sp_panes (sp_put q a) i = sp_panes a i"
  by (simp add: sp_put_def)

lemma sp_del_other [simp]: "p_ID q \<noteq> i \<Longrightarrow> sp_panes (sp_del q a) i = sp_panes a i"
  by (simp add: sp_del_def)

lemma p_ID_set [simp]: "p_ID (setStatus t st m p) = p_ID p" "p_ID (setOutput t x p) = p_ID p"
  by (simp_all add: setStatus_def setOutput_def)

lemma sp_step_other:
  assumes "ids_ok a" "op_pane op \<noteq> i"
  shows "sp_panes (fst (sp_step t op a)) i = sp_panes a i"
proof (cases op)
  case (OpRegister req)
  have "rq_ID (applyRegisterPaneDefaults req) = rq_ID req"
    by (simp add: applyRegisterPaneDefaults_def Let_def split: option.splits)
  then show ?thesis using OpRegister assms(2)
    by (simp add: sp_register_def newPaneRecord_def Let_def split: option.splits)
qed (use assms in \<open>simp add: sp_at_other Let_def\<close>)+

lemma lookup_id: "registry_inv r \<Longrightarrow> lookupPane r i = Some p \<Longrightarrow> p_ID p = i"
  by (cases rule: resolvePanePath_cases [of r i]) (auto dest: path_ids)

lemma inv_ids: "registry_inv r \<Longrightarrow> ids_ok (reg_abs r)"
  by (simp add: ids_ok_def reg_abs_def lookup_id)

lemma reg_step_other:
  assumes "registry_inv r" "op_pane op \<noteq> i"
  shows "lookupPane (fst (reg_step t op r)) i = lookupPane r i"
proof -
  have "reg_abs (fst (reg_step t op r)) = fst (sp_step t op (reg_abs r))"
    using reg.view_step [OF assms(1), of t op] by (metis fst_conv)
  then have "sp_panes (reg_abs (fst (reg_step t op r))) i = sp_panes (reg_abs r) i"
    using sp_step_other [OF inv_ids [OF assms(1)] assms(2)] by simp
  then show ?thesis by (simp add: reg_abs_def)
qed

lemma run_ops_other:
  "registry_inv r \<Longrightarrow> list_all ((\<lambda>op. op_pane op \<noteq> i) \<circ> snd) ops \<Longrightarrow>
    registry_inv (fst (run_ops reg_step ops r)) \<and> lookupPane (fst (run_ops reg_step ops r)) i = lookupPane r i"
proof (induction ops arbitrary: r)
  case (Cons x ops)
  obtain t op where x: "x = (t, op)" by (cases x)
  have "op_pane op \<noteq> i" using Cons.prems x by simp
  from Cons.IH [OF reg.ok_step [OF Cons.prems(1), of t op]] reg_step_other [OF Cons.prems(1) this, of t] Cons.prems(2)
  show ?case by (simp add: x del: run_ops.simps)
qed simp

lemma steps_other:
  assumes "steps (\<lambda>op. op_pane op \<noteq> i) c s s'" "registry_inv (sv_reg s)"
  shows "registry_inv (sv_reg s')" "lookupPane (sv_reg s') i = lookupPane (sv_reg s) i"
  using assms run_ops_other [of "sv_reg s" i] by (auto simp: steps_def)

lemma listPanes_lookup:
  assumes "registry_inv r" "p \<in> set (ListPanes r)"
  shows "lookupPane r (p_ID p) = Some p"
proof -
  obtain j where "lookupPane r j = Some p"
    using assms set_all_panes [OF assms(1)] by (auto simp: ListPanes_def ran_def)
  then show ?thesis using lookup_id [OF assms(1)] by metis
qed


section \<open>Where input goes\<close>

text \<open>The registry of the state holds the requested pane, with the token and running if one is given.\<close>

definition legal_input :: "'w SendInputRequest \<Rightarrow> string \<Rightarrow> ZellijPaneID \<Rightarrow> string \<Rightarrow> 'w Service \<Rightarrow> bool" where
  "legal_input req session z txt s \<longleftrightarrow> txt = si_Text req \<and>
     (\<exists>p. GetPane (si_PaneID req) (sv_reg s) = Inr p \<and> p_SessionID p = session \<and> p_ZellijPaneID p = z \<and> z \<noteq> [] \<and>
        (si_OwnershipToken req \<noteq> [] \<longrightarrow> p_OwnershipToken p = si_OwnershipToken req \<and> p_Status p = PaneStatusRunning))"

lemma inputTarget_found:
  assumes "be_other be = return ()" "run_state (inputTarget be req) s = (Inr p, s')"
  shows "s' = s" "legal_input req (p_SessionID p) (p_ZellijPaneID p) (si_Text req) s"
  using assms
  by (auto simp: inputTarget_def svcLookupPane_def getPane_def legal_input_def split: if_splits sum.splits)

lemma guardedTarget_found:
  assumes "be_other be = return ()" "run_state (inputTarget be req) s = (Inr p, s1)"
    "run_state (guardedTarget be req p) s1 = (Inr q, s2)"
  shows "legal_input req (p_SessionID q) (p_ZellijPaneID q) (si_Text req) s2"
proof (cases "si_BeforeSend req")
  case None
  then show ?thesis using assms(3) inputTarget_found [OF assms(1,2)] by (simp add: guardedTarget_def)
next
  case (Some g)
  obtain e s3 where g: "run_state g s1 = (e, s3)" by (cases "run_state g s1")
  then have "run_state (inputTarget be req) s3 = (Inr q, s2)"
    using assms(3) Some by (auto simp: guardedTarget_def split: option.splits)
  from inputTarget_found [OF assms(1) this] show ?thesis by simp
qed

lemma inputTarget_SendInput [simp]:
  "inputTarget (be\<lparr>be_SendInput := f\<rparr>) = inputTarget be" "reg_call (be\<lparr>be_SendInput := f\<rparr>) = reg_call be"
  by (simp_all add: fun_eq_iff inputTarget_def svcLookupPane_def getPane_def reg_call_def timeNow_def)

lemma guardedTarget_SendInput [simp]: "guardedTarget (be\<lparr>be_SendInput := f\<rparr>) = guardedTarget be"
  unfolding fun_eq_iff guardedTarget_def inputTarget_SendInput by blast



section \<open>Recovery only looks\<close>

text \<open>A backend that differs in what changes Zellij: creating, closing and input.\<close>

definition same_eyes :: "'w Backend \<Rightarrow> 'w Backend \<Rightarrow> bool" where
  "same_eyes be be' \<longleftrightarrow> be_now be' = be_now be \<and> be_other be' = be_other be \<and> be_rounds be' = be_rounds be \<and>
     be_ListPanes be' = be_ListPanes be \<and> be_ActiveSessions be' = be_ActiveSessions be \<and> be_Quote be' = be_Quote be"

lemma same_eyes_fields:
  assumes "same_eyes be be'"
  shows "be_now be' = be_now be" "be_other be' = be_other be" "be_rounds be' = be_rounds be"
    "be_ListPanes be' = be_ListPanes be" "be_ActiveSessions be' = be_ActiveSessions be" "be_Quote be' = be_Quote be"
  using assms by (simp_all add: same_eyes_def)

lemma same_eyes_calls:
  assumes "same_eyes be be'"
  shows "reg_call be' = reg_call be" "getPane be' = getPane be" "listPanes be' = listPanes be" "subs_do be' = subs_do be"
    "timeNow be' = timeNow be"
  unfolding reg_call_def [abs_def] getPane_def [abs_def] listPanes_def subs_do_def [abs_def] timeNow_def same_eyes_fields [OF assms]
  by (rule refl)+

lemma same_eyes_reconcile:
  assumes e: "same_eyes be be'"
  shows "reconcileRecord be' = reconcileRecord be" "startSubscription be' = startSubscription be"
    "notifyReconciledPaneClosed be' = notifyReconciledPaneClosed be" "notifyPaneMetadata be' = notifyPaneMetadata be"
proof -
  note c = same_eyes_calls [OF e] same_eyes_fields [OF e]
  have stop: "StopPaneGeneration be' = StopPaneGeneration be" unfolding StopPaneGeneration_def [abs_def] c by (rule refl)
  have cur: "currentPaneGeneration be' = currentPaneGeneration be"
    unfolding currentPaneGeneration_def [abs_def] c by (rule refl)
  show n: "notifyReconciledPaneClosed be' = notifyReconciledPaneClosed be"
    unfolding notifyReconciledPaneClosed_def [abs_def] stop by (rule refl)
  have claim: "claimAndReport be' = claimAndReport be" unfolding claimAndReport_def [abs_def] c n by (rule refl)
  show "reconcileRecord be' = reconcileRecord be"
    unfolding reconcileRecord_def [abs_def] claim stop cur c by (rule refl)
  show "notifyPaneMetadata be' = notifyPaneMetadata be" unfolding notifyPaneMetadata_def [abs_def] cur by (rule refl)
  have start: "startRecord be' = startRecord be" unfolding startRecord_def [abs_def] c by (rule refl)
  have "StartPane k be' i = StartPane k be i" for k i
  proof (induction k)
    case (Suc k)
    then show ?case unfolding StartPane.simps c start by (rule arg_cong)
  qed simp
  then show "startSubscription be' = startSubscription be" unfolding startSubscription_def [abs_def] c by simp
qed

text \<open>
  C31. Recovery and reconciliation only look at Zellij: they do the same whatever the backend
  would do when asked to create a pane or tab, to close one, or to send input. So no pane is
  created, closed or typed into by them.
\<close>

theorem recovery_only_looks:
  "let be' = be\<lparr>be_CreatePane := a, be_CreateTab := b, be_ClosePane := c, be_CloseTab := d, be_SendInput := e\<rparr>
   in Recover be' = Recover be \<and> Reconcile be' = Reconcile be"
proof -
  let ?be = "be\<lparr>be_CreatePane := a, be_CreateTab := b, be_ClosePane := c, be_CloseTab := d, be_SendInput := e\<rparr>"
  have s: "same_eyes be ?be" by (simp add: same_eyes_def)
  note c = same_eyes_calls [OF s] same_eyes_fields [OF s] and r = same_eyes_reconcile [OF s]
  have "recoverRecord ?be = recoverRecord be" unfolding recoverRecord_def [abs_def] c r by (rule refl)
  moreover have "recoverLive ?be = recoverLive be" unfolding recoverLive_def [abs_def] c by (rule refl)
  ultimately have "Recover ?be = Recover be" unfolding Recover_def c by (simp only:)
  moreover have "reconcileOne ?be = reconcileOne be" unfolding reconcileOne_def [abs_def] r by (rule refl)
  moreover have "collectLive ?be = collectLive be" unfolding collectLive_def [abs_def] r c by (rule refl)
  ultimately show ?thesis unfolding Reconcile_def c Let_def by (simp only:)
qed
section \<open>Rollback\<close>

lemma sp_remove_le: "sp_panes (fst (sp_step t (OpRemove i g) a)) \<subseteq>\<^sub>m sp_panes a"
  by (auto simp: sp_at_def sp_del_def map_le_def split: option.splits)

text \<open>The pane generation is not registered.\<close>

definition released :: "Registry \<Rightarrow> PaneRecord \<Rightarrow> bool" where
  "released r p \<longleftrightarrow> (\<forall>q. lookupPane r (p_ID p) = Some q \<longrightarrow> p_Generation q \<noteq> p_Generation p)"

lemma remove_releases:
  assumes inv: "registry_inv r"
  shows "released (fst (reg_step t (OpRemove (p_ID p) (p_Generation p)) r)) p"
    "released r q \<Longrightarrow> released (fst (reg_step t (OpRemove (p_ID p) (p_Generation p)) r)) q"
proof -
  let ?op = "OpRemove (p_ID p) (p_Generation p)"
  have view: "reg_abs (fst (reg_step t ?op r)) = fst (sp_step t ?op (reg_abs r))"
    using reg.view_step [OF inv, of t ?op] by (metis fst_conv)
  then have look: "lookupPane (fst (reg_step t ?op r)) = sp_panes (fst (sp_step t ?op (reg_abs r)))"
    by (metis reg_abs_def pane_spec.select_convs(1))
  show "released (fst (reg_step t ?op r)) p" unfolding released_def look
    using inv_ids [OF inv]
    by (auto simp: sp_at_def sp_del_def gen_ok_def ids_ok_def reg_abs_def split: option.splits if_splits)
  show "released (fst (reg_step t ?op r)) q" if "released r q"
    using that sp_remove_le [of t "p_ID p" "p_Generation p" "reg_abs r"]
    unfolding released_def look by (auto simp: map_le_def dom_def reg_abs_def)
qed

definition quiet :: "'w Backend \<Rightarrow> bool" where
  "quiet be \<longleftrightarrow> be_other be = return () \<and> (\<forall>x y. be_ClosePane be x y = return None)"

lemma run_cleanupCreatedPane:
  assumes q: "quiet be" and inv: "registry_inv (sv_reg s)"
  obtains t where "sv_reg (snd (run_state (cleanupCreatedPane be p) s)) =
      fst (reg_step t (OpRemove (p_ID p) (p_Generation p)) (sv_reg s))"
    "fst (run_state (cleanupCreatedPane be p) s) = None"
proof -
  let ?op = "OpRemove (p_ID p) (p_Generation p)"
  have "\<exists>r. snd (reg_step t ?op (sv_reg s)) = RPane r \<or> snd (reg_step t ?op (sv_reg s)) = RErr ErrNotFound \<or>
      snd (reg_step t ?op (sv_reg s)) = RErr ErrStaleRecord" for t
    using reg.view_step [OF inv, of t ?op] by (auto simp: sp_at_def split: option.splits if_splits)
  note out = this
  define s1 where "s1 = s\<lparr>sv_subs := map_option (stopPaneGeneration (p_ID p) (p_Generation p)) (sv_subs s)\<rparr>"
  define t where "t = be_now be s1"
  have run: "run_state (cleanupCreatedPane be p) s =
      (case snd (reg_step t ?op (sv_reg s)) of RErr e \<Rightarrow> if gone_error e then None else Some [ErrRegistry e] | _ \<Rightarrow> None,
       s1\<lparr>sv_reg := fst (reg_step t ?op (sv_reg s)), sv_trace := sv_trace s1 @ [(t, ?op)]\<rparr>)"
    using q unfolding quiet_def cleanupCreatedPane_def StopPaneGeneration_def subs_do_def reg_call_def timeNow_def
    by (simp add: s1_def [symmetric] t_def [symmetric]) (simp add: s1_def)
  show ?thesis using that [of t] out [of t] run by (auto simp del: reg_step.simps)
qed

lemma rollbackPanes_releases:
  assumes q: "quiet be"
  shows "registry_inv (sv_reg s) \<Longrightarrow>
    fst (run_state (rollbackPanes be created errs) s) = errs \<and>
    registry_inv (sv_reg (snd (run_state (rollbackPanes be created errs) s))) \<and>
    (\<forall>p. p \<in> set created \<or> released (sv_reg s) p \<longrightarrow> released (sv_reg (snd (run_state (rollbackPanes be created errs) s))) p)"
proof (induction created arbitrary: s)
  case (Cons r created)
  obtain t where t: "sv_reg (snd (run_state (cleanupCreatedPane be r) s)) = fst (reg_step t (OpRemove (p_ID r) (p_Generation r)) (sv_reg s))"
    "fst (run_state (cleanupCreatedPane be r) s) = None"
    using run_cleanupCreatedPane [OF q Cons.prems] by blast
  obtain s1 where s1: "run_state (cleanupCreatedPane be r) s = (None, s1)" using t(2) by (metis prod.collapse)
  have reg: "sv_reg s1 = fst (reg_step t (OpRemove (p_ID r) (p_Generation r)) (sv_reg s))" using t(1) s1 by simp
  have inv: "registry_inv (sv_reg s1)" unfolding reg by (rule reg.ok_step [OF Cons.prems])
  show ?case using Cons.IH [OF inv] remove_releases [OF Cons.prems, where t = t and p = r] by (auto simp: s1 reg)
qed simp

text \<open>
  Rolling back a failed plan releases every pane it created: when the backend closes panes
  and nothing runs in between, no created pane generation is registered afterwards, and the
  rollback reports no error.
\<close>

theorem rollback_releases_created:
  assumes "be_other be = return ()" "\<And>x y. be_ClosePane be x y = return None" "registry_inv (sv_reg s)" "p \<in> set created"
  shows "released (sv_reg (snd (run_state (rollbackExecutionPlan be created) s))) p \<and>
    fst (run_state (rollbackExecutionPlan be created) s) = []"
  using rollbackPanes_releases [of be s created "[]"] assms
  by (auto simp: quiet_def rollbackExecutionPlan_def split: prod.splits)

theorem rollback_releases_created_witness:
  "let s = snd (run_state (ClaimPane demo_backend demo_claim) demo_service)
   in \<exists>p. lookupPane (sv_reg s) ''a'' = Some p \<and>
        released (sv_reg (snd (run_state (rollbackExecutionPlan demo_backend [p]) s))) p"
proof -
  let ?s = "snd (run_state (ClaimPane demo_backend demo_claim) demo_service)"
  have st: "steps (\<lambda>_. True) {#} demo_service ?s"
    by (rule keepsD [OF keeps_ClaimPane [OF demo_backend_steps] steps_refl]) simp
  have inv: "registry_inv (sv_reg ?s)"
    using reg.run_view registry_inv_New st by (fastforce simp: steps_def demo_service_def)
  have "map_option p_OwnershipToken (lookupPane (sv_reg ?s) ''a'') = Some ''tok''" by code_simp
  then obtain p where p: "lookupPane (sv_reg ?s) ''a'' = Some p" by auto
  from rollback_releases_created [of demo_backend ?s p "[p]", OF _ _ inv] p show ?thesis
    by (auto simp: Let_def demo_backend_def)
qed

end
