(* ===== verification/Go_Utf8.thy ===== *)
theory Go_Utf8
  imports Go_Prelude
begin

text \<open>
  What the sources use of Go's \<open>unicode/utf8\<close> and \<open>unicode\<close> packages: decoding a string rune by
  rune (a \<open>range\<close> loop over a string, \<open>[]rune(s)\<close>, \<open>utf8.DecodeRuneInString\<close>,
  \<open>utf8.ValidString\<close>), encoding runes (\<open>string(runes)\<close>), and the classes of runes they ask for.
  A rune is its code point, a \<^typ>\<open>nat\<close>; an ill-formed byte decodes to U+FFFD with width 1.

  The lemmas show that decoding always advances, and that encoding what a valid string decodes to
  gives the string back.
\<close>

type_synonym rune = nat

abbreviation byte :: "char \<Rightarrow> nat" where
  "byte \<equiv> of_char"

abbreviation RuneError :: rune where
  "RuneError \<equiv> 0xFFFD"

definition is_cont :: "nat \<Rightarrow> bool" where
  "is_cont b \<longleftrightarrow> 0x80 \<le> b \<and> b \<le> 0xBF"

text \<open>The second byte a three- or four-byte encoding may have after its first.\<close>

definition second_ok :: "nat \<Rightarrow> nat \<Rightarrow> bool" where
  "second_ok a b \<longleftrightarrow>
     (if a = 0xE0 then 0xA0 else if a = 0xF0 then 0x90 else 0x80) \<le> b \<and>
     b \<le> (if a = 0xED then 0x9F else if a = 0xF4 then 0x8F else 0xBF)"

definition DecodeRuneInString :: "string \<Rightarrow> rune \<times> nat" where
  "DecodeRuneInString s =
     (case map byte (take 4 s) of
        [] \<Rightarrow> (RuneError, 0)
      | a # rest \<Rightarrow>
          if a < 0x80 then (a, 1)
          else (case rest of
              [] \<Rightarrow> (RuneError, 1)
            | b # rest2 \<Rightarrow>
                if 0xC2 \<le> a \<and> a \<le> 0xDF \<and> is_cont b then (64 * (a - 0xC0) + (b - 0x80), 2)
                else (case rest2 of
                    [] \<Rightarrow> (RuneError, 1)
                  | c # rest3 \<Rightarrow>
                      if 0xE0 \<le> a \<and> a \<le> 0xEF \<and> second_ok a b \<and> is_cont c
                      then (4096 * (a - 0xE0) + 64 * (b - 0x80) + (c - 0x80), 3)
                      else (case rest3 of
                          [] \<Rightarrow> (RuneError, 1)
                        | d # _ \<Rightarrow>
                            if 0xF0 \<le> a \<and> a \<le> 0xF4 \<and> second_ok a b \<and> is_cont c \<and> is_cont d
                            then (262144 * (a - 0xF0) + 4096 * (b - 0x80) + 64 * (c - 0x80) + (d - 0x80), 4)
                            else (RuneError, 1)))))"

lemma DecodeRune_width: "s \<noteq> [] \<Longrightarrow> 0 < snd (DecodeRuneInString s)"
  by (cases s) (auto simp: DecodeRuneInString_def split: list.split)

text \<open>The runes a \<open>range\<close> loop visits, each with its width.\<close>

function rune_widths :: "string \<Rightarrow> (rune \<times> nat) list" where
  "rune_widths s =
     (if s = [] then [] else DecodeRuneInString s # rune_widths (drop (snd (DecodeRuneInString s)) s))"
  by pat_completeness auto
termination
  by (relation "measure length") (auto simp: DecodeRune_width)

declare rune_widths.simps [simp del]

definition runes :: "string \<Rightarrow> rune list" where
  "runes s = map fst (rune_widths s)"

definition ValidString :: "string \<Rightarrow> bool" where
  "ValidString s \<longleftrightarrow> list_all (\<lambda>(r, n). \<not> (r = RuneError \<and> n = 1)) (rune_widths s)"

definition EncodeRune :: "rune \<Rightarrow> string" where
  "EncodeRune r0 =
     (let r = (if 0x10FFFF < r0 \<or> (0xD800 \<le> r0 \<and> r0 \<le> 0xDFFF) then RuneError else r0) in
      map char_of
        (if r < 0x80 then [r]
         else if r < 0x800 then [0xC0 + r div 64, 0x80 + r mod 64]
         else if r < 0x10000 then [0xE0 + r div 4096, 0x80 + r div 64 mod 64, 0x80 + r mod 64]
         else [0xF0 + r div 262144, 0x80 + r div 4096 mod 64, 0x80 + r div 64 mod 64, 0x80 + r mod 64]))"

definition string_of_runes :: "rune list \<Rightarrow> string" where
  "string_of_runes rs = concat (map EncodeRune rs)"

section \<open>Classes of runes\<close>

definition IsSpace :: "rune \<Rightarrow> bool" where
  "IsSpace r \<longleftrightarrow> (0x09 \<le> r \<and> r \<le> 0x0D) \<or> r \<in> {0x20, 0x85, 0xA0, 0x1680, 0x2028, 0x2029, 0x202F, 0x205F, 0x3000}
     \<or> (0x2000 \<le> r \<and> r \<le> 0x200A)"

definition IsControl :: "rune \<Rightarrow> bool" where
  "IsControl r \<longleftrightarrow> r \<le> 0x1F \<or> (0x7F \<le> r \<and> r \<le> 0x9F)"

section \<open>Lemmas\<close>

lemma rune_widths_Nil [simp, go_simps]: "rune_widths [] = []"
  by (simp add: rune_widths.simps)

lemma rune_widths_not_Nil:
  "s \<noteq> [] \<Longrightarrow> rune_widths s = DecodeRuneInString s # rune_widths (drop (snd (DecodeRuneInString s)) s)"
  by (subst rune_widths.simps) simp

lemma runes_Nil [simp, go_simps]: "runes [] = []"
  by (simp add: runes_def)

lemma EncodeRune_1: "r < 0x80 \<Longrightarrow> EncodeRune r = [char_of r]"
  by (simp add: EncodeRune_def)

lemma EncodeRune_2: "0x80 \<le> r \<Longrightarrow> r < 0x800 \<Longrightarrow> EncodeRune r = map char_of [0xC0 + r div 64, 0x80 + r mod 64]"
  by (simp add: EncodeRune_def)

lemma EncodeRune_3: "0x800 \<le> r \<Longrightarrow> r < 0x10000 \<Longrightarrow> \<not> (0xD800 \<le> r \<and> r \<le> 0xDFFF) \<Longrightarrow>
    EncodeRune r = map char_of [0xE0 + r div 4096, 0x80 + r div 64 mod 64, 0x80 + r mod 64]"
  unfolding EncodeRune_def Let_def by (simp, blast)

lemma EncodeRune_4: "0x10000 \<le> r \<Longrightarrow> r \<le> 0x10FFFF \<Longrightarrow> EncodeRune r =
    map char_of [0xF0 + r div 262144, 0x80 + r div 4096 mod 64, 0x80 + r div 64 mod 64, 0x80 + r mod 64]"
  unfolding EncodeRune_def Let_def by simp

lemma digits64:
  fixes y z :: nat
  assumes "z < 64"
  shows "(64 * y + z) div 64 = y" "(64 * y + z) mod 64 = z"
  using assms by simp_all

lemma encode2:
  fixes a b :: nat
  assumes "0xC2 \<le> a" "a \<le> 0xDF" "is_cont b"
  shows "EncodeRune (64 * (a - 0xC0) + (b - 0x80)) = [char_of a, char_of b]"
proof -
  obtain x y where e: "a = 0xC0 + x" "b = 0x80 + y" and r: "2 \<le> x" "x < 32" "y < 64"
    using assms by (auto simp: is_cont_def le_iff_add)
  have "0x80 \<le> 64 * x + y" "64 * x + y < 0x800" using r by linarith+
  then have "EncodeRune (64 * x + y) = map char_of [0xC0 + x, 0x80 + y]"
    using r by (simp only: EncodeRune_2 digits64)
  then show ?thesis by (simp add: e)
qed

lemma encode3:
  fixes a b c :: nat
  assumes "0xE0 \<le> a" "a \<le> 0xEF" "second_ok a b" "is_cont c"
  shows "EncodeRune (4096 * (a - 0xE0) + 64 * (b - 0x80) + (c - 0x80)) = [char_of a, char_of b, char_of c]"
proof -
  have "0x80 \<le> b" using assms(3) by (auto simp: second_ok_def split: if_splits)
  then obtain x y z where e: "a = 0xE0 + x" "b = 0x80 + y" "c = 0x80 + z"
    using assms(1,4) by (auto simp: is_cont_def le_iff_add)
  have r: "x < 16" "y < 64" "z < 64" and lo: "x = 0 \<longrightarrow> 32 \<le> y" and hi: "x = 13 \<longrightarrow> y < 32"
    using assms unfolding e by (auto simp: is_cont_def second_ok_def split: if_splits)
  define u where "u = 64 * x + y"
  have u: "u div 64 = x" "u mod 64 = y" using r(2) unfolding u_def by (rule digits64)+
  have ub: "32 \<le> u" "u < 1024" "\<not> (0x360 \<le> u \<and> u < 0x380)"
    unfolding u_def using lo hi r by presburger+
  then have "0x800 \<le> 64 * u + z" "64 * u + z < 0x10000" "\<not> (0xD800 \<le> 64 * u + z \<and> 64 * u + z \<le> 0xDFFF)"
    using r(3) by linarith+
  then have "EncodeRune (64 * u + z) = map char_of [0xE0 + x, 0x80 + y, 0x80 + z]"
    using r(3) u div_mult2_eq [of "64 * u + z" 64 64] by (simp add: EncodeRune_3 digits64)
  then show ?thesis by (simp add: e u_def algebra_simps)
qed

lemma encode4:
  fixes a b c d :: nat
  assumes "0xF0 \<le> a" "a \<le> 0xF4" "second_ok a b" "is_cont c" "is_cont d"
  shows "EncodeRune (262144 * (a - 0xF0) + 4096 * (b - 0x80) + 64 * (c - 0x80) + (d - 0x80)) =
    [char_of a, char_of b, char_of c, char_of d]"
proof -
  have "0x80 \<le> b" using assms(3) by (auto simp: second_ok_def split: if_splits)
  then obtain x y z w where e: "a = 0xF0 + x" "b = 0x80 + y" "c = 0x80 + z" "d = 0x80 + w"
    using assms(1,4,5) by (auto simp: is_cont_def le_iff_add)
  have r: "x < 5" "y < 64" "z < 64" "w < 64" and lo: "x = 0 \<longrightarrow> 16 \<le> y" and hi: "x = 4 \<longrightarrow> y < 16"
    using assms unfolding e by (auto simp: is_cont_def second_ok_def split: if_splits)
  define u v where "u = 64 * x + y" and "v = 64 * u + z"
  have u: "u div 64 = x" "u mod 64 = y" using r(2) unfolding u_def by (rule digits64)+
  have v: "v div 64 = u" "v mod 64 = z" using r(3) unfolding v_def by (rule digits64)+
  have "16 \<le> u" "u < 272" unfolding u_def using lo hi r by presburger+
  then have "1024 \<le> v" "v \<le> 17407" unfolding v_def using r(3) by linarith+
  then have "0x10000 \<le> 64 * v + w" "64 * v + w \<le> 0x10FFFF" using r(4) by linarith+
  then have "EncodeRune (64 * v + w) = map char_of [0xF0 + x, 0x80 + y, 0x80 + z, 0x80 + w]"
    using r(4) u v div_mult2_eq [of "64 * v + w" 64 64] div_mult2_eq [of "64 * v + w" 64 4096]
      div_mult2_eq [of v 64 64] by (simp add: EncodeRune_4 digits64)
  then show ?thesis by (simp add: e u_def v_def algebra_simps)
qed

text \<open>A rune that is not an error encodes to the bytes it was decoded from.\<close>

lemma encode_decode:
  assumes "s \<noteq> []" and "\<not> (fst (DecodeRuneInString s) = RuneError \<and> snd (DecodeRuneInString s) = 1)"
  shows "EncodeRune (fst (DecodeRuneInString s)) = take (snd (DecodeRuneInString s)) s"
  using assms
  by (cases s rule: list.exhaust; cases "tl s" rule: list.exhaust; cases "tl (tl s)" rule: list.exhaust;
      cases "tl (tl (tl s))" rule: list.exhaust)
    (auto simp: DecodeRuneInString_def encode2 encode3 encode4 EncodeRune_1 split: if_splits)

lemma encode_runes: "ValidString s \<Longrightarrow> string_of_runes (runes s) = s"
proof (induction s rule: rune_widths.induct)
  case (1 s)
  show ?case
  proof (cases "s = []")
    case False
    let ?n = "snd (DecodeRuneInString s)"
    have ok: "\<not> (fst (DecodeRuneInString s) = RuneError \<and> ?n = 1)" and rest: "ValidString (drop ?n s)"
      using "1.prems" False by (auto simp: ValidString_def rune_widths_not_Nil case_prod_beta)
    have "string_of_runes (runes s) = take ?n s @ string_of_runes (runes (drop ?n s))"
      using False encode_decode [OF False ok]
      by (simp add: string_of_runes_def runes_def rune_widths_not_Nil)
    then show ?thesis using "1.IH" [OF False rest] by simp
  qed (simp add: string_of_runes_def)
qed


end
