(* ===== verification/Agent_Store.thy ===== *)
theory Agent_Store
  imports Go_Utf8 Registry "HOL-Library.Product_Lexorder"
begin

text \<open>
  The records of coding agents: kinds, profiles and command lines
  (\<^verbatim>\<open>src/internal/codingagent/profile.go\<close>, \<^verbatim>\<open>access.go\<close>, \<^verbatim>\<open>task_alias.go\<close>, \<^verbatim>\<open>types.go\<close>) and the
  store that holds them (\<^verbatim>\<open>store.go\<close>). The store's lock makes each method atomic, so a method is
  a function on the store record; the clock's reading is an argument. The writer it saves through
  is its own view of the shared one: the changes of the table of agents. A stored row's JSON is
  the record it encodes.

  The lemmas show that the two indexes of the store are each other's inverse and every record is
  valid (\<open>store_ok\<close>), that every method acts on the flat table of agents as one update (an interpretation
  of the locale \<open>implementation\<close>), that a restart gives every agent back, and that the
  command line of a read-only agent carries no flag beyond those of the sandbox.
\<close>

declare map_of_eq_Some_iff [simp del] Some_eq_map_of_iff [simp del]

section \<open>Kinds and profiles\<close>

type_synonym Kind = string

definition KindCodex :: Kind where "KindCodex = ''codex''"
definition KindClaude :: Kind where "KindClaude = ''claude''"
definition KindGemini :: Kind where "KindGemini = ''gemini''"
definition KindCursor :: Kind where "KindCursor = ''cursor''"
definition KindHermes :: Kind where "KindHermes = ''hermes''"

lemmas kind_defs = KindCodex_def KindClaude_def KindGemini_def KindCursor_def KindHermes_def

record Profile =
  pr_Kind :: Kind
  pr_DisplayName :: string
  pr_Executable :: string
  pr_BypassArgs :: "string list"
  pr_Manifest :: string
  pr_TracksState :: bool

definition profiles :: "(Kind, Profile) gomap" where
  "profiles =
    [(KindCodex, \<lparr>pr_Kind = KindCodex, pr_DisplayName = ''Codex'', pr_Executable = ''codex'',
        pr_BypassArgs = [''--dangerously-bypass-approvals-and-sandbox''], pr_Manifest = ''codex.yaml'', pr_TracksState = True\<rparr>),
     (KindClaude, \<lparr>pr_Kind = KindClaude, pr_DisplayName = ''Claude'', pr_Executable = ''claude'',
        pr_BypassArgs = [''--dangerously-skip-permissions''], pr_Manifest = ''claude.yaml'', pr_TracksState = True\<rparr>),
     (KindGemini, \<lparr>pr_Kind = KindGemini, pr_DisplayName = ''Gemini'', pr_Executable = ''agy'',
        pr_BypassArgs = [''--dangerously-skip-permissions''], pr_Manifest = ''gemini.yaml'', pr_TracksState = True\<rparr>),
     (KindCursor, \<lparr>pr_Kind = KindCursor, pr_DisplayName = ''Cursor'', pr_Executable = ''agent'',
        pr_BypassArgs = [''--yolo'', ''--trust''], pr_Manifest = ''cursor.yaml'', pr_TracksState = True\<rparr>),
     (KindHermes, \<lparr>pr_Kind = KindHermes, pr_DisplayName = ''Hermes'', pr_Executable = ''hermes'',
        pr_BypassArgs = [], pr_Manifest = [], pr_TracksState = False\<rparr>)]"

definition LookupProfile :: "Kind \<Rightarrow> Profile option" where
  "LookupProfile kind = mget profiles kind"

definition ParseKind :: "string \<Rightarrow> Kind option" where
  "ParseKind value = (if mget profiles value = None then None else Some value)"

section \<open>Access modes, states and aliases\<close>

datatype agent_error =
    ErrAgentNotFound string | ErrDuplicateID string | ErrDuplicatePane string | ErrInvalidRecord string
  | ErrInvalidState string | ErrInvalidTaskAlias string | ErrInvalidAccessMode string
  | ErrAgentLoad persist_error | ErrAgentIdentity string

type_synonym AccessMode = string

definition AccessFull :: AccessMode where "AccessFull = ''full''"
definition AccessReadOnly :: AccessMode where "AccessReadOnly = ''read-only''"

definition ParseAccessMode :: "string \<Rightarrow> agent_error + AccessMode" where
  "ParseAccessMode value =
     (if value = [] \<or> value = AccessFull then Inr AccessFull
      else if value = AccessReadOnly then Inr AccessReadOnly
      else Inl (ErrInvalidAccessMode value))"

definition BuildCommand :: "Profile \<Rightarrow> bool \<Rightarrow> string list \<Rightarrow> string list" where
  "BuildCommand p bypass extra =
     [pr_Executable p] @ (if bypass then pr_BypassArgs p else []) @ extra"

definition BuildManagedCommand :: "Profile \<Rightarrow> AccessMode \<Rightarrow> string \<Rightarrow> string list \<Rightarrow> agent_error + string list" where
  "BuildManagedCommand p access0 prompt extra =
     (case ParseAccessMode access0 of
        Inl e \<Rightarrow> Inl e
      | Inr access \<Rightarrow>
          if access = AccessFull then
            (if prompt \<noteq> [] then Inl (ErrInvalidAccessMode ''full access does not accept a typed prompt'')
             else Inr (BuildCommand p True extra))
          else if access = AccessReadOnly then
            (if pr_Kind p \<noteq> KindCodex \<or> length extra \<noteq> 0 \<or> HasPrefix prompt ''-''
             then Inl (ErrInvalidAccessMode ''read-only access is supported only by Codex'')
             else let args = [pr_Executable p, ''--sandbox'', ''read-only'', ''--ask-for-approval'', ''never'']
                  in Inr (if prompt \<noteq> [] then args @ [prompt] else args))
          else Inl (ErrInvalidAccessMode access))"

type_synonym State = string

definition StateIdle :: State where "StateIdle = ''idle''"
definition StateWorking :: State where "StateWorking = ''working''"
definition StateBlocked :: State where "StateBlocked = ''blocked''"
definition StateUnknown :: State where "StateUnknown = ''unknown''"

lemmas state_defs = StateIdle_def StateWorking_def StateBlocked_def StateUnknown_def

definition validState :: "State \<Rightarrow> bool" where
  "validState state \<longleftrightarrow> state \<in> {StateIdle, StateWorking, StateBlocked, StateUnknown}"

type_synonym TaskAlias = string

definition TaskAlias_Valid :: "TaskAlias \<Rightarrow> bool" where
  "TaskAlias_Valid alias \<longleftrightarrow> ValidString alias \<and> TrimSpace alias = alias \<and>
     list_all (\<lambda>r. \<not> (IsControl r \<or> r = 0x2028 \<or> r = 0x2029)) (runes alias)"

section \<open>Records and the store\<close>

type_synonym ID = string

record Record =
  a_ID :: ID
  a_Kind :: Kind
  a_AccessMode :: AccessMode
  a_PaneID :: string
  a_CWD :: string
  a_State :: State
  a_NotifyOnIdle :: bool
  a_Pinned :: bool
  a_TaskAlias :: TaskAlias
  a_StateReason :: string
  a_MatchedRule :: string
  a_CreatedAt :: time
  a_StateChangedAt :: time

definition zeroRecord :: Record where
  "zeroRecord = \<lparr>a_ID = [], a_Kind = [], a_AccessMode = [], a_PaneID = [], a_CWD = [], a_State = [],
     a_NotifyOnIdle = False, a_Pinned = False, a_TaskAlias = [], a_StateReason = [], a_MatchedRule = [],
     a_CreatedAt = zeroTime, a_StateChangedAt = zeroTime\<rparr>"

record StateUpdate =
  su_State :: State
  su_Reason :: string
  su_MatchedRule :: string

record StateChange =
  sc_Previous :: Record
  sc_Current :: Record
  sc_Changed :: bool

record memoryStore =
  ms_persist :: "Record Writer option"
  ms_byID :: "(ID, Record) gomap"
  ms_byPane :: "(string, ID) gomap"

definition NewMemoryStore :: memoryStore where
  "NewMemoryStore = \<lparr>ms_persist = None, ms_byID = [], ms_byPane = []\<rparr>"

definition validateRecord :: "Record \<Rightarrow> agent_error option" where
  "validateRecord r =
     (if \<not> TaskAlias_Valid (a_TaskAlias r) then Some (ErrInvalidTaskAlias (a_TaskAlias r))
      else if a_ID r = [] \<or> a_Kind r = [] \<or> a_PaneID r = []
        then Some (ErrInvalidRecord ''id, kind, and pane id are required'')
      else if LookupProfile (a_Kind r) = None then Some (ErrInvalidRecord (a_Kind r))
      else (case ParseAccessMode (a_AccessMode r) of
          Inl _ \<Rightarrow> Some (ErrInvalidRecord (a_AccessMode r))
        | Inr _ \<Rightarrow> if \<not> validState (a_State r) then Some (ErrInvalidState (a_State r)) else None))"

definition agentChange :: "Record \<Rightarrow> Record Change" where
  "agentChange r = \<lparr>c_Table = Agents, c_ID = a_ID r, c_Parent = [], c_PaneID = a_PaneID r, c_Value = Some r\<rparr>"

definition agentSaveLocked :: "Record \<Rightarrow> memoryStore \<Rightarrow> memoryStore" where
  "agentSaveLocked r s = s\<lparr>ms_persist := map_option (Enqueue [agentChange r]) (ms_persist s)\<rparr>"

definition CreateAgent :: "Record \<Rightarrow> memoryStore \<Rightarrow> memoryStore \<times> (agent_error + Record)" where
  "CreateAgent r s =
     (case validateRecord r of
        Some e \<Rightarrow> (s, Inl e)
      | None \<Rightarrow>
          if mget (ms_byID s) (a_ID r) \<noteq> None then (s, Inl (ErrDuplicateID (a_ID r)))
          else if mget (ms_byPane s) (a_PaneID r) \<noteq> None then (s, Inl (ErrDuplicatePane (a_PaneID r)))
          else (agentSaveLocked r (s\<lparr>ms_byID := mput (ms_byID s) (a_ID r) r,
                  ms_byPane := mput (ms_byPane s) (a_PaneID r) (a_ID r)\<rparr>), Inr r))"

definition GetAgent :: "ID \<Rightarrow> memoryStore \<Rightarrow> agent_error + Record" where
  "GetAgent i s = (case mget (ms_byID s) i of None \<Rightarrow> Inl (ErrAgentNotFound i) | Some r \<Rightarrow> Inr r)"

text \<open>A missing record would be read as the zero record; \<open>store_ok\<close> excludes it.\<close>

definition GetByPane :: "string \<Rightarrow> memoryStore \<Rightarrow> agent_error + Record" where
  "GetByPane paneID s =
     (case mget (ms_byPane s) paneID of
        None \<Rightarrow> Inl (ErrAgentNotFound paneID)
      | Some i \<Rightarrow> Inr (case mget (ms_byID s) i of None \<Rightarrow> zeroRecord | Some r \<Rightarrow> r))"

definition ListRecords :: "memoryStore \<Rightarrow> Record list" where
  "ListRecords s = sort_key (\<lambda>r. (a_CreatedAt r, a_ID r)) (map snd (ms_byID s))"

definition UpdateState :: "time \<Rightarrow> ID \<Rightarrow> StateUpdate \<Rightarrow> memoryStore \<Rightarrow> memoryStore \<times> (agent_error + StateChange)" where
  "UpdateState now i u s =
     (if \<not> validState (su_State u) then (s, Inl (ErrInvalidState (su_State u)))
      else case mget (ms_byID s) i of
        None \<Rightarrow> (s, Inl (ErrAgentNotFound i))
      | Some previous \<Rightarrow>
          if a_State previous = su_State u \<and> a_StateReason previous = su_Reason u \<and>
             a_MatchedRule previous = su_MatchedRule u
          then (s, Inr \<lparr>sc_Previous = previous, sc_Current = previous, sc_Changed = False\<rparr>)
          else let current = previous\<lparr>a_State := su_State u, a_StateReason := su_Reason u,
                     a_MatchedRule := su_MatchedRule u, a_StateChangedAt := now\<rparr>
               in (agentSaveLocked current (s\<lparr>ms_byID := mput (ms_byID s) i current\<rparr>),
                   Inr \<lparr>sc_Previous = previous, sc_Current = current, sc_Changed = True\<rparr>))"

definition SetPinned :: "ID \<Rightarrow> bool \<Rightarrow> memoryStore \<Rightarrow> memoryStore \<times> (agent_error + Record)" where
  "SetPinned i pinned s =
     (case mget (ms_byID s) i of
        None \<Rightarrow> (s, Inl (ErrAgentNotFound i))
      | Some r0 \<Rightarrow> let r = r0\<lparr>a_Pinned := pinned\<rparr>
                    in (agentSaveLocked r (s\<lparr>ms_byID := mput (ms_byID s) i r\<rparr>), Inr r))"

definition SetTaskAlias :: "ID \<Rightarrow> TaskAlias \<Rightarrow> memoryStore \<Rightarrow> memoryStore \<times> (agent_error + Record)" where
  "SetTaskAlias i alias s =
     (if \<not> TaskAlias_Valid alias then (s, Inl (ErrInvalidTaskAlias alias))
      else case mget (ms_byID s) i of
        None \<Rightarrow> (s, Inl (ErrAgentNotFound i))
      | Some r0 \<Rightarrow> let r = r0\<lparr>a_TaskAlias := alias\<rparr>
                    in (agentSaveLocked r (s\<lparr>ms_byID := mput (ms_byID s) i r\<rparr>), Inr r))"

definition DeleteAgent :: "ID \<Rightarrow> memoryStore \<Rightarrow> memoryStore \<times> agent_error option" where
  "DeleteAgent i s =
     (case mget (ms_byID s) i of
        None \<Rightarrow> (s, Some (ErrAgentNotFound i))
      | Some r \<Rightarrow>
          (s\<lparr>ms_byID := mdel (ms_byID s) i, ms_byPane := mdel (ms_byPane s) (a_PaneID r),
             ms_persist := map_option (Enqueue [\<lparr>c_Table = Agents, c_ID = i, c_Parent = [], c_PaneID = [],
                c_Value = None\<rparr>]) (ms_persist s)\<rparr>, None))"

text \<open>Restoring: the loop over the loaded rows, then the store with its writer attached.\<close>

fun restoreAgents :: "Record Row list \<Rightarrow> memoryStore \<Rightarrow> agent_error + memoryStore" where
  "restoreAgents [] s = Inr s"
| "restoreAgents (row # rows) s =
     (let r = row_Data row in
      if a_ID r \<noteq> row_ID row \<or> a_PaneID r \<noteq> row_PaneID row then Inl (ErrAgentIdentity (row_ID row))
      else case CreateAgent r s of
        (_, Inl e) \<Rightarrow> Inl e
      | (s', Inr _) \<Rightarrow> restoreAgents rows s')"

definition NewPersistentMemoryStore :: "Record Writer \<Rightarrow> agent_error + memoryStore" where
  "NewPersistentMemoryStore w =
     (case Load (w_db w) Agents of
        Inl e \<Rightarrow> Inl (ErrAgentLoad e)
      | Inr rows \<Rightarrow>
          (case restoreAgents rows NewMemoryStore of
             Inl e \<Rightarrow> Inl e
           | Inr s \<Rightarrow> Inr (s\<lparr>ms_persist := Some w\<rparr>)))"

section \<open>Specification: a table of agents\<close>

datatype store_op =
    OpCreateAgent Record | OpGet ID | OpGetByPane string | OpList | OpUpdateState ID StateUpdate
  | OpSetPinned ID bool | OpSetTaskAlias ID TaskAlias | OpDelete ID

datatype store_out =
    OutRecord "agent_error + Record" | OutChange "agent_error + StateChange" | OutList "Record list"
  | OutError "agent_error option"

fun store_step :: "time \<Rightarrow> store_op \<Rightarrow> memoryStore \<Rightarrow> memoryStore \<times> store_out" where
  "store_step now (OpCreateAgent r) s = apsnd OutRecord (CreateAgent r s)"
| "store_step now (OpGet i) s = (s, OutRecord (GetAgent i s))"
| "store_step now (OpGetByPane p) s = (s, OutRecord (GetByPane p s))"
| "store_step now OpList s = (s, OutList (ListRecords s))"
| "store_step now (OpUpdateState i u) s = apsnd OutChange (UpdateState now i u s)"
| "store_step now (OpSetPinned i b) s = apsnd OutRecord (SetPinned i b s)"
| "store_step now (OpSetTaskAlias i a) s = apsnd OutRecord (SetTaskAlias i a s)"
| "store_step now (OpDelete i) s = apsnd OutError (DeleteAgent i s)"

type_synonym agents = "ID \<rightharpoonup> Record"

text \<open>The agent that holds a pane, and a change of one agent's record.\<close>

definition holder :: "agents \<Rightarrow> string \<Rightarrow> Record option" where
  "holder T p = (if \<exists>r \<in> ran T. a_PaneID r = p then Some (THE r. r \<in> ran T \<and> a_PaneID r = p) else None)"

definition change_agent :: "ID \<Rightarrow> (Record \<Rightarrow> Record) \<Rightarrow> agents \<Rightarrow> agents \<times> (agent_error + Record)" where
  "change_agent i f T =
     (case T i of None \<Rightarrow> (T, Inl (ErrAgentNotFound i)) | Some r \<Rightarrow> (T(i \<mapsto> f r), Inr (f r)))"

definition with_state :: "time \<Rightarrow> StateUpdate \<Rightarrow> Record \<Rightarrow> Record" where
  "with_state now u r =
     (if (a_State r, a_StateReason r, a_MatchedRule r) = (su_State u, su_Reason u, su_MatchedRule u) then r
      else r\<lparr>a_State := su_State u, a_StateReason := su_Reason u, a_MatchedRule := su_MatchedRule u,
             a_StateChangedAt := now\<rparr>)"

definition by_age :: "agents \<Rightarrow> Record list \<Rightarrow> bool" where
  "by_age T rs \<longleftrightarrow> set rs = ran T \<and> distinct (map a_ID rs) \<and> sorted (map (\<lambda>r. (a_CreatedAt r, a_ID r)) rs)"

fun table_step :: "time \<Rightarrow> store_op \<Rightarrow> agents \<Rightarrow> agents \<times> store_out" where
  "table_step now (OpCreateAgent r) T =
     (case validateRecord r of
        Some e \<Rightarrow> (T, OutRecord (Inl e))
      | None \<Rightarrow>
          if T (a_ID r) \<noteq> None then (T, OutRecord (Inl (ErrDuplicateID (a_ID r))))
          else if holder T (a_PaneID r) \<noteq> None then (T, OutRecord (Inl (ErrDuplicatePane (a_PaneID r))))
          else (T(a_ID r \<mapsto> r), OutRecord (Inr r)))"
| "table_step now (OpGet i) T =
     (T, OutRecord (case T i of None \<Rightarrow> Inl (ErrAgentNotFound i) | Some r \<Rightarrow> Inr r))"
| "table_step now (OpGetByPane p) T =
     (T, OutRecord (case holder T p of None \<Rightarrow> Inl (ErrAgentNotFound p) | Some r \<Rightarrow> Inr r))"
| "table_step now OpList T = (T, OutList (THE rs. by_age T rs))"
| "table_step now (OpUpdateState i u) T =
     (if \<not> validState (su_State u) then (T, OutChange (Inl (ErrInvalidState (su_State u))))
      else case T i of
        None \<Rightarrow> (T, OutChange (Inl (ErrAgentNotFound i)))
      | Some r \<Rightarrow> (T(i \<mapsto> with_state now u r), OutChange (Inr \<lparr>sc_Previous = r,
          sc_Current = with_state now u r,
          sc_Changed = ((a_State r, a_StateReason r, a_MatchedRule r) \<noteq> (su_State u, su_Reason u, su_MatchedRule u))\<rparr>)))"
| "table_step now (OpSetPinned i b) T = apsnd OutRecord (change_agent i (\<lambda>r. r\<lparr>a_Pinned := b\<rparr>) T)"
| "table_step now (OpSetTaskAlias i a) T =
     (if \<not> TaskAlias_Valid a then (T, OutRecord (Inl (ErrInvalidTaskAlias a)))
      else apsnd OutRecord (change_agent i (\<lambda>r. r\<lparr>a_TaskAlias := a\<rparr>) T))"
| "table_step now (OpDelete i) T =
     (T(i := None), OutError (if T i = None then Some (ErrAgentNotFound i) else None))"

abbreviation agents_of :: "memoryStore \<Rightarrow> agents" where
  "agents_of s \<equiv> mget (ms_byID s)"

text \<open>Both indexes agree, and every record is one that \<open>Create\<close> accepts.\<close>

definition store_ok :: "memoryStore \<Rightarrow> bool" where
  "store_ok s \<longleftrightarrow> mapok (ms_byID s) \<and> mapok (ms_byPane s) \<and>
     (\<forall>i r. agents_of s i = Some r \<longrightarrow> a_ID r = i \<and> validateRecord r = None) \<and>
     (\<forall>p i. mget (ms_byPane s) p = Some i \<longleftrightarrow> (\<exists>r. agents_of s i = Some r \<and> a_PaneID r = p))"

section \<open>Lemmas\<close>

lemma option_eqI: "(\<And>x. a = Some x \<longleftrightarrow> b = Some x) \<Longrightarrow> a = b"
  by (metis not_Some_eq)

lemma agentSaveLocked_sel [simp]:
  "ms_byID (agentSaveLocked r s) = ms_byID s" "ms_byPane (agentSaveLocked r s) = ms_byPane s"
  "ms_persist (agentSaveLocked r s) = map_option (Enqueue [agentChange r]) (ms_persist s)"
  by (simp_all add: agentSaveLocked_def)

lemma store_ok_cong: "ms_byID s = ms_byID s' \<Longrightarrow> ms_byPane s = ms_byPane s' \<Longrightarrow> store_ok s = store_ok s'"
  by (simp add: store_ok_def)

lemma store_okD:
  assumes "store_ok s"
  shows "mapok (ms_byID s)" "mapok (ms_byPane s)"
    "agents_of s i = Some r \<Longrightarrow> a_ID r = i" "agents_of s i = Some r \<Longrightarrow> validateRecord r = None"
    "mget (ms_byPane s) p = Some i \<longleftrightarrow> (\<exists>r. agents_of s i = Some r \<and> a_PaneID r = p)"
  using assms by (simp_all add: store_ok_def)

lemma pane_unique:
  assumes "store_ok s" "agents_of s i = Some r" "agents_of s j = Some r'" "a_PaneID r = a_PaneID r'"
  shows "i = j"
proof -
  have "mget (ms_byPane s) (a_PaneID r) = Some i" "mget (ms_byPane s) (a_PaneID r) = Some j"
    using assms store_okD(5) [OF assms(1)] by auto
  then show ?thesis by simp
qed

text \<open>The pane index of the store is the holder of the table.\<close>

lemma holder_iff:
  assumes ok: "store_ok s"
  shows "holder (agents_of s) p = Some r \<longleftrightarrow> agents_of s (a_ID r) = Some r \<and> a_PaneID r = p"
proof -
  have u: "r' = r" if "r \<in> ran (agents_of s)" "r' \<in> ran (agents_of s)" "a_PaneID r = a_PaneID r'" for r r'
    using that pane_unique [OF ok] by (auto simp: ran_def) (metis option.inject)
  have m: "r \<in> ran (agents_of s) \<longleftrightarrow> agents_of s (a_ID r) = Some r" for r
    using store_okD(3) [OF ok] by (auto simp: ran_def)
  have the: "(THE x. x \<in> ran (agents_of s) \<and> a_PaneID x = a_PaneID r) = r" if "r \<in> ran (agents_of s)" for r
    using that u by (intro the_equality) auto
  show ?thesis
  proof (cases "\<exists>x \<in> ran (agents_of s). a_PaneID x = p")
    case True
    then obtain x where x: "x \<in> ran (agents_of s)" "a_PaneID x = p" by blast
    then have "holder (agents_of s) p = Some x" using the [OF x(1)] True by (simp add: holder_def)
    then show ?thesis using x u m by auto
  next
    case False
    then show ?thesis using m by (auto simp: holder_def)
  qed
qed

lemma byPane_holder:
  assumes ok: "store_ok s"
  shows "mget (ms_byPane s) p = map_option a_ID (holder (agents_of s) p)"
proof (cases "holder (agents_of s) p")
  case None
  have "mget (ms_byPane s) p \<noteq> Some i" for i
  proof
    assume "mget (ms_byPane s) p = Some i"
    then obtain r where "agents_of s i = Some r" "a_PaneID r = p" using store_okD(5) [OF ok] by blast
    then have "holder (agents_of s) p = Some r" using holder_iff [OF ok] store_okD(3) [OF ok] by blast
    then show False using None by simp
  qed
  then show ?thesis using None by (cases "mget (ms_byPane s) p") auto
next
  case (Some r)
  then show ?thesis using holder_iff [OF ok, of p r] store_okD(5) [OF ok, of p "a_ID r"] by auto
qed

lemma GetByPane_holder:
  assumes ok: "store_ok s"
  shows "GetByPane p s = (case holder (agents_of s) p of None \<Rightarrow> Inl (ErrAgentNotFound p) | Some r \<Rightarrow> Inr r)"
proof (cases "holder (agents_of s) p")
  case (Some r)
  then have "agents_of s (a_ID r) = Some r" using holder_iff [OF ok] by blast
  then show ?thesis using Some by (simp add: GetByPane_def byPane_holder [OF ok])
qed (simp add: GetByPane_def byPane_holder [OF ok])

text \<open>The order of the list is the only one by age.\<close>

lemma by_age_unique: "by_age T rs \<Longrightarrow> by_age T rs' \<Longrightarrow> rs = rs'"
proof -
  assume 1: "by_age T rs" and 2: "by_age T rs'"
  have d: "distinct (map (\<lambda>r. (a_CreatedAt r, a_ID r)) xs)" if "distinct (map a_ID xs)" for xs
    using that by (auto simp: distinct_map inj_on_def)
  show "rs = rs'"
    by (rule sorted_distinct_unique [where f = "\<lambda>r. (a_CreatedAt r, a_ID r)"])
      (use 1 2 in \<open>simp_all add: by_age_def d\<close>)
qed

lemma ListRecords_by_age:
  assumes ok: "store_ok s"
  shows "by_age (agents_of s) (ListRecords s)"
proof -
  have e: "a_ID r = i" if "(i, r) \<in> set (ms_byID s)" for i r
    using that store_okD(1,3) [OF ok] mapok_mget_iff by metis
  then have m: "map a_ID (map snd (ms_byID s)) = map fst (ms_byID s)" by auto
  have "distinct (map a_ID (map snd (ms_byID s)))" unfolding m by (rule store_okD(1) [OF ok])
  moreover have "mset (map a_ID (ListRecords s)) = mset (map a_ID (map snd (ms_byID s)))"
    by (simp only: ListRecords_def mset_map mset_sort)
  ultimately have "distinct (map a_ID (ListRecords s))" using mset_eq_imp_distinct_iff by blast
  moreover have "set (ListRecords s) = ran (agents_of s)"
    using store_okD(1) [OF ok] by (simp add: ListRecords_def ran_distinct)
  ultimately show ?thesis by (simp add: by_age_def ListRecords_def)
qed

lemma the_by_age: "store_ok s \<Longrightarrow> (THE rs. by_age (agents_of s) rs) = ListRecords s"
  using ListRecords_by_age by_age_unique by (intro the_equality) blast+

text \<open>Replacing one record by one with the same identity.\<close>

definition same_place :: "Record \<Rightarrow> Record \<Rightarrow> bool" where
  "same_place r r' \<longleftrightarrow> a_ID r' = a_ID r \<and> a_PaneID r' = a_PaneID r"

lemma store_ok_put:
  assumes ok: "store_ok s" and i: "agents_of s i = Some r" and p: "same_place r r'" "validateRecord r' = None"
  shows "store_ok (agentSaveLocked r' (s\<lparr>ms_byID := mput (ms_byID s) i r'\<rparr>))"
proof -
  have "a_ID r' = i" using store_okD(3) [OF ok i] p by (simp add: same_place_def)
  moreover have "mget (ms_byPane s) q = Some j \<longleftrightarrow>
      (\<exists>x. agents_of (s\<lparr>ms_byID := mput (ms_byID s) i r'\<rparr>) j = Some x \<and> a_PaneID x = q)" for q j
    using store_okD(5) [OF ok, of q j] i p by (auto simp: same_place_def)
  ultimately show ?thesis using ok p(2) by (simp add: store_ok_def)
qed

lemma store_ok_Create:
  assumes ok: "store_ok s" and v: "validateRecord r = None"
    and n: "agents_of s (a_ID r) = None" "mget (ms_byPane s) (a_PaneID r) = None"
  shows "store_ok (agentSaveLocked r (s\<lparr>ms_byID := mput (ms_byID s) (a_ID r) r,
           ms_byPane := mput (ms_byPane s) (a_PaneID r) (a_ID r)\<rparr>))"
proof -
  have free: "a_PaneID x \<noteq> a_PaneID r" if "agents_of s j = Some x" for j x
    using that n(2) store_okD(5) [OF ok, of "a_PaneID r" j] by auto
  show ?thesis using ok v n free store_okD(5) [OF ok] by (auto simp: store_ok_def)
qed

lemma store_ok_Delete:
  assumes ok: "store_ok s" and i: "agents_of s i = Some r"
  shows "store_ok (s\<lparr>ms_byID := mdel (ms_byID s) i, ms_byPane := mdel (ms_byPane s) (a_PaneID r), ms_persist := w\<rparr>)"
proof -
  let ?s = "s\<lparr>ms_byID := mdel (ms_byID s) i, ms_byPane := mdel (ms_byPane s) (a_PaneID r), ms_persist := w\<rparr>"
  note d = store_okD [OF ok]
  have u: "j = i" if "agents_of s j = Some x" "a_PaneID x = a_PaneID r" for j x
    using pane_unique [OF ok that(1) i that(2)] .
  have lk: "agents_of ?s j = (if j = i then None else agents_of s j)" for j using d(1) by simp
  have pn: "mget (ms_byPane ?s) q = (if q = a_PaneID r then None else mget (ms_byPane s) q)" for q
    using d(2) by simp
  have "mget (ms_byPane ?s) q = Some j \<longleftrightarrow> (\<exists>x. agents_of ?s j = Some x \<and> a_PaneID x = q)" for q j
  proof (cases "q = a_PaneID r")
    case True
    then show ?thesis unfolding lk pn using u [of j] by simp blast
  next
    case False
    then have "agents_of s j = Some x \<Longrightarrow> a_PaneID x = q \<Longrightarrow> j \<noteq> i" for x using i by auto
    then show ?thesis unfolding lk pn using False d(5) [of q j] by simp blast
  qed
  moreover have "a_ID x = j \<and> validateRecord x = None" if "agents_of ?s j = Some x" for j x
    using that d(3,4) unfolding lk by (simp split: if_splits)
  moreover have "mapok (ms_byID ?s)" "mapok (ms_byPane ?s)" using d(1,2) by simp_all
  ultimately show ?thesis unfolding store_ok_def by blast
qed

lemma validateRecord_None:
  "validateRecord r = None \<longleftrightarrow> TaskAlias_Valid (a_TaskAlias r) \<and> a_ID r \<noteq> [] \<and> a_Kind r \<noteq> [] \<and> a_PaneID r \<noteq> [] \<and>
     LookupProfile (a_Kind r) \<noteq> None \<and> \<not> isl (ParseAccessMode (a_AccessMode r)) \<and> validState (a_State r)"
  unfolding validateRecord_def by (cases "ParseAccessMode (a_AccessMode r)") simp_all

lemma validateRecord_update:
  "validateRecord r = None \<Longrightarrow> validState x \<Longrightarrow>
     validateRecord (r\<lparr>a_State := x, a_StateReason := y, a_MatchedRule := z, a_StateChangedAt := t\<rparr>) = None"
  "validateRecord r = None \<Longrightarrow> validateRecord (r\<lparr>a_Pinned := b\<rparr>) = None"
  "validateRecord r = None \<Longrightarrow> TaskAlias_Valid a \<Longrightarrow> validateRecord (r\<lparr>a_TaskAlias := a\<rparr>) = None"
  by (simp_all add: validateRecord_None)

lemma store_ok_step:
  assumes ok: "store_ok s"
  shows "store_ok (fst (store_step now op s))"
proof (cases op)
  case (OpCreateAgent r)
  then show ?thesis using ok store_ok_Create [OF ok, of r]
    by (auto simp: CreateAgent_def split: option.splits)
next
  case (OpUpdateState i u)
  then show ?thesis using ok store_okD(4) [OF ok]
    by (auto simp: UpdateState_def Let_def same_place_def split: option.splits
        intro!: store_ok_put [OF ok] validateRecord_update)
next
  case (OpSetPinned i b)
  then show ?thesis using ok store_okD(4) [OF ok]
    by (auto simp: SetPinned_def Let_def same_place_def split: option.splits
        intro!: store_ok_put [OF ok] validateRecord_update)
next
  case (OpSetTaskAlias i x)
  then show ?thesis using ok store_okD(4) [OF ok]
    by (auto simp: SetTaskAlias_def Let_def same_place_def split: option.splits
        intro!: store_ok_put [OF ok] validateRecord_update)
next
  case (OpDelete i)
  then show ?thesis using ok store_ok_Delete [OF ok] by (auto simp: DeleteAgent_def split: option.splits)
qed (use ok in simp_all)

lemma store_view_step:
  assumes ok: "store_ok s"
  shows "(agents_of (fst (store_step now op s)), snd (store_step now op s)) = table_step now op (agents_of s)"
proof (cases op)
  case (OpCreateAgent r)
  then show ?thesis
    by (auto simp: CreateAgent_def byPane_holder [OF ok] fun_eq_iff split: option.splits)
next
  case (OpUpdateState i u)
  then show ?thesis
    by (auto simp: UpdateState_def with_state_def Let_def fun_eq_iff split: option.splits)
next
  case (OpDelete i)
  then show ?thesis using store_okD(1) [OF ok]
    by (auto simp: DeleteAgent_def fun_eq_iff split: option.splits)
qed (auto simp: GetAgent_def GetByPane_holder [OF ok] the_by_age [OF ok] SetPinned_def SetTaskAlias_def
      change_agent_def Let_def fun_eq_iff split: option.splits)

interpretation agents: implementation store_step table_step agents_of store_ok
  by unfold_locales (simp_all add: store_ok_step store_view_step)

lemma store_ok_New: "store_ok (NewMemoryStore\<lparr>ms_persist := w\<rparr>)"
  by (simp add: store_ok_def NewMemoryStore_def)

section \<open>The store and its writer together\<close>

text \<open>Calls of the store interleaved with passes of the writer's goroutine.\<close>

datatype agents_event = AgentCall time store_op | AgentPass "persist_error option"

fun agents_step :: "agents_event \<Rightarrow> memoryStore \<Rightarrow> memoryStore" where
  "agents_step (AgentCall now op) s = fst (store_step now op s)"
| "agents_step (AgentPass storage) s = s\<lparr>ms_persist := map_option (run_iter storage) (ms_persist s)\<rparr>"

text \<open>The rows of the table of agents are the records of the store.\<close>

definition agent_row :: "Record Row \<Rightarrow> bool" where
  "agent_row row \<longleftrightarrow> a_ID (row_Data row) = row_ID row \<and> a_PaneID (row_Data row) = row_PaneID row"

definition agents_saved :: "agents \<Rightarrow> Record db \<Rightarrow> bool" where
  "agents_saved T d \<longleftrightarrow> db_ok d \<and>
     (\<forall>i. map_option row_Data (mget (d Agents) i) = T i) \<and>
     (\<forall>i row. mget (d Agents) i = Some row \<longrightarrow> agent_row row)"

definition agents_live :: "memoryStore \<Rightarrow> bool" where
  "agents_live s \<longleftrightarrow> store_ok s \<and>
     (\<exists>w d. ms_persist s = Some w \<and> writer_live w \<and> committed_later w = Inr d \<and> agents_saved (agents_of s) d)"

lemma CreateAgent_Inr:
  "CreateAgent r s = (s', Inr r') \<longleftrightarrow> r' = r \<and> validateRecord r = None \<and> agents_of s (a_ID r) = None \<and>
     mget (ms_byPane s) (a_PaneID r) = None \<and>
     s' = agentSaveLocked r (s\<lparr>ms_byID := mput (ms_byID s) (a_ID r) r,
            ms_byPane := mput (ms_byPane s) (a_PaneID r) (a_ID r)\<rparr>)"
  by (auto simp: CreateAgent_def split: option.splits)

lemma restoreAgents_sound:
  "restoreAgents rows s = Inr s' \<Longrightarrow> store_ok s \<Longrightarrow>
     store_ok s' \<and> list_all agent_row rows \<and>
     (\<forall>i r. agents_of s' i = Some r \<longleftrightarrow> agents_of s i = Some r \<or> (\<exists>row \<in> set rows. row_ID row = i \<and> row_Data row = r))"
proof (induction rows arbitrary: s)
  case (Cons row rows)
  let ?r = "row_Data row"
  from Cons.prems(1) obtain s1 where ar: "agent_row row" and c: "CreateAgent ?r s = (s1, Inr ?r)"
    and rest: "restoreAgents rows s1 = Inr s'"
    by (auto simp: Let_def agent_row_def CreateAgent_Inr split: if_splits prod.splits sum.splits)
  have ok1: "store_ok s1" using store_ok_Create [OF Cons.prems(2), of ?r] c by (simp add: CreateAgent_Inr)
  have lk: "agents_of s1 i = (if i = row_ID row then Some ?r else agents_of s i)" for i
    using c ar by (simp add: CreateAgent_Inr agent_row_def)
  have "agents_of s (row_ID row) = None" using c ar by (simp add: CreateAgent_Inr agent_row_def)
  then show ?case using Cons.IH [OF rest ok1] ar unfolding lk by (auto split: if_splits)
qed simp

lemma restoreAgents_total:
  "store_ok s \<Longrightarrow> \<forall>row \<in> set rows. agent_row row \<and> validateRecord (row_Data row) = None \<and>
     agents_of s (row_ID row) = None \<and> mget (ms_byPane s) (row_PaneID row) = None \<Longrightarrow>
   distinct (map row_ID rows) \<Longrightarrow> distinct (map row_PaneID rows) \<Longrightarrow> \<exists>s'. restoreAgents rows s = Inr s'"
proof (induction rows arbitrary: s)
  case (Cons row rows)
  let ?r = "row_Data row"
  let ?s = "agentSaveLocked ?r (s\<lparr>ms_byID := mput (ms_byID s) (a_ID ?r) ?r,
            ms_byPane := mput (ms_byPane s) (a_PaneID ?r) (a_ID ?r)\<rparr>)"
  have ar: "agent_row row" using Cons.prems(2) by simp
  have c: "CreateAgent ?r s = (?s, Inr ?r)" using Cons.prems(2) unfolding CreateAgent_Inr
    by (simp add: agent_row_def)
  have "store_ok ?s" using store_ok_Create [OF Cons.prems(1), of ?r] c by (simp add: CreateAgent_Inr)
  moreover have "agent_row x \<and> validateRecord (row_Data x) = None \<and> agents_of ?s (row_ID x) = None \<and>
      mget (ms_byPane ?s) (row_PaneID x) = None" if "x \<in> set rows" for x
  proof -
    have "row_ID x \<noteq> row_ID row" "row_PaneID x \<noteq> row_PaneID row" 
      using that Cons.prems(3,4) by (auto simp: image_iff)
    then show ?thesis using that Cons.prems(2) ar by (simp add: agent_row_def)
  qed
  ultimately have "\<exists>s'. restoreAgents rows ?s = Inr s'" using Cons.IH [of ?s] Cons.prems(3,4) by simp
  then show ?case using c ar by (simp add: Let_def agent_row_def)
qed simp

text \<open>A database that holds the agents of a consistent store is restored to the same agents.\<close>

lemma restore_agents:
  assumes ok: "store_ok s" and sv: "agents_saved (agents_of s) d"
  shows "\<exists>s'. NewPersistentMemoryStore (OpenWriter d) = Inr s' \<and> agents_of s' = agents_of s"
proof -
  let ?rows = "map snd (sort_key fst (d Agents))"
  have db: "db_ok d" and eq: "\<And>i. map_option row_Data (mget (d Agents) i) = agents_of s i"
    and ar: "\<And>i row. mget (d Agents) i = Some row \<Longrightarrow> agent_row row"
    using sv by (auto simp: agents_saved_def)
  note mem = Load_ok(2) [OF db, of _ Agents]
  have at: "agents_of s (row_ID row) = Some (row_Data row) \<and> agent_row row" if "row \<in> set ?rows" for row
    using that eq [of "row_ID row"] ar unfolding mem by fastforce
  have load: "Load d Agents = Inr ?rows" using Load_ok(1) [OF db] by simp
  have dist: "distinct (map row_ID ?rows)" using Load_rows [OF db load] .
  have "inj_on row_PaneID (set ?rows)"
  proof (rule inj_onI)
    fix x y assume xy: "x \<in> set ?rows" "y \<in> set ?rows" "row_PaneID x = row_PaneID y"
    then have "row_ID x = row_ID y" using at [OF xy(1)] at [OF xy(2)] pane_unique [OF ok]
      by (auto simp: agent_row_def)
    then show "x = y" using dist xy(1,2) by (meson distinct_map inj_on_def)
  qed
  then have dp: "distinct (map row_PaneID ?rows)" using dist by (simp only: distinct_map)
  have "store_ok NewMemoryStore" using store_ok_New [of None] by (simp add: NewMemoryStore_def)
  note new = this
  have "\<forall>row \<in> set ?rows. agent_row row \<and> validateRecord (row_Data row) = None \<and>
     agents_of NewMemoryStore (row_ID row) = None \<and> mget (ms_byPane NewMemoryStore) (row_PaneID row) = None"
    using at store_okD(4) [OF ok] by (auto simp: NewMemoryStore_def simp del: set_map set_sort)
  from restoreAgents_total [OF new this dist dp] obtain s' where s': "restoreAgents ?rows NewMemoryStore = Inr s'" ..
  have e: "agents_of s' i = Some r \<longleftrightarrow> (\<exists>row \<in> set ?rows. row_ID row = i \<and> row_Data row = r)" for i r
    using restoreAgents_sound [OF s' new] by (simp add: NewMemoryStore_def)
  have "agents_of s' i = Some r \<longleftrightarrow> agents_of s i = Some r" for i r
  proof
    assume "agents_of s' i = Some r"
    then obtain row where "row \<in> set ?rows" "row_ID row = i" "row_Data row = r" unfolding e by blast
    then show "agents_of s i = Some r" using at by blast
  next
    assume "agents_of s i = Some r"
    then obtain row where row: "mget (d Agents) i = Some row" "row_Data row = r" using eq [of i] by auto
    then have "row_ID row = i" using db by (simp add: db_ok_def table_ok_def)
    then have "row \<in> set ?rows" using row(1) unfolding mem by simp
    then show "agents_of s' i = Some r" unfolding e using row(2) \<open>row_ID row = i\<close> by blast
  qed
  then have "agents_of s' = agents_of s" by (intro ext option_eqI)
  moreover have "NewPersistentMemoryStore (OpenWriter d) = Inr (s'\<lparr>ms_persist := Some (OpenWriter d)\<rparr>)"
    using load s' by (simp add: NewPersistentMemoryStore_def OpenWriter_def)
  ultimately show ?thesis by simp
qed

lemma apply_agentChange:
  assumes sv: "agents_saved T d" and free: "\<And>j r'. T j = Some r' \<Longrightarrow> a_PaneID r' = a_PaneID r \<Longrightarrow> j = a_ID r"
  shows "\<exists>d'. apply_changes d [agentChange r] = Inr d' \<and> agents_saved (T(a_ID r \<mapsto> r)) d'"
proof -
  let ?row = "\<lparr>row_ID = a_ID r, row_Parent = [], row_PaneID = a_PaneID r, row_Data = r\<rparr>"
  have db: "db_ok d" using sv by (simp add: agents_saved_def)
  have "\<not> list_ex (\<lambda>(k, row). k \<noteq> a_ID r \<and> row_PaneID row = a_PaneID r) (d Agents)"
  proof
    assume "list_ex (\<lambda>(k, row). k \<noteq> a_ID r \<and> row_PaneID row = a_PaneID r) (d Agents)"
    then obtain k row where k: "(k, row) \<in> set (d Agents)" "k \<noteq> a_ID r" "row_PaneID row = a_PaneID r"
      by (auto simp: list_ex_iff)
    have "mget (d Agents) k = Some row" using k(1) db by (simp add: db_ok_def table_ok_def mapok_mget_iff)
    moreover have "map_option row_Data (mget (d Agents) k) = T k" using sv by (simp add: agents_saved_def)
    ultimately have "T k = Some (row_Data row)" "a_PaneID (row_Data row) = a_PaneID r"
      using sv k(3) by (auto simp: agents_saved_def agent_row_def)
    then show False using free k(2) by blast
  qed
  then have "apply_changes d [agentChange r] = Inr (d(Agents := mput (d Agents) (a_ID r) ?row))"
    by (simp add: apply_change_def agentChange_def validTable_def)
  moreover have "db_ok (d(Agents := mput (d Agents) (a_ID r) ?row))"
    using db by (simp add: db_ok_def table_ok_mput)
  ultimately show ?thesis using sv by (auto simp: agents_saved_def agent_row_def split: if_splits)
qed

lemma apply_agentDelete:
  assumes sv: "agents_saved T d"
  shows "\<exists>d'. apply_changes d [\<lparr>c_Table = Agents, c_ID = i, c_Parent = [], c_PaneID = [], c_Value = None\<rparr>] = Inr d' \<and>
    agents_saved (T(i := None)) d'"
proof -
  have db: "db_ok d" using sv by (simp add: agents_saved_def)
  then have m: "mapok (d Agents)" by (simp add: db_ok_def table_ok_def)
  have "db_ok (d(Agents := mdel (d Agents) i))" using db by (simp add: db_ok_def table_ok_mdel)
  then have "agents_saved (T(i := None)) (d(Agents := mdel (d Agents) i))"
    using sv m by (auto simp: agents_saved_def split: if_splits)
  then show ?thesis by (simp add: apply_change_def validTable_def)
qed

text \<open>
  Every call that changes a record enqueues it, so what the database will hold stays the table.
\<close>

definition enqueues :: "memoryStore \<Rightarrow> memoryStore \<Rightarrow> bool" where
  "enqueues s s' \<longleftrightarrow> (\<exists>cs. ms_persist s' = map_option (\<lambda>w. if cs = [] then w else Enqueue cs w) (ms_persist s) \<and>
     (\<forall>d. agents_saved (agents_of s) d \<longrightarrow> (\<exists>d'. apply_changes d cs = Inr d' \<and> agents_saved (agents_of s') d')))"

lemma enqueues_refl: "enqueues s s"
  unfolding enqueues_def by (rule exI [of _ "[]"]) (simp add: option.map_ident)

lemma enqueues_put:
  assumes ok: "store_ok s" and i: "agents_of s i = Some r" and p: "same_place r r'"
  shows "enqueues s (agentSaveLocked r' (s\<lparr>ms_byID := mput (ms_byID s) i r'\<rparr>))"
proof -
  have e: "a_ID r' = i" using store_okD(3) [OF ok i] p by (simp add: same_place_def)
  have "j = a_ID r'" if "agents_of s j = Some x" "a_PaneID x = a_PaneID r'" for j x
    using pane_unique [OF ok that(1) i] that(2) p e by (simp add: same_place_def)
  note u = apply_agentChange [OF _ this]
  have "agents_of (agentSaveLocked r' (s\<lparr>ms_byID := mput (ms_byID s) i r'\<rparr>)) = (agents_of s)(a_ID r' \<mapsto> r')"
    using e by (simp add: fun_eq_iff)
  then show ?thesis unfolding enqueues_def using u by (intro exI [of _ "[agentChange r']"]) simp
qed

lemma enqueues_Create:
  assumes ok: "store_ok s" and c: "CreateAgent r s = (s', Inr r)"
  shows "enqueues s s'"
proof -
  have s': "s' = agentSaveLocked r (s\<lparr>ms_byID := mput (ms_byID s) (a_ID r) r,
      ms_byPane := mput (ms_byPane s) (a_PaneID r) (a_ID r)\<rparr>)" and n: "mget (ms_byPane s) (a_PaneID r) = None"
    using c by (simp_all add: CreateAgent_Inr)
  have "j = a_ID r" if "agents_of s j = Some x" "a_PaneID x = a_PaneID r" for j x
    using store_okD(5) [OF ok, of "a_PaneID r" j] that n by auto
  note u = apply_agentChange [OF _ this]
  have "agents_of s' = (agents_of s)(a_ID r \<mapsto> r)" by (simp add: s' fun_eq_iff)
  then show ?thesis unfolding enqueues_def using u by (intro exI [of _ "[agentChange r]"]) (simp add: s')
qed

lemma enqueues_Delete:
  assumes ok: "store_ok s"
  shows "enqueues s (fst (DeleteAgent i s))"
proof (cases "agents_of s i")
  case None
  then show ?thesis by (simp add: DeleteAgent_def enqueues_refl)
next
  case (Some r)
  then have "agents_of (fst (DeleteAgent i s)) = (agents_of s)(i := None)"
    using store_okD(1) [OF ok] by (simp add: DeleteAgent_def fun_eq_iff)
  then show ?thesis unfolding enqueues_def using Some apply_agentDelete [of "agents_of s" _ i]
    by (intro exI [of _ "[\<lparr>c_Table = Agents, c_ID = i, c_Parent = [], c_PaneID = [], c_Value = None\<rparr>]"])
      (simp add: DeleteAgent_def)
qed

lemma store_step_enqueues:
  assumes ok: "store_ok s"
  shows "enqueues s (fst (store_step now op s))"
proof (cases op)
  case (OpCreateAgent r)
  show ?thesis
  proof (cases "CreateAgent r s")
    case (Pair s' res)
    then show ?thesis using OpCreateAgent enqueues_Create [OF ok, of r s']
      by (cases res) (auto simp: CreateAgent_Inr, auto simp: CreateAgent_def enqueues_refl split: option.splits if_splits)
  qed
next
  case (OpDelete i)
  then show ?thesis using enqueues_Delete [OF ok] by simp
next
  case (OpUpdateState i u)
  then show ?thesis by (auto simp: UpdateState_def Let_def same_place_def enqueues_refl split: option.splits
        intro!: enqueues_put [OF ok])
next
  case (OpSetPinned i b)
  then show ?thesis by (auto simp: SetPinned_def Let_def same_place_def enqueues_refl split: option.splits
        intro!: enqueues_put [OF ok])
next
  case (OpSetTaskAlias i x)
  then show ?thesis by (auto simp: SetTaskAlias_def Let_def same_place_def enqueues_refl split: option.splits
        intro!: enqueues_put [OF ok])
qed (simp_all add: enqueues_refl)

lemma agents_live_step:
  assumes live: "agents_live s"
  shows "agents_live (agents_step e s)"
proof (cases e)
  case (AgentPass storage)
  then show ?thesis using live committed_later_pass store_ok_cong [of "agents_step e s" s]
    by (fastforce simp: agents_live_def)
next
  case (AgentCall now op)
  obtain w d where ok: "store_ok s" and w: "ms_persist s = Some w" "writer_live w" "committed_later w = Inr d"
    "agents_saved (agents_of s) d" using live by (auto simp: agents_live_def)
  let ?s = "fst (store_step now op s)"
  obtain cs where cs: "ms_persist ?s = map_option (\<lambda>w. if cs = [] then w else Enqueue cs w) (ms_persist s)"
    "\<And>d. agents_saved (agents_of s) d \<Longrightarrow> \<exists>d'. apply_changes d cs = Inr d' \<and> agents_saved (agents_of ?s) d'"
    using store_step_enqueues [OF ok, of now op] unfolding enqueues_def by blast
  obtain d' where d': "apply_changes d cs = Inr d'" "agents_saved (agents_of ?s) d'" using cs(2) [OF w(4)] by blast
  have "\<exists>w'. ms_persist ?s = Some w' \<and> writer_live w' \<and> committed_later w' = Inr d'"
    using cs(1) w d'(1) committed_later_Enqueue [OF w(2,3), of cs] by (cases "cs = []") simp_all
  then show ?thesis using store_ok_step [OF ok] d'(2) by (auto simp: agents_live_def AgentCall)
qed

lemma agents_live_run: "agents_live s \<Longrightarrow> agents_live (fold agents_step evs s)"
  by (induction evs arbitrary: s) (simp_all add: agents_live_step)

lemma agents_live_restored:
  assumes db: "db_ok d" and r: "NewPersistentMemoryStore (OpenWriter d) = Inr s"
  shows "agents_live s"
proof -
  let ?rows = "map snd (sort_key fst (d Agents))"
  have new: "store_ok NewMemoryStore" using store_ok_New [of None] by (simp add: NewMemoryStore_def)
  obtain s0 where s0: "restoreAgents ?rows NewMemoryStore = Inr s0" "s = s0\<lparr>ms_persist := Some (OpenWriter d)\<rparr>"
    using r Load_ok(1) [OF db, of Agents] by (auto simp: NewPersistentMemoryStore_def OpenWriter_def split: sum.splits)
  note so = restoreAgents_sound [OF s0(1) new]
  note mem = Load_ok(2) [OF db, of _ Agents]
  have own: "row_ID row = i" if "mget (d Agents) i = Some row" for i row
    using that db by (simp add: db_ok_def table_ok_def)
  have all: "agent_row row" if "mget (d Agents) i = Some row" for i row
  proof -
    have "row_ID row = i" using own [OF that] .
    then show ?thesis using that so mem [of row] by (simp only: list_all_iff)
  qed
  have "map_option row_Data (mget (d Agents) i) = agents_of s0 i" for i
  proof (rule option_eqI)
    fix r
    have "agents_of s0 i = Some r \<longleftrightarrow> (\<exists>row \<in> set ?rows. row_ID row = i \<and> row_Data row = r)"
      using so by (simp add: NewMemoryStore_def)
    also have "\<dots> \<longleftrightarrow> (\<exists>row. mget (d Agents) i = Some row \<and> row_Data row = r)"
      unfolding Bex_def mem using own by metis
    finally show "map_option row_Data (mget (d Agents) i) = Some r \<longleftrightarrow> agents_of s0 i = Some r" by auto
  qed
  then have "agents_saved (agents_of s) d" using db all by (simp add: agents_saved_def s0(2))
  then show ?thesis using so store_ok_cong [of s s0]
    by (simp add: agents_live_def s0(2) writer_live_def committed_later_def OpenWriter_def in_flight_def)
qed

text \<open>
  C19. The store is a table. Whatever calls are made, each returns what the same call on a plain
  map of agents returns, in which the agent of a pane is the one record with that pane and a list
  is by age; the two indexes never disagree and no pane has two agents.
\<close>

theorem store_refines_table:
  "let s = fst (run_ops store_step ops (NewMemoryStore\<lparr>ms_persist := w\<rparr>)) in
     run_ops table_step ops Map.empty = (agents_of s, snd (run_ops store_step ops (NewMemoryStore\<lparr>ms_persist := w\<rparr>)))
     \<and> store_ok s"
proof -
  have "agents_of (NewMemoryStore\<lparr>ms_persist := w\<rparr>) = Map.empty" by (simp add: NewMemoryStore_def)
  then show ?thesis using agents.run_view [OF store_ok_New, of ops w] by (simp add: Let_def prod_eq_iff)
qed

text \<open>
  C10. A restart loses no agent. Start the store from any database that loads, make any calls,
  interleaved with the writer's passes and storage failures, close the writer and let it drain:
  the store restored from the database has exactly the same agents.
\<close>

theorem agents_survive_restart:
  assumes "db_ok d0" and "NewPersistentMemoryStore (OpenWriter d0) = Inr s0" and s: "s = fold agents_step evs s0"
    and w: "ms_persist s = Some w" and n: "length (w_batch w @ w_pending w) < n"
  shows "\<exists>s'. NewPersistentMemoryStore (OpenWriter (w_db (run_loop n (CloseWriter w)))) = Inr s' \<and>
    agents_of s' = agents_of s"
proof -
  have "agents_live s" unfolding s using agents_live_run agents_live_restored assms(1,2) by blast
  then obtain d where ok: "store_ok s" and d: "writer_live w" "committed_later w = Inr d" "agents_saved (agents_of s) d"
    using w by (auto simp: agents_live_def)
  show ?thesis unfolding run_loop_committed [OF d(1,2) n] by (rule restore_agents [OF ok d(3)])
qed

lemma LookupProfile_kind: "LookupProfile k = Some p \<Longrightarrow> pr_Kind p = k"
  by (auto simp: LookupProfile_def profiles_def split: if_splits)

lemma read_only_args:
  assumes "ParseAccessMode access = Inr AccessReadOnly" "BuildManagedCommand p access prompt extra = Inr args"
  shows "pr_Kind p = KindCodex \<and> \<not> HasPrefix prompt ''-'' \<and> args = [pr_Executable p, ''--sandbox'', ''read-only'', ''--ask-for-approval'', ''never'']
      @ (if prompt = [] then [] else [prompt])"
  using assms by (auto simp: BuildManagedCommand_def AccessFull_def AccessReadOnly_def Let_def split: if_splits)

text \<open>
  C38. A read-only agent cannot be given more. If a command line is built for read-only access,
  its only arguments that look like flags are the two that switch the sandbox on and approvals
  off, whatever prompt and extra arguments were asked for; in particular none is a bypass flag of
  any profile.
\<close>

theorem read_only_stays_sandboxed:
  assumes "ParseAccessMode access = Inr AccessReadOnly" and "LookupProfile kind = Some p"
    and "BuildManagedCommand p access prompt extra = Inr args"
  shows "filter (\<lambda>a. HasPrefix a ''-'') args = [''--sandbox'', ''--ask-for-approval''] \<and>
    take 3 args = [''codex'', ''--sandbox'', ''read-only''] \<and>
    set args \<inter> (\<Union>q \<in> set (map snd profiles). set (pr_BypassArgs q)) = {}"
proof -
  note a = read_only_args [OF assms(1,3)]
  have "kind = KindCodex" using a LookupProfile_kind [OF assms(2)] by simp
  then have ex: "pr_Executable p = ''codex''" using assms(2) by (auto simp: LookupProfile_def profiles_def)
  have fl: "filter (\<lambda>a. HasPrefix a ''-'') args = [''--sandbox'', ''--ask-for-approval'']"
    using a by (auto simp: ex HasPrefix_def)
  have "HasPrefix x ''--''" if "x \<in> set (pr_BypassArgs q)" "q \<in> set (map snd profiles)" for x q
    using that by (auto simp: profiles_def HasPrefix_def)
  moreover have "x \<in> {''--sandbox'', ''--ask-for-approval''}" if "x \<in> set args" "HasPrefix x ''-''" for x
  proof -
    have "x \<in> set (filter (\<lambda>a. HasPrefix a ''-'') args)" using that by simp
    then show ?thesis unfolding fl by simp
  qed
  moreover have "{''--sandbox'', ''--ask-for-approval''} \<inter> (\<Union>q \<in> set (map snd profiles). set (pr_BypassArgs q)) = {}"
    by (simp add: profiles_def)
  moreover have "HasPrefix x ''-''" if "HasPrefix x ''--''" for x using that by (auto simp: HasPrefix_iff)
  ultimately have "set args \<inter> (\<Union>q \<in> set (map snd profiles). set (pr_BypassArgs q)) = {}" by blast
  then show ?thesis using fl a by (simp add: ex)
qed

section \<open>Witnesses\<close>

definition demo_agent :: Record where
  "demo_agent = zeroRecord\<lparr>a_ID := ''agent-1'', a_Kind := ''codex'', a_PaneID := ''p1'', a_State := ''unknown'',
     a_CreatedAt := 5\<rparr>"

definition demo_agent_events :: "agents_event list" where
  "demo_agent_events = [AgentCall 5 (OpCreateAgent demo_agent), AgentPass (Some (ErrStorage [])),
     AgentCall 9 (OpUpdateState ''agent-1'' \<lparr>su_State = ''working'', su_Reason = ''r'', su_MatchedRule = []\<rparr>)]"

definition demo_store0 :: memoryStore where
  "demo_store0 = NewMemoryStore\<lparr>ms_persist := Some (OpenWriter (\<lambda>_. []))\<rparr>"

lemma demo_agent_valid: "validateRecord demo_agent = None"
  by (simp add: validateRecord_None demo_agent_def zeroRecord_def TaskAlias_Valid_def ValidString_def LookupProfile_def
      profiles_def kind_defs ParseAccessMode_def validState_def state_defs)

lemma demo_store_run:
  "\<exists>w. ms_persist (fold agents_step demo_agent_events demo_store0) = Some w \<and> length (w_batch w @ w_pending w) < 4"
  "map_option a_State (agents_of (fold agents_step demo_agent_events demo_store0) ''agent-1'') = Some ''working''"
proof -
  let ?s = "fst (CreateAgent demo_agent demo_store0)"
  have 1: "a_ID demo_agent = ''agent-1''" "a_State demo_agent = ''unknown''" by (simp_all add: demo_agent_def)
  have s: "ms_persist ?s = Some (Enqueue [agentChange demo_agent] (OpenWriter (\<lambda>_. [])))" "ms_byID ?s = [(''agent-1'', demo_agent)]"
    by (simp_all add: CreateAgent_def demo_agent_valid demo_store0_def NewMemoryStore_def 1(1))
  have r: "run_iter (Some (ErrStorage [])) (Enqueue [agentChange demo_agent] (OpenWriter (\<lambda>_. []))) =
      (OpenWriter (\<lambda>_. []))\<lparr>w_batch := [\<lparr>q_Change = agentChange demo_agent, q_committed = None\<rparr>]\<rparr>"
    by (simp add: run_iter_def take_batch_def Enqueue_def OpenWriter_def commit_def)
  show "\<exists>w. ms_persist (fold agents_step demo_agent_events demo_store0) = Some w \<and> length (w_batch w @ w_pending w) < 4"
    by (simp add: demo_agent_events_def UpdateState_def validState_def state_defs s r 1 Let_def)
      (simp add: Enqueue_def OpenWriter_def)
  show "map_option a_State (agents_of (fold agents_step demo_agent_events demo_store0) ''agent-1'') = Some ''working''"
    by (simp add: demo_agent_events_def UpdateState_def validState_def state_defs s 1 Let_def)
qed

theorem agents_survive_restart_witness:
  "\<exists>w s'. NewPersistentMemoryStore (OpenWriter (w_db (run_loop 4 (CloseWriter w)))) = Inr s' \<and>
     map_option a_State (agents_of s' ''agent-1'') = Some ''working''"
proof -
  have db: "db_ok (\<lambda>_. [])" by (simp add: db_ok_def table_ok_def)
  have n: "NewPersistentMemoryStore (OpenWriter (\<lambda>_. [])) = Inr demo_store0"
    by (simp add: NewPersistentMemoryStore_def Load_def validTable_def OpenWriter_def demo_store0_def)
  obtain w where w: "ms_persist (fold agents_step demo_agent_events demo_store0) = Some w"
    "length (w_batch w @ w_pending w) < 4" using demo_store_run(1) by blast
  show ?thesis using agents_survive_restart [OF db n HOL.refl w] demo_store_run(2) by metis
qed

theorem read_only_stays_sandboxed_witness:
  "filter (\<lambda>a. HasPrefix a ''-'') [''codex'', ''--sandbox'', ''read-only'', ''--ask-for-approval'', ''never'', ''hi''] =
     [''--sandbox'', ''--ask-for-approval'']"
proof -
  have 1: "ParseAccessMode ''read-only'' = Inr AccessReadOnly" by (simp add: ParseAccessMode_def AccessFull_def AccessReadOnly_def)
  have 2: "LookupProfile ''codex'' = Some (the (mget profiles KindCodex))" by (simp add: LookupProfile_def profiles_def kind_defs)
  have 3: "BuildManagedCommand (the (mget profiles KindCodex)) ''read-only'' ''hi'' [] =
      Inr [''codex'', ''--sandbox'', ''read-only'', ''--ask-for-approval'', ''never'', ''hi'']"
    by (simp add: BuildManagedCommand_def ParseAccessMode_def AccessFull_def AccessReadOnly_def profiles_def kind_defs HasPrefix_def)
  show ?thesis using read_only_stays_sandboxed [OF 1 2 3] by blast
qed

end
