(* ===== verification/Agent_Detect.thy ===== *)
theory Agent_Detect
  imports Agent_Store
begin

text \<open>
  Detecting an agent's state from its screen: \<^verbatim>\<open>src/internal/codingagent/regions.go\<close> (the part of
  the screen a rule looks at), \<^verbatim>\<open>matcher.go\<close> (what it looks for), \<^verbatim>\<open>manifest.go\<close> and \<^verbatim>\<open>manifests.go\<close>
  (loading rules), \<^verbatim>\<open>detector.go\<close> (the first rule that matches decides) and the detector's part of
  \<^verbatim>\<open>explain.go\<close>.

  Regular expressions and the lower-casing of Unicode text are the argument \<open>TextLib\<close>: a compiled
  expression is its own source text, \<open>tl_Compile\<close> says whether it compiles and \<open>tl_MatchString\<close>
  whether it matches. The YAML decoder is the argument of \<open>LoadManifest\<close>. The theorems hold for any.

  The lemmas show that the detector returns the matching rule of highest priority, the earliest
  among equals; that exactly the well-formed matchers compile and a compiled matcher decides the
  formula that was written; that a region is a run of complete lines of the screen; and that the
  embedded detector never panics.
\<close>

declare map_of_eq_Some_iff [simp del] Some_eq_map_of_iff [simp del]

record TextLib =
  tl_Compile :: "string \<Rightarrow> string option"
  tl_MatchString :: "string \<Rightarrow> string \<Rightarrow> bool"
  tl_ToLower :: "string \<Rightarrow> string"

section \<open>Matchers\<close>

text \<open>A field of the YAML struct is \<open>None\<close> when it is absent (a nil slice).\<close>

datatype matcherYAML = MatcherYAML
  (my_Contains: "string list option") (my_Regex: "string list option") (my_LineRegex: "string list option")
  (my_All: "matcherYAML list option") (my_Any: "matcherYAML list option") (my_Not: "matcherYAML list option")

datatype matcherOperator =
    matcherNone | matcherContains | matcherRegex | matcherLineRegex | matcherAll | matcherAny | matcherNot

datatype Matcher = Matcher
  (m_operator: matcherOperator) (m_values: "string list") (m_regexps: "string list") (m_children: "Matcher list")

datatype matcher_error =
    NoOperator | ManyOperators | EmptyMatcher string | EmptyValue string | BadRegexp string string
  | InChild string nat matcher_error

definition requireMatcherValues :: "string \<Rightarrow> string list \<Rightarrow> matcher_error option" where
  "requireMatcherValues name values =
     (if length values = 0 then Some (EmptyMatcher name)
      else if list_ex (\<lambda>v. v = []) values then Some (EmptyValue name)
      else None)"

fun compileEach :: "TextLib \<Rightarrow> string list \<Rightarrow> matcher_error + string list" where
  "compileEach lib [] = Inr []"
| "compileEach lib (e # es) =
     (case tl_Compile lib e of
        Some err \<Rightarrow> Inl (BadRegexp e err)
      | None \<Rightarrow> (case compileEach lib es of Inl err \<Rightarrow> Inl err | Inr res \<Rightarrow> Inr (e # res)))"

definition compileRegexps :: "TextLib \<Rightarrow> string \<Rightarrow> string list \<Rightarrow> matcher_error + string list" where
  "compileRegexps lib name expressions =
     (case requireMatcherValues name expressions of Some e \<Rightarrow> Inl e | None \<Rightarrow> compileEach lib expressions)"

text \<open>The operator whose field is present last, and how many are.\<close>

definition candidates :: "matcherYAML \<Rightarrow> (matcherOperator \<times> bool) list" where
  "candidates raw =
     [(matcherContains, my_Contains raw \<noteq> None), (matcherRegex, my_Regex raw \<noteq> None),
      (matcherLineRegex, my_LineRegex raw \<noteq> None), (matcherAll, my_All raw \<noteq> None),
      (matcherAny, my_Any raw \<noteq> None), (matcherNot, my_Not raw \<noteq> None)]"

definition selectOperator :: "matcherYAML \<Rightarrow> matcher_error + matcherOperator" where
  "selectOperator raw =
     (let (selected, count) = fold (\<lambda>(op, present) (sel, n). if present then (op, Suc n) else (sel, n))
            (candidates raw) (matcherNone, 0 :: nat)
      in if count = 0 then Inl NoOperator else if count \<noteq> 1 then Inl ManyOperators else Inr selected)"

text \<open>A nil slice is an empty one.\<close>

abbreviation (input) slice :: "'a list option \<Rightarrow> 'a list" where
  "slice x \<equiv> (case x of None \<Rightarrow> [] | Some xs \<Rightarrow> xs)"

function compileMatcher :: "TextLib \<Rightarrow> matcherYAML \<Rightarrow> matcher_error + Matcher"
and compileChildren :: "TextLib \<Rightarrow> string \<Rightarrow> matcherYAML list \<Rightarrow> matcher_error + Matcher list"
and compileEachChild :: "TextLib \<Rightarrow> string \<Rightarrow> nat \<Rightarrow> matcherYAML list \<Rightarrow> matcher_error + Matcher list" where
  "compileMatcher lib (MatcherYAML cont reg line al an no) =
     (case selectOperator (MatcherYAML cont reg line al an no) of
        Inl e \<Rightarrow> Inl e
      | Inr op \<Rightarrow>
          (case op of
             matcherContains \<Rightarrow>
               (case requireMatcherValues ''contains'' (slice cont) of
                  Some e \<Rightarrow> Inl e
                | None \<Rightarrow> Inr (Matcher op (map (tl_ToLower lib) (slice cont)) [] []))
           | matcherRegex \<Rightarrow>
               map_sum (\<lambda>e. e) (\<lambda>res. Matcher op [] res []) (compileRegexps lib ''regex'' (slice reg))
           | matcherLineRegex \<Rightarrow>
               map_sum (\<lambda>e. e) (\<lambda>res. Matcher op [] res []) (compileRegexps lib ''line_regex'' (slice line))
           | matcherAll \<Rightarrow>
               map_sum (\<lambda>e. e) (\<lambda>ms. Matcher op [] [] ms) (compileChildren lib ''all'' (slice al))
           | matcherAny \<Rightarrow>
               map_sum (\<lambda>e. e) (\<lambda>ms. Matcher op [] [] ms) (compileChildren lib ''any'' (slice an))
           | matcherNot \<Rightarrow>
               map_sum (\<lambda>e. e) (\<lambda>ms. Matcher op [] [] ms) (compileChildren lib ''not'' (slice no))
           | matcherNone \<Rightarrow> Inr (Matcher op [] [] [])))"
| "compileChildren lib name raw =
     (if length raw = 0 then Inl (EmptyMatcher name) else compileEachChild lib name 0 raw)"
| "compileEachChild lib name index [] = Inr []"
| "compileEachChild lib name index (c # cs) =
     (case compileMatcher lib c of
        Inl e \<Rightarrow> Inl (InChild name index e)
      | Inr m \<Rightarrow> map_sum (\<lambda>e. e) (\<lambda>ms. m # ms) (compileEachChild lib name (Suc index) cs))"
  by pat_completeness auto
termination
  by (relation "measure (\<lambda>x. case x of Inl (_, m) \<Rightarrow> 3 * size m
        | Inr (Inl (_, _, ms)) \<Rightarrow> 3 * size_list size ms + 1 | Inr (Inr (_, _, _, ms)) \<Rightarrow> 3 * size_list size ms)")
    (auto split: option.splits)

fun matches :: "TextLib \<Rightarrow> Matcher \<Rightarrow> string \<Rightarrow> bool" where
  "matches lib (Matcher op values regexps children) region =
     (case op of
        matcherContains \<Rightarrow> (let lower = tl_ToLower lib region in list_all (\<lambda>v. Contains lower v) values)
      | matcherRegex \<Rightarrow> list_all (\<lambda>re. tl_MatchString lib re region) regexps
      | matcherLineRegex \<Rightarrow>
          (let lines = SplitByte NL region
           in list_all (\<lambda>re. list_ex (\<lambda>line. tl_MatchString lib re line) lines) regexps)
      | matcherAll \<Rightarrow> list_all (\<lambda>child. matches lib child region) children
      | matcherAny \<Rightarrow> list_ex (\<lambda>child. matches lib child region) children
      | matcherNot \<Rightarrow> list_all (\<lambda>child. \<not> matches lib child region) children
      | matcherNone \<Rightarrow> False)"

section \<open>Regions\<close>

type_synonym RegionType = string

definition RegionWholeRecent :: RegionType where "RegionWholeRecent = ''whole_recent''"
definition RegionBottomNonEmptyLines :: RegionType where "RegionBottomNonEmptyLines = ''bottom_non_empty_lines''"
definition RegionAfterLastPromptMarker :: RegionType where "RegionAfterLastPromptMarker = ''after_last_prompt_marker''"
definition RegionBeforeCurrentPromptMarker :: RegionType where
  "RegionBeforeCurrentPromptMarker = ''before_current_prompt_marker''"
definition RegionCurrentPromptMarker :: RegionType where "RegionCurrentPromptMarker = ''current_prompt_marker''"
definition RegionPromptBoxBody :: RegionType where "RegionPromptBoxBody = ''prompt_box_body''"
definition RegionAfterLastHorizontalRule :: RegionType where
  "RegionAfterLastHorizontalRule = ''after_last_horizontal_rule''"
definition RegionOSCTitle :: RegionType where "RegionOSCTitle = ''osc_title''"
definition RegionOSCProgress :: RegionType where "RegionOSCProgress = ''osc_progress''"

lemmas region_defs = RegionWholeRecent_def RegionBottomNonEmptyLines_def RegionAfterLastPromptMarker_def
  RegionBeforeCurrentPromptMarker_def RegionCurrentPromptMarker_def RegionPromptBoxBody_def
  RegionAfterLastHorizontalRule_def RegionOSCTitle_def RegionOSCProgress_def

record Region =
  rg_Type :: RegionType
  rg_Lines :: int

record DetectionInput =
  di_Screen :: string
  di_OSCTitle :: string
  di_OSCProgress :: string

text \<open>A loop from the last line to the first: the index it stops at.\<close>

fun scanDown :: "('a \<Rightarrow> bool) \<Rightarrow> 'a list \<Rightarrow> nat \<Rightarrow> nat option" where
  "scanDown P xs 0 = None"
| "scanDown P xs (Suc i) = (if P (xs ! i) then Some i else scanDown P xs i)"

text \<open>A prompt marker (U+203A or U+00BB) with nothing, white space or a braille pattern after it.\<close>

definition isPromptLine :: "string \<Rightarrow> bool" where
  "isPromptLine raw \<longleftrightarrow>
     (let line = TrimSpace raw; (marker, size) = DecodeRuneInString line;
          rest = drop size line; separator = fst (DecodeRuneInString rest)
      in (marker = 0x203A \<or> marker = 0xBB) \<and>
         (rest = [] \<or> IsSpace separator \<or> (0x2800 \<le> separator \<and> separator \<le> 0x28FF)))"

definition lastPromptLine :: "string list \<Rightarrow> nat option" where
  "lastPromptLine lines = scanDown isPromptLine lines (length lines)"

definition currentPromptLine :: "string list \<Rightarrow> nat option" where
  "currentPromptLine lines =
     (case lastPromptLine lines of
        None \<Rightarrow> None
      | Some index \<Rightarrow>
          if list_ex (\<lambda>line. fst (DecodeRuneInString (TrimSpace line)) \<in>
               {0x2022, 0x25E6, 0x25A0, 0x2717, 0x2713, 0x2500}) (drop (Suc index) lines)
          then None else Some index)"

text \<open>The loop of \<open>bottomNonEmptyLines\<close>: \<open>i\<close> lines are left to visit.\<close>

fun bottomStart :: "string list \<Rightarrow> nat \<Rightarrow> int \<Rightarrow> nat option" where
  "bottomStart lines 0 remaining = None"
| "bottomStart lines (Suc i) remaining =
     (if TrimSpace (lines ! i) = [] then bottomStart lines i remaining
      else if remaining - 1 = 0 then Some i
      else bottomStart lines i (remaining - 1))"

definition bottomNonEmptyLines :: "string \<Rightarrow> int \<Rightarrow> string" where
  "bottomNonEmptyLines screen n =
     (if n \<le> 0 then []
      else let lines = SplitByte NL screen
           in case bottomStart lines (length lines) n of
                Some start \<Rightarrow> Join (drop start lines) [NL]
              | None \<Rightarrow> screen)"

definition rule_runes :: "rune set" where
  "rule_runes = {0x2500, 0x2501, 0x2D, 0x3D, 0x256D, 0x256E, 0x2570, 0x256F, 0x251C, 0x2524, 0x252C, 0x2534,
     0x253C, 0x250C, 0x2510, 0x2514, 0x2518}"

definition isHorizontalRule :: "string \<Rightarrow> bool" where
  "isHorizontalRule raw \<longleftrightarrow>
     (let rs = runes (TrimSpace raw) in rs \<noteq> [] \<and> list_all (\<lambda>r. r \<in> rule_runes) rs \<and>
        3 \<le> length (filter (\<lambda>r. r \<in> {0x2500, 0x2501, 0x2D, 0x3D}) rs))"

text \<open>The corner U+256D, as the source writes it.\<close>

definition boxCorner :: string where
  "boxCorner = [CHR 0xE2, CHR 0x95, CHR 0xAD]"

fun scanUp :: "('a \<Rightarrow> bool) \<Rightarrow> 'a list \<Rightarrow> nat option" where
  "scanUp P [] = None"
| "scanUp P (x # xs) = (if P x then Some 0 else map_option Suc (scanUp P xs))"

definition promptBoxBody :: "string \<Rightarrow> string" where
  "promptBoxBody screen =
     (let lines = SplitByte NL screen
      in case scanDown (\<lambda>l. Contains l boxCorner \<and> isHorizontalRule l) lines (length lines) of
           None \<Rightarrow> screen
         | Some upper \<Rightarrow>
             (let body = drop (Suc upper) lines
              in case scanUp isHorizontalRule body of
                   Some lower \<Rightarrow> Join (take lower body) [NL]
                 | None \<Rightarrow> Join body [NL]))"

definition afterLastHorizontalRule :: "string \<Rightarrow> string" where
  "afterLastHorizontalRule screen =
     (let lines = SplitByte NL screen
      in case scanDown isHorizontalRule lines (length lines) of
           Some i \<Rightarrow> Join (drop (Suc i) lines) [NL]
         | None \<Rightarrow> screen)"

definition selectRegion :: "Region \<Rightarrow> DetectionInput \<Rightarrow> string" where
  "selectRegion region inp =
     (let ty = rg_Type region; screen = di_Screen inp; lines = SplitByte NL screen in
      if ty = RegionWholeRecent then screen
      else if ty = RegionBottomNonEmptyLines then bottomNonEmptyLines screen (rg_Lines region)
      else if ty = RegionAfterLastPromptMarker then
        (case lastPromptLine lines of Some index \<Rightarrow> Join (drop (Suc index) lines) [NL] | None \<Rightarrow> screen)
      else if ty = RegionBeforeCurrentPromptMarker then
        (case currentPromptLine lines of Some index \<Rightarrow> Join (take index lines) [NL] | None \<Rightarrow> screen)
      else if ty = RegionCurrentPromptMarker then
        (case currentPromptLine lines of Some index \<Rightarrow> lines ! index | None \<Rightarrow> [])
      else if ty = RegionPromptBoxBody then promptBoxBody screen
      else if ty = RegionAfterLastHorizontalRule then afterLastHorizontalRule screen
      else if ty = RegionOSCTitle then di_OSCTitle inp
      else if ty = RegionOSCProgress then di_OSCProgress inp
      else [])"

datatype manifest_error =
    DecodeYAML string | MultipleDocuments | BadVersion int | BadAgent string | NoRules | EmptyRuleID nat | EmptyState nat
  | UnknownState nat string | BadLines nat | UnknownRegion nat string | BadMatcher nat matcher_error
  | DuplicateRule string | ReadError string | AgentMismatch Kind | UnsupportedKind Kind

record regionYAML =
  ry_Type :: string
  ry_Lines :: int

record ruleYAML =
  uy_ID :: string
  uy_Priority :: int
  uy_State :: string
  uy_Region :: regionYAML
  uy_Match :: matcherYAML
  uy_VisibleIdle :: bool
  uy_VisibleWorking :: bool
  uy_VisibleBlocker :: bool
  uy_SkipStateUpdate :: bool

record manifestYAML =
  fy_Version :: int
  fy_Agent :: string
  fy_PreserveStateOnNoMatch :: bool
  fy_Rules :: "ruleYAML list"

record Rule =
  u_ID :: string
  u_Priority :: int
  u_State :: State
  u_Region :: Region
  u_Matcher :: Matcher
  u_VisibleIdle :: bool
  u_VisibleWorking :: bool
  u_VisibleBlocker :: bool
  u_SkipStateUpdate :: bool
  u_Order :: nat

record Manifest =
  f_Version :: int
  f_Agent :: Kind
  f_PreserveStateOnNoMatch :: bool
  f_Rules :: "Rule list"

definition convertRegion :: "nat \<Rightarrow> regionYAML \<Rightarrow> manifest_error + Region" where
  "convertRegion order raw =
     (let region = \<lparr>rg_Type = TrimSpace (ry_Type raw), rg_Lines = ry_Lines raw\<rparr> in
      if rg_Type region \<in> {RegionWholeRecent, RegionAfterLastPromptMarker, RegionBeforeCurrentPromptMarker,
           RegionCurrentPromptMarker, RegionPromptBoxBody, RegionAfterLastHorizontalRule, RegionOSCTitle,
           RegionOSCProgress}
      then Inr region
      else if rg_Type region = RegionBottomNonEmptyLines
        then (if rg_Lines region \<le> 0 then Inl (BadLines order) else Inr region)
      else Inl (UnknownRegion order (rg_Type region)))"

definition convertRule :: "TextLib \<Rightarrow> ruleYAML \<Rightarrow> nat \<Rightarrow> manifest_error + Rule" where
  "convertRule lib raw order =
     (let i = TrimSpace (uy_ID raw); state = TrimSpace (uy_State raw) in
      if i = [] then Inl (EmptyRuleID order)
      else if state = [] \<and> \<not> uy_SkipStateUpdate raw then Inl (EmptyState order)
      else if state \<noteq> [] \<and> \<not> validState state then Inl (UnknownState order state)
      else case convertRegion order (uy_Region raw) of
        Inl e \<Rightarrow> Inl e
      | Inr region \<Rightarrow>
          (case compileMatcher lib (uy_Match raw) of
             Inl e \<Rightarrow> Inl (BadMatcher order e)
           | Inr matcher \<Rightarrow> Inr \<lparr>u_ID = i, u_Priority = uy_Priority raw, u_State = state, u_Region = region,
               u_Matcher = matcher, u_VisibleIdle = uy_VisibleIdle raw, u_VisibleWorking = uy_VisibleWorking raw,
               u_VisibleBlocker = uy_VisibleBlocker raw, u_SkipStateUpdate = uy_SkipStateUpdate raw, u_Order = order\<rparr>))"

text \<open>The loop over the raw rules: the next index, the identifiers seen, the rules so far.\<close>

fun convertRules :: "TextLib \<Rightarrow> nat \<Rightarrow> string list \<Rightarrow> ruleYAML list \<Rightarrow> manifest_error + Rule list" where
  "convertRules lib order seen [] = Inr []"
| "convertRules lib order seen (raw # raws) =
     (case convertRule lib raw order of
        Inl e \<Rightarrow> Inl e
      | Inr rule \<Rightarrow>
          if u_ID rule \<in> set seen then Inl (DuplicateRule (u_ID rule))
          else map_sum (\<lambda>e. e) (\<lambda>rules. rule # rules) (convertRules lib (Suc order) (u_ID rule # seen) raws))"

text \<open>
  The decoder reads the first document of the source and what comes after it: \<open>None\<close> the end of
  the input, \<open>Some None\<close> another document, \<open>Some (Some e)\<close> an error.
\<close>

type_synonym yaml_decoder = "string \<Rightarrow> string + manifestYAML \<times> string option option"

definition LoadManifest :: "TextLib \<Rightarrow> yaml_decoder \<Rightarrow> string \<Rightarrow> manifest_error + Manifest" where
  "LoadManifest lib decode source =
     (case decode source of
        Inl e \<Rightarrow> Inl (DecodeYAML e)
      | Inr (raw, extra) \<Rightarrow>
          (case extra of
             Some None \<Rightarrow> Inl MultipleDocuments
           | Some (Some e) \<Rightarrow> Inl (DecodeYAML e)
           | None \<Rightarrow>
               if fy_Version raw \<noteq> 1 then Inl (BadVersion (fy_Version raw))
               else (case ParseKind (TrimSpace (fy_Agent raw)) of
                   None \<Rightarrow> Inl (BadAgent (fy_Agent raw))
                 | Some agent \<Rightarrow>
                     if length (fy_Rules raw) = 0 then Inl NoRules
                     else map_sum (\<lambda>e. e) (\<lambda>rules. \<lparr>f_Version = fy_Version raw, f_Agent = agent,
                        f_PreserveStateOnNoMatch = fy_PreserveStateOnNoMatch raw, f_Rules = rules\<rparr>)
                       (convertRules lib 0 [] (fy_Rules raw)))))"

section \<open>The detector\<close>

record Detection =
  d_State :: State
  d_RuleID :: string
  d_Reason :: string
  d_VisibleIdle :: bool
  d_VisibleWorking :: bool
  d_VisibleBlocker :: bool
  d_SkipStateUpdate :: bool
  d_Fallback :: bool

record Detector =
  dt_rules :: "(Kind, Rule list) gomap"
  dt_preserve :: "(Kind, bool) gomap"

definition sortRules :: "Rule list \<Rightarrow> Rule list" where
  "sortRules rules = sort_key (\<lambda>r. (- u_Priority r, u_Order r)) rules"

fun NewDetector_loop :: "(Kind \<times> Manifest) list \<Rightarrow> Detector \<Rightarrow> manifest_error + Detector" where
  "NewDetector_loop [] d = Inr d"
| "NewDetector_loop ((kind, f) # fs) d =
     (if kind \<noteq> f_Agent f then Inl (AgentMismatch kind)
      else if LookupProfile kind = None then Inl (UnsupportedKind kind)
      else NewDetector_loop fs (d\<lparr>dt_rules := mput (dt_rules d) kind (sortRules (f_Rules f)),
             dt_preserve := mput (dt_preserve d) kind (f_PreserveStateOnNoMatch f)\<rparr>))"

definition NewDetector :: "(Kind, Manifest) gomap \<Rightarrow> manifest_error + Detector" where
  "NewDetector manifests = NewDetector_loop manifests \<lparr>dt_rules = [], dt_preserve = []\<rparr>"

datatype detect_error = NilDetector | NoManifest Kind

definition ruleMatches :: "TextLib \<Rightarrow> DetectionInput \<Rightarrow> Rule \<Rightarrow> bool" where
  "ruleMatches lib inp r \<longleftrightarrow> matches lib (u_Matcher r) (selectRegion (u_Region r) inp)"

definition ruleDetection :: "Rule \<Rightarrow> Detection" where
  "ruleDetection r = \<lparr>d_State = (if u_SkipStateUpdate r then [] else u_State r), d_RuleID = u_ID r,
     d_Reason = ''matched_manifest_rule'', d_VisibleIdle = u_VisibleIdle r, d_VisibleWorking = u_VisibleWorking r,
     d_VisibleBlocker = u_VisibleBlocker r, d_SkipStateUpdate = u_SkipStateUpdate r, d_Fallback = False\<rparr>"

definition fallbackDetection :: "bool \<Rightarrow> Detection" where
  "fallbackDetection preserve =
     (if preserve
      then \<lparr>d_State = [], d_RuleID = [], d_Reason = ''default_known_agent_preserve_state_fallback'', d_VisibleIdle = False,
            d_VisibleWorking = False, d_VisibleBlocker = False, d_SkipStateUpdate = True, d_Fallback = True\<rparr>
      else \<lparr>d_State = StateIdle, d_RuleID = [], d_Reason = ''default_known_agent_idle_fallback'', d_VisibleIdle = False,
            d_VisibleWorking = False, d_VisibleBlocker = False, d_SkipStateUpdate = False, d_Fallback = True\<rparr>)"

fun detectRules :: "TextLib \<Rightarrow> DetectionInput \<Rightarrow> Rule list \<Rightarrow> Detection option" where
  "detectRules lib inp [] = None"
| "detectRules lib inp (r # rs) =
     (if \<not> ruleMatches lib inp r then detectRules lib inp rs else Some (ruleDetection r))"

definition Detect :: "TextLib \<Rightarrow> Detector option \<Rightarrow> Kind \<Rightarrow> DetectionInput \<Rightarrow> detect_error + Detection" where
  "Detect lib det kind inp =
     (case det of
        None \<Rightarrow> Inl NilDetector
      | Some d \<Rightarrow>
          (case mget (dt_rules d) kind of
             None \<Rightarrow> Inl (NoManifest kind)
           | Some rules \<Rightarrow>
               Inr (case detectRules lib inp rules of
                  Some x \<Rightarrow> x
                | None \<Rightarrow> fallbackDetection (mget (dt_preserve d) kind = Some True))))"

text \<open>A missing kind reads as an empty slice of rules.\<close>

definition activePaneTitle :: "TextLib \<Rightarrow> Detector option \<Rightarrow> Kind \<Rightarrow> string \<Rightarrow> string" where
  "activePaneTitle lib det kind title =
     (case det of
        None \<Rightarrow> []
      | Some d \<Rightarrow>
          if list_ex (\<lambda>r. rg_Type (u_Region r) = RegionOSCTitle \<and> \<not> u_SkipStateUpdate r \<and>
               (u_State r = StateWorking \<or> u_State r = StateBlocked) \<and> matches lib (u_Matcher r) title)
             (slice (mget (dt_rules d) kind))
          then title else [])"

section \<open>Explaining\<close>

record RuleEvaluation =
  re_ID :: string
  re_Priority :: int
  re_Region :: Region
  re_Matched :: bool
  re_Evidence :: string
  re_Truncated :: bool

record DetectionExplanation =
  de_Detection :: Detection
  de_Rules :: "RuleEvaluation list"

definition detectionEvidence :: "string \<Rightarrow> string \<times> bool" where
  "detectionEvidence region =
     (let rs = runes region
      in if length rs \<le> 1200 then (region, False)
         else (string_of_runes (drop (length rs - 1200) rs), True))"

definition evaluateRule :: "TextLib \<Rightarrow> DetectionInput \<Rightarrow> Rule \<Rightarrow> RuleEvaluation" where
  "evaluateRule lib inp r =
     (let region = selectRegion (u_Region r) inp; (evidence, truncated) = detectionEvidence region
      in \<lparr>re_ID = u_ID r, re_Priority = u_Priority r, re_Region = u_Region r,
          re_Matched = matches lib (u_Matcher r) region, re_Evidence = evidence, re_Truncated = truncated\<rparr>)"

definition ExplainDetection ::
  "TextLib \<Rightarrow> Detector option \<Rightarrow> Kind \<Rightarrow> DetectionInput \<Rightarrow> detect_error + DetectionExplanation" where
  "ExplainDetection lib det kind inp =
     (case Detect lib det kind inp of
        Inl e \<Rightarrow> Inl e
      | Inr detection \<Rightarrow> Inr \<lparr>de_Detection = detection,
          de_Rules = map (evaluateRule lib inp) (case det of None \<Rightarrow> [] | Some d \<Rightarrow> slice (mget (dt_rules d) kind))\<rparr>)"

section \<open>The embedded detector\<close>

definition embeddedManifestFiles :: "string list" where
  "embeddedManifestFiles = [''codex.yaml'', ''claude.yaml'', ''gemini.yaml'', ''cursor.yaml'']"

definition manifestKind :: "string \<Rightarrow> Kind option" where
  "manifestKind filename = map_option fst (find (\<lambda>(_, p). pr_Manifest p = filename) profiles)"

text \<open>The loop over the files: \<open>read\<close> gives a file's contents or an error.\<close>

fun loadFiles :: "TextLib \<Rightarrow> yaml_decoder \<Rightarrow> (string \<Rightarrow> string + string) \<Rightarrow> string list \<Rightarrow>
    (Kind, Manifest) gomap \<times> (Kind, manifest_error) gomap \<Rightarrow> (Kind, Manifest) gomap \<times> (Kind, manifest_error) gomap" where
  "loadFiles lib decode read [] acc = acc"
| "loadFiles lib decode read (filename # fs) (manifests, errs) =
     (case manifestKind filename of
        None \<Rightarrow> loadFiles lib decode read fs (manifests, errs)
      | Some kind \<Rightarrow>
          (case read (''manifests/'' @ filename) of
             Inl e \<Rightarrow> loadFiles lib decode read fs (manifests, mput errs kind (ReadError e))
           | Inr contents \<Rightarrow>
               (case LoadManifest lib decode contents of
                  Inl e \<Rightarrow> loadFiles lib decode read fs (manifests, mput errs kind e)
                | Inr f \<Rightarrow>
                    if f_Agent f \<noteq> kind then loadFiles lib decode read fs (manifests, mput errs kind (AgentMismatch kind))
                    else loadFiles lib decode read fs (mput manifests kind f, errs))))"

text \<open>\<open>None\<close> is the panic.\<close>

definition loadEmbeddedDetector ::
  "TextLib \<Rightarrow> yaml_decoder \<Rightarrow> (string \<Rightarrow> string + string) \<Rightarrow> (Detector \<times> (Kind, manifest_error) gomap) option" where
  "loadEmbeddedDetector lib decode read =
     (let (manifests, errs) = loadFiles lib decode read embeddedManifestFiles ([], [])
      in case NewDetector manifests of Inl _ \<Rightarrow> None | Inr d \<Rightarrow> Some (d, errs))"

section \<open>Lemmas on matchers\<close>

text \<open>
  What a matcher of a manifest has to be, and what it says of a region: the reference for the
  compiler and for \<open>matches\<close>.
\<close>

definition fields_present :: "matcherYAML \<Rightarrow> nat" where
  "fields_present y = length (filter snd (candidates y))"

definition good_values :: "string list \<Rightarrow> bool" where
  "good_values vs \<longleftrightarrow> vs \<noteq> [] \<and> [] \<notin> set vs"

function wellformed :: "TextLib \<Rightarrow> matcherYAML \<Rightarrow> bool" where
  "wellformed lib (MatcherYAML cont reg line al an no) \<longleftrightarrow>
     fields_present (MatcherYAML cont reg line al an no) = 1 \<and>
     (\<forall>vs \<in> set_option cont. good_values vs) \<and>
     (\<forall>es \<in> set_option reg \<union> set_option line. good_values es \<and> (\<forall>e \<in> set es. tl_Compile lib e = None)) \<and>
     (\<forall>cs \<in> set_option al \<union> set_option an \<union> set_option no. cs \<noteq> [] \<and> (\<forall>c \<in> set cs. wellformed lib c))"
  by pat_completeness auto

function holds :: "TextLib \<Rightarrow> matcherYAML \<Rightarrow> string \<Rightarrow> bool" where
  "holds lib (MatcherYAML cont reg line al an no) region \<longleftrightarrow>
     (\<forall>vs \<in> set_option cont. \<forall>v \<in> set vs. Contains (tl_ToLower lib region) (tl_ToLower lib v)) \<and>
     (\<forall>es \<in> set_option reg. \<forall>e \<in> set es. tl_MatchString lib e region) \<and>
     (\<forall>es \<in> set_option line. \<forall>e \<in> set es. \<exists>l \<in> set (SplitByte NL region). tl_MatchString lib e l) \<and>
     (\<forall>cs \<in> set_option al. \<forall>c \<in> set cs. holds lib c region) \<and>
     (\<forall>cs \<in> set_option an. \<exists>c \<in> set cs. holds lib c region) \<and>
     (\<forall>cs \<in> set_option no. \<forall>c \<in> set cs. \<not> holds lib c region)"
  by pat_completeness auto

lemma child_smaller: "c \<in> set cs \<Longrightarrow> size c \<le> size_list size cs"
  by (simp add: size_list_estimation')

termination wellformed
  by (relation "measure (\<lambda>(_, y). size y)") (auto dest!: child_smaller)

termination holds
  by (relation "measure (\<lambda>(_, y, _). size y)") (auto dest!: child_smaller)

lemma selectOperator_Inl: "selectOperator y = Inl e \<Longrightarrow> fields_present y \<noteq> 1"
  by (cases y; rename_tac c r l a n o'; case_tac c; case_tac r; case_tac l; case_tac a; case_tac n; case_tac o')
    (simp_all add: selectOperator_def candidates_def fields_present_def)

text \<open>The selected operator is the one field that is present.\<close>

lemma selectOperator_Inr:
  assumes "selectOperator (MatcherYAML c r l a n no) = Inr op"
  shows "fields_present (MatcherYAML c r l a n no) = 1 \<and>
    (case op of
       matcherContains \<Rightarrow> c \<noteq> None \<and> r = None \<and> l = None \<and> a = None \<and> n = None \<and> no = None
     | matcherRegex \<Rightarrow> c = None \<and> r \<noteq> None \<and> l = None \<and> a = None \<and> n = None \<and> no = None
     | matcherLineRegex \<Rightarrow> c = None \<and> r = None \<and> l \<noteq> None \<and> a = None \<and> n = None \<and> no = None
     | matcherAll \<Rightarrow> c = None \<and> r = None \<and> l = None \<and> a \<noteq> None \<and> n = None \<and> no = None
     | matcherAny \<Rightarrow> c = None \<and> r = None \<and> l = None \<and> a = None \<and> n \<noteq> None \<and> no = None
     | matcherNot \<Rightarrow> c = None \<and> r = None \<and> l = None \<and> a = None \<and> n = None \<and> no \<noteq> None
     | matcherNone \<Rightarrow> False)"
  using assms by (cases c; cases r; cases l; cases a; cases n; cases no)
    (auto simp: selectOperator_def candidates_def fields_present_def)

lemma requireMatcherValues_None: "requireMatcherValues name vs = None \<longleftrightarrow> good_values vs"
  by (auto simp: requireMatcherValues_def good_values_def list_ex_iff)

lemma compileEach_sound: "case compileEach lib es of
    Inl _ \<Rightarrow> \<exists>e \<in> set es. tl_Compile lib e \<noteq> None | Inr res \<Rightarrow> res = es \<and> (\<forall>e \<in> set es. tl_Compile lib e = None)"
  by (induction es) (auto split: option.splits sum.splits)

lemma compileRegexps_sound: "case compileRegexps lib name es of
    Inl _ \<Rightarrow> \<not> (good_values es \<and> (\<forall>e \<in> set es. tl_Compile lib e = None))
  | Inr res \<Rightarrow> res = es \<and> good_values es \<and> (\<forall>e \<in> set es. tl_Compile lib e = None)"
  using compileEach_sound [where lib = lib and es = es] requireMatcherValues_None [of name es]
  by (auto simp: compileRegexps_def split: option.splits sum.splits)

text \<open>A compiled list of matchers, child by child.\<close>

definition compiled_ok :: "TextLib \<Rightarrow> matcherYAML \<Rightarrow> matcher_error + Matcher \<Rightarrow> bool" where
  "compiled_ok lib y res \<longleftrightarrow>
     (case res of Inl _ \<Rightarrow> \<not> wellformed lib y
      | Inr m \<Rightarrow> wellformed lib y \<and> (\<forall>region. matches lib m region \<longleftrightarrow> holds lib y region))"

definition children_ok :: "TextLib \<Rightarrow> matcherYAML list \<Rightarrow> matcher_error + Matcher list \<Rightarrow> bool" where
  "children_ok lib ys res \<longleftrightarrow>
     (case res of Inl _ \<Rightarrow> \<exists>y \<in> set ys. \<not> wellformed lib y
      | Inr ms \<Rightarrow> (\<forall>y \<in> set ys. wellformed lib y) \<and>
          list_all2 (\<lambda>m y. \<forall>region. matches lib m region \<longleftrightarrow> holds lib y region) ms ys)"

lemma list_all2_ball:
  assumes "list_all2 (\<lambda>m y. \<forall>r. P m r \<longleftrightarrow> Q y r) ms ys"
  shows "list_all (\<lambda>m. P m r) ms \<longleftrightarrow> (\<forall>y \<in> set ys. Q y r)" "list_ex (\<lambda>m. P m r) ms \<longleftrightarrow> (\<exists>y \<in> set ys. Q y r)"
    "list_all (\<lambda>m. \<not> P m r) ms \<longleftrightarrow> (\<forall>y \<in> set ys. \<not> Q y r)"
  using assms by (induction rule: list_all2_induct) auto

lemma children_okD:
  assumes "children_ok lib ys res"
  shows "res = Inl e \<Longrightarrow> \<exists>y \<in> set ys. \<not> wellformed lib y"
    "res = Inr ms \<Longrightarrow> (\<forall>y \<in> set ys. wellformed lib y) \<and>
       (\<forall>region. (list_all (\<lambda>m. matches lib m region) ms \<longleftrightarrow> (\<forall>y \<in> set ys. holds lib y region)) \<and>
          (list_ex (\<lambda>m. matches lib m region) ms \<longleftrightarrow> (\<exists>y \<in> set ys. holds lib y region)) \<and>
          (list_all (\<lambda>m. \<not> matches lib m region) ms \<longleftrightarrow> (\<forall>y \<in> set ys. \<not> holds lib y region)))"
  using assms by (simp_all add: children_ok_def list_all2_ball)

lemma compile_correct:
  "compiled_ok lib y (compileMatcher lib y)"
  "(case compileChildren lib name ys of Inl _ \<Rightarrow> ys = [] | Inr _ \<Rightarrow> False) \<or> ys \<noteq> [] \<and> children_ok lib ys (compileChildren lib name ys)"
  "children_ok lib ys (compileEachChild lib name index ys)"
proof (induction lib y and lib name ys and lib name index ys
    rule: compileMatcher_compileChildren_compileEachChild.induct)
  case (1 lib c r l a n no)
  let ?y = "MatcherYAML c r l a n no"
  show ?case
  proof (cases "selectOperator ?y")
    case (Inl e)
    then show ?thesis using selectOperator_Inl [OF Inl] by (simp add: compiled_ok_def)
  next
    case (Inr op)
    note sel = selectOperator_Inr [OF Inr]
    show ?thesis
    proof (cases op)
      case matcherNone
      then show ?thesis using sel by simp
    next
      case matcherContains
      then obtain vs where "c = Some vs" using sel by auto
      then show ?thesis using sel matcherContains Inr requireMatcherValues_None [of "''contains''" vs]
        by (auto simp: compiled_ok_def list_all_iff split: option.splits)
    next
      case matcherRegex
      then obtain es where "r = Some es" using sel by auto
      then show ?thesis using sel matcherRegex Inr compileRegexps_sound [where lib = lib and name = "''regex''" and es = es]
        by (cases "compileRegexps lib ''regex'' es") (auto simp: compiled_ok_def list_all_iff)
    next
      case matcherLineRegex
      then obtain es where "l = Some es" using sel by auto
      then show ?thesis using sel matcherLineRegex Inr compileRegexps_sound [where lib = lib and name = "''line_regex''" and es = es]
        by (cases "compileRegexps lib ''line_regex'' es") (auto simp: compiled_ok_def list_all_iff list_ex_iff)
    next
      case matcherAll
      then obtain cs where cs: "a = Some cs" using sel by auto
      note IH = "1.IH"(1) [OF Inr matcherAll]
      show ?thesis using sel matcherAll Inr cs IH children_okD [of lib cs "compileChildren lib ''all'' cs"]
        by (cases "compileChildren lib ''all'' cs") (auto simp: compiled_ok_def)
    next
      case matcherAny
      then obtain cs where cs: "n = Some cs" using sel by auto
      note IH = "1.IH"(2) [OF Inr matcherAny]
      show ?thesis using sel matcherAny Inr cs IH children_okD [of lib cs "compileChildren lib ''any'' cs"]
        by (cases "compileChildren lib ''any'' cs") (auto simp: compiled_ok_def)
    next
      case matcherNot
      then obtain cs where cs: "no = Some cs" using sel by auto
      note IH = "1.IH"(3) [OF Inr matcherNot]
      show ?thesis using sel matcherNot Inr cs IH children_okD [of lib cs "compileChildren lib ''not'' cs"]
        by (cases "compileChildren lib ''not'' cs") (auto simp: compiled_ok_def)
    qed
  qed
next
  case (2 lib name raw)
  then show ?case by (cases "raw = []") auto
next
  case (3 lib name index)
  then show ?case by (simp add: children_ok_def)
next
  case (4 lib name index c cs)
  then show ?case by (auto simp: children_ok_def compiled_ok_def split: sum.splits)
qed

section \<open>Lemmas on regions\<close>

lemma scanDown_None: "n \<le> length xs \<Longrightarrow> scanDown P xs n = None \<longleftrightarrow> (\<forall>x \<in> set (take n xs). \<not> P x)"
  by (induction n) (auto simp: take_Suc_conv_app_nth)

lemma scanDown_Some: "scanDown P xs n = Some i \<Longrightarrow> i < n \<and> P (xs ! i) \<and> (\<forall>j. i < j \<and> j < n \<longrightarrow> \<not> P (xs ! j))"
  by (induction n) (auto simp: less_Suc_eq split: if_splits)

abbreviation blank :: "string \<Rightarrow> bool" where
  "blank l \<equiv> TrimSpace l = []"

lemma bottomStart_spec:
  "0 < k \<Longrightarrow> n \<le> length ls \<Longrightarrow>
   (case bottomStart ls n k of
      None \<Rightarrow> length (filter (\<lambda>l. \<not> blank l) (take n ls)) < nat k
    | Some i \<Rightarrow> i < n \<and> \<not> blank (ls ! i) \<and> length (filter (\<lambda>l. \<not> blank l) (drop i (take n ls))) = nat k)"
proof (induction n arbitrary: k)
  case (Suc n)
  have t: "take (Suc n) ls = take n ls @ [ls ! n]" using Suc.prems(2) by (simp add: take_Suc_conv_app_nth)
  have d: "drop i (take (Suc n) ls) = drop i (take n ls) @ [ls ! n]" if "i < n" for i
    using that Suc.prems(2) unfolding t by simp
  have d0: "drop n (take (Suc n) ls) = [ls ! n]" using Suc.prems(2) unfolding t by simp
  consider (blank) "blank (ls ! n)" | (last) "\<not> blank (ls ! n)" "k = 1" | (more) "\<not> blank (ls ! n)" "1 < k"
    using Suc.prems(1) by linarith
  then show ?case
  proof cases
    case blank
    then show ?thesis using Suc.IH [of k] Suc.prems d by (auto simp: t split: option.splits)
  next
    case last
    then show ?thesis using d0 by simp
  next
    case more
    then show ?thesis using Suc.IH [of "k - 1"] Suc.prems d by (auto simp: t split: option.splits)
  qed
qed simp

text \<open>A text made of consecutive complete lines of the screen.\<close>

definition line_block :: "string \<Rightarrow> string \<Rightarrow> bool" where
  "line_block screen text \<longleftrightarrow> (\<exists>before block after. SplitByte NL screen = before @ block @ after \<and> text = Join block [NL])"

lemma line_blockI: "SplitByte NL screen = before @ block @ after \<Longrightarrow> line_block screen (Join block [NL])"
  unfolding line_block_def by blast

lemma line_block_drop: "line_block screen (Join (drop i (SplitByte NL screen)) [NL])"
  by (rule line_blockI [of _ "take i (SplitByte NL screen)" _ "[]"]) simp

lemma line_block_take: "line_block screen (Join (take i (SplitByte NL screen)) [NL])"
  by (rule line_blockI [of _ "[]" _ "drop i (SplitByte NL screen)"]) simp

lemma line_block_middle: "line_block screen (Join (take j (drop i (SplitByte NL screen))) [NL])"
  by (rule line_blockI [of _ "take i (SplitByte NL screen)" _ "drop j (drop i (SplitByte NL screen))"])
    (simp only: append_take_drop_id)

lemma line_block_self: "line_block screen screen"
  using line_block_drop [of screen 0] by simp

lemma line_block_nth: "i < length (SplitByte NL screen) \<Longrightarrow> line_block screen (SplitByte NL screen ! i)"
  using line_block_middle [of screen 1 i] by (simp add: take_Suc_conv_app_nth hd_drop_conv_nth take_Suc)

lemma line_block_Nil: "line_block screen []"
  using line_block_take [of screen 0] by simp

lemmas line_blocks = line_block_drop line_block_take line_block_middle line_block_self line_block_Nil

lemma currentPromptLine_bound: "currentPromptLine ls = Some i \<Longrightarrow> i < length ls"
  by (auto simp: currentPromptLine_def lastPromptLine_def dest: scanDown_Some split: option.splits if_splits)

lemma region_line_block:
  assumes "rg_Type rg \<noteq> RegionOSCTitle" "rg_Type rg \<noteq> RegionOSCProgress"
  shows "line_block (di_Screen inp) (selectRegion rg inp)"
proof -
  have b: "line_block s (bottomNonEmptyLines s n)" for s n
    by (simp add: bottomNonEmptyLines_def Let_def line_blocks split: option.split)
  have p: "line_block s (promptBoxBody s)" for s
    by (simp add: promptBoxBody_def Let_def line_blocks split: option.split)
  have r: "line_block s (afterLastHorizontalRule s)" for s
    by (simp add: afterLastHorizontalRule_def Let_def line_blocks split: option.split)
  show ?thesis unfolding selectRegion_def Let_def using assms
    by (auto simp: line_blocks b p r split: option.split intro!: line_block_nth dest: currentPromptLine_bound)
qed

section \<open>Lemmas on the detector\<close>

lemma detectRules_None: "detectRules lib inp rs = None \<longleftrightarrow> (\<forall>r \<in> set rs. \<not> ruleMatches lib inp r)"
  by (induction rs) auto

lemma detectRules_Some:
  "detectRules lib inp rs = Some x \<Longrightarrow> \<exists>before r after. rs = before @ r # after \<and> ruleMatches lib inp r \<and>
     x = ruleDetection r \<and> (\<forall>r' \<in> set before. \<not> ruleMatches lib inp r')"
proof (induction rs)
  case (Cons r rs)
  show ?case
  proof (cases "ruleMatches lib inp r")
    case True
    then show ?thesis using Cons.prems by (intro exI [of _ "[]"] exI [of _ r] exI [of _ rs]) simp
  next
    case False
    then obtain before r1 after where "rs = before @ r1 # after" "ruleMatches lib inp r1" "x = ruleDetection r1"
      "\<forall>r' \<in> set before. \<not> ruleMatches lib inp r'" using Cons by auto
    then show ?thesis using False by (intro exI [of _ "r # before"] exI [of _ r1] exI [of _ after]) simp
  qed
qed simp

lemma NewDetector_rules:
  "NewDetector_loop fs d = Inr d' \<Longrightarrow> mapok fs \<Longrightarrow>
     mget (dt_rules d') k = (case mget fs k of None \<Rightarrow> mget (dt_rules d) k | Some f \<Rightarrow> Some (sortRules (f_Rules f))) \<and>
     mget (dt_preserve d') k = (case mget fs k of None \<Rightarrow> mget (dt_preserve d) k | Some f \<Rightarrow> Some (f_PreserveStateOnNoMatch f))"
proof (induction fs d rule: NewDetector_loop.induct)
  case (2 kind f fs d)
  have "mget fs kind = None" using "2.prems"(2) by (simp add: map_of_eq_None_iff)
  then show ?case using 2 by (auto split: if_splits option.splits)
qed simp

lemma NewDetector_total:
  "\<forall>(k, f) \<in> set fs. f_Agent f = k \<and> LookupProfile k \<noteq> None \<Longrightarrow> \<exists>d'. NewDetector_loop fs d = Inr d'"
  by (induction fs d rule: NewDetector_loop.induct) auto

lemma set_sortRules [simp]: "set (sortRules rs) = set rs"
  by (simp add: sortRules_def)

lemma sortRules_before:
  assumes "sortRules rs = before @ r # after" "r' \<in> set after \<or> r' = r"
  shows "u_Priority r' < u_Priority r \<or> (u_Priority r' = u_Priority r \<and> u_Order r \<le> u_Order r')"
proof -
  have "sorted (map (\<lambda>r. (- u_Priority r, u_Order r)) (before @ r # after))"
    using assms(1) by (metis sortRules_def sorted_sort_key)
  then have "(- u_Priority r, u_Order r) \<le> (- u_Priority r', u_Order r')" if "r' \<in> set after"
    using that by (auto simp: sorted_append)
  then show ?thesis using assms(2) by (auto simp: less_eq_prod_def less_prod_def)
qed

lemma map_sum_Inr [simp]: "map_sum f g x = Inr y \<longleftrightarrow> (\<exists>z. x = Inr z \<and> y = g z)"
  by (cases x) auto

lemma LoadManifest_agent: "LoadManifest lib decode src = Inr f \<Longrightarrow> LookupProfile (f_Agent f) \<noteq> None"
  by (auto simp: LoadManifest_def ParseKind_def LookupProfile_def split: sum.splits option.splits if_splits prod.splits)

text \<open>What the loop of \<open>loadFiles\<close> keeps: its manifests are filed under their own kind.\<close>

definition files_ok :: "TextLib \<Rightarrow> (Kind, Manifest) gomap \<Rightarrow> bool" where
  "files_ok lib fs \<longleftrightarrow> mapok fs \<and>
     (\<forall>k f. mget fs k = Some f \<longrightarrow> f_Agent f = k \<and> LookupProfile k \<noteq> None \<and>
        (\<exists>src decode. LoadManifest lib decode src = Inr f))"

lemma loadFiles_ok:
  "files_ok lib (fst acc) \<Longrightarrow> files_ok lib (fst (loadFiles lib decode read names acc))"
proof (induction lib decode read names acc rule: loadFiles.induct)
  case (2 lib decode read filename fs manifests errs)
  have "files_ok lib (mput manifests (f_Agent f) f)" if "LoadManifest lib decode src = Inr f" for src f
    using that "2.prems" LoadManifest_agent [OF that] by (auto simp: files_ok_def split: if_splits)
  then show ?case using 2 by (auto split: option.splits sum.splits)
qed simp

text \<open>Every kind whose file was visited has a manifest or an error, and no kind both.\<close>

lemma loadFiles_covers:
  "loadFiles lib decode read names (ms, es) = (ms', es') \<Longrightarrow> distinct (map manifestKind names) \<Longrightarrow>
   (\<forall>n \<in> set names. \<forall>k. manifestKind n = Some k \<longrightarrow> mget ms k = None \<and> mget es k = None) \<Longrightarrow>
   (mget ms' k = None) = (if Some k \<in> set (map manifestKind names) then mget es' k \<noteq> None else mget ms k = None)
   \<and> (Some k \<notin> set (map manifestKind names) \<longrightarrow> mget es' k = mget es k)"
proof (induction names arbitrary: ms es)
  case (Cons n names)
  have d: "distinct (map manifestKind names)" "manifestKind n \<notin> set (map manifestKind names)"
    using Cons.prems(2) by auto
  show ?case
  proof (cases "manifestKind n")
    case None
    then show ?thesis using Cons.IH [of ms es] Cons.prems d by (auto split: if_splits)
  next
    case (Some j)
    obtain ms1 es1 where st: "loadFiles lib decode read names (ms1, es1) = (ms', es')"
      and j: "(mget ms1 j = None) = (mget es1 j \<noteq> None)"
      and rest: "\<And>k. k \<noteq> j \<Longrightarrow> mget ms1 k = mget ms k \<and> mget es1 k = mget es k"
    proof (cases "read (''manifests/'' @ n)")
      case (Inl e)
      then show ?thesis using that [of ms "mput es j (ReadError e)"] Cons.prems Some by auto
    next
      case (Inr src)
      then show ?thesis using that [of ms "mput es j (AgentMismatch j)"] Cons.prems Some
          that [of "mput ms j (projr (LoadManifest lib decode src))" es]
          that [of ms "mput es j (projl (LoadManifest lib decode src))"]
        by (cases "LoadManifest lib decode src") (auto split: if_splits)
    qed
    have free: "\<forall>x \<in> set names. \<forall>k. manifestKind x = Some k \<longrightarrow> mget ms1 k = None \<and> mget es1 k = None"
      using Cons.prems(3) d(2) rest Some by (auto simp: image_iff)
    have "Some j \<notin> set (map manifestKind names)" using d(2) Some by simp
    then show ?thesis using Cons.IH [OF st d(1) free] j rest [of k] Some by (cases "k = j") auto
  qed
qed simp

lemma convertRule_state: "convertRule lib raw n = Inr r \<Longrightarrow> u_SkipStateUpdate r \<or> validState (u_State r)"
  by (auto simp: convertRule_def Let_def split: if_splits sum.splits)

lemma convertRules_state: "convertRules lib n seen raws = Inr rs \<Longrightarrow> r \<in> set rs \<Longrightarrow>
    u_SkipStateUpdate r \<or> validState (u_State r)"
proof (induction lib n seen raws arbitrary: rs rule: convertRules.induct)
  case (2 lib order seen raw raws)
  then show ?case using convertRule_state by (fastforce split: sum.splits if_splits)
qed simp

lemma LoadManifest_state: "LoadManifest lib decode src = Inr f \<Longrightarrow> r \<in> set (f_Rules f) \<Longrightarrow>
    u_SkipStateUpdate r \<or> validState (u_State r)"
  by (auto simp: LoadManifest_def split: sum.splits option.splits if_splits prod.splits dest: convertRules_state)

lemma embedded_kinds: "map manifestKind embeddedManifestFiles = map Some [KindCodex, KindClaude, KindGemini, KindCursor]"
  by (simp add: manifestKind_def embeddedManifestFiles_def profiles_def)

lemma embedded_detector:
  obtains ms es d where "loadFiles lib decode read embeddedManifestFiles ([], []) = (ms, es)" "files_ok lib ms"
    "NewDetector ms = Inr d" "loadEmbeddedDetector lib decode read = Some (d, es)"
proof -
  obtain ms es where l: "loadFiles lib decode read embeddedManifestFiles ([], []) = (ms, es)" by fastforce
  have ok: "files_ok lib ms" using loadFiles_ok [of lib "([], [])" decode read embeddedManifestFiles] l by (simp add: files_ok_def)
  have "f_Agent f = k \<and> LookupProfile k \<noteq> None" if "(k, f) \<in> set ms" for k f
  proof -
    have "mget ms k = Some f" using ok that unfolding files_ok_def by (blast intro: mapok_mget_iff [THEN iffD2])
    then show ?thesis using ok unfolding files_ok_def by blast
  qed
  then obtain d where "NewDetector ms = Inr d" unfolding NewDetector_def using NewDetector_total by blast
  with l ok show thesis by (intro that) (simp_all add: loadEmbeddedDetector_def)
qed

section \<open>Properties\<close>

text \<open>
  C20. Priority decides. For an agent whose manifest the detector was built from, the result is
  that of a matching rule which no matching rule of higher priority, and none of the same
  priority and an earlier place in the manifest, precedes; without a matching rule it is the
  manifest's fallback.
\<close>

theorem detect_highest_priority:
  assumes "mapok manifests" and "NewDetector manifests = Inr d" and "mget manifests kind = Some f"
  shows "\<exists>x. Detect lib (Some d) kind inp = Inr x \<and>
    (if list_ex (ruleMatches lib inp) (f_Rules f)
     then \<exists>r \<in> set (f_Rules f). ruleMatches lib inp r \<and> x = ruleDetection r \<and>
       list_all (\<lambda>r'. u_Priority r' < u_Priority r \<or> (u_Priority r' = u_Priority r \<and> u_Order r \<le> u_Order r'))
         (filter (ruleMatches lib inp) (f_Rules f))
     else x = fallbackDetection (f_PreserveStateOnNoMatch f))"
proof -
  have d: "mget (dt_rules d) kind = Some (sortRules (f_Rules f))"
    "mget (dt_preserve d) kind = Some (f_PreserveStateOnNoMatch f)"
    using NewDetector_rules [OF assms(2) [unfolded NewDetector_def] assms(1), of kind] assms(3) by simp_all
  show ?thesis
  proof (cases "detectRules lib inp (sortRules (f_Rules f))")
    case None
    then have "\<not> list_ex (ruleMatches lib inp) (f_Rules f)" by (simp add: detectRules_None list_ex_iff)
    then show ?thesis using None d by (simp add: Detect_def)
  next
    case (Some x)
    obtain before r after where r: "sortRules (f_Rules f) = before @ r # after" "ruleMatches lib inp r"
      "x = ruleDetection r" "\<forall>r' \<in> set before. \<not> ruleMatches lib inp r'" using detectRules_Some [OF Some] by blast
    have "set (f_Rules f) = set (before @ r # after)" by (metis r(1) set_sortRules)
    moreover from this have "list_ex (ruleMatches lib inp) (f_Rules f)" using r(2) by (auto simp: list_ex_iff)
    ultimately show ?thesis using Some d r sortRules_before [OF r(1)]
      by (auto simp: Detect_def list_all_iff intro!: bexI [of _ r])
  qed
qed

text \<open>
  C39. A matcher means what it says. The compiler accepts exactly the well-formed matchers (one
  operator, no empty list or string, regular expressions that compile, at every level), and what
  it returns matches a region exactly when the matcher as written holds of it.
\<close>

theorem matcher_compiles_to_meaning:
  "case compileMatcher lib y of
     Inl _ \<Rightarrow> \<not> wellformed lib y
   | Inr m \<Rightarrow> wellformed lib y \<and> matches lib m region = holds lib y region"
  using compile_correct(1) [of lib y] by (simp add: compiled_ok_def split: sum.splits)

text \<open>
  A rule sees whole lines: whatever its region, unless it is the title or the progress
  string, the text it is matched against consists of consecutive complete lines of the screen,
  nothing left out between them.
\<close>

theorem region_is_line_block:
  "rg_Type rg \<in> {RegionOSCTitle, RegionOSCProgress} \<or>
   (\<exists>before block after. SplitByte NL (di_Screen inp) = before @ block @ after \<and> selectRegion rg inp = Join block [NL])"
  using region_line_block [of rg inp] by (auto simp: line_block_def)

text \<open>
  The bottom lines: for a positive count the region starts at the line that has exactly
  that many non-blank lines from there to the end, or is the whole screen if it has fewer.
\<close>

theorem bottom_lines_exact:
  assumes "0 < n"
  shows "\<exists>before block. SplitByte NL screen = before @ block \<and> bottomNonEmptyLines screen n = Join block [NL] \<and>
    length (filter (\<lambda>l. TrimSpace l \<noteq> []) block) =
      min (nat n) (length (filter (\<lambda>l. TrimSpace l \<noteq> []) (SplitByte NL screen))) \<and>
    (before = [] \<or> TrimSpace (hd block) \<noteq> [])"
proof -
  let ?ls = "SplitByte NL screen"
  note b = bottomStart_spec [OF assms order_refl, of ?ls]
  show ?thesis
  proof (cases "bottomStart ?ls (length ?ls) n")
    case None
    then show ?thesis using b assms by (intro exI [of _ "[]"] exI [of _ ?ls]) (simp add: bottomNonEmptyLines_def Let_def)
  next
    case (Some i)
    then have i: "i < length ?ls" "\<not> blank (?ls ! i)" "length (filter (\<lambda>l. \<not> blank l) (drop i ?ls)) = nat n"
      using b by simp_all
    have "length (filter (\<lambda>l. \<not> blank l) (drop i ?ls)) \<le> length (filter (\<lambda>l. \<not> blank l) ?ls)"
      by (metis append_take_drop_id filter_append le_add2 length_append)
    then show ?thesis using Some assms i
      by (intro exI [of _ "take i ?ls"] exI [of _ "drop i ?ls"])
        (simp add: bottomNonEmptyLines_def Let_def hd_drop_conv_nth)
  qed
qed

text \<open>
  The embedded detector always comes up: whatever the embedded files hold, however reading
  or decoding them fails, its construction does not panic, and each of the four kinds with a
  manifest file has either rules or a recorded error.
\<close>

theorem embedded_detector_total:
  "\<exists>d errs. loadEmbeddedDetector lib decode read = Some (d, errs) \<and>
     list_all (\<lambda>k. (mget (dt_rules d) k = None) = (mget errs k \<noteq> None)) [KindCodex, KindClaude, KindGemini, KindCursor]"
proof -
  obtain ms es d where d: "loadFiles lib decode read embeddedManifestFiles ([], []) = (ms, es)" "files_ok lib ms"
    "NewDetector ms = Inr d" "loadEmbeddedDetector lib decode read = Some (d, es)" by (rule embedded_detector)
  have dist: "distinct (map manifestKind embeddedManifestFiles)" unfolding embedded_kinds by (simp add: kind_defs)
  have "(mget (dt_rules d) k = None) = (mget es k \<noteq> None)" if "k \<in> {KindCodex, KindClaude, KindGemini, KindCursor}" for k
  proof -
    have "(mget ms k = None) = (mget es k \<noteq> None)"
      using loadFiles_covers [OF d(1) dist, of k] that unfolding embedded_kinds by auto
    moreover have "mapok ms" using d(2) by (simp add: files_ok_def)
    ultimately show ?thesis
      using NewDetector_rules [OF d(3) [unfolded NewDetector_def], of k] by (auto split: option.splits)
  qed
  then show ?thesis using d(4) by (intro exI [of _ d] exI [of _ es]) simp
qed

text \<open>
  C40. A detection is well-typed: whatever the embedded detector says of a screen, it leaves the
  state alone or names one of the four states, so the store never refuses its update.
\<close>

theorem detection_names_state:
  assumes "loadEmbeddedDetector lib decode read = Some (d, errs)" and "Detect lib (Some d) kind inp = Inr x"
  shows "d_SkipStateUpdate x \<or> validState (d_State x)"
proof -
  obtain ms where ms: "files_ok lib ms" "NewDetector ms = Inr d"
    using embedded_detector [of lib decode read] assms(1) by (metis option.inject prod.inject)
  then have m: "mapok ms" by (simp add: files_ok_def)
  obtain rs where rs: "mget (dt_rules d) kind = Some rs" using assms(2) by (auto simp: Detect_def split: option.splits)
  then obtain f where f: "mget ms kind = Some f" "rs = sortRules (f_Rules f)"
    using NewDetector_rules [OF ms(2) [unfolded NewDetector_def] m, of kind] by (auto split: option.splits)
  have ok: "u_SkipStateUpdate r \<or> validState (u_State r)" if "r \<in> set rs" for r
    using that f ms(1) LoadManifest_state by (auto simp: files_ok_def) blast
  show ?thesis
  proof (cases "detectRules lib inp rs")
    case None
    then show ?thesis using assms(2) rs
      by (auto simp: Detect_def fallbackDetection_def validState_def split: if_splits)
  next
    case (Some y)
    then have "x = y" using assms(2) rs by (simp add: Detect_def)
    moreover obtain r where "r \<in> set rs" "y = ruleDetection r" using detectRules_Some [OF Some] by (metis in_set_conv_decomp)
    ultimately show ?thesis using ok [of r] by (auto simp: ruleDetection_def)
  qed
qed

lemma find_evaluate:
  "find re_Matched (map (evaluateRule lib inp) rs) = map_option (evaluateRule lib inp) (find (ruleMatches lib inp) rs)"
  by (induction rs) (simp_all add: evaluateRule_def ruleMatches_def Let_def case_prod_beta)

lemma detectRules_find: "detectRules lib inp rs = map_option ruleDetection (find (ruleMatches lib inp) rs)"
  by (induction rs) simp_all

text \<open>
  An explanation tells the truth: it reports the detection the monitor acts on, and the
  first rule it shows as matched is the one that decided, or none is and the fallback did.
\<close>

theorem explanation_agrees:
  "case ExplainDetection lib det kind inp of
     Inl e \<Rightarrow> Detect lib det kind inp = Inl e
   | Inr x \<Rightarrow> Detect lib det kind inp = Inr (de_Detection x) \<and>
       (case find re_Matched (de_Rules x) of
          None \<Rightarrow> d_Fallback (de_Detection x)
        | Some ev \<Rightarrow> \<not> d_Fallback (de_Detection x) \<and> d_RuleID (de_Detection x) = re_ID ev)"
proof (cases det)
  case (Some d)
  show ?thesis
  proof (cases "mget (dt_rules d) kind")
    case rs: (Some rs)
    show ?thesis unfolding ExplainDetection_def Detect_def Some rs
      by (cases "find (ruleMatches lib inp) rs")
        (simp_all add: rs find_evaluate detectRules_find fallbackDetection_def ruleDetection_def evaluateRule_def
          Let_def case_prod_beta)
  qed (simp add: ExplainDetection_def Detect_def Some)
qed (simp add: ExplainDetection_def Detect_def)

text \<open>The excerpt an explanation shows is the end of the region, if that is valid UTF-8.\<close>

lemma evidence_is_suffix:
  assumes "ValidString region"
  shows "suffix (fst (detectionEvidence region)) region"
proof -
  have "region = string_of_runes (take k (runes region)) @ string_of_runes (drop k (runes region))" for k
    using encode_runes [OF assms] unfolding string_of_runes_def by (metis append_take_drop_id concat_append map_append)
  then have "suffix (string_of_runes (drop k (runes region))) region" for k unfolding suffix_def by blast
  then show ?thesis by (simp add: detectionEvidence_def Let_def)
qed

section \<open>Witnesses\<close>

definition demo_lib :: TextLib where
  "demo_lib = \<lparr>tl_Compile = (\<lambda>_. None), tl_MatchString = (\<lambda>_ _. False), tl_ToLower = ToLower\<rparr>"

definition demo_rule :: "string \<Rightarrow> int \<Rightarrow> string \<Rightarrow> nat \<Rightarrow> Rule" where
  "demo_rule i p word n = \<lparr>u_ID = i, u_Priority = p, u_State = ''working'', u_Region = \<lparr>rg_Type = ''whole_recent'', rg_Lines = 0\<rparr>,
     u_Matcher = Matcher matcherContains [word] [] [], u_VisibleIdle = False, u_VisibleWorking = True,
     u_VisibleBlocker = False, u_SkipStateUpdate = False, u_Order = n\<rparr>"

definition demo_manifest :: Manifest where
  "demo_manifest = \<lparr>f_Version = 1, f_Agent = KindCodex, f_PreserveStateOnNoMatch = False,
     f_Rules = [demo_rule ''low'' 1 ''a'' 0, demo_rule ''high'' 5 ''b'' 1]\<rparr>"

definition demo_detector :: Detector where
  "demo_detector = \<lparr>dt_rules = [(KindCodex, sortRules (f_Rules demo_manifest))], dt_preserve = [(KindCodex, False)]\<rparr>"

definition demo_input :: "string \<Rightarrow> DetectionInput" where
  "demo_input screen = \<lparr>di_Screen = screen, di_OSCTitle = [], di_OSCProgress = []\<rparr>"

lemma demo_NewDetector: "NewDetector [(KindCodex, demo_manifest)] = Inr demo_detector"
  by (simp add: NewDetector_def demo_detector_def demo_manifest_def LookupProfile_def profiles_def)

lemma demo_matches: "ruleMatches demo_lib (demo_input ''ab'') (demo_rule i p w n) \<longleftrightarrow> Contains ''ab'' w"
  by (simp add: ruleMatches_def demo_rule_def demo_lib_def demo_input_def selectRegion_def RegionWholeRecent_def Let_def
      lower_char_def less_eq_char_def)

theorem detect_highest_priority_witness:
  "map_sum id d_RuleID (Detect demo_lib (Some demo_detector) KindCodex (demo_input ''ab'')) = Inr ''high''"
proof -
  have "\<exists>x. Detect demo_lib (Some demo_detector) KindCodex (demo_input ''ab'') = Inr x \<and>
    (if list_ex (ruleMatches demo_lib (demo_input ''ab'')) (f_Rules demo_manifest)
     then \<exists>r \<in> set (f_Rules demo_manifest). ruleMatches demo_lib (demo_input ''ab'') r \<and> x = ruleDetection r \<and>
       list_all (\<lambda>r'. u_Priority r' < u_Priority r \<or> (u_Priority r' = u_Priority r \<and> u_Order r \<le> u_Order r'))
         (filter (ruleMatches demo_lib (demo_input ''ab'')) (f_Rules demo_manifest))
     else x = fallbackDetection (f_PreserveStateOnNoMatch demo_manifest))"
    by (rule detect_highest_priority [OF _ demo_NewDetector]) simp_all
  moreover have "Contains ''ab'' ''a''" "Contains ''ab'' ''b''" by (simp_all add: HasPrefix_def)
  ultimately show ?thesis
    by (auto simp: demo_manifest_def demo_matches) (simp_all add: demo_rule_def ruleDetection_def)
qed

theorem bottom_lines_exact_witness:
  "\<exists>before block. SplitByte NL ''a'' = before @ block \<and> bottomNonEmptyLines ''a'' 3 = Join block [NL] \<and>
    length (filter (\<lambda>l. TrimSpace l \<noteq> []) block) =
      min (nat 3) (length (filter (\<lambda>l. TrimSpace l \<noteq> []) (SplitByte NL ''a''))) \<and>
    (before = [] \<or> TrimSpace (hd block) \<noteq> [])"
  by (rule bottom_lines_exact) simp

definition demo_yaml :: manifestYAML where
  "demo_yaml = \<lparr>fy_Version = 1, fy_Agent = ''codex'', fy_PreserveStateOnNoMatch = False,
     fy_Rules = [\<lparr>uy_ID = ''r'', uy_Priority = 3, uy_State = ''idle'', uy_Region = \<lparr>ry_Type = ''osc_title'', ry_Lines = 0\<rparr>,
       uy_Match = MatcherYAML (Some [''b'']) None None None None None, uy_VisibleIdle = True, uy_VisibleWorking = False,
       uy_VisibleBlocker = False, uy_SkipStateUpdate = False\<rparr>]\<rparr>"

definition demo_embedded :: "(Detector \<times> (Kind, manifest_error) gomap) option" where
  "demo_embedded = loadEmbeddedDetector demo_lib (\<lambda>_. Inr (demo_yaml, None)) (\<lambda>_. Inr [])"

definition demo_title :: DetectionInput where
  "demo_title = \<lparr>di_Screen = [], di_OSCTitle = ''b'', di_OSCProgress = []\<rparr>"

lemma demo_embedded_detects:
  "case demo_embedded of None \<Rightarrow> False | Some (d, errs) \<Rightarrow>
     (case Detect demo_lib (Some d) ''codex'' demo_title of Inl _ \<Rightarrow> False | Inr x \<Rightarrow> d_RuleID x = ''r'' \<and> d_State x = ''idle'')"
  by code_simp

theorem detection_names_state_witness:
  "\<exists>d errs x. loadEmbeddedDetector demo_lib (\<lambda>_. Inr (demo_yaml, None)) (\<lambda>_. Inr []) = Some (d, errs) \<and>
     Detect demo_lib (Some d) ''codex'' demo_title = Inr x \<and> d_RuleID x = ''r'' \<and>
     (d_SkipStateUpdate x \<or> validState (d_State x))"
proof -
  obtain d errs x where "loadEmbeddedDetector demo_lib (\<lambda>_. Inr (demo_yaml, None)) (\<lambda>_. Inr []) = Some (d, errs)"
    "Detect demo_lib (Some d) ''codex'' demo_title = Inr x" "d_RuleID x = ''r''"
    using demo_embedded_detects unfolding demo_embedded_def by (auto split: option.splits sum.splits)
  then show ?thesis using detection_names_state by blast
qed

end
