(* ===== verification/Agent_Monitor.thy ===== *)
theory Agent_Monitor
  imports Agent_Detect EventBus
begin

text \<open>
  The monitor of \<^verbatim>\<open>src/internal/codingagent/monitor.go\<close> (and \<open>Monitor.Explain\<close> of \<^verbatim>\<open>explain.go\<close>): it
  turns what the runtime observes of an agent's pane into the agent's state, with a grace period
  after the pane opens and a confirmation before a working agent counts as idle.

  A method that takes the monitor's lock is a function on the record \<open>Monitor\<close>, which holds the store
  too. The record of the agent is read from the store before the lock is taken, so each method is
  split there: the part under the lock takes the record read as an argument, and the runs below
  allow any. An entry is passed to the locked functions and returned, and the caller writes it
  back: that is what its pointer in the map does. \<open>AfterFunc\<close> files a callback in \<open>mo_pending\<close>; a timer
  fires by taking it out. A stopped timer may have fired already and be waiting for the lock, so
  stopping leaves it there, and any filed callback can run later. \<open>mo_events\<close> is what was given to
  \<open>Publish\<close>. The clock is a function: its readings within one call, by number. A monitor has a store;
  the guards against nil receivers have no counterpart.

  The lemmas show that an agent in its grace period or with a pending idle candidate always has the
  timer that ends it, that a working agent becomes idle only on a visible idle screen or after
  confirmation, that every change of state is published exactly once and correctly, and that an
  observation of another pane generation does nothing.
\<close>

declare map_of_eq_Some_iff [simp del] Some_eq_map_of_iff [simp del]

section \<open>Data\<close>

definition startupGrace :: int where "startupGrace = 3000000000"
definition idleConfirmationDelay :: int where "idleConfirmationDelay = 100000000"
definition idleConfirmationCount :: nat where "idleConfirmationCount = 3"
definition idleConfirmationLimit :: int where "idleConfirmationLimit = 700000000"

type_synonym clock = "nat \<Rightarrow> time"

record MonitorOptions =
  op_lib :: TextLib
  op_Detector :: "Detector option"
  op_DetectorErrors :: "(Kind, manifest_error) gomap"
  op_EventBus :: bool

datatype callback =
    FinishGrace ID uint64 | ConfirmIdle ID uint64 uint64 | FinishIdleDeadline ID uint64 uint64

record monitoredAgent =
  ma_record :: Record
  ma_token :: uint64
  ma_paneGeneration :: uint64
  ma_latestInput :: DetectionInput
  ma_hasInput :: bool
  ma_graceTimer :: "nat option"
  ma_observedAt :: time
  ma_paneTitle :: string
  ma_titleAvailable :: bool
  ma_titleObservedAt :: time
  ma_workingRevision :: uint64
  ma_lastWorkingAt :: time
  ma_idleConfirmations :: nat
  ma_idleToken :: uint64
  ma_idleTimer :: "nat option"
  ma_idleDeadline :: "nat option"

record Monitor =
  mo_nextToken :: uint64
  mo_monitoring :: "(ID, monitoredAgent) gomap"
  mo_store :: memoryStore
  mo_events :: "Event list"
  mo_nextTimer :: nat
  mo_pending :: "(nat, int \<times> callback) gomap"
  mo_deleting :: "ID list"

definition emptyInput :: DetectionInput where
  "emptyInput = \<lparr>di_Screen = [], di_OSCTitle = [], di_OSCProgress = []\<rparr>"

definition NewMonitor :: "memoryStore \<Rightarrow> Monitor" where
  "NewMonitor s = \<lparr>mo_nextToken = 0, mo_monitoring = [], mo_store = s, mo_events = [], mo_nextTimer = 0,
     mo_pending = [], mo_deleting = []\<rparr>"

datatype monitor_error = ErrDetector manifest_error | ErrDetectorNil | ErrStore agent_error | ErrMismatch ID

section \<open>Timers and entries\<close>

definition AfterFunc :: "int \<Rightarrow> callback \<Rightarrow> Monitor \<Rightarrow> Monitor \<times> nat" where
  "AfterFunc delay fn m =
     (m\<lparr>mo_nextTimer := Suc (mo_nextTimer m), mo_pending := mput (mo_pending m) (mo_nextTimer m) (delay, fn)\<rparr>,
      mo_nextTimer m)"

definition putEntry :: "ID \<Rightarrow> monitoredAgent \<times> Monitor \<Rightarrow> Monitor" where
  "putEntry i em = (snd em)\<lparr>mo_monitoring := mput (mo_monitoring (snd em)) i (fst em)\<rparr>"

definition cancelIdleCandidateLocked :: "monitoredAgent \<Rightarrow> monitoredAgent" where
  "cancelIdleCandidateLocked e =
     e\<lparr>ma_idleToken := ma_idleToken e + 1, ma_idleTimer := None, ma_idleDeadline := None, ma_idleConfirmations := 0\<rparr>"

definition stopTimersLocked :: "monitoredAgent \<Rightarrow> monitoredAgent" where
  "stopTimersLocked e = cancelIdleCandidateLocked (e\<lparr>ma_graceTimer := None\<rparr>)"

text \<open>Forgetting all observations, as \<open>PaneOpened\<close> and \<open>PaneError\<close> do.\<close>

definition clearObservations :: "monitoredAgent \<Rightarrow> monitoredAgent" where
  "clearObservations e =
     e\<lparr>ma_latestInput := emptyInput, ma_hasInput := False, ma_observedAt := zeroTime, ma_paneTitle := [],
       ma_titleAvailable := False, ma_titleObservedAt := zeroTime, ma_workingRevision := 0,
       ma_lastWorkingAt := zeroTime\<rparr>"

definition stateEvent :: "time \<Rightarrow> StateChange \<Rightarrow> Event" where
  "stateEvent now ch = (emptyEvent TypeAgentStateChanged)\<lparr>ev_PaneID := a_PaneID (sc_Current ch),
     ev_AgentID := a_ID (sc_Current ch), ev_AgentKind := a_Kind (sc_Current ch),
     ev_PreviousState := a_State (sc_Previous ch), ev_AgentState := a_State (sc_Current ch),
     ev_MatchedRule := a_MatchedRule (sc_Current ch), ev_Reason := a_StateReason (sc_Current ch), ev_Time := now\<rparr>"

definition updateStateLocked ::
  "MonitorOptions \<Rightarrow> clock \<Rightarrow> monitoredAgent \<Rightarrow> StateUpdate \<Rightarrow> Monitor \<Rightarrow> monitoredAgent \<times> Monitor" where
  "updateStateLocked opts clk e u m =
     (case UpdateState (clk 1) (a_ID (ma_record e)) u (mo_store m) of
        (s, Inl _) \<Rightarrow> (e, m\<lparr>mo_store := s\<rparr>)
      | (s, Inr ch) \<Rightarrow>
          let m1 = m\<lparr>mo_store := s\<rparr>;
              e1 = e\<lparr>ma_record := sc_Current ch\<rparr>;
              e2 = (if a_State (sc_Previous ch) \<noteq> StateWorking \<and> a_State (sc_Current ch) = StateWorking
                    then e1\<lparr>ma_workingRevision := ma_workingRevision e1 + 1, ma_lastWorkingAt := clk 2\<rparr> else e1)
          in if \<not> sc_Changed ch \<or> \<not> op_EventBus opts then (e2, m1)
             else (e2, m1\<lparr>mo_events := mo_events m1 @ [stateEvent (clk 3) ch]\<rparr>))"

definition applyDetectionLocked ::
  "MonitorOptions \<Rightarrow> clock \<Rightarrow> monitoredAgent \<Rightarrow> Detection \<Rightarrow> Monitor \<Rightarrow> monitoredAgent \<times> Monitor" where
  "applyDetectionLocked opts clk e x m =
     updateStateLocked opts clk e \<lparr>su_State = d_State x, su_Reason = d_Reason x, su_MatchedRule = d_RuleID x\<rparr> m"

definition detectEntry :: "MonitorOptions \<Rightarrow> monitoredAgent \<Rightarrow> detect_error + Detection" where
  "detectEntry opts e = Detect (op_lib opts) (op_Detector opts) (a_Kind (ma_record e)) (ma_latestInput e)"

definition startIdleCandidateLocked :: "monitoredAgent \<Rightarrow> Monitor \<Rightarrow> monitoredAgent \<times> Monitor" where
  "startIdleCandidateLocked e0 m =
     (if ma_idleTimer e0 \<noteq> None \<or> ma_idleDeadline e0 \<noteq> None then (e0, m)
      else let e = e0\<lparr>ma_idleConfirmations := 0, ma_idleToken := ma_idleToken e0 + 1\<rparr>;
               i = a_ID (ma_record e);
               (m1, t1) = AfterFunc idleConfirmationDelay (ConfirmIdle i (ma_token e) (ma_idleToken e)) m;
               (m2, t2) = AfterFunc idleConfirmationLimit (FinishIdleDeadline i (ma_token e) (ma_idleToken e)) m1
           in (e\<lparr>ma_idleTimer := Some t1, ma_idleDeadline := Some t2\<rparr>, m2))"

definition evaluateLocked :: "MonitorOptions \<Rightarrow> clock \<Rightarrow> monitoredAgent \<Rightarrow> Monitor \<Rightarrow> monitoredAgent \<times> Monitor" where
  "evaluateLocked opts clk e m =
     (case detectEntry opts e of
        Inl _ \<Rightarrow> (cancelIdleCandidateLocked e, m)
      | Inr x \<Rightarrow>
          if d_SkipStateUpdate x then (cancelIdleCandidateLocked e, m)
          else if a_State (ma_record e) = StateWorking \<and> d_State x = StateIdle \<and> \<not> d_VisibleIdle x
            then startIdleCandidateLocked e m
          else applyDetectionLocked opts clk (cancelIdleCandidateLocked e) x m)"

section \<open>Methods\<close>

definition sameMonitoredRecord :: "monitoredAgent \<Rightarrow> Record \<Rightarrow> bool" where
  "sameMonitoredRecord e r \<longleftrightarrow> a_ID (ma_record e) = a_ID r \<and> a_Kind (ma_record e) = a_Kind r \<and>
     a_PaneID (ma_record e) = a_PaneID r"

definition sameMonitoredPane :: "monitoredAgent \<Rightarrow> Record \<Rightarrow> PaneRecord \<Rightarrow> bool" where
  "sameMonitoredPane e r pane \<longleftrightarrow> sameMonitoredRecord e r \<and> ma_paneGeneration e \<noteq> 0 \<and>
     ma_paneGeneration e = p_Generation pane"

text \<open>The entry of a record if it passes a check; a missing entry is a nil pointer.\<close>

definition withEntry :: "ID \<Rightarrow> (monitoredAgent \<Rightarrow> bool) \<Rightarrow> (monitoredAgent \<Rightarrow> Monitor) \<Rightarrow> Monitor \<Rightarrow> Monitor" where
  "withEntry i P f m = (case mget (mo_monitoring m) i of None \<Rightarrow> m | Some e \<Rightarrow> if P e then f e else m)"

definition paneOpenedLocked :: "Record \<Rightarrow> PaneRecord \<Rightarrow> Monitor \<Rightarrow> Monitor" where
  "paneOpenedLocked r pane m =
     withEntry (a_ID r) (\<lambda>e. sameMonitoredRecord e r \<and> \<not> p_Generation pane \<le> ma_paneGeneration e)
       (\<lambda>e0. let tok = mo_nextToken m + 1;
                 e = (clearObservations (stopTimersLocked e0))\<lparr>ma_token := tok, ma_paneGeneration := p_Generation pane\<rparr>;
                 (m1, t) = AfterFunc startupGrace (FinishGrace (a_ID r) tok) (m\<lparr>mo_nextToken := tok\<rparr>)
             in putEntry (a_ID r) (e\<lparr>ma_graceTimer := Some t\<rparr>, m1)) m"

definition startLocked :: "Record \<Rightarrow> Monitor \<Rightarrow> Monitor" where
  "startLocked stored m =
     (let tok = mo_nextToken m + 1
      in putEntry (a_ID stored) (\<lparr>ma_record = stored, ma_token = tok, ma_paneGeneration = 0, ma_latestInput = emptyInput,
           ma_hasInput = False, ma_graceTimer = None, ma_observedAt = zeroTime, ma_paneTitle = [], ma_titleAvailable = False,
           ma_titleObservedAt = zeroTime, ma_workingRevision = 0, ma_lastWorkingAt = zeroTime, ma_idleConfirmations = 0,
           ma_idleToken = 0, ma_idleTimer = None, ma_idleDeadline = None\<rparr>, m\<lparr>mo_nextToken := tok\<rparr>))"

definition MonitorStop :: "ID \<Rightarrow> Monitor \<Rightarrow> Monitor" where
  "MonitorStop i m = withEntry i (\<lambda>_. True) (\<lambda>e. m\<lparr>mo_monitoring := mdel (mo_monitoring m) i\<rparr>) m"

definition paneOutputLocked :: "MonitorOptions \<Rightarrow> clock \<Rightarrow> Record \<Rightarrow> PaneRecord \<Rightarrow> string \<Rightarrow> Monitor \<Rightarrow> Monitor" where
  "paneOutputLocked opts clk r pane renderedText m =
     withEntry (a_ID r) (\<lambda>e. sameMonitoredPane e r pane)
       (\<lambda>e0. let e = e0\<lparr>ma_latestInput := (ma_latestInput e0)\<lparr>di_Screen := renderedText\<rparr>, ma_hasInput := True,
                   ma_observedAt := clk 0\<rparr>
             in putEntry (a_ID r) (if ma_graceTimer e \<noteq> None then (e, m) else evaluateLocked opts clk e m)) m"

text \<open>\<open>title\<close> is \<open>None\<close> when the metadata has no title.\<close>

definition paneMetadataLocked ::
  "MonitorOptions \<Rightarrow> clock \<Rightarrow> Record \<Rightarrow> PaneRecord \<Rightarrow> string option \<Rightarrow> Monitor \<Rightarrow> Monitor" where
  "paneMetadataLocked opts clk r pane title m =
     withEntry (a_ID r) (\<lambda>e. sameMonitoredPane e r pane)
       (\<lambda>e0. let e1 = e0\<lparr>ma_paneTitle := [], ma_titleAvailable := title \<noteq> None, ma_titleObservedAt := zeroTime,
                   ma_latestInput := (ma_latestInput e0)\<lparr>di_OSCTitle := []\<rparr>\<rparr>;
                 e = (case title of
                        None \<Rightarrow> e1
                      | Some t \<Rightarrow>
                          let active = activePaneTitle (op_lib opts) (op_Detector opts) (a_Kind r) t
                          in e1\<lparr>ma_paneTitle := t, ma_titleObservedAt := clk 0,
                                ma_latestInput := (ma_latestInput e1)\<lparr>di_OSCTitle := active\<rparr>,
                                ma_hasInput := (ma_hasInput e1 \<or> active \<noteq> [])\<rparr>)
             in putEntry (a_ID r)
                  (if ma_graceTimer e = None \<and> ma_hasInput e then evaluateLocked opts clk e m else (e, m))) m"

text \<open>\<open>PaneClosed\<close> releases the lock before it deletes the record: the identifier waits in \<open>mo_deleting\<close>.\<close>

definition paneClosedLocked :: "Record \<Rightarrow> PaneRecord \<Rightarrow> Monitor \<Rightarrow> Monitor" where
  "paneClosedLocked r pane m =
     withEntry (a_ID r) (\<lambda>e. sameMonitoredPane e r pane)
       (\<lambda>e. m\<lparr>mo_monitoring := mdel (mo_monitoring m) (a_ID r), mo_deleting := mo_deleting m @ [a_ID r]\<rparr>) m"

definition paneClosedDelete :: "ID \<Rightarrow> Monitor \<Rightarrow> Monitor" where
  "paneClosedDelete i m =
     (if i \<in> set (mo_deleting m)
      then m\<lparr>mo_deleting := remove1 i (mo_deleting m), mo_store := fst (DeleteAgent i (mo_store m))\<rparr> else m)"

definition paneErrorLocked ::
  "MonitorOptions \<Rightarrow> clock \<Rightarrow> Record \<Rightarrow> PaneRecord \<Rightarrow> string option \<Rightarrow> Monitor \<Rightarrow> Monitor" where
  "paneErrorLocked opts clk r pane cause m =
     (let reason = ''pane observation error'' @ (case cause of None \<Rightarrow> [] | Some c \<Rightarrow> '': '' @ c) in
      withEntry (a_ID r) (\<lambda>e. sameMonitoredPane e r pane)
       (\<lambda>e0. let tok = mo_nextToken m + 1;
                 e = (clearObservations (stopTimersLocked e0))\<lparr>ma_token := tok\<rparr>
             in putEntry (a_ID r) (updateStateLocked opts clk e
                  \<lparr>su_State = StateUnknown, su_Reason = reason, su_MatchedRule = []\<rparr> (m\<lparr>mo_nextToken := tok\<rparr>))) m)"

definition finishGrace :: "MonitorOptions \<Rightarrow> clock \<Rightarrow> ID \<Rightarrow> uint64 \<Rightarrow> Monitor \<Rightarrow> Monitor" where
  "finishGrace opts clk i tok m =
     withEntry i (\<lambda>e. ma_token e = tok)
       (\<lambda>e0. let e = e0\<lparr>ma_graceTimer := None\<rparr>
             in putEntry i (if ma_hasInput e then evaluateLocked opts clk e m else (e, m))) m"

definition confirmIdle :: "MonitorOptions \<Rightarrow> clock \<Rightarrow> ID \<Rightarrow> uint64 \<Rightarrow> uint64 \<Rightarrow> Monitor \<Rightarrow> Monitor" where
  "confirmIdle opts clk i tok idleTok m =
     withEntry i (\<lambda>e. ma_token e = tok \<and> ma_idleToken e = idleTok \<and> ma_idleTimer e \<noteq> None)
       (\<lambda>e0. let e = e0\<lparr>ma_idleTimer := None\<rparr> in
         putEntry i
           (case detectEntry opts e of
              Inl _ \<Rightarrow> (cancelIdleCandidateLocked e, m)
            | Inr x \<Rightarrow>
                if d_SkipStateUpdate x then (cancelIdleCandidateLocked e, m)
                else if d_State x \<noteq> StateIdle \<or> d_VisibleIdle x
                  then applyDetectionLocked opts clk (cancelIdleCandidateLocked e) x m
                else let e1 = e\<lparr>ma_idleConfirmations := Suc (ma_idleConfirmations e)\<rparr>
                     in if idleConfirmationCount \<le> ma_idleConfirmations e1
                        then applyDetectionLocked opts clk (cancelIdleCandidateLocked e1) x m
                        else let (m1, t) = AfterFunc idleConfirmationDelay (ConfirmIdle i tok idleTok) m
                             in (e1\<lparr>ma_idleTimer := Some t\<rparr>, m1))) m"

definition finishIdleDeadline :: "MonitorOptions \<Rightarrow> clock \<Rightarrow> ID \<Rightarrow> uint64 \<Rightarrow> uint64 \<Rightarrow> Monitor \<Rightarrow> Monitor" where
  "finishIdleDeadline opts clk i tok idleTok m =
     withEntry i (\<lambda>e. ma_token e = tok \<and> ma_idleToken e = idleTok \<and> ma_idleDeadline e \<noteq> None)
       (\<lambda>e0. let e = e0\<lparr>ma_idleDeadline := None\<rparr> in
         putEntry i
           (case detectEntry opts e of
              Inl _ \<Rightarrow> (cancelIdleCandidateLocked e, m)
            | Inr x \<Rightarrow>
                if d_SkipStateUpdate x then (cancelIdleCandidateLocked e, m)
                else applyDetectionLocked opts clk (cancelIdleCandidateLocked e) x m)) m"

definition MonitorClose :: "Monitor \<Rightarrow> Monitor" where
  "MonitorClose m = m\<lparr>mo_monitoring := []\<rparr>"

text \<open>The whole methods: the checks before the lock, then the part under it.\<close>

definition withRecord :: "PaneRecord \<Rightarrow> (Record \<Rightarrow> Monitor) \<Rightarrow> Monitor \<Rightarrow> Monitor" where
  "withRecord pane f m =
     (if p_Role pane \<noteq> ''coding-agent'' then m
      else case GetByPane (p_ID pane) (mo_store m) of Inl _ \<Rightarrow> m | Inr r \<Rightarrow> f r)"

definition PaneOpened :: "PaneRecord \<Rightarrow> Monitor \<Rightarrow> Monitor" where
  "PaneOpened pane m = (if p_Generation pane = 0 then m else withRecord pane (\<lambda>r. paneOpenedLocked r pane m) m)"

definition PaneOutput :: "MonitorOptions \<Rightarrow> clock \<Rightarrow> PaneRecord \<Rightarrow> string \<Rightarrow> Monitor \<Rightarrow> Monitor" where
  "PaneOutput opts clk pane renderedText m = withRecord pane (\<lambda>r. paneOutputLocked opts clk r pane renderedText m) m"

definition PaneMetadata :: "MonitorOptions \<Rightarrow> clock \<Rightarrow> PaneRecord \<Rightarrow> string option \<Rightarrow> Monitor \<Rightarrow> Monitor" where
  "PaneMetadata opts clk pane title m = withRecord pane (\<lambda>r. paneMetadataLocked opts clk r pane title m) m"

definition PaneClosed :: "PaneRecord \<Rightarrow> Monitor \<Rightarrow> Monitor" where
  "PaneClosed pane m =
     withRecord pane (\<lambda>r. let m1 = paneClosedLocked r pane m
       in if mo_deleting m1 = mo_deleting m then m1 else paneClosedDelete (a_ID r) m1) m"

definition PaneError :: "MonitorOptions \<Rightarrow> clock \<Rightarrow> PaneRecord \<Rightarrow> string option \<Rightarrow> Monitor \<Rightarrow> Monitor" where
  "PaneError opts clk pane cause m = withRecord pane (\<lambda>r. paneErrorLocked opts clk r pane cause m) m"

definition MonitorStart :: "MonitorOptions \<Rightarrow> Record \<Rightarrow> Monitor \<Rightarrow> Monitor \<times> monitor_error option" where
  "MonitorStart opts r m =
     (case mget (op_DetectorErrors opts) (a_Kind r) of
        Some e \<Rightarrow> (m, Some (ErrDetector e))
      | None \<Rightarrow>
          if op_Detector opts = None then (m, Some ErrDetectorNil)
          else (case GetAgent (a_ID r) (mo_store m) of
              Inl e \<Rightarrow> (m, Some (ErrStore e))
            | Inr stored \<Rightarrow>
                if a_Kind stored \<noteq> a_Kind r \<or> a_PaneID stored \<noteq> a_PaneID r then (m, Some (ErrMismatch (a_ID r)))
                else (startLocked stored m, None)))"

record AgentExplanation =
  ax_Record :: Record
  ax_ObservedAt :: time
  ax_ObservationEpoch :: uint64
  ax_WorkingRevision :: uint64
  ax_LastWorkingAt :: time
  ax_ObservationAvailable :: bool
  ax_StartupGrace :: bool
  ax_PendingIdle :: bool
  ax_IdleConfirmations :: nat
  ax_TitleAvailable :: bool
  ax_Title :: string
  ax_TitleSource :: string
  ax_TitleUsedForDetection :: bool
  ax_TitleObservedAt :: time
  ax_ProgressAvailable :: bool
  ax_Detection :: "DetectionExplanation option"

text \<open>\<open>ax_Record\<close> stands for the seven fields copied from the stored record.\<close>

definition MonitorExplain :: "MonitorOptions \<Rightarrow> ID \<Rightarrow> Monitor \<Rightarrow> (agent_error + detect_error) + AgentExplanation" where
  "MonitorExplain opts i m =
     (case GetAgent i (mo_store m) of
        Inl err \<Rightarrow> Inl (Inl err)
      | Inr r \<Rightarrow>
          let x0 = \<lparr>ax_Record = r, ax_ObservedAt = zeroTime, ax_ObservationEpoch = 0, ax_WorkingRevision = 0,
                ax_LastWorkingAt = zeroTime, ax_ObservationAvailable = False, ax_StartupGrace = False,
                ax_PendingIdle = False, ax_IdleConfirmations = 0, ax_TitleAvailable = False, ax_Title = [],
                ax_TitleSource = [], ax_TitleUsedForDetection = False, ax_TitleObservedAt = zeroTime,
                ax_ProgressAvailable = False, ax_Detection = None\<rparr>
          in (case mget (mo_monitoring m) i of
                None \<Rightarrow> Inr x0
              | Some e \<Rightarrow>
                  if \<not> sameMonitoredRecord e r then Inr x0
                  else let x = x0\<lparr>ax_ObservedAt := ma_observedAt e, ax_ObservationEpoch := ma_token e,
                         ax_WorkingRevision := ma_workingRevision e, ax_LastWorkingAt := ma_lastWorkingAt e,
                         ax_ObservationAvailable := ma_hasInput e, ax_StartupGrace := (ma_graceTimer e \<noteq> None),
                         ax_PendingIdle := (ma_idleTimer e \<noteq> None \<or> ma_idleDeadline e \<noteq> None),
                         ax_IdleConfirmations := ma_idleConfirmations e, ax_TitleAvailable := ma_titleAvailable e,
                         ax_Title := ma_paneTitle e,
                         ax_TitleUsedForDetection := (di_OSCTitle (ma_latestInput e) \<noteq> []),
                         ax_TitleObservedAt := ma_titleObservedAt e,
                         ax_TitleSource := (if ma_titleAvailable e then ''zellij_pane_title'' else [])\<rparr>
                       in if \<not> ma_hasInput e then Inr x
                          else (case ExplainDetection (op_lib opts) (op_Detector opts) (a_Kind r) (ma_latestInput e) of
                              Inl err \<Rightarrow> Inl (Inr err)
                            | Inr d \<Rightarrow> Inr (x\<lparr>ax_Detection := Some d\<rparr>))))"

section \<open>Runs\<close>

text \<open>
  The critical sections that can follow each other: the methods' locked parts with whatever record
  was read before, a filed callback that fires, and calls of the store by others.
\<close>

datatype mon_event =
    EvOpened Record PaneRecord | EvStart Record | EvStop ID | EvOutput Record PaneRecord string
  | EvMetadata Record PaneRecord "string option" | EvClosed Record PaneRecord | EvDelete ID
  | EvError Record PaneRecord "string option" | EvFire nat | EvClose | EvStore time store_op

fun runCallback :: "MonitorOptions \<Rightarrow> clock \<Rightarrow> callback \<Rightarrow> Monitor \<Rightarrow> Monitor" where
  "runCallback opts clk (FinishGrace i tok) m = finishGrace opts clk i tok m"
| "runCallback opts clk (ConfirmIdle i tok idle) m = confirmIdle opts clk i tok idle m"
| "runCallback opts clk (FinishIdleDeadline i tok idle) m = finishIdleDeadline opts clk i tok idle m"

fun mon_exec :: "MonitorOptions \<Rightarrow> clock \<Rightarrow> mon_event \<Rightarrow> Monitor \<Rightarrow> Monitor" where
  "mon_exec opts clk (EvOpened r pane) m = paneOpenedLocked r pane m"
| "mon_exec opts clk (EvStart r) m = startLocked r m"
| "mon_exec opts clk (EvStop i) m = MonitorStop i m"
| "mon_exec opts clk (EvOutput r pane s) m = paneOutputLocked opts clk r pane s m"
| "mon_exec opts clk (EvMetadata r pane t) m = paneMetadataLocked opts clk r pane t m"
| "mon_exec opts clk (EvClosed r pane) m = paneClosedLocked r pane m"
| "mon_exec opts clk (EvDelete i) m = paneClosedDelete i m"
| "mon_exec opts clk (EvError r pane c) m = paneErrorLocked opts clk r pane c m"
| "mon_exec opts clk (EvFire t) m =
     (case mget (mo_pending m) t of
        None \<Rightarrow> m
      | Some (_, cb) \<Rightarrow> runCallback opts clk cb (m\<lparr>mo_pending := mdel (mo_pending m) t\<rparr>))"
| "mon_exec opts clk EvClose m = MonitorClose m"
| "mon_exec opts clk (EvStore now op) m = m\<lparr>mo_store := fst (store_step now op (mo_store m))\<rparr>"

definition mon_run :: "MonitorOptions \<Rightarrow> (clock \<times> mon_event) list \<Rightarrow> Monitor \<Rightarrow> Monitor" where
  "mon_run opts evs m = fold (\<lambda>(clk, ev). mon_exec opts clk ev) evs m"

text \<open>
  An entry is filed under its own identifier; each timer it holds is a filed callback that carries
  its tokens; an idle candidate has both its timers or none, and then at most two confirmations.
\<close>

definition entry_ok :: "Monitor \<Rightarrow> ID \<Rightarrow> monitoredAgent \<Rightarrow> bool" where
  "entry_ok m i e \<longleftrightarrow> a_ID (ma_record e) = i \<and>
     (\<forall>t. ma_graceTimer e = Some t \<longrightarrow> mget (mo_pending m) t = Some (startupGrace, FinishGrace i (ma_token e))) \<and>
     (\<forall>t. ma_idleTimer e = Some t \<longrightarrow>
        mget (mo_pending m) t = Some (idleConfirmationDelay, ConfirmIdle i (ma_token e) (ma_idleToken e))) \<and>
     (\<forall>t. ma_idleDeadline e = Some t \<longrightarrow>
        mget (mo_pending m) t = Some (idleConfirmationLimit, FinishIdleDeadline i (ma_token e) (ma_idleToken e))) \<and>
     (ma_idleTimer e = None \<longleftrightarrow> ma_idleDeadline e = None) \<and>
     (if ma_idleTimer e = None then ma_idleConfirmations e = 0
      else ma_idleConfirmations e < idleConfirmationCount \<and> ma_graceTimer e = None)"

definition mon_inv :: "Monitor \<Rightarrow> bool" where
  "mon_inv m \<longleftrightarrow> store_ok (mo_store m) \<and> mapok (mo_monitoring m) \<and> mapok (mo_pending m) \<and>
     (\<forall>t \<in> set (map fst (mo_pending m)). t < mo_nextTimer m) \<and>
     (\<forall>i e. mget (mo_monitoring m) i = Some e \<longrightarrow> entry_ok m i e)"

section \<open>The invariant\<close>

definition base :: "Monitor \<Rightarrow> bool" where
  "base m \<longleftrightarrow> store_ok (mo_store m) \<and> mapok (mo_pending m) \<and> (\<forall>t \<in> set (map fst (mo_pending m)). t < mo_nextTimer m)"

text \<open>What the locked functions do to the monitor around the entry they work on.\<close>

definition grows :: "Monitor \<Rightarrow> Monitor \<Rightarrow> bool" where
  "grows m m' \<longleftrightarrow> base m' \<and> mo_monitoring m' = mo_monitoring m \<and> mo_deleting m' = mo_deleting m \<and>
     (\<forall>t v. mget (mo_pending m) t = Some v \<longrightarrow> mget (mo_pending m') t = Some v)"

definition entry_base :: "Monitor \<Rightarrow> ID \<Rightarrow> monitoredAgent \<Rightarrow> bool" where
  "entry_base m i e \<longleftrightarrow> a_ID (ma_record e) = i \<and>
     (\<forall>t. ma_graceTimer e = Some t \<longrightarrow> mget (mo_pending m) t = Some (startupGrace, FinishGrace i (ma_token e)))"

lemma mon_inv_iff: "mon_inv m \<longleftrightarrow> base m \<and> mapok (mo_monitoring m) \<and> (\<forall>i e. mget (mo_monitoring m) i = Some e \<longrightarrow> entry_ok m i e)"
  by (auto simp: mon_inv_def base_def)

lemma grows_refl: "base m \<Longrightarrow> grows m m"
  by (simp add: grows_def)

lemma grows_trans: "grows m m1 \<Longrightarrow> grows m1 m2 \<Longrightarrow> grows m m2"
  by (simp add: grows_def)

lemma entry_ok_grows: "entry_ok m i e \<Longrightarrow> grows m m' \<Longrightarrow> entry_ok m' i e"
  by (simp add: entry_ok_def grows_def)

lemma entry_base_grows: "entry_base m i e \<Longrightarrow> grows m m' \<Longrightarrow> entry_base m' i e"
  by (simp add: entry_base_def grows_def)

lemma entry_ok_base: "entry_ok m i e \<Longrightarrow> entry_base m i e"
  by (simp add: entry_ok_def entry_base_def)

lemma entry_ok_cancel: "entry_base m i e \<Longrightarrow> entry_ok m i (cancelIdleCandidateLocked e)"
  by (simp add: entry_ok_def entry_base_def cancelIdleCandidateLocked_def)

text \<open>Fields that do not matter for the invariant.\<close>

lemma entry_ok_cong:
  assumes "entry_ok m i e" "a_ID (ma_record e') = a_ID (ma_record e)" "ma_token e' = ma_token e"
    "ma_graceTimer e' = ma_graceTimer e" "ma_idleConfirmations e' = ma_idleConfirmations e"
    "ma_idleToken e' = ma_idleToken e" "ma_idleTimer e' = ma_idleTimer e" "ma_idleDeadline e' = ma_idleDeadline e"
  shows "entry_ok m i e'"
  using assms by (simp add: entry_ok_def)

lemma base_fresh: "base m \<Longrightarrow> mget (mo_pending m) (mo_nextTimer m) = None"
  by (auto simp: base_def map_of_eq_None_iff)

lemma grows_AfterFunc:
  assumes "base m"
  shows "grows m (fst (AfterFunc d cb m))" "mget (mo_pending (fst (AfterFunc d cb m))) (snd (AfterFunc d cb m)) = Some (d, cb)"
    "mo_store (fst (AfterFunc d cb m)) = mo_store m" "mo_events (fst (AfterFunc d cb m)) = mo_events m"
  using assms base_fresh [OF assms]
  by (auto simp: AfterFunc_def grows_def base_def update_keys dom_update less_SucI)

text \<open>A successful update on the table of agents, by the refinement of the store.\<close>

lemma UpdateState_Inr:
  assumes ok: "store_ok s" and u: "UpdateState now i u s = (s', Inr ch)"
  shows "agents_of s i = Some (sc_Previous ch)" "sc_Current ch = with_state now u (sc_Previous ch)"
    "agents_of s' = (agents_of s)(i \<mapsto> sc_Current ch)"
    "sc_Changed ch \<longleftrightarrow> (a_State (sc_Previous ch), a_StateReason (sc_Previous ch), a_MatchedRule (sc_Previous ch)) \<noteq>
       (su_State u, su_Reason u, su_MatchedRule u)"
    "a_ID (sc_Previous ch) = i"
proof -
  have v: "table_step now (OpUpdateState i u) (agents_of s) = (agents_of s', OutChange (Inr ch))"
    using store_view_step [OF ok, of now "OpUpdateState i u"] u by simp
  then obtain p where p: "agents_of s i = Some p" by (cases "agents_of s i") (simp_all split: if_splits)
  then show "agents_of s i = Some (sc_Previous ch)" "sc_Current ch = with_state now u (sc_Previous ch)"
    "agents_of s' = (agents_of s)(i \<mapsto> sc_Current ch)"
    "sc_Changed ch \<longleftrightarrow> (a_State (sc_Previous ch), a_StateReason (sc_Previous ch), a_MatchedRule (sc_Previous ch)) \<noteq>
       (su_State u, su_Reason u, su_MatchedRule u)"
    using v by (auto split: if_splits)
  then show "a_ID (sc_Previous ch) = i" using store_okD(3) [OF ok] by blast
qed

lemma UpdateState_Inl: "store_ok s \<Longrightarrow> UpdateState now i u s = (s', Inl err) \<Longrightarrow> s' = s"
  by (auto simp: UpdateState_def Let_def split: if_splits option.splits)

lemma with_state_sel [simp]:
  "a_ID (with_state now u r) = a_ID r" "a_Kind (with_state now u r) = a_Kind r" "a_PaneID (with_state now u r) = a_PaneID r"
  "a_State (with_state now u r) = su_State u"
  by (simp_all add: with_state_def)

lemma UpdateState_store_ok: "store_ok s \<Longrightarrow> store_ok (fst (UpdateState now i u s))"
  using store_ok_step [of s now "OpUpdateState i u"] by simp

lemma updateStateLocked_ok:
  assumes b: "base m" and e: "entry_ok m i e" and r: "updateStateLocked opts clk e u m = (e', m')"
  shows "grows m m' \<and> entry_ok m' i e'"
proof -
  obtain s res where u: "UpdateState (clk 1) (a_ID (ma_record e)) u (mo_store m) = (s, res)" by fastforce
  have ok: "store_ok (mo_store m)" using b by (simp add: base_def)
  have s: "store_ok s" using UpdateState_store_ok [OF ok, of "clk 1" "a_ID (ma_record e)" u] u by simp
  have g: "grows m (m\<lparr>mo_store := s, mo_events := evs\<rparr>)" for evs using b s by (simp add: grows_def base_def)
  have g0: "grows m (m\<lparr>mo_store := s\<rparr>)" using b s by (simp add: grows_def base_def)
  show ?thesis
  proof (cases res)
    case (Inl err)
    then show ?thesis using r u g0 entry_ok_grows [OF e g0] by (auto simp: updateStateLocked_def)
  next
    case (Inr ch)
    have idn: "a_ID (sc_Current ch) = a_ID (ma_record e)" using UpdateState_Inr(2,5) [OF ok] u Inr by simp
    have "m' = m\<lparr>mo_store := s\<rparr> \<or> (\<exists>evs. m' = m\<lparr>mo_store := s, mo_events := evs\<rparr>)" "entry_ok m i e'"
      using r u Inr idn by (auto simp: updateStateLocked_def Let_def split: if_splits intro!: entry_ok_cong [OF e])
    then show ?thesis using g g0 entry_ok_grows by blast
  qed
qed

lemma applyDetectionLocked_ok:
  "base m \<Longrightarrow> entry_ok m i e \<Longrightarrow> applyDetectionLocked opts clk e x m = (e', m') \<Longrightarrow> grows m m' \<and> entry_ok m' i e'"
  unfolding applyDetectionLocked_def by (rule updateStateLocked_ok)

lemma startIdleCandidateLocked_ok:
  assumes b: "base m" and e: "entry_ok m i e" and g: "ma_graceTimer e = None"
    and r: "startIdleCandidateLocked e m = (e', m')"
  shows "grows m m' \<and> entry_ok m' i e'"
proof (cases "ma_idleTimer e \<noteq> None \<or> ma_idleDeadline e \<noteq> None")
  case True
  then show ?thesis using r e grows_refl [OF b] by (auto simp: startIdleCandidateLocked_def)
next
  case False
  let ?tok = "ma_idleToken e + 1"
  have i: "a_ID (ma_record e) = i" using e by (simp add: entry_ok_def)
  obtain m1 t1 where 1: "AfterFunc idleConfirmationDelay (ConfirmIdle i (ma_token e) ?tok) m = (m1, t1)" by fastforce
  obtain m2 t2 where 2: "AfterFunc idleConfirmationLimit (FinishIdleDeadline i (ma_token e) ?tok) m1 = (m2, t2)" by fastforce
  note a1 = grows_AfterFunc [OF b, of idleConfirmationDelay "ConfirmIdle i (ma_token e) ?tok", unfolded 1 fst_conv snd_conv]
  have b1: "base m1" using a1(1) by (simp add: grows_def)
  note a2 = grows_AfterFunc [OF b1, of idleConfirmationLimit "FinishIdleDeadline i (ma_token e) ?tok", unfolded 2 fst_conv snd_conv]
  have "mget (mo_pending m2) t1 = Some (idleConfirmationDelay, ConfirmIdle i (ma_token e) ?tok)"
    using a1(2) a2(1) by (simp add: grows_def)
  moreover have "e' = e\<lparr>ma_idleConfirmations := 0, ma_idleToken := ?tok, ma_idleTimer := Some t1, ma_idleDeadline := Some t2\<rparr>"
    "m' = m2" using r False 1 2 i by (auto simp: startIdleCandidateLocked_def Let_def)
  ultimately show ?thesis using a1 a2 g i grows_trans [OF a1(1) a2(1)]
    by (simp add: entry_ok_def idleConfirmationCount_def)
qed

lemma evaluateLocked_ok:
  assumes b: "base m" and e: "entry_ok m i e" and g: "ma_graceTimer e = None" and r: "evaluateLocked opts clk e m = (e', m')"
  shows "grows m m' \<and> entry_ok m' i e'"
proof -
  have c: "entry_ok m i (cancelIdleCandidateLocked e)" using entry_ok_cancel [OF entry_ok_base [OF e]] .
  show ?thesis
  proof (cases "detectEntry opts e")
    case (Inl err)
    then show ?thesis using r c grows_refl [OF b] by (auto simp: evaluateLocked_def)
  next
    case (Inr x)
    then show ?thesis using r c grows_refl [OF b] startIdleCandidateLocked_ok [OF b e g] applyDetectionLocked_ok [OF b c]
      by (auto simp: evaluateLocked_def split: if_splits)
  qed
qed

text \<open>The invariant for all entries but one.\<close>

definition inv_but :: "ID \<Rightarrow> Monitor \<Rightarrow> bool" where
  "inv_but i m \<longleftrightarrow> base m \<and> mapok (mo_monitoring m) \<and>
     (\<forall>j e. j \<noteq> i \<longrightarrow> mget (mo_monitoring m) j = Some e \<longrightarrow> entry_ok m j e)"

lemma mon_inv_but: "mon_inv m \<Longrightarrow> inv_but i m"
  by (simp add: mon_inv_iff inv_but_def)

lemma mon_inv_butI:
  assumes "inv_but i m" "\<And>e. mget (mo_monitoring m) i = Some e \<Longrightarrow> entry_ok m i e"
  shows "mon_inv m"
proof -
  have "entry_ok m j e" if "mget (mo_monitoring m) j = Some e" for j e
    using that assms by (cases "j = i") (simp_all add: inv_but_def)
  then show ?thesis using assms(1) by (simp add: mon_inv_iff inv_but_def)
qed

lemma mon_inv_put:
  assumes inv: "inv_but i m" and g: "grows m m'" and e: "entry_ok m' i e"
  shows "mon_inv (putEntry i (e, m'))"
proof -
  have c: "entry_ok (putEntry i (e, m')) j x = entry_ok m' j x" for j x by (simp add: entry_ok_def putEntry_def)
  have "mapok (mo_monitoring m')" "base (putEntry i (e, m'))"
    using inv g by (simp_all add: inv_but_def grows_def base_def putEntry_def)
  moreover have "entry_ok m' j x" if "mget (mo_monitoring m') j = Some x" "j \<noteq> i" for j x
    using that inv g entry_ok_grows [OF _ g] by (simp add: inv_but_def grows_def)
  ultimately show ?thesis unfolding mon_inv_iff c using e by (auto simp: putEntry_def split: if_splits)
qed

lemma mon_inv_put_pair: "inv_but i m \<Longrightarrow> grows m (snd em) \<and> entry_ok (snd em) i (fst em) \<Longrightarrow> mon_inv (putEntry i em)"
  using mon_inv_put [of i m "snd em" "fst em"] by simp

lemma withEntry_inv:
  "mon_inv m \<Longrightarrow> (\<And>e. mget (mo_monitoring m) i = Some e \<Longrightarrow> entry_ok m i e \<Longrightarrow> P e \<Longrightarrow> mon_inv (f e)) \<Longrightarrow>
    mon_inv (withEntry i P f m)"
  by (auto simp: withEntry_def mon_inv_iff split: option.split)

lemma evaluateLocked_pair:
  "base m \<Longrightarrow> entry_ok m i e \<Longrightarrow> ma_graceTimer e = None \<Longrightarrow>
    grows m (snd (evaluateLocked opts clk e m)) \<and> entry_ok (snd (evaluateLocked opts clk e m)) i (fst (evaluateLocked opts clk e m))"
  using evaluateLocked_ok [of m i e opts clk] by (metis prod.collapse)

lemma updateStateLocked_pair:
  "base m \<Longrightarrow> entry_ok m i e \<Longrightarrow>
    grows m (snd (updateStateLocked opts clk e u m)) \<and> entry_ok (snd (updateStateLocked opts clk e u m)) i (fst (updateStateLocked opts clk e u m))"
  using updateStateLocked_ok [of m i e opts clk u] by (metis prod.collapse)

lemma applyDetectionLocked_pair:
  "base m \<Longrightarrow> entry_ok m i e \<Longrightarrow>
    grows m (snd (applyDetectionLocked opts clk e x m)) \<and> entry_ok (snd (applyDetectionLocked opts clk e x m)) i (fst (applyDetectionLocked opts clk e x m))"
  unfolding applyDetectionLocked_def by (rule updateStateLocked_pair)

lemma mon_inv_cong:
  "mon_inv m \<Longrightarrow> mo_monitoring m' = mo_monitoring m \<Longrightarrow> mo_pending m' = mo_pending m \<Longrightarrow> mo_nextTimer m' = mo_nextTimer m \<Longrightarrow>
    store_ok (mo_store m') \<Longrightarrow> mon_inv m'"
  by (simp add: mon_inv_def entry_ok_def)

lemma mon_inv_drop: "mon_inv m \<Longrightarrow> mon_inv (m\<lparr>mo_monitoring := mdel (mo_monitoring m) i\<rparr>)"
  by (auto simp: mon_inv_def entry_ok_def split: if_splits)

lemma mon_inv_start:
  assumes inv: "mon_inv m"
  shows "mon_inv (startLocked r m)"
proof -
  have b: "inv_but (a_ID r) (m\<lparr>mo_nextToken := mo_nextToken m + 1\<rparr>)"
    using mon_inv_cong [OF inv, of "m\<lparr>mo_nextToken := mo_nextToken m + 1\<rparr>"] inv by (intro mon_inv_but) (simp add: mon_inv_def)
  show ?thesis unfolding startLocked_def Let_def
    by (rule mon_inv_put [OF b]) (use b in \<open>simp_all add: grows_refl inv_but_def entry_ok_def\<close>)
qed

lemma entry_ok_stopped:
  "entry_base m i e \<Longrightarrow> entry_ok m i ((clearObservations (stopTimersLocked e))\<lparr>ma_token := tok, ma_paneGeneration := g\<rparr>)"
  "entry_base m i e \<Longrightarrow> entry_ok m i ((clearObservations (stopTimersLocked e))\<lparr>ma_token := tok\<rparr>)"
  by (simp_all add: entry_ok_def entry_base_def clearObservations_def stopTimersLocked_def cancelIdleCandidateLocked_def)

lemma mon_inv_opened:
  assumes inv: "mon_inv m"
  shows "mon_inv (paneOpenedLocked r pane m)"
  unfolding paneOpenedLocked_def
proof (rule withEntry_inv [OF inv])
  fix e0 assume e0: "entry_ok m (a_ID r) e0"
  let ?tok = "mo_nextToken m + 1" and ?m = "m\<lparr>mo_nextToken := mo_nextToken m + 1\<rparr>"
  let ?e = "(clearObservations (stopTimersLocked e0))\<lparr>ma_token := ?tok, ma_paneGeneration := p_Generation pane\<rparr>"
  have b: "mon_inv ?m" by (rule mon_inv_cong [OF inv]) (use inv in \<open>simp_all add: mon_inv_def\<close>)
  obtain m1 t where 1: "AfterFunc startupGrace (FinishGrace (a_ID r) ?tok) ?m = (m1, t)" by fastforce
  have bm: "base ?m" using b by (simp add: mon_inv_iff)
  note a = grows_AfterFunc [OF bm, of startupGrace "FinishGrace (a_ID r) ?tok", unfolded 1 fst_conv snd_conv]
  have "entry_base ?m (a_ID r) e0" using e0 by (simp add: entry_ok_def entry_base_def)
  then have "entry_ok m1 (a_ID r) ?e" using entry_ok_grows [OF entry_ok_stopped(1) a(1)] by blast
  then have "entry_ok m1 (a_ID r) (?e\<lparr>ma_graceTimer := Some t\<rparr>)" using a(2)
    by (simp add: entry_ok_def clearObservations_def stopTimersLocked_def cancelIdleCandidateLocked_def)
  from mon_inv_put [OF mon_inv_but [OF b] a(1) this]
  show "mon_inv (let tok = ?tok; e = (clearObservations (stopTimersLocked e0))\<lparr>ma_token := tok, ma_paneGeneration := p_Generation pane\<rparr>;
      (m1, t) = AfterFunc startupGrace (FinishGrace (a_ID r) tok) (m\<lparr>mo_nextToken := tok\<rparr>)
      in putEntry (a_ID r) (e\<lparr>ma_graceTimer := Some t\<rparr>, m1))"
    by (simp add: Let_def 1)
qed

lemma mon_inv_output: assumes inv: "mon_inv m" shows "mon_inv (paneOutputLocked opts clk r pane s m)"
  unfolding paneOutputLocked_def Let_def
proof (rule withEntry_inv [OF inv], rule mon_inv_put_pair [OF mon_inv_but [OF inv]])
  fix e0 assume e0: "entry_ok m (a_ID r) e0"
  let ?e = "e0\<lparr>ma_latestInput := (ma_latestInput e0)\<lparr>di_Screen := s\<rparr>, ma_hasInput := True, ma_observedAt := clk 0\<rparr>"
  have "entry_ok m (a_ID r) ?e" by (rule entry_ok_cong [OF e0]) simp_all
  moreover have "base m" using inv by (simp add: mon_inv_iff)
  ultimately show "grows m (snd (if ma_graceTimer ?e \<noteq> None then (?e, m) else evaluateLocked opts clk ?e m)) \<and>
      entry_ok (snd (if ma_graceTimer ?e \<noteq> None then (?e, m) else evaluateLocked opts clk ?e m)) (a_ID r)
        (fst (if ma_graceTimer ?e \<noteq> None then (?e, m) else evaluateLocked opts clk ?e m))"
    using evaluateLocked_pair [of m "a_ID r" ?e] grows_refl by auto
qed

lemma mon_inv_metadata: assumes inv: "mon_inv m" shows "mon_inv (paneMetadataLocked opts clk r pane title m)"
  unfolding paneMetadataLocked_def
proof (rule withEntry_inv [OF inv])
  fix e0 assume e0: "entry_ok m (a_ID r) e0"
  define e1 where "e1 = e0\<lparr>ma_paneTitle := [], ma_titleAvailable := title \<noteq> None, ma_titleObservedAt := zeroTime,
    ma_latestInput := (ma_latestInput e0)\<lparr>di_OSCTitle := []\<rparr>\<rparr>"
  define e where "e = (case title of None \<Rightarrow> e1 | Some t \<Rightarrow>
    let active = activePaneTitle (op_lib opts) (op_Detector opts) (a_Kind r) t
    in e1\<lparr>ma_paneTitle := t, ma_titleObservedAt := clk 0, ma_latestInput := (ma_latestInput e1)\<lparr>di_OSCTitle := active\<rparr>,
          ma_hasInput := (ma_hasInput e1 \<or> active \<noteq> [])\<rparr>)"
  have "entry_ok m (a_ID r) e"
    by (rule entry_ok_cong [OF e0]) (simp_all add: e_def e1_def Let_def split: option.split)
  moreover have "base m" using inv by (simp add: mon_inv_iff)
  ultimately have "grows m (snd (if ma_graceTimer e = None \<and> ma_hasInput e then evaluateLocked opts clk e m else (e, m))) \<and>
     entry_ok (snd (if ma_graceTimer e = None \<and> ma_hasInput e then evaluateLocked opts clk e m else (e, m))) (a_ID r)
       (fst (if ma_graceTimer e = None \<and> ma_hasInput e then evaluateLocked opts clk e m else (e, m)))"
    using evaluateLocked_pair [of m "a_ID r" e] grows_refl by auto
  from mon_inv_put_pair [OF mon_inv_but [OF inv] this]
  show "mon_inv (let e1 = e0\<lparr>ma_paneTitle := [], ma_titleAvailable := title \<noteq> None, ma_titleObservedAt := zeroTime,
        ma_latestInput := (ma_latestInput e0)\<lparr>di_OSCTitle := []\<rparr>\<rparr>;
      e = (case title of None \<Rightarrow> e1 | Some t \<Rightarrow>
        let active = activePaneTitle (op_lib opts) (op_Detector opts) (a_Kind r) t
        in e1\<lparr>ma_paneTitle := t, ma_titleObservedAt := clk 0, ma_latestInput := (ma_latestInput e1)\<lparr>di_OSCTitle := active\<rparr>,
              ma_hasInput := (ma_hasInput e1 \<or> active \<noteq> [])\<rparr>)
      in putEntry (a_ID r) (if ma_graceTimer e = None \<and> ma_hasInput e then evaluateLocked opts clk e m else (e, m)))"
    unfolding e_def e1_def Let_def .
qed

lemma mon_inv_error: assumes inv: "mon_inv m" shows "mon_inv (paneErrorLocked opts clk r pane cause m)"
  unfolding paneErrorLocked_def Let_def
proof (rule withEntry_inv [OF inv])
  fix e0 assume e0: "entry_ok m (a_ID r) e0"
  let ?m = "m\<lparr>mo_nextToken := mo_nextToken m + 1\<rparr>"
  let ?e = "(clearObservations (stopTimersLocked e0))\<lparr>ma_token := mo_nextToken m + 1\<rparr>"
  have b: "mon_inv ?m" by (rule mon_inv_cong [OF inv]) (use inv in \<open>simp_all add: mon_inv_def\<close>)
  have "entry_base ?m (a_ID r) e0" using e0 by (simp add: entry_ok_def entry_base_def)
  then have "entry_ok ?m (a_ID r) ?e" by (rule entry_ok_stopped(2))
  moreover have "base ?m" using b by (simp add: mon_inv_iff)
  ultimately show "mon_inv (putEntry (a_ID r) (updateStateLocked opts clk ?e u ?m))" for u
    using mon_inv_put_pair [OF mon_inv_but [OF b]] updateStateLocked_pair by blast
qed

text \<open>A callback that fires: its timer is no longer filed, and no other entry holds it.\<close>

fun cb_id :: "callback \<Rightarrow> ID" where
  "cb_id (FinishGrace i _) = i"
| "cb_id (ConfirmIdle i _ _) = i"
| "cb_id (FinishIdleDeadline i _ _) = i"

definition unheld :: "nat \<Rightarrow> monitoredAgent \<Rightarrow> bool" where
  "unheld t e \<longleftrightarrow> ma_graceTimer e \<noteq> Some t \<and> ma_idleTimer e \<noteq> Some t \<and> ma_idleDeadline e \<noteq> Some t"

lemma entry_ok_fired:
  assumes "mon_inv m" "entry_ok m i e" "unheld t e"
  shows "entry_ok (m\<lparr>mo_pending := mdel (mo_pending m) t\<rparr>) i e"
  using assms by (auto simp: entry_ok_def unheld_def mon_inv_def)

lemma inv_but_fired:
  assumes inv: "mon_inv m" and t: "mget (mo_pending m) t = Some (d, cb)"
  shows "inv_but (cb_id cb) (m\<lparr>mo_pending := mdel (mo_pending m) t\<rparr>)"
proof -
  have "unheld t e" if "mget (mo_monitoring m) j = Some e" "j \<noteq> cb_id cb" for j e
  proof -
    have "entry_ok m j e" using that inv by (simp add: mon_inv_iff)
    then show ?thesis using that(2) t by (auto simp: entry_ok_def unheld_def)
  qed
  moreover have "base (m\<lparr>mo_pending := mdel (mo_pending m) t\<rparr>)"
    using inv by (auto simp: mon_inv_def base_def delete_keys distinct_removeAll)
  ultimately show ?thesis using inv entry_ok_fired [OF inv] by (simp add: inv_but_def mon_inv_iff)
qed

lemma fired_inv:
  assumes inv: "mon_inv m" and t: "mget (mo_pending m) t = Some (d, cb)"
    and free: "\<And>e. entry_ok m (cb_id cb) e \<Longrightarrow> \<not> P e \<Longrightarrow> unheld t e"
    and step: "\<And>e. entry_ok m (cb_id cb) e \<Longrightarrow> P e \<Longrightarrow> mon_inv (f e)"
  shows "mon_inv (withEntry (cb_id cb) P f (m\<lparr>mo_pending := mdel (mo_pending m) t\<rparr>))"
proof (cases "mget (mo_monitoring m) (cb_id cb)")
  case None
  then show ?thesis using inv_but_fired [OF inv t] by (auto simp: withEntry_def intro: mon_inv_butI)
next
  case (Some e)
  then have e: "entry_ok m (cb_id cb) e" using inv by (simp add: mon_inv_iff)
  show ?thesis
  proof (cases "P e")
    case False
    then have "mon_inv (m\<lparr>mo_pending := mdel (mo_pending m) t\<rparr>)"
      using Some entry_ok_fired [OF inv e free [OF e]] by (intro mon_inv_butI [OF inv_but_fired [OF inv t]]) simp
    then show ?thesis using Some False by (simp add: withEntry_def)
  qed (use Some step [OF e] in \<open>simp add: withEntry_def\<close>)
qed

lemma mon_inv_finishGrace:
  assumes inv: "mon_inv m" and t: "mget (mo_pending m) t = Some (d, FinishGrace i tok)"
  shows "mon_inv (finishGrace opts clk i tok (m\<lparr>mo_pending := mdel (mo_pending m) t\<rparr>))"
proof -
  let ?m = "m\<lparr>mo_pending := mdel (mo_pending m) t\<rparr>"
  note but = inv_but_fired [OF inv t, unfolded cb_id.simps]
  have b: "base ?m" using but by (simp add: inv_but_def)
  show ?thesis unfolding finishGrace_def
  proof (rule fired_inv [OF inv t, unfolded cb_id.simps])
    fix e assume e: "entry_ok m i e"
    show "unheld t e" if "ma_token e \<noteq> tok" using that e t by (auto simp: entry_ok_def unheld_def)
    let ?e = "e\<lparr>ma_graceTimer := None\<rparr>"
    have "entry_ok ?m i ?e" using e t inv by (auto simp: entry_ok_def mon_inv_def)
    then show "mon_inv (let e = ?e in putEntry i (if ma_hasInput e then evaluateLocked opts clk e ?m else (e, ?m)))"
      unfolding Let_def using evaluateLocked_pair [OF b, of i ?e] grows_refl [OF b]
      by (intro mon_inv_put_pair [OF but]) auto
  qed
qed

lemma mon_inv_confirmIdle:
  assumes inv: "mon_inv m" and t: "mget (mo_pending m) t = Some (d, ConfirmIdle i tok idle)"
  shows "mon_inv (confirmIdle opts clk i tok idle (m\<lparr>mo_pending := mdel (mo_pending m) t\<rparr>))"
proof -
  let ?m = "m\<lparr>mo_pending := mdel (mo_pending m) t\<rparr>"
  note but = inv_but_fired [OF inv t, unfolded cb_id.simps]
  have b: "base ?m" using but by (simp add: inv_but_def)
  show ?thesis unfolding confirmIdle_def
  proof (rule fired_inv [OF inv t, unfolded cb_id.simps])
    fix e0 assume e0: "entry_ok m i e0"
    show "unheld t e0" if "\<not> (ma_token e0 = tok \<and> ma_idleToken e0 = idle \<and> ma_idleTimer e0 \<noteq> None)"
      using that e0 t by (auto simp: entry_ok_def unheld_def)
    assume P: "ma_token e0 = tok \<and> ma_idleToken e0 = idle \<and> ma_idleTimer e0 \<noteq> None"
    let ?e = "e0\<lparr>ma_idleTimer := None\<rparr>"
    have g: "ma_graceTimer e0 = None" using e0 P by (auto simp: entry_ok_def split: if_splits)
    have c: "entry_ok ?m i (cancelIdleCandidateLocked ?e)"
      "entry_ok ?m i (cancelIdleCandidateLocked (?e\<lparr>ma_idleConfirmations := k\<rparr>))" for k
      using e0 g by (simp_all add: entry_ok_def cancelIdleCandidateLocked_def)
    obtain m1 t1 where 1: "AfterFunc idleConfirmationDelay (ConfirmIdle i tok idle) ?m = (m1, t1)" by fastforce
    note a = grows_AfterFunc [OF b, of idleConfirmationDelay "ConfirmIdle i tok idle", unfolded 1 fst_conv snd_conv]
    obtain dl where dl: "ma_idleDeadline e0 = Some dl" "mget (mo_pending m) dl = Some (idleConfirmationLimit, FinishIdleDeadline i tok idle)"
      using e0 P by (auto simp: entry_ok_def)
    then have "mget (mo_pending ?m) dl = Some (idleConfirmationLimit, FinishIdleDeadline i tok idle)"
      using t inv by (auto simp: mon_inv_def)
    then have "mget (mo_pending m1) dl = Some (idleConfirmationLimit, FinishIdleDeadline i tok idle)"
      using a(1) by (simp add: grows_def)
    then have r: "entry_ok m1 i (?e\<lparr>ma_idleConfirmations := Suc (ma_idleConfirmations ?e), ma_idleTimer := Some t1\<rparr>)"
      if "\<not> idleConfirmationCount \<le> Suc (ma_idleConfirmations ?e)"
      using that a(2) dl(1) P g e0 by (simp add: entry_ok_def)
    show "mon_inv (let e = ?e in putEntry i
           (case detectEntry opts e of
              Inl _ \<Rightarrow> (cancelIdleCandidateLocked e, ?m)
            | Inr x \<Rightarrow>
                if d_SkipStateUpdate x then (cancelIdleCandidateLocked e, ?m)
                else if d_State x \<noteq> StateIdle \<or> d_VisibleIdle x
                  then applyDetectionLocked opts clk (cancelIdleCandidateLocked e) x ?m
                else let e1 = e\<lparr>ma_idleConfirmations := Suc (ma_idleConfirmations e)\<rparr>
                     in if idleConfirmationCount \<le> ma_idleConfirmations e1
                        then applyDetectionLocked opts clk (cancelIdleCandidateLocked e1) x ?m
                        else let (m1, t) = AfterFunc idleConfirmationDelay (ConfirmIdle i tok idle) ?m
                             in (e1\<lparr>ma_idleTimer := Some t\<rparr>, m1)))"
      unfolding Let_def
      by (rule mon_inv_put_pair [OF but], cases "detectEntry opts ?e")
        (use c r a(1) in \<open>auto simp: 1 grows_refl [OF b] applyDetectionLocked_pair [OF b, where i = i]\<close>)
  qed
qed

lemma mon_inv_finishIdleDeadline:
  assumes inv: "mon_inv m" and t: "mget (mo_pending m) t = Some (d, FinishIdleDeadline i tok idle)"
  shows "mon_inv (finishIdleDeadline opts clk i tok idle (m\<lparr>mo_pending := mdel (mo_pending m) t\<rparr>))"
proof -
  let ?m = "m\<lparr>mo_pending := mdel (mo_pending m) t\<rparr>"
  note but = inv_but_fired [OF inv t, unfolded cb_id.simps]
  have b: "base ?m" using but by (simp add: inv_but_def)
  show ?thesis unfolding finishIdleDeadline_def
  proof (rule fired_inv [OF inv t, unfolded cb_id.simps])
    fix e0 assume e0: "entry_ok m i e0"
    show "unheld t e0" if "\<not> (ma_token e0 = tok \<and> ma_idleToken e0 = idle \<and> ma_idleDeadline e0 \<noteq> None)"
      using that e0 t by (auto simp: entry_ok_def unheld_def)
    assume P: "ma_token e0 = tok \<and> ma_idleToken e0 = idle \<and> ma_idleDeadline e0 \<noteq> None"
    let ?e = "e0\<lparr>ma_idleDeadline := None\<rparr>"
    have "ma_graceTimer e0 = None" using e0 P by (auto simp: entry_ok_def split: if_splits)
    then have c: "entry_ok ?m i (cancelIdleCandidateLocked ?e)" using e0
      by (simp add: entry_ok_def cancelIdleCandidateLocked_def)
    show "mon_inv (let e = ?e in putEntry i
           (case detectEntry opts e of
              Inl _ \<Rightarrow> (cancelIdleCandidateLocked e, ?m)
            | Inr x \<Rightarrow> if d_SkipStateUpdate x then (cancelIdleCandidateLocked e, ?m)
                else applyDetectionLocked opts clk (cancelIdleCandidateLocked e) x ?m))"
      unfolding Let_def
      by (rule mon_inv_put_pair [OF but], cases "detectEntry opts ?e")
        (use c in \<open>auto simp: grows_refl [OF b] applyDetectionLocked_pair [OF b, where i = i]\<close>)
  qed
qed

lemma mon_inv_step:
  assumes inv: "mon_inv m"
  shows "mon_inv (mon_exec opts clk ev m)"
proof (cases ev)
  case (EvFire t)
  show ?thesis
  proof (cases "mget (mo_pending m) t")
    case (Some dc)
    obtain d cb where "dc = (d, cb)" by fastforce
    then show ?thesis
      using EvFire Some mon_inv_finishGrace [OF inv] mon_inv_confirmIdle [OF inv] mon_inv_finishIdleDeadline [OF inv]
      by (cases cb) auto
  qed (use EvFire inv in simp)
next
  case (EvDelete i)
  have "store_ok (fst (DeleteAgent i (mo_store m)))"
    using store_ok_step [of "mo_store m" 0 "OpDelete i"] inv by (simp add: mon_inv_def)
  then show ?thesis using EvDelete mon_inv_cong [OF inv] inv by (auto simp: paneClosedDelete_def)
next
  case (EvStore now op)
  then show ?thesis using mon_inv_cong [OF inv] store_ok_step [of "mo_store m" now op] inv by (simp add: mon_inv_def)
next
  case (EvClosed r pane)
  have "mon_inv (m\<lparr>mo_monitoring := mdel (mo_monitoring m) (a_ID r), mo_deleting := mo_deleting m @ [a_ID r]\<rparr>)"
    by (rule mon_inv_cong [OF mon_inv_drop [OF inv, of "a_ID r"]]) (use inv in \<open>simp_all add: mon_inv_def\<close>)
  then show ?thesis using EvClosed by (auto simp: paneClosedLocked_def intro!: withEntry_inv [OF inv])
next
  case EvClose
  then show ?thesis using inv by (simp add: MonitorClose_def mon_inv_def)
next
  case (EvStop i)
  then show ?thesis using mon_inv_drop [OF inv] by (auto simp: MonitorStop_def intro!: withEntry_inv [OF inv])
qed (simp_all add: mon_inv_start [OF inv] mon_inv_opened [OF inv] mon_inv_output [OF inv] mon_inv_metadata [OF inv]
      mon_inv_error [OF inv])

lemma mon_inv_New: "store_ok s \<Longrightarrow> mon_inv (NewMonitor s)"
  by (simp add: mon_inv_def NewMonitor_def)

lemma mon_inv_run: "mon_inv m \<Longrightarrow> mon_inv (mon_run opts evs m)"
  unfolding mon_run_def by (induction evs arbitrary: m) (auto simp: mon_inv_step)

section \<open>Timers and confirmation\<close>

lemma updateStateLocked_sel [simp]:
  "ma_graceTimer (fst (updateStateLocked opts clk e u m)) = ma_graceTimer e"
  "ma_idleTimer (fst (updateStateLocked opts clk e u m)) = ma_idleTimer e"
  "ma_idleDeadline (fst (updateStateLocked opts clk e u m)) = ma_idleDeadline e"
  "ma_latestInput (fst (updateStateLocked opts clk e u m)) = ma_latestInput e"
  by (simp_all add: updateStateLocked_def Let_def split: prod.split sum.split)

lemma cancel_sel [simp]:
  "ma_graceTimer (cancelIdleCandidateLocked e) = ma_graceTimer e" "ma_idleTimer (cancelIdleCandidateLocked e) = None"
  "ma_idleDeadline (cancelIdleCandidateLocked e) = None" "ma_record (cancelIdleCandidateLocked e) = ma_record e"
  "ma_latestInput (cancelIdleCandidateLocked e) = ma_latestInput e"
  by (simp_all add: cancelIdleCandidateLocked_def)

lemma candidate_sel [simp]:
  "ma_graceTimer (fst (startIdleCandidateLocked e m)) = ma_graceTimer e"
  "ma_record (fst (startIdleCandidateLocked e m)) = ma_record e"
  by (simp_all add: startIdleCandidateLocked_def Let_def split: prod.split)

lemma applyDetectionLocked_sel [simp]:
  "ma_graceTimer (fst (applyDetectionLocked opts clk e x m)) = ma_graceTimer e"
  "ma_idleTimer (fst (applyDetectionLocked opts clk e x m)) = ma_idleTimer e"
  "ma_idleDeadline (fst (applyDetectionLocked opts clk e x m)) = ma_idleDeadline e"
  "ma_latestInput (fst (applyDetectionLocked opts clk e x m)) = ma_latestInput e"
  by (simp_all add: applyDetectionLocked_def)

lemma evaluateLocked_grace [simp]: "ma_graceTimer (fst (evaluateLocked opts clk e m)) = ma_graceTimer e"
  by (simp add: evaluateLocked_def split: sum.split)

lemma monitoring_putEntry [simp]: "mget (mo_monitoring (putEntry i em)) i = Some (fst em)"
  by (simp add: putEntry_def)

lemma grace_ends:
  assumes "entry_ok m i e" "mget (mo_monitoring m) i = Some e" "ma_graceTimer e = Some t"
  shows "\<exists>e'. mget (mo_monitoring (mon_exec opts clk (EvFire t) m)) i = Some e' \<and> ma_graceTimer e' = None"
  using assms by (simp add: entry_ok_def finishGrace_def withEntry_def Let_def)

lemma candidate_ends:
  assumes "entry_ok m i e" "mget (mo_monitoring m) i = Some e" "ma_idleDeadline e = Some t"
  shows "\<exists>e'. mget (mo_monitoring (mon_exec opts clk (EvFire t) m)) i = Some e' \<and> ma_idleTimer e' = None \<and> ma_idleDeadline e' = None"
  using assms
  by (cases "detectEntry opts (e\<lparr>ma_idleDeadline := None\<rparr>)") (simp_all add: entry_ok_def finishIdleDeadline_def withEntry_def Let_def)

text \<open>The update an entry gets: its state afterwards is the new one, or it did not change.\<close>

lemma updateStateLocked_state:
  assumes "store_ok (mo_store m)"
  shows "ma_record (fst (updateStateLocked opts clk e u m)) = ma_record e \<or>
    a_State (ma_record (fst (updateStateLocked opts clk e u m))) = su_State u"
proof (cases "UpdateState (clk 1) (a_ID (ma_record e)) u (mo_store m)")
  case (Pair s res)
  then show ?thesis using UpdateState_Inr(2) [OF assms]
    by (cases res) (auto simp: updateStateLocked_def Let_def)
qed

text \<open>A decision to let a working agent be idle, and what it rests on.\<close>

definition idle_decision :: "MonitorOptions \<Rightarrow> Kind \<Rightarrow> DetectionInput \<Rightarrow> bool \<Rightarrow> bool" where
  "idle_decision opts kind inp visible \<longleftrightarrow>
     (\<exists>x. Detect (op_lib opts) (op_Detector opts) kind inp = Inr x \<and> \<not> d_SkipStateUpdate x \<and> d_State x = StateIdle \<and>
        d_VisibleIdle x = visible)"

lemma applyDetection_idle:
  assumes "store_ok (mo_store m)" "a_State (ma_record e) = StateWorking" "detectEntry opts e' = Inr x" "\<not> d_SkipStateUpdate x"
    "ma_record e' = ma_record e" "a_State (ma_record (fst (applyDetectionLocked opts clk e x m))) = StateIdle"
  shows "idle_decision opts (a_Kind (ma_record e)) (ma_latestInput e') (d_VisibleIdle x)"
proof -
  have "StateWorking \<noteq> StateIdle" by (simp add: state_defs)
  then have "d_State x = StateIdle"
    using updateStateLocked_state [OF assms(1), of opts clk e "\<lparr>su_State = d_State x, su_Reason = d_Reason x, su_MatchedRule = d_RuleID x\<rparr>"]
      assms(2,6) by (auto simp: applyDetectionLocked_def)
  then show ?thesis using assms(3-5) by (simp add: idle_decision_def detectEntry_def)
qed

lemma evaluate_idle:
  assumes ok: "store_ok (mo_store m)" and w: "a_State (ma_record e) = StateWorking"
    and i: "a_State (ma_record (fst (evaluateLocked opts clk e m))) = StateIdle"
  shows "idle_decision opts (a_Kind (ma_record e)) (ma_latestInput (fst (evaluateLocked opts clk e m))) True"
proof -
  have ne: "StateWorking \<noteq> StateIdle" by (simp add: state_defs)
  obtain x where x: "detectEntry opts e = Inr x" "\<not> d_SkipStateUpdate x" "\<not> (d_State x = StateIdle \<and> \<not> d_VisibleIdle x)"
    and r: "evaluateLocked opts clk e m = applyDetectionLocked opts clk (cancelIdleCandidateLocked e) x m"
    using w i ne by (cases "detectEntry opts e") (auto simp: evaluateLocked_def split: if_splits)
  have dec: "idle_decision opts (a_Kind (ma_record e)) (ma_latestInput e) (d_VisibleIdle x)"
    using applyDetection_idle [OF ok, of "cancelIdleCandidateLocked e" opts e x clk, OF _ x(1,2)] w i [unfolded r]
    unfolding cancel_sel by blast
  then have "d_State x = StateIdle" using x(1) by (auto simp: idle_decision_def detectEntry_def)
  then have "d_VisibleIdle x" using x(3) by blast
  then show ?thesis using dec unfolding r by simp
qed

lemma putEntry_other: "j \<noteq> i \<Longrightarrow> mget (mo_monitoring (putEntry i em)) j = mget (mo_monitoring (snd em)) j"
  by (simp add: putEntry_def)

lemma monitoring_locked [simp]:
  "mo_monitoring (snd (updateStateLocked opts clk e u m)) = mo_monitoring m"
  "mo_monitoring (snd (applyDetectionLocked opts clk e x m)) = mo_monitoring m"
  "mo_monitoring (snd (startIdleCandidateLocked e m)) = mo_monitoring m"
  "mo_monitoring (snd (evaluateLocked opts clk e m)) = mo_monitoring m"
proof -
  show 1: "mo_monitoring (snd (updateStateLocked opts clk e u m)) = mo_monitoring m" for e u
    by (simp add: updateStateLocked_def Let_def split: prod.split sum.split)
  show 2: "mo_monitoring (snd (applyDetectionLocked opts clk e x m)) = mo_monitoring m" for e x
    by (simp add: applyDetectionLocked_def 1)
  show 3: "mo_monitoring (snd (startIdleCandidateLocked e m)) = mo_monitoring m"
    by (simp add: startIdleCandidateLocked_def AfterFunc_def Let_def)
  show "mo_monitoring (snd (evaluateLocked opts clk e m)) = mo_monitoring m"
    by (simp add: evaluateLocked_def 2 3 split: sum.split)
qed

text \<open>A call that takes an entry from working to idle found that entry and decided so.\<close>

lemma withEntry_idle:
  assumes e: "mget (mo_monitoring m) i = Some e" "a_State (ma_record e) = StateWorking"
    and e': "mget (mo_monitoring (withEntry k P (\<lambda>e0. putEntry k (G e0)) m0)) i = Some e'" "a_State (ma_record e') = StateIdle"
    and m: "mo_monitoring m0 = mo_monitoring m" "\<And>e0. mo_monitoring (snd (G e0)) = mo_monitoring m"
  shows "k = i \<and> P e \<and> e' = fst (G e)"
proof -
  have ne: "StateWorking \<noteq> StateIdle" by (simp add: state_defs)
  obtain e0 where e0: "mget (mo_monitoring m) k = Some e0" "P e0"
    using assms ne by (auto simp: withEntry_def split: option.splits if_splits)
  have "k = i" using assms e0 ne by (cases "k = i") (auto simp: withEntry_def putEntry_other)
  then show ?thesis using assms e0 by (auto simp: withEntry_def)
qed

lemma output_idle:
  assumes "store_ok (mo_store m)" "mget (mo_monitoring m) i = Some e" "a_State (ma_record e) = StateWorking"
    "mget (mo_monitoring (paneOutputLocked opts clk r pane s m)) i = Some e'" "a_State (ma_record e') = StateIdle"
  shows "idle_decision opts (a_Kind (ma_record e)) (ma_latestInput e') True"
proof -
  let ?e = "e\<lparr>ma_latestInput := (ma_latestInput e)\<lparr>di_Screen := s\<rparr>, ma_hasInput := True, ma_observedAt := clk 0\<rparr>"
  have "e' = fst (if ma_graceTimer ?e \<noteq> None then (?e, m) else evaluateLocked opts clk ?e m)"
    using withEntry_idle [OF assms(2,3) assms(4) [unfolded paneOutputLocked_def Let_def] assms(5)] by simp
  then show ?thesis using evaluate_idle [OF assms(1), of ?e opts clk] assms(3,5) by (auto simp: state_defs split: if_splits)
qed

lemma metadata_idle:
  assumes "store_ok (mo_store m)" "mget (mo_monitoring m) i = Some e" "a_State (ma_record e) = StateWorking"
    "mget (mo_monitoring (paneMetadataLocked opts clk r pane title m)) i = Some e'" "a_State (ma_record e') = StateIdle"
  shows "idle_decision opts (a_Kind (ma_record e)) (ma_latestInput e') True"
proof -
  obtain e1 where "e' = fst (if ma_graceTimer e1 = None \<and> ma_hasInput e1 then evaluateLocked opts clk e1 m else (e1, m))"
    and e1: "ma_record e1 = ma_record e"
    using withEntry_idle [OF assms(2,3) assms(4) [unfolded paneMetadataLocked_def Let_def] assms(5)]
    by (fastforce split: option.splits)
  then show ?thesis using evaluate_idle [OF assms(1), of e1 opts clk] assms(3,5) by (auto simp: state_defs split: if_splits)
qed

lemma grace_idle:
  assumes "store_ok (mo_store m)" "mget (mo_monitoring m) i = Some e" "a_State (ma_record e) = StateWorking"
    "mget (mo_monitoring (finishGrace opts clk k tok m)) i = Some e'" "a_State (ma_record e') = StateIdle"
  shows "idle_decision opts (a_Kind (ma_record e)) (ma_latestInput e') True"
proof -
  let ?e = "e\<lparr>ma_graceTimer := None\<rparr>"
  have "e' = fst (if ma_hasInput ?e then evaluateLocked opts clk ?e m else (?e, m))"
    using withEntry_idle [OF assms(2,3) assms(4) [unfolded finishGrace_def Let_def] assms(5)] by simp
  then show ?thesis using evaluate_idle [OF assms(1), of ?e opts clk] assms(3,5) by (auto simp: state_defs split: if_splits)
qed

lemma apply_cancel_idle:
  assumes "store_ok (mo_store m)" "a_State (ma_record e) = StateWorking" "detectEntry opts e = Inr x" "\<not> d_SkipStateUpdate x"
    "e' = fst (applyDetectionLocked opts clk (cancelIdleCandidateLocked e1) x m)" "ma_record e1 = ma_record e"
    "ma_latestInput e1 = ma_latestInput e" "a_State (ma_record e') = StateIdle"
  shows "idle_decision opts (a_Kind (ma_record e)) (ma_latestInput e') (d_VisibleIdle x)"
proof -
  have "a_State (ma_record (cancelIdleCandidateLocked e1)) = StateWorking" "ma_record e = ma_record (cancelIdleCandidateLocked e1)"
    using assms(2,6) by simp_all
  note d = applyDetection_idle [OF assms(1) this(1) assms(3,4) this(2) assms(8) [unfolded assms(5)]]
  show ?thesis using d unfolding assms(5) cancel_sel assms(6) applyDetectionLocked_sel assms(7) .
qed

lemma confirm_idle:
  assumes "store_ok (mo_store m)" "mget (mo_monitoring m) i = Some e" "a_State (ma_record e) = StateWorking"
    "mget (mo_monitoring (confirmIdle opts clk k tok idle m)) i = Some e'" "a_State (ma_record e') = StateIdle"
  shows "k = i \<and> (idle_decision opts (a_Kind (ma_record e)) (ma_latestInput e') True \<or>
    idle_decision opts (a_Kind (ma_record e)) (ma_latestInput e') False \<and> idleConfirmationCount \<le> Suc (ma_idleConfirmations e))"
proof -
  let ?e = "e\<lparr>ma_idleTimer := None\<rparr>"
  have ne: "StateWorking \<noteq> StateIdle" by (simp add: state_defs)
  have k: "k = i" and r: "e' = fst (case detectEntry opts ?e of
              Inl _ \<Rightarrow> (cancelIdleCandidateLocked ?e, m)
            | Inr x \<Rightarrow>
                if d_SkipStateUpdate x then (cancelIdleCandidateLocked ?e, m)
                else if d_State x \<noteq> StateIdle \<or> d_VisibleIdle x
                  then applyDetectionLocked opts clk (cancelIdleCandidateLocked ?e) x m
                else if idleConfirmationCount \<le> Suc (ma_idleConfirmations e)
                  then applyDetectionLocked opts clk (cancelIdleCandidateLocked (?e\<lparr>ma_idleConfirmations := Suc (ma_idleConfirmations e)\<rparr>)) x m
                else case AfterFunc idleConfirmationDelay (ConfirmIdle k tok idle) m of (m1, t) \<Rightarrow>
                  (?e\<lparr>ma_idleConfirmations := Suc (ma_idleConfirmations e), ma_idleTimer := Some t\<rparr>, m1))"
    using withEntry_idle [OF assms(2,3) assms(4) [unfolded confirmIdle_def Let_def] assms(5)]
    by (simp_all add: AfterFunc_def split: sum.split)
  obtain x where x: "detectEntry opts ?e = Inr x" "\<not> d_SkipStateUpdate x"
    using r assms(3,5) ne by (cases "detectEntry opts ?e") (auto split: if_splits)
  have w: "a_State (ma_record ?e) = StateWorking" using assms(3) by simp
  have ap: "idle_decision opts (a_Kind (ma_record e)) (ma_latestInput e') (d_VisibleIdle x)"
    if "e' = fst (applyDetectionLocked opts clk (cancelIdleCandidateLocked e1) x m)" "ma_record e1 = ma_record e"
      "ma_latestInput e1 = ma_latestInput e" for e1
    using apply_cancel_idle [OF assms(1) w x that(1) _ _ assms(5)] that(2,3) by simp
  show ?thesis
  proof (cases "d_State x \<noteq> StateIdle \<or> d_VisibleIdle x")
    case True
    then have r1: "e' = fst (applyDetectionLocked opts clk (cancelIdleCandidateLocked ?e) x m)" using r x by simp
    have dec: "idle_decision opts (a_Kind (ma_record e)) (ma_latestInput e') (d_VisibleIdle x)"
      using r1 by (rule ap) simp_all
    have "ma_latestInput e' = ma_latestInput ?e" unfolding r1 by simp
    then have "d_State x = StateIdle" using dec x(1) by (auto simp: idle_decision_def detectEntry_def)
    then show ?thesis using True dec k by auto
  next
    case False
    then have c: "idleConfirmationCount \<le> Suc (ma_idleConfirmations e)" using r x assms(3,5) ne
      by (auto simp: AfterFunc_def split: if_splits)
    then have "idle_decision opts (a_Kind (ma_record e)) (ma_latestInput e') (d_VisibleIdle x)" using r x False
      by (intro ap [of "?e\<lparr>ma_idleConfirmations := Suc (ma_idleConfirmations e)\<rparr>"]) simp_all
    then show ?thesis using False c k by simp
  qed
qed

lemma deadline_idle:
  assumes "store_ok (mo_store m)" "mget (mo_monitoring m) i = Some e" "a_State (ma_record e) = StateWorking"
    "mget (mo_monitoring (finishIdleDeadline opts clk k tok idle m)) i = Some e'" "a_State (ma_record e') = StateIdle"
  shows "k = i \<and> (\<exists>v. idle_decision opts (a_Kind (ma_record e)) (ma_latestInput e') v)"
proof -
  let ?e = "e\<lparr>ma_idleDeadline := None\<rparr>"
  have ne: "StateWorking \<noteq> StateIdle" by (simp add: state_defs)
  have k: "k = i" and r: "e' = fst (case detectEntry opts ?e of
      Inl _ \<Rightarrow> (cancelIdleCandidateLocked ?e, m)
    | Inr x \<Rightarrow> if d_SkipStateUpdate x then (cancelIdleCandidateLocked ?e, m)
        else applyDetectionLocked opts clk (cancelIdleCandidateLocked ?e) x m)"
    using withEntry_idle [OF assms(2,3) assms(4) [unfolded finishIdleDeadline_def Let_def] assms(5)]
    by (simp_all split: sum.split)
  obtain x where x: "detectEntry opts ?e = Inr x" "\<not> d_SkipStateUpdate x"
    using r assms(3,5) ne by (cases "detectEntry opts ?e") (auto split: if_splits)
  have w: "a_State (ma_record ?e) = StateWorking" using assms(3) by simp
  have "idle_decision opts (a_Kind (ma_record e)) (ma_latestInput e') (d_VisibleIdle x)"
    using apply_cancel_idle [OF assms(1) w x, of e' clk ?e] r x assms(5) by simp
  then show ?thesis using k by blast
qed

lemma error_not_idle:
  assumes "store_ok (mo_store m)" "mget (mo_monitoring m) i = Some e" "a_State (ma_record e) = StateWorking"
    "mget (mo_monitoring (paneErrorLocked opts clk r pane c m)) i = Some e'" "a_State (ma_record e') = StateIdle"
  shows False
proof -
  let ?e = "(clearObservations (stopTimersLocked e))\<lparr>ma_token := mo_nextToken m + 1\<rparr>"
  let ?u = "\<lparr>su_State = StateUnknown, su_Reason = ''pane observation error'' @ (case c of None \<Rightarrow> [] | Some x \<Rightarrow> '': '' @ x),
      su_MatchedRule = []\<rparr>"
  have u: "e' = fst (updateStateLocked opts clk ?e ?u (m\<lparr>mo_nextToken := mo_nextToken m + 1\<rparr>))"
    using withEntry_idle [OF assms(2,3) assms(4) [unfolded paneErrorLocked_def Let_def] assms(5)] by simp
  have "ma_record ?e = ma_record e" by (simp add: clearObservations_def stopTimersLocked_def)
  then show False using updateStateLocked_state [of "m\<lparr>mo_nextToken := mo_nextToken m + 1\<rparr>" opts clk ?e ?u] assms(1,3,5) u
    by (auto simp: state_defs)
qed

lemma opened_not_idle:
  assumes "mget (mo_monitoring m) i = Some e" "a_State (ma_record e) = StateWorking"
    "mget (mo_monitoring (paneOpenedLocked r pane m)) i = Some e'" "a_State (ma_record e') = StateIdle"
  shows False
proof -
  have "ma_record e' = ma_record e"
    using withEntry_idle [OF assms(1,2) assms(3) [unfolded paneOpenedLocked_def AfterFunc_def Let_def prod.case] assms(4)]
    by (simp add: clearObservations_def stopTimersLocked_def)
  then show False using assms(2,4) by (simp add: state_defs)
qed

lemma dropped_not_idle:
  assumes "mon_inv m" "mget (mo_monitoring m) i = Some e" "a_State (ma_record e) = StateWorking"
    "mget (mdel (mo_monitoring m) k) i = Some e'" "a_State (ma_record e') = StateIdle"
  shows False
  using assms by (auto simp: mon_inv_def state_defs split: if_splits)

section \<open>Publishing\<close>

text \<open>
  What one step does to the table of agents and the published events: nothing, or one agent's
  state changes and the event that says so follows.
\<close>

definition published :: "MonitorOptions \<Rightarrow> clock \<Rightarrow> Monitor \<Rightarrow> Monitor \<Rightarrow> bool" where
  "published opts clk m m' \<longleftrightarrow>
     agents_of (mo_store m') = agents_of (mo_store m) \<and> mo_events m' = mo_events m \<or>
     (\<exists>i r u. agents_of (mo_store m) i = Some r \<and>
        (a_State r, a_StateReason r, a_MatchedRule r) \<noteq> (su_State u, su_Reason u, su_MatchedRule u) \<and>
        agents_of (mo_store m') = (agents_of (mo_store m))(i \<mapsto> with_state (clk 1) u r) \<and>
        mo_events m' = mo_events m @ (if op_EventBus opts then [stateEvent (clk 3)
          \<lparr>sc_Previous = r, sc_Current = with_state (clk 1) u r, sc_Changed = True\<rparr>] else []))"

lemma published_same: "mo_store m' = mo_store m \<Longrightarrow> mo_events m' = mo_events m \<Longrightarrow> published opts clk m m'"
  by (simp add: published_def)

lemma published_update:
  assumes ok: "store_ok (mo_store m)"
  shows "published opts clk m (snd (updateStateLocked opts clk e u m))"
proof (cases "UpdateState (clk 1) (a_ID (ma_record e)) u (mo_store m)")
  case (Pair s res)
  show ?thesis
  proof (cases res)
    case (Inl err)
    then show ?thesis using Pair UpdateState_Inl [OF ok] by (auto simp: updateStateLocked_def intro!: published_same)
  next
    case (Inr ch)
    note u = UpdateState_Inr [OF ok Pair [unfolded Inr]]
    let ?m = "snd (updateStateLocked opts clk e u m)"
    have st: "mo_store ?m = s" and ev: "mo_events ?m = mo_events m @ (if sc_Changed ch \<and> op_EventBus opts then [stateEvent (clk 3) ch] else [])"
      using Pair Inr by (simp_all add: updateStateLocked_def Let_def)
    show ?thesis
    proof (cases "sc_Changed ch")
      case True
      have "stateEvent (clk 3) ch = stateEvent (clk 3)
          \<lparr>sc_Previous = sc_Previous ch, sc_Current = with_state (clk 1) u (sc_Previous ch), sc_Changed = True\<rparr>"
        using u(2) by (simp add: stateEvent_def)
      then show ?thesis unfolding published_def st ev using True u
        by (intro disjI2 exI [of _ "a_ID (ma_record e)"] exI [of _ "sc_Previous ch"] exI [of _ u]) auto
    next
      case False
      then have "sc_Current ch = sc_Previous ch" using u(2,4) by (simp add: with_state_def)
      then show ?thesis unfolding published_def st ev using False u(1,3) by (simp add: fun_upd_idem)
    qed
  qed
qed

lemma published_apply: "store_ok (mo_store m) \<Longrightarrow> published opts clk m (snd (applyDetectionLocked opts clk e x m))"
  unfolding applyDetectionLocked_def by (rule published_update)

lemma published_evaluate: "store_ok (mo_store m) \<Longrightarrow> published opts clk m (snd (evaluateLocked opts clk e m))"
  using published_apply
  by (auto simp: evaluateLocked_def startIdleCandidateLocked_def AfterFunc_def Let_def intro: published_same split: sum.split)

lemma published_put: "published opts clk m (snd em) \<Longrightarrow> published opts clk m (putEntry i em)"
  by (simp add: published_def putEntry_def)

lemma published_from: "published opts clk m0 m' \<Longrightarrow> mo_store m0 = mo_store m \<Longrightarrow> mo_events m0 = mo_events m \<Longrightarrow> published opts clk m m'"
  by (simp add: published_def)

lemma published_withEntry:
  "(\<And>e. published opts clk m (f e)) \<Longrightarrow> mo_store m0 = mo_store m \<Longrightarrow> mo_events m0 = mo_events m \<Longrightarrow>
    published opts clk m (withEntry i P f m0)"
  by (simp add: withEntry_def published_same split: option.split)

fun store_event :: "mon_event \<Rightarrow> bool" where
  "store_event (EvStore _ _) = True"
| "store_event (EvDelete _) = True"
| "store_event _ = False"

lemma published_callback:
  assumes "store_ok (mo_store m)"
  shows "published opts clk m (runCallback opts clk cb (m\<lparr>mo_pending := p\<rparr>))"
proof -
  let ?m = "m\<lparr>mo_pending := p\<rparr>"
  have ok: "store_ok (mo_store ?m)" using assms by simp
  have ev: "published opts clk m (snd (evaluateLocked opts clk e ?m))" for e
    by (rule published_from [OF published_evaluate [OF ok]]) simp_all
  have ap: "published opts clk m (snd (applyDetectionLocked opts clk e x ?m))" for e x
    by (rule published_from [OF published_apply [OF ok]]) simp_all
  have sm: "published opts clk m ?m" "published opts clk m (fst (AfterFunc d c ?m))" for d c
    by (simp_all add: published_same AfterFunc_def)
  show ?thesis
    by (cases cb) (auto simp: finishGrace_def confirmIdle_def finishIdleDeadline_def Let_def case_prod_beta ev ap sm
        split: sum.split intro!: published_withEntry published_put)
qed

lemma published_step:
  assumes inv: "mon_inv m" and ne: "\<not> store_event ev"
  shows "published opts clk m (mon_exec opts clk ev m)"
proof -
  have ok: "store_ok (mo_store m)" using inv by (simp add: mon_inv_def)
  have up: "published opts clk m (snd (updateStateLocked opts clk e u (m\<lparr>mo_nextToken := k\<rparr>)))" for e u k
    by (rule published_from [OF published_update]) (simp_all add: ok)
  show ?thesis
  proof (cases ev)
    case (EvFire t)
    then show ?thesis using published_callback [OF ok] by (auto intro!: published_same split: option.split)
  qed (use ne in \<open>auto simp: paneOpenedLocked_def startLocked_def MonitorStop_def MonitorClose_def paneOutputLocked_def
        paneMetadataLocked_def paneClosedLocked_def paneErrorLocked_def Let_def AfterFunc_def published_evaluate [OF ok] up
        published_same intro!: published_withEntry published_put\<close>)
qed

section \<open>Properties\<close>


text \<open>
  C9. A working agent is not called idle lightly. If a step of the monitor takes an agent from
  working to idle, the detector says idle of its current screen, and either an idle prompt is
  visible there, or the step is the third confirmation of a candidate, or the candidate's deadline.
\<close>

theorem idle_needs_confirmation:
  assumes s: "store_ok s" and m: "m = mon_run opts evs (NewMonitor s)"
    and e: "mget (mo_monitoring m) i = Some e" "a_State (ma_record e) = StateWorking"
    and ev: "\<And>r. ev \<noteq> EvStart r"
    and e': "mget (mo_monitoring (mon_exec opts clk ev m)) i = Some e'" "a_State (ma_record e') = StateIdle"
  shows "idle_decision opts (a_Kind (ma_record e)) (ma_latestInput e') True \<or>
    idle_decision opts (a_Kind (ma_record e)) (ma_latestInput e') False \<and>
    (\<exists>t d tok idle. ev = EvFire t \<and>
       (mget (mo_pending m) t = Some (d, ConfirmIdle i tok idle) \<and> ma_idleConfirmations e = 2 \<or>
        mget (mo_pending m) t = Some (d, FinishIdleDeadline i tok idle)))"
proof -
  have inv: "mon_inv m" unfolding m by (rule mon_inv_run [OF mon_inv_New [OF s]])
  then have ok: "store_ok (mo_store m)" and eo: "entry_ok m i e" using e(1) by (simp_all add: mon_inv_iff base_def)
  have ne: "StateWorking \<noteq> StateIdle" "StateUnknown \<noteq> StateIdle" by (simp_all add: state_defs)
  have same: False if "mo_monitoring (mon_exec opts clk ev m) = mo_monitoring m" using that e e' ne by simp
  show ?thesis
  proof (cases ev)
    case (EvFire t)
    obtain d cb where t: "mget (mo_pending m) t = Some (d, cb)" using same EvFire by (cases "mget (mo_pending m) t") auto
    let ?m = "m\<lparr>mo_pending := mdel (mo_pending m) t\<rparr>"
    have ok': "store_ok (mo_store ?m)" and e1: "mget (mo_monitoring ?m) i = Some e" using ok e(1) by simp_all
    have r: "mget (mo_monitoring (runCallback opts clk cb ?m)) i = Some e'" using e'(1) EvFire t by simp
    show ?thesis
    proof (cases cb)
      case (FinishGrace k tok)
      then show ?thesis using grace_idle [OF ok' e1 e(2) _ e'(2)] r by auto
    next
      case (ConfirmIdle k tok idle)
      have "ma_idleConfirmations e \<le> 2" using eo by (auto simp: entry_ok_def idleConfirmationCount_def split: if_splits)
      then show ?thesis using confirm_idle [OF ok' e1 e(2) _ e'(2), of opts clk k tok idle] r ConfirmIdle EvFire t
        by (auto simp: idleConfirmationCount_def)
    next
      case (FinishIdleDeadline k tok idle)
      then obtain v where "k = i" "idle_decision opts (a_Kind (ma_record e)) (ma_latestInput e') v"
        using deadline_idle [OF ok' e1 e(2) _ e'(2), of opts clk k tok idle] r by auto
      then show ?thesis using FinishIdleDeadline EvFire t by (cases v) auto
    qed
  next
    case (EvError r pane c)
    then have False using error_not_idle [OF ok e _ e'(2), of opts clk r pane c] e'(1) by simp
    then show ?thesis ..
  next
    case (EvOpened r pane)
    then have False using opened_not_idle [OF e _ e'(2), of r pane] e'(1) by simp
    then show ?thesis ..
  next
    case (EvOutput r pane t)
    then show ?thesis using output_idle [OF ok e _ e'(2)] e'(1) by simp
  next
    case (EvMetadata r pane t)
    then show ?thesis using metadata_idle [OF ok e _ e'(2)] e'(1) by simp
  next
    case (EvStop k)
    then show ?thesis using dropped_not_idle [OF inv e _ e'(2), of k] e'(1) same
      by (auto simp: MonitorStop_def withEntry_def split: option.splits)
  next
    case (EvClosed r pane)
    then show ?thesis using dropped_not_idle [OF inv e _ e'(2), of "a_ID r"] e'(1) same
      by (auto simp: paneClosedLocked_def withEntry_def split: option.splits if_splits)
  next
    case (EvDelete k)
    then have "mo_monitoring (mon_exec opts clk ev m) = mo_monitoring m" by (simp add: paneClosedDelete_def)
    then show ?thesis using same by blast
  qed (use ev e' same in \<open>simp_all add: MonitorClose_def\<close>)
qed

text \<open>
  Every change of state is published, once and correctly. Any step of the monitor leaves all
  agents as they are and publishes nothing, or changes the state, reason or rule of exactly one agent
  and publishes one event that names the agent, its previous and its new state.
\<close>

theorem state_changes_published:
  assumes "store_ok s" and m: "m = mon_run opts evs (NewMonitor s)" and "op_EventBus opts" and "\<not> store_event ev"
    and m': "m' = mon_exec opts clk ev m"
  shows "agents_of (mo_store m') = agents_of (mo_store m) \<and> mo_events m' = mo_events m \<or>
    (\<exists>i r r' ev. agents_of (mo_store m) i = Some r \<and> agents_of (mo_store m') = (agents_of (mo_store m))(i \<mapsto> r') \<and>
       (a_State r', a_StateReason r', a_MatchedRule r') \<noteq> (a_State r, a_StateReason r, a_MatchedRule r) \<and>
       mo_events m' = mo_events m @ [ev] \<and> ev_Type ev = TypeAgentStateChanged \<and> ev_AgentID ev = i \<and>
       ev_PaneID ev = a_PaneID r \<and> ev_PreviousState ev = a_State r \<and> ev_AgentState ev = a_State r' \<and>
       ev_Reason ev = a_StateReason r' \<and> ev_MatchedRule ev = a_MatchedRule r')"
proof -
  have inv: "mon_inv m" unfolding m by (rule mon_inv_run [OF mon_inv_New [OF assms(1)]])
  consider "agents_of (mo_store m') = agents_of (mo_store m)" "mo_events m' = mo_events m"
    | i r u where "agents_of (mo_store m) i = Some r"
        "(a_State r, a_StateReason r, a_MatchedRule r) \<noteq> (su_State u, su_Reason u, su_MatchedRule u)"
        "agents_of (mo_store m') = (agents_of (mo_store m))(i \<mapsto> with_state (clk 1) u r)"
        "mo_events m' = mo_events m @ [stateEvent (clk 3) \<lparr>sc_Previous = r, sc_Current = with_state (clk 1) u r, sc_Changed = True\<rparr>]"
    using published_step [OF inv assms(4), of opts clk] assms(3) unfolding published_def m' [symmetric] by auto
  then show ?thesis
  proof cases
    case 2
    have w: "(a_State (with_state (clk 1) u r), a_StateReason (with_state (clk 1) u r), a_MatchedRule (with_state (clk 1) u r)) =
        (su_State u, su_Reason u, su_MatchedRule u)" using 2(2) by (simp add: with_state_def)
    have "a_ID r = i" using 2(1) inv store_okD(3) by (auto simp: mon_inv_def)
    then show ?thesis using 2 w
      by (intro disjI2 exI [of _ i] exI [of _ r] exI [of _ "with_state (clk 1) u r"]
          exI [of _ "stateEvent (clk 3) \<lparr>sc_Previous = r, sc_Current = with_state (clk 1) u r, sc_Changed = True\<rparr>"])
        (auto simp: stateEvent_def emptyEvent_def)
  qed simp
qed

text \<open>
  An observation of another life of the pane is ignored: output, metadata, closing and errors
  that carry a generation no entry of that pane is bound to change nothing at all.
\<close>

theorem stale_observation_ignored:
  assumes ok: "store_ok (mo_store m)"
    and other: "\<And>i e. mget (mo_monitoring m) i = Some e \<Longrightarrow> a_PaneID (ma_record e) = p_ID pane \<Longrightarrow>
      ma_paneGeneration e \<noteq> p_Generation pane"
  shows "PaneOutput opts clk pane text m = m \<and> PaneMetadata opts clk pane title m = m \<and>
    PaneClosed pane m = m \<and> PaneError opts clk pane cause m = m"
proof -
  have "withRecord pane (\<lambda>r. withEntry (a_ID r) (\<lambda>e. sameMonitoredPane e r pane) (f r) m) m = m" for f
  proof (cases "GetByPane (p_ID pane) (mo_store m)")
    case (Inr r)
    then have "a_PaneID r = p_ID pane" using holder_iff [OF ok]
      by (auto simp: GetByPane_holder [OF ok] split: option.splits)
    then have "\<not> sameMonitoredPane e r pane" if "mget (mo_monitoring m) (a_ID r) = Some e" for e
      using other [OF that] by (auto simp: sameMonitoredPane_def sameMonitoredRecord_def)
    then show ?thesis using Inr by (simp add: withRecord_def withEntry_def split: option.split)
  qed (simp add: withRecord_def)
  note none = this
  have "withRecord pane (\<lambda>r. let m1 = paneClosedLocked r pane m
       in if mo_deleting m1 = mo_deleting m then m1 else paneClosedDelete (a_ID r) m1) m = m"
  proof (cases "withRecord pane (\<lambda>r. paneClosedLocked r pane m) m = m")
    case True
    then show ?thesis by (auto simp: withRecord_def split: sum.splits if_splits)
  qed (simp add: paneClosedLocked_def none)
  then show ?thesis
    by (simp add: PaneOutput_def PaneMetadata_def PaneClosed_def PaneError_def paneOutputLocked_def paneMetadataLocked_def
        paneErrorLocked_def none Let_def)
qed

section \<open>Witnesses\<close>

definition demo_opts :: MonitorOptions where
  "demo_opts = \<lparr>op_lib = demo_lib, op_Detector = Some demo_detector, op_DetectorErrors = [], op_EventBus = True\<rparr>"

definition demo_agents :: memoryStore where
  "demo_agents = \<lparr>ms_persist = None, ms_byID = [(''agent-1'', demo_agent)], ms_byPane = [(''p1'', ''agent-1'')]\<rparr>"

definition demo_pane :: PaneRecord where
  "demo_pane = \<lparr>p_ParentPaneID = [], p_ID = ''p1'', p_OwnershipToken = [], p_Generation = 1, p_SessionID = [], p_TabID = [],
     p_TaskID = [], p_AgentID = [], p_ZellijPaneID = [], p_ZellijTabID = None, p_TabName = [], p_Role = ''coding-agent'',
     p_Command = [], p_CWD = [], p_Status = PaneStatusRunning, p_LastOutput = [], p_LastInstruction = [],
     p_LastInstructionAt = 0, p_StatusMessage = [], p_CreatedAt = 0, p_UpdatedAt = 0, p_closeNotificationClaimed = False\<rparr>"

definition demo_clock :: clock where
  "demo_clock n = int n"

text \<open>Start, open, working output, the grace ends; then a blank screen and two confirmations.\<close>

definition demo_mon_events :: "(clock \<times> mon_event) list" where
  "demo_mon_events = map (\<lambda>ev. (demo_clock, ev)) [EvStart demo_agent, EvOpened demo_agent demo_pane,
     EvOutput demo_agent demo_pane ''a'', EvFire 0, EvOutput demo_agent demo_pane [], EvFire 1, EvFire 3]"

definition demo_monitor :: Monitor where
  "demo_monitor = mon_run demo_opts demo_mon_events (NewMonitor demo_agents)"

lemma demo_monitor_entry:
  "map_option (\<lambda>e. (a_State (ma_record e), ma_idleConfirmations e, ma_idleTimer e, ma_idleDeadline e))
     (mget (mo_monitoring demo_monitor) ''agent-1'') = Some (''working'', 2, Some 4, Some 2)"
  by code_simp

lemma demo_agents_ok: "store_ok demo_agents"
proof -
  have "a_ID demo_agent = ''agent-1''" "a_PaneID demo_agent = ''p1''" by (simp_all add: demo_agent_def zeroRecord_def)
  then show ?thesis using demo_agent_valid by (simp add: store_ok_def demo_agents_def)
qed

lemma demo_idle:
  "map_option (\<lambda>e. a_State (ma_record e))
     (mget (mo_monitoring (mon_exec demo_opts demo_clock (EvFire 4) demo_monitor)) ''agent-1'') = Some ''idle''"
  by code_simp


theorem idle_needs_confirmation_witness:
  "\<exists>e e'. mget (mo_monitoring demo_monitor) ''agent-1'' = Some e \<and> a_State (ma_record e) = StateWorking \<and>
     mget (mo_monitoring (mon_exec demo_opts demo_clock (EvFire 4) demo_monitor)) ''agent-1'' = Some e' \<and>
     a_State (ma_record e') = StateIdle \<and>
     (idle_decision demo_opts (a_Kind (ma_record e)) (ma_latestInput e') True \<or>
      idle_decision demo_opts (a_Kind (ma_record e)) (ma_latestInput e') False \<and> ma_idleConfirmations e = 2)"
proof -
  obtain e where e: "mget (mo_monitoring demo_monitor) ''agent-1'' = Some e" "a_State (ma_record e) = StateWorking"
    "ma_idleConfirmations e = 2" using demo_monitor_entry by (auto simp: StateWorking_def)
  obtain e' where e': "mget (mo_monitoring (mon_exec demo_opts demo_clock (EvFire 4) demo_monitor)) ''agent-1'' = Some e'"
    "a_State (ma_record e') = StateIdle" using demo_idle by (auto simp: StateIdle_def)
  have "EvFire 4 \<noteq> EvStart r" for r by simp
  from idle_needs_confirmation [OF demo_agents_ok demo_monitor_def e(1,2) this e']
  have "idle_decision demo_opts (a_Kind (ma_record e)) (ma_latestInput e') True \<or>
      idle_decision demo_opts (a_Kind (ma_record e)) (ma_latestInput e') False \<and> ma_idleConfirmations e = 2"
    using e(3) by blast
  with e(1,2) e' show ?thesis by blast
qed

theorem state_changes_published_witness:
  "length (mo_events (mon_exec demo_opts demo_clock (EvFire 4) demo_monitor)) \<le> Suc (length (mo_events demo_monitor))"
proof -
  have "op_EventBus demo_opts" "\<not> store_event (EvFire 4)" by (simp_all add: demo_opts_def)
  from state_changes_published [OF demo_agents_ok demo_monitor_def this HOL.refl, of demo_clock] show ?thesis by auto
qed

theorem stale_observation_ignored_witness:
  "PaneOutput demo_opts demo_clock (demo_pane\<lparr>p_Generation := 7\<rparr>) ''b'' (startLocked demo_agent (NewMonitor demo_agents)) =
     startLocked demo_agent (NewMonitor demo_agents)"
proof -
  let ?m = "startLocked demo_agent (NewMonitor demo_agents)"
  have "store_ok (mo_store ?m)" using demo_agents_ok by (simp add: startLocked_def putEntry_def NewMonitor_def Let_def)
  moreover have "ma_paneGeneration e \<noteq> p_Generation (demo_pane\<lparr>p_Generation := 7\<rparr>)"
    if "mget (mo_monitoring ?m) i = Some e" for i e
    using that by (auto simp: startLocked_def putEntry_def NewMonitor_def Let_def split: if_splits)
  ultimately show ?thesis using stale_observation_ignored [of ?m "demo_pane\<lparr>p_Generation := 7\<rparr>"] by blast
qed

end
