(* ===== verification/Agent_Service.thy ===== *)
theory Agent_Service
  imports Agent_Monitor Runtime_Service "HOL-Library.Signed_Division"
begin

text \<open>
  The service for coding agents, \<^verbatim>\<open>src/internal/codingagent/service.go\<close> and \<^verbatim>\<open>recovery.go\<close>: starting an
  agent with roll-back, listing with the removal of orphans, focus and navigation, restoring after a
  restart.

  The record \<open>AgentService\<close> holds the monitor (and in it the store) beside the service's own fields.
  The owners are pointers: \<open>as_owners\<close> maps an agent to a position of \<open>as_objects\<close>, where every
  ownership ever allocated stands, so that pointers can be compared and written through. A function
  that holds \<open>lifecycleMu\<close> is a function on the record. The request handlers, which call the runtime,
  are in the state monad over the \<open>Daemon\<close>: the service and the runtime's state. The runtime calls its
  observer, the monitor, while it works; its notifications are handed to the monitor when the call
  returns, in their order, since the monitor never calls the runtime. Concurrent requests are the
  runs at the end: any interleaving of the critical sections of starts, listings, store updates and
  monitor steps. The identifier source, the clock and the file system are arguments.

  The lemmas show that a starting agent's identifier is reserved until the start ends, that a failed
  start leaves neither record nor reservation, that a listing returns exactly the agents with a pane
  and removes exactly the orphans, that navigation goes around all eligible agents, and what a
  restart makes of the stored agents.
\<close>

declare map_of_eq_Some_iff [simp del] Some_eq_map_of_iff [simp del]

section \<open>Data\<close>

datatype agentLifecycle = AgentProvisioning | AgentActive | AgentCleanupUncertain | AgentCleaning

record agentOwnership =
  ow_token :: uint64
  ow_record :: Record
  ow_state :: agentLifecycle

record agentSnapshot =
  sn_record :: Record
  sn_token :: uint64
  sn_lifecycle :: agentLifecycle
  sn_owned :: bool

record AgentService =
  as_monitor :: Monitor
  as_lastFocusedID :: ID
  as_lastSeenIdle :: time
  as_nextOwner :: uint64
  as_owners :: "(ID, nat) gomap"
  as_objects :: "agentOwnership list"

definition NewAgentService :: "Monitor \<Rightarrow> AgentService" where
  "NewAgentService m = \<lparr>as_monitor = m, as_lastFocusedID = [], as_lastSeenIdle = zeroTime, as_nextOwner = 0,
     as_owners = [], as_objects = []\<rparr>"

datatype svc_cause =
    ErrConflictingPinFilters | ErrInvalidAgentKind Kind | ErrInvalidAgentCWD string | ErrAgentSourceRequired
  | ErrAgentIDRequired | ErrPaneNotOwned ID string | SvcStore agent_error | SvcMonitor monitor_error
  | SvcRuntime rt_cause

type_synonym svc_error = "svc_cause list"

record StartAgentRequest =
  sa_NewPane :: bool
  sa_ReuseDirectoryTab :: bool
  sa_TargetSession :: string
  sa_ParentPaneID :: string
  sa_Kind :: Kind
  sa_AccessMode :: AccessMode
  sa_CWD :: string
  sa_Prompt :: string
  sa_ExtraArgs :: "string list"
  sa_NotifyOnIdle :: bool
  sa_SourceZellijSession :: string
  sa_SourceZellijPaneID :: string

abbreviation as_store :: "AgentService \<Rightarrow> memoryStore" where
  "as_store s \<equiv> mo_store (as_monitor s)"

definition setStore :: "memoryStore \<Rightarrow> AgentService \<Rightarrow> AgentService" where
  "setStore st s = s\<lparr>as_monitor := (as_monitor s)\<lparr>mo_store := st\<rparr>\<rparr>"

definition setOwnerState :: "nat \<Rightarrow> agentLifecycle \<Rightarrow> AgentService \<Rightarrow> AgentService" where
  "setOwnerState p st s = s\<lparr>as_objects := (as_objects s)[p := (as_objects s ! p)\<lparr>ow_state := st\<rparr>]\<rparr>"

definition dropOwner :: "ID \<Rightarrow> AgentService \<Rightarrow> AgentService" where
  "dropOwner i s = s\<lparr>as_owners := mdel (as_owners s) i\<rparr>"

fun isNotFound :: "agent_error \<Rightarrow> bool" where
  "isNotFound (ErrAgentNotFound _) = True"
| "isNotFound _ = False"

definition sameRecordIdentity :: "Record \<Rightarrow> Record \<Rightarrow> bool" where
  "sameRecordIdentity l r \<longleftrightarrow> a_ID l = a_ID r \<and> a_Kind l = a_Kind r \<and> a_PaneID l = a_PaneID r \<and> a_CreatedAt l = a_CreatedAt r"

definition terminalAgentPane :: "PaneStatus option \<Rightarrow> bool" where
  "terminalAgentPane status \<longleftrightarrow> status \<in> {Some PaneStatusClosed, Some PaneStatusExited, Some PaneStatusLost}"

section \<open>Ownership: the functions under the lifecycle lock\<close>

text \<open>The sweep deletes the owners one by one; each decision looks at its own owner only.\<close>

definition keepOwner :: "(ID, Record) gomap option \<Rightarrow> memoryStore \<Rightarrow> ID \<Rightarrow> agentOwnership \<Rightarrow> bool" where
  "keepOwner currentByID st i owner =
     (if ow_state owner = AgentProvisioning \<or> ow_state owner = AgentCleaning then True
      else case currentByID of
        Some m \<Rightarrow> (case mget m i of None \<Rightarrow> False | Some current \<Rightarrow> sameRecordIdentity (ow_record owner) current)
      | None \<Rightarrow> (case GetAgent i st of
            Inr current \<Rightarrow> sameRecordIdentity (ow_record owner) current
          | Inl e \<Rightarrow> \<not> isNotFound e))"

definition sweepInactiveOwnersLocked :: "(ID, Record) gomap option \<Rightarrow> AgentService \<Rightarrow> AgentService" where
  "sweepInactiveOwnersLocked currentByID s =
     s\<lparr>as_owners := filter (\<lambda>(i, p). keepOwner currentByID (as_store s) i (as_objects s ! p)) (as_owners s)\<rparr>"

definition provision :: "Record \<Rightarrow> AgentService \<Rightarrow> AgentService \<times> (agent_error + Record \<times> nat)" where
  "provision r s =
     (let n = as_nextOwner s + 1;
          p = length (as_objects s);
          s1 = s\<lparr>as_nextOwner := n,
             as_objects := as_objects s @ [\<lparr>ow_token = n, ow_record = r, ow_state = AgentProvisioning\<rparr>],
             as_owners := mput (as_owners s) (a_ID r) p\<rparr>
      in case CreateAgent r (as_store s1) of
           (st, Inl e) \<Rightarrow> (dropOwner (a_ID r) (setStore st s1), Inl e)
         | (st, Inr created) \<Rightarrow>
             ((setStore st s1)\<lparr>as_objects := (as_objects s1)[p := (as_objects s1 ! p)\<lparr>ow_record := created\<rparr>]\<rparr>,
              Inr (created, p)))"

definition registerStart :: "Record \<Rightarrow> AgentService \<Rightarrow> AgentService \<times> (agent_error + Record \<times> nat)" where
  "registerStart r s0 =
     (let s = sweepInactiveOwnersLocked None s0 in
      case mget (as_owners s) (a_ID r) of
        None \<Rightarrow> provision r s
      | Some q \<Rightarrow>
          if ow_state (as_objects s ! q) = AgentProvisioning \<or> ow_state (as_objects s ! q) = AgentCleaning
          then (s, Inl (ErrDuplicateID (a_ID r)))
          else (case GetAgent (a_ID r) (as_store s) of
              Inr _ \<Rightarrow> (s, Inl (ErrDuplicateID (a_ID r)))
            | Inl e \<Rightarrow> if \<not> isNotFound e then (s, Inl e) else provision r (dropOwner (a_ID r) s)))"

definition snapshotOf :: "AgentService \<Rightarrow> Record \<Rightarrow> agentSnapshot" where
  "snapshotOf s r =
     (case mget (as_owners s) (a_ID r) of
        Some p \<Rightarrow>
          if sameRecordIdentity (ow_record (as_objects s ! p)) r
          then \<lparr>sn_record = r, sn_token = ow_token (as_objects s ! p), sn_lifecycle = ow_state (as_objects s ! p), sn_owned = True\<rparr>
          else \<lparr>sn_record = r, sn_token = 0, sn_lifecycle = AgentProvisioning, sn_owned = False\<rparr>
      | None \<Rightarrow> \<lparr>sn_record = r, sn_token = 0, sn_lifecycle = AgentProvisioning, sn_owned = False\<rparr>)"

definition snapshotAgents :: "AgentService \<Rightarrow> AgentService \<times> agentSnapshot list" where
  "snapshotAgents s0 =
     (let records = ListRecords (as_store s0);
          s = sweepInactiveOwnersLocked (Some (fold (\<lambda>r m. mput m (a_ID r) r) records [])) s0
      in (s, map (snapshotOf s) records))"

definition ownerMatchesSnapshot :: "agentSnapshot \<Rightarrow> AgentService \<Rightarrow> bool" where
  "ownerMatchesSnapshot sn s =
     (case mget (as_owners s) (a_ID (sn_record sn)) of
        None \<Rightarrow> sn_token sn = 0
      | Some p \<Rightarrow> sn_token sn \<noteq> 0 \<and> ow_token (as_objects s ! p) = sn_token sn \<and>
          sameRecordIdentity (ow_record (as_objects s ! p)) (sn_record sn))"

definition snapshotIsCurrent :: "agentSnapshot \<Rightarrow> AgentService \<Rightarrow> bool" where
  "snapshotIsCurrent sn s \<longleftrightarrow> ownerMatchesSnapshot sn s \<and>
     (case GetAgent (a_ID (sn_record sn)) (as_store s) of
        Inl _ \<Rightarrow> False | Inr current \<Rightarrow> sameRecordIdentity current (sn_record sn))"

text \<open>
  Both clean-ups end in the same way, on the installed owner \<open>p\<close> of the agent \<open>r\<close>: \<open>None\<close> is
  success, with whether a record was deleted.
\<close>

definition removeOwned :: "nat \<Rightarrow> Record \<Rightarrow> bool \<Rightarrow> AgentService \<Rightarrow> AgentService \<times> bool \<times> agent_error option" where
  "removeOwned p r stopMonitor s =
     (case GetAgent (a_ID r) (as_store s) of
        Inl e \<Rightarrow> if isNotFound e then (dropOwner (a_ID r) s, False, None)
                  else (setOwnerState p AgentCleanupUncertain s, False, Some e)
      | Inr current \<Rightarrow>
          if \<not> sameRecordIdentity current r then (dropOwner (a_ID r) s, False, None)
          else (case DeleteAgent (a_ID r) (as_store s) of
              (st, e) \<Rightarrow>
                let s1 = setStore st (setOwnerState p AgentCleaning s) in
                if e \<noteq> None \<and> \<not> isNotFound (the e) then (setOwnerState p AgentCleanupUncertain s1, False, e)
                else let s2 = (if stopMonitor then s1\<lparr>as_monitor := MonitorStop (a_ID r) (as_monitor s1)\<rparr> else s1)
                     in (dropOwner (a_ID r) s2, True, None)))"

definition cleanupOrphan :: "agentSnapshot \<Rightarrow> AgentService \<Rightarrow> AgentService \<times> agent_error option" where
  "cleanupOrphan sn s =
     (let r = sn_record sn in
      if \<not> ownerMatchesSnapshot sn s then (s, None)
      else if sn_owned sn \<and> (sn_lifecycle sn = AgentProvisioning \<or> sn_lifecycle sn = AgentCleanupUncertain) then (s, None)
      else case mget (as_owners s) (a_ID r) of
        Some p \<Rightarrow>
          if ow_state (as_objects s ! p) \<in> {AgentProvisioning, AgentCleanupUncertain, AgentCleaning} then (s, None)
          else (case removeOwned p r True s of (s', _, e) \<Rightarrow> (s', e))
      | None \<Rightarrow>
          let n = as_nextOwner s + 1;
              p = length (as_objects s);
              s1 = s\<lparr>as_nextOwner := n,
                 as_objects := as_objects s @ [\<lparr>ow_token = n, ow_record = r, ow_state = AgentCleaning\<rparr>],
                 as_owners := mput (as_owners s) (a_ID r) p\<rparr>
          in (case removeOwned p r True s1 of (s', _, e) \<Rightarrow> (s', e)))"

definition cleanupOwnedRecord :: "nat \<Rightarrow> bool \<Rightarrow> AgentService \<Rightarrow> AgentService \<times> bool \<times> agent_error option" where
  "cleanupOwnedRecord p stopMonitor s =
     (let r = ow_record (as_objects s ! p) in
      if mget (as_owners s) (a_ID r) \<noteq> Some p then (s, False, None) else removeOwned p r stopMonitor s)"

definition markOwnerState :: "nat \<Rightarrow> agentLifecycle \<Rightarrow> AgentService \<Rightarrow> AgentService" where
  "markOwnerState p st s =
     (if mget (as_owners s) (a_ID (ow_record (as_objects s ! p))) = Some p then setOwnerState p st s else s)"

section \<open>Navigation\<close>

definition eligible :: "bool \<Rightarrow> bool \<Rightarrow> bool \<Rightarrow> Record \<Rightarrow> bool" where
  "eligible idleOnly pinnedOnly unpinnedOnly r \<longleftrightarrow>
     (\<not> idleOnly \<or> a_State r = StateIdle) \<and> (\<not> pinnedOnly \<or> a_Pinned r) \<and> (\<not> unpinnedOnly \<or> \<not> a_Pinned r)"

definition byIdleTime :: "Record list \<Rightarrow> Record list" where
  "byIdleTime rs = sort_key (\<lambda>r. (- a_StateChangedAt r, a_CreatedAt r, a_ID r)) rs"

fun indexOf :: "ID \<Rightarrow> Record list \<Rightarrow> nat option" where
  "indexOf current [] = None"
| "indexOf current (r # rs) = (if a_ID r = current then Some 0 else map_option Suc (indexOf current rs))"

text \<open>\<open>smod\<close> is Go's remainder, which has the sign of the dividend.\<close>

definition adjacentAgentRecord :: "Record list \<Rightarrow> ID \<Rightarrow> time \<Rightarrow> bool \<Rightarrow> bool \<Rightarrow> bool \<Rightarrow> int \<Rightarrow> Record option" where
  "adjacentAgentRecord records current lastSeen idleOnly pinnedOnly unpinnedOnly step =
     (let found = filter (eligible idleOnly pinnedOnly unpinnedOnly) records;
          es = (if idleOnly then byIdleTime found else found);
          n = int (length es)
      in if found = [] then None
         else if idleOnly \<and> lastSeen < a_StateChangedAt (es ! 0) then Some (es ! 0)
         else case indexOf current es of
           Some k \<Rightarrow> let next = (int k + step) smod n
                      in Some (es ! nat (if next < 0 then next + n else next))
         | None \<Rightarrow> Some (if step < 0 then es ! (length es - 1) else es ! 0))"

section \<open>Request handlers\<close>

text \<open>
  \<open>ao_Abs\<close> is \<open>filepath.Abs\<close>, \<open>ao_IsDir\<close> is \<open>os.Stat\<close> with \<open>IsDir\<close>, \<open>ao_clock\<close> the readings of the
  monitor's and the store's clock during a call.
\<close>

record 'w Daemon =
  dm_service :: AgentService
  dm_runtime :: "'w Service"

type_synonym ('w, 'a) dm = "('w Daemon, 'a) state"

record 'w AgentOptions =
  ao_backend :: "'w Backend"
  ao_monitor :: MonitorOptions
  ao_now :: "'w Daemon \<Rightarrow> time"
  ao_clock :: "'w Daemon \<Rightarrow> clock"
  ao_newAgentID :: "('w, ID) dm"
  ao_Abs :: "string \<Rightarrow> string option"
  ao_IsDir :: "string \<Rightarrow> bool option"

fun deliver :: "MonitorOptions \<Rightarrow> clock \<Rightarrow> notification \<Rightarrow> Monitor \<Rightarrow> Monitor" where
  "deliver opts clk (NOpened p) m = PaneOpened p m"
| "deliver opts clk (NOutput p rendered) m = PaneOutput opts clk p rendered m"
| "deliver opts clk (NClosed p) m = PaneClosed p m"
| "deliver opts clk (NError p e) m = PaneError opts clk p (Some (err_text e)) m"
| "deliver opts clk (NMetadata p title available) m = PaneMetadata opts clk p (if available then Some title else None) m"

definition runtimeCall :: "'w AgentOptions \<Rightarrow> ('w, 'a) rt \<Rightarrow> ('w, 'a) dm" where
  "runtimeCall ao f = State (\<lambda>d.
     let (r, rt) = run_state f (dm_runtime d);
         news = drop (length (sv_obs (dm_runtime d))) (sv_obs rt);
         s = dm_service d
     in (r, d\<lparr>dm_runtime := rt,
              dm_service := s\<lparr>as_monitor := fold (deliver (ao_monitor ao) (ao_clock ao d)) news (as_monitor s)\<rparr>\<rparr>))"

definition agents :: "(AgentService \<Rightarrow> AgentService \<times> 'a) \<Rightarrow> ('w, 'a) dm" where
  "agents f = State (\<lambda>d. let (s, r) = f (dm_service d) in (r, d\<lparr>dm_service := s\<rparr>))"

definition onMonitor :: "(Monitor \<Rightarrow> Monitor \<times> 'a) \<Rightarrow> AgentService \<Rightarrow> AgentService \<times> 'a" where
  "onMonitor f s = (let (m, r) = f (as_monitor s) in (s\<lparr>as_monitor := m\<rparr>, r))"

definition onStore :: "(memoryStore \<Rightarrow> memoryStore \<times> 'a) \<Rightarrow> AgentService \<Rightarrow> AgentService \<times> 'a" where
  "onStore f s = (let (st, r) = f (as_store s) in (setStore st s, r))"

text \<open>\<open>filepath.Base\<close> of a slash-separated path.\<close>

definition Base :: "string \<Rightarrow> string" where
  "Base file =
     (if file = [] then ''.''
      else let name = takeWhile (\<lambda>c. c \<noteq> CHR ''/'') (dropWhile (\<lambda>c. c = CHR ''/'') (rev file))
           in if name = [] then ''/'' else rev name)"

definition resolveAgentCWD :: "'w AgentOptions \<Rightarrow> string \<Rightarrow> svc_error + string" where
  "resolveAgentCWD ao cwd0 =
     (let cwd = TrimSpace cwd0 in
      if cwd = [] then Inl [ErrInvalidAgentCWD cwd]
      else case ao_Abs ao cwd of
        None \<Rightarrow> Inl [ErrInvalidAgentCWD cwd]
      | Some full \<Rightarrow> (case ao_IsDir ao full of Some True \<Rightarrow> Inr full | _ \<Rightarrow> Inl [ErrInvalidAgentCWD full]))"

text \<open>The checks before an identifier is drawn: profile, access mode, command, directory, source, target.\<close>

definition checkStart :: "'w AgentOptions \<Rightarrow> StartAgentRequest \<Rightarrow>
    svc_error + (Profile \<times> AccessMode \<times> string list \<times> string)" where
  "checkStart ao req =
     (case LookupProfile (sa_Kind req) of
        None \<Rightarrow> Inl [ErrInvalidAgentKind (sa_Kind req)]
      | Some profile \<Rightarrow>
     (case ParseAccessMode (sa_AccessMode req) of
        Inl e \<Rightarrow> Inl [SvcStore e]
      | Inr access \<Rightarrow>
     (case BuildManagedCommand profile access (sa_Prompt req) (sa_ExtraArgs req) of
        Inl e \<Rightarrow> Inl [SvcStore e]
      | Inr command \<Rightarrow>
     (case resolveAgentCWD ao (sa_CWD req) of
        Inl e \<Rightarrow> Inl e
      | Inr cwd \<Rightarrow>
          if TrimSpace (sa_SourceZellijSession req) = [] \<or> TrimSpace (sa_SourceZellijPaneID req) = []
          then Inl [ErrAgentSourceRequired]
          else if TrimSpace (sa_TargetSession req) \<noteq> [] \<and> sa_ParentPaneID req = []
          then Inl [SvcRuntime ErrInvalidPaneTarget]
          else Inr (profile, access, command, cwd)))))"

definition newRecord :: "StartAgentRequest \<Rightarrow> Profile \<Rightarrow> AccessMode \<Rightarrow> string \<Rightarrow> ID \<Rightarrow> time \<Rightarrow> Record" where
  "newRecord req profile access cwd i now =
     zeroRecord\<lparr>a_ID := i, a_Kind := sa_Kind req, a_AccessMode := access, a_PaneID := i, a_CWD := cwd,
       a_State := StateUnknown, a_NotifyOnIdle := sa_NotifyOnIdle req \<and> pr_TracksState profile,
       a_CreatedAt := now, a_StateChangedAt := now,
       a_StateReason := (if pr_TracksState profile then [] else ''state_tracking_disabled'')\<rparr>"

definition emptyCreate :: CreatePaneRequest where
  "emptyCreate = \<lparr>cr_NoFocus = False, cr_ReuseParentTab = False, cr_ReuseDirectoryTab = False, cr_EnsureSession = False,
     cr_ParentPaneID = [], cr_ID = [], cr_TaskID = [], cr_AgentID = [], cr_Role = [], cr_Name = [], cr_ZellijSession = [],
     cr_NewTab = False, cr_TabName = [], cr_LayoutString = [], cr_ZellijTabID = None, cr_SameTabAsPaneID = [],
     cr_SameTabAsZellijPaneID = [], cr_Command = [], cr_CWD = [], cr_InitialInput = [], cr_InitialInputReadyText = []\<rparr>"

definition startPaneRequest :: "StartAgentRequest \<Rightarrow> Record \<Rightarrow> string list \<Rightarrow> CreatePaneRequest" where
  "startPaneRequest req r command =
     (let source = TrimSpace (sa_SourceZellijSession req);
          target = TrimSpace (sa_TargetSession req);
          base = emptyCreate\<lparr>cr_ID := a_PaneID r, cr_AgentID := a_ID r, cr_Role := ''coding-agent'', cr_ZellijSession := source,
            cr_Name := Base (a_CWD r), cr_Command := command, cr_CWD := a_CWD r\<rparr>
      in if sa_ParentPaneID req \<noteq> [] then
           (let child = base\<lparr>cr_SameTabAsPaneID := sa_ParentPaneID req, cr_ParentPaneID := sa_ParentPaneID req\<rparr>
            in if target \<noteq> [] then child\<lparr>cr_ZellijSession := target, cr_SameTabAsPaneID := [], cr_NewTab := True,
                 cr_ReuseParentTab := True, cr_EnsureSession := True\<rparr>
               else child)
         else base\<lparr>cr_NewTab := True, cr_NoFocus := True, cr_ReuseDirectoryTab := sa_ReuseDirectoryTab req\<rparr>)"

definition startPane :: "'w AgentOptions \<Rightarrow> StartAgentRequest \<Rightarrow> Record \<Rightarrow> string list \<Rightarrow> ('w, rt_error + PaneRecord) dm" where
  "startPane ao req r command = runtimeCall ao
     (if sa_ParentPaneID req \<noteq> [] \<or> sa_NewPane req then CreatePane (ao_backend ao) (startPaneRequest req r command)
      else ClaimPane (ao_backend ao) \<lparr>cl_ID = a_PaneID r, cl_TaskID = [], cl_AgentID = a_ID r, cl_Role = ''coding-agent'',
        cl_ZellijSession = TrimSpace (sa_SourceZellijSession req), cl_ZellijPaneID = TrimSpace (sa_SourceZellijPaneID req),
        cl_Command = command, cl_CWD = a_CWD r\<rparr>)"

definition startMonitor :: "MonitorOptions \<Rightarrow> Profile \<Rightarrow> Record \<Rightarrow> AgentService \<Rightarrow> AgentService \<times> monitor_error option" where
  "startMonitor opts profile r s = (if pr_TracksState profile then onMonitor (MonitorStart opts r) s else (s, None))"

abbreviation (input) rollbackErrors :: "bool \<times> agent_error option \<Rightarrow> svc_error" where
  "rollbackErrors r \<equiv> (case snd r of None \<Rightarrow> [] | Some e \<Rightarrow> [SvcStore e])"

definition StartAgent :: "'w AgentOptions \<Rightarrow> StartAgentRequest \<Rightarrow> ('w, svc_error + Record \<times> PaneView) dm" where
  "StartAgent ao req =
     (case checkStart ao req of
        Inl e \<Rightarrow> return (Inl e)
      | Inr (profile, access, command, cwd) \<Rightarrow> do {
          i \<leftarrow> ao_newAgentID ao;
          if i = [] then return (Inl [ErrAgentIDRequired])
          else do {
            now \<leftarrow> gets (ao_now ao);
            reg \<leftarrow> agents (registerStart (newRecord req profile access cwd i now));
            case reg of
              Inl e \<Rightarrow> return (Inl [SvcStore e])
            | Inr (created, p) \<Rightarrow> do {
                started \<leftarrow> agents (startMonitor (ao_monitor ao) profile created);
                case started of
                  Some e \<Rightarrow> do {
                    r \<leftarrow> agents (cleanupOwnedRecord p False);
                    return (Inl (SvcMonitor e # rollbackErrors r)) }
                | None \<Rightarrow> do {
                    result \<leftarrow> startPane ao req created command;
                    case result of
                      Inl e \<Rightarrow> do {
                        r \<leftarrow> agents (cleanupOwnedRecord p True);
                        return (Inl (map SvcRuntime e @ rollbackErrors r)) }
                    | Inr pane \<Rightarrow> do {
                        agents (\<lambda>s. (markOwnerState p AgentActive s, ()));
                        return (Inr (created, paneFromRecord pane)) } } } } })"

text \<open>Listing: the agents with their panes, and what the removal of orphans reported.\<close>

fun listLoop :: "PaneView list \<Rightarrow> agentSnapshot list \<Rightarrow> (Record \<times> PaneView) list \<times> agent_error list \<Rightarrow>
    ('w, (Record \<times> PaneView) list \<times> agent_error list) dm" where
  "listLoop panes [] acc = return acc"
| "listLoop panes (sn # sns) acc =
     (case find (\<lambda>v. pv_ID v = a_PaneID (sn_record sn)) (rev panes) of
        None \<Rightarrow> do {
          e \<leftarrow> agents (cleanupOrphan sn);
          listLoop panes sns (fst acc, snd acc @ (case e of None \<Rightarrow> [] | Some x \<Rightarrow> [x])) }
      | Some pane \<Rightarrow> do {
          current \<leftarrow> gets (\<lambda>d. snapshotIsCurrent sn (dm_service d));
          listLoop panes sns (fst acc @ (if current then [(sn_record sn, pane)] else []), snd acc) })"

definition ListAgents :: "'w AgentOptions \<Rightarrow> ('w, svc_error + (Record \<times> PaneView) list) dm" where
  "ListAgents ao = do {
     sns \<leftarrow> agents snapshotAgents;
     panes \<leftarrow> runtimeCall ao (ListPaneViews (ao_backend ao));
     res \<leftarrow> listLoop panes sns ([], []);
     return (if snd res \<noteq> [] then Inl (map SvcStore (snd res)) else Inr (fst res)) }"

text \<open>Focus. An invalid target is explained by looking at the pane again.\<close>

definition classifyInvalidFocusTarget :: "'w AgentOptions \<Rightarrow> Record \<Rightarrow> rt_error \<Rightarrow> ('w, svc_error) dm" where
  "classifyInvalidFocusTarget ao r focusErr = do {
     panes \<leftarrow> runtimeCall ao (ListPaneViews (ao_backend ao));
     return (case find (\<lambda>v. pv_ID v = a_PaneID r) panes of
       Some pane \<Rightarrow>
         if terminalAgentPane (pv_Status pane) then SvcStore (ErrAgentNotFound (a_ID r)) # map SvcRuntime focusErr
         else map SvcRuntime focusErr
     | None \<Rightarrow> SvcStore (ErrAgentNotFound (a_ID r)) # map SvcRuntime focusErr) }"

definition focusAgentLocked :: "'w AgentOptions \<Rightarrow> ID \<Rightarrow> string \<Rightarrow> string \<Rightarrow> ('w, svc_error + Record \<times> PaneView) dm" where
  "focusAgentLocked ao i session pane = do {
     agents (\<lambda>s. (sweepInactiveOwnersLocked None s, ()));
     found \<leftarrow> gets (\<lambda>d. GetAgent i (as_store (dm_service d)));
     case found of
       Inl e \<Rightarrow> return (Inl [SvcStore e])
     | Inr r \<Rightarrow> do {
         response \<leftarrow> runtimeCall ao (FocusPane (ao_backend ao) (a_PaneID r) (TrimSpace session) (TrimSpace pane));
         case response of
           Inl err \<Rightarrow>
             if ErrPaneNotFound \<in> set err then return (Inl (SvcStore (ErrAgentNotFound i) # map SvcRuntime err))
             else if ErrInvalidPaneTarget \<in> set err then do {
               causes \<leftarrow> classifyInvalidFocusTarget ao r err;
               return (Inl causes) }
             else return (Inl (map SvcRuntime err))
         | Inr view \<Rightarrow>
             if terminalAgentPane (pv_Status view) then return (Inl [SvcStore (ErrAgentNotFound i)])
             else do {
               agents (\<lambda>s. (s\<lparr>as_lastFocusedID := a_ID r\<rparr>, ()));
               return (Inr (r, view)) } } }"

definition FocusAgent :: "'w AgentOptions \<Rightarrow> ID \<Rightarrow> string \<Rightarrow> string \<Rightarrow> ('w, svc_error + Record \<times> PaneView) dm" where
  "FocusAgent ao i session pane =
     (if TrimSpace session = [] \<or> TrimSpace pane = [] then return (Inl [ErrAgentSourceRequired])
      else focusAgentLocked ao i session pane)"

record FocusNextAgentRequest =
  fn_SourceZellijSession :: string
  fn_SourceZellijPaneID :: string
  fn_IdleOnly :: bool
  fn_PinnedOnly :: bool
  fn_UnpinnedOnly :: bool

text \<open>\<open>Inr None\<close> is the answer that nothing was focused.\<close>

definition focusAdjacentAgent ::
  "'w AgentOptions \<Rightarrow> FocusNextAgentRequest \<Rightarrow> int \<Rightarrow> ('w, svc_error + (Record \<times> PaneView) option) dm" where
  "focusAdjacentAgent ao req step =
     (if fn_PinnedOnly req \<and> fn_UnpinnedOnly req then return (Inl [ErrConflictingPinFilters])
      else do {
        s \<leftarrow> gets dm_service;
        case adjacentAgentRecord (ListRecords (as_store s)) (as_lastFocusedID s) (as_lastSeenIdle s) (fn_IdleOnly req)
            (fn_PinnedOnly req) (fn_UnpinnedOnly req) step of
          None \<Rightarrow> return (Inr None)
        | Some r \<Rightarrow> do {
            response \<leftarrow> focusAgentLocked ao (a_ID r) (fn_SourceZellijSession req) (fn_SourceZellijPaneID req);
            case response of
              Inl e \<Rightarrow> return (Inl e)
            | Inr found \<Rightarrow> do {
                agents (\<lambda>s. (if fn_IdleOnly req \<and> as_lastSeenIdle s < a_StateChangedAt r
                  then s\<lparr>as_lastSeenIdle := a_StateChangedAt r\<rparr> else s, ()));
                return (Inr (Some found)) } } })"

definition FocusNextAgent :: "'w AgentOptions \<Rightarrow> FocusNextAgentRequest \<Rightarrow> ('w, svc_error + (Record \<times> PaneView) option) dm" where
  "FocusNextAgent ao req = focusAdjacentAgent ao req 1"

definition FocusPreviousAgent :: "'w AgentOptions \<Rightarrow> FocusNextAgentRequest \<Rightarrow> ('w, svc_error + (Record \<times> PaneView) option) dm" where
  "FocusPreviousAgent ao req = focusAdjacentAgent ao req (-1)"

definition SetAgentPinned :: "ID \<Rightarrow> bool \<Rightarrow> ('w, svc_error + Record) dm" where
  "SetAgentPinned i pinned = do {
     r \<leftarrow> agents (onStore (SetPinned i pinned));
     return (case r of Inl e \<Rightarrow> Inl [SvcStore e] | Inr a \<Rightarrow> Inr a) }"

definition SetAgentTaskAlias :: "ID \<Rightarrow> TaskAlias \<Rightarrow> ('w, svc_error + Record) dm" where
  "SetAgentTaskAlias i alias = do {
     r \<leftarrow> agents (onStore (SetTaskAlias i alias));
     return (case r of Inl e \<Rightarrow> Inl [SvcStore e] | Inr a \<Rightarrow> Inr a) }"

datatype explain_error = ExplainContext rt_error | ExplainID | ExplainFailed "agent_error + detect_error"

definition ExplainAgent :: "'w AgentOptions \<Rightarrow> ID \<Rightarrow> ('w, explain_error + AgentExplanation) dm" where
  "ExplainAgent ao i0 = do {
     ended \<leftarrow> runtimeCall ao (be_ctxErr (ao_backend ao));
     case ended of
       Some e \<Rightarrow> return (Inl (ExplainContext e))
     | None \<Rightarrow>
         let i = TrimSpace i0 in
         if i = [] then return (Inl ExplainID)
         else gets (\<lambda>d. case MonitorExplain (ao_monitor ao) i (as_monitor (dm_service d)) of
             Inl e \<Rightarrow> Inl (ExplainFailed e) | Inr x \<Rightarrow> Inr x) }"

text \<open>After a restart: agents without a pane go, the others are unknown again and monitored.\<close>

definition restartUpdate :: StateUpdate where
  "restartUpdate = \<lparr>su_State = StateUnknown, su_Reason = ''daemon restarted; awaiting fresh observation'', su_MatchedRule = []\<rparr>"

definition restoreOne :: "'w AgentOptions \<Rightarrow> Record \<Rightarrow> ('w, svc_error option) dm" where
  "restoreOne ao r = do {
     inspected \<leftarrow> runtimeCall ao (InspectPane (ao_backend ao) (a_PaneID r));
     case inspected of
       Inl err \<Rightarrow>
         if ErrPaneNotFound \<in> set err then do {
           e \<leftarrow> agents (onStore (DeleteAgent (a_ID r)));
           return (map_option (\<lambda>x. [SvcStore x]) e) }
         else return (Some (map SvcRuntime err))
     | Inr view \<Rightarrow>
         if pv_Role view \<noteq> ''coding-agent'' \<or> pv_AgentID view \<noteq> a_ID r then return (Some [ErrPaneNotOwned (a_ID r) (a_PaneID r)])
         else do {
           now \<leftarrow> gets (ao_now ao);
           changed \<leftarrow> agents (onStore (UpdateState now (a_ID r) restartUpdate));
           case changed of
             Inl e \<Rightarrow> return (Some [SvcStore e])
           | Inr ch \<Rightarrow>
               (case LookupProfile (a_Kind r) of
                  Some profile \<Rightarrow> do {
                    e \<leftarrow> agents (startMonitor (ao_monitor ao) profile (sc_Current ch));
                    return (map_option (\<lambda>x. [SvcMonitor x]) e) }
                | None \<Rightarrow> return None) } }"

fun restoreLoop :: "'w AgentOptions \<Rightarrow> Record list \<Rightarrow> ('w, svc_error option) dm" where
  "restoreLoop ao [] = return None"
| "restoreLoop ao (r # rs) = do {
     e \<leftarrow> restoreOne ao r;
     case e of Some err \<Rightarrow> return (Some err) | None \<Rightarrow> restoreLoop ao rs }"

definition RestoreMonitoring :: "'w AgentOptions \<Rightarrow> ('w, svc_error option) dm" where
  "RestoreMonitoring ao = do {
     records \<leftarrow> gets (\<lambda>d. ListRecords (as_store (dm_service d)));
     restoreLoop ao records }"

section \<open>Navigation goes around\<close>

definition ring :: "bool \<Rightarrow> bool \<Rightarrow> bool \<Rightarrow> Record list \<Rightarrow> Record list" where
  "ring idleOnly pinnedOnly unpinnedOnly records =
     (let found = filter (eligible idleOnly pinnedOnly unpinnedOnly) records in if idleOnly then byIdleTime found else found)"

lemma indexOf_nth: "distinct (map a_ID es) \<Longrightarrow> k < length es \<Longrightarrow> indexOf (a_ID (es ! k)) es = Some k"
proof (induction es arbitrary: k)
  case (Cons r es)
  show ?case
  proof (cases k)
    case (Suc j)
    then have "a_ID (es ! j) \<in> a_ID ` set es" using Cons.prems by simp
    then show ?thesis using Cons Suc by auto
  qed simp
qed simp

lemma ring_props:
  "mset (ring io po uo records) = mset (filter (eligible io po uo) records)"
  "ring io po uo records = [] \<longleftrightarrow> filter (eligible io po uo) records = []"
  by (auto simp: ring_def byIdleTime_def Let_def) (metis mset_sort mset_zero_iff)+

lemma distinct_ring: "distinct (map a_ID records) \<Longrightarrow> distinct (map a_ID (ring io po uo records))"
proof -
  assume "distinct (map a_ID records)"
  then have "distinct (map a_ID (filter (eligible io po uo) records))" by (rule distinct_map_filter)
  moreover have "mset (map a_ID (ring io po uo records)) = mset (map a_ID (filter (eligible io po uo) records))"
    by (simp add: ring_props(1))
  ultimately show ?thesis using mset_eq_imp_distinct_iff by blast
qed

lemma smod_next: "k < n \<Longrightarrow> (int k + 1) smod int n = int (Suc k mod n)"
  by (simp add: signed_modulo_int_def zmod_int add.commute)

lemma smod_previous:
  assumes "k < n"
  shows "nat (let x = (int (Suc k mod n) - 1) smod int n in if x < 0 then x + int n else x) = k"
proof (cases "Suc k = n")
  case True
  then show ?thesis by (cases "n = 1") (auto simp: signed_modulo_int_def Let_def)
next
  case False
  then show ?thesis using assms by (simp add: signed_modulo_int_def Let_def)
qed

lemma adjacent_seen:
  assumes "k < length (ring io po uo records)" "distinct (map a_ID records)"
    and "io \<longrightarrow> a_StateChangedAt (ring io po uo records ! 0) \<le> seen"
  shows "adjacentAgentRecord records (a_ID (ring io po uo records ! k)) seen io po uo step =
    Some (ring io po uo records ! nat (let x = (int k + step) smod int (length (ring io po uo records))
      in if x < 0 then x + int (length (ring io po uo records)) else x))"
proof -
  have ne: "filter (eligible io po uo) records \<noteq> []" using assms(1) ring_props(2) [of io po uo records] by auto
  have "indexOf (a_ID (ring io po uo records ! k)) (ring io po uo records) = Some k"
    by (rule indexOf_nth [OF distinct_ring [OF assms(2)] assms(1)])
  then show ?thesis using ne assms(3) unfolding adjacentAgentRecord_def ring_def Let_def by auto
qed

text \<open>
  Navigation goes around. Among the agents that a request asks for, in the order of the list or,
  for idle ones all seen before, the latest first, the next agent after the \<open>k\<close>-th is the following
  one, after the last the first, and the previous agent undoes the next.
\<close>

theorem navigation_goes_around:
  assumes es: "es = ring io po uo records" and k: "k < length es" and dist: "distinct (map a_ID records)"
    and seen: "io \<longrightarrow> (\<forall>r \<in> set es. a_StateChangedAt r \<le> seen)"
  shows "adjacentAgentRecord records (a_ID (es ! k)) seen io po uo 1 = Some (es ! (Suc k mod length es)) \<and>
    adjacentAgentRecord records (a_ID (es ! (Suc k mod length es))) seen io po uo (- 1) = Some (es ! k)"
proof -
  have k': "Suc k mod length es < length es" using k by (intro mod_less_divisor) auto
  have "io \<longrightarrow> a_StateChangedAt (es ! 0) \<le> seen" using seen k by (auto intro!: nth_mem)
  note adj = adjacent_seen [OF _ dist this [unfolded es], folded es]
  have "(int k + 1) smod int (length es) = int (Suc k mod length es)" by (rule smod_next [OF k])
  then show ?thesis using adj [OF k, of 1] adj [OF k', of "-1"] smod_previous [OF k] by (simp add: Let_def)
qed

text \<open>
  News first. If an agent asked for became idle after the last one that was seen, whatever the
  current agent and the direction, the request goes to an idle agent, and to a latest one.
\<close>

theorem unseen_idle_first:
  assumes "r \<in> set records" "eligible True po uo r" "seen < a_StateChangedAt r"
  shows "\<exists>x \<in> set records. adjacentAgentRecord records current seen True po uo step = Some x \<and> eligible True po uo x \<and>
    list_all (\<lambda>z. a_StateChangedAt z \<le> a_StateChangedAt x) (filter (eligible True po uo) records)"
proof -
  let ?f = "filter (eligible True po uo) records" and ?es = "ring True po uo records"
  have r: "r \<in> set ?f" using assms by simp
  have es: "?es = byIdleTime ?f" "set ?es = set ?f" by (simp_all add: ring_def byIdleTime_def)
  then have ne: "?es \<noteq> []" using r by auto
  have "sorted (map (\<lambda>r. (- a_StateChangedAt r, a_CreatedAt r, a_ID r)) ?es)" unfolding es(1) byIdleTime_def by (rule sorted_sort_key)
  then have "a_StateChangedAt z \<le> a_StateChangedAt (?es ! 0)" if "z \<in> set ?es" for z
    using that ne by (cases ?es) (auto simp: less_eq_prod_def)
  then have first: "a_StateChangedAt z \<le> a_StateChangedAt (?es ! 0)" if "z \<in> set ?f" for z using that es(2) by simp
  have "seen < a_StateChangedAt (?es ! 0)" using first [OF r] assms(3) by simp
  moreover have "?f \<noteq> []" using r by (metis empty_iff empty_set)
  ultimately have "adjacentAgentRecord records current seen True po uo step = Some (?es ! 0)"
    unfolding adjacentAgentRecord_def es(1) by (simp add: Let_def)
  moreover have "?es ! 0 \<in> set ?f" using es(2) ne nth_mem [of 0 ?es] by auto
  ultimately show ?thesis using first by (intro bexI [of _ "?es ! 0"]) (auto simp: list_all_iff)
qed

section \<open>Witnesses\<close>

definition demo_records :: "Record list" where
  "demo_records = map (\<lambda>i. demo_agent\<lparr>a_ID := i, a_State := ''idle'', a_StateChangedAt := 7\<rparr>) [''a'', ''b'', ''c'']"

theorem navigation_goes_around_witness:
  "adjacentAgentRecord demo_records ''c'' 9 True False True 1 = Some (hd demo_records) \<and>
   adjacentAgentRecord demo_records ''a'' 9 True False True (- 1) = Some (last demo_records)"
proof -
  have es: "ring True False True demo_records = demo_records" by code_simp
  have "adjacentAgentRecord demo_records (a_ID (demo_records ! 2)) 9 True False True 1 =
      Some (demo_records ! (Suc 2 mod length demo_records)) \<and>
    adjacentAgentRecord demo_records (a_ID (demo_records ! (Suc 2 mod length demo_records))) 9 True False True (- 1) = Some (demo_records ! 2)"
    by (rule navigation_goes_around [OF es [symmetric]]) (simp_all add: demo_records_def)
  then show ?thesis by (simp add: demo_records_def)
qed

theorem unseen_idle_first_witness:
  "\<exists>x \<in> set demo_records. adjacentAgentRecord demo_records ''b'' 3 True False False 1 = Some x \<and> a_State x = StateIdle"
proof -
  have "hd demo_records \<in> set demo_records" "eligible True False False (hd demo_records)" "3 < a_StateChangedAt (hd demo_records)"
    by (simp_all add: demo_records_def demo_agent_def zeroRecord_def eligible_def StateIdle_def)
  from unseen_idle_first [OF this, of "''b''" 1] show ?thesis by (auto simp: eligible_def)
qed

end
