(* ===== verification/Agent_Lifecycle.thy ===== *)
theory Agent_Lifecycle
  imports Agent_Service
begin

text \<open>
  Concurrent requests to the service for coding agents. A start is a thread that goes through the
  phases of \<open>StartAgent\<close>; between its critical sections any other critical section may run: of other
  starts, of listings, sweeps and clean-ups, of the store's users and of the monitor. A run is a
  list of such events. The invariant \<open>sys_inv\<close> says that a starting agent's identifier is reserved by
  the ownership its thread holds; the properties are what follows from it for starts and listings.
\<close>

declare map_of_eq_Some_iff [simp del] Some_eq_map_of_iff [simp del]

section \<open>Runs\<close>

datatype start_phase =
    Registered nat Record | MonitorRead nat Record | Provisioned nat | Failing nat bool

fun phase_owner :: "start_phase \<Rightarrow> nat" where
  "phase_owner (Registered p _) = p"
| "phase_owner (MonitorRead p _) = p"
| "phase_owner (Provisioned p) = p"
| "phase_owner (Failing p _) = p"

record System =
  sy_service :: AgentService
  sy_starts :: "(nat, start_phase) gomap"

text \<open>\<open>monitor.Start\<close> reads the store before it takes the monitor's lock, so it is two steps.\<close>

definition monitorReads :: "MonitorOptions \<Rightarrow> nat \<Rightarrow> Record \<Rightarrow> Monitor \<Rightarrow> start_phase" where
  "monitorReads opts p r m =
     (case LookupProfile (a_Kind r) of
        None \<Rightarrow> Provisioned p
      | Some profile \<Rightarrow>
          if \<not> pr_TracksState profile then Provisioned p
          else case (snd (MonitorStart opts r m), GetAgent (a_ID r) (mo_store m)) of
            (None, Inr stored) \<Rightarrow> MonitorRead p stored
          | _ \<Rightarrow> Failing p False)"

datatype svc_event =
    SvStart nat Record | SvMonitorRead nat | SvMonitorLock nat | SvPane nat bool | SvRollback nat
  | SvSnapshot | SvOrphan agentSnapshot | SvSweep | SvMonitor mon_event

fun creates_agent :: "mon_event \<Rightarrow> bool" where
  "creates_agent (EvStore _ (OpCreateAgent _)) = True"
| "creates_agent _ = False"

definition onService :: "(AgentService \<Rightarrow> AgentService) \<Rightarrow> System \<Rightarrow> System" where
  "onService f y = y\<lparr>sy_service := f (sy_service y)\<rparr>"

definition setPhase :: "nat \<Rightarrow> start_phase \<Rightarrow> System \<Rightarrow> System" where
  "setPhase t ph y = y\<lparr>sy_starts := mput (sy_starts y) t ph\<rparr>"

definition endThread :: "nat \<Rightarrow> System \<Rightarrow> System" where
  "endThread t y = y\<lparr>sy_starts := mdel (sy_starts y) t\<rparr>"

fun svc_exec :: "MonitorOptions \<Rightarrow> clock \<Rightarrow> svc_event \<Rightarrow> System \<Rightarrow> System" where
  "svc_exec opts clk (SvStart t r) y =
     (if mget (sy_starts y) t \<noteq> None then y
      else case registerStart r (sy_service y) of
        (s, Inl _) \<Rightarrow> y\<lparr>sy_service := s\<rparr>
      | (s, Inr (created, p)) \<Rightarrow> setPhase t (Registered p created) (y\<lparr>sy_service := s\<rparr>))"
| "svc_exec opts clk (SvMonitorRead t) y =
     (case mget (sy_starts y) t of
        Some (Registered p r) \<Rightarrow> setPhase t (monitorReads opts p r (as_monitor (sy_service y))) y
      | _ \<Rightarrow> y)"
| "svc_exec opts clk (SvMonitorLock t) y =
     (case mget (sy_starts y) t of
        Some (MonitorRead p stored) \<Rightarrow>
          setPhase t (Provisioned p) (onService (\<lambda>s. s\<lparr>as_monitor := startLocked stored (as_monitor s)\<rparr>) y)
      | _ \<Rightarrow> y)"
| "svc_exec opts clk (SvPane t ok) y =
     (case mget (sy_starts y) t of
        Some (Provisioned p) \<Rightarrow>
          if ok then endThread t (onService (markOwnerState p AgentActive) y) else setPhase t (Failing p True) y
      | _ \<Rightarrow> y)"
| "svc_exec opts clk (SvRollback t) y =
     (case mget (sy_starts y) t of
        Some (Failing p stop) \<Rightarrow> endThread t (onService (fst \<circ> cleanupOwnedRecord p stop) y)
      | _ \<Rightarrow> y)"
| "svc_exec opts clk SvSnapshot y = onService (fst \<circ> snapshotAgents) y"
| "svc_exec opts clk (SvOrphan sn) y = onService (fst \<circ> cleanupOrphan sn) y"
| "svc_exec opts clk SvSweep y = onService (sweepInactiveOwnersLocked None) y"
| "svc_exec opts clk (SvMonitor ev) y =
     (if creates_agent ev then y else onService (\<lambda>s. s\<lparr>as_monitor := mon_exec opts clk ev (as_monitor s)\<rparr>) y)"

definition svc_run :: "MonitorOptions \<Rightarrow> (clock \<times> svc_event) list \<Rightarrow> System \<Rightarrow> System" where
  "svc_run opts evs y = fold (\<lambda>(clk, ev). svc_exec opts clk ev) evs y"

definition newSystem :: "memoryStore \<Rightarrow> System" where
  "newSystem st = \<lparr>sy_service = NewAgentService (NewMonitor st), sy_starts = []\<rparr>"

section \<open>Invariant\<close>

abbreviation owner_id :: "AgentService \<Rightarrow> nat \<Rightarrow> ID" where
  "owner_id s p \<equiv> a_ID (ow_record (as_objects s ! p))"

definition reserved :: "AgentService \<Rightarrow> nat \<Rightarrow> bool" where
  "reserved s p \<longleftrightarrow> p < length (as_objects s) \<and> ow_state (as_objects s ! p) = AgentProvisioning \<and>
     mget (as_owners s) (owner_id s p) = Some p \<and>
     (\<forall>r. agents_of (as_store s) (owner_id s p) = Some r \<longrightarrow> sameRecordIdentity r (ow_record (as_objects s ! p)))"

definition owners_ok :: "AgentService \<Rightarrow> bool" where
  "owners_ok s \<longleftrightarrow> mapok (as_owners s) \<and>
     (\<forall>i p. mget (as_owners s) i = Some p \<longrightarrow>
        p < length (as_objects s) \<and> owner_id s p = i \<and> ow_state (as_objects s ! p) \<in> {AgentProvisioning, AgentActive})"

definition sys_inv :: "System \<Rightarrow> bool" where
  "sys_inv y \<longleftrightarrow> mon_inv (as_monitor (sy_service y)) \<and> owners_ok (sy_service y) \<and> mapok (sy_starts y) \<and>
     (\<forall>t ph. mget (sy_starts y) t = Some ph \<longrightarrow> reserved (sy_service y) (phase_owner ph)) \<and>
     (\<forall>t t' ph ph'. mget (sy_starts y) t = Some ph \<longrightarrow> mget (sy_starts y) t' = Some ph' \<longrightarrow>
        phase_owner ph = phase_owner ph' \<longrightarrow> t = t') \<and>
     (\<forall>i p. mget (as_owners (sy_service y)) i = Some p \<longrightarrow> ow_state (as_objects (sy_service y) ! p) = AgentProvisioning \<longrightarrow>
        (\<exists>t ph. mget (sy_starts y) t = Some ph \<and> phase_owner ph = p))"

section \<open>The store under the monitor\<close>

lemma sameRecordIdentity_refl [simp]: "sameRecordIdentity r r"
  by (simp add: sameRecordIdentity_def)

lemma sameRecordIdentity_sym: "sameRecordIdentity r r' \<Longrightarrow> sameRecordIdentity r' r"
  by (simp add: sameRecordIdentity_def)

lemma sameRecordIdentity_trans: "sameRecordIdentity r r' \<Longrightarrow> sameRecordIdentity r' r'' \<Longrightarrow> sameRecordIdentity r r''"
  by (simp add: sameRecordIdentity_def)

text \<open>Nothing is created, and what stays is the same agent.\<close>

definition keeps_agents :: "agents \<Rightarrow> agents \<Rightarrow> bool" where
  "keeps_agents T T' \<longleftrightarrow> (\<forall>i r'. T' i = Some r' \<longrightarrow> (\<exists>r. T i = Some r \<and> sameRecordIdentity r r'))"

lemma keeps_agents_refl [simp]: "keeps_agents T T"
  by (simp add: keeps_agents_def)

lemma keeps_agents_del: "keeps_agents T (T(i := None))"
  by (simp add: keeps_agents_def)

lemma keeps_agents_upd: "T i = Some r \<Longrightarrow> sameRecordIdentity r r' \<Longrightarrow> keeps_agents T (T(i \<mapsto> r'))"
  by (simp add: keeps_agents_def)

lemma same_with_state [simp]: "sameRecordIdentity r (with_state now u r)"
  by (simp add: sameRecordIdentity_def with_state_def)

lemma keeps_agents_state [intro]: "T i = Some r \<Longrightarrow> keeps_agents T (T(i \<mapsto> with_state now u r))"
  by (simp add: keeps_agents_upd)

lemma keeps_agents_change:
  "(\<And>r. sameRecordIdentity r (f r)) \<Longrightarrow> keeps_agents T (fst (change_agent i f T))"
  by (auto simp: change_agent_def intro: keeps_agents_upd split: option.split)

lemma keeps_agents_store:
  assumes ok: "store_ok st" and nc: "\<And>r. op \<noteq> OpCreateAgent r"
  shows "keeps_agents (agents_of st) (agents_of (fst (store_step now op st)))"
proof -
  have "agents_of (fst (store_step now op st)) = fst (table_step now op (agents_of st))"
    using store_view_step [OF ok, of now op] by (metis fst_conv)
  moreover have "keeps_agents T (fst (table_step now op T))" for T
    by (cases op) (use nc in \<open>auto simp: keeps_agents_del keeps_agents_upd sameRecordIdentity_def intro!: keeps_agents_change split: option.split\<close>)
  ultimately show ?thesis by simp
qed

lemma DeleteAgent_step: "fst (DeleteAgent i st) = fst (store_step now (OpDelete i) st)"
  by simp

lemma agents_of_Delete [simp]: "store_ok st \<Longrightarrow> agents_of (fst (DeleteAgent i st)) = (agents_of st)(i := None)"
  by (auto simp: DeleteAgent_def store_ok_def split: option.split)

lemma keeps_agents_monitor:
  assumes inv: "mon_inv m" and nc: "\<not> creates_agent ev"
  shows "keeps_agents (agents_of (mo_store m)) (agents_of (mo_store (mon_exec opts clk ev m)))"
proof -
  have ok: "store_ok (mo_store m)" using inv by (simp add: mon_inv_def)
  show ?thesis
  proof (cases "store_event ev")
    case True
    then show ?thesis
    proof (cases ev)
      case (EvStore now op)
      then have "\<And>r. op \<noteq> OpCreateAgent r" using nc by auto
      then show ?thesis using keeps_agents_store [OF ok] EvStore by simp
    qed (simp_all add: paneClosedDelete_def ok keeps_agents_del)
  next
    case False
    then show ?thesis using published_step [OF inv False, of opts clk] unfolding published_def
      by (elim disjE exE conjE) (simp_all add: keeps_agents_state)
  qed
qed

section \<open>What the critical sections do\<close>

lemma mget_filter: "mapok m \<Longrightarrow> mget (filter (\<lambda>(k, v). P k v) m) k = (case mget m k of Some v \<Rightarrow> if P k v then Some v else None | None \<Rightarrow> None)"
  by (induction m) (auto split: option.splits simp: map_of_eq_None_iff)

lemma mapok_filter: "mapok m \<Longrightarrow> mapok (filter P m)"
  by (simp add: distinct_map_filter)

lemma setStore_sel [simp]:
  "as_owners (setStore st s) = as_owners s" "as_objects (setStore st s) = as_objects s" "as_store (setStore st s) = st"
  "as_nextOwner (setStore st s) = as_nextOwner s"
  by (simp_all add: setStore_def)

lemma dropOwner_sel [simp]:
  "as_owners (dropOwner i s) = mdel (as_owners s) i" "as_objects (dropOwner i s) = as_objects s"
  "as_monitor (dropOwner i s) = as_monitor s"
  by (simp_all add: dropOwner_def)

lemma setOwnerState_sel [simp]:
  "as_owners (setOwnerState p st s) = as_owners s" "as_monitor (setOwnerState p st s) = as_monitor s"
  "as_objects (setOwnerState p st s) = (as_objects s)[p := (as_objects s ! p)\<lparr>ow_state := st\<rparr>]"
  by (simp_all add: setOwnerState_def)

lemma sweep_sel [simp]:
  "as_objects (sweepInactiveOwnersLocked c s) = as_objects s" "as_monitor (sweepInactiveOwnersLocked c s) = as_monitor s"
  "as_nextOwner (sweepInactiveOwnersLocked c s) = as_nextOwner s"
  by (simp_all add: sweepInactiveOwnersLocked_def)

lemma sweep_owner:
  "owners_ok s \<Longrightarrow> mget (as_owners (sweepInactiveOwnersLocked c s)) i = Some p \<longleftrightarrow>
     mget (as_owners s) i = Some p \<and> keepOwner c (as_store s) i (as_objects s ! p)"
  by (auto simp: sweepInactiveOwnersLocked_def mget_filter owners_ok_def split: option.splits)

lemma owners_ok_sweep: "owners_ok s \<Longrightarrow> owners_ok (sweepInactiveOwnersLocked c s)"
  using sweep_owner [of s c] by (auto simp: owners_ok_def sweepInactiveOwnersLocked_def mapok_filter)

lemma reserved_sweep: "owners_ok s \<Longrightarrow> reserved s p \<Longrightarrow> reserved (sweepInactiveOwnersLocked c s) p"
  by (simp add: reserved_def sweep_owner keepOwner_def)

text \<open>
  In this store a lookup fails only with not-found, and a record that was found is deleted: a
  clean-up always ends with the owner gone.
\<close>

lemma GetAgent_cases: "GetAgent i st = (case agents_of st i of None \<Rightarrow> Inl (ErrAgentNotFound i) | Some r \<Rightarrow> Inr r)"
  by (simp add: GetAgent_def)

definition stopped :: "bool \<Rightarrow> ID \<Rightarrow> Monitor \<Rightarrow> Monitor" where
  "stopped stop i m = (if stop then MonitorStop i (m\<lparr>mo_store := fst (DeleteAgent i (mo_store m))\<rparr>)
     else m\<lparr>mo_store := fst (DeleteAgent i (mo_store m))\<rparr>)"

lemma removeOwned_cases:
  "removeOwned p r stop s =
     (case agents_of (as_store s) (a_ID r) of
        None \<Rightarrow> (dropOwner (a_ID r) s, False, None)
      | Some c \<Rightarrow>
          if \<not> sameRecordIdentity c r then (dropOwner (a_ID r) s, False, None)
          else (dropOwner (a_ID r) ((setOwnerState p AgentCleaning s)\<lparr>as_monitor := stopped stop (a_ID r) (as_monitor s)\<rparr>),
                True, None))"
  by (auto simp: removeOwned_def GetAgent_cases DeleteAgent_def stopped_def setStore_def Let_def setOwnerState_def
      split: option.split)

lemma store_MonitorStop [simp]: "mo_store (MonitorStop i m) = mo_store m"
  by (simp add: MonitorStop_def withEntry_def split: option.split)

lemma store_stopped [simp]: "store_ok (mo_store m) \<Longrightarrow> agents_of (mo_store (stopped stop i m)) = (agents_of (mo_store m))(i := None)"
  by (simp add: stopped_def)

lemma mon_inv_stopped:
  assumes "mon_inv m"
  shows "mon_inv (stopped stop i m)"
proof -
  have "mon_inv (mon_exec opts clk (EvStore now (OpDelete i)) m)" for opts clk now by (rule mon_inv_step [OF assms])
  then have d: "mon_inv (m\<lparr>mo_store := fst (DeleteAgent i (mo_store m))\<rparr>)" by simp
  have "mon_inv (mon_exec opts clk (EvStop i) (m\<lparr>mo_store := fst (DeleteAgent i (mo_store m))\<rparr>))" for opts clk
    by (rule mon_inv_step [OF d])
  then show ?thesis using d by (simp add: stopped_def)
qed

text \<open>What touches only the agent \<open>j\<close>.\<close>

definition frame :: "ID \<Rightarrow> AgentService \<Rightarrow> AgentService \<Rightarrow> bool" where
  "frame j s s' \<longleftrightarrow> (\<forall>i. i \<noteq> j \<longrightarrow> mget (as_owners s') i = mget (as_owners s) i) \<and>
     length (as_objects s) \<le> length (as_objects s') \<and>
     (\<forall>p < length (as_objects s). owner_id s p \<noteq> j \<longrightarrow> as_objects s' ! p = as_objects s ! p) \<and>
     (\<forall>i. i \<noteq> j \<longrightarrow> agents_of (as_store s') i = agents_of (as_store s) i)"

lemma reserved_free: "reserved s p \<Longrightarrow> mget (as_owners s) j = None \<Longrightarrow> owner_id s p \<noteq> j"
  by (auto simp: reserved_def)

lemma frame_reserved: "frame j s s' \<Longrightarrow> reserved s p \<Longrightarrow> owner_id s p \<noteq> j \<Longrightarrow> reserved s' p"
  unfolding frame_def reserved_def by (metis order_less_le_trans)

lemma frame_object:
  "frame j s s' \<Longrightarrow> owners_ok s \<Longrightarrow> mget (as_owners s) i = Some p \<Longrightarrow> i \<noteq> j \<Longrightarrow> as_objects s' ! p = as_objects s ! p"
  unfolding frame_def owners_ok_def by metis

lemma frame_owners_ok:
  assumes f: "frame j s s'" and "owners_ok s" "mapok (as_owners s')"
    and j: "\<And>p. mget (as_owners s') j = Some p \<Longrightarrow> p < length (as_objects s') \<and> owner_id s' p = j \<and>
      ow_state (as_objects s' ! p) \<in> {AgentProvisioning, AgentActive}"
  shows "owners_ok s'"
  unfolding owners_ok_def
proof (intro conjI allI impI)
  fix i p assume p: "mget (as_owners s') i = Some p"
  have *: "p < length (as_objects s') \<and> owner_id s' p = i \<and> ow_state (as_objects s' ! p) \<in> {AgentProvisioning, AgentActive}"
  proof (cases "i = j")
    case False
    then have "mget (as_owners s) i = Some p" using f p by (simp add: frame_def)
    then have o: "p < length (as_objects s)" "owner_id s p = i" "ow_state (as_objects s ! p) \<in> {AgentProvisioning, AgentActive}"
      using assms(2) by (simp_all add: owners_ok_def)
    then show ?thesis using f False by (auto simp: frame_def)
  qed (use j p in auto)
  then show "p < length (as_objects s')" "owner_id s' p = i" "ow_state (as_objects s' ! p) \<in> {AgentProvisioning, AgentActive}"
    by simp_all
qed (rule assms(3))

text \<open>A clean-up by the installed owner: the agent's owner and record are gone, nothing else changes.\<close>

lemma removeOwned_effect:
  assumes inv: "mon_inv (as_monitor s)" and m: "mapok (as_owners s)" and r: "owner_id s p = a_ID r"
    and s': "s' = fst (removeOwned p r stop s)"
  shows "mon_inv (as_monitor s')" "frame (a_ID r) s s'" "as_owners s' = mdel (as_owners s) (a_ID r)"
    "snd (snd (removeOwned p r stop s)) = None"
    "(\<And>c. agents_of (as_store s) (a_ID r) = Some c \<Longrightarrow> sameRecordIdentity c r) \<Longrightarrow> agents_of (as_store s') (a_ID r) = None"
proof -
  have ok: "store_ok (as_store s)" using inv by (simp add: mon_inv_def)
  have o: "q < length (as_objects s) \<Longrightarrow> owner_id s q \<noteq> a_ID r \<Longrightarrow> (as_objects s)[p := x] ! q = as_objects s ! q" for q x
    using r by (cases "q = p") auto
  show "mon_inv (as_monitor s')" "as_owners s' = mdel (as_owners s) (a_ID r)" "snd (snd (removeOwned p r stop s)) = None"
    unfolding s' removeOwned_cases using inv mon_inv_stopped [OF inv] by (simp_all split: option.split)
  show "frame (a_ID r) s s'"
    unfolding s' removeOwned_cases frame_def using m ok o by (simp split: option.split)
  show "agents_of (as_store s') (a_ID r) = None" if "\<And>c. agents_of (as_store s) (a_ID r) = Some c \<Longrightarrow> sameRecordIdentity c r"
    unfolding s' removeOwned_cases using that ok by (simp split: option.split)
qed

lemma owners_ok_removed:
  "owners_ok s \<Longrightarrow> frame j s s' \<Longrightarrow> as_owners s' = mdel (as_owners s) j \<Longrightarrow> owners_ok s'"
  by (rule frame_owners_ok) (auto simp: owners_ok_def)

text \<open>The effect of a critical section on the reservations of others.\<close>

definition calm :: "AgentService \<Rightarrow> AgentService \<Rightarrow> bool" where
  "calm s s' \<longleftrightarrow> mon_inv (as_monitor s') \<and> owners_ok s' \<and> (\<forall>p. reserved s p \<longrightarrow> reserved s' p) \<and>
     (\<forall>i p. mget (as_owners s') i = Some p \<longrightarrow> ow_state (as_objects s' ! p) = AgentProvisioning \<longrightarrow>
        mget (as_owners s) i = Some p \<and> ow_state (as_objects s ! p) = AgentProvisioning)"

lemma calm_sweep: "mon_inv (as_monitor s) \<Longrightarrow> owners_ok s \<Longrightarrow> calm s (sweepInactiveOwnersLocked c s)"
  by (auto simp: calm_def owners_ok_sweep reserved_sweep sweep_owner)

lemma calm_monitor:
  assumes "mon_inv (as_monitor s)" "owners_ok s" and "mon_inv m" "keeps_agents (agents_of (as_store s)) (agents_of (mo_store m))"
  shows "calm s (s\<lparr>as_monitor := m\<rparr>)"
proof -
  have keep: "sameRecordIdentity r (ow_record (as_objects s ! p))"
    if rs: "reserved s p" and r: "agents_of (mo_store m) (owner_id s p) = Some r" for p r
  proof -
    obtain r0 where r0: "agents_of (as_store s) (owner_id s p) = Some r0" "sameRecordIdentity r0 r"
      using r assms(4) unfolding keeps_agents_def by blast
    then have "sameRecordIdentity r0 (ow_record (as_objects s ! p))" using rs by (simp add: reserved_def)
    then show ?thesis using sameRecordIdentity_trans [OF sameRecordIdentity_sym] r0(2) by blast
  qed
  have "reserved (s\<lparr>as_monitor := m\<rparr>) p" if "reserved s p" for p using that keep [OF that] by (simp add: reserved_def)
  moreover have "owners_ok (s\<lparr>as_monitor := m\<rparr>)" using assms(2) by (simp add: owners_ok_def)
  ultimately show ?thesis using assms(3) by (simp add: calm_def)
qed

definition removed :: "ID \<Rightarrow> AgentService \<Rightarrow> AgentService \<Rightarrow> bool" where
  "removed j s s' \<longleftrightarrow> mon_inv (as_monitor s') \<and> frame j s s' \<and> mapok (as_owners s') \<and> mget (as_owners s') j = None \<and>
     (\<forall>p. mget (as_owners s) j = Some p \<longrightarrow> ow_state (as_objects s ! p) \<noteq> AgentProvisioning)"

lemma removed_owners_ok: "owners_ok s \<Longrightarrow> removed j s s' \<Longrightarrow> owners_ok s'"
  unfolding removed_def by (elim conjE) (rule frame_owners_ok [of j s], simp_all)

lemma removed_calm:
  assumes ok: "owners_ok s" and r: "removed j s s'"
  shows "calm s s'"
proof -
  have f: "frame j s s'" and j: "mget (as_owners s') j = None" using r by (simp_all add: removed_def)
  have "reserved s' p" if "reserved s p" for p
    by (rule frame_reserved [OF f that]) (use that r in \<open>auto simp: reserved_def removed_def\<close>)
  moreover have "mget (as_owners s) i = Some p \<and> ow_state (as_objects s ! p) = AgentProvisioning"
    if o: "mget (as_owners s') i = Some p" "ow_state (as_objects s' ! p) = AgentProvisioning" for i p
  proof -
    have "i \<noteq> j" using o(1) j by auto
    then have o': "mget (as_owners s) i = Some p" using f o(1) by (simp add: frame_def)
    then show ?thesis using frame_object [OF f ok o' \<open>i \<noteq> j\<close>] o(2) by simp
  qed
  ultimately show ?thesis using removed_owners_ok [OF assms] r by (simp add: calm_def removed_def)
qed

lemma calm_refl: "mon_inv (as_monitor s) \<Longrightarrow> owners_ok s \<Longrightarrow> calm s s"
  by (simp add: calm_def)

text \<open>The part of \<open>cleanupOrphan\<close> after its checks, on the present owner or a new one.\<close>

definition orphanGone :: "Record \<Rightarrow> AgentService \<Rightarrow> AgentService" where
  "orphanGone r s =
     (case mget (as_owners s) (a_ID r) of
        Some p \<Rightarrow> fst (removeOwned p r True s)
      | None \<Rightarrow> fst (removeOwned (length (as_objects s)) r True (s\<lparr>as_nextOwner := as_nextOwner s + 1,
          as_objects := as_objects s @ [\<lparr>ow_token = as_nextOwner s + 1, ow_record = r, ow_state = AgentCleaning\<rparr>],
          as_owners := mput (as_owners s) (a_ID r) (length (as_objects s))\<rparr>)))"

abbreviation starting :: "AgentService \<Rightarrow> ID \<Rightarrow> bool" where
  "starting s i \<equiv> \<exists>p. mget (as_owners s) i = Some p \<and> ow_state (as_objects s ! p) = AgentProvisioning"

lemma orphanGone_removed:
  assumes inv: "mon_inv (as_monitor s)" and ok: "owners_ok s" and ns: "\<not> starting s (a_ID r)"
  shows "removed (a_ID r) s (orphanGone r s)"
    "(\<And>c. agents_of (as_store s) (a_ID r) = Some c \<Longrightarrow> sameRecordIdentity c r) \<Longrightarrow>
       agents_of (as_store (orphanGone r s)) (a_ID r) = None"
proof -
  have m: "mapok (as_owners s)" using ok by (simp add: owners_ok_def)
  have "removed (a_ID r) s (orphanGone r s) \<and> ((\<forall>c. agents_of (as_store s) (a_ID r) = Some c \<longrightarrow> sameRecordIdentity c r) \<longrightarrow>
       agents_of (as_store (orphanGone r s)) (a_ID r) = None)"
  proof (cases "mget (as_owners s) (a_ID r)")
    case (Some p)
    then have p: "owner_id s p = a_ID r" using ok by (simp add: owners_ok_def)
    note e = removeOwned_effect [OF inv m p HOL.refl, of True]
    show ?thesis using e m Some ns by (simp add: orphanGone_def removed_def)
  next
    case None
    define s1 where "s1 = s\<lparr>as_nextOwner := as_nextOwner s + 1,
       as_objects := as_objects s @ [\<lparr>ow_token = as_nextOwner s + 1, ow_record = r, ow_state = AgentCleaning\<rparr>],
       as_owners := mput (as_owners s) (a_ID r) (length (as_objects s))\<rparr>"
    have 1: "mon_inv (as_monitor s1)" "mapok (as_owners s1)" "owner_id s1 (length (as_objects s)) = a_ID r"
      using inv m by (simp_all add: s1_def)
    note e = removeOwned_effect [OF 1 HOL.refl, of True]
    have o: "orphanGone r s = fst (removeOwned (length (as_objects s)) r True s1)" using None by (simp add: orphanGone_def s1_def)
    have "frame (a_ID r) s s1" by (simp add: frame_def s1_def nth_append)
    then have f: "frame (a_ID r) s (orphanGone r s)" using e(2) unfolding o [symmetric] by (auto simp: frame_def s1_def nth_append)
    have "agents_of (as_store s1) = agents_of (as_store s)" by (simp add: s1_def)
    then show ?thesis using e f m None unfolding o [symmetric] by (simp add: removed_def s1_def)
  qed
  then show "removed (a_ID r) s (orphanGone r s)" "(\<And>c. agents_of (as_store s) (a_ID r) = Some c \<Longrightarrow> sameRecordIdentity c r) \<Longrightarrow>
       agents_of (as_store (orphanGone r s)) (a_ID r) = None" by blast+
qed

lemma removeOwned_None: "snd (snd (removeOwned p r stop s)) = None"
  by (simp add: removeOwned_cases split: option.split)

lemma cleanupOrphan_cases:
  "owners_ok s \<Longrightarrow> cleanupOrphan sn s =
     (if \<not> ownerMatchesSnapshot sn s \<or> sn_owned sn \<and> sn_lifecycle sn \<in> {AgentProvisioning, AgentCleanupUncertain} \<or>
         starting s (a_ID (sn_record sn)) then (s, None)
      else (orphanGone (sn_record sn) s, None))"
  using removeOwned_None
  by (fastforce simp: cleanupOrphan_def orphanGone_def Let_def owners_ok_def prod_eq_iff split: option.split prod.split)

lemma calm_orphan:
  assumes inv: "mon_inv (as_monitor s)" and ok: "owners_ok s"
  shows "calm s (fst (cleanupOrphan sn s))"
  using calm_refl [OF assms] removed_calm [OF ok orphanGone_removed(1) [OF assms]] by (simp add: cleanupOrphan_cases [OF ok])

text \<open>A registration reserves the identifier, or changes nothing but the sweep.\<close>

lemma provision_ok:
  assumes inv: "mon_inv (as_monitor s)" and ok: "owners_ok s" and free: "mget (as_owners s) (a_ID r) = None"
  shows "case provision r s of
      (s', Inl _) \<Rightarrow> calm s s'
    | (s', Inr (c, p)) \<Rightarrow> c = r \<and> p = length (as_objects s) \<and> mon_inv (as_monitor s') \<and> owners_ok s' \<and> frame (a_ID r) s s' \<and>
        reserved s' p \<and> owner_id s' p = a_ID r"
proof -
  let ?p = "length (as_objects s)"
  have m: "mapok (as_owners s)" using ok by (simp add: owners_ok_def)
  have st: "store_ok (as_store s)" using inv by (simp add: mon_inv_def)
  have mi: "mon_inv ((as_monitor s)\<lparr>mo_store := fst (CreateAgent r (as_store s))\<rparr>)"
    using mon_inv_step [OF inv, of undefined undefined "EvStore 0 (OpCreateAgent r)"] by simp
  show ?thesis
  proof (cases "snd (CreateAgent r (as_store s))")
    case (Inl e)
    then have same: "fst (CreateAgent r (as_store s)) = as_store s" by (auto simp: CreateAgent_def split: option.splits if_splits)
    define s' where "s' = fst (provision r s)"
    have p: "provision r s = (s', Inl e)" using Inl by (auto simp: s'_def provision_def Let_def split: prod.splits)
    have own: "mget (as_owners s') i = mget (as_owners s) i" for i
      using m free Inl by (auto simp: s'_def provision_def Let_def split: prod.splits)
    have mo: "mapok (as_owners s')" "as_store s' = as_store s" "mon_inv (as_monitor s')"
      "as_objects s' = as_objects s @ [\<lparr>ow_token = as_nextOwner s + 1, ow_record = r, ow_state = AgentProvisioning\<rparr>]"
      using m Inl same inv by (auto simp: s'_def provision_def setStore_def Let_def split: prod.splits)
    have f: "frame (a_ID r) s s'" using own mo by (simp add: frame_def nth_append)
    have "owners_ok s'" by (rule frame_owners_ok [OF f ok mo(1)]) (use own free in auto)
    moreover have "reserved s' q" if "reserved s q" for q
      by (rule frame_reserved [OF f that reserved_free [OF that free]])
    moreover have "as_objects s' ! q = as_objects s ! q" if "mget (as_owners s) i = Some q" for i q
      using that mo ok by (auto simp: owners_ok_def nth_append)
    ultimately have "calm s s'" using mo(3) own by (auto simp: calm_def)
    then show ?thesis by (simp add: p)
  next
    case (Inr c)
    then have c: "c = r" "agents_of (fst (CreateAgent r (as_store s))) = (agents_of (as_store s))(a_ID r \<mapsto> r)"
      by (auto simp: CreateAgent_def split: option.splits if_splits)
    define s' where "s' = fst (provision r s)"
    have p: "provision r s = (s', Inr (r, ?p))" using Inr c by (auto simp: s'_def provision_def Let_def split: prod.splits)
    have s': "as_owners s' = mput (as_owners s) (a_ID r) ?p" "as_store s' = fst (CreateAgent r (as_store s))"
      "as_objects s' = as_objects s @ [\<lparr>ow_token = as_nextOwner s + 1, ow_record = r, ow_state = AgentProvisioning\<rparr>]"
      "mon_inv (as_monitor s')"
      using Inr c mi by (auto simp: s'_def provision_def setStore_def Let_def split: prod.splits)
    have f: "frame (a_ID r) s s'" using s' c by (simp add: frame_def nth_append)
    have "owners_ok s'" by (rule frame_owners_ok [OF f ok]) (use s' m in auto)
    then show ?thesis using f s' c by (simp add: p reserved_def)
  qed
qed

lemma calm_trans: "calm s s1 \<Longrightarrow> calm s1 s2 \<Longrightarrow> calm s s2"
  unfolding calm_def by blast

definition begun :: "AgentService \<Rightarrow> AgentService \<Rightarrow> nat \<Rightarrow> bool" where
  "begun s s' p \<longleftrightarrow> mon_inv (as_monitor s') \<and> owners_ok s' \<and> reserved s' p \<and> (\<forall>q. reserved s q \<longrightarrow> reserved s' q \<and> q \<noteq> p) \<and>
     (\<forall>i q. mget (as_owners s') i = Some q \<longrightarrow> ow_state (as_objects s' ! q) = AgentProvisioning \<longrightarrow>
        q = p \<or> mget (as_owners s) i = Some q \<and> ow_state (as_objects s ! q) = AgentProvisioning)"

lemma calm_begun: "calm s s1 \<Longrightarrow> begun s1 s' p \<Longrightarrow> begun s s' p"
  unfolding calm_def begun_def by blast

definition register_result :: "Record \<Rightarrow> AgentService \<Rightarrow> AgentService \<times> (agent_error + Record \<times> nat) \<Rightarrow> bool" where
  "register_result r s out =
     (case out of (s', Inl _) \<Rightarrow> calm s s' | (s', Inr (c, p)) \<Rightarrow> c = r \<and> begun s s' p \<and> owner_id s' p = a_ID r)"

lemma provision_result:
  assumes inv: "mon_inv (as_monitor s)" and ok: "owners_ok s" and free: "mget (as_owners s) (a_ID r) = None"
  shows "register_result r s (provision r s)"
proof (cases "provision r s")
  case (Pair s' res)
  show ?thesis
  proof (cases res)
    case (Inl e)
    then show ?thesis using provision_ok [OF assms] Pair by (simp add: register_result_def)
  next
    case (Inr cp)
    obtain c p where cp: "cp = (c, p)" by fastforce
    have "c = r \<and> p = length (as_objects s) \<and> mon_inv (as_monitor s') \<and> owners_ok s' \<and> frame (a_ID r) s s' \<and>
      reserved s' p \<and> owner_id s' p = a_ID r" using provision_ok [OF assms] unfolding Pair Inr cp prod.case sum.case .
    then have p: "c = r" "p = length (as_objects s)" "mon_inv (as_monitor s')" "owners_ok s'" "frame (a_ID r) s s'"
      "reserved s' p" "owner_id s' p = a_ID r" by blast+
    have q: "reserved s' q \<and> q \<noteq> p" if "reserved s q" for q
      using frame_reserved [OF p(5) that reserved_free [OF that free]] that p(2) by (simp add: reserved_def)
    have "q = p \<or> mget (as_owners s) i = Some q \<and> ow_state (as_objects s ! q) = AgentProvisioning"
      if a: "mget (as_owners s') i = Some q" "ow_state (as_objects s' ! q) = AgentProvisioning" for i q
    proof (cases "i = a_ID r")
      case True
      then show ?thesis using a(1) p(6,7) by (simp add: reserved_def)
    next
      case False
      then have o: "mget (as_owners s) i = Some q" using p(5) a(1) by (simp add: frame_def)
      then show ?thesis using frame_object [OF p(5) ok o False] a(2) by simp
    qed
    then show ?thesis using p q Pair Inr cp by (simp add: register_result_def begun_def)
  qed
qed

lemma register_result_calm: "calm s s1 \<Longrightarrow> register_result r s1 out \<Longrightarrow> register_result r s out"
  unfolding register_result_def by (auto split: prod.splits sum.splits intro: calm_trans calm_begun)

lemma registerStart_result:
  assumes inv: "mon_inv (as_monitor s)" and ok: "owners_ok s"
  shows "register_result r s (registerStart r s)"
proof -
  define s1 where "s1 = sweepInactiveOwnersLocked None s"
  have c1: "calm s s1" unfolding s1_def by (rule calm_sweep [OF assms])
  then have 1: "mon_inv (as_monitor s1)" "owners_ok s1" by (simp_all add: calm_def)
  have stay: "register_result r s (s1, Inl e)" for e using c1 by (simp add: register_result_def)
  show ?thesis
  proof (cases "mget (as_owners s1) (a_ID r)")
    case None
    then show ?thesis using register_result_calm [OF c1 provision_result [OF 1 None]]
      by (simp add: registerStart_def s1_def Let_def)
  next
    case (Some q)
    let ?s2 = "dropOwner (a_ID r) s1"
    show ?thesis
    proof (cases "ow_state (as_objects s1 ! q) = AgentProvisioning")
      case False
      have m: "mapok (as_owners s1)" using 1(2) by (simp add: owners_ok_def)
      have c2: "calm s1 ?s2"
        by (rule removed_calm [OF 1(2), where j = "a_ID r"]) (use Some False 1(1) m in \<open>auto simp: removed_def frame_def\<close>)
      then have 2: "mon_inv (as_monitor ?s2)" "owners_ok ?s2" by (simp_all add: calm_def)
      have "mget (as_owners ?s2) (a_ID r) = None" using m by simp
      then show ?thesis using stay register_result_calm [OF calm_trans [OF c1 c2] provision_result [OF 2]] Some
        by (simp add: registerStart_def s1_def [symmetric] Let_def split: sum.split)
    qed (use stay Some in \<open>simp add: registerStart_def s1_def [symmetric] Let_def\<close>)
  qed
qed

section \<open>The invariant holds in every run\<close>

lemma sys_invD:
  assumes "sys_inv y"
  shows "mon_inv (as_monitor (sy_service y))" "owners_ok (sy_service y)" "mapok (sy_starts y)"
    "mget (sy_starts y) t = Some ph \<Longrightarrow> reserved (sy_service y) (phase_owner ph)"
    "mget (sy_starts y) t = Some ph \<Longrightarrow> mget (sy_starts y) t' = Some ph' \<Longrightarrow> phase_owner ph = phase_owner ph' \<Longrightarrow> t = t'"
    "mget (as_owners (sy_service y)) i = Some p \<Longrightarrow> ow_state (as_objects (sy_service y) ! p) = AgentProvisioning \<Longrightarrow>
       \<exists>t ph. mget (sy_starts y) t = Some ph \<and> phase_owner ph = p"
  using assms unfolding sys_inv_def by blast+

lemma sys_invI:
  assumes "mon_inv (as_monitor (sy_service y))" "owners_ok (sy_service y)" "mapok (sy_starts y)"
    "\<And>t ph. mget (sy_starts y) t = Some ph \<Longrightarrow> reserved (sy_service y) (phase_owner ph)"
    "\<And>t t' ph ph'. mget (sy_starts y) t = Some ph \<Longrightarrow> mget (sy_starts y) t' = Some ph' \<Longrightarrow>
       phase_owner ph = phase_owner ph' \<Longrightarrow> t = t'"
    "\<And>i p. mget (as_owners (sy_service y)) i = Some p \<Longrightarrow> ow_state (as_objects (sy_service y) ! p) = AgentProvisioning \<Longrightarrow>
       \<exists>t ph. mget (sy_starts y) t = Some ph \<and> phase_owner ph = p"
  shows "sys_inv y"
  using assms unfolding sys_inv_def by blast

lemma sy_simps [simp]:
  "sy_service (setPhase t ph y) = sy_service y" "sy_starts (setPhase t ph y) = mput (sy_starts y) t ph"
  "sy_service (endThread t y) = sy_service y" "sy_starts (endThread t y) = mdel (sy_starts y) t"
  "sy_service (onService f y) = f (sy_service y)" "sy_starts (onService f y) = sy_starts y"
  by (simp_all add: setPhase_def endThread_def onService_def)

lemma sy_upd: "sy_service (y\<lparr>sy_service := s\<rparr>) = s" "sy_starts (y\<lparr>sy_service := s\<rparr>) = sy_starts y"
  by simp_all

lemma sys_inv_calm: "sys_inv y \<Longrightarrow> calm (sy_service y) s' \<Longrightarrow> sys_inv (y\<lparr>sy_service := s'\<rparr>)"
  unfolding sys_inv_def calm_def by (simp) blast

lemma sys_inv_onService: "sys_inv y \<Longrightarrow> calm (sy_service y) (f (sy_service y)) \<Longrightarrow> sys_inv (onService f y)"
  unfolding onService_def by (rule sys_inv_calm)

lemma sys_inv_phase:
  assumes inv: "sys_inv y" and t: "mget (sy_starts y) t = Some ph" and "phase_owner ph' = phase_owner ph"
  shows "sys_inv (setPhase t ph' y)"
proof -
  note d = sys_invD [OF inv]
  have "\<exists>u x. mget (mput (sy_starts y) t ph') u = Some x \<and> phase_owner x = p"
    if o: "mget (as_owners (sy_service y)) i = Some p" "ow_state (as_objects (sy_service y) ! p) = AgentProvisioning" for i p
  proof -
    obtain u x where "mget (sy_starts y) u = Some x" "phase_owner x = p" using d(6) [OF o] by blast
    then show ?thesis using t assms(3) by (cases "u = t") (auto intro: exI [of _ u])
  qed
  then show ?thesis using d(1-5) t assms(3) unfolding sys_inv_def setPhase_def by (auto split: if_splits)
qed

lemma sys_inv_begun:
  assumes inv: "sys_inv y" and t: "mget (sy_starts y) t = None" and b: "begun (sy_service y) s' p" and "phase_owner ph = p"
  shows "sys_inv (setPhase t ph (y\<lparr>sy_service := s'\<rparr>))"
proof -
  note d = sys_invD [OF inv]
  have fresh: "phase_owner x \<noteq> p \<and> reserved s' (phase_owner x)" if "mget (sy_starts y) u = Some x" for u x
    using d(4) [OF that] b by (auto simp: begun_def)
  have "\<exists>u x. mget (mput (sy_starts y) t ph) u = Some x \<and> phase_owner x = q"
    if o: "mget (as_owners s') i = Some q" "ow_state (as_objects s' ! q) = AgentProvisioning" for i q
  proof (cases "q = p")
    case False
    then have "mget (as_owners (sy_service y)) i = Some q \<and> ow_state (as_objects (sy_service y) ! q) = AgentProvisioning"
      using b o by (auto simp: begun_def)
    then obtain u x where "mget (sy_starts y) u = Some x" "phase_owner x = q" using d(6) by blast
    then show ?thesis using t by (cases "u = t") (auto intro: exI [of _ u])
  qed (use assms(4) in \<open>auto intro: exI [of _ t]\<close>)
  moreover have "u = u'" if "mget (mput (sy_starts y) t ph) u = Some x" "mget (mput (sy_starts y) t ph) u' = Some x'"
      "phase_owner x = phase_owner x'" for u u' x x'
  proof -
    have "u = t \<and> x = ph \<or> u \<noteq> t \<and> mget (sy_starts y) u = Some x" "u' = t \<and> x' = ph \<or> u' \<noteq> t \<and> mget (sy_starts y) u' = Some x'"
      using that(1,2) by (simp_all split: if_splits)
    then show ?thesis using that(3) assms(4) fresh d(5) by metis
  qed
  moreover have "mon_inv (as_monitor s')" "owners_ok s'" "reserved s' p" using b by (simp_all add: begun_def)
  moreover have "reserved s' (phase_owner x)" if "mget (mput (sy_starts y) t ph) u = Some x" for u x
    using that assms(4) fresh [of u x] b by (auto simp: begun_def split: if_splits)
  moreover have "mapok (mput (sy_starts y) t ph)" using d(3) by simp
  ultimately show ?thesis by (intro sys_invI) (simp_all only: sy_simps sy_upd)
qed

text \<open>A thread ends when its agent's owner is not provisioning any more.\<close>

lemma sys_inv_ended:
  assumes inv: "sys_inv y" and t: "mget (sy_starts y) t = Some ph" and i: "i = owner_id (sy_service y) (phase_owner ph)"
    and f: "frame i (sy_service y) s'" and "mon_inv (as_monitor s')" and ok': "owners_ok s'"
    and np: "\<And>p. mget (as_owners s') i = Some p \<Longrightarrow> ow_state (as_objects s' ! p) \<noteq> AgentProvisioning"
  shows "sys_inv (endThread t (y\<lparr>sy_service := s'\<rparr>))"
proof -
  note d = sys_invD [OF inv]
  have own: "mget (as_owners (sy_service y)) i = Some (phase_owner ph)" using d(4) [OF t] i by (simp add: reserved_def)
  have other: "reserved s' (phase_owner x)" if u: "mget (sy_starts y) u = Some x" and "u \<noteq> t" for u x
  proof -
    have "phase_owner x \<noteq> phase_owner ph" using d(5) [OF u t] \<open>u \<noteq> t\<close> by blast
    then have "owner_id (sy_service y) (phase_owner x) \<noteq> i" using own d(4) [OF u] by (auto simp: reserved_def)
    then show ?thesis using frame_reserved [OF f d(4) [OF u]] by blast
  qed
  have "\<exists>u x. mget (mdel (sy_starts y) t) u = Some x \<and> phase_owner x = q"
    if o: "mget (as_owners s') j = Some q" "ow_state (as_objects s' ! q) = AgentProvisioning" for j q
  proof -
    have "j \<noteq> i" using np o by blast
    then have o': "mget (as_owners (sy_service y)) j = Some q" using f o(1) by (simp add: frame_def)
    then have "ow_state (as_objects (sy_service y) ! q) = AgentProvisioning" using frame_object [OF f d(2) o' \<open>j \<noteq> i\<close>] o(2) by simp
    then obtain u x where "mget (sy_starts y) u = Some x" "phase_owner x = q" using d(6) [OF o'] by blast
    moreover have "q \<noteq> phase_owner ph" using o' d(2) i \<open>j \<noteq> i\<close> by (auto simp: owners_ok_def)
    ultimately show ?thesis using t d(3) by (cases "u = t") (auto intro: exI [of _ u])
  qed
  then show ?thesis using d(3,5) other assms(5) ok' unfolding sys_inv_def endThread_def by (auto split: if_splits)
qed

lemma reads_owner: "phase_owner (monitorReads opts p r m) = p"
  by (simp add: monitorReads_def split: option.split sum.split)

lemma marked_ended:
  assumes inv: "sys_inv y" and t: "mget (sy_starts y) t = Some (Provisioned p)"
  shows "sys_inv (endThread t (onService (markOwnerState p AgentActive) y))"
proof -
  note d = sys_invD [OF inv]
  let ?s = "sy_service y"
  let ?s' = "setOwnerState p AgentActive ?s"
  have r: "reserved ?s p" using d(4) [OF t] by simp
  have "(as_objects ?s)[p := x] ! q = as_objects ?s ! q" if "owner_id ?s q \<noteq> owner_id ?s p" for q x
    using that by (cases "q = p") auto
  then have f: "frame (owner_id ?s p) ?s ?s'" by (simp add: frame_def)
  have p: "p < length (as_objects ?s)" "mget (as_owners ?s) (owner_id ?s p) = Some p" using r by (simp_all add: reserved_def)
  have "mapok (as_owners ?s)" using d(2) by (simp add: owners_ok_def)
  then have ok: "owners_ok ?s'" by (intro frame_owners_ok [OF f d(2)]) (use p in auto)
  have "sys_inv (endThread t (y\<lparr>sy_service := ?s'\<rparr>))"
    by (rule sys_inv_ended [OF inv t HOL.refl]) (use f ok d(1) p in simp_all)
  then show ?thesis using r by (simp add: onService_def markOwnerState_def reserved_def)
qed

text \<open>A roll-back takes the agent and its owner away.\<close>

lemma rolled_back:
  assumes inv: "sys_inv y" and t: "mget (sy_starts y) t = Some (Failing p stop)"
    and s': "s' = fst (cleanupOwnedRecord p stop (sy_service y))" and i: "i = owner_id (sy_service y) p"
  shows "frame i (sy_service y) s'" "agents_of (as_store s') i = None" "mget (as_owners s') i = None" "mon_inv (as_monitor s')"
    "owners_ok s'" "snd (snd (cleanupOwnedRecord p stop (sy_service y))) = None"
proof -
  note d = sys_invD [OF inv]
  let ?s = "sy_service y"
  have r: "reserved ?s p" using d(4) [OF t] by simp
  have m: "mapok (as_owners ?s)" using d(2) by (simp add: owners_ok_def)
  have c: "cleanupOwnedRecord p stop ?s = removeOwned p (ow_record (as_objects ?s ! p)) stop ?s"
    using r by (simp add: cleanupOwnedRecord_def reserved_def)
  note e = removeOwned_effect [OF d(1) m HOL.refl s' [unfolded c]]
  show "frame i ?s s'" "mon_inv (as_monitor s')" using e(1,2) i by simp_all
  show "agents_of (as_store s') i = None" unfolding i by (rule e(5)) (use r in \<open>simp add: reserved_def\<close>)
  show "mget (as_owners s') i = None" using e(3) i m by simp
  show "owners_ok s'" by (rule owners_ok_removed [OF d(2) e(2,3)])
  show "snd (snd (cleanupOwnedRecord p stop ?s)) = None" unfolding c by (rule e(4))
qed

lemma sys_inv_step:
  assumes inv: "sys_inv y"
  shows "sys_inv (svc_exec opts clk ev y)"
proof -
  note d = sys_invD [OF inv]
  show ?thesis
  proof (cases ev)
    case (SvStart t r)
    show ?thesis
    proof (cases "mget (sy_starts y) t")
      case None
      obtain s' res where reg: "registerStart r (sy_service y) = (s', res)" by fastforce
      note rr = registerStart_result [OF d(1,2), of r, unfolded reg]
      show ?thesis
      proof (cases res)
        case (Inl e)
        then show ?thesis using rr sys_inv_calm [OF inv] SvStart None reg by (simp add: register_result_def)
      next
        case (Inr cp)
        obtain c p where cp: "cp = (c, p)" by fastforce
        then have "begun (sy_service y) s' p" using rr Inr by (simp add: register_result_def)
        from sys_inv_begun [OF inv None this, of "Registered p c"] show ?thesis using SvStart None reg Inr cp by simp
      qed
    qed (use SvStart inv in simp)
  next
    case (SvMonitorRead t)
    then show ?thesis using inv sys_inv_phase [OF inv] by (auto simp: reads_owner split: option.split start_phase.split)
  next
    case (SvMonitorLock t)
    have "calm (sy_service y) (sy_service y\<lparr>as_monitor := startLocked r (as_monitor (sy_service y))\<rparr>)" for r
      using calm_monitor [OF d(1,2) mon_inv_step [OF d(1)] keeps_agents_monitor [OF d(1)], of "EvStart r"] by simp
    then have "sys_inv (onService (\<lambda>s. s\<lparr>as_monitor := startLocked r (as_monitor s)\<rparr>) y)" for r
      using sys_inv_onService [OF inv] by simp
    then show ?thesis using SvMonitorLock inv sys_inv_phase
      by (auto simp: onService_def split: option.split start_phase.split)
  next
    case (SvPane t ok)
    then show ?thesis using inv sys_inv_phase [OF inv] marked_ended [OF inv] by (auto split: option.split start_phase.split)
  next
    case (SvRollback t)
    have "sys_inv (endThread t (onService (fst \<circ> cleanupOwnedRecord p stop) y))" if tp: "mget (sy_starts y) t = Some (Failing p stop)" for p stop
    proof -
      note b = rolled_back [OF inv tp HOL.refl HOL.refl]
      show ?thesis unfolding onService_def comp_def
        by (rule sys_inv_ended [OF inv tp HOL.refl]) (use b in \<open>simp_all\<close>)
    qed
    then show ?thesis using SvRollback inv by (auto split: option.split start_phase.split)
  next
    case SvSnapshot
    then show ?thesis using sys_inv_onService [OF inv] calm_sweep [OF d(1,2)] by (simp add: snapshotAgents_def Let_def)
  next
    case (SvOrphan sn)
    then show ?thesis using sys_inv_onService [OF inv] calm_orphan [OF d(1,2)] by simp
  next
    case SvSweep
    then show ?thesis using sys_inv_onService [OF inv] calm_sweep [OF d(1,2)] by simp
  next
    case (SvMonitor mev)
    then show ?thesis using inv sys_inv_onService [OF inv] calm_monitor [OF d(1,2) mon_inv_step [OF d(1)] keeps_agents_monitor [OF d(1)]]
      by simp
  qed
qed

lemma sys_inv_new: "store_ok st \<Longrightarrow> sys_inv (newSystem st)"
  by (simp add: newSystem_def sys_inv_def NewAgentService_def owners_ok_def mon_inv_New)

lemma sys_inv_run: "sys_inv y \<Longrightarrow> sys_inv (svc_run opts evs y)"
  unfolding svc_run_def by (induction evs arbitrary: y) (auto simp: sys_inv_step)

section \<open>Listing\<close>

text \<open>A record as it stands in the store, owned by nobody or by an owner of the same agent.\<close>

definition listable :: "AgentService \<Rightarrow> Record \<Rightarrow> bool" where
  "listable s r \<longleftrightarrow> agents_of (as_store s) (a_ID r) = Some r \<and>
     (\<forall>p. mget (as_owners s) (a_ID r) = Some p \<longrightarrow>
        sameRecordIdentity (ow_record (as_objects s ! p)) r \<and> ow_token (as_objects s ! p) \<noteq> 0)"

lemma listable_matches: "listable s r \<Longrightarrow> ownerMatchesSnapshot (snapshotOf s r) s"
  by (auto simp: listable_def ownerMatchesSnapshot_def snapshotOf_def split: option.split)

lemma listable_current: "listable s r \<Longrightarrow> snapshotIsCurrent (snapshotOf s r) s"
  using listable_matches [of s r]
  by (auto simp: listable_def snapshotIsCurrent_def GetAgent_def snapshotOf_def split: option.split)

lemma snapshotOf_record [simp]: "sn_record (snapshotOf s r) = r"
  by (simp add: snapshotOf_def split: option.split)

lemma snapshotOf_owned:
  "owners_ok s \<Longrightarrow> \<not> starting s (a_ID r) \<Longrightarrow>
     \<not> (sn_owned (snapshotOf s r) \<and> sn_lifecycle (snapshotOf s r) \<in> {AgentProvisioning, AgentCleanupUncertain})"
proof (cases "mget (as_owners s) (a_ID r)")
  case (Some p)
  assume "owners_ok s" "\<not> starting s (a_ID r)"
  then have "ow_state (as_objects s ! p) = AgentActive" using Some by (auto simp: owners_ok_def)
  then show ?thesis using Some by (simp add: snapshotOf_def)
qed (simp add: snapshotOf_def)

lemma listable_orphan:
  assumes "owners_ok s" "listable s r"
  shows "cleanupOrphan (snapshotOf s r) s = (if starting s (a_ID r) then s else orphanGone r s, None)"
  using listable_matches [OF assms(2)] snapshotOf_owned [OF assms(1)] assms(1) by (auto simp: cleanupOrphan_cases)

lemma frame_listable:
  assumes f: "frame j s s'" and ok: "owners_ok s" and "a_ID r \<noteq> j"
  shows "snapshotOf s' r = snapshotOf s r" "listable s r \<Longrightarrow> listable s' r" "starting s' (a_ID r) = starting s (a_ID r)"
proof -
  have o: "mget (as_owners s') (a_ID r) = mget (as_owners s) (a_ID r)" "agents_of (as_store s') (a_ID r) = agents_of (as_store s) (a_ID r)"
    using f assms(3) by (simp_all add: frame_def)
  have p: "as_objects s' ! p = as_objects s ! p" if "mget (as_owners s) (a_ID r) = Some p" for p
    by (rule frame_object [OF f ok that assms(3)])
  show "snapshotOf s' r = snapshotOf s r" using o p by (simp add: snapshotOf_def split: option.split)
  show "listable s r \<Longrightarrow> listable s' r" using o p by (simp add: listable_def)
  show "starting s' (a_ID r) = starting s (a_ID r)" using o p by auto
qed

lemma run_agents: "run_state (agents f) d = (snd (f (dm_service d)), d\<lparr>dm_service := fst (f (dm_service d))\<rparr>)"
  by (simp add: agents_def case_prod_beta Let_def)

abbreviation pane_of :: "PaneView list \<Rightarrow> Record \<Rightarrow> PaneView option" where
  "pane_of panes r \<equiv> find (\<lambda>v. pv_ID v = a_PaneID r) (rev panes)"

definition with_pane :: "PaneView list \<Rightarrow> Record list \<Rightarrow> (Record \<times> PaneView) list" where
  "with_pane panes rs = concat (map (\<lambda>r. case pane_of panes r of None \<Rightarrow> [] | Some v \<Rightarrow> [(r, v)]) rs)"

definition orphans :: "PaneView list \<Rightarrow> AgentService \<Rightarrow> Record list \<Rightarrow> ID set" where
  "orphans panes s rs = a_ID ` {r \<in> set rs. pane_of panes r = None \<and> \<not> starting s (a_ID r)}"

lemma listLoop_exact:
  assumes "mon_inv (as_monitor s)" "owners_ok s" "distinct (map a_ID rs)" "\<And>r. r \<in> set rs \<Longrightarrow> listable s r" "dm_service d = s"
  shows "\<exists>s'. run_state (listLoop panes (map (snapshotOf s) rs) acc) d =
      ((fst acc @ with_pane panes rs, snd acc), d\<lparr>dm_service := s'\<rparr>) \<and>
    (\<forall>i. agents_of (as_store s') i = (if i \<in> orphans panes s rs then None else agents_of (as_store s) i))"
  using assms
proof (induction rs arbitrary: s d acc)
  case Nil
  then show ?case by (intro exI [of _ s]) (auto simp: with_pane_def orphans_def)
next
  case (Cons r rs)
  have rest: "\<And>x. x \<in> set rs \<Longrightarrow> a_ID x \<noteq> a_ID r" using Cons.prems(3) by (simp add: image_iff) metis
  have lr: "listable s r" using Cons.prems(4) by simp
  show ?case
  proof (cases "pane_of panes r")
    case (Some v)
    have "orphans panes s (r # rs) = orphans panes s rs" using Some by (auto simp: orphans_def)
    then show ?thesis
      using Cons.IH [OF Cons.prems(1,2) _ _ Cons.prems(5), of "(fst acc @ [(r, v)], snd acc)"] Cons.prems(3,4)
        Some listable_current [OF lr] Cons.prems(5)
      by (simp add: with_pane_def)
  next
    case None
    define s2 where "s2 = (if starting s (a_ID r) then s else orphanGone r s)"
    have g: "removed (a_ID r) s (orphanGone r s)" if "\<not> starting s (a_ID r)"
      by (rule orphanGone_removed(1) [OF Cons.prems(1,2) that])
    have ok: "mon_inv (as_monitor s2)" "owners_ok s2"
      using g Cons.prems(1) removed_owners_ok [OF Cons.prems(2) g] Cons.prems(2) by (auto simp: removed_def s2_def)
    have f: "frame (a_ID r) s s2" using g by (auto simp: removed_def frame_def s2_def)
    have gone: "agents_of (as_store s2) i = (if i = a_ID r \<and> \<not> starting s (a_ID r) then None else agents_of (as_store s) i)" for i
    proof -
      have "agents_of (as_store (orphanGone r s)) (a_ID r) = None" if "\<not> starting s (a_ID r)"
        by (rule orphanGone_removed(2) [OF Cons.prems(1,2) that]) (use lr in \<open>simp add: listable_def\<close>)
      then show ?thesis using g by (auto simp: removed_def frame_def s2_def)
    qed
    note fr = frame_listable [OF f Cons.prems(2) rest]
    have maps: "map (snapshotOf s) rs = map (snapshotOf s2) rs" using fr(1) by simp
    have or: "orphans panes s2 rs = orphans panes s rs" using fr(3) unfolding orphans_def by blast
    obtain s' where s': "run_state (listLoop panes (map (snapshotOf s2) rs) acc) (d\<lparr>dm_service := s2\<rparr>) =
        ((fst acc @ with_pane panes rs, snd acc), d\<lparr>dm_service := s'\<rparr>)"
      "\<forall>i. agents_of (as_store s') i = (if i \<in> orphans panes s rs then None else agents_of (as_store s2) i)"
      using Cons.IH [OF ok _ _ , of "d\<lparr>dm_service := s2\<rparr>" acc] Cons.prems(3,4) fr(2) or by auto
    have "run_state (listLoop panes (map (snapshotOf s) (r # rs)) acc) d =
        run_state (listLoop panes (map (snapshotOf s2) rs) acc) (d\<lparr>dm_service := s2\<rparr>)"
      unfolding maps [symmetric] using None listable_orphan [OF Cons.prems(2) lr, folded s2_def] Cons.prems(5)
      by (simp add: run_agents)
    moreover have "(i \<in> orphans panes s (r # rs)) = (i = a_ID r \<and> \<not> starting s (a_ID r) \<or> i \<in> orphans panes s rs)" for i
      using None by (auto simp: orphans_def)
    ultimately show ?thesis using s' gone None by (auto simp: with_pane_def)
  qed
qed

lemma ListRecords_sel:
  assumes "store_ok st"
  shows "r \<in> set (ListRecords st) \<longleftrightarrow> agents_of st (a_ID r) = Some r" "distinct (map a_ID (ListRecords st))"
  using ListRecords_by_age [OF assms] store_okD(3) [OF assms] by (auto simp: by_age_def ran_def)

lemma currentByID:
  "distinct (map a_ID rs) \<Longrightarrow> r \<in> set rs \<Longrightarrow> mget (fold (\<lambda>r m. mput m (a_ID r) r) rs m) (a_ID r) = Some r"
proof (induction rs arbitrary: m)
  case (Cons x rs)
  have "mget (fold (\<lambda>r m. mput m (a_ID r) r) rs m) j = mget m j" if "j \<notin> a_ID ` set rs" for j m
    using that by (induction rs arbitrary: m) auto
  then show ?case using Cons by auto
qed simp

lemma starting_sweep:
  assumes "owners_ok s"
  shows "starting (sweepInactiveOwnersLocked c s) i = starting s i"
  using sweep_owner [OF assms, of c i] by (auto simp: keepOwner_def)

lemma snapshot_listable:
  assumes inv: "sys_inv y" and s: "s = fst (snapshotAgents (sy_service y))" and r: "r \<in> set (ListRecords (as_store (sy_service y)))"
    and tok: "\<forall>ow \<in> set (as_objects (sy_service y)). ow_token ow \<noteq> 0"
  shows "listable s r"
proof -
  note d = sys_invD [OF inv]
  let ?s = "sy_service y"
  have st: "store_ok (as_store ?s)" using d(1) by (simp add: mon_inv_def)
  note l = ListRecords_sel [OF st]
  have sw: "s = sweepInactiveOwnersLocked (Some (fold (\<lambda>r m. mput m (a_ID r) r) (ListRecords (as_store ?s)) [])) ?s"
    by (simp add: s snapshotAgents_def Let_def)
  have a: "agents_of (as_store ?s) (a_ID r) = Some r" using l(1) r by blast
  have "sameRecordIdentity (ow_record (as_objects ?s ! p)) r \<and> ow_token (as_objects ?s ! p) \<noteq> 0"
    if o: "mget (as_owners s) (a_ID r) = Some p" for p
  proof -
    have k: "mget (as_owners ?s) (a_ID r) = Some p"
      "keepOwner (Some (fold (\<lambda>r m. mput m (a_ID r) r) (ListRecords (as_store ?s)) [])) (as_store ?s) (a_ID r) (as_objects ?s ! p)"
      using o unfolding sw sweep_owner [OF d(2)] by blast+
    then have p: "p < length (as_objects ?s)" "ow_state (as_objects ?s ! p) \<in> {AgentProvisioning, AgentActive}" "owner_id ?s p = a_ID r"
      using d(2) by (simp_all add: owners_ok_def)
    have "sameRecordIdentity (ow_record (as_objects ?s ! p)) r"
    proof (cases "ow_state (as_objects ?s ! p) = AgentProvisioning")
      case True
      then obtain t ph where "mget (sy_starts y) t = Some ph" "phase_owner ph = p" using d(6) [OF k(1)] by blast
      then have "reserved ?s p" using d(4) by blast
      then show ?thesis using a p(3) by (simp add: reserved_def sameRecordIdentity_sym)
    next
      case False
      then show ?thesis using k(2) p(2) currentByID [OF l(2) r] by (simp add: keepOwner_def)
    qed
    then show ?thesis using tok p(1) by simp
  qed
  then show ?thesis using a by (simp add: listable_def sw)
qed

lemma runtimeCall_quiet: "run_state f (dm_runtime d) = (r, dm_runtime d) \<Longrightarrow> run_state (runtimeCall ao f) d = (r, d)"
  by (simp add: runtimeCall_def Let_def)

lemma run_ListPaneViews:
  "be_other be = return () \<Longrightarrow> run_state (ListPaneViews be) s = (map paneFromRecord (ListPanes (sv_reg s)), s)"
  by (simp add: ListPaneViews_def listPanes_def)

section \<open>Properties\<close>

text \<open>
  C18. A listing is exact. In any state that concurrent requests can reach, a listing that is not
  interrupted returns the agents that have a pane, in order, each with its pane; of the others it
  removes exactly those that are not being started, and every other agent stays.
\<close>

theorem listing_exact:
  assumes "store_ok st" and y: "y = svc_run opts evs (newSystem st)" and s: "dm_service d = sy_service y"
    and quiet: "be_other (ao_backend ao) = return ()"
    and tok: "\<forall>ow \<in> set (as_objects (sy_service y)). ow_token ow \<noteq> 0"
    and panes: "panes = map paneFromRecord (ListPanes (sv_reg (dm_runtime d)))"
    and rs: "rs = ListRecords (as_store (dm_service d))"
  shows "fst (run_state (ListAgents ao) d) = Inr (with_pane panes rs) \<and>
    agents_of (as_store (dm_service (snd (run_state (ListAgents ao) d)))) i =
      (if i \<in> orphans panes (dm_service d) rs then None else agents_of (as_store (dm_service d)) i)"
proof -
  have inv: "sys_inv y" unfolding y by (rule sys_inv_run [OF sys_inv_new [OF assms(1)]])
  note iv = sys_invD [OF inv]
  define s1 where "s1 = fst (snapshotAgents (sy_service y))"
  define d1 where "d1 = d\<lparr>dm_service := s1\<rparr>"
  have c: "calm (sy_service y) s1" unfolding s1_def by (simp add: snapshotAgents_def Let_def calm_sweep iv(1,2))
  have st: "store_ok (as_store (sy_service y))" using iv(1) by (simp add: mon_inv_def)
  have snap: "snapshotAgents (sy_service y) = (s1, map (snapshotOf s1) rs)"
    by (simp add: s1_def snapshotAgents_def Let_def rs s)
  have store: "as_store s1 = as_store (sy_service y)" by (simp add: s1_def snapshotAgents_def Let_def)
  have ok: "mon_inv (as_monitor s1)" "owners_ok s1" using c by (simp_all add: calm_def)
  have "distinct (map a_ID rs)" "\<And>r. r \<in> set rs \<Longrightarrow> listable s1 r"
    using ListRecords_sel(2) [OF st] snapshot_listable [OF inv s1_def _ tok] by (simp_all add: rs s)
  from listLoop_exact [OF ok this, of d1 panes "([], [])"]
  obtain s' where s': "run_state (listLoop panes (map (snapshotOf s1) rs) ([], [])) d1 = ((with_pane panes rs, []), d1\<lparr>dm_service := s'\<rparr>)"
    "\<forall>i. agents_of (as_store s') i = (if i \<in> orphans panes s1 rs then None else agents_of (as_store s1) i)"
    by (auto simp: d1_def)
  have "run_state (runtimeCall ao (ListPaneViews (ao_backend ao))) d1 = (panes, d1)"
    by (rule runtimeCall_quiet) (simp add: run_ListPaneViews [OF quiet] panes d1_def)
  then have run: "run_state (ListAgents ao) d = (Inr (with_pane panes rs), d1\<lparr>dm_service := s'\<rparr>)"
    using s'(1) by (simp add: ListAgents_def run_agents s snap d1_def [symmetric])
  have "orphans panes s1 rs = orphans panes (dm_service d) rs"
    unfolding orphans_def s s1_def snapshotAgents_def Let_def fst_conv starting_sweep [OF iv(2)] ..
  then show ?thesis using run s'(2) store s by simp
qed

text \<open>
  C6. A failed start leaves nothing behind. In any state that concurrent requests can reach, the
  roll-back of a start succeeds and takes away the record and the reservation of its agent, whoever
  else is starting, listing or observing, and touches no other agent.
\<close>

theorem failed_start_leaves_nothing:
  assumes "store_ok st" and y: "y = svc_run opts evs (newSystem st)" and t: "mget (sy_starts y) t = Some (Failing p stop)"
    and i: "i = owner_id (sy_service y) p" and y': "y' = svc_exec opts clk (SvRollback t) y"
  shows "agents_of (as_store (sy_service y')) i = None \<and> mget (as_owners (sy_service y')) i = None \<and>
    mget (sy_starts y') t = None \<and> snd (snd (cleanupOwnedRecord p stop (sy_service y))) = None \<and>
    (j = i \<or> agents_of (as_store (sy_service y')) j = agents_of (as_store (sy_service y)) j \<and>
       mget (as_owners (sy_service y')) j = mget (as_owners (sy_service y)) j)"
proof -
  have inv: "sys_inv y" unfolding y by (rule sys_inv_run [OF sys_inv_new [OF assms(1)]])
  note b = rolled_back [OF inv t HOL.refl i]
  show ?thesis using b sys_invD(3) [OF inv] t by (simp add: y' frame_def) blast
qed

text \<open>
  C17. A starting agent is protected. While a start is under way its identifier is reserved: no
  other start has it, a new one is refused, no listing, clean-up of an orphan or sweep takes its
  record or its reservation away, and the stored record, if the pane was not closed meanwhile, is
  its own. And no reservation outlives its start.
\<close>

theorem starting_agent_reserved:
  assumes "store_ok st" and y: "y = svc_run opts evs (newSystem st)" and t: "mget (sy_starts y) t = Some ph"
    and i: "i = owner_id (sy_service y) (phase_owner ph)"
  shows "mget (as_owners (sy_service y)) i = Some (phase_owner ph) \<and>
    (t' = t \<or> mget (sy_starts y) t' \<noteq> Some ph' \<or> owner_id (sy_service y) (phase_owner ph') \<noteq> i) \<and>
    (a_ID r \<noteq> i \<or> snd (registerStart r (sy_service y)) = Inl (ErrDuplicateID i)) \<and>
    agents_of (as_store (fst (cleanupOrphan sn (sy_service y)))) i = agents_of (as_store (sy_service y)) i \<and>
    mget (as_owners (fst (cleanupOrphan sn (sy_service y)))) i = Some (phase_owner ph) \<and>
    mget (as_owners (sweepInactiveOwnersLocked c (sy_service y))) i = Some (phase_owner ph) \<and>
    (case agents_of (as_store (sy_service y)) i of None \<Rightarrow> True
     | Some a \<Rightarrow> sameRecordIdentity a (ow_record (as_objects (sy_service y) ! phase_owner ph)))"
proof -
  have inv: "sys_inv y" unfolding y by (rule sys_inv_run [OF sys_inv_new [OF assms(1)]])
  note d = sys_invD [OF inv]
  let ?s = "sy_service y" and ?p = "phase_owner ph"
  have res: "reserved ?s ?p" by (rule d(4) [OF t])
  then have p: "mget (as_owners ?s) i = Some ?p" "ow_state (as_objects ?s ! ?p) = AgentProvisioning"
    using i by (simp_all add: reserved_def)
  have sw: "mget (as_owners (sweepInactiveOwnersLocked c ?s)) i = Some ?p" for c
    using p by (simp add: sweep_owner [OF d(2)] keepOwner_def)
  have one: "t' = t \<or> mget (sy_starts y) t' \<noteq> Some ph' \<or> owner_id ?s (phase_owner ph') \<noteq> i"
    using d(4) [of t' ph'] d(5) [OF t, of t' ph'] p(1) by (auto simp: reserved_def)
  have reg: "a_ID r \<noteq> i \<or> snd (registerStart r ?s) = Inl (ErrDuplicateID i)"
    using sw p(2) by (auto simp: registerStart_def Let_def)
  have orphan: "agents_of (as_store (fst (cleanupOrphan sn ?s))) i = agents_of (as_store ?s) i \<and>
      mget (as_owners (fst (cleanupOrphan sn ?s))) i = Some ?p"
  proof (cases "starting ?s (a_ID (sn_record sn))")
    case False
    then have "i \<noteq> a_ID (sn_record sn)" using p by auto
    then show ?thesis using orphanGone_removed(1) [OF d(1,2) False] p(1)
      by (auto simp: cleanupOrphan_cases [OF d(2)] removed_def frame_def)
  qed (use p in \<open>simp add: cleanupOrphan_cases [OF d(2)]\<close>)
  show ?thesis using p(1) one reg orphan sw res i by (simp add: reserved_def split: option.split)
qed

section \<open>After a restart\<close>

lemma run_InspectPane:
  "be_other be = return () \<Longrightarrow> run_state (InspectPane be i) s =
     (case fst (run_state (svcLookupPane be i) s) of Inl e \<Rightarrow> Inl e | Inr p \<Rightarrow> Inr (paneFromRecord p), s)"
  by (simp add: InspectPane_def svcLookupPane_def getPane_def)

text \<open>What a restart makes of a stored agent: gone with its pane, or unknown and monitored afresh.\<close>

definition restored :: "'w AgentOptions \<Rightarrow> 'w Service \<Rightarrow> Record \<Rightarrow> AgentService \<Rightarrow> bool" where
  "restored ao rt r s =
     (case fst (run_state (svcLookupPane (ao_backend ao) (a_PaneID r)) rt) of
        Inl e \<Rightarrow> ErrPaneNotFound \<in> set e \<and> agents_of (as_store s) (a_ID r) = None
      | Inr p \<Rightarrow> p_Role p = ''coding-agent'' \<and> p_AgentID p = a_ID r \<and>
          (\<exists>a. agents_of (as_store s) (a_ID r) = Some a \<and> sameRecordIdentity r a \<and> a_State a = StateUnknown \<and>
             (case LookupProfile (a_Kind r) of
                None \<Rightarrow> True
              | Some profile \<Rightarrow> \<not> pr_TracksState profile \<or>
                  (\<exists>e. mget (mo_monitoring (as_monitor s)) (a_ID r) = Some e \<and> ma_record e = a \<and> ma_paneGeneration e = 0))))"

text \<open>Nothing changes but what concerns the agent \<open>i\<close>.\<close>

definition about :: "ID \<Rightarrow> AgentService \<Rightarrow> AgentService \<Rightarrow> bool" where
  "about i s s' \<longleftrightarrow> (\<forall>j. j \<noteq> i \<longrightarrow> agents_of (as_store s') j = agents_of (as_store s) j \<and>
     mget (mo_monitoring (as_monitor s')) j = mget (mo_monitoring (as_monitor s)) j)"

lemma restored_cong:
  assumes "agents_of (as_store s') (a_ID r) = agents_of (as_store s) (a_ID r)"
    "mget (mo_monitoring (as_monitor s')) (a_ID r) = mget (mo_monitoring (as_monitor s)) (a_ID r)"
  shows "restored ao rt r s' = restored ao rt r s"
  unfolding restored_def assms ..

lemma startMonitor_effect:
  assumes "store_ok (as_store s)" "agents_of (as_store s) (a_ID r) = Some r" "startMonitor opts profile r s = (s', None)"
  shows "as_store s' = as_store s" "about (a_ID r) s s'"
    "pr_TracksState profile \<Longrightarrow> \<exists>e. mget (mo_monitoring (as_monitor s')) (a_ID r) = Some e \<and> ma_record e = r \<and> ma_paneGeneration e = 0"
  using assms(2,3)
  by (auto simp: startMonitor_def onMonitor_def MonitorStart_def GetAgent_def startLocked_def putEntry_def about_def Let_def
      split: if_splits option.splits prod.splits)

lemma restoreOne_effect:
  assumes quiet: "be_other (ao_backend ao) = return ()" and ok: "store_ok (as_store (dm_service d))"
    and r: "agents_of (as_store (dm_service d)) (a_ID r) = Some r" and run: "run_state (restoreOne ao r) d = (None, d')"
  shows "dm_runtime d' = dm_runtime d" "store_ok (as_store (dm_service d'))" "about (a_ID r) (dm_service d) (dm_service d')"
    "restored ao (dm_runtime d) r (dm_service d')"
proof -
  have insp: "run_state (runtimeCall ao (InspectPane (ao_backend ao) (a_PaneID r))) d =
      (case fst (run_state (svcLookupPane (ao_backend ao) (a_PaneID r)) (dm_runtime d)) of Inl e \<Rightarrow> Inl e | Inr p \<Rightarrow> Inr (paneFromRecord p), d)"
    by (rule runtimeCall_quiet) (simp add: run_InspectPane [OF quiet])
  have "dm_runtime d' = dm_runtime d \<and> store_ok (as_store (dm_service d')) \<and> about (a_ID r) (dm_service d) (dm_service d') \<and>
    restored ao (dm_runtime d) r (dm_service d')"
  proof (cases "fst (run_state (svcLookupPane (ao_backend ao) (a_PaneID r)) (dm_runtime d))")
    case (Inl e)
    have del: "store_ok (fst (DeleteAgent (a_ID r) (as_store (dm_service d))))"
      using store_ok_step [OF ok, of 0 "OpDelete (a_ID r)"] by simp
    have nf: "ErrPaneNotFound \<in> set e" using run insp Inl by (auto simp: restoreOne_def split: if_splits)
    then have d': "d' = d\<lparr>dm_service := setStore (fst (DeleteAgent (a_ID r) (as_store (dm_service d)))) (dm_service d)\<rparr>"
      using run insp Inl by (simp add: restoreOne_def run_agents onStore_def case_prod_beta Let_def)
    show ?thesis using Inl nf del ok by (simp add: d' about_def restored_def setStore_def)
  next
    case (Inr p)
    let ?now = "ao_now ao d" and ?s = "dm_service d"
    have own: "p_Role p = ''coding-agent''" "p_AgentID p = a_ID r"
      using run insp Inr by (auto simp: restoreOne_def paneFromRecord_def split: if_splits)
    let ?a = "with_state ?now restartUpdate r"
    obtain st ch where u: "UpdateState ?now (a_ID r) restartUpdate (as_store ?s) = (st, Inr ch)" "sc_Current ch = ?a"
      "agents_of st = (agents_of (as_store ?s))(a_ID r \<mapsto> ?a)" "store_ok st"
      using store_view_step [OF ok, of ?now "OpUpdateState (a_ID r) restartUpdate"] store_ok_step [OF ok, of ?now "OpUpdateState (a_ID r) restartUpdate"] r
      by (cases "UpdateState ?now (a_ID r) restartUpdate (as_store ?s)") (auto simp: restartUpdate_def validState_def)
    let ?s1 = "setStore st ?s"
    have ab: "about (a_ID r) ?s ?s1" using u(3) by (simp add: about_def setStore_def)
    have a1: "agents_of (as_store ?s1) (a_ID ?a) = Some ?a" using u(3) by simp
    have un: "a_State ?a = StateUnknown" "sameRecordIdentity r ?a" "a_ID ?a = a_ID r"
      by (auto simp: with_state_def restartUpdate_def sameRecordIdentity_def)
    show ?thesis
    proof (cases "LookupProfile (a_Kind r)")
      case None
      then have "d' = d\<lparr>dm_service := ?s1\<rparr>"
        using run insp Inr own u by (simp add: restoreOne_def run_agents onStore_def paneFromRecord_def)
      then show ?thesis using ab a1 un u(4) Inr own None by (simp add: restored_def)
    next
      case (Some profile)
      obtain s2 e where s2: "startMonitor (ao_monitor ao) profile ?a ?s1 = (s2, e)" by fastforce
      have "e = None \<and> d' = d\<lparr>dm_service := s2\<rparr>"
        using run insp Inr own u s2 Some by (simp add: restoreOne_def run_agents onStore_def paneFromRecord_def)
      then have e: "startMonitor (ao_monitor ao) profile ?a ?s1 = (s2, None)" and d': "d' = d\<lparr>dm_service := s2\<rparr>" using s2 by simp_all
      have st1: "store_ok (as_store ?s1)" using u(4) by simp
      note m = startMonitor_effect [OF st1 a1 e]
      have "about (a_ID r) ?s s2" using ab m(2) un(3) by (simp add: about_def)
      then show ?thesis using m(1,3) a1 un u(4) Inr own Some d' by (auto simp: restored_def)
    qed
  qed
  then show "dm_runtime d' = dm_runtime d" "store_ok (as_store (dm_service d'))" "about (a_ID r) (dm_service d) (dm_service d')"
    "restored ao (dm_runtime d) r (dm_service d')" by blast+
qed

lemma restoreLoop_effect:
  assumes quiet: "be_other (ao_backend ao) = return ()" and "store_ok (as_store (dm_service d))" "distinct (map a_ID rs)"
    and "\<And>r. r \<in> set rs \<Longrightarrow> agents_of (as_store (dm_service d)) (a_ID r) = Some r" and "run_state (restoreLoop ao rs) d = (None, d')"
  shows "(\<forall>r \<in> set rs. restored ao (dm_runtime d) r (dm_service d')) \<and>
    (\<forall>j. j \<notin> a_ID ` set rs \<longrightarrow> agents_of (as_store (dm_service d')) j = agents_of (as_store (dm_service d)) j \<and>
       mget (mo_monitoring (as_monitor (dm_service d'))) j = mget (mo_monitoring (as_monitor (dm_service d))) j)"
  using assms(2-)
proof (induction rs arbitrary: d)
  case (Cons r rs)
  obtain d1 where d1: "run_state (restoreOne ao r) d = (None, d1)" "run_state (restoreLoop ao rs) d1 = (None, d')"
    using Cons.prems(4) by (auto split: prod.splits option.splits)
  have r: "agents_of (as_store (dm_service d)) (a_ID r) = Some r" using Cons.prems(3) by simp
  note one = restoreOne_effect [OF quiet Cons.prems(1) r d1(1)]
  have rest: "a_ID x \<noteq> a_ID r" if "x \<in> set rs" for x using that Cons.prems(2) by (simp add: image_iff) metis
  have "agents_of (as_store (dm_service d1)) (a_ID x) = Some x" if "x \<in> set rs" for x
    using one(3) rest [OF that] Cons.prems(3) that by (simp add: about_def)
  note ih = Cons.IH [OF one(2) _ this d1(2)]
  have step: "restored ao (dm_runtime d) r (dm_service d')"
  proof -
    have "a_ID r \<notin> a_ID ` set rs" using Cons.prems(2) by simp
    then have "agents_of (as_store (dm_service d')) (a_ID r) = agents_of (as_store (dm_service d1)) (a_ID r)"
      "mget (mo_monitoring (as_monitor (dm_service d'))) (a_ID r) = mget (mo_monitoring (as_monitor (dm_service d1))) (a_ID r)"
      using ih Cons.prems(2) by auto
    then show ?thesis using one(4) restored_cong by blast
  qed
  show ?case using ih step one(1,3) Cons.prems(2) by (auto simp: about_def)
qed simp

text \<open>
  A restart restores monitoring. When restoring succeeds, with nothing else running yet, every
  stored agent whose pane is gone is deleted; every other owns its pane, is unknown again until the
  pane is observed, and if its kind is tracked it has a fresh monitor entry, bound to no pane yet.
  No other agent exists.
\<close>

theorem restart_restores_monitoring:
  assumes "be_other (ao_backend ao) = return ()" and ok: "store_ok (as_store (dm_service d))"
    and run: "run_state (RestoreMonitoring ao) d = (None, d')"
  shows "case agents_of (as_store (dm_service d)) i of
      None \<Rightarrow> agents_of (as_store (dm_service d')) i = None
    | Some r \<Rightarrow> restored ao (dm_runtime d) r (dm_service d')"
proof -
  let ?rs = "ListRecords (as_store (dm_service d))"
  note l = ListRecords_sel [OF ok]
  have run': "run_state (restoreLoop ao ?rs) d = (None, d')" using run by (simp add: RestoreMonitoring_def)
  note e = restoreLoop_effect [OF assms(1) ok l(2) _ run']
  show ?thesis
  proof (cases "agents_of (as_store (dm_service d)) i")
    case None
    then have "i \<notin> a_ID ` set ?rs" using l(1) by auto
    then show ?thesis using e l(1) None by auto
  next
    case (Some r)
    then have "a_ID r = i" using store_okD(3) [OF ok] by blast
    then have "r \<in> set ?rs" using Some l(1) by blast
    then show ?thesis using e l(1) Some by auto
  qed
qed

section \<open>Witnesses\<close>

text \<open>A start that fails at its pane, beside an agent whose pane does not exist.\<close>

definition demo_new :: Record where
  "demo_new = demo_agent\<lparr>a_ID := ''agent-2'', a_PaneID := ''p2''\<rparr>"

definition demo_starts :: "(clock \<times> svc_event) list" where
  "demo_starts = map (\<lambda>ev. (demo_clock, ev)) [SvStart 0 demo_new, SvMonitorRead 0, SvMonitorLock 0, SvPane 0 False]"

definition demo_system :: System where
  "demo_system = svc_run demo_opts demo_starts (newSystem demo_agents)"

definition quiet_backend :: "nat Backend" where
  "quiet_backend = \<lparr>be_now = (\<lambda>_. 0), be_other = return (), be_rounds = (\<lambda>_. 0), be_ctxErr = return None,
     be_ListPanes = (\<lambda>_. return (Inr [])), be_ClosePane = (\<lambda>_ _. return None), be_CloseTab = (\<lambda>_ _. return None),
     be_CreateTab = (\<lambda>_. return (Inr 0)), be_CreatePane = (\<lambda>_. return (Inr [])), be_SendInput = (\<lambda>_ _ _. return None),
     be_DumpScreen = (\<lambda>_ _ _ _. return (Inr [])), be_ActiveSessions = None, be_EnsureSession = None, be_SwitchSession = None,
     be_newPaneID = return [], be_newOwnershipToken = return (Inr []), be_EvalSymlinks = (\<lambda>p. return (Inr p)),
     be_startProcess = (\<lambda>_. return None), be_waitProcess = (\<lambda>_. return None), be_Strip = (\<lambda>t. t), be_Quote = (\<lambda>t. t)\<rparr>"

definition demo_options :: "nat AgentOptions" where
  "demo_options = \<lparr>ao_backend = quiet_backend, ao_monitor = demo_opts, ao_now = (\<lambda>_. 1), ao_clock = (\<lambda>_. demo_clock),
     ao_newAgentID = return ''agent-9'', ao_Abs = Some, ao_IsDir = (\<lambda>_. Some True)\<rparr>"

definition demo_daemon :: "AgentService \<Rightarrow> nat Daemon" where
  "demo_daemon s = \<lparr>dm_service = s, dm_runtime = \<lparr>sv_reg = NewRegistry, sv_subs = None, sv_observer = True, sv_metadata = True,
     sv_creates = [], sv_calls = [], sv_trace = [], sv_obs = [], sv_published = [], sv_world = 0\<rparr>\<rparr>"

lemma demo_new_valid: "validateRecord demo_new = None"
  using demo_agent_valid by (simp add: validateRecord_None demo_new_def demo_agent_def zeroRecord_def)

lemma demo_new_sel [simp]: "a_ID demo_new = ''agent-2''" "a_PaneID demo_new = ''p2''" "a_Kind demo_new = KindCodex"
  by (simp_all add: demo_new_def demo_agent_def zeroRecord_def kind_defs)

text \<open>The registration, computed step by step.\<close>

definition demo_owner0 :: agentOwnership where
  "demo_owner0 = \<lparr>ow_token = 1, ow_record = demo_new, ow_state = AgentProvisioning\<rparr>"

definition demo_store2 :: memoryStore where
  "demo_store2 = fst (CreateAgent demo_new demo_agents)"

lemma demo_create: "CreateAgent demo_new demo_agents = (demo_store2, Inr demo_new)"
  "agents_of demo_store2 ''agent-2'' = Some demo_new"
  by (simp_all add: demo_store2_def CreateAgent_def demo_new_valid demo_agents_def)

lemma demo_register:
  "registerStart demo_new (NewAgentService (NewMonitor demo_agents)) =
     (\<lparr>as_monitor = NewMonitor demo_store2, as_lastFocusedID = [], as_lastSeenIdle = zeroTime, as_nextOwner = 1,
        as_owners = [(''agent-2'', 0)], as_objects = [demo_owner0]\<rparr>, Inr (demo_new, 0))"
  by (simp add: registerStart_def provision_def sweepInactiveOwnersLocked_def NewAgentService_def NewMonitor_def demo_create
      setStore_def demo_owner0_def)

lemma demo_reads: "monitorReads demo_opts 0 demo_new (NewMonitor demo_store2) = MonitorRead 0 demo_new"
  by (simp add: monitorReads_def MonitorStart_def GetAgent_def demo_create NewMonitor_def LookupProfile_def profiles_def demo_opts_def)

lemma demo_system_eq:
  "demo_system = \<lparr>sy_service = \<lparr>as_monitor = startLocked demo_new (NewMonitor demo_store2), as_lastFocusedID = [], as_lastSeenIdle = zeroTime,
     as_nextOwner = 1, as_owners = [(''agent-2'', 0)], as_objects = [demo_owner0]\<rparr>, sy_starts = [(0, Failing 0 True)]\<rparr>"
  by (simp add: demo_system_def svc_run_def demo_starts_def newSystem_def demo_register demo_reads setPhase_def onService_def)

lemma demo_failing: "mget (sy_starts demo_system) 0 = Some (Failing 0 True)"
  by (simp add: demo_system_eq)

lemma demo_owner: "owner_id (sy_service demo_system) 0 = ''agent-2''"
  by (simp add: demo_system_eq demo_owner0_def)

lemma demo_tokens: "map ow_token (as_objects (sy_service demo_system)) = [1]"
  by (simp add: demo_system_eq demo_owner0_def)

lemma demo_stored: "agents_of (as_store (sy_service demo_system)) ''agent-2'' = Some demo_new"
  by (simp add: demo_system_eq startLocked_def putEntry_def NewMonitor_def Let_def demo_create)

theorem failed_start_leaves_nothing_witness:
  "agents_of (as_store (sy_service demo_system)) ''agent-2'' \<noteq> None \<and>
   agents_of (as_store (sy_service (svc_exec demo_opts demo_clock (SvRollback 0) demo_system))) ''agent-2'' = None"
  using failed_start_leaves_nothing [OF demo_agents_ok demo_system_def demo_failing demo_owner [symmetric] HOL.refl] demo_stored by auto

theorem starting_agent_reserved_witness:
  "snd (registerStart demo_new (sy_service demo_system)) = Inl (ErrDuplicateID ''agent-2'')"
proof -
  have "''agent-2'' = owner_id (sy_service demo_system) (phase_owner (Failing 0 True))" using demo_owner by simp
  from starting_agent_reserved [OF demo_agents_ok demo_system_def demo_failing this, of 0 undefined demo_new]
  show ?thesis by (simp add: demo_new_def)
qed

theorem listing_exact_witness:
  "fst (run_state (ListAgents demo_options) (demo_daemon (sy_service demo_system))) = Inr [] \<and>
   agents_of (as_store (dm_service (snd (run_state (ListAgents demo_options) (demo_daemon (sy_service demo_system)))))) ''agent-2'' =
     agents_of (as_store (sy_service demo_system)) ''agent-2''"
proof -
  let ?d = "demo_daemon (sy_service demo_system)"
  have 1: "dm_service ?d = sy_service demo_system" "be_other (ao_backend demo_options) = return ()"
    by (simp_all add: demo_daemon_def demo_options_def quiet_backend_def)
  have tok: "\<forall>ow \<in> set (as_objects (sy_service demo_system)). ow_token ow \<noteq> 0" using demo_tokens by auto
  have panes: "[] = map paneFromRecord (ListPanes (sv_reg (dm_runtime ?d)))"
    by (simp add: demo_daemon_def ListPanes_def all_panes_def NewRegistry_def)
  have "starting (sy_service demo_system) ''agent-2''" by (simp add: demo_system_eq demo_owner0_def)
  then have "''agent-2'' \<notin> orphans [] (dm_service ?d) (ListRecords (as_store (dm_service ?d)))"
    unfolding orphans_def 1 by fastforce
  then show ?thesis using listing_exact [OF demo_agents_ok demo_system_def 1 tok panes HOL.refl, of "''agent-2''"]
    by (simp add: with_pane_def 1)
qed

theorem restart_restores_monitoring_witness:
  "agents_of (as_store (dm_service (snd (run_state (RestoreMonitoring demo_options)
     (demo_daemon (NewAgentService (NewMonitor demo_agents))))))) ''agent-1'' = None"
proof -
  let ?d = "demo_daemon (NewAgentService (NewMonitor demo_agents))"
  have q: "be_other (ao_backend demo_options) = return ()" by (simp add: demo_options_def quiet_backend_def)
  have ok: "store_ok (as_store (dm_service ?d))" using demo_agents_ok by (simp add: demo_daemon_def NewAgentService_def NewMonitor_def)
  have "fst (run_state (RestoreMonitoring demo_options) ?d) = None" by code_simp
  then have run: "run_state (RestoreMonitoring demo_options) ?d = (None, snd (run_state (RestoreMonitoring demo_options) ?d))"
    by (simp add: prod_eq_iff)
  have "agents_of (as_store (dm_service ?d)) ''agent-1'' = Some demo_agent"
    by (simp add: demo_daemon_def NewAgentService_def NewMonitor_def demo_agents_def)
  moreover have "a_PaneID demo_agent = ''p1''" "a_ID demo_agent = ''agent-1''" by (simp_all add: demo_agent_def zeroRecord_def)
  moreover have "fst (run_state (svcLookupPane (ao_backend demo_options) ''p1'') (dm_runtime ?d)) = Inl [ErrPaneNotFound]" by code_simp
  ultimately show ?thesis using restart_restores_monitoring [OF q ok run, of "''agent-1''"] by (simp add: restored_def)
qed

end
