(* ===== verification/Followup_Queue.thy ===== *)
theory Followup_Queue
  imports Persistence
begin

text \<open>
  The queues of follow-up instructions, \<^verbatim>\<open>src/internal/followup/service.go\<close>, \<^verbatim>\<open>types.go\<close> and
  \<^verbatim>\<open>persistence.go\<close>: instructions for an agent are queued, kept in the database, and sent one at a time
  when the agent is ready.

  A queue has a lock of its own, which its methods hold throughout, and a method leaves the daemon
  often: it observes the agent, sends input, saves the queue, reads the clock. So a method is a tree
  (the type \<open>proc\<close>): a node is an external call or the publication of a snapshot, its branches are what
  the call may answer, a leaf is what the method returns. The daemon is a state \<open>Daemon\<close> with a slot for each
  queue, idle or with the method that holds its lock; an \<open>event\<close> starts a method, answers the call one of
  them waits for, lets the writer make a pass, kills the daemon or starts it again. A list of events is
  a run: methods of different queues, the writer and other producers of changes interleave at
  every call, and the daemon may die between any two.

  The repository is the writer of theory \<open>Persistence\<close>: saving enqueues a change and waits for its
  acknowledgement. \<open>ds_sent\<close> records the attempts to send that may have reached the agent and
  \<open>ds_ids\<close> the identifiers that were issued. JSON stands for the value it encodes; the messages for the user
  are their UTF-8 bytes.
\<close>

declare map_of_eq_Some_iff [simp del] Some_eq_map_of_iff [simp del]

section \<open>Data\<close>

definition Queued :: string where "Queued = ''queued''"
definition Sending :: string where "Sending = ''sending''"
definition Sent :: string where "Sent = ''sent''"
definition NeedsAttention :: string where "NeedsAttention = ''needs_attention''"
definition Canceled :: string where "Canceled = ''canceled''"
definition Ready :: string where "Ready = ''ready''"
definition AwaitingWork :: string where "AwaitingWork = ''awaiting_work''"
definition Working :: string where "Working = ''working''"

lemmas phase_defs = Queued_def Sending_def Sent_def NeedsAttention_def Canceled_def Ready_def AwaitingWork_def Working_def

datatype fo_error = ErrInvalid | ErrFollowupNotFound | ErrConflict | ErrObserve string | ErrSave "persist_error list" |
  ErrLoad persist_error | ErrDecode string | ErrIdentity string

record Item =
  it_ID :: string
  it_RequestID :: string
  it_Text :: string
  it_State :: string
  it_Error :: string
  it_CreatedAt :: time
  it_SentAt :: time

record Queue =
  fq_AgentID :: string
  fq_PaneID :: string
  fq_OwnershipToken :: string
  fq_Paused :: bool
  fq_Reason :: string
  fq_Phase :: string
  fq_ActiveItemID :: string
  fq_Items :: "Item list"
  fq_UpdatedAt :: time
  fq_AttemptedAt :: time
  fq_BaselineRevision :: uint64
  fq_ObservationEpoch :: uint64

definition PendingCount :: "Queue \<Rightarrow> nat" where
  "PendingCount q = length (filter (\<lambda>it. it_State it = Queued \<or> it_State it = Sending \<or> it_State it = NeedsAttention) (fq_Items q))"

record Update =
  up_Action :: string
  up_ItemID :: string
  up_Text :: string
  up_RequestID :: string

record Observation =
  ob_AgentID :: string
  ob_PaneID :: string
  ob_OwnershipToken :: string
  ob_Reason :: string
  ob_State :: string
  ob_Running :: bool
  ob_Ready :: bool
  ob_Epoch :: uint64
  ob_WorkingRevision :: uint64
  ob_ObservedAt :: time
  ob_LastWorkingAt :: time

text \<open>\<open>SendNotReady\<close> is an error that wraps \<open>ErrNotReady\<close>: no input was attempted.\<close>

datatype send_result = SendDone | SendNotReady | SendFailed string

text \<open>The texts of the messages.\<close>

definition msgRestarted :: string where
  "msgRestarted = map char_of [
    235, 141, 176, 235, 170, 172, 236, 157, 180, 32, 236, 158, 172, 236, 139, 156, 236, 158, 145, 235, 144,
    152, 236, 150, 180, 32, 236, 157, 180, 236, 160, 132, 32, 236, 167, 128, 236, 139, 156, 236, 157, 152,
    32, 236, 139, 164, 237, 150, 137, 32, 236, 131, 129, 237, 131, 156, 235, 165, 188, 32, 237, 153, 149,
    236, 157, 184, 237, 149, 180, 236, 149, 188, 32, 237, 149, 169, 235, 139, 136, 235, 139, 164 :: nat]"

definition msgConfirmed :: string where
  "msgConfirmed = map char_of [
    236, 160, 132, 235, 139, 172, 32, 237, 153, 149, 236, 157, 184, 235, 144, 168, 32, 194, 183, 32, 236,
    158, 144, 235, 143, 153, 32, 236, 160, 132, 235, 139, 172, 236, 157, 132, 32, 236, 158, 172, 234, 176,
    156, 237, 149, 152, 236, 132, 184, 236, 154, 148 :: nat]"

definition msgExcluded :: string where
  "msgExcluded = map char_of [
    237, 153, 149, 236, 157, 184, 32, 237, 149, 132, 236, 154, 148, 32, 237, 149, 173, 235, 170, 169, 32,
    236, 160, 156, 236, 153, 184, 235, 144, 168, 32, 194, 183, 32, 236, 158, 144, 235, 143, 153, 32, 236,
    160, 132, 235, 139, 172, 236, 157, 132, 32, 236, 158, 172, 234, 176, 156, 237, 149, 152, 236, 132, 184,
    236, 154, 148 :: nat]"

definition msgUnreachable :: string where
  "msgUnreachable = map char_of [
    235, 140, 128, 236, 131, 129, 32, 236, 151, 144, 236, 157, 180, 236, 160, 132, 237, 138, 184, 236, 157,
    152, 32, 236, 139, 164, 237, 150, 137, 32, 236, 131, 129, 237, 131, 156, 235, 165, 188, 32, 237, 153,
    149, 236, 157, 184, 237, 149, 160, 32, 236, 136, 152, 32, 236, 151, 134, 236, 138, 181, 235, 139, 136,
    235, 139, 164 :: nat]"

definition msgEpoch :: string where
  "msgEpoch = map char_of [
    236, 151, 144, 236, 157, 180, 236, 160, 132, 237, 138, 184, 32, 236, 131, 129, 237, 131, 156, 32, 234,
    176, 144, 236, 167, 128, 234, 176, 128, 32, 236, 158, 172, 236, 139, 156, 236, 158, 145, 235, 144, 152,
    236, 150, 180, 32, 236, 160, 132, 235, 139, 172, 32, 237, 153, 149, 236, 157, 184, 236, 157, 180, 32,
    237, 149, 132, 236, 154, 148, 237, 149, 169, 235, 139, 136, 235, 139, 164 :: nat]"

definition msgNoStart :: string where
  "msgNoStart = map char_of [
    236, 167, 128, 236, 139, 156, 32, 236, 160, 132, 235, 139, 172, 32, 237, 155, 132, 32, 236, 158, 145,
    236, 151, 133, 32, 236, 139, 156, 236, 158, 145, 236, 157, 132, 32, 237, 153, 149, 236, 157, 184, 237,
    149, 152, 236, 167, 128, 32, 235, 170, 187, 237, 150, 136, 236, 138, 181, 235, 139, 136, 235, 139, 164 :: nat]"

definition msgWaiting :: string where
  "msgWaiting = map char_of [
    235, 170, 133, 237, 153, 149, 237, 149, 156, 32, 236, 158, 133, 235, 160, 165, 32, 235, 140, 128, 234,
    184, 176, 32, 236, 131, 129, 237, 131, 156, 235, 165, 188, 32, 234, 184, 176, 235, 139, 164, 235, 166,
    172, 235, 138, 148, 32, 236, 164, 145 :: nat]"

definition msgSending :: string where
  "msgSending = map char_of [
    236, 160, 132, 235, 139, 172, 32, 236, 164, 145 :: nat]"

definition msgClaimUnsaved :: string where
  "msgClaimUnsaved = map char_of [
    236, 160, 132, 236, 134, 161, 32, 236, 164, 128, 235, 185, 132, 32, 236, 160, 128, 236, 158, 165, 236,
    157, 132, 32, 237, 153, 149, 236, 157, 184, 237, 149, 152, 236, 167, 128, 32, 235, 170, 187, 237, 150,
    136, 236, 138, 181, 235, 139, 136, 235, 139, 164, 58, 32 :: nat]"

definition msgHeldBack :: string where
  "msgHeldBack = map char_of [
    236, 158, 133, 235, 160, 165, 32, 236, 131, 129, 237, 131, 156, 234, 176, 128, 32, 235, 179, 128, 234,
    178, 189, 235, 144, 152, 236, 150, 180, 32, 236, 160, 132, 235, 139, 172, 236, 157, 132, 32, 235, 179,
    180, 235, 165, 152, 237, 150, 136, 236, 138, 181, 235, 139, 136, 235, 139, 164 :: nat]"

definition msgSendUncertain :: string where
  "msgSendUncertain = map char_of [
    236, 160, 132, 236, 134, 161, 32, 234, 178, 176, 234, 179, 188, 32, 237, 153, 149, 236, 157, 184, 32,
    237, 149, 132, 236, 154, 148, 58, 32 :: nat]"

definition msgDelivered :: string where
  "msgDelivered = map char_of [
    236, 160, 132, 235, 139, 172, 235, 144, 168, 32, 194, 183, 32, 236, 158, 145, 236, 151, 133, 32, 236,
    139, 156, 236, 158, 145, 32, 237, 153, 149, 236, 157, 184, 32, 236, 164, 145 :: nat]"

definition msgResultUnsaved :: string where
  "msgResultUnsaved = map char_of [
    236, 160, 132, 235, 139, 172, 32, 234, 178, 176, 234, 179, 188, 32, 236, 160, 128, 236, 158, 165, 32,
    237, 153, 149, 236, 157, 184, 32, 237, 149, 132, 236, 154, 148, 58, 32 :: nat]"

record entry =
  en_queue :: Queue
  en_dirty :: bool

definition newEntry :: "Queue \<Rightarrow> entry" where
  "newEntry q = \<lparr>en_queue = q, en_dirty = False\<rparr>"

definition emptyQueue :: "string \<Rightarrow> Observation \<Rightarrow> Queue" where
  "emptyQueue agent ob = \<lparr>fq_AgentID = agent, fq_PaneID = ob_PaneID ob, fq_OwnershipToken = ob_OwnershipToken ob,
     fq_Paused = False, fq_Reason = [], fq_Phase = Ready, fq_ActiveItemID = [], fq_Items = [], fq_UpdatedAt = zeroTime,
     fq_AttemptedAt = zeroTime, fq_BaselineRevision = 0, fq_ObservationEpoch = 0\<rparr>"

text \<open>The options: whether there is a repository, the time an agent has to start working, and the
  texts of the writer's errors.\<close>

record FollowupOptions =
  fo_Repository :: bool
  fo_StartTimeout :: int
  fo_errorText :: "persist_error list \<Rightarrow> string"

definition startTimeout :: "FollowupOptions \<Rightarrow> int" where
  "startTimeout opts = (if fo_StartTimeout opts \<le> 0 then 30 * 10 ^ 9 else fo_StartTimeout opts)"

section \<open>Methods as trees\<close>

text \<open>
  The answer to a save is a list of errors, empty for \<open>nil\<close>. \<open>AwaitAck\<close> is a save that has enqueued its
  change and waits on its channel. The agent and the item of a \<open>Send\<close> are not arguments of the
  callback; they say which instruction it is.
\<close>

datatype 'r proc =
    Return 'r
  | Observe string "string + Observation \<Rightarrow> 'r proc"
  | Now "time \<Rightarrow> 'r proc"
  | NewID "string \<Rightarrow> 'r proc"
  | Send string string Observation string "send_result \<Rightarrow> 'r proc"
  | SaveRow Queue "persist_error list \<Rightarrow> 'r proc"
  | AwaitAck nat Queue "persist_error list \<Rightarrow> 'r proc"
  | PublishQ Queue "'r proc"

datatype reply = StepDone | Updated "fo_error + Queue" | Recovered "persist_error list"

type_synonym queueProc = "(entry \<times> reply) proc"

text \<open>A return; \<open>publish\<close> was deferred.\<close>

definition finish :: "entry \<Rightarrow> reply \<Rightarrow> queueProc" where
  "finish e r = PublishQ (en_queue e) (Return (e, r))"

definition save :: "FollowupOptions \<Rightarrow> entry \<Rightarrow> (entry \<Rightarrow> persist_error list \<Rightarrow> 'r proc) \<Rightarrow> 'r proc" where
  "save opts e k = Now (\<lambda>t.
     let e1 = e\<lparr>en_queue := (en_queue e)\<lparr>fq_UpdatedAt := t\<rparr>, en_dirty := True\<rparr> in
     PublishQ (en_queue e1)
       (if fo_Repository opts
        then SaveRow (en_queue e1) (\<lambda>errs. if errs \<noteq> [] then k e1 errs else k (e1\<lparr>en_dirty := False\<rparr>) [])
        else k (e1\<lparr>en_dirty := False\<rparr>) []))"

definition saveAndReturn :: "FollowupOptions \<Rightarrow> entry \<Rightarrow> queueProc" where
  "saveAndReturn opts e = save opts e (\<lambda>e1 _. finish e1 StepDone)"

definition setQueue :: "(Queue \<Rightarrow> Queue) \<Rightarrow> entry \<Rightarrow> entry" where
  "setQueue f e = e\<lparr>en_queue := f (en_queue e)\<rparr>"

definition setItem :: "nat \<Rightarrow> (Item \<Rightarrow> Item) \<Rightarrow> entry \<Rightarrow> entry" where
  "setItem i f = setQueue (\<lambda>q. q\<lparr>fq_Items := (fq_Items q)[i := f (fq_Items q ! i)]\<rparr>)"

definition attention :: "string \<Rightarrow> entry \<Rightarrow> entry" where
  "attention reason = setQueue (\<lambda>q. q\<lparr>fq_Phase := NeedsAttention, fq_Paused := True, fq_Reason := reason,
     fq_Items := map (\<lambda>it. if it_ID it = fq_ActiveItemID q then it\<lparr>it_State := NeedsAttention, it_Error := reason\<rparr> else it) (fq_Items q)\<rparr>)"

section \<open>Updates\<close>

definition validText :: "string \<Rightarrow> bool" where
  "validText s \<longleftrightarrow> TrimSpace s \<noteq> [] \<and> length s \<le> 64 * 1024"

fun findIndex :: "('a \<Rightarrow> bool) \<Rightarrow> 'a list \<Rightarrow> nat option" where
  "findIndex P [] = None"
| "findIndex P (x # xs) = (if P x then Some 0 else map_option Suc (findIndex P xs))"

definition refuse :: "entry \<Rightarrow> fo_error \<Rightarrow> queueProc" where
  "refuse e err = finish e (Updated (Inl err))"

definition saveAndReply :: "FollowupOptions \<Rightarrow> entry \<Rightarrow> queueProc" where
  "saveAndReply opts e = save opts e (\<lambda>e1 errs. if errs \<noteq> [] then refuse e1 (ErrSave errs) else finish e1 (Updated (Inr (en_queue e1))))"

definition addNew :: "FollowupOptions \<Rightarrow> Update \<Rightarrow> entry \<Rightarrow> queueProc" where
  "addNew opts req e =
     (if \<not> validText (up_Text req) then refuse e ErrInvalid
      else if PendingCount (en_queue e) \<ge> 100 then refuse e ErrInvalid
      else NewID (\<lambda>x. Now (\<lambda>t.
        saveAndReply opts (setQueue (\<lambda>q. q\<lparr>fq_Items := fq_Items q @
          [\<lparr>it_ID = x, it_RequestID = up_RequestID req, it_Text = up_Text req, it_State = Queued, it_Error = [],
            it_CreatedAt = t, it_SentAt = zeroTime\<rparr>]\<rparr>) e))))"

definition updateAdd :: "FollowupOptions \<Rightarrow> Update \<Rightarrow> entry \<Rightarrow> queueProc" where
  "updateAdd opts req e =
     (case findIndex (\<lambda>it. up_RequestID req \<noteq> [] \<and> it_RequestID it = up_RequestID req) (fq_Items (en_queue e)) of
        Some i \<Rightarrow>
          if it_Text (fq_Items (en_queue e) ! i) \<noteq> up_Text req then refuse e ErrConflict
          else if en_dirty e then saveAndReply opts e
          else finish e (Updated (Inr (en_queue e)))
      | None \<Rightarrow> addNew opts req e)"

text \<open>The uncertain delivery is over: confirmed or given up.\<close>

definition settle :: "nat \<Rightarrow> string \<Rightarrow> string \<Rightarrow> entry \<Rightarrow> entry" where
  "settle i st reason e =
     setQueue (\<lambda>q. q\<lparr>fq_ActiveItemID := [], fq_Phase := Ready, fq_Reason := reason, fq_Paused := True\<rparr>)
       (setItem i (\<lambda>it. it\<lparr>it_State := st, it_Error := []\<rparr>) e)"

definition updateItem :: "FollowupOptions \<Rightarrow> Update \<Rightarrow> entry \<Rightarrow> queueProc" where
  "updateItem opts req e =
     (case findIndex (\<lambda>it. it_ID it = up_ItemID req) (fq_Items (en_queue e)) of
        None \<Rightarrow> refuse e ErrFollowupNotFound
      | Some i \<Rightarrow>
          let it = fq_Items (en_queue e) ! i;
              uncertain = (it_State it = NeedsAttention \<and> fq_ActiveItemID (en_queue e) = it_ID it)
          in if up_Action req = ''resolve'' then
               (if \<not> uncertain then refuse e ErrConflict else saveAndReply opts (settle i Sent msgConfirmed e))
             else if up_Action req = ''cancel'' \<and> uncertain then saveAndReply opts (settle i Canceled msgExcluded e)
             else if it_State it \<noteq> Queued then refuse e ErrConflict
             else if up_Action req = ''edit'' then
               (if \<not> validText (up_Text req) then refuse e ErrInvalid
                else saveAndReply opts (setItem i (\<lambda>it. it\<lparr>it_Text := up_Text req\<rparr>) e))
             else saveAndReply opts (setItem i (\<lambda>it. it\<lparr>it_State := Canceled\<rparr>) e))"

definition updateEntry :: "FollowupOptions \<Rightarrow> Update \<Rightarrow> entry \<Rightarrow> queueProc" where
  "updateEntry opts req e =
     (if up_Action req = ''add'' then updateAdd opts req e
      else if up_Action req = ''edit'' \<or> up_Action req = ''cancel'' \<or> up_Action req = ''resolve'' then updateItem opts req e
      else if up_Action req = ''pause'' then saveAndReply opts (setQueue (\<lambda>q. q\<lparr>fq_Paused := True\<rparr>) e)
      else if up_Action req = ''resume'' then
        (if fq_Phase (en_queue e) = NeedsAttention then refuse e ErrConflict
         else saveAndReply opts (setQueue (\<lambda>q. q\<lparr>fq_Paused := False, fq_Reason := []\<rparr>) e))
      else refuse e ErrInvalid)"

section \<open>Delivery\<close>

definition sameTarget :: "Queue \<Rightarrow> Observation \<Rightarrow> bool" where
  "sameTarget q ob \<longleftrightarrow> ob_Running ob \<and> ob_PaneID ob = fq_PaneID q \<and> ob_OwnershipToken ob = fq_OwnershipToken q \<and> ob_AgentID ob = fq_AgentID q"

text \<open>Back to the queue, when the target is no longer ready.\<close>

definition holdBack :: "FollowupOptions \<Rightarrow> nat \<Rightarrow> entry \<Rightarrow> queueProc" where
  "holdBack opts i e = saveAndReturn opts
     (setQueue (\<lambda>q. q\<lparr>fq_ActiveItemID := [], fq_Phase := Ready, fq_Reason := msgHeldBack\<rparr>) (setItem i (\<lambda>it. it\<lparr>it_State := Queued\<rparr>) e))"

definition delivered :: "FollowupOptions \<Rightarrow> nat \<Rightarrow> entry \<Rightarrow> queueProc" where
  "delivered opts i e = Now (\<lambda>t.
     save opts (setQueue (\<lambda>q. q\<lparr>fq_Phase := AwaitingWork, fq_Reason := msgDelivered\<rparr>)
         (setItem i (\<lambda>it. it\<lparr>it_State := Sent, it_SentAt := t\<rparr>) e))
       (\<lambda>e1 errs. if errs = [] then finish e1 StepDone
          else finish ((attention (msgResultUnsaved @ fo_errorText opts errs) e1)\<lparr>en_dirty := True\<rparr>) StepDone))"

definition deliver_item :: "FollowupOptions \<Rightarrow> nat \<Rightarrow> Observation \<Rightarrow> entry \<Rightarrow> queueProc" where
  "deliver_item opts i fresh e = Now (\<lambda>t.
     let e1 = setQueue (\<lambda>q. q\<lparr>fq_AttemptedAt := t\<rparr>) e;
         it = fq_Items (en_queue e1) ! i
     in Send (fq_AgentID (en_queue e1)) (it_ID it) fresh (it_Text it) (\<lambda>r.
       case r of
         SendNotReady \<Rightarrow> holdBack opts i e1
       | SendFailed err \<Rightarrow> saveAndReturn opts (attention (msgSendUncertain @ err) e1)
       | SendDone \<Rightarrow> delivered opts i e1))"

definition recheck :: "FollowupOptions \<Rightarrow> nat \<Rightarrow> Observation \<Rightarrow> entry \<Rightarrow> queueProc" where
  "recheck opts i ob e = Observe (fq_AgentID (en_queue e)) (\<lambda>r.
     case r of
       Inl _ \<Rightarrow> holdBack opts i e
     | Inr fresh \<Rightarrow>
         if \<not> ob_Ready fresh \<or> \<not> sameTarget (en_queue e) fresh \<or> ob_Epoch fresh \<noteq> ob_Epoch ob \<or>
            ob_WorkingRevision fresh \<noteq> ob_WorkingRevision ob
         then holdBack opts i e else deliver_item opts i fresh e)"

definition claim :: "nat \<Rightarrow> time \<Rightarrow> Observation \<Rightarrow> entry \<Rightarrow> entry" where
  "claim i t ob e = setItem i (\<lambda>it. it\<lparr>it_State := Sending\<rparr>)
     (setQueue (\<lambda>q. q\<lparr>fq_ActiveItemID := it_ID (fq_Items q ! i), fq_Phase := Sending, fq_AttemptedAt := t,
        fq_BaselineRevision := ob_WorkingRevision ob, fq_ObservationEpoch := ob_Epoch ob, fq_Reason := msgSending\<rparr>) e)"

definition dispatch :: "FollowupOptions \<Rightarrow> Observation \<Rightarrow> entry \<Rightarrow> queueProc" where
  "dispatch opts ob e =
     (if fq_Paused (en_queue e) then finish e StepDone
      else if \<not> ob_Ready ob then
        finish (setQueue (\<lambda>q. q\<lparr>fq_Reason := (if ob_Reason ob \<noteq> [] then ob_Reason ob else msgWaiting)\<rparr>) e) StepDone
      else case findIndex (\<lambda>it. it_State it = Queued) (fq_Items (en_queue e)) of
        None \<Rightarrow> finish (setQueue (\<lambda>q. q\<lparr>fq_Reason := []\<rparr>) e) StepDone
      | Some i \<Rightarrow> Now (\<lambda>t. save opts (claim i t ob e) (\<lambda>e1 errs.
          if errs \<noteq> [] then finish ((attention (msgClaimUnsaved @ fo_errorText opts errs) e1)\<lparr>en_dirty := True\<rparr>) StepDone
          else recheck opts i ob e1)))"

text \<open>The delivery under way: is it working, did it start in time, is it over?\<close>

definition finishActive :: "FollowupOptions \<Rightarrow> Observation \<Rightarrow> entry \<Rightarrow> queueProc" where
  "finishActive opts ob e =
     (if fq_Phase (en_queue e) \<noteq> Working \<or> \<not> ob_Ready ob \<or> \<not> ob_LastWorkingAt ob < ob_ObservedAt ob then finish e StepDone
      else save opts (setQueue (\<lambda>q. q\<lparr>fq_ActiveItemID := [], fq_Phase := Ready, fq_Reason := []\<rparr>) e)
        (\<lambda>e1 errs. if errs \<noteq> [] then finish e1 StepDone else dispatch opts ob e1))"

definition checkTimeout :: "FollowupOptions \<Rightarrow> Observation \<Rightarrow> entry \<Rightarrow> queueProc" where
  "checkTimeout opts ob e =
     (if fq_Phase (en_queue e) = AwaitingWork then Now (\<lambda>t.
        if startTimeout opts \<le> t - fq_AttemptedAt (en_queue e) then saveAndReturn opts (attention msgNoStart e)
        else finishActive opts ob e)
      else finishActive opts ob e)"

definition stepActive :: "FollowupOptions \<Rightarrow> Observation \<Rightarrow> entry \<Rightarrow> queueProc" where
  "stepActive opts ob e =
     (let q = en_queue e in
      if ob_Epoch ob \<noteq> fq_ObservationEpoch q then saveAndReturn opts (attention msgEpoch e)
      else if fq_BaselineRevision q < ob_WorkingRevision ob \<and> \<not> ob_LastWorkingAt ob < fq_AttemptedAt q \<and> fq_Phase q \<noteq> Working
      then save opts (setQueue (\<lambda>q. q\<lparr>fq_Phase := Working\<rparr>) e)
             (\<lambda>e1 errs. if errs \<noteq> [] then finish e1 StepDone else checkTimeout opts ob e1)
      else checkTimeout opts ob e)"

definition targetLost :: "FollowupOptions \<Rightarrow> entry \<Rightarrow> queueProc" where
  "targetLost opts e =
     (let e1 = setQueue (\<lambda>q. q\<lparr>fq_Reason := msgUnreachable\<rparr>) e in
      if fq_ActiveItemID (en_queue e) \<noteq> [] then saveAndReturn opts (attention msgUnreachable e1) else finish e1 StepDone)"

definition stepObserve :: "FollowupOptions \<Rightarrow> entry \<Rightarrow> queueProc" where
  "stepObserve opts e =
     (let q = en_queue e in
      if fq_Phase q = NeedsAttention \<or> PendingCount q = 0 \<and> fq_ActiveItemID q = [] then finish e StepDone
      else Observe (fq_AgentID q) (\<lambda>r. case r of
          Inl _ \<Rightarrow> targetLost opts e
        | Inr ob \<Rightarrow>
            if \<not> sameTarget q ob then targetLost opts e
            else if fq_ActiveItemID q \<noteq> [] then stepActive opts ob e else dispatch opts ob e))"

definition stepEntry :: "FollowupOptions \<Rightarrow> entry \<Rightarrow> queueProc" where
  "stepEntry opts e =
     (if en_dirty e then save opts e (\<lambda>e1 errs. if errs \<noteq> [] then finish e1 StepDone else stepObserve opts e1)
      else stepObserve opts e)"

section \<open>The daemon\<close>

datatype Data = QueueData Queue | OtherData string

definition followupChange :: "Queue \<Rightarrow> Data Change" where
  "followupChange q = \<lparr>c_Table = Followups, c_ID = fq_AgentID q, c_Parent = fq_AgentID q, c_PaneID = fq_PaneID q,
     c_Value = Some (QueueData q)\<rparr>"

text \<open>\<open>SQLiteRepository.Load\<close>: every row must decode and carry its own identity.\<close>

definition loadRow :: "Data Row \<Rightarrow> fo_error + Queue" where
  "loadRow row =
     (case row_Data row of
        OtherData _ \<Rightarrow> Inl (ErrDecode (row_ID row))
      | QueueData q \<Rightarrow>
          if fq_AgentID q \<noteq> row_ID row \<or> fq_PaneID q \<noteq> row_PaneID row \<or> fq_AgentID q = [] \<or> fq_OwnershipToken q = []
          then Inl (ErrIdentity (row_ID row)) else Inr q)"

fun loadRows :: "Data Row list \<Rightarrow> fo_error + Queue list" where
  "loadRows [] = Inr []"
| "loadRows (row # rows) =
     (case loadRow row of
        Inl e \<Rightarrow> Inl e
      | Inr q \<Rightarrow> (case loadRows rows of Inl e \<Rightarrow> Inl e | Inr qs \<Rightarrow> Inr (q # qs)))"

definition LoadQueues :: "Data db \<Rightarrow> fo_error + Queue list" where
  "LoadQueues d = (case Load d Followups of Inl e \<Rightarrow> Inl (ErrLoad e) | Inr rows \<Rightarrow> loadRows rows)"

datatype activity = Idle entry | Busy queueProc

record slot =
  sl_snapshot :: Queue
  sl_activity :: activity

datatype service_phase = Down | Loading "Queue list" | Up

record Daemon =
  ds_phase :: service_phase
  ds_slots :: "(string, slot) gomap"
  ds_writer :: "Data Writer"
  ds_tokens :: nat
  ds_sent :: "(string \<times> string) list"
  ds_ids :: "string list"

definition initialDaemon :: Daemon where
  "initialDaemon = \<lparr>ds_phase = Down, ds_slots = [], ds_writer = OpenWriter (\<lambda>_. []), ds_tokens = 0, ds_sent = [], ds_ids = []\<rparr>"

definition setSlot :: "string \<Rightarrow> slot \<Rightarrow> Daemon \<Rightarrow> Daemon" where
  "setSlot a sl s = s\<lparr>ds_slots := mput (ds_slots s) a sl\<rparr>"

text \<open>A killed daemon keeps its database and nothing else.\<close>

definition kill :: "Daemon \<Rightarrow> Daemon" where
  "kill s = s\<lparr>ds_phase := Down, ds_slots := [], ds_writer := OpenWriter (w_db (ds_writer s))\<rparr>"

text \<open>\<open>New\<close>: the rows are read, then one queue after the other is recovered.\<close>

definition interrupted :: "Queue \<Rightarrow> bool" where
  "interrupted q \<longleftrightarrow> fq_ActiveItemID q \<noteq> [] \<or> fq_Phase q = AwaitingWork \<or> fq_Phase q = Working \<or> fq_Phase q = Sending"

definition recoverEntry :: "FollowupOptions \<Rightarrow> Queue \<Rightarrow> queueProc" where
  "recoverEntry opts q =
     (if interrupted q then save opts (attention msgRestarted (newEntry q)) (\<lambda>e errs. Return (e, Recovered errs))
      else Return (newEntry q, Recovered []))"

definition startDaemon :: "FollowupOptions \<Rightarrow> Daemon \<Rightarrow> Daemon" where
  "startDaemon opts s =
     (if ds_phase s \<noteq> Down then s
      else if \<not> fo_Repository opts then s\<lparr>ds_phase := Up\<rparr>
      else case LoadQueues (w_db (ds_writer s)) of
        Inl _ \<Rightarrow> s
      | Inr qs \<Rightarrow> s\<lparr>ds_phase := Loading qs\<rparr>)"

definition allIdle :: "(string, slot) gomap \<Rightarrow> bool" where
  "allIdle m \<longleftrightarrow> list_all (\<lambda>(a, sl). case sl_activity sl of Idle _ \<Rightarrow> True | Busy _ \<Rightarrow> False) m"

definition recoverNext :: "FollowupOptions \<Rightarrow> Daemon \<Rightarrow> Daemon" where
  "recoverNext opts s =
     (case ds_phase s of
        Loading qs \<Rightarrow>
          if \<not> allIdle (ds_slots s) then s
          else (case qs of
              [] \<Rightarrow> s\<lparr>ds_phase := Up\<rparr>
            | q # rest \<Rightarrow> setSlot (fq_AgentID q) \<lparr>sl_snapshot = q, sl_activity = Busy (recoverEntry opts q)\<rparr> (s\<lparr>ds_phase := Loading rest\<rparr>))
      | _ \<Rightarrow> s)"

text \<open>\<open>Update\<close> finds the queue of a running agent or makes one, then takes its lock.\<close>

definition register :: "string \<Rightarrow> Update \<Rightarrow> string + Observation \<Rightarrow> Daemon \<Rightarrow> fo_error + Daemon" where
  "register a req r s =
     (if TrimSpace a = [] then Inl ErrInvalid
      else if mget (ds_slots s) a \<noteq> None then Inr s
      else if up_Action req \<noteq> ''add'' \<and> up_Action req \<noteq> ''pause'' \<and> up_Action req \<noteq> ''resume'' then Inl ErrFollowupNotFound
      else case r of
        Inl err \<Rightarrow> Inl (ErrObserve err)
      | Inr ob \<Rightarrow>
          if \<not> ob_Running ob \<or> ob_AgentID ob \<noteq> a \<or> ob_PaneID ob = [] \<or> ob_OwnershipToken ob = [] then Inl ErrConflict
          else Inr (setSlot a \<lparr>sl_snapshot = emptyQueue a ob, sl_activity = Idle (newEntry (emptyQueue a ob))\<rparr> s))"

text \<open>\<open>Lock\<close> waits, \<open>TryLock\<close> does not, so a method starts on an idle queue only.\<close>

definition begin_method :: "string \<Rightarrow> (entry \<Rightarrow> queueProc) \<Rightarrow> Daemon \<Rightarrow> Daemon" where
  "begin_method a m s =
     (case mget (ds_slots s) a of
        Some sl \<Rightarrow> (case sl_activity sl of
            Idle e \<Rightarrow> if ds_phase s = Up then setSlot a (sl\<lparr>sl_activity := Busy (m e)\<rparr>) s else s
          | Busy _ \<Rightarrow> s)
      | None \<Rightarrow> s)"

datatype answer = Observed "string + Observation" | Time time | ID string | SendAnswer send_result | Context bool | Acked | ContextEnded | Continue

text \<open>The external call a method waits for is answered.\<close>

definition enqueueSave :: "bool \<Rightarrow> Queue \<Rightarrow> (persist_error list \<Rightarrow> queueProc) \<Rightarrow> Daemon \<Rightarrow> queueProc \<times> Daemon" where
  "enqueueSave ctxErr q k s =
     (case EnqueueAndWait ctxErr (followupChange q) (ds_tokens s) (ds_writer s) of
        Inl err \<Rightarrow> (k [err], s)
      | Inr w \<Rightarrow> (AwaitAck (ds_tokens s) q k, s\<lparr>ds_writer := w, ds_tokens := Suc (ds_tokens s)\<rparr>))"

fun perform :: "answer \<Rightarrow> queueProc \<Rightarrow> Daemon \<Rightarrow> queueProc \<times> Daemon" where
  "perform ans (Observe a k) s = (case ans of Observed r \<Rightarrow> (k r, s) | _ \<Rightarrow> (Observe a k, s))"
| "perform ans (Now k) s = (case ans of Time t \<Rightarrow> (k t, s) | _ \<Rightarrow> (Now k, s))"
| "perform ans (NewID k) s = (case ans of ID x \<Rightarrow> (k x, s\<lparr>ds_ids := ds_ids s @ [x]\<rparr>) | _ \<Rightarrow> (NewID k, s))"
| "perform ans (Send a x ob msg k) s =
     (case ans of
        SendAnswer r \<Rightarrow> (k r, if r = SendNotReady then s else s\<lparr>ds_sent := ds_sent s @ [(a, x)]\<rparr>)
      | _ \<Rightarrow> (Send a x ob msg k, s))"
| "perform ans (SaveRow q k) s = (case ans of Context ctxErr \<Rightarrow> enqueueSave ctxErr q k s | _ \<Rightarrow> (SaveRow q k, s))"
| "perform ans (AwaitAck tok q k) s =
     (case ans of
        Acked \<Rightarrow> (case mget (w_acks (ds_writer s)) tok of Some errs \<Rightarrow> (k errs, s) | None \<Rightarrow> (AwaitAck tok q k, s))
      | ContextEnded \<Rightarrow> (k [ErrContext], s)
      | _ \<Rightarrow> (AwaitAck tok q k, s))"
| "perform ans (PublishQ q p) s = (PublishQ q p, s)"
| "perform ans (Return er) s = (Return er, s)"

fun recoveryFailed :: "reply \<Rightarrow> bool" where
  "recoveryFailed (Recovered errs) = (errs \<noteq> [])"
| "recoveryFailed _ = False"

definition advance :: "string \<Rightarrow> answer \<Rightarrow> Daemon \<Rightarrow> Daemon" where
  "advance a ans s =
     (case mget (ds_slots s) a of
        None \<Rightarrow> s
      | Some sl \<Rightarrow> (case sl_activity sl of
          Idle _ \<Rightarrow> s
        | Busy (Return (e, r)) \<Rightarrow>
            if recoveryFailed r then kill s else setSlot a (sl\<lparr>sl_activity := Idle e\<rparr>) s
        | Busy (PublishQ q p) \<Rightarrow> setSlot a \<lparr>sl_snapshot = q, sl_activity = Busy p\<rparr> s
        | Busy p \<Rightarrow> let (p', s') = perform ans p s in setSlot a (sl\<lparr>sl_activity := Busy p'\<rparr>) s'))"

datatype event =
    Start | RecoverNext | Register string Update "string + Observation" | BeginUpdate string Update | BeginStep string
  | Answer string answer | WriterPass "persist_error option" | OtherChanges "Data Change list" | CloseStorage | CancelStorage | Kill

fun happen :: "FollowupOptions \<Rightarrow> event \<Rightarrow> Daemon \<Rightarrow> Daemon" where
  "happen opts Start s = startDaemon opts s"
| "happen opts RecoverNext s = recoverNext opts s"
| "happen opts (Register a req r) s =
     (if ds_phase s = Up then (case register a req r s of Inl _ \<Rightarrow> s | Inr s' \<Rightarrow> s') else s)"
| "happen opts (BeginUpdate a req) s = begin_method a (updateEntry opts req) s"
| "happen opts (BeginStep a) s = begin_method a (stepEntry opts) s"
| "happen opts (Answer a ans) s = advance a ans s"
| "happen opts (WriterPass storage) s = s\<lparr>ds_writer := run_iter storage (ds_writer s)\<rparr>"
| "happen opts (OtherChanges cs) s = s\<lparr>ds_writer := Enqueue (filter (\<lambda>c. c_Table c \<noteq> Followups) cs) (ds_writer s)\<rparr>"
| "happen opts CloseStorage s = s\<lparr>ds_writer := CloseWriter (ds_writer s)\<rparr>"
| "happen opts CancelStorage s = s\<lparr>ds_writer := CancelWriter (ds_writer s)\<rparr>"
| "happen opts Kill s = kill s"

text \<open>A run from an empty database.\<close>

definition daemon_run :: "FollowupOptions \<Rightarrow> event list \<Rightarrow> Daemon" where
  "daemon_run opts evs = fold (happen opts) evs initialDaemon"

text \<open>What readers see, without waiting for a lock.\<close>

definition GetQueue :: "string \<Rightarrow> string + Observation \<Rightarrow> Daemon \<Rightarrow> fo_error + Queue" where
  "GetQueue a r s =
     (case mget (ds_slots s) a of
        Some sl \<Rightarrow> Inr (sl_snapshot sl)
      | None \<Rightarrow> (case r of Inl err \<Rightarrow> Inl (ErrObserve err) | Inr ob \<Rightarrow> Inr (emptyQueue a ob)))"

definition QueueSummary :: "string \<Rightarrow> Daemon \<Rightarrow> nat \<times> bool \<times> bool" where
  "QueueSummary a s =
     (case mget (ds_slots s) a of
        Some sl \<Rightarrow> (PendingCount (sl_snapshot sl), fq_Paused (sl_snapshot sl), fq_Phase (sl_snapshot sl) = NeedsAttention)
      | None \<Rightarrow> (0, False, False))"

end
