(* ===== verification/Followup_Safety.thy ===== *)
theory Followup_Safety
  imports Followup_Queue
begin

text \<open>
  What the follow-up queues promise: whatever the agents, the storage and the clock answer, and
  wherever the daemon dies, an instruction is sent at most once.
\<close>

section \<open>The writer's rows\<close>

text \<open>A pass of the writer does nothing visible, commits a prefix of what is in flight, or gives up.\<close>

lemma run_iter_cases:
  obtains
    (idle) "in_flight (run_iter st w) = in_flight w" "w_db (run_iter st w) = w_db w" "w_acks (run_iter st w) = w_acks w"
  | (commits) b rest where "in_flight w = b @ rest" "in_flight (run_iter st w) = rest"
      "apply_changes (w_db w) (map q_Change b) = Inr (w_db (run_iter st w))"
      "w_acks (run_iter st w) = w_acks w @ acknowledge b []"
  | (gives_up) errs where "errs \<noteq> []" "in_flight (run_iter st w) = []" "w_db (run_iter st w) = w_db w"
      "w_acks (run_iter st w) = w_acks w @ acknowledge (in_flight w) errs"
proof -
  let ?w = "take_batch w"
  let ?st = "if w_ctxDone w then Some ErrContext else st"
  have fl: "in_flight w = w_batch ?w @ w_pending ?w"
    using in_flight_take_batch [of w] by (simp add: in_flight_def)
  have ack: "acknowledge (in_flight w) errs = acknowledge (w_batch ?w) errs @ acknowledge (w_pending ?w) errs" for errs
    unfolding fl by (simp add: acknowledge_def List.map_filter_def)
  have ex: thesis if "run_iter st w = run_exit err ?w" for err
  proof (rule gives_up [of "ErrClosed # err"])
    show "in_flight (run_iter st w) = []" by (simp add: that run_exit_def in_flight_def)
  qed (simp_all add: that run_exit_def ack)
  have same: thesis if "run_iter st w = ?w \<or> run_iter st w = w"
    using that by (intro idle) auto
  show thesis
  proof (cases "w_done w \<or> w_batch ?w = []")
    case True
    then have "run_iter st w = w \<or> run_iter st w = ?w \<or> (\<exists>err. run_iter st w = run_exit err ?w)"
      by (auto simp: run_iter_def Let_def)
    then show ?thesis using ex same by blast
  next
    case False
    show ?thesis
    proof (cases "commit ?st (w_db w) (w_batch ?w)")
      case (Inl e)
      then have "run_iter st w = ?w \<or> (\<exists>err. run_iter st w = run_exit err ?w)"
        using False by (auto simp: run_iter_def Let_def)
      then show ?thesis using ex same by blast
    next
      case (Inr d)
      have r: "run_iter st w = ?w\<lparr>w_db := d, w_batch := [], w_acks := w_acks w @ acknowledge (w_batch ?w) []\<rparr>"
        using False Inr by (simp add: run_iter_def Let_def)
      have "apply_changes (w_db w) (map q_Change (w_batch ?w)) = Inr d"
        using Inr by (simp add: commit_def split: option.splits)
      then show ?thesis by (intro commits [OF fl]) (simp_all add: r in_flight_def)
    qed
  qed
qed

definition touches :: "Table \<Rightarrow> string \<Rightarrow> 'v Change \<Rightarrow> bool" where
  "touches t a c \<longleftrightarrow> c_Table c = t \<and> c_ID c = a"

lemma apply_change_row:
  assumes "apply_change d c = Inr d'"
  shows "mget (d' t) a = (if touches t a c then
      map_option (\<lambda>v. \<lparr>row_ID = a, row_Parent = c_Parent c, row_PaneID = c_PaneID c, row_Data = v\<rparr>) (c_Value c)
    else mget (d t) a)"
  using assms
  by (auto simp: apply_change_def touches_def AList.delete_conv' split: if_splits option.splits)

lemma apply_changes_untouched:
  assumes "apply_changes d cs = Inr d'" and "\<forall>c \<in> set cs. \<not> touches t a c"
  shows "mget (d' t) a = mget (d t) a"
  using assms
  by (induction cs arbitrary: d) (auto simp: apply_change_row split: sum.splits)

lemma apply_changes_row:
  assumes "apply_changes d cs = Inr d'" and "mget (d' t) a = Some row"
  shows "mget (d t) a = Some row \<or> (\<exists>c \<in> set cs. touches t a c \<and> c_Value c = Some (row_Data row))"
  using assms
proof (induction cs arbitrary: d)
  case (Cons c cs)
  from Cons.prems(1) obtain d1 where d1: "apply_change d c = Inr d1" "apply_changes d1 cs = Inr d'"
    by (auto split: sum.splits)
  from Cons.IH [OF d1(2) Cons.prems(2)] show ?case
    using apply_change_row [OF d1(1), of t a] by (auto split: if_splits)
qed simp

lemma apply_changes_last:
  assumes "apply_changes d (xs @ c # ys) = Inr d'" and "touches t a c" and "\<forall>c \<in> set ys. \<not> touches t a c"
    and "c_Value c = Some v" and "mget (d' t) a = Some row"
  shows "row_Data row = v"
proof -
  from assms(1) obtain d1 d2 where "apply_change d1 c = Inr d2" "apply_changes d2 ys = Inr d'"
    by (auto simp: apply_changes_append split: sum.splits)
  then show ?thesis
    using apply_changes_untouched [of d2 ys d' t a] apply_change_row [of d1 c d2 t a] assms by auto
qed

text \<open>Every queue that the row of an agent holds or may come to hold.\<close>

definition versions :: "string \<Rightarrow> Data Writer \<Rightarrow> Queue set" where
  "versions a w = {q. \<exists>row. mget (w_db w Followups) a = Some row \<and> row_Data row = QueueData q} \<union>
     {q. \<exists>c \<in> set (in_flight w). touches Followups a (q_Change c) \<and> c_Value (q_Change c) = Some (QueueData q)}"

lemma versions_pass: "versions a (run_iter st w) \<subseteq> versions a w"
proof (cases rule: run_iter_cases [of st w])
  case (commits b rest)
  then show ?thesis using apply_changes_row [OF commits(3), of Followups a] by (fastforce simp: versions_def)
qed (auto simp: versions_def)

lemma versions_open: "versions a (OpenWriter (w_db w)) \<subseteq> versions a w"
  by (auto simp: versions_def OpenWriter_def in_flight_def)

text \<open>
  A save that waits with token \<open>tok\<close>: if it was acknowledged, the row holds this very queue and
  nothing else is to come; if not, no change of the row follows it.
\<close>

definition awaits :: "string \<Rightarrow> nat \<Rightarrow> Queue \<Rightarrow> Data Writer \<Rightarrow> bool" where
  "awaits a tok q w \<longleftrightarrow>
     (if (tok, []) \<in> set (w_acks w) then versions a w \<subseteq> {q}
      else \<forall>xs c ys. in_flight w = xs @ c # ys \<and> q_committed c = Some tok \<longrightarrow>
             q_Change c = followupChange q \<and> fq_AgentID q = a \<and> (\<forall>c' \<in> set ys. \<not> touches Followups a (q_Change c')))"

lemma followupChange_sel [simp]:
  "touches t a (followupChange q) \<longleftrightarrow> t = Followups \<and> a = fq_AgentID q" "c_Value (followupChange q) = Some (QueueData q)"
  by (auto simp: followupChange_def touches_def)

lemma awaits_pass:
  assumes "awaits a tok q w"
  shows "awaits a tok q (run_iter st w)"
proof (cases rule: run_iter_cases [of st w])
  case idle
  then have v: "versions a (run_iter st w) = versions a w" by (simp add: versions_def)
  show ?thesis using assms unfolding awaits_def v idle .
next
  case (gives_up errs)
  then show ?thesis using assms subset_trans [OF versions_pass [of a st w]]
    by (simp add: awaits_def acknowledge_ok)
next
  case (commits b rest)
  show ?thesis
  proof (cases "(tok, []) \<in> set (w_acks w)")
    case True
    then show ?thesis using assms commits(4) subset_trans [OF versions_pass [of a st w]] by (simp add: awaits_def)
  next
    case False
    with assms have split: "q_Change c = followupChange q \<and> fq_AgentID q = a \<and> (\<forall>c' \<in> set ys. \<not> touches Followups a (q_Change c'))"
      if "in_flight w = xs @ c # ys" "q_committed c = Some tok" for xs c ys
      using that by (simp add: awaits_def)
    show ?thesis
    proof (cases "(tok, []) \<in> set (acknowledge b [])")
      case True
      then obtain c xs ys where c: "b = xs @ c # ys" "q_committed c = Some tok"
        by (auto simp: acknowledge_ok dest!: split_list)
      have s: "q_Change c = followupChange q" "fq_AgentID q = a" "\<forall>c' \<in> set (ys @ rest). \<not> touches Followups a (q_Change c')"
        using split [of xs c "ys @ rest"] c commits(1) by auto
      have "row_Data row = QueueData q" if "mget (w_db (run_iter st w) Followups) a = Some row" for row
        by (rule apply_changes_last [of "w_db w" "map q_Change xs" "q_Change c" "map q_Change ys" "w_db (run_iter st w)" Followups a])
          (use c s commits that in auto)
      then have "versions a (run_iter st w) \<subseteq> {q}"
        using s commits(2) by (auto simp: versions_def)
      then show ?thesis using True commits(4) by (simp add: awaits_def)
    next
      case nack: False
      have "(tok, []) \<notin> set (w_acks (run_iter st w))" using False nack commits(4) by simp
      then show ?thesis using split [of "b @ xs" c ys for xs c ys] commits(1,2) by (simp add: awaits_def)
    qed
  qed
qed

text \<open>Tokens are used once.\<close>

definition tokens_below :: "nat \<Rightarrow> Data Writer \<Rightarrow> bool" where
  "tokens_below n w \<longleftrightarrow> (\<forall>c \<in> set (in_flight w). \<forall>t. q_committed c = Some t \<longrightarrow> t < n) \<and> (\<forall>(t, errs) \<in> set (w_acks w). t < n)"

lemma acknowledge_mem: "(t, errs) \<in> set (acknowledge b err) \<Longrightarrow> \<exists>c \<in> set b. q_committed c = Some t"
  by (auto simp: acknowledge_def List.map_filter_def split: option.splits)

lemma tokens_below_pass:
  assumes "tokens_below n w"
  shows "tokens_below n (run_iter st w)"
  using assms
  by (cases rule: run_iter_cases [of st w]) (auto simp: tokens_below_def dest!: acknowledge_mem)

text \<open>Changes that are appended to what is in flight.\<close>

definition appended :: "Data queuedChange list \<Rightarrow> Data Writer \<Rightarrow> Data Writer \<Rightarrow> bool" where
  "appended cs w w' \<longleftrightarrow> in_flight w' = in_flight w @ cs \<and> w_db w' = w_db w \<and> w_acks w' = w_acks w"

lemma appended_EnqueueAndWait:
  "EnqueueAndWait c ch tok w = Inr w' \<Longrightarrow> appended [\<lparr>q_Change = ch, q_committed = Some tok\<rparr>] w w'"
  by (auto simp: EnqueueAndWait_def appended_def in_flight_def split: if_splits)

lemma appended_versions_other:
  "appended cs w w' \<Longrightarrow> \<forall>c \<in> set cs. \<not> touches Followups a (q_Change c) \<Longrightarrow> versions a w' = versions a w"
  by (auto simp: appended_def versions_def)

lemma appended_versions_own:
  "appended [\<lparr>q_Change = followupChange q, q_committed = tok\<rparr>] w w' \<Longrightarrow> versions (fq_AgentID q) w' = insert q (versions (fq_AgentID q) w)"
  by (auto simp: appended_def versions_def)

lemma append_split:
  "us @ vs = xs @ c # ys \<longleftrightarrow> (\<exists>zs. us = xs @ c # zs \<and> ys = zs @ vs) \<or> (\<exists>zs. vs = zs @ c # ys \<and> xs = us @ zs)"
  by (auto simp: append_eq_append_conv2 append_eq_Cons_conv)

lemma appended_awaits_other:
  assumes "awaits a tok q w" and "appended cs w w'"
    and "\<forall>c \<in> set cs. \<not> touches Followups a (q_Change c) \<and> q_committed c \<noteq> Some tok"
  shows "awaits a tok q w'"
proof (cases "(tok, []) \<in> set (w_acks w)")
  case True
  then show ?thesis using assms appended_versions_other [of cs w w' a] by (auto simp: awaits_def appended_def)
next
  case False
  then show ?thesis using assms by (fastforce simp: awaits_def appended_def append_split)
qed

lemma appended_awaits_own:
  assumes "tokens_below tok w" and "appended [\<lparr>q_Change = followupChange q, q_committed = Some tok\<rparr>] w w'"
  shows "awaits (fq_AgentID q) tok q w'"
proof -
  have "(tok, []) \<notin> set (w_acks w')" using assms by (auto simp: appended_def tokens_below_def)
  moreover have "\<forall>c \<in> set (in_flight w). q_committed c \<noteq> Some tok" using assms by (auto simp: tokens_below_def)
  ultimately show ?thesis using assms(2)
    by (auto simp: awaits_def appended_def append_split Cons_eq_append_conv)
qed


section \<open>Queues that cannot send twice\<close>

text \<open>
  A queue of agent \<open>a\<close> is sound if its items have distinct identifiers among the issued ones, \<open>I\<close>, no two of
  them answer one request, and none that was sent, \<open>X\<close>, is still queued.
\<close>

definition sound :: "string \<Rightarrow> string set \<Rightarrow> string set \<Rightarrow> Queue \<Rightarrow> bool" where
  "sound a I X q \<longleftrightarrow> fq_AgentID q = a \<and> distinct (map it_ID (fq_Items q)) \<and> it_ID ` set (fq_Items q) \<subseteq> I \<and>
     distinct (filter (\<lambda>r. r \<noteq> []) (map it_RequestID (fq_Items q))) \<and>
     (\<forall>it \<in> set (fq_Items q). it_State it = Queued \<longrightarrow> it_ID it \<notin> X)"

lemma sound_mono: "sound a I X q \<Longrightarrow> I \<subseteq> I' \<Longrightarrow> sound a I' X q"
  by (auto simp: sound_def)

lemma phase_distinct [simp]:
  "Queued \<noteq> Sending" "Sending \<noteq> Queued" "Queued \<noteq> Sent" "Sent \<noteq> Queued" "Queued \<noteq> NeedsAttention" "NeedsAttention \<noteq> Queued"
  "Queued \<noteq> Canceled" "Canceled \<noteq> Queued"
  by (simp_all add: phase_defs)

lemma setQueue_sel [simp]: "en_queue (setQueue f e) = f (en_queue e)" "en_dirty (setQueue f e) = en_dirty e"
  by (simp_all add: setQueue_def)

lemma setItem_sel [simp]:
  "en_queue (setItem i f e) = (en_queue e)\<lparr>fq_Items := (fq_Items (en_queue e))[i := f (fq_Items (en_queue e) ! i)]\<rparr>"
  by (simp add: setItem_def)

lemma map_update_same: "g (f (xs ! i)) = g (xs ! i) \<Longrightarrow> map g (xs[i := f (xs ! i)]) = map g xs"
  by (cases "i < length xs") (simp_all add: map_update list_update_beyond, metis list_update_id nth_map)

lemma sound_setItem:
  assumes "sound a I X q"
    and "\<And>it. it_ID (f it) = it_ID it" "\<And>it. it_RequestID (f it) = it_RequestID it"
    and "i < length (fq_Items q) \<Longrightarrow> it_State (f (fq_Items q ! i)) = Queued \<Longrightarrow> it_ID (fq_Items q ! i) \<notin> X"
  shows "sound a I X (q\<lparr>fq_Items := (fq_Items q)[i := f (fq_Items q ! i)]\<rparr>)"
proof -
  let ?its = "(fq_Items q)[i := f (fq_Items q ! i)]"
  have ids: "map it_ID ?its = map it_ID (fq_Items q)" "map it_RequestID ?its = map it_RequestID (fq_Items q)"
    using assms(2,3) by (simp_all add: map_update_same)
  have "it_ID ` set ?its = it_ID ` set (fq_Items q)" using ids(1) by (metis list.set_map)
  moreover have "it_ID it \<notin> X" if "it \<in> set ?its" "it_State it = Queued" for it
  proof (cases "i < length (fq_Items q)")
    case True
    then show ?thesis using that assms by (auto simp: sound_def dest!: set_update_subset_insert [THEN subsetD])
  next
    case False
    then show ?thesis using that assms(1) by (simp add: sound_def list_update_beyond)
  qed
  ultimately show ?thesis using assms(1) ids unfolding sound_def by auto
qed

lemma sound_attention:
  assumes "sound a I X (en_queue e)"
  shows "sound a I X (en_queue (attention reason e))"
proof -
  let ?f = "\<lambda>it :: Item. if it_ID it = fq_ActiveItemID (en_queue e) then it\<lparr>it_State := NeedsAttention, it_Error := reason\<rparr> else it"
  have "it_ID \<circ> ?f = it_ID" "it_RequestID \<circ> ?f = it_RequestID" by auto
  then show ?thesis using assms by (auto simp: sound_def attention_def)
qed

text \<open>An item that is no longer queued may be sent.\<close>

lemma sound_sent:
  assumes "sound a I X q" and "i < length (fq_Items q)" and "it_State (fq_Items q ! i) \<noteq> Queued"
  shows "sound a I (insert (it_ID (fq_Items q ! i)) X) q"
proof -
  have "it_ID it \<noteq> it_ID (fq_Items q ! i)" if "it \<in> set (fq_Items q)" "it_State it = Queued" for it
    using that assms by (auto simp: sound_def in_set_conv_nth distinct_conv_nth)
  then show ?thesis using assms(1) by (simp add: sound_def)
qed

section \<open>Methods that cannot send twice\<close>

text \<open>
  What a method of agent \<open>a\<close> may still do, when \<open>I\<close> are the issued identifiers, \<open>X\<close> the sent ones, and \<open>V\<close>
  holds every version of the agent's row. Before it sends an instruction, no version may have it
  queued: a daemon that dies right there must not find it so.
\<close>

primrec safe :: "queueProc \<Rightarrow> string \<Rightarrow> string set \<Rightarrow> string set \<Rightarrow> Queue set \<Rightarrow> bool" where
  "safe (Return er) a I X V = sound a I X (en_queue (fst er))"
| "safe (Observe b k) a I X V = (\<forall>r. safe (k r) a I X V)"
| "safe (Now k) a I X V = (\<forall>t. safe (k t) a I X V)"
| "safe (NewID k) a I X V = (\<forall>x. x \<notin> I \<longrightarrow> safe (k x) a (insert x I) X V)"
| "safe (Send b x ob txt k) a I X V = (b = a \<and> x \<in> I \<and> x \<notin> X \<and> (\<forall>q \<in> V. sound a I (insert x X) q) \<and>
     (\<forall>r. safe (k r) a I (if r = SendNotReady then X else insert x X) V))"
| "safe (SaveRow q k) a I X V = (sound a I X q \<and> (\<forall>errs. safe (k errs) a I X (if errs = [] then {q} else insert q V)))"
| "safe (AwaitAck tok q k) a I X V = False"
| "safe (PublishQ q p) a I X V = safe p a I X V"

lemma safe_mono: "safe p a I X V \<Longrightarrow> I \<subseteq> I' \<Longrightarrow> V' \<subseteq> V \<Longrightarrow> safe p a I' X V'"
proof (induction p arbitrary: I I' X V V')
  case (NewID k)
  have "safe (k x) a (insert x I') X V'" if "x \<notin> I'" for x
  proof (rule NewID.IH [OF rangeI])
    show "safe (k x) a (insert x I) X V" using that NewID.prems(1,2) by (simp add: subset_iff) blast
  qed (use NewID.prems(2,3) in auto)
  then show ?case by simp
next
  case (Send b x ob msg k)
  have "safe (k r) a I' Y V'" if "safe (k r) a I Y V" for r Y
    using that Send.prems(2,3) by (rule Send.IH [OF rangeI])
  then show ?case using Send.prems by (auto intro: sound_mono)
next
  case (SaveRow q k)
  have "safe (k errs) a I' X (if errs = [] then {q} else insert q V')" for errs
  proof (rule SaveRow.IH [OF rangeI])
    show "safe (k errs) a I X (if errs = [] then {q} else insert q V)" using SaveRow.prems(1) by simp
  qed (use SaveRow.prems(2,3) in auto)
  then show ?case using SaveRow.prems by (auto intro: sound_mono)
next
  case (Observe b k)
  then show ?case by (metis rangeI safe.simps(2))
next
  case (Now k)
  then show ?case by (metis rangeI safe.simps(3))
qed (auto intro: sound_mono)

text \<open>A save that fails leaves the old versions and the new; one that succeeds leaves the new one only.\<close>

abbreviation stamped :: "entry \<Rightarrow> entry \<Rightarrow> bool" where
  "stamped e e1 \<equiv> \<exists>t. en_queue e1 = (en_queue e)\<lparr>fq_UpdatedAt := t\<rparr>"

lemma sound_stamped: "stamped e e1 \<Longrightarrow> sound a I X (en_queue e1) = sound a I X (en_queue e)"
  by (auto simp: sound_def)

lemma safe_save:
  assumes "sound a I X (en_queue e)"
    and "\<And>e1 errs. stamped e e1 \<Longrightarrow> sound a I X (en_queue e1) \<Longrightarrow> errs \<noteq> [] \<Longrightarrow> safe (k e1 errs) a I X (insert (en_queue e1) V)"
    and "\<And>e1. stamped e e1 \<Longrightarrow> sound a I X (en_queue e1) \<Longrightarrow> safe (k e1 []) a I X (if fo_Repository opts then {en_queue e1} else V)"
  shows "safe (save opts e k) a I X V"
proof -
  have st: "stamped e (e\<lparr>en_queue := (en_queue e)\<lparr>fq_UpdatedAt := t\<rparr>, en_dirty := d\<rparr>)" for t d by auto
  have so: "sound a I X ((en_queue e)\<lparr>fq_UpdatedAt := t\<rparr>)" for t using assms(1) by (simp add: sound_def)
  show ?thesis using assms(2,3) [OF st] so by (auto simp: save_def Let_def split: if_splits)
qed

lemma safe_finish [simp]: "safe (finish e r) a I X V = sound a I X (en_queue e)"
  by (simp add: finish_def)

lemma safe_saveAndReturn: "sound a I X (en_queue e) \<Longrightarrow> safe (saveAndReturn opts e) a I X V"
  by (auto simp: saveAndReturn_def intro!: safe_save)

lemma safe_saveAndReply: "sound a I X (en_queue e) \<Longrightarrow> safe (saveAndReply opts e) a I X V"
  by (auto simp: saveAndReply_def refuse_def intro!: safe_save)

subsection \<open>Updates\<close>

lemma findIndex_Some: "findIndex P xs = Some i \<Longrightarrow> i < length xs \<and> P (xs ! i) \<and> (\<forall>j < i. \<not> P (xs ! j))"
  by (induction xs arbitrary: i) (fastforce simp: less_Suc_eq_0_disj split: if_splits)+

lemma findIndex_None: "findIndex P xs = None \<longleftrightarrow> (\<forall>x \<in> set xs. \<not> P x)"
  by (induction xs) auto

lemma sound_add:
  assumes "sound a I X q" and "x \<notin> I" and "X \<subseteq> I" and "it_ID it = x"
    and "it_RequestID it \<noteq> [] \<Longrightarrow> \<forall>old \<in> set (fq_Items q). it_RequestID old \<noteq> it_RequestID it"
  shows "sound a (insert x I) X (q\<lparr>fq_Items := fq_Items q @ [it]\<rparr>)"
  using assms by (fastforce simp: sound_def)

lemma safe_updateAdd:
  assumes "sound a I X (en_queue e)" and "X \<subseteq> I"
  shows "safe (updateAdd opts req e) a I X V"
proof (cases "findIndex (\<lambda>it. up_RequestID req \<noteq> [] \<and> it_RequestID it = up_RequestID req) (fq_Items (en_queue e))")
  case None
  have "sound a (insert x I) X ((en_queue e)\<lparr>fq_Items := fq_Items (en_queue e) @
      [\<lparr>it_ID = x, it_RequestID = up_RequestID req, it_Text = up_Text req, it_State = Queued, it_Error = [],
        it_CreatedAt = t, it_SentAt = 0\<rparr>]\<rparr>)" if "x \<notin> I" for x t
    using None assms that by (intro sound_add) (auto simp: findIndex_None)
  then show ?thesis using assms None
    by (auto simp: updateAdd_def addNew_def refuse_def intro!: safe_saveAndReply)
next
  case (Some i)
  then show ?thesis using assms by (simp add: updateAdd_def refuse_def safe_saveAndReply)
qed

lemma sound_settle:
  "sound a I X (en_queue e) \<Longrightarrow> st \<noteq> Queued \<Longrightarrow> sound a I X (en_queue (settle i st reason e))"
  using sound_setItem [of a I X "en_queue e" "\<lambda>it. it\<lparr>it_State := st, it_Error := []\<rparr>" i]
  by (simp add: settle_def) (simp add: sound_def)

lemma safe_updateItem:
  assumes "sound a I X (en_queue e)"
  shows "safe (updateItem opts req e) a I X V"
proof (cases "findIndex (\<lambda>it. it_ID it = up_ItemID req) (fq_Items (en_queue e))")
  case (Some i)
  let ?it = "fq_Items (en_queue e) ! i"
  have it: "i < length (fq_Items (en_queue e))" using findIndex_Some [OF Some] by simp
  have "it_ID ?it \<notin> X" if "it_State ?it = Queued" using assms it that by (simp add: sound_def)
  then have "sound a I X (en_queue (setItem i (\<lambda>it. it\<lparr>it_Text := up_Text req\<rparr>) e))"
    using sound_setItem [OF assms, of "\<lambda>it. it\<lparr>it_Text := up_Text req\<rparr>" i] by simp
  moreover have "sound a I X (en_queue (setItem i (\<lambda>it. it\<lparr>it_State := Canceled\<rparr>) e))"
    using sound_setItem [OF assms, of "\<lambda>it. it\<lparr>it_State := Canceled\<rparr>" i] by simp
  moreover note sound_settle [OF assms, of Sent i msgConfirmed] sound_settle [OF assms, of Canceled i msgExcluded]
  ultimately show ?thesis using Some assms
    by (simp add: updateItem_def refuse_def safe_saveAndReply Let_def del: setItem_sel)
qed (simp add: updateItem_def refuse_def assms)

lemma safe_updateEntry:
  assumes "sound a I X (en_queue e)" and "X \<subseteq> I"
  shows "safe (updateEntry opts req e) a I X V"
proof -
  have "sound a I X ((en_queue e)\<lparr>fq_Paused := True\<rparr>)" "sound a I X ((en_queue e)\<lparr>fq_Paused := False, fq_Reason := []\<rparr>)"
    using assms(1) by (simp_all add: sound_def)
  then show ?thesis using assms
    by (simp add: updateEntry_def safe_updateAdd safe_updateItem refuse_def safe_saveAndReply)
qed

lemma safe_recoverEntry:
  assumes "sound a I X q"
  shows "safe (recoverEntry opts q) a I X V"
proof -
  have "sound a I X (en_queue (newEntry q))" using assms by (simp add: newEntry_def)
  then show ?thesis by (auto simp: recoverEntry_def sound_attention intro!: safe_save)
qed

subsection \<open>Delivery\<close>

text \<open>The item at position \<open>i\<close> is claimed: not queued, here or in any version of the row, and not sent yet.\<close>

definition claimed :: "string \<Rightarrow> string set \<Rightarrow> string set \<Rightarrow> Queue set \<Rightarrow> nat \<Rightarrow> Queue \<Rightarrow> bool" where
  "claimed a I X V i q \<longleftrightarrow> sound a I X q \<and> i < length (fq_Items q) \<and> it_State (fq_Items q ! i) \<noteq> Queued \<and>
     it_ID (fq_Items q ! i) \<notin> X \<and> (\<forall>v \<in> V. sound a I (insert (it_ID (fq_Items q ! i)) X) v)"

lemma safe_holdBack:
  assumes "claimed a I X V i (en_queue e)"
  shows "safe (holdBack opts i e) a I X V'"
proof -
  have "sound a I X (en_queue (setItem i (\<lambda>it. it\<lparr>it_State := Queued\<rparr>) e))"
    using sound_setItem [of a I X "en_queue e" "\<lambda>it. it\<lparr>it_State := Queued\<rparr>" i] assms by (simp add: claimed_def)
  then show ?thesis unfolding holdBack_def by (intro safe_saveAndReturn) (simp add: sound_def)
qed

lemma safe_delivered:
  assumes "sound a I X (en_queue e)"
  shows "safe (delivered opts i e) a I X V"
proof -
  have "sound a I X (en_queue (setQueue (\<lambda>q. q\<lparr>fq_Phase := AwaitingWork, fq_Reason := msgDelivered\<rparr>)
         (setItem i (\<lambda>it. it\<lparr>it_State := Sent, it_SentAt := t\<rparr>) e)))" for t
    using sound_setItem [OF assms, of "\<lambda>it. it\<lparr>it_State := Sent, it_SentAt := t\<rparr>" i] by (simp add: sound_def)
  then show ?thesis by (auto simp: delivered_def sound_attention intro!: safe_save)
qed

lemma safe_deliver_item:
  assumes "claimed a I X V i (en_queue e)"
  shows "safe (deliver_item opts i ob e) a I X V"
proof -
  let ?e = "\<lambda>t. setQueue (\<lambda>q. q\<lparr>fq_AttemptedAt := t\<rparr>) e"
  let ?x = "it_ID (fq_Items (en_queue e) ! i)"
  have c: "claimed a I X V i (en_queue (?e t))" for t using assms by (simp add: claimed_def sound_def)
  have s: "sound a I (insert ?x X) (en_queue (?e t))" for t
    using sound_sent [of a I X "en_queue (?e t)" i] c [of t] by (simp add: claimed_def)
  have "?x \<in> I" "fq_AgentID (en_queue e) = a" "?x \<notin> X" "\<forall>v \<in> V. sound a I (insert ?x X) v"
    using assms by (auto simp: claimed_def sound_def)
  then show ?thesis using s c
    by (auto simp: deliver_item_def Let_def split: send_result.split
        intro!: safe_holdBack safe_delivered safe_saveAndReturn sound_attention)
qed

lemma safe_recheck:
  assumes "claimed a I X V i (en_queue e)"
  shows "safe (recheck opts i ob e) a I X V"
  using assms by (auto simp: recheck_def split: sum.split intro: safe_holdBack safe_deliver_item)

lemma claimed_claim:
  assumes "sound a I X (en_queue e)" and "findIndex (\<lambda>it. it_State it = Queued) (fq_Items (en_queue e)) = Some i"
  shows "claimed a I X {} i (en_queue (claim i t ob e))"
    "sound a I (insert (it_ID (fq_Items (en_queue e) ! i)) X) (en_queue (claim i t ob e))"
proof -
  have i: "i < length (fq_Items (en_queue e))" "it_State (fq_Items (en_queue e) ! i) = Queued"
    using findIndex_Some [OF assms(2)] by auto
  then have x: "it_ID (fq_Items (en_queue e) ! i) \<notin> X" using assms(1) by (auto simp: sound_def)
  have s: "sound a I X (en_queue (claim i t ob e))"
    using sound_setItem [OF assms(1), of "\<lambda>it. it\<lparr>it_State := Sending\<rparr>" i] by (simp add: claim_def sound_def)
  then show "claimed a I X {} i (en_queue (claim i t ob e))" using i x by (simp add: claimed_def claim_def)
  show "sound a I (insert (it_ID (fq_Items (en_queue e) ! i)) X) (en_queue (claim i t ob e))"
    using sound_sent [OF s, of i] i by (simp add: claim_def)
qed

text \<open>With a repository the claim is what the row holds when the instruction is sent.\<close>

lemma safe_dispatch:
  assumes "sound a I X (en_queue e)" and "fo_Repository opts"
  shows "safe (dispatch opts ob e) a I X V"
proof -
  have r: "sound a I X ((en_queue e)\<lparr>fq_Reason := m\<rparr>)" for m using assms(1) by (simp add: sound_def)
  have "safe (save opts (claim i t ob e) (\<lambda>e1 errs.
      if errs \<noteq> [] then finish ((attention (msgClaimUnsaved @ fo_errorText opts errs) e1)\<lparr>en_dirty := True\<rparr>) StepDone
      else recheck opts i ob e1)) a I X V"
    if f: "findIndex (\<lambda>it. it_State it = Queued) (fq_Items (en_queue e)) = Some i" for i t
  proof (rule safe_save)
    note c = claimed_claim [OF assms(1) f, of t ob]
    show "sound a I X (en_queue (claim i t ob e))" using c(1) by (simp add: claimed_def)
    fix e1 assume st: "stamped (claim i t ob e) e1"
    have "claimed a I X (if fo_Repository opts then {en_queue e1} else V) i (en_queue e1)"
      using c st assms(2) unfolding claimed_def claim_def by (auto simp: sound_def)
    then show "safe (if [] \<noteq> [] then finish ((attention (msgClaimUnsaved @ fo_errorText opts []) e1)\<lparr>en_dirty := True\<rparr>) StepDone
      else recheck opts i ob e1) a I X (if fo_Repository opts then {en_queue e1} else V)"
      by (simp add: safe_recheck)
  qed (simp add: sound_attention)
  then show ?thesis using assms(1) r by (auto simp: dispatch_def split: option.split)
qed

lemma safe_finishActive:
  assumes "sound a I X (en_queue e)" and "fo_Repository opts"
  shows "safe (finishActive opts ob e) a I X V"
proof -
  have "sound a I X (en_queue (setQueue (\<lambda>q. q\<lparr>fq_ActiveItemID := [], fq_Phase := Ready, fq_Reason := []\<rparr>) e))"
    using assms(1) by (simp add: sound_def)
  then show ?thesis using assms by (auto simp: finishActive_def intro!: safe_save safe_dispatch)
qed

lemma safe_checkTimeout:
  assumes "sound a I X (en_queue e)" and "fo_Repository opts"
  shows "safe (checkTimeout opts ob e) a I X V"
  using assms by (auto simp: checkTimeout_def intro: safe_finishActive safe_saveAndReturn sound_attention)

lemma safe_stepActive:
  assumes "sound a I X (en_queue e)" and "fo_Repository opts"
  shows "safe (stepActive opts ob e) a I X V"
proof -
  have "sound a I X (en_queue (setQueue (\<lambda>q. q\<lparr>fq_Phase := Working\<rparr>) e))" using assms(1) by (simp add: sound_def)
  then show ?thesis using assms
    by (auto simp: stepActive_def Let_def intro!: safe_save safe_checkTimeout safe_saveAndReturn sound_attention)
qed

lemma safe_targetLost:
  assumes "sound a I X (en_queue e)"
  shows "safe (targetLost opts e) a I X V"
proof -
  have "sound a I X (en_queue (setQueue (\<lambda>q. q\<lparr>fq_Reason := msgUnreachable\<rparr>) e))" using assms by (simp add: sound_def)
  then show ?thesis by (simp add: targetLost_def Let_def safe_saveAndReturn sound_attention)
qed

lemma safe_stepObserve:
  assumes "sound a I X (en_queue e)" and "fo_Repository opts"
  shows "safe (stepObserve opts e) a I X V"
  using assms by (auto simp: stepObserve_def Let_def safe_targetLost safe_stepActive safe_dispatch split: sum.split)

lemma safe_stepEntry:
  assumes "sound a I X (en_queue e)" and "fo_Repository opts"
  shows "safe (stepEntry opts e) a I X V"
proof -
  have "safe (save opts e (\<lambda>e1 errs. if errs \<noteq> [] then finish e1 StepDone else stepObserve opts e1)) a I X V"
    using assms by (intro safe_save) (auto simp: safe_stepObserve)
  then show ?thesis using assms by (simp add: stepEntry_def safe_stepObserve)
qed

subsection \<open>What a method may send and return\<close>

primrec attempts :: "'r proc \<Rightarrow> (string \<times> string \<times> string) set" where
  "attempts (Return r) = {}"
| "attempts (Observe b k) = (\<Union>r. attempts (k r))"
| "attempts (Now k) = (\<Union>t. attempts (k t))"
| "attempts (NewID k) = (\<Union>x. attempts (k x))"
| "attempts (Send b x ob msg k) = insert (b, x, msg) (\<Union>r. attempts (k r))"
| "attempts (SaveRow q k) = (\<Union>errs. attempts (k errs))"
| "attempts (AwaitAck tok q k) = (\<Union>errs. attempts (k errs))"
| "attempts (PublishQ q p) = attempts p"

lemma attempts_save: "attempts (save opts e k) \<subseteq> (\<Union>e1 errs. attempts (k e1 errs))"
  by (fastforce simp: save_def Let_def split: if_splits)

lemma attempts_recoverEntry [simp]: "attempts (recoverEntry opts q) = {}"
  using attempts_save [of opts "attention msgRestarted (newEntry q)" "\<lambda>e errs. Return (e, Recovered errs)"]
  by (simp add: recoverEntry_def)

lemma attempts_enqueueSave:
  "enqueueSave c q k s = (p', s') \<Longrightarrow> attempts p' \<subseteq> attempts (SaveRow q k)"
  by (auto simp: enqueueSave_def split: sum.splits)

lemma attempts_perform: "perform ans p s = (p', s') \<Longrightarrow> attempts p' \<subseteq> attempts p"
proof (cases p)
  case (SaveRow q k)
  then show "perform ans p s = (p', s') \<Longrightarrow> ?thesis"
    using attempts_enqueueSave [of _ q k s p' s'] by (auto simp del: attempts.simps split: answer.splits)
qed (auto split: answer.splits option.splits)

section \<open>The daemon cannot send twice\<close>

abbreviation issued :: "Daemon \<Rightarrow> string set" where
  "issued s \<equiv> set (ds_ids s)"

definition sentBy :: "string \<Rightarrow> Daemon \<Rightarrow> string set" where
  "sentBy a s = {x. (a, x) \<in> set (ds_sent s)}"

text \<open>A method that runs, or one that waits for the acknowledgement of a save.\<close>

definition running_ok :: "string \<Rightarrow> queueProc \<Rightarrow> Daemon \<Rightarrow> bool" where
  "running_ok a p s \<longleftrightarrow> (\<exists>V. versions a (ds_writer s) \<subseteq> V \<and> safe p a (issued s) (sentBy a s) V)"

definition waiting_ok :: "string \<Rightarrow> nat \<Rightarrow> Queue \<Rightarrow> (persist_error list \<Rightarrow> queueProc) \<Rightarrow> Daemon \<Rightarrow> bool" where
  "waiting_ok a tok q k s \<longleftrightarrow> tok < ds_tokens s \<and> awaits a tok q (ds_writer s) \<and>
     (\<exists>V. versions a (ds_writer s) \<subseteq> V \<and> (\<forall>errs. safe (k errs) a (issued s) (sentBy a s) (if errs = [] then {q} else V)))"

fun method_ok :: "string \<Rightarrow> queueProc \<Rightarrow> Daemon \<Rightarrow> bool" where
  "method_ok a (AwaitAck tok q k) s = waiting_ok a tok q k s"
| "method_ok a p s = running_ok a p s"

definition activity_ok :: "string \<Rightarrow> activity \<Rightarrow> Daemon \<Rightarrow> bool" where
  "activity_ok a act s = (case act of Idle e \<Rightarrow> sound a (issued s) (sentBy a s) (en_queue e) | Busy p \<Rightarrow> method_ok a p s)"

definition rows_ok :: "Daemon \<Rightarrow> bool" where
  "rows_ok s \<longleftrightarrow> (\<forall>a. \<forall>q \<in> versions a (ds_writer s). sound a (issued s) (sentBy a s) q) \<and>
     tokens_below (ds_tokens s) (ds_writer s)"

definition loading_ok :: "Daemon \<Rightarrow> bool" where
  "loading_ok s \<longleftrightarrow> (ds_phase s = Down \<longrightarrow> ds_slots s = []) \<and> (\<forall>qs. ds_phase s = Loading qs \<longrightarrow>
     (\<forall>q \<in> set qs. sound (fq_AgentID q) (issued s) (sentBy (fq_AgentID q) s) q) \<and>
     (\<forall>a sl p. mget (ds_slots s) a = Some sl \<and> sl_activity sl = Busy p \<longrightarrow> attempts p = {}))"

definition sent_ok :: "Daemon \<Rightarrow> bool" where
  "sent_ok s \<longleftrightarrow> distinct (ds_sent s) \<and> snd ` set (ds_sent s) \<subseteq> issued s"

definition slots_ok :: "Daemon \<Rightarrow> bool" where
  "slots_ok s \<longleftrightarrow> (\<forall>a sl. mget (ds_slots s) a = Some sl \<longrightarrow> activity_ok a (sl_activity sl) s)"

definition daemon_ok :: "Daemon \<Rightarrow> bool" where
  "daemon_ok s \<longleftrightarrow> rows_ok s \<and> slots_ok s \<and> loading_ok s \<and> sent_ok s"

lemma sentBy_issued: "sent_ok s \<Longrightarrow> sentBy a s \<subseteq> issued s"
  by (force simp: sent_ok_def sentBy_def)

text \<open>Writer steps that keep or drop versions.\<close>

definition writer_step :: "Data Writer \<Rightarrow> Data Writer \<Rightarrow> bool" where
  "writer_step w w' \<longleftrightarrow> (\<forall>a. versions a w' \<subseteq> versions a w) \<and> (\<forall>n. tokens_below n w \<longrightarrow> tokens_below n w') \<and>
     (\<forall>a tok q. awaits a tok q w \<longrightarrow> awaits a tok q w')"

text \<open>What a queue sees of the steps of the others.\<close>

definition kept :: "string \<Rightarrow> Daemon \<Rightarrow> Daemon \<Rightarrow> bool" where
  "kept b s s' \<longleftrightarrow> issued s \<subseteq> issued s' \<and> sentBy b s' = sentBy b s \<and> versions b (ds_writer s') \<subseteq> versions b (ds_writer s) \<and>
     ds_tokens s \<le> ds_tokens s' \<and>
     (\<forall>tok q. tok < ds_tokens s \<longrightarrow> awaits b tok q (ds_writer s) \<longrightarrow> awaits b tok q (ds_writer s'))"

lemma kept_refl [simp]: "kept b s s"
  by (simp add: kept_def)

lemma running_ok_kept:
  assumes "running_ok b p s" and "kept b s s'"
  shows "running_ok b p s'"
proof -
  from assms obtain V where "versions b (ds_writer s) \<subseteq> V" "safe p b (issued s) (sentBy b s) V" by (auto simp: running_ok_def)
  then have "versions b (ds_writer s') \<subseteq> V" "safe p b (issued s') (sentBy b s') V"
    using assms(2) by (auto simp: kept_def intro: safe_mono)
  then show ?thesis by (auto simp: running_ok_def)
qed

lemma waiting_ok_kept:
  assumes "waiting_ok b tok q k s" and "kept b s s'"
  shows "waiting_ok b tok q k s'"
proof -
  from assms(1) obtain V where V: "versions b (ds_writer s) \<subseteq> V"
    and s: "\<And>errs. safe (k errs) b (issued s) (sentBy b s) (if errs = [] then {q} else V)" by (auto simp: waiting_ok_def)
  have "safe (k errs) b (issued s') (sentBy b s') (if errs = [] then {q} else V)" for errs
    using safe_mono [OF s, of "issued s'"] assms(2) by (simp add: kept_def)
  moreover have "versions b (ds_writer s') \<subseteq> V" using V assms(2) by (auto simp: kept_def)
  moreover have "tok < ds_tokens s'" "awaits b tok q (ds_writer s')" using assms by (auto simp: waiting_ok_def kept_def)
  ultimately show ?thesis unfolding waiting_ok_def by blast
qed

lemma method_ok_kept: "method_ok b p s \<Longrightarrow> kept b s s' \<Longrightarrow> method_ok b p s'"
  by (cases p) (simp_all add: running_ok_kept waiting_ok_kept)

lemma activity_ok_kept: "activity_ok b act s \<Longrightarrow> kept b s s' \<Longrightarrow> activity_ok b act s'"
  by (auto simp: activity_ok_def intro: method_ok_kept split: activity.splits) (auto simp: kept_def intro: sound_mono)

lemma method_okI: "versions a (ds_writer s) \<subseteq> V \<Longrightarrow> safe p a (issued s) (sentBy a s) V \<Longrightarrow> method_ok a p s"
  by (cases p) (auto simp: running_ok_def simp del: safe.simps(1-6,8))

lemma kept_writer: "writer_step (ds_writer s) w \<Longrightarrow> kept b s (s\<lparr>ds_writer := w\<rparr>)"
  by (simp add: kept_def writer_step_def sentBy_def)

lemma daemon_ok_writer:
  assumes "daemon_ok s" and "writer_step (ds_writer s) w"
  shows "daemon_ok (s\<lparr>ds_writer := w\<rparr>)"
proof -
  have "rows_ok (s\<lparr>ds_writer := w\<rparr>)"
    using assms unfolding daemon_ok_def rows_ok_def writer_step_def by (auto simp: sentBy_def)
  moreover have "slots_ok (s\<lparr>ds_writer := w\<rparr>)"
    using assms activity_ok_kept [OF _ kept_writer [OF assms(2)]] by (simp add: daemon_ok_def slots_ok_def)
  ultimately show ?thesis using assms by (simp add: daemon_ok_def loading_ok_def sent_ok_def sentBy_def)
qed

lemma writer_step_pass: "writer_step w (run_iter st w)"
  by (simp add: writer_step_def versions_pass tokens_below_pass awaits_pass)

lemma writer_step_same:
  assumes eqs: "in_flight w' = in_flight w" "w_db w' = w_db w" "w_acks w' = w_acks w"
  shows "writer_step w w'"
proof -
  have "versions a w' = versions a w" "tokens_below n w' = tokens_below n w" "awaits a tok q w' = awaits a tok q w" for a n tok q
    unfolding versions_def tokens_below_def awaits_def eqs by (rule HOL.refl)+
  then show ?thesis by (simp add: writer_step_def)
qed

lemma writer_step_flags: "writer_step w (CloseWriter w)" "writer_step w (CancelWriter w)"
  by (simp_all add: writer_step_same CloseWriter_def CancelWriter_def in_flight_def)

lemma writer_step_others: "writer_step w (Enqueue (filter (\<lambda>c. c_Table c \<noteq> Followups) cs) w)"
proof (cases "w_closing w")
  case True
  then show ?thesis by (intro writer_step_same) (simp_all add: Enqueue_def in_flight_def)
next
  case False
  let ?w = "Enqueue (filter (\<lambda>c. c_Table c \<noteq> Followups) cs) w"
  let ?cs = "map (\<lambda>c. \<lparr>q_Change = c, q_committed = None\<rparr>) (filter (\<lambda>c. c_Table c \<noteq> Followups) cs)"
  have ap: "appended ?cs w ?w" using False by (simp add: appended_def Enqueue_def in_flight_def)
  have no: "\<forall>c \<in> set ?cs. \<not> touches Followups a (q_Change c) \<and> q_committed c \<noteq> Some tok" for a tok
    by (auto simp: touches_def)
  show ?thesis unfolding writer_step_def
  proof (intro conjI allI impI)
    show "versions a ?w \<subseteq> versions a w" for a using appended_versions_other [OF ap] no by blast
    show "tokens_below n ?w" if "tokens_below n w" for n using ap that by (auto simp: appended_def tokens_below_def)
    show "awaits a tok q ?w" if "awaits a tok q w" for a tok q using appended_awaits_other [OF that ap] no by blast
  qed
qed

lemma perform_cases:
  assumes "perform ans p s = (p', s')"
  obtains (same) "p' = p" "s' = s"
  | (observe) b k r where "p = Observe b k" "p' = k r" "s' = s"
  | (time) k t where "p = Now k" "p' = k t" "s' = s"
  | (new) k x where "p = NewID k" "p' = k x" "s' = s\<lparr>ds_ids := ds_ids s @ [x]\<rparr>"
  | (refused) b x ob msg k where "p = Send b x ob msg k" "p' = k SendNotReady" "s' = s"
  | (tried) b x ob msg k r where "p = Send b x ob msg k" "r \<noteq> SendNotReady" "p' = k r" "s' = s\<lparr>ds_sent := ds_sent s @ [(b, x)]\<rparr>"
  | (unsaved) q k err where "p = SaveRow q k" "p' = k [err]" "s' = s"
  | (enqueued) q k w where "p = SaveRow q k" "p' = AwaitAck (ds_tokens s) q k"
      "appended [\<lparr>q_Change = followupChange q, q_committed = Some (ds_tokens s)\<rparr>] (ds_writer s) w"
      "s' = s\<lparr>ds_writer := w, ds_tokens := Suc (ds_tokens s)\<rparr>"
  | (acked) tok q k errs where "p = AwaitAck tok q k" "mget (w_acks (ds_writer s)) tok = Some errs" "p' = k errs" "s' = s"
  | (ended) tok q k where "p = AwaitAck tok q k" "p' = k [ErrContext]" "s' = s"
proof (cases p)
  case (Observe b k)
  then show thesis using assms same observe [of b k] by (auto split: answer.splits)
next
  case (Now k)
  then show thesis using assms same time [of k] by (auto split: answer.splits)
next
  case (NewID k)
  then show thesis using assms same new [of k] by (auto split: answer.splits)
next
  case (Send b x ob msg k)
  then show thesis using assms same refused [of b x ob msg k] tried [of b x ob msg k] by (auto split: answer.splits if_splits)
next
  case (SaveRow q k)
  have enq: thesis if "enqueueSave c q k s = (p', s')" for c
  proof (cases "EnqueueAndWait c (followupChange q) (ds_tokens s) (ds_writer s)")
    case (Inl err)
    then show thesis using that SaveRow by (intro unsaved [of q k err]) (auto simp: enqueueSave_def)
  next
    case (Inr w)
    then have "p' = AwaitAck (ds_tokens s) q k" "s' = s\<lparr>ds_writer := w, ds_tokens := Suc (ds_tokens s)\<rparr>"
      using that by (simp_all add: enqueueSave_def)
    then show thesis using enqueued SaveRow appended_EnqueueAndWait [OF Inr] by metis
  qed
  show thesis
  proof (cases ans)
    case (Context c)
    then show thesis using enq [of c] assms SaveRow by simp
  qed (rule same; use assms SaveRow in simp)+
next
  case (AwaitAck tok q k)
  show thesis
  proof (cases ans)
    case Acked
    show thesis
    proof (cases "mget (w_acks (ds_writer s)) tok")
      case None
      then show thesis using assms AwaitAck Acked by (intro same) auto
    next
      case (Some errs)
      then show thesis using assms AwaitAck Acked by (intro acked [of tok q k errs]) auto
    qed
  next
    case ContextEnded
    then show thesis using assms AwaitAck by (intro ended [of tok q k]) auto
  qed (rule same; use assms AwaitAck in simp)+
qed (use assms same in auto)

text \<open>One call of a method, for the method itself, the rows and the other queues.\<close>

definition performs_ok :: "string \<Rightarrow> queueProc \<Rightarrow> Daemon \<Rightarrow> Daemon \<Rightarrow> bool" where
  "performs_ok a p' s s' \<longleftrightarrow> method_ok a p' s' \<and> rows_ok s' \<and> sent_ok s' \<and> issued s \<subseteq> issued s' \<and> (\<forall>b. b \<noteq> a \<longrightarrow> kept b s s')"

lemma performs_ok_quiet:
  assumes "rows_ok s" "sent_ok s" "method_ok a p' s"
  shows "performs_ok a p' s s"
  using assms by (simp add: performs_ok_def)

lemma running_next:
  assumes "running_ok a p s" and "\<And>V. safe p a (issued s) (sentBy a s) V \<Longrightarrow> safe p' a (issued s) (sentBy a s) V"
  shows "method_ok a p' s"
  using assms method_okI unfolding running_ok_def by metis

lemma sentBy_update [simp]:
  "sentBy a (s\<lparr>ds_sent := ds_sent s @ [(b, x)]\<rparr>) = (if a = b then insert x (sentBy a s) else sentBy a s)"
  "sentBy a (s\<lparr>ds_ids := xs\<rparr>) = sentBy a s" "sentBy a (s\<lparr>ds_writer := w\<rparr>) = sentBy a s"
  "sentBy a (s\<lparr>ds_tokens := n\<rparr>) = sentBy a s" "sentBy a (s\<lparr>ds_slots := m\<rparr>) = sentBy a s" "sentBy a (s\<lparr>ds_phase := ph\<rparr>) = sentBy a s"
  by (auto simp: sentBy_def)

lemma performs_ok_new:
  assumes rows: "rows_ok s" and sent: "sent_ok s" and p: "running_ok a (NewID k) s" and x: "x \<notin> issued s"
  shows "performs_ok a (k x) s (s\<lparr>ds_ids := ds_ids s @ [x]\<rparr>)" (is "performs_ok _ _ _ ?s")
proof -
  from p x obtain V where "versions a (ds_writer s) \<subseteq> V" "safe (k x) a (insert x (issued s)) (sentBy a s) V"
    by (auto simp: running_ok_def)
  then have "method_ok a (k x) ?s" by (intro method_okI) simp_all
  moreover have "rows_ok ?s"
    using rows by (simp add: rows_ok_def) (blast intro: sound_mono)
  ultimately show ?thesis using sent by (auto simp: performs_ok_def sent_ok_def kept_def)
qed

lemma performs_ok_tried:
  assumes rows: "rows_ok s" and sent: "sent_ok s" and p: "running_ok a (Send b x ob msg k) s" and r: "r \<noteq> SendNotReady"
  shows "performs_ok a (k r) s (s\<lparr>ds_sent := ds_sent s @ [(b, x)]\<rparr>)" (is "performs_ok _ _ _ ?s")
proof -
  from p r obtain V where V: "versions a (ds_writer s) \<subseteq> V" "b = a" "x \<in> issued s" "x \<notin> sentBy a s"
    "\<forall>q \<in> V. sound a (issued s) (insert x (sentBy a s)) q" "safe (k r) a (issued s) (insert x (sentBy a s)) V"
    by (auto simp: running_ok_def split: if_splits)
  then have "method_ok a (k r) ?s" by (intro method_okI) simp_all
  moreover have "rows_ok ?s" using rows V unfolding rows_ok_def by auto
  moreover have "sent_ok ?s" using sent V(2,3,4) by (auto simp: sent_ok_def sentBy_def)
  ultimately show ?thesis using V(2) by (simp add: performs_ok_def kept_def)
qed

lemma performs_ok_enqueued:
  assumes rows: "rows_ok s" and sent: "sent_ok s" and p: "running_ok a (SaveRow q k) s"
    and ap: "appended [\<lparr>q_Change = followupChange q, q_committed = Some (ds_tokens s)\<rparr>] (ds_writer s) w"
  shows "performs_ok a (AwaitAck (ds_tokens s) q k) s (s\<lparr>ds_writer := w, ds_tokens := Suc (ds_tokens s)\<rparr>)"
    (is "performs_ok _ _ _ ?s")
proof -
  from p obtain V where V: "versions a (ds_writer s) \<subseteq> V" "sound a (issued s) (sentBy a s) q"
    "\<And>errs. safe (k errs) a (issued s) (sentBy a s) (if errs = [] then {q} else insert q V)"
    unfolding running_ok_def safe.simps by auto
  have a: "fq_AgentID q = a" using V(2) by (simp add: sound_def)
  have own: "versions a w = insert q (versions a (ds_writer s))" using appended_versions_own [OF ap] a by simp
  have other: "versions b w = versions b (ds_writer s)" if "b \<noteq> a" for b
    using appended_versions_other [OF ap] that a by simp
  have tb: "tokens_below (ds_tokens s) (ds_writer s)" using rows by (simp add: rows_ok_def)
  have aw: "awaits a (ds_tokens s) q w" using appended_awaits_own [OF tb ap] a by simp
  have "waiting_ok a (ds_tokens s) q k ?s"
    unfolding waiting_ok_def using aw V(1,3) own by (intro conjI exI [of _ "insert q V"] allI) auto
  moreover have "rows_ok ?s"
    unfolding rows_ok_def
  proof (intro conjI allI ballI impI)
    fix b v assume "v \<in> versions b (ds_writer ?s)"
    then show "sound b (issued ?s) (sentBy b ?s) v"
      using rows V(2) own other unfolding rows_ok_def by (cases "b = a") auto
  next
    show "tokens_below (ds_tokens ?s) (ds_writer ?s)" using tb ap by (auto simp: tokens_below_def appended_def less_Suc_eq)
  qed
  moreover have "kept b s ?s" if b: "b \<noteq> a" for b
  proof -
    have "awaits b tok v w" if "tok < ds_tokens s" "awaits b tok v (ds_writer s)" for tok v
      using appended_awaits_other [OF that(2) ap] that(1) b a by simp
    then show ?thesis using other [OF b] by (simp add: kept_def)
  qed
  ultimately show ?thesis using sent by (simp add: performs_ok_def sent_ok_def)
qed

lemma performs_ok_acked:
  assumes rows: "rows_ok s" and sent: "sent_ok s" and p: "waiting_ok a tok q k s"
    and ack: "errs = [] \<Longrightarrow> mget (w_acks (ds_writer s)) tok = Some []"
  shows "performs_ok a (k errs) s s"
proof -
  from p obtain V where V: "versions a (ds_writer s) \<subseteq> V" "safe (k errs) a (issued s) (sentBy a s) (if errs = [] then {q} else V)"
    by (auto simp: waiting_ok_def)
  have "versions a (ds_writer s) \<subseteq> {q}" if "errs = []"
    using map_of_SomeD [OF ack [OF that]] p by (simp add: waiting_ok_def awaits_def)
  then have "method_ok a (k errs) s" using V by (intro method_okI [OF _ V(2)]) simp
  then show ?thesis using rows sent by (rule performs_ok_quiet [rotated 2])
qed

lemma perform_ok:
  assumes rows: "rows_ok s" and sent: "sent_ok s" and p: "method_ok a p s"
    and pf: "perform ans p s = (p', s')" and ids: "distinct (ds_ids s')"
  shows "performs_ok a p' s s'"
  using pf
proof (cases rule: perform_cases)
  case same
  then show ?thesis using rows sent p by (simp add: performs_ok_quiet)
next
  case (observe b k r)
  then have "method_ok a p' s" using p by (intro running_next [of a p]) auto
  then show ?thesis using observe rows sent by (simp add: performs_ok_quiet)
next
  case (time k t)
  then have "method_ok a p' s" using p by (intro running_next [of a p]) auto
  then show ?thesis using time rows sent by (simp add: performs_ok_quiet)
next
  case (new k x)
  then show ?thesis using performs_ok_new [OF rows sent, of a k x] p ids by simp
next
  case (refused b x ob msg k)
  then have "method_ok a p' s" using p by (intro running_next [of a p]) (auto split: if_splits)
  then show ?thesis using refused rows sent by (simp add: performs_ok_quiet)
next
  case (tried b x ob msg k r)
  then show ?thesis using performs_ok_tried [OF rows sent, of a b x ob msg k r] p by simp
next
  case (unsaved q k err)
  have "safe p' a (issued s) (sentBy a s) V" if "safe p a (issued s) (sentBy a s) V" for V
    by (rule safe_mono [where V = "insert q V", OF _ subset_refl])
      (use that unsaved in \<open>auto dest!: spec [of _ "[err]"]\<close>)
  then have "method_ok a p' s" using p unsaved by (intro running_next [of a p]) auto
  then show ?thesis using unsaved rows sent by (simp add: performs_ok_quiet)
next
  case (enqueued q k w)
  then show ?thesis using performs_ok_enqueued [OF rows sent, of a q k w] p by simp
next
  case (acked tok q k errs)
  then show ?thesis using performs_ok_acked [OF rows sent, of a tok q k errs] p by simp
next
  case (ended tok q k)
  then show ?thesis using performs_ok_acked [OF rows sent, of a tok q k "[ErrContext]"] p by simp
qed

lemma method_ok_slots [simp]: "method_ok a p (s\<lparr>ds_slots := m\<rparr>) = method_ok a p s" "method_ok a p (s\<lparr>ds_phase := ph\<rparr>) = method_ok a p s"
  by (cases p; simp add: running_ok_def waiting_ok_def)+

lemma activity_ok_slots [simp]:
  "activity_ok a act (s\<lparr>ds_slots := m\<rparr>) = activity_ok a act s" "activity_ok a act (s\<lparr>ds_phase := ph\<rparr>) = activity_ok a act s"
  by (simp_all add: activity_ok_def split: activity.split)

text \<open>A queue's own slot changes, the others see what they must.\<close>

lemma daemon_ok_setSlot:
  assumes ok: "daemon_ok s" and rows: "rows_ok s'" and sent: "sent_ok s'" and act: "activity_ok a (sl_activity sl) s'"
    and kept: "\<And>b. b \<noteq> a \<Longrightarrow> kept b s s'" and same: "ds_slots s' = ds_slots s" and load: "loading_ok (setSlot a sl s')"
  shows "daemon_ok (setSlot a sl s')"
proof -
  have others: "activity_ok b (sl_activity old) s'" if "b \<noteq> a" "mget (ds_slots s) b = Some old" for b old
    using ok that by (intro activity_ok_kept [OF _ kept]) (auto simp: daemon_ok_def slots_ok_def)
  then have "slots_ok (setSlot a sl s')"
    using act same by (simp add: slots_ok_def setSlot_def)
  then show ?thesis using rows sent load
    by (simp add: daemon_ok_def rows_ok_def sent_ok_def setSlot_def)
qed

lemma daemon_ok_kill:
  assumes "daemon_ok s"
  shows "daemon_ok (kill s)"
proof -
  have "versions a (OpenWriter (w_db (ds_writer s))) \<subseteq> versions a (ds_writer s)" for a by (rule versions_open)
  then show ?thesis using assms
    by (auto simp: kill_def daemon_ok_def rows_ok_def slots_ok_def loading_ok_def sent_ok_def tokens_below_def
        OpenWriter_def in_flight_def sentBy_def)
qed

lemma daemon_ok_slot_only:
  assumes ok: "daemon_ok s" and act: "activity_ok a (sl_activity sl) s"
    and up: "ds_phase s \<noteq> Down" and quiet: "\<And>p. sl_activity sl = Busy p \<Longrightarrow> \<exists>qs. ds_phase s = Loading qs \<Longrightarrow> attempts p = {}"
  shows "daemon_ok (setSlot a sl s)"
proof (rule daemon_ok_setSlot [OF ok])
  show "loading_ok (setSlot a sl s)"
    using ok up quiet by (auto simp: daemon_ok_def loading_ok_def setSlot_def)
qed (use ok act in \<open>auto simp: daemon_ok_def\<close>)

lemma perform_frame:
  assumes "perform ans p s = (p', s')"
  shows "ds_slots s' = ds_slots s \<and> ds_phase s' = ds_phase s \<and> issued s \<subseteq> issued s' \<and> (attempts p = {} \<longrightarrow> ds_sent s' = ds_sent s)"
  using assms by (rule perform_cases) (simp_all add: subset_insertI)

lemma loading_ok_perform:
  assumes ok: "daemon_ok s" and slot: "mget (ds_slots s) a = Some sl" "sl_activity sl = Busy p"
    and pf: "perform ans p s = (p', s')"
  shows "loading_ok (setSlot a (sl\<lparr>sl_activity := Busy p'\<rparr>) s')"
proof -
  have ds: "ds_slots s' = ds_slots s" "ds_phase s' = ds_phase s" "issued s \<subseteq> issued s'"
    using perform_frame [OF pf] by simp_all
  have "loading_ok s" using ok by (simp add: daemon_ok_def)
  then have up: "ds_phase s \<noteq> Down" using slot by (auto simp: loading_ok_def)
  have att: "attempts p = {}" if "ds_phase s = Loading qs" for qs using \<open>loading_ok s\<close> that slot by (auto simp: loading_ok_def)
  then have "ds_sent s' = ds_sent s" if "ds_phase s = Loading qs" for qs
    using perform_frame [OF pf] att [OF that] by simp
  then have "sentBy b s' = sentBy b s" if "ds_phase s = Loading qs" for qs b using that by (simp add: sentBy_def)
  moreover have "attempts p' = {}" if "ds_phase s = Loading qs" for qs
    using attempts_perform [OF pf] att [OF that] by auto
  ultimately show ?thesis using \<open>loading_ok s\<close> ds up
    by (auto simp: loading_ok_def setSlot_def) (blast intro: sound_mono)
qed

lemma daemon_ok_advance:
  assumes ok: "daemon_ok s" and ids: "distinct (ds_ids (advance a ans s))"
  shows "daemon_ok (advance a ans s)"
proof (cases "\<exists>sl p. mget (ds_slots s) a = Some sl \<and> sl_activity sl = Busy p")
  case False
  then show ?thesis using ok by (auto simp: advance_def split: option.split activity.split)
next
  case True
  then obtain sl p where sl: "mget (ds_slots s) a = Some sl" "sl_activity sl = Busy p" by blast
  have "activity_ok a (sl_activity sl) s" using ok sl(1) by (auto simp: daemon_ok_def slots_ok_def)
  then have m: "method_ok a p s" by (simp add: activity_ok_def sl)
  have up: "ds_phase s \<noteq> Down" using ok sl by (auto simp: daemon_ok_def loading_ok_def)
  have load: "attempts p = {}" if "\<exists>qs. ds_phase s = Loading qs" using ok sl that by (auto simp: daemon_ok_def loading_ok_def)
  show ?thesis
  proof (cases "(\<exists>er. p = Return er) \<or> (\<exists>q p1. p = PublishQ q p1)")
    case True
    then show ?thesis
    proof (elim disjE exE)
      fix er assume p: "p = Return er"
      have "sound a (issued s) (sentBy a s) (en_queue (fst er))" using m by (auto simp: p running_ok_def)
      then have "daemon_ok (setSlot a (sl\<lparr>sl_activity := Idle (fst er)\<rparr>) s)"
        by (intro daemon_ok_slot_only [OF ok _ up]) (simp_all add: activity_ok_def)
      then show ?thesis using sl daemon_ok_kill [OF ok] by (cases er) (simp add: advance_def p)
    next
      fix q p1 assume p: "p = PublishQ q p1"
      have "method_ok a p1 s" using m unfolding p by (auto simp: running_ok_def intro: method_okI)
      then have "daemon_ok (setSlot a \<lparr>sl_snapshot = q, sl_activity = Busy p1\<rparr> s)"
        using load by (intro daemon_ok_slot_only [OF ok _ up]) (auto simp: activity_ok_def p)
      then show ?thesis using sl by (simp add: advance_def p)
    qed
  next
    case False
    obtain p' s' where pf: "perform ans p s = (p', s')" by (cases "perform ans p s")
    have adv: "advance a ans s = setSlot a (sl\<lparr>sl_activity := Busy p'\<rparr>) s'"
      using sl False pf by (auto simp: advance_def split: proc.split)
    have po: "performs_ok a p' s s'"
      using ok ids by (intro perform_ok [OF _ _ m pf]) (auto simp: daemon_ok_def adv setSlot_def)
    have "ds_slots s' = ds_slots s" using perform_frame [OF pf] by simp
    then show ?thesis unfolding adv using po loading_ok_perform [OF ok sl pf]
      by (intro daemon_ok_setSlot [OF ok]) (auto simp: performs_ok_def activity_ok_def)
  qed
qed

lemma daemon_ok_begin:
  assumes ok: "daemon_ok s"
    and m: "\<And>e. sound a (issued s) (sentBy a s) (en_queue e) \<Longrightarrow> safe (m e) a (issued s) (sentBy a s) (versions a (ds_writer s))"
  shows "daemon_ok (begin_method a m s)"
proof -
  have "daemon_ok (setSlot a (sl\<lparr>sl_activity := Busy (m e)\<rparr>) s)"
    if "mget (ds_slots s) a = Some sl" "sl_activity sl = Idle e" "ds_phase s = Up" for sl e
  proof -
    have "activity_ok a (sl_activity sl) s" using ok that(1) by (auto simp: daemon_ok_def slots_ok_def)
    then have "method_ok a (m e) s" by (intro method_okI [OF subset_refl] m) (simp add: activity_ok_def that)
    then show ?thesis using that by (intro daemon_ok_slot_only [OF ok]) (auto simp: activity_ok_def)
  qed
  then show ?thesis using ok by (auto simp: begin_method_def split: option.split activity.split)
qed

lemma daemon_ok_register:
  assumes ok: "daemon_ok s" and up: "ds_phase s = Up" and r: "register a req r s = Inr s'"
  shows "daemon_ok s'"
proof -
  have "activity_ok a (Idle (newEntry (emptyQueue a ob))) s" for ob
    by (simp add: activity_ok_def newEntry_def emptyQueue_def sound_def)
  then have "daemon_ok (setSlot a \<lparr>sl_snapshot = emptyQueue a ob, sl_activity = Idle (newEntry (emptyQueue a ob))\<rparr> s)" for ob
    using up by (intro daemon_ok_slot_only [OF ok]) simp_all
  then show ?thesis using r ok by (auto simp: register_def split: if_splits sum.splits)
qed

text \<open>What a restart reads are versions of the rows.\<close>

lemma loadRows_sub: "loadRows rows = Inr qs \<Longrightarrow> q \<in> set qs \<Longrightarrow>
    \<exists>row \<in> set rows. row_Data row = QueueData q \<and> fq_AgentID q = row_ID row"
  by (induction rows arbitrary: qs) (fastforce simp: loadRow_def split: Data.splits sum.splits if_splits)+

definition row_keys_ok :: "Data db \<Rightarrow> bool" where
  "row_keys_ok d \<longleftrightarrow> table_ok (d Followups)"

lemma LoadQueues_versions:
  assumes "LoadQueues (w_db w) = Inr qs" and "row_keys_ok (w_db w)" and "q \<in> set qs"
  shows "q \<in> versions (fq_AgentID q) w"
proof -
  from assms(1) have rows: "loadRows (map snd (sort_key fst (w_db w Followups))) = Inr qs"
    by (simp add: LoadQueues_def Load_def validTable_def)
  from loadRows_sub [OF rows assms(3)] obtain k row where
    row: "(k, row) \<in> set (w_db w Followups)" "row_Data row = QueueData q" "fq_AgentID q = row_ID row" by auto
  have "mapok (w_db w Followups)" using assms(2) by (simp add: row_keys_ok_def table_ok_def)
  then have g: "mget (w_db w Followups) k = Some row" using row(1) by (simp add: mapok_mget_iff)
  then have "row_ID row = k" using assms(2) by (simp add: row_keys_ok_def table_ok_def)
  then show ?thesis using g row by (auto simp: versions_def)
qed

lemma row_keys_ok_changes:
  assumes "apply_changes d cs = Inr d'" and "row_keys_ok d"
  shows "row_keys_ok d'"
  using assms
proof (induction cs arbitrary: d)
  case (Cons c cs)
  from Cons.prems(1) obtain d1 where d1: "apply_change d c = Inr d1" "apply_changes d1 cs = Inr d'"
    by (auto split: sum.splits)
  have "row_keys_ok d1" using d1(1) Cons.prems(2)
    by (auto simp: row_keys_ok_def apply_change_def table_ok_mput table_ok_mdel split: if_splits option.splits)
  then show ?case using Cons.IH d1(2) by simp
qed simp

lemma row_keys_ok_pass: "row_keys_ok (w_db w) \<Longrightarrow> row_keys_ok (w_db (run_iter st w))"
  by (cases rule: run_iter_cases [of st w]) (auto dest: row_keys_ok_changes)

lemma db_frame [simp]:
  "w_db (ds_writer (setSlot a sl s)) = w_db (ds_writer s)" "w_db (ds_writer (kill s)) = w_db (ds_writer s)"
  "w_db (Enqueue cs w) = w_db w" "w_db (OpenWriter d) = d" "w_db (CloseWriter w) = w_db w" "w_db (CancelWriter w) = w_db w"
  by (simp_all add: setSlot_def kill_def OpenWriter_def Enqueue_def CloseWriter_def CancelWriter_def)

lemma db_perform:
  assumes "perform ans p s = (p', s')"
  shows "w_db (ds_writer s') = w_db (ds_writer s)"
  using assms by (rule perform_cases) (simp_all add: appended_def)

lemma db_advance: "w_db (ds_writer (advance a ans s)) = w_db (ds_writer s)"
  by (auto simp: advance_def dest: db_perform split: option.split activity.split proc.split prod.split simp del: perform.simps)

lemma row_keys_ok_happen:
  assumes "row_keys_ok (w_db (ds_writer s))"
  shows "row_keys_ok (w_db (ds_writer (happen opts ev s)))"
proof (cases ev)
  case Start
  then show ?thesis using assms by (simp add: startDaemon_def split: sum.split)
next
  case RecoverNext
  then show ?thesis using assms by (simp add: recoverNext_def split: service_phase.split list.split)
next
  case (Register a req r)
  then show ?thesis using assms by (auto simp: register_def split: sum.split)
next
  case (BeginUpdate a req)
  then show ?thesis using assms by (simp add: begin_method_def split: option.split activity.split)
next
  case (BeginStep a)
  then show ?thesis using assms by (simp add: begin_method_def split: option.split activity.split)
qed (use assms in \<open>simp_all add: db_advance row_keys_ok_pass\<close>)

lemma daemon_ok_start:
  assumes ok: "daemon_ok s" and keys: "row_keys_ok (w_db (ds_writer s))"
  shows "daemon_ok (startDaemon opts s)"
proof -
  have ph: "daemon_ok (s\<lparr>ds_phase := ph\<rparr>)" if "loading_ok (s\<lparr>ds_phase := ph\<rparr>)" for ph
    using ok that by (simp add: daemon_ok_def rows_ok_def slots_ok_def sent_ok_def)
  have "loading_ok (s\<lparr>ds_phase := Loading qs\<rparr>)"
    if "ds_phase s = Down" "LoadQueues (w_db (ds_writer s)) = Inr qs" for qs
    using that ok LoadQueues_versions [OF that(2) keys] by (simp add: loading_ok_def daemon_ok_def rows_ok_def)
  moreover have "loading_ok (s\<lparr>ds_phase := Up\<rparr>)" by (simp add: loading_ok_def)
  ultimately show ?thesis using ph ok by (auto simp: startDaemon_def split: sum.split)
qed

lemma daemon_ok_recoverNext:
  assumes ok: "daemon_ok s"
  shows "daemon_ok (recoverNext opts s)"
proof (cases "ds_phase s")
  case (Loading qs)
  have l: "loading_ok s" using ok by (simp add: daemon_ok_def)
  have ph: "daemon_ok (s\<lparr>ds_phase := ph\<rparr>)" if "loading_ok (s\<lparr>ds_phase := ph\<rparr>)" for ph
    using ok that by (simp add: daemon_ok_def rows_ok_def slots_ok_def sent_ok_def)
  show ?thesis
  proof (cases qs)
    case Nil
    then show ?thesis using Loading ok ph [of Up] by (simp add: recoverNext_def loading_ok_def)
  next
    case (Cons q rest)
    let ?s = "s\<lparr>ds_phase := Loading rest\<rparr>"
    have q: "sound (fq_AgentID q) (issued s) (sentBy (fq_AgentID q) s) q" using l Loading Cons by (simp add: loading_ok_def)
    have "daemon_ok ?s" using l Loading Cons by (intro ph) (auto simp: loading_ok_def)
    moreover have "method_ok (fq_AgentID q) (recoverEntry opts q) ?s"
      using q by (intro method_okI [OF subset_refl] safe_recoverEntry) simp
    ultimately have "daemon_ok (setSlot (fq_AgentID q) \<lparr>sl_snapshot = q, sl_activity = Busy (recoverEntry opts q)\<rparr> ?s)"
      by (intro daemon_ok_slot_only) (auto simp: activity_ok_def)
    then show ?thesis using Loading Cons ok by (simp add: recoverNext_def)
  qed
qed (use ok in \<open>simp_all add: recoverNext_def\<close>)

lemma daemon_ok_happen:
  assumes ok: "daemon_ok s" and keys: "row_keys_ok (w_db (ds_writer s))" and repo: "fo_Repository opts"
    and ids: "distinct (ds_ids (happen opts ev s))"
  shows "daemon_ok (happen opts ev s)"
proof (cases ev)
  case (Register a req r)
  then show ?thesis using ok daemon_ok_register [OF ok] by (auto split: sum.split)
next
  case (BeginUpdate a req)
  have "sentBy a s \<subseteq> issued s" using ok sentBy_issued by (simp add: daemon_ok_def)
  then show ?thesis using BeginUpdate daemon_ok_begin [OF ok] safe_updateEntry by simp
next
  case (BeginStep a)
  then show ?thesis using daemon_ok_begin [OF ok] safe_stepEntry repo by simp
next
  case (Answer a ans)
  then show ?thesis using daemon_ok_advance [OF ok] ids by simp
qed (use ok keys in \<open>simp_all add: daemon_ok_start daemon_ok_recoverNext daemon_ok_kill daemon_ok_writer writer_step_pass writer_step_flags
      writer_step_others\<close>)

text \<open>The identifiers that were issued stay issued.\<close>

lemma ids_frame [simp]: "ds_ids (setSlot a sl s) = ds_ids s" "ds_ids (kill s) = ds_ids s"
  by (simp_all add: setSlot_def kill_def)

lemma ids_perform:
  assumes "perform ans p s = (p', s')"
  shows "prefix (ds_ids s) (ds_ids s')"
  using assms by (rule perform_cases) simp_all

lemma ids_advance: "prefix (ds_ids s) (ds_ids (advance a ans s))"
  by (auto simp: advance_def dest: ids_perform split: option.split activity.split proc.split prod.split simp del: perform.simps)

lemma ids_happen: "prefix (ds_ids s) (ds_ids (happen opts ev s))"
proof (cases ev)
  case (Register a req r)
  then show ?thesis by (auto simp: register_def split: sum.split)
qed (auto simp: ids_advance startDaemon_def recoverNext_def begin_method_def
    split: sum.split service_phase.split list.split option.split activity.split)

lemma daemon_run_snoc: "daemon_run opts (evs @ [ev]) = happen opts ev (daemon_run opts evs)"
  by (simp add: daemon_run_def)

lemma daemon_run_ok:
  assumes "fo_Repository opts" and "distinct (ds_ids (daemon_run opts evs))"
  shows "daemon_ok (daemon_run opts evs) \<and> row_keys_ok (w_db (ds_writer (daemon_run opts evs)))"
  using assms(2)
proof (induction evs rule: rev_induct)
  case Nil
  have "versions a (OpenWriter (\<lambda>_. [])) = {}" for a by (simp add: versions_def OpenWriter_def in_flight_def)
  then have "daemon_ok initialDaemon"
    by (simp add: daemon_ok_def initialDaemon_def rows_ok_def slots_ok_def loading_ok_def sent_ok_def tokens_below_def)
      (simp add: OpenWriter_def in_flight_def)
  moreover have "row_keys_ok (w_db (ds_writer initialDaemon))"
    by (simp add: row_keys_ok_def table_ok_def initialDaemon_def OpenWriter_def)
  ultimately show ?case by (simp add: daemon_run_def)
next
  case (snoc ev evs)
  let ?s = "daemon_run opts evs"
  have ids: "distinct (ds_ids (happen opts ev ?s))" using snoc.prems by (simp add: daemon_run_snoc)
  then have "distinct (ds_ids ?s)" using ids_happen [of ?s opts ev] by (auto simp: prefix_def)
  then have "daemon_ok ?s" "row_keys_ok (w_db (ds_writer ?s))" using snoc.IH by simp_all
  then show ?case using daemon_ok_happen [OF _ _ assms(1) ids] row_keys_ok_happen by (simp add: daemon_run_snoc)
qed

section \<open>What the methods return\<close>

primrec outcomes :: "'r proc \<Rightarrow> 'r set" where
  "outcomes (Return r) = {r}"
| "outcomes (Observe b k) = (\<Union>r. outcomes (k r))"
| "outcomes (Now k) = (\<Union>t. outcomes (k t))"
| "outcomes (NewID k) = (\<Union>x. outcomes (k x))"
| "outcomes (Send b x ob msg k) = (\<Union>r. outcomes (k r))"
| "outcomes (SaveRow q k) = (\<Union>errs. outcomes (k errs))"
| "outcomes (AwaitAck tok q k) = (\<Union>errs. outcomes (k errs))"
| "outcomes (PublishQ q p) = outcomes p"

lemma finish_sim [simp]: "outcomes (finish e r) = {(e, r)}" "attempts (finish e r) = {}"
  "outcomes (refuse e err) = {(e, Updated (Inl err))}" "attempts (refuse e err) = {}"
  by (simp_all add: finish_def refuse_def)

abbreviation saved :: "time \<Rightarrow> bool \<Rightarrow> entry \<Rightarrow> entry" where
  "saved t d e \<equiv> e\<lparr>en_queue := (en_queue e)\<lparr>fq_UpdatedAt := t\<rparr>, en_dirty := d\<rparr>"

lemma save_unfold:
  "save opts e k = Now (\<lambda>t. PublishQ ((en_queue e)\<lparr>fq_UpdatedAt := t\<rparr>)
     (if fo_Repository opts then SaveRow ((en_queue e)\<lparr>fq_UpdatedAt := t\<rparr>) (\<lambda>errs. k (saved t (errs \<noteq> []) e) errs)
      else k (saved t False e) []))"
  by (auto simp: save_def Let_def fun_eq_iff cong: if_cong)

lemma save_results:
  shows outcomes_save_sub: "outcomes (save opts e k) \<subseteq> (\<Union>t errs. outcomes (k (saved t (errs \<noteq> []) e) errs))"
    and attempts_save_sub: "attempts (save opts e k) \<subseteq> (\<Union>t errs. attempts (k (saved t (errs \<noteq> []) e) errs))"
proof -
  have nil: "k (saved t False e) [] = k (saved t ([] \<noteq> ([] :: persist_error list)) e) []" for t by simp
  show "outcomes (save opts e k) \<subseteq> (\<Union>t errs. outcomes (k (saved t (errs \<noteq> []) e) errs))"
    unfolding save_unfold nil by (cases "fo_Repository opts"; simp only: outcomes.simps if_True if_False; blast)
  show "attempts (save opts e k) \<subseteq> (\<Union>t errs. attempts (k (saved t (errs \<noteq> []) e) errs))"
    unfolding save_unfold nil by (cases "fo_Repository opts"; simp only: attempts.simps if_True if_False; blast)
qed

lemma outcomes_save:
  assumes "er \<in> outcomes (save opts e k)"
  obtains e1 errs where "stamped e e1" "er \<in> outcomes (k e1 errs)" "en_dirty e1 \<longleftrightarrow> errs \<noteq> []"
proof -
  from assms outcomes_save_sub [of opts e k] obtain t errs where "er \<in> outcomes (k (saved t (errs \<noteq> []) e) errs)" by blast
  then show thesis by (intro that [of "saved t (errs \<noteq> []) e" errs]) auto
qed

lemma attempts_save_subset:
  assumes "\<And>e1 errs. stamped e e1 \<Longrightarrow> attempts (k e1 errs) \<subseteq> A"
  shows "attempts (save opts e k) \<subseteq> A"
proof -
  have "attempts (k (saved t d e) errs) \<subseteq> A" for t d errs by (rule assms) auto
  then show ?thesis using attempts_save_sub [of opts e k] by blast
qed

lemma attempts_none [simp]: "attempts (saveAndReturn opts e) = {}" "attempts (saveAndReply opts e) = {}"
  "attempts (holdBack opts i e) = {}" "attempts (delivered opts i e) = {}" "attempts (targetLost opts e) = {}"
proof -
  have s: "attempts (save opts e k) = {}" if "\<And>e1 errs. attempts (k e1 errs) = {}" for e k
    using attempts_save_subset [of e k "{}" opts] that by simp
  show r: "attempts (saveAndReturn opts e) = {}" "attempts (saveAndReply opts e) = {}" for e
    by (simp_all add: saveAndReturn_def saveAndReply_def s)
  show "attempts (holdBack opts i e) = {}" "attempts (delivered opts i e) = {}" "attempts (targetLost opts e) = {}"
    by (simp_all add: holdBack_def delivered_def targetLost_def Let_def r s)
qed

text \<open>The instruction that is next.\<close>

definition next_instruction :: "Queue \<Rightarrow> (string \<times> string \<times> string) set" where
  "next_instruction q = {(fq_AgentID q, it_ID (fq_Items q ! i), it_Text (fq_Items q ! i)) | i.
     findIndex (\<lambda>it. it_State it = Queued) (fq_Items q) = Some i}"

lemma next_instruction_cong: "fq_AgentID q = fq_AgentID q' \<Longrightarrow> fq_Items q = fq_Items q' \<Longrightarrow> next_instruction q = next_instruction q'"
  by (simp add: next_instruction_def)

lemma attempts_recheck:
  "attempts (recheck opts i ob e) \<subseteq> {(fq_AgentID (en_queue e), it_ID (fq_Items (en_queue e) ! i), it_Text (fq_Items (en_queue e) ! i))}"
proof -
  have "attempts (case r of SendNotReady \<Rightarrow> holdBack opts i e1 | SendFailed err \<Rightarrow> saveAndReturn opts (f err) | SendDone \<Rightarrow> delivered opts i e1) = {}" for r e1 f
    by (cases r) simp_all
  then show ?thesis by (auto simp: recheck_def deliver_item_def Let_def split: sum.splits if_splits)
qed

lemma attempts_dispatch:
  "attempts (dispatch opts ob e) \<subseteq> (if fq_Paused (en_queue e) then {} else next_instruction (en_queue e))"
proof (cases "findIndex (\<lambda>it. it_State it = Queued) (fq_Items (en_queue e))")
  case (Some i)
  then have i: "i < length (fq_Items (en_queue e))" using findIndex_Some by blast
  have "attempts (recheck opts i ob e1) \<subseteq> next_instruction (en_queue e)" if "stamped (claim i t ob e) e1" for e1 t
    using attempts_recheck [of opts i ob e1] that Some i by (auto simp: next_instruction_def claim_def)
  then have "attempts (save opts (claim i t ob e) (\<lambda>e1 errs.
      if errs \<noteq> [] then finish ((attention (msgClaimUnsaved @ fo_errorText opts errs) e1)\<lparr>en_dirty := True\<rparr>) StepDone
      else recheck opts i ob e1)) \<subseteq> next_instruction (en_queue e)" for t
    by (intro attempts_save_subset) simp
  then show ?thesis using Some by (auto simp: dispatch_def)
qed (simp add: dispatch_def)

lemma attempts_finishActive:
  "attempts (finishActive opts ob e) \<subseteq> (if fq_Paused (en_queue e) then {} else next_instruction (en_queue e))"
proof -
  define A where "A = (if fq_Paused (en_queue e) then {} else next_instruction (en_queue e))"
  let ?e = "setQueue (\<lambda>q. q\<lparr>fq_ActiveItemID := [], fq_Phase := Ready, fq_Reason := []\<rparr>) e"
  have "attempts (dispatch opts ob e1) \<subseteq> A" if "stamped ?e e1" for e1
    using attempts_dispatch [of opts ob e1] that by (auto simp: A_def next_instruction_def)
  then have "attempts (save opts ?e (\<lambda>e1 errs. if errs \<noteq> [] then finish e1 StepDone else dispatch opts ob e1)) \<subseteq> A"
    by (intro attempts_save_subset) simp
  then show ?thesis by (simp add: finishActive_def A_def [symmetric])
qed

lemma attempts_checkTimeout:
  "attempts (checkTimeout opts ob e) \<subseteq> (if fq_Paused (en_queue e) then {} else next_instruction (en_queue e))"
  using attempts_finishActive [of opts ob e] by (auto simp: checkTimeout_def split: if_splits)

lemma attempts_stepActive:
  "attempts (stepActive opts ob e) \<subseteq> (if fq_Paused (en_queue e) then {} else next_instruction (en_queue e))"
proof -
  define A where "A = (if fq_Paused (en_queue e) then {} else next_instruction (en_queue e))"
  let ?e = "setQueue (\<lambda>q. q\<lparr>fq_Phase := Working\<rparr>) e"
  have "attempts (checkTimeout opts ob e1) \<subseteq> A" if "stamped ?e e1" for e1
    using attempts_checkTimeout [of opts ob e1] that by (auto simp: A_def next_instruction_def)
  then have "attempts (save opts ?e (\<lambda>e1 errs. if errs \<noteq> [] then finish e1 StepDone else checkTimeout opts ob e1)) \<subseteq> A"
    by (intro attempts_save_subset) simp
  then show ?thesis using attempts_checkTimeout [of opts ob e] by (simp add: stepActive_def Let_def A_def [symmetric])
qed

definition sendable :: "Queue \<Rightarrow> (string \<times> string \<times> string) set" where
  "sendable q = (if fq_Paused q \<or> fq_Phase q = NeedsAttention then {} else next_instruction q)"

lemma attempts_stepObserve: "attempts (stepObserve opts e) \<subseteq> sendable (en_queue e)"
proof (cases "fq_Phase (en_queue e) = NeedsAttention \<or> PendingCount (en_queue e) = 0 \<and> fq_ActiveItemID (en_queue e) = []")
  case False
  then have "attempts (stepActive opts ob e) \<subseteq> sendable (en_queue e)" "attempts (dispatch opts ob e) \<subseteq> sendable (en_queue e)" for ob
    using attempts_stepActive [of opts ob e] attempts_dispatch [of opts ob e] by (simp_all add: sendable_def)
  then have "attempts (case r of Inl _ \<Rightarrow> targetLost opts e
        | Inr ob \<Rightarrow> if \<not> sameTarget (en_queue e) ob then targetLost opts e
            else if fq_ActiveItemID (en_queue e) \<noteq> [] then stepActive opts ob e else dispatch opts ob e) \<subseteq> sendable (en_queue e)" for r
    by (cases r) simp_all
  then show ?thesis unfolding stepObserve_def Let_def if_not_P [OF False] attempts.simps by (rule UN_least)
qed (simp add: stepObserve_def)

lemma attempts_stepEntry: "attempts (stepEntry opts e) \<subseteq> sendable (en_queue e)"
proof -
  have "attempts (stepObserve opts e1) \<subseteq> sendable (en_queue e)" if "stamped e e1" for e1
    using attempts_stepObserve [of opts e1] that by (auto simp: sendable_def next_instruction_def)
  then have "attempts (save opts e (\<lambda>e1 errs. if errs \<noteq> [] then finish e1 StepDone else stepObserve opts e1)) \<subseteq> sendable (en_queue e)"
    by (intro attempts_save_subset) simp
  then show ?thesis using attempts_stepObserve [of opts e] by (simp add: stepEntry_def)
qed

section \<open>Properties\<close>

text \<open>C2 At most once: whatever happens, an instruction is sent to its agent at most once. Updates and
  scans of all queues, the writer and other producers interleave at every external call; observations, sends
  and saves fail in any way; the daemon dies between any two calls and starts again from its database. All
  that is asked for is that identifiers are issued once.\<close>

theorem at_most_once:
  assumes "fo_Repository opts" and "distinct (ds_ids (daemon_run opts evs))"
  shows "distinct (ds_sent (daemon_run opts evs))"
  using daemon_run_ok [OF assms] by (simp add: daemon_ok_def sent_ok_def)

text \<open>Witness: an instruction is added and sent, the daemon dies before it can note that, and starts
  again: nothing more is sent.\<close>

definition demo_options :: FollowupOptions where
  "demo_options = \<lparr>fo_Repository = True, fo_StartTimeout = 10, fo_errorText = (\<lambda>_. ''error'')\<rparr>"

definition demo_observation :: Observation where
  "demo_observation = \<lparr>ob_AgentID = ''a'', ob_PaneID = ''p'', ob_OwnershipToken = ''t'', ob_Reason = [], ob_State = ''idle'',
     ob_Running = True, ob_Ready = True, ob_Epoch = 1, ob_WorkingRevision = 1, ob_ObservedAt = 5, ob_LastWorkingAt = 3\<rparr>"

definition demo_add :: Update where
  "demo_add = \<lparr>up_Action = ''add'', up_ItemID = [], up_Text = ''go'', up_RequestID = ''r''\<rparr>"

definition demo_save :: "event list" where
  "demo_save = [Answer ''a'' (Time 7), Answer ''a'' Continue, Answer ''a'' (Context False), WriterPass None, Answer ''a'' Acked]"

definition demo_events :: "event list" where
  "demo_events = [Start, RecoverNext, Register ''a'' demo_add (Inr demo_observation), BeginUpdate ''a'' demo_add,
       Answer ''a'' (ID ''i''), Answer ''a'' (Time 6)] @ demo_save @ [Answer ''a'' Continue, Answer ''a'' Continue,
       BeginStep ''a'', Answer ''a'' (Observed (Inr demo_observation)), Answer ''a'' (Time 8)] @ demo_save @
     [Answer ''a'' (Observed (Inr demo_observation)), Answer ''a'' (Time 9), Answer ''a'' (SendAnswer SendDone), Kill,
      Start, RecoverNext] @ demo_save @ [Answer ''a'' Continue, RecoverNext, BeginStep ''a'']"

lemmas run_defs = daemon_run_def demo_events_def demo_save_def initialDaemon_def startDaemon_def demo_options_def LoadQueues_def
  Load_def validTable_def tables_def table_defs OpenWriter_def recoverNext_def allIdle_def register_def begin_method_def
  setSlot_def demo_add_def demo_observation_def emptyQueue_def newEntry_def updateEntry_def updateAdd_def addNew_def
  validText_def saveAndReply_def save_def Let_def finish_def refuse_def advance_def enqueueSave_def EnqueueAndWait_def
  followupChange_def run_iter_def take_batch_def commit_def apply_change_def acknowledge_def PendingCount_def phase_defs
  setQueue_def setItem_def stepEntry_def stepObserve_def sameTarget_def dispatch_def claim_def recheck_def deliver_item_def
  kill_def loadRow_def recoverEntry_def interrupted_def attention_def delivered_def

text \<open>While a run is evaluated, what a method does after its next call is left alone.\<close>

lemma proc_weak_cong:
  "Now k = Now k" "Observe a k1 = Observe a k1" "NewID k2 = NewID k2" "SaveRow q k3 = SaveRow q k3" "AwaitAck t q k3 = AwaitAck t q k3"
  "PublishQ q p = PublishQ q p" "Send a x ob m k4 = Send a x ob m k4"
  by (rule HOL.refl)+

lemma demo_trims: "TrimSpace ''a'' = ''a''" "TrimSpace ''go'' = ''go''"
  by code_simp+

lemma demo_run:
  "ds_sent (daemon_run demo_options demo_events) = [(''a'', ''i'')]" "ds_ids (daemon_run demo_options demo_events) = [''i'']"
  "\<exists>row q. mget (w_db (ds_writer (daemon_run demo_options demo_events)) Followups) ''a'' = Some row \<and> row_Data row = QueueData q \<and>
     map it_State (fq_Items q) = [NeedsAttention]"
  by (simp_all add: run_defs demo_trims cong: proc_weak_cong)

theorem at_most_once_witness:
  "ds_sent (daemon_run demo_options demo_events) = [(''a'', ''i'')] \<and> distinct (ds_sent (daemon_run demo_options demo_events))"
  using at_most_once [of demo_options demo_events] demo_run by (simp add: demo_options_def)

text \<open>C8 What the database says of a queue is true: in every run the row of an agent is a queue of that agent, its
  items have distinct identifiers, no request was applied twice, and an instruction that was sent is not
  recorded as waiting to be sent.\<close>

theorem stored_queue_consistent:
  assumes "fo_Repository opts" and "distinct (ds_ids (daemon_run opts evs))"
    and "mget (w_db (ds_writer (daemon_run opts evs)) Followups) a = Some row" and "row_Data row = QueueData q"
  shows "fq_AgentID q = a \<and> distinct (map it_ID (fq_Items q)) \<and>
         distinct (filter (\<lambda>r. r \<noteq> []) (map it_RequestID (fq_Items q))) \<and>
         (\<forall>it \<in> set (fq_Items q). (a, it_ID it) \<in> set (ds_sent (daemon_run opts evs)) \<longrightarrow> it_State it \<noteq> Queued)"
proof -
  have "q \<in> versions a (ds_writer (daemon_run opts evs))" using assms(3,4) by (auto simp: versions_def)
  then show ?thesis using daemon_run_ok [OF assms(1,2)]
    by (auto simp: daemon_ok_def rows_ok_def sound_def sentBy_def)
qed

theorem stored_queue_consistent_witness:
  "\<exists>row q. mget (w_db (ds_writer (daemon_run demo_options demo_events)) Followups) ''a'' = Some row \<and> row_Data row = QueueData q \<and>
     fq_AgentID q = ''a'' \<and> map it_State (fq_Items q) = [NeedsAttention]"
proof -
  obtain row q where r: "mget (w_db (ds_writer (daemon_run demo_options demo_events)) Followups) ''a'' = Some row"
    "row_Data row = QueueData q" "map it_State (fq_Items q) = [NeedsAttention]"
    using demo_run(3) by (elim exE conjE)
  have "fo_Repository demo_options" by (simp add: demo_options_def)
  from stored_queue_consistent [OF this _ r(1,2)] demo_run(2) r show ?thesis by simp
qed

text \<open>On every path a method sends at most one instruction.\<close>

primrec once :: "'r proc \<Rightarrow> bool" where
  "once (Return r) = True"
| "once (Observe b k) = (\<forall>r. once (k r))"
| "once (Now k) = (\<forall>t. once (k t))"
| "once (NewID k) = (\<forall>x. once (k x))"
| "once (Send b x ob msg k) = (\<forall>r. attempts (k r) = {})"
| "once (SaveRow q k) = (\<forall>errs. once (k errs))"
| "once (AwaitAck tok q k) = (\<forall>errs. once (k errs))"
| "once (PublishQ q p) = once p"

lemma once_quiet: "attempts p = {} \<Longrightarrow> once p"
  by (induction p) auto

lemma once_save: "(\<And>e1 errs. once (k e1 errs)) \<Longrightarrow> once (save opts e k)"
  by (simp add: save_unfold)

lemma once_recheck: "once (recheck opts i ob e)"
proof -
  have "attempts (case r of SendNotReady \<Rightarrow> holdBack opts i e1 | SendFailed err \<Rightarrow> saveAndReturn opts (f err) | SendDone \<Rightarrow> delivered opts i e1) = {}" for r e1 f
    by (cases r) simp_all
  then show ?thesis by (auto simp: recheck_def deliver_item_def Let_def once_quiet split: sum.split)
qed

lemma once_step:
  "once (dispatch opts ob e)" "once (finishActive opts ob e)" "once (checkTimeout opts ob e)" "once (stepActive opts ob e)"
  "once (stepObserve opts e)" "once (stepEntry opts e)"
proof -
  show d: "once (dispatch opts ob e)" for ob e
    by (auto simp: dispatch_def once_quiet intro!: once_save once_recheck split: option.split)
  show f: "once (finishActive opts ob e)" for ob e by (auto simp: finishActive_def once_quiet d intro!: once_save)
  show c: "once (checkTimeout opts ob e)" for ob e by (simp add: checkTimeout_def once_quiet f)
  show a: "once (stepActive opts ob e)" for ob e by (auto simp: stepActive_def Let_def once_quiet c intro!: once_save)
  show o: "once (stepObserve opts e)" for e by (simp add: stepObserve_def Let_def once_quiet a d split: sum.split)
  show "once (stepEntry opts e)" by (auto simp: stepEntry_def once_quiet o intro!: once_save)
qed

text \<open>C22 A scan of a queue sends at most one instruction, the oldest that is waiting, and none while the queue is
  paused or a delivery is uncertain.\<close>

theorem step_sends_oldest:
  "once (stepEntry opts e) \<and>
   attempts (stepEntry opts e) \<subseteq>
     (if fq_Paused (en_queue e) \<or> fq_Phase (en_queue e) = NeedsAttention then {}
      else case findIndex (\<lambda>it. it_State it = Queued) (fq_Items (en_queue e)) of
        None \<Rightarrow> {}
      | Some i \<Rightarrow> {(fq_AgentID (en_queue e), it_ID (fq_Items (en_queue e) ! i), it_Text (fq_Items (en_queue e) ! i))})"
  using attempts_stepEntry [of opts e] once_step(6) [of opts e]
  by (auto simp: sendable_def next_instruction_def split: option.splits if_splits)

text \<open>A method given what it hopes for, the agent as observed, every save and send successful: what it sends and returns.\<close>

primrec favourable :: "Observation \<Rightarrow> time \<Rightarrow> 'r proc \<Rightarrow> (string \<times> string \<times> string) list \<times> 'r" where
  "favourable ob t (Return r) = ([], r)"
| "favourable ob t (Observe b k) = favourable ob t (k (Inr ob))"
| "favourable ob t (Now k) = favourable ob t (k t)"
| "favourable ob t (NewID k) = favourable ob t (k [])"
| "favourable ob t (Send b x o1 msg k) = apfst (Cons (b, x, msg)) (favourable ob t (k SendDone))"
| "favourable ob t (SaveRow q k) = favourable ob t (k [])"
| "favourable ob t (AwaitAck tok q k) = favourable ob t (k [])"
| "favourable ob t (PublishQ q p) = favourable ob t p"

lemma favourable_save [simp]: "favourable ob t (save opts e k) = favourable ob t (k (saved t False e) [])"
  by (simp add: save_unfold)

lemma findIndex_pending:
  assumes "findIndex (\<lambda>it. it_State it = Queued) (fq_Items q) = Some i"
  shows "PendingCount q \<noteq> 0"
  using findIndex_Some [OF assms] by (auto simp: PendingCount_def filter_empty_conv)

lemma favourable_stepObserve:
  assumes "\<not> fq_Paused (en_queue e)" and "fq_Phase (en_queue e) = Ready" and "fq_ActiveItemID (en_queue e) = []"
    and "ob_Ready ob" and "sameTarget (en_queue e) ob"
    and "findIndex (\<lambda>it. it_State it = Queued) (fq_Items (en_queue e)) = Some i"
  shows "\<exists>e'. favourable ob t (stepObserve opts e) =
             ([(fq_AgentID (en_queue e), it_ID (fq_Items (en_queue e) ! i), it_Text (fq_Items (en_queue e) ! i))], e', StepDone) \<and>
           \<not> en_dirty e' \<and> fq_Phase (en_queue e') = AwaitingWork \<and>
           fq_ActiveItemID (en_queue e') = it_ID (fq_Items (en_queue e) ! i) \<and>
           fq_Items (en_queue e') = (fq_Items (en_queue e))[i := (fq_Items (en_queue e) ! i)\<lparr>it_State := Sent, it_SentAt := t\<rparr>]"
proof -
  have i: "i < length (fq_Items (en_queue e))" using findIndex_Some [OF assms(6)] by simp
  have "Ready \<noteq> NeedsAttention" by (simp add: phase_defs)
  moreover have "sameTarget (en_queue (saved t False (claim i t ob e))) ob"
    using assms(5) by (simp add: sameTarget_def claim_def)
  ultimately show ?thesis using assms i findIndex_pending [OF assms(6)]
    by (simp add: stepObserve_def dispatch_def recheck_def deliver_item_def delivered_def Let_def finish_def)
      (simp add: claim_def setQueue_def)
qed

text \<open>C25 An instruction is not held up: if the queue is not paused, nothing is under way and the agent is seen ready, a
  scan sends the oldest instruction that is waiting, notes it as sent and awaits the agent's work.\<close>

theorem ready_agent_gets_next:
  assumes "\<not> fq_Paused (en_queue e)" and "fq_Phase (en_queue e) = Ready" and "fq_ActiveItemID (en_queue e) = []"
    and "ob_Ready ob" and "sameTarget (en_queue e) ob"
    and "findIndex (\<lambda>it. it_State it = Queued) (fq_Items (en_queue e)) = Some i"
  shows "\<exists>e'. favourable ob t (stepEntry opts e) =
             ([(fq_AgentID (en_queue e), it_ID (fq_Items (en_queue e) ! i), it_Text (fq_Items (en_queue e) ! i))], e', StepDone) \<and>
           \<not> en_dirty e' \<and> fq_Phase (en_queue e') = AwaitingWork \<and>
           fq_ActiveItemID (en_queue e') = it_ID (fq_Items (en_queue e) ! i) \<and>
           fq_Items (en_queue e') = (fq_Items (en_queue e))[i := (fq_Items (en_queue e) ! i)\<lparr>it_State := Sent, it_SentAt := t\<rparr>]"
proof (cases "en_dirty e")
  case True
  have "sameTarget (en_queue (saved t False e)) ob" using assms(5) by (simp add: sameTarget_def)
  then show ?thesis using favourable_stepObserve [of "saved t False e" ob i t opts] assms True by (simp add: stepEntry_def)
next
  case False
  then show ?thesis using favourable_stepObserve [OF assms, of t opts] by (simp add: stepEntry_def)
qed

definition demo_entry :: entry where
  "demo_entry = newEntry ((emptyQueue ''a'' demo_observation)\<lparr>fq_Items := [\<lparr>it_ID = ''i'', it_RequestID = ''r'', it_Text = ''go'',
     it_State = Queued, it_Error = [], it_CreatedAt = 6, it_SentAt = 0\<rparr>]\<rparr>)"

theorem ready_agent_gets_next_witness:
  "fst (favourable demo_observation 9 (stepEntry demo_options demo_entry)) = [(''a'', ''i'', ''go'')]"
  using ready_agent_gets_next [of demo_entry demo_observation 0 9 demo_options]
  by (auto simp: demo_entry_def newEntry_def emptyQueue_def demo_observation_def sameTarget_def)


definition demo_interrupted :: Queue where
  "demo_interrupted = (emptyQueue ''a'' demo_observation)\<lparr>fq_Phase := Sending, fq_ActiveItemID := ''i'', fq_Items := [\<lparr>it_ID = ''i'',
     it_RequestID = ''r'', it_Text = ''go'', it_State = Sending, it_Error = [], it_CreatedAt = 6, it_SentAt = 0\<rparr>]\<rparr>"


text \<open>Repeated requests.\<close>

lemma outcomes_saveAndReply:
  assumes "(e', r) \<in> outcomes (saveAndReply opts e)"
  shows "fq_Items (en_queue e') = fq_Items (en_queue e)"
  using assms unfolding saveAndReply_def by (rule outcomes_save) (auto split: if_splits)

abbreviation requested :: "Update \<Rightarrow> Item \<Rightarrow> bool" where
  "requested req \<equiv> \<lambda>it. up_RequestID req \<noteq> [] \<and> it_RequestID it = up_RequestID req"

lemma updateAdd_known:
  assumes "findIndex (requested req) (fq_Items (en_queue e)) = Some i" and "(e', r) \<in> outcomes (updateAdd opts req e)"
  shows "fq_Items (en_queue e') = fq_Items (en_queue e)"
  using assms by (auto simp: updateAdd_def dest: outcomes_saveAndReply split: if_splits)

lemma updateAdd_makes_known:
  assumes "up_RequestID req \<noteq> []" and "(e', Updated (Inr q)) \<in> outcomes (updateAdd opts req e)"
  shows "\<exists>it \<in> set (fq_Items (en_queue e')). it_RequestID it = up_RequestID req \<and> it_Text it = up_Text req"
proof (cases "findIndex (requested req) (fq_Items (en_queue e))")
  case None
  then obtain x t where "(e', Updated (Inr q)) \<in> outcomes (saveAndReply opts (setQueue (\<lambda>q. q\<lparr>fq_Items := fq_Items q @
          [\<lparr>it_ID = x, it_RequestID = up_RequestID req, it_Text = up_Text req, it_State = Queued, it_Error = [],
            it_CreatedAt = t, it_SentAt = zeroTime\<rparr>]\<rparr>) e))"
    using assms(2) by (auto simp: updateAdd_def addNew_def split: if_splits)
  from outcomes_saveAndReply [OF this] show ?thesis by auto
next
  case (Some i)
  then have "it_Text (fq_Items (en_queue e) ! i) = up_Text req" using assms(2) by (auto simp: updateAdd_def split: if_splits)
  then show ?thesis using findIndex_Some [OF Some] updateAdd_known [OF Some assms(2)] nth_mem by metis
qed

text \<open>Repeating a request is safe: after an addition with a request identifier reported success, the queue holds the
  instruction under that identifier, and whatever the repetition is answered, it adds nothing and sends nothing.\<close>

theorem repeated_add_harmless:
  assumes "up_Action req = ''add''" and "up_RequestID req \<noteq> []"
    and "(e1, Updated (Inr q)) \<in> outcomes (updateEntry opts req e)" and "(e2, r) \<in> outcomes (updateEntry opts req e1)"
  shows "(\<exists>it \<in> set (fq_Items (en_queue e1)). it_RequestID it = up_RequestID req \<and> it_Text it = up_Text req) \<and>
         fq_Items (en_queue e2) = fq_Items (en_queue e1) \<and> attempts (updateEntry opts req e1) = {}"
proof -
  have known: "\<exists>it \<in> set (fq_Items (en_queue e1)). it_RequestID it = up_RequestID req \<and> it_Text it = up_Text req"
    using updateAdd_makes_known [OF assms(2)] assms(1,3) by (simp add: updateEntry_def)
  then have "findIndex (requested req) (fq_Items (en_queue e1)) \<noteq> None" using assms(2) by (auto simp: findIndex_None)
  then obtain i where i: "findIndex (requested req) (fq_Items (en_queue e1)) = Some i" by blast
  have "fq_Items (en_queue e2) = fq_Items (en_queue e1)"
    using updateAdd_known [OF i] assms(1,4) by (simp add: updateEntry_def)
  moreover have "attempts (updateEntry opts req e1) = {}" using i assms(1) by (simp add: updateEntry_def updateAdd_def)
  ultimately show ?thesis using known by blast
qed

theorem repeated_add_harmless_witness:
  "\<exists>e1 q. (e1, Updated (Inr q)) \<in> outcomes (updateEntry demo_options demo_add demo_entry) \<and> attempts (updateEntry demo_options demo_add e1) = {}"
proof -
  have o: "outcomes (updateEntry demo_options demo_add demo_entry) = {(demo_entry, Updated (Inr (en_queue demo_entry)))}"
    by (simp add: updateEntry_def updateAdd_def demo_add_def demo_entry_def newEntry_def emptyQueue_def demo_observation_def)
  have "attempts (updateEntry demo_options demo_add demo_entry) = {}"
    using repeated_add_harmless [of demo_add demo_entry "en_queue demo_entry" demo_options demo_entry demo_entry] o
    by (simp add: demo_add_def)
  then show ?thesis using o by blast
qed

end
