(* ===== verification/Followup_Prompt.thy ===== *)
theory Followup_Prompt
  imports Go_Utf8 Agent_Store
begin

text \<open>
  Is the composer of an agent empty? \<^verbatim>\<open>src/internal/followup/prompt.go\<close>: before an instruction is typed into an
  agent's pane, the rendered screen must show an empty prompt, or one with a known placeholder in muted style;
  whatever could be a person's draft defers the input.

  A screen becomes lines of runes, each with whether it is muted. The decoder of escape sequences is a
  third-party package and an argument (\<open>AnsiLib\<close>); select-graphic-rendition sequences are interpreted here as in
  the source. The fixed regular expressions are terms of a small type \<open>re\<close> whose matcher takes derivatives; it
  accepts exactly the language of the expression.
\<close>

section \<open>Regular expressions\<close>

datatype re = Nothing | Empty | Class "rune \<Rightarrow> bool" | Cat re re | Alt re re | Star re

primrec nullable :: "re \<Rightarrow> bool" where
  "nullable Nothing = False"
| "nullable Empty = True"
| "nullable (Class p) = False"
| "nullable (Cat a b) = (nullable a \<and> nullable b)"
| "nullable (Alt a b) = (nullable a \<or> nullable b)"
| "nullable (Star a) = True"

primrec deriv :: "rune \<Rightarrow> re \<Rightarrow> re" where
  "deriv c Nothing = Nothing"
| "deriv c Empty = Nothing"
| "deriv c (Class p) = (if p c then Empty else Nothing)"
| "deriv c (Cat a b) = (if nullable a then Alt (Cat (deriv c a) b) (deriv c b) else Cat (deriv c a) b)"
| "deriv c (Alt a b) = Alt (deriv c a) (deriv c b)"
| "deriv c (Star a) = Cat (deriv c a) (Star a)"

definition accepts :: "re \<Rightarrow> rune list \<Rightarrow> bool" where
  "accepts r w = nullable (fold deriv w r)"

text \<open>The texts a regular expression stands for.\<close>

inductive_set star :: "rune list set \<Rightarrow> rune list set" for A where
  star_Nil: "[] \<in> star A"
| star_Cons: "u \<in> A \<Longrightarrow> u \<noteq> [] \<Longrightarrow> v \<in> star A \<Longrightarrow> u @ v \<in> star A"

primrec lang :: "re \<Rightarrow> rune list set" where
  "lang Nothing = {}"
| "lang Empty = {[]}"
| "lang (Class p) = {[c] | c. p c}"
| "lang (Cat a b) = {u @ v | u v. u \<in> lang a \<and> v \<in> lang b}"
| "lang (Alt a b) = lang a \<union> lang b"
| "lang (Star a) = star (lang a)"

lemma nullable_lang: "nullable r \<longleftrightarrow> [] \<in> lang r"
  by (induction r) (auto intro: star.intros)

lemma star_head: "c # w \<in> star A \<longleftrightarrow> (\<exists>u v. w = u @ v \<and> c # u \<in> A \<and> v \<in> star A)"
proof
  assume "c # w \<in> star A"
  then show "\<exists>u v. w = u @ v \<and> c # u \<in> A \<and> v \<in> star A"
    by (cases rule: star.cases) (auto simp: Cons_eq_append_conv)
next
  assume "\<exists>u v. w = u @ v \<and> c # u \<in> A \<and> v \<in> star A"
  then show "c # w \<in> star A" using star_Cons [of "c # u" A v for u v] by fastforce
qed

lemma deriv_lang: "w \<in> lang (deriv c r) \<longleftrightarrow> c # w \<in> lang r"
proof (induction r arbitrary: w)
  case (Cat a b)
  have "c # w \<in> lang (Cat a b) \<longleftrightarrow> [] \<in> lang a \<and> c # w \<in> lang b \<or> (\<exists>u v. w = u @ v \<and> c # u \<in> lang a \<and> v \<in> lang b)"
    (is "?l \<longleftrightarrow> ?r")
  proof
    assume ?l then show ?r by (auto simp: Cons_eq_append_conv)
  next
    assume ?r
    then have "\<exists>u v. c # w = u @ v \<and> u \<in> lang a \<and> v \<in> lang b" by (metis append_Cons append_Nil)
    then show ?l by simp
  qed
  then show ?case using Cat by (auto simp: nullable_lang)
next
  case (Star a)
  then show ?case by (auto simp: star_head)
qed auto

lemma accepts_lang: "accepts r w \<longleftrightarrow> w \<in> lang r"
  by (induction w arbitrary: r) (simp_all add: accepts_def nullable_lang deriv_lang)

text \<open>Building blocks: a literal text, one or more, an optional part, alternatives.\<close>

definition chr :: "rune \<Rightarrow> re" where "chr c = Class (\<lambda>x. x = c)"

definition lit :: "string \<Rightarrow> re" where "lit s = foldr Cat (map chr (runes s)) Empty"

definition plus :: "re \<Rightarrow> re" where "plus r = Cat r (Star r)"

definition opt :: "re \<Rightarrow> re" where "opt r = Alt r Empty"

definition alts :: "re list \<Rightarrow> re" where "alts rs = foldr Alt rs Nothing"

definition cats :: "re list \<Rightarrow> re" where "cats rs = foldr Cat rs Empty"

definition spaceClass :: re where "spaceClass = Class (\<lambda>c. c \<in> {0x09, 0x0A, 0x0C, 0x0D, 0x20})"

definition digitClass :: re where "digitClass = Class (\<lambda>c. 0x30 \<le> c \<and> c \<le> 0x39)"

definition nameClass :: re where
  "nameClass = Class (\<lambda>c. 0x41 \<le> c \<and> c \<le> 0x5A \<or> 0x61 \<le> c \<and> c \<le> 0x7A \<or> 0x30 \<le> c \<and> c \<le> 0x39 \<or> c = 0x2E \<or> c = 0x2D)"

definition bulletClass :: re where "bulletClass = Class (\<lambda>c. c \<in> {0xB7, 0x2022})"

definition percentLeft :: re where
  "percentLeft = cats [alts [lit ''100'', cats [digitClass, opt digitClass]], lit ''% context left'']"

definition promptShortcutFooter :: re where
  "promptShortcutFooter = cats [lit ''? for shortcuts'', opt (cats [plus spaceClass, opt (cats [bulletClass, plus spaceClass]), percentLeft])]"

definition promptContextFooter :: re where
  "promptContextFooter = percentLeft"

definition promptModelFooter :: re where
  "promptModelFooter = cats [alts [cats [lit ''gpt-'', plus nameClass], cats [lit ''codex-'', plus nameClass],
       cats [lit ''o'', Class (\<lambda>c. c \<in> {0x31, 0x33, 0x34}), opt (cats [lit ''-'', plus nameClass])]],
     opt (cats [plus (Class (\<lambda>c. c \<in> {0x20, 0xB7})), alts (map lit [''low'', ''medium'', ''high'', ''xhigh'', ''max'', ''ultra''])]),
     plus spaceClass, bulletClass, plus spaceClass, alts [lit ''~'', lit ''/''], plus (Class (\<lambda>c. c \<notin> {0x0D, 0x0A}))]"

definition promptPathFooter :: re where
  "promptPathFooter = cats [alts [lit ''~/'', lit ''/''], plus (Class (\<lambda>c. c \<notin> {0x09, 0x0A, 0x0B, 0x0C, 0x0D, 0x20}))]"

definition claudeModeFooter :: re where
  "claudeModeFooter = cats [opt (cats [plus (Class (\<lambda>c. c \<in> {0x23F5, 0x25B6})), plus spaceClass]),
     alts (map lit [''bypass permissions on'', ''accept edits on'', ''plan mode on'']), opt (lit '' (shift+tab to cycle)'')]"

section \<open>Lines\<close>

record promptRune =
  pr_r :: rune
  pr_muted :: bool

type_synonym promptLine = "promptRune list"

definition trimPromptLine :: "promptLine \<Rightarrow> promptLine" where
  "trimPromptLine line = rev (dropWhile (\<lambda>ch. IsSpace (pr_r ch)) (rev (dropWhile (\<lambda>ch. IsSpace (pr_r ch)) line)))"

definition promptText :: "promptLine \<Rightarrow> string" where
  "promptText line = string_of_runes (map pr_r line)"

definition allPromptTextMuted :: "promptLine \<Rightarrow> bool" where
  "allPromptTextMuted line \<longleftrightarrow> list_all (\<lambda>ch. IsSpace (pr_r ch) \<or> pr_muted ch) line \<and> line \<noteq> []"

text \<open>The vertical bar of a frame.\<close>

abbreviation bar :: rune where "bar \<equiv> 0x2502"

definition stripPromptFrame :: "promptLine \<Rightarrow> promptLine" where
  "stripPromptFrame line0 =
     (let line1 = trimPromptLine line0;
          line2 = (if line1 \<noteq> [] \<and> pr_r (hd line1) = bar then tl line1 else line1);
          line3 = (if line2 \<noteq> [] \<and> pr_r (last line2) = bar then butlast line2 else line2)
      in trimPromptLine line3)"

definition ruleRunes :: "rune list" where "ruleRunes = [0x2500, 0x2501]"

definition cornerRunes :: "rune list" where
  "cornerRunes = [0x256D, 0x256E, 0x2570, 0x256F, 0x250C, 0x2510, 0x2514, 0x2518]"

definition promptHorizontalRule :: "promptLine \<Rightarrow> bool" where
  "promptHorizontalRule line0 =
     (let line = trimPromptLine line0 in
      list_all (\<lambda>ch. pr_r ch \<in> set ruleRunes \<or> pr_r ch \<in> set cornerRunes) line \<and>
      3 \<le> length (filter (\<lambda>ch. pr_r ch \<in> set ruleRunes) line))"

definition knownPromptFooter :: "Kind \<Rightarrow> promptLine \<Rightarrow> bool" where
  "knownPromptFooter kind line0 =
     (let line = trimPromptLine line0; text = runes (promptText line) in
      allPromptTextMuted line \<and>
      (accepts promptShortcutFooter text \<or>
       (if kind = KindClaude then accepts claudeModeFooter text
        else accepts promptContextFooter text \<or> accepts promptModelFooter text \<or> accepts promptPathFooter text)))"

definition promptBody :: "Kind \<Rightarrow> promptLine \<Rightarrow> promptLine option" where
  "promptBody kind line0 =
     (let line = (if kind = KindClaude then stripPromptFrame (trimPromptLine line0) else trimPromptLine line0) in
      if line = [] then None
      else let marker = pr_r (hd line) in
        if kind = KindCodex \<and> marker \<noteq> 0x203A \<and> marker \<noteq> 0xBB \<or> kind = KindClaude \<and> marker \<noteq> 0x276F then None
        else if 1 < length line \<and> \<not> IsSpace (pr_r (line ! 1)) then None
        else Some (trimPromptLine (tl line)))"

definition emptyOrPlaceholder :: "Kind \<Rightarrow> promptLine \<Rightarrow> bool" where
  "emptyOrPlaceholder kind body \<longleftrightarrow>
     body = [] \<or>
     allPromptTextMuted body \<and>
     (if kind = KindClaude then promptText body = ''Ask Claude''
      else promptText body \<in> {''Use /skills to list available skills'', ''Find and fix a bug in @filename'', ''Explain this codebase''})"

section \<open>The composer\<close>

text \<open>The greatest index below \<open>n\<close> with a property, and the first from \<open>i\<close> on.\<close>

fun lastBelow :: "(nat \<Rightarrow> bool) \<Rightarrow> nat \<Rightarrow> nat option" where
  "lastBelow P 0 = None"
| "lastBelow P (Suc n) = (if P n then Some n else lastBelow P n)"

definition firstFrom :: "(nat \<Rightarrow> bool) \<Rightarrow> nat \<Rightarrow> nat \<Rightarrow> nat option" where
  "firstFrom P i n = find P [i..<n]"

definition statusLine :: "promptLine \<Rightarrow> bool" where
  "statusLine line =
     (let plain = promptText (trimPromptLine line) in
      plain \<noteq> [] \<and> hd (runes plain) \<in> {0x2022, 0x25E6, 0x25A0, 0x2717, 0x2713, 0x2500})"

text \<open>Going up from the prompt to the last status line: another prompt there belongs to one long draft.\<close>

fun markerAbove :: "Kind \<Rightarrow> promptLine list \<Rightarrow> nat \<Rightarrow> bool" where
  "markerAbove kind lines 0 = False"
| "markerAbove kind lines (Suc i) =
     (if statusLine (lines ! i) then False
      else if promptBody kind (lines ! i) \<noteq> None then True
      else markerAbove kind lines i)"

definition onlyFooters :: "Kind \<Rightarrow> promptLine list \<Rightarrow> bool" where
  "onlyFooters kind lines = list_all (\<lambda>line. trimPromptLine line = [] \<or> knownPromptFooter kind line) lines"

definition emptyClaudeComposer :: "promptLine list \<Rightarrow> nat \<Rightarrow> bool" where
  "emptyClaudeComposer lines current =
     (let upper = lastBelow (\<lambda>i. promptHorizontalRule (lines ! i)) current;
          lower = firstFrom (\<lambda>i. promptHorizontalRule (lines ! i)) (current + 1) (length lines)
      in case (upper, lower) of
        (Some u, Some l) \<Rightarrow>
          list_all (\<lambda>i. i = current \<or> stripPromptFrame (lines ! i) = []) [u + 1..<l] \<and>
          onlyFooters KindClaude (drop (l + 1) lines)
      | _ \<Rightarrow>
          if Contains (promptText (lines ! current)) (EncodeRune bar) \<or> upper \<noteq> None \<or> lower \<noteq> None then False
          else if markerAbove KindClaude lines current then False
          else onlyFooters KindClaude (drop (current + 1) lines))"

definition composerIsEmpty :: "Kind \<Rightarrow> promptLine list \<Rightarrow> bool" where
  "composerIsEmpty kind lines =
     (case lastBelow (\<lambda>i. promptBody kind (lines ! i) \<noteq> None) (length lines) of
        None \<Rightarrow> False
      | Some current \<Rightarrow>
          if \<not> emptyOrPlaceholder kind (the (promptBody kind (lines ! current))) then False
          else if kind = KindClaude then emptyClaudeComposer lines current
          else if markerAbove kind lines current then False
          else onlyFooters kind (drop (current + 1) lines))"

section \<open>Styles\<close>

record promptStyle =
  st_dim :: bool
  st_italic :: bool
  st_gray :: bool
  st_inverse :: bool

definition plainStyle :: promptStyle where
  "plainStyle = \<lparr>st_dim = False, st_italic = False, st_gray = False, st_inverse = False\<rparr>"

text \<open>\<open>strconv.Atoi\<close> on 64 bits: the value and whether there was an error.\<close>

definition decimal :: "string \<Rightarrow> int" where
  "decimal s = foldl (\<lambda>n c. 10 * n + (int (byte c) - 48)) 0 s"

definition Atoi :: "string \<Rightarrow> int \<times> bool" where
  "Atoi s =
     (let neg = (s \<noteq> [] \<and> hd s = CHR ''-'');
          digits = (if s \<noteq> [] \<and> (hd s = CHR ''-'' \<or> hd s = CHR ''+'') then tl s else s)
      in if digits = [] \<or> \<not> list_all (\<lambda>c. 48 \<le> byte c \<and> byte c \<le> 57) digits then (0, True)
         else let v = (if neg then - decimal digits else decimal digits) in
           if 2 ^ 63 \<le> v then (2 ^ 63 - 1, True) else if v < - (2 ^ 63) then (- (2 ^ 63), True) else (v, False))"

text \<open>One code and what it does, and the colour that follows a code for a colour. The result of a colour is \<open>None\<close> where
  the source returns.\<close>

definition simpleSGR :: "int \<Rightarrow> promptStyle \<Rightarrow> promptStyle" where
  "simpleSGR code s =
     (if code = 0 then plainStyle
      else if code = 2 then s\<lparr>st_dim := True\<rparr>
      else if code = 3 then s\<lparr>st_italic := True\<rparr>
      else if code = 7 then s\<lparr>st_inverse := True\<rparr>
      else if code = 22 then s\<lparr>st_dim := False\<rparr>
      else if code = 23 then s\<lparr>st_italic := False\<rparr>
      else if code = 27 then s\<lparr>st_inverse := False\<rparr>
      else if 30 \<le> code \<and> code \<le> 37 \<or> code = 39 \<or> 91 \<le> code \<and> code \<le> 97 then s\<lparr>st_gray := False\<rparr>
      else if code = 90 then s\<lparr>st_gray := True\<rparr>
      else s)"

definition isColour :: "int \<Rightarrow> bool" where
  "isColour code \<longleftrightarrow> code = 38 \<or> code = 48 \<or> code = 58"

datatype sgr_next = Stop promptStyle | Go_on "string list" promptStyle

definition colourSGR :: "int \<Rightarrow> string list \<Rightarrow> promptStyle \<Rightarrow> sgr_next" where
  "colourSGR code rest s0 =
     (let foreground = (code = 38);
          s = (if foreground then s0\<lparr>st_gray := False\<rparr> else s0)
      in if length rest < 2 then Stop s
         else if rest ! 0 = ''5'' then
           (let color = fst (Atoi (rest ! 1)) in
            Go_on (drop 2 rest) (if foreground then s\<lparr>st_gray := (color = 8 \<or> 240 \<le> color \<and> color \<le> 250)\<rparr> else s))
         else if rest ! 0 = ''2'' then
           (let start = (if rest ! 1 = [] then 2 else 1) in
            if length rest \<le> start + 2 then Stop s
            else let r = fst (Atoi (rest ! start)); g = fst (Atoi (rest ! (start + 1))); b = fst (Atoi (rest ! (start + 2)))
              in Go_on (drop (start + 3) rest) (if foreground then s\<lparr>st_gray := (r = g \<and> g = b \<and> 80 \<le> r \<and> r \<le> 190)\<rparr> else s))
         else Stop plainStyle)"

lemma colourSGR_shorter: "colourSGR code rest s = Go_on rest' s' \<Longrightarrow> length rest' < Suc (length rest)"
  by (auto simp: colourSGR_def Let_def split: if_splits)

function sgrCodes :: "string list \<Rightarrow> promptStyle \<Rightarrow> promptStyle" where
  "sgrCodes [] s = s"
| "sgrCodes (part # rest) s =
     (let (code, err) = (if part = [] then (0, False) else Atoi part) in
      if err then plainStyle
      else if isColour code then
        (case colourSGR code rest s of Stop s' \<Rightarrow> s' | Go_on rest' s' \<Rightarrow> sgrCodes rest' s')
      else sgrCodes rest (simpleSGR code s))"
  by pat_completeness auto
termination
  by (relation "measure (length \<circ> fst)") (auto dest: colourSGR_shorter)

definition applySGR :: "string \<Rightarrow> promptStyle \<Rightarrow> promptStyle" where
  "applySGR parameters s = sgrCodes (SplitByte CHR '';'' (map (\<lambda>c. if c = CHR '':'' then CHR '';'' else c) parameters)) s"

section \<open>Screens\<close>

text \<open>
  The package \<^verbatim>\<open>github.com/charmbracelet/x/ansi\<close>: \<open>DecodeSequence\<close> gives the next sequence or character, how many
  bytes it takes and the decoder's next state; \<open>Strip\<close> removes escape sequences.
\<close>

record AnsiLib =
  al_DecodeSequence :: "string \<Rightarrow> nat \<Rightarrow> string \<times> nat \<times> nat"
  al_Strip :: "string \<Rightarrow> string"

definition muted :: "promptStyle \<Rightarrow> bool" where
  "muted s \<longleftrightarrow> \<not> st_inverse s \<and> (st_dim s \<or> st_italic s \<or> st_gray s)"

definition addRune :: "promptStyle \<Rightarrow> rune \<Rightarrow> promptLine list \<Rightarrow> promptLine list" where
  "addRune style r lines =
     (if r = 0x0A then lines @ [[]]
      else if r = 0x0D then lines
      else butlast lines @ [last lines @ [\<lparr>pr_r = r, pr_muted = muted style\<rparr>]])"

definition isSGR :: "string \<Rightarrow> bool" where
  "isSGR sq \<longleftrightarrow> HasPrefix sq [char_of (0x1B :: nat), CHR ''[''] \<and> HasSuffix sq ''m''"

text \<open>A sequence that takes no byte makes the source return \<open>nil\<close>.\<close>

function styledLoop :: "AnsiLib \<Rightarrow> string \<Rightarrow> nat \<Rightarrow> promptStyle \<Rightarrow> promptLine list \<Rightarrow> promptLine list" where
  "styledLoop ansi screen st style lines =
     (if screen = [] then lines
      else let (sq, n, next_st) = al_DecodeSequence ansi screen st in
        if n = 0 then []
        else if isSGR sq then styledLoop ansi (drop n screen) next_st (applySGR (take (length sq - 3) (drop 2 sq)) style) lines
        else styledLoop ansi (drop n screen) next_st style (fold (addRune style) (runes (al_Strip ansi sq)) lines))"
  by pat_completeness auto
termination
  by (relation "measure (\<lambda>(_, screen, _). length screen)") auto

declare styledLoop.simps [simp del]

definition styledPromptLines :: "AnsiLib \<Rightarrow> string \<Rightarrow> promptLine list" where
  "styledPromptLines ansi screen = styledLoop ansi screen 0 plainStyle [[]]"

definition promptIsEmpty :: "AnsiLib \<Rightarrow> Kind \<Rightarrow> string \<Rightarrow> bool" where
  "promptIsEmpty ansi kind screen =
     (if kind \<noteq> KindCodex \<and> kind \<noteq> KindClaude \<or> 2 * 2 ^ 20 < length screen then False
      else composerIsEmpty kind (styledPromptLines ansi screen))"

section \<open>No draft is overwritten\<close>

text \<open>What a person may have typed: a visible rune in normal style.\<close>

definition draft :: "promptRune \<Rightarrow> bool" where
  "draft ch \<longleftrightarrow> \<not> IsSpace (pr_r ch) \<and> \<not> pr_muted ch"

definition frameRunes :: "rune set" where
  "frameRunes = insert bar (set ruleRunes \<union> set cornerRunes)"

lemma dropWhile_keeps: "x \<in> set xs \<Longrightarrow> \<not> P x \<Longrightarrow> x \<in> set (dropWhile P xs)"
  by (induction xs) auto

lemma trim_keeps: "ch \<in> set line \<Longrightarrow> \<not> IsSpace (pr_r ch) \<Longrightarrow> ch \<in> set (trimPromptLine line)"
  by (simp add: trimPromptLine_def dropWhile_keeps)

lemma strip_keeps:
  assumes "ch \<in> set line" "\<not> IsSpace (pr_r ch)" "pr_r ch \<noteq> bar"
  shows "ch \<in> set (stripPromptFrame line)"
proof -
  have head: "ch \<in> set (if l \<noteq> [] \<and> pr_r (hd l) = bar then tl l else l)" if "ch \<in> set l" for l :: promptLine
    using that assms(3) by (cases l) auto
  have end': "ch \<in> set (if l \<noteq> [] \<and> pr_r (last l) = bar then butlast l else l)" if "ch \<in> set l" for l :: promptLine
    using that assms(3) by (cases l rule: rev_cases) auto
  show ?thesis unfolding stripPromptFrame_def Let_def
    by (intro trim_keeps end' head) (use assms in auto)
qed

lemma footers_no_draft:
  assumes "onlyFooters kind lines" "line \<in> set lines" "ch \<in> set line"
  shows "\<not> draft ch"
proof
  assume d: "draft ch"
  then have ch: "ch \<in> set (trimPromptLine line)" using assms(3) by (simp add: draft_def trim_keeps)
  then have "knownPromptFooter kind line" using assms(1,2) by (auto simp: onlyFooters_def list_all_iff)
  then have "allPromptTextMuted (trimPromptLine line)" by (simp add: knownPromptFooter_def Let_def)
  then show False using ch d by (auto simp: allPromptTextMuted_def list_all_iff draft_def)
qed

lemma placeholder_no_draft: "emptyOrPlaceholder kind body \<Longrightarrow> ch \<in> set body \<Longrightarrow> \<not> draft ch"
  by (auto simp: emptyOrPlaceholder_def allPromptTextMuted_def list_all_iff draft_def)

lemma rule_frame: "promptHorizontalRule line \<Longrightarrow> ch \<in> set line \<Longrightarrow> draft ch \<Longrightarrow> pr_r ch \<in> frameRunes"
  using trim_keeps [of ch line] by (auto simp: promptHorizontalRule_def Let_def list_all_iff draft_def frameRunes_def)

lemma lastBelow_Some: "lastBelow P n = Some i \<Longrightarrow> i < n \<and> P i \<and> (\<forall>j. i < j \<and> j < n \<longrightarrow> \<not> P j)"
  by (induction n) (auto simp: less_Suc_eq split: if_splits)

lemma firstFrom_Some: "firstFrom P i n = Some l \<Longrightarrow> i \<le> l \<and> l < n \<and> P l"
  by (auto simp: firstFrom_def find_Some_iff)

lemma footers_below:
  assumes "onlyFooters kind (drop (i + 1) lines)" "i < j" "j < length lines" "ch \<in> set (lines ! j)"
  shows "\<not> draft ch"
proof (rule footers_no_draft [OF assms(1) _ assms(4)])
  have "lines ! j = drop (i + 1) lines ! (j - (i + 1))" using assms(2,3) by simp
  then show "lines ! j \<in> set (drop (i + 1) lines)" using assms(2,3) by (metis diff_less_mono length_drop nth_mem Suc_eq_plus1 Suc_leI)
qed

lemma claude_composer_frame:
  assumes "emptyClaudeComposer lines i" "i < j" "j < length lines" "ch \<in> set (lines ! j)" "draft ch"
  shows "pr_r ch \<in> frameRunes"
proof (cases "\<exists>u l. lastBelow (\<lambda>i. promptHorizontalRule (lines ! i)) i = Some u \<and>
      firstFrom (\<lambda>i. promptHorizontalRule (lines ! i)) (i + 1) (length lines) = Some l")
  case False
  then have "onlyFooters KindClaude (drop (i + 1) lines)"
    using assms(1) by (auto simp: emptyClaudeComposer_def Let_def split: option.splits if_splits)
  then show ?thesis using footers_below assms(2-5) by blast
next
  case True
  then obtain u l where u: "lastBelow (\<lambda>i. promptHorizontalRule (lines ! i)) i = Some u"
    and l: "firstFrom (\<lambda>i. promptHorizontalRule (lines ! i)) (i + 1) (length lines) = Some l" by blast
  have box: "\<forall>k \<in> set [u + 1..<l]. k = i \<or> stripPromptFrame (lines ! k) = []" and foot: "onlyFooters KindClaude (drop (l + 1) lines)"
    using assms(1) u l by (simp_all add: emptyClaudeComposer_def Let_def list_all_iff)
  have "u < i" "promptHorizontalRule (lines ! l)" using lastBelow_Some [OF u] firstFrom_Some [OF l] by simp_all
  consider "j < l" | "j = l" | "l < j" by linarith
  then show ?thesis
  proof cases
    case 1
    then have "stripPromptFrame (lines ! j) = []" using box \<open>u < i\<close> assms(2) by auto
    then show ?thesis using strip_keeps [OF assms(4)] assms(5) by (auto simp: draft_def frameRunes_def)
  next
    case 2
    then show ?thesis using rule_frame \<open>promptHorizontalRule (lines ! l)\<close> assms(4,5) by blast
  next
    case 3
    then show ?thesis using footers_below [OF foot _ assms(3,4)] assms(5) by blast
  qed
qed

text \<open>C23 Nothing that a person typed is overwritten: if the composer counts as empty, the screen has a prompt line, no
  later line has a prompt marker, and neither behind the marker nor on any later line is there a visible rune in normal
  style, but for the frame around Claude's input box.\<close>

theorem draft_defers_input:
  assumes "promptIsEmpty ansi kind screen"
  shows "\<exists>i body. i < length (styledPromptLines ansi screen) \<and> promptBody kind (styledPromptLines ansi screen ! i) = Some body \<and>
           (\<forall>ch \<in> set body. \<not> draft ch) \<and>
           (\<forall>j. i < j \<and> j < length (styledPromptLines ansi screen) \<longrightarrow>
              promptBody kind (styledPromptLines ansi screen ! j) = None \<and>
              (\<forall>ch \<in> set (styledPromptLines ansi screen ! j). draft ch \<longrightarrow> kind = KindClaude \<and> pr_r ch \<in> frameRunes))"
proof -
  define lines where "lines = styledPromptLines ansi screen"
  have "composerIsEmpty kind lines" using assms by (simp add: promptIsEmpty_def lines_def split: if_splits)
  then obtain i where i: "lastBelow (\<lambda>i. promptBody kind (lines ! i) \<noteq> None) (length lines) = Some i"
    and e: "emptyOrPlaceholder kind (the (promptBody kind (lines ! i)))"
    and c: "if kind = KindClaude then emptyClaudeComposer lines i else onlyFooters kind (drop (i + 1) lines)"
    by (auto simp: composerIsEmpty_def split: option.splits if_splits)
  have i': "i < length lines" "promptBody kind (lines ! i) \<noteq> None" "\<forall>j. i < j \<and> j < length lines \<longrightarrow> promptBody kind (lines ! j) = None"
    using lastBelow_Some [OF i] by auto
  have "kind = KindClaude \<and> pr_r ch \<in> frameRunes" if "i < j" "j < length lines" "ch \<in> set (lines ! j)" "draft ch" for j ch
  proof (cases "kind = KindClaude")
    case True
    then show ?thesis using claude_composer_frame [OF _ that] c by simp
  next
    case False
    then show ?thesis using footers_below [of kind i lines j ch] c that by simp
  qed
  moreover have "\<forall>ch \<in> set (the (promptBody kind (lines ! i))). \<not> draft ch" using placeholder_no_draft [OF e] by blast
  ultimately show ?thesis using i' unfolding lines_def [symmetric] by (intro exI [of _ i] exI [of _ "the (promptBody kind (lines ! i))"]) auto
qed

text \<open>Witness: a screen that shows a bare prompt, with a decoder that yields plain text in one piece.\<close>

definition demo_ansi :: AnsiLib where
  "demo_ansi = \<lparr>al_DecodeSequence = (\<lambda>s st. (s, length s, st)), al_Strip = (\<lambda>s. s)\<rparr>"

definition demo_prompt :: string where
  "demo_prompt = map char_of [0x6F, 0x6B, 0x0A, 0xE2, 0x80, 0xBA, 0x20 :: nat]"

lemma demo_lines: "styledPromptLines demo_ansi demo_prompt =
   [[\<lparr>pr_r = 0x6F, pr_muted = False\<rparr>, \<lparr>pr_r = 0x6B, pr_muted = False\<rparr>], [\<lparr>pr_r = 0x203A, pr_muted = False\<rparr>, \<lparr>pr_r = 0x20, pr_muted = False\<rparr>]]"
proof -
  have r: "runes demo_prompt = [0x6F, 0x6B, 0x0A, 0x203A, 0x20]"
    by (simp add: demo_prompt_def runes_def rune_widths.simps DecodeRuneInString_def is_cont_def second_ok_def)
  have ne: "demo_prompt \<noteq> []" by (simp add: demo_prompt_def)
  have sgr: "\<not> isSGR demo_prompt" by code_simp
  have "styledLoop demo_ansi [] st style lines = lines" for st style lines by (simp add: styledLoop.simps)
  then show ?thesis
    unfolding styledPromptLines_def by (subst styledLoop.simps) (simp add: demo_ansi_def ne sgr r addRune_def muted_def plainStyle_def)
qed

theorem draft_defers_input_witness:
  "promptIsEmpty demo_ansi KindCodex demo_prompt \<and> (\<exists>i. i < length (styledPromptLines demo_ansi demo_prompt))"
proof -
  have p: "promptIsEmpty demo_ansi KindCodex demo_prompt" 
    by (simp add: promptIsEmpty_def demo_lines demo_prompt_def [THEN arg_cong [where f = length]] composerIsEmpty_def promptBody_def trimPromptLine_def IsSpace_def kind_defs
        emptyOrPlaceholder_def markerAbove.simps onlyFooters_def)
  from draft_defers_input [OF this] p show ?thesis by blast
qed

end
