(* ===== verification/Followup_Adapter.thy ===== *)
theory Followup_Adapter
  imports Followup_Queue Followup_Prompt Agent_Service Runtime_Safety
begin

text \<open>
  What the follow-up queues see of the daemon, \<^verbatim>\<open>src/internal/followup/runtime.go\<close>. \<open>ObserveAgent\<close> asks the modelled
  agent service and runtime for the state of an agent and a fresh screen of its pane. \<open>SendFollowup\<close> is the runtime's
  \<open>SendInput\<close> with a guard that observes the agent once more. The guard runs inside the runtime, so its
  observation is an argument, in the runtime's own monad.
\<close>

section \<open>Observing\<close>

datatype observe_error = ObserveExplain explain_error | ObserveKind | ObserveRuntime rt_error | ObserveIdentity

text \<open>The reason that a draft defers the input, in UTF-8.\<close>

definition msgDraft :: string where
  "msgDraft = map char_of [
    236, 158, 133, 235, 160, 165, 236, 176, 189, 236, 151, 144, 32, 236, 180, 136, 236, 149, 136, 236, 157,
    180, 32, 236, 158, 136, 234, 177, 176, 235, 130, 152, 32, 235, 185, 136, 32, 236, 158, 133, 235, 160,
    165, 236, 176, 189, 236, 157, 132, 32, 237, 153, 149, 236, 157, 184, 237, 149, 160, 32, 236, 136, 152,
    32, 236, 151, 134, 236, 150, 180, 32, 236, 160, 132, 235, 139, 172, 236, 157, 132, 32, 235, 179, 180,
    235, 165, 152, 237, 149, 169, 235, 139, 136, 235, 139, 164 :: nat]"

definition supportedKind :: "Kind \<Rightarrow> bool" where
  "supportedKind kind \<longleftrightarrow> kind = KindCodex \<or> kind = KindClaude"

text \<open>A positive sign that the agent waits for input, not the mere lack of another one.\<close>

definition positivelyIdle :: "AgentExplanation \<Rightarrow> bool" where
  "positivelyIdle x \<longleftrightarrow>
     (case ax_Detection x of
        None \<Rightarrow> False
      | Some de \<Rightarrow>
          let d = de_Detection de in
          a_State (ax_Record x) = StateIdle \<and> ax_ObservationAvailable x \<and> \<not> ax_StartupGrace x \<and> \<not> ax_PendingIdle x \<and>
          d_State d = StateIdle \<and> d_VisibleIdle d \<and> \<not> d_Fallback d \<and> \<not> d_SkipStateUpdate d \<and> d_RuleID d \<noteq> ''conversation_interrupted'')"

definition paneObservation :: "AgentExplanation \<Rightarrow> PaneView \<Rightarrow> Observation" where
  "paneObservation x view = \<lparr>ob_AgentID = a_ID (ax_Record x), ob_PaneID = a_PaneID (ax_Record x),
     ob_OwnershipToken = pv_OwnershipToken view, ob_Reason = [], ob_State = [], ob_Running = (pv_Status view = Some PaneStatusRunning),
     ob_Ready = False, ob_Epoch = 0, ob_WorkingRevision = 0, ob_ObservedAt = zeroTime, ob_LastWorkingAt = zeroTime\<rparr>"

definition screenObservation :: "AnsiLib \<Rightarrow> AgentExplanation \<Rightarrow> string \<Rightarrow> Observation \<Rightarrow> Observation" where
  "screenObservation ansi x screen ob0 =
     (let ob = ob0\<lparr>ob_State := a_State (ax_Record x), ob_Epoch := ax_ObservationEpoch x, ob_WorkingRevision := ax_WorkingRevision x,
            ob_ObservedAt := ax_ObservedAt x, ob_LastWorkingAt := ax_LastWorkingAt x, ob_Ready := positivelyIdle x\<rparr>
      in if ob_Ready ob \<and> \<not> promptIsEmpty ansi (a_Kind (ax_Record x)) screen
         then ob\<lparr>ob_Ready := False, ob_Reason := msgDraft\<rparr> else ob)"

definition observeScreen :: "'w AgentOptions \<Rightarrow> AnsiLib \<Rightarrow> string \<Rightarrow> Observation \<Rightarrow> ('w, observe_error + Observation) dm" where
  "observeScreen ao ansi i ob = do {
     snap \<leftarrow> runtimeCall ao (SnapshotOutput (ao_backend ao) (ob_PaneID ob) False True);
     case snap of
       Inl e \<Rightarrow> return (Inl (ObserveRuntime e))
     | Inr (view, screen) \<Rightarrow> do {
         second \<leftarrow> ExplainAgent ao i;
         case second of
           Inl e \<Rightarrow> return (Inl (ObserveExplain e))
         | Inr x \<Rightarrow> return
             (if a_PaneID (ax_Record x) \<noteq> ob_PaneID ob \<or> a_ID (ax_Record x) \<noteq> i then Inl ObserveIdentity
              else Inr (screenObservation ansi x screen ob)) } }"

definition ObserveAgent :: "'w AgentOptions \<Rightarrow> AnsiLib \<Rightarrow> string \<Rightarrow> ('w, observe_error + Observation) dm" where
  "ObserveAgent ao ansi i = do {
     first \<leftarrow> ExplainAgent ao i;
     case first of
       Inl e \<Rightarrow> return (Inl (ObserveExplain e))
     | Inr x \<Rightarrow>
         if \<not> supportedKind (a_Kind (ax_Record x)) then return (Inl ObserveKind)
         else do {
           pane \<leftarrow> runtimeCall ao (InspectPane (ao_backend ao) (a_PaneID (ax_Record x)));
           case pane of
             Inl e \<Rightarrow> return (Inl (ObserveRuntime e))
           | Inr view \<Rightarrow>
               let ob = paneObservation x view in
               if \<not> ob_Running ob then return (Inr ob) else observeScreen ao ansi i ob } }"

section \<open>Sending\<close>

definition ErrNotReady :: rt_cause where
  "ErrNotReady = ErrOther ''follow-up target is no longer ready''"

text \<open>Has the agent moved since it was observed?\<close>

definition unmoved :: "Observation \<Rightarrow> Observation \<Rightarrow> bool" where
  "unmoved ob fresh \<longleftrightarrow> ob_Running fresh \<and> ob_Ready fresh \<and> ob_AgentID fresh = ob_AgentID ob \<and> ob_PaneID fresh = ob_PaneID ob \<and>
     ob_OwnershipToken fresh = ob_OwnershipToken ob \<and> ob_Epoch fresh = ob_Epoch ob \<and> ob_WorkingRevision fresh = ob_WorkingRevision ob"

definition beforeSend :: "(string \<Rightarrow> ('w, string + Observation) rt) \<Rightarrow> Observation \<Rightarrow> ('w, rt_error option) rt" where
  "beforeSend look ob = do {
     r \<leftarrow> look (ob_AgentID ob);
     return (case r of
       Inl err \<Rightarrow> Some [ErrNotReady, ErrOther err]
     | Inr fresh \<Rightarrow> if unmoved ob fresh then None else Some [ErrNotReady]) }"

fun TrimRightByte :: "char \<Rightarrow> string \<Rightarrow> string" where
  "TrimRightByte c s = rev (dropWhile (\<lambda>x. x = c) (rev s))"

definition followupInput :: "(string \<Rightarrow> ('w, string + Observation) rt) \<Rightarrow> Observation \<Rightarrow> string \<Rightarrow> 'w SendInputRequest" where
  "followupInput look ob instruction = \<lparr>si_PaneID = ob_PaneID ob, si_Text = TrimRightByte NL instruction @ [NL],
     si_OwnershipToken = ob_OwnershipToken ob, si_BeforeSend = Some (beforeSend look ob)\<rparr>"

definition SendFollowup :: "'w Backend \<Rightarrow> (string \<Rightarrow> ('w, string + Observation) rt) \<Rightarrow> Observation \<Rightarrow> string \<Rightarrow> ('w, rt_error option) rt" where
  "SendFollowup be look ob instruction = SendInput be (followupInput look ob instruction)"

text \<open>How the queue reads the result.\<close>

definition sendResult :: "rt_error option \<Rightarrow> send_result" where
  "sendResult r = (case r of None \<Rightarrow> SendDone | Some err \<Rightarrow> if ErrNotReady \<in> set err then SendNotReady else SendFailed (err_text err))"

section \<open>Properties\<close>

text \<open>Readiness is seen, not remembered: an agent is reported ready only if its pane runs, the screen was dumped in this
  very observation and shows an empty composer, and the explanation after it identifies the same agent and pane and
  gives a positive sign of idling.\<close>

lemma ready_is_seen:
  assumes run: "run_state (ObserveAgent ao ansi i) d = (Inr ob, d')" and ready: "ob_Ready ob"
  shows "\<exists>d1 d2 view screen x.
           run_state (runtimeCall ao (SnapshotOutput (ao_backend ao) (ob_PaneID ob) False True)) d1 = (Inr (view, screen), d2) \<and>
           run_state (ExplainAgent ao i) d2 = (Inr x, d') \<and>
           a_ID (ax_Record x) = i \<and> a_PaneID (ax_Record x) = ob_PaneID ob \<and> ob_Running ob \<and>
           positivelyIdle x \<and> promptIsEmpty ansi (a_Kind (ax_Record x)) screen \<and>
           ob_Epoch ob = ax_ObservationEpoch x \<and> ob_WorkingRevision ob = ax_WorkingRevision x"
proof -
  from run ready obtain x0 view0 d1 where ob: "ob_Running (paneObservation x0 view0)"
    "run_state (observeScreen ao ansi i (paneObservation x0 view0)) d1 = (Inr ob, d')"
    by (auto simp: ObserveAgent_def Let_def paneObservation_def split: prod.splits sum.splits if_splits)
  from ob(2) obtain view screen d2 x where
    s: "run_state (runtimeCall ao (SnapshotOutput (ao_backend ao) (ob_PaneID (paneObservation x0 view0)) False True)) d1 = (Inr (view, screen), d2)"
    and x: "run_state (ExplainAgent ao i) d2 = (Inr x, d')" "a_PaneID (ax_Record x) = ob_PaneID (paneObservation x0 view0)" "a_ID (ax_Record x) = i"
    and o: "ob = screenObservation ansi x screen (paneObservation x0 view0)"
    by (auto simp: observeScreen_def split: prod.splits sum.splits if_splits)
  have "ob_PaneID ob = ob_PaneID (paneObservation x0 view0)" "ob_Running ob" "positivelyIdle x" "promptIsEmpty ansi (a_Kind (ax_Record x)) screen"
    "ob_Epoch ob = ax_ObservationEpoch x" "ob_WorkingRevision ob = ax_WorkingRevision x"
    using ready ob(1) unfolding o by (auto simp: screenObservation_def Let_def split: if_splits)
  then show ?thesis using s x by metis
qed

lemma deliver_not_unready:
  assumes "\<And>session z txt s err s'. run_state (be_SendInput be session z txt) s = (Some err, s') \<Longrightarrow> ErrNotReady \<notin> set err"
    and "run_state (deliverInput be req record) s = (r, s')"
  shows "sendResult r \<noteq> SendNotReady"
  using assms(2)
  by (auto simp: deliverInput_def sendResult_def ErrNotReady_def split: prod.splits option.splits if_splits reg_out.splits
      dest!: assms(1) [unfolded ErrNotReady_def])

text \<open>The guarantee that the queues rely on: when a send is answered with not ready, no input was attempted. Whatever the
  backend would have done on input makes no difference to the answer and to the daemon.\<close>

theorem not_ready_sends_nothing:
  assumes honest: "\<And>session z txt s err s'. run_state (be_SendInput be session z txt) s = (Some err, s') \<Longrightarrow> ErrNotReady \<notin> set err"
    and run: "run_state (SendFollowup be look ob instruction) s = (r, s')" and r: "sendResult r = SendNotReady"
  shows "run_state (SendFollowup (be\<lparr>be_SendInput := f\<rparr>) look ob instruction) s = (r, s')"
proof -
  have no: False if "run_state (deliverInput be req p) s1 = (r, s')" for req p s1
    by (rule notE [OF deliver_not_unready [OF _ that] r]) (rule honest)
  show ?thesis
    using run unfolding SendFollowup_def SendInput_def inputTarget_SendInput guardedTarget_SendInput
    by (auto split: prod.splits sum.splits option.splits if_splits dest: no)
qed

definition demo_followup :: Observation where
  "demo_followup = \<lparr>ob_AgentID = ''agent'', ob_PaneID = ''a'', ob_OwnershipToken = ''tok'', ob_Reason = [], ob_State = ''idle'',
     ob_Running = True, ob_Ready = True, ob_Epoch = 1, ob_WorkingRevision = 1, ob_ObservedAt = 5, ob_LastWorkingAt = 3\<rparr>"

theorem not_ready_sends_nothing_witness:
  "let s = snd (run_state (forEach [RClaim demo_claim, RReconcile] (rt_exec demo_backend)) demo_service);
       look = (\<lambda>_. return (Inl ''gone''))
   in sendResult (fst (run_state (SendFollowup demo_backend look demo_followup ''go'') s)) = SendNotReady \<and>
      run_state (SendFollowup (demo_backend\<lparr>be_SendInput := (\<lambda>_ _ _. return (Some [ErrCanceled]))\<rparr>) look demo_followup ''go'') s =
      run_state (SendFollowup demo_backend look demo_followup ''go'') s"
proof -
  let ?s = "snd (run_state (forEach [RClaim demo_claim, RReconcile] (rt_exec demo_backend)) demo_service)"
  let ?look = "\<lambda>_. return (Inl ''gone'') :: (nat, string + Observation) rt"
  have nr: "sendResult (fst (run_state (SendFollowup demo_backend ?look demo_followup ''go'') ?s)) = SendNotReady" by code_simp
  obtain r s' where run: "run_state (SendFollowup demo_backend ?look demo_followup ''go'') ?s = (r, s')"
    by (cases "run_state (SendFollowup demo_backend ?look demo_followup ''go'') ?s")
  have "run_state (SendFollowup (demo_backend\<lparr>be_SendInput := (\<lambda>_ _ _. return (Some [ErrCanceled]))\<rparr>) ?look demo_followup ''go'') ?s = (r, s')"
    by (rule not_ready_sends_nothing [OF _ run]) (use nr run in \<open>simp_all add: demo_backend_def\<close>)
  then show ?thesis using nr run by (simp only: Let_def)
qed

end
