(* ===== verification/Ticket_Store.thy ===== *)
theory Ticket_Store
  imports Agent_Store
begin

text \<open>
  The tickets of the ticket worker, \<^verbatim>\<open>src/internal/ticketworker/model.go\<close> and \<^verbatim>\<open>store.go\<close>: a table in SQLite that
  several processes share, the manager and the command line. A method is one transaction, so it is a function on the
  table; the clock and a failure of the storage are arguments, and a failure rolls back. Times are nanoseconds; the
  table keeps them as RFC 3339 texts, and that text is what the queue is ordered by. Opening, migrations and the
  schema's checks, which the normalised inputs meet, are left out.
\<close>

section \<open>Data\<close>

type_synonym TicketStatus = string

definition TicketReady :: TicketStatus where "TicketReady = ''ready''"
definition TicketInProgress :: TicketStatus where "TicketInProgress = ''in_progress''"
definition TicketDone :: TicketStatus where "TicketDone = ''done''"
definition TicketCancelled :: TicketStatus where "TicketCancelled = ''cancelled''"

lemmas ticket_status_defs = TicketReady_def TicketInProgress_def TicketDone_def TicketCancelled_def

type_synonym Action = string

definition ActionStart :: Action where "ActionStart = ''start''"
definition ActionDone :: Action where "ActionDone = ''done''"
definition ActionCancel :: Action where "ActionCancel = ''cancel''"
definition ActionReopen :: Action where "ActionReopen = ''reopen''"

lemmas action_defs = ActionStart_def ActionDone_def ActionCancel_def ActionReopen_def

datatype ticket_error =
    ErrTicketNotFound | ErrDuplicatePlan | ErrEmptyQueue | ErrInvalidStatus | ErrInvalidTransition | ErrInvalidArtifact
  | ErrInvalidPrompt | ErrInvalidWorktreeBranch | ErrInvalidAgent | ErrTicketStorage string

record Ticket =
  tk_ID :: int
  tk_Title :: string
  tk_Summary :: string
  tk_SpecPath :: string
  tk_PlanPath :: string
  tk_WorktreeBranch :: string
  tk_Worktree :: bool
  tk_Agent :: string
  tk_Prompt :: string
  tk_Status :: TicketStatus
  tk_CreatedAt :: time
  tk_UpdatedAt :: time
  tk_StartedAt :: "time option"
  tk_CompletedAt :: "time option"
  tk_CancelledAt :: "time option"

record CreateInput =
  ci_Title :: string
  ci_Summary :: string
  ci_SpecPath :: string
  ci_PlanPath :: string
  ci_WorktreeBranch :: string
  ci_Worktree :: bool
  ci_Agent :: string
  ci_Prompt :: string

text \<open>The table, with SQLite's counter of identifiers.\<close>

record TicketDB =
  td_rows :: "Ticket list"
  td_next :: int

definition emptyTickets :: TicketDB where
  "emptyTickets = \<lparr>td_rows = [], td_next = 1\<rparr>"

section \<open>Times as texts\<close>

text \<open>\<open>Format(time.RFC3339Nano)\<close> of an instant in UTC: the civil date of a number of days, two digits for the rest, and the
  fraction of a second without its trailing zeros.\<close>

definition civil :: "int \<Rightarrow> int \<times> int \<times> int" where
  "civil days =
     (let z = days + 719468;
          era = z div 146097;
          doe = z mod 146097;
          yoe = (doe - doe div 1460 + doe div 36524 - doe div 146096) div 365;
          doy = doe - (365 * yoe + yoe div 4 - yoe div 100);
          mp = (5 * doy + 2) div 153;
          d = doy - (153 * mp + 2) div 5 + 1;
          m = (if mp < 10 then mp + 3 else mp - 9)
      in (yoe + era * 400 + (if m \<le> 2 then 1 else 0), m, d))"

definition padded :: "nat \<Rightarrow> int \<Rightarrow> string" where
  "padded width n = (let s = Itoa n in replicate (width - length s) CHR ''0'' @ s)"

definition fraction :: "int \<Rightarrow> string" where
  "fraction ns = (if ns = 0 then [] else CHR ''.'' # rev (dropWhile (\<lambda>c. c = CHR ''0'') (rev (padded 9 ns))))"

definition RFC3339Nano :: "time \<Rightarrow> string" where
  "RFC3339Nano t =
     (let seconds = t div 10 ^ 9; (y, m, d) = civil (seconds div 86400); s = seconds mod 86400
      in padded 4 y @ ''-'' @ padded 2 m @ ''-'' @ padded 2 d @ ''T'' @ padded 2 (s div 3600) @ '':'' @ padded 2 (s div 60 mod 60) @
         '':'' @ padded 2 (s mod 60) @ fraction (t mod 10 ^ 9) @ ''Z'')"

section \<open>Operations\<close>

definition completionMarkerPrefix :: string where
  "completionMarkerPrefix = ''ZELLIJ_AGENT_TICKET_DONE''"

definition normalizeCreateInput :: "CreateInput \<Rightarrow> ticket_error + (string \<times> string \<times> string \<times> string \<times> string)" where
  "normalizeCreateInput inp =
     (let title = TrimSpace (ci_Title inp); summary = TrimSpace (ci_Summary inp); branch = TrimSpace (ci_WorktreeBranch inp);
          agent = (if TrimSpace (ci_Agent inp) = [] then KindCodex else TrimSpace (ci_Agent inp)); prompt = TrimSpace (ci_Prompt inp)
      in if prompt = [] \<or> Contains prompt completionMarkerPrefix then Inl ErrInvalidPrompt
         else if title = [] \<or> summary = [] then Inl ErrInvalidArtifact
         else if branch = [] then Inl ErrInvalidWorktreeBranch
         else if ParseKind agent = None then Inl ErrInvalidAgent
         else Inr (title, summary, branch, agent, prompt))"

definition insertTicket :: "string option \<Rightarrow> time \<Rightarrow> Ticket \<Rightarrow> TicketDB \<Rightarrow> TicketDB \<times> (ticket_error + Ticket)" where
  "insertTicket fault now t db =
     (case fault of
        Some e \<Rightarrow> (db, Inl (ErrTicketStorage e))
      | None \<Rightarrow>
          if tk_PlanPath t \<noteq> [] \<and> list_ex (\<lambda>r. tk_PlanPath r = tk_PlanPath t) (td_rows db) then (db, Inl ErrDuplicatePlan)
          else let t' = t\<lparr>tk_ID := td_next db, tk_Status := TicketReady, tk_CreatedAt := now, tk_UpdatedAt := now, tk_StartedAt := None,
                     tk_CompletedAt := None, tk_CancelledAt := None\<rparr>
            in (\<lparr>td_rows = td_rows db @ [t'], td_next = td_next db + 1\<rparr>, Inr t'))"

definition AddTicket :: "string option \<Rightarrow> time \<Rightarrow> CreateInput \<Rightarrow> TicketDB \<Rightarrow> TicketDB \<times> (ticket_error + Ticket)" where
  "AddTicket fault now inp db =
     (case normalizeCreateInput inp of
        Inl e \<Rightarrow> (db, Inl e)
      | Inr (title, summary, branch, agent, prompt) \<Rightarrow>
          insertTicket fault now \<lparr>tk_ID = 0, tk_Title = title, tk_Summary = summary, tk_SpecPath = [], tk_PlanPath = [],
            tk_WorktreeBranch = branch, tk_Worktree = ci_Worktree inp, tk_Agent = agent, tk_Prompt = prompt, tk_Status = [],
            tk_CreatedAt = now, tk_UpdatedAt = now, tk_StartedAt = None, tk_CompletedAt = None, tk_CancelledAt = None\<rparr> db)"

definition findTicket :: "int \<Rightarrow> TicketDB \<Rightarrow> Ticket option" where
  "findTicket i db = find (\<lambda>t. tk_ID t = i) (td_rows db)"

definition GetTicket :: "string option \<Rightarrow> int \<Rightarrow> TicketDB \<Rightarrow> ticket_error + Ticket" where
  "GetTicket fault i db =
     (case fault of
        Some e \<Rightarrow> Inl (ErrTicketStorage e)
      | None \<Rightarrow> (case findTicket i db of None \<Rightarrow> Inl ErrTicketNotFound | Some t \<Rightarrow> Inr t))"

text \<open>\<open>ORDER BY created_at ASC, id ASC\<close>, on the texts.\<close>

definition queueKey :: "Ticket \<Rightarrow> string \<times> int" where
  "queueKey t = (RFC3339Nano (tk_CreatedAt t), tk_ID t)"

definition validTicketStatus :: "TicketStatus \<Rightarrow> bool" where
  "validTicketStatus st \<longleftrightarrow> st \<in> {TicketReady, TicketInProgress, TicketDone, TicketCancelled}"

definition ListTickets :: "string option \<Rightarrow> TicketStatus option \<Rightarrow> TicketDB \<Rightarrow> ticket_error + Ticket list" where
  "ListTickets fault flt db =
     (if flt \<noteq> None \<and> \<not> validTicketStatus (the flt) then Inl ErrInvalidStatus
      else case fault of
        Some e \<Rightarrow> Inl (ErrTicketStorage e)
      | None \<Rightarrow> Inr (sort_key queueKey (filter (\<lambda>t. flt = None \<or> tk_Status t = the flt) (td_rows db))))"

text \<open>\<open>UPDATE tickets \<dots> WHERE id = ?\<close>\<close>

definition storeTicket :: "Ticket \<Rightarrow> TicketDB \<Rightarrow> TicketDB" where
  "storeTicket t db = db\<lparr>td_rows := map (\<lambda>r. if tk_ID r = tk_ID t then t else r) (td_rows db)\<rparr>"

definition NextTicket :: "string option \<Rightarrow> time \<Rightarrow> TicketDB \<Rightarrow> TicketDB \<times> (ticket_error + Ticket)" where
  "NextTicket fault now db =
     (case fault of
        Some e \<Rightarrow> (db, Inl (ErrTicketStorage e))
      | None \<Rightarrow> (case sort_key queueKey (filter (\<lambda>t. tk_Status t = TicketReady) (td_rows db)) of
            [] \<Rightarrow> (db, Inl ErrEmptyQueue)
          | t # _ \<Rightarrow>
              let t' = t\<lparr>tk_Status := TicketInProgress, tk_UpdatedAt := now, tk_StartedAt := Some now\<rparr>
              in (storeTicket t' db, Inr t')))"

definition allowedTransitions :: "(Action, (TicketStatus, TicketStatus) gomap) gomap" where
  "allowedTransitions =
     [(ActionStart, [(TicketReady, TicketInProgress)]), (ActionDone, [(TicketInProgress, TicketDone)]),
      (ActionCancel, [(TicketReady, TicketCancelled), (TicketInProgress, TicketCancelled)]),
      (ActionReopen, [(TicketDone, TicketReady), (TicketCancelled, TicketReady)])]"

definition stampAction :: "Action \<Rightarrow> time \<Rightarrow> Ticket \<Rightarrow> Ticket" where
  "stampAction action now t =
     (if action = ActionStart then t\<lparr>tk_StartedAt := Some now\<rparr>
      else if action = ActionDone then t\<lparr>tk_CompletedAt := Some now\<rparr>
      else if action = ActionCancel then t\<lparr>tk_CancelledAt := Some now\<rparr>
      else if action = ActionReopen then t\<lparr>tk_StartedAt := None, tk_CompletedAt := None, tk_CancelledAt := None\<rparr>
      else t)"

definition TransitionTicket :: "string option \<Rightarrow> time \<Rightarrow> int \<Rightarrow> Action \<Rightarrow> TicketDB \<Rightarrow> TicketDB \<times> (ticket_error + Ticket)" where
  "TransitionTicket fault now i action db =
     (case GetTicket fault i db of
        Inl e \<Rightarrow> (db, Inl e)
      | Inr t \<Rightarrow>
          (case mget allowedTransitions action of
             None \<Rightarrow> (db, Inl ErrInvalidTransition)
           | Some targets \<Rightarrow> (case mget targets (tk_Status t) of
                None \<Rightarrow> (db, Inl ErrInvalidTransition)
              | Some target \<Rightarrow>
                  let t' = (stampAction action now t)\<lparr>tk_Status := target, tk_UpdatedAt := now\<rparr>
                  in (storeTicket t' db, Inr t'))))"

definition RequeueTicket :: "string option \<Rightarrow> time \<Rightarrow> int \<Rightarrow> TicketDB \<Rightarrow> TicketDB \<times> (ticket_error + Ticket)" where
  "RequeueTicket fault now i db =
     (case GetTicket fault i db of
        Inl e \<Rightarrow> (db, Inl e)
      | Inr t \<Rightarrow>
          if tk_Status t \<noteq> TicketInProgress then (db, Inl ErrInvalidTransition)
          else let t' = t\<lparr>tk_Status := TicketReady, tk_UpdatedAt := now, tk_StartedAt := None\<rparr>
            in (storeTicket t' db, Inr t'))"

section \<open>Runs\<close>

datatype ticket_op =
    TAdd CreateInput | TNext | TTransition int Action | TRequeue int

fun ticket_exec :: "string option \<Rightarrow> time \<Rightarrow> ticket_op \<Rightarrow> TicketDB \<Rightarrow> TicketDB \<times> (ticket_error + Ticket)" where
  "ticket_exec fault now (TAdd inp) db = AddTicket fault now inp db"
| "ticket_exec fault now TNext db = NextTicket fault now db"
| "ticket_exec fault now (TTransition i a) db = TransitionTicket fault now i a db"
| "ticket_exec fault now (TRequeue i) db = RequeueTicket fault now i db"

text \<open>A run with its trace: which operation succeeded on which ticket.\<close>

fun ticket_run :: "(string option \<times> time \<times> ticket_op) list \<Rightarrow> TicketDB \<Rightarrow> TicketDB \<times> (ticket_op \<times> int) list" where
  "ticket_run [] db = (db, [])"
| "ticket_run ((fault, now, op) # ops) db =
     (let (db1, r) = ticket_exec fault now op db; (db2, tr) = ticket_run ops db1
      in (db2, (case r of Inl _ \<Rightarrow> tr | Inr t \<Rightarrow> (op, tk_ID t) # tr)))"

fun claiming :: "ticket_op \<Rightarrow> bool" where
  "claiming TNext = True"
| "claiming (TTransition i a) = (a = ActionStart)"
| "claiming _ = False"

fun releasing :: "ticket_op \<Rightarrow> bool" where
  "releasing (TRequeue i) = True"
| "releasing (TTransition i a) = (a = ActionReopen)"
| "releasing _ = False"

section \<open>Invariants\<close>

text \<open>The times of a ticket say what its status says.\<close>

definition times_ok :: "Ticket \<Rightarrow> bool" where
  "times_ok t \<longleftrightarrow>
     (tk_Status t = TicketReady \<and> tk_StartedAt t = None \<and> tk_CompletedAt t = None \<and> tk_CancelledAt t = None) \<or>
     (tk_Status t = TicketInProgress \<and> tk_StartedAt t \<noteq> None \<and> tk_CompletedAt t = None \<and> tk_CancelledAt t = None) \<or>
     (tk_Status t = TicketDone \<and> tk_StartedAt t \<noteq> None \<and> tk_CompletedAt t \<noteq> None \<and> tk_CancelledAt t = None) \<or>
     (tk_Status t = TicketCancelled \<and> tk_CompletedAt t = None \<and> tk_CancelledAt t \<noteq> None)"

definition tickets_ok :: "TicketDB \<Rightarrow> bool" where
  "tickets_ok db \<longleftrightarrow> distinct (map tk_ID (td_rows db)) \<and> (\<forall>t \<in> set (td_rows db). 0 < tk_ID t \<and> tk_ID t < td_next db \<and> times_ok t) \<and> 0 < td_next db"

lemma status_distinct [simp]:
  "TicketReady \<noteq> TicketInProgress" "TicketReady \<noteq> TicketDone" "TicketReady \<noteq> TicketCancelled" "TicketInProgress \<noteq> TicketDone"
  "TicketInProgress \<noteq> TicketCancelled" "TicketDone \<noteq> TicketCancelled" "TicketInProgress \<noteq> TicketReady" "TicketDone \<noteq> TicketReady"
  "TicketCancelled \<noteq> TicketReady" "TicketDone \<noteq> TicketInProgress" "TicketCancelled \<noteq> TicketInProgress" "TicketCancelled \<noteq> TicketDone"
  by (simp_all add: ticket_status_defs)

lemma action_distinct [simp]:
  "ActionStart \<noteq> ActionDone" "ActionStart \<noteq> ActionCancel" "ActionStart \<noteq> ActionReopen" "ActionDone \<noteq> ActionCancel"
  "ActionDone \<noteq> ActionReopen" "ActionCancel \<noteq> ActionReopen" "ActionDone \<noteq> ActionStart" "ActionCancel \<noteq> ActionStart"
  "ActionReopen \<noteq> ActionStart" "ActionCancel \<noteq> ActionDone" "ActionReopen \<noteq> ActionDone" "ActionReopen \<noteq> ActionCancel"
  by (simp_all add: action_defs)

text \<open>What a successful change of a ticket did, whichever operation made it.\<close>

definition changes :: "ticket_op \<Rightarrow> Ticket \<Rightarrow> Ticket \<Rightarrow> bool" where
  "changes op t t' \<longleftrightarrow> tk_ID t' = tk_ID t \<and> times_ok t' \<and>
     (claiming op \<longrightarrow> tk_Status t = TicketReady \<and> tk_Status t' = TicketInProgress) \<and>
     (releasing op \<longrightarrow> tk_Status t \<noteq> TicketReady \<and> tk_Status t' = TicketReady) \<and>
     (\<not> claiming op \<and> \<not> releasing op \<longrightarrow> tk_Status t' \<noteq> TicketReady)"

lemma transition_changes:
  assumes "times_ok t" "mget allowedTransitions action = Some targets" "mget targets (tk_Status t) = Some target"
  shows "changes (TTransition i action) t ((stampAction action now t)\<lparr>tk_Status := target, tk_UpdatedAt := now\<rparr>)"
  using assms
  by (auto simp: allowedTransitions_def changes_def times_ok_def stampAction_def split: if_splits)

lemma set_storeTicket:
  assumes "distinct (map tk_ID (td_rows db))" "t \<in> set (td_rows db)" "tk_ID t' = tk_ID t"
  shows "map tk_ID (td_rows (storeTicket t' db)) = map tk_ID (td_rows db)"
    "set (td_rows (storeTicket t' db)) = insert t' (set (td_rows db) - {t})"
proof -
  show "map tk_ID (td_rows (storeTicket t' db)) = map tk_ID (td_rows db)" by (auto simp: storeTicket_def)
  have "(if tk_ID r = tk_ID t' then t' else r) = (if r = t then t' else r)" if "r \<in> set (td_rows db)" for r
    using assms that by (auto simp: distinct_map inj_on_def)
  then have "set (td_rows (storeTicket t' db)) = (\<lambda>r. if r = t then t' else r) ` set (td_rows db)"
    by (simp add: storeTicket_def)
  then show "set (td_rows (storeTicket t' db)) = insert t' (set (td_rows db) - {t})" using assms(2) by auto
qed

lemma tickets_ok_store:
  assumes "tickets_ok db" "t \<in> set (td_rows db)" "changes op t t'"
  shows "tickets_ok (storeTicket t' db)"
proof -
  have d: "distinct (map tk_ID (td_rows db))" and i: "tk_ID t' = tk_ID t" using assms by (auto simp: tickets_ok_def changes_def)
  have "td_next (storeTicket t' db) = td_next db" by (simp add: storeTicket_def)
  then show ?thesis using assms set_storeTicket [OF d assms(2) i] by (auto simp: tickets_ok_def changes_def)
qed

text \<open>Every operation adds a ticket, changes one, or does nothing.\<close>

lemma ticket_exec_cases:
  assumes ok: "tickets_ok db" and run: "ticket_exec fault now op db = (db', r)"
  obtains (failed) e where "r = Inl e" "db' = db"
  | (added) t inp where "op = TAdd inp" "r = Inr t" "db' = \<lparr>td_rows = td_rows db @ [t], td_next = td_next db + 1\<rparr>" "tk_ID t = td_next db"
      "tk_Status t = TicketReady" "times_ok t"
  | (changed) t t' where "\<not> (\<exists>inp. op = TAdd inp)" "r = Inr t'" "db' = storeTicket t' db" "t \<in> set (td_rows db)" "changes op t t'"
proof (cases op)
  case (TAdd inp)
  show thesis
  proof (cases "\<exists>e. r = Inl e")
    case True
    then show thesis using run TAdd failed
      by (auto simp: AddTicket_def insertTicket_def Let_def split: sum.splits option.splits if_splits)
  next
    case False
    then show thesis using run TAdd added
      by (auto simp: AddTicket_def insertTicket_def Let_def times_ok_def split: sum.splits option.splits if_splits)
  qed
next
  case TNext
  show thesis
  proof (cases "fault = None \<and> filter (\<lambda>t. tk_Status t = TicketReady) (td_rows db) \<noteq> []")
    case False
    then have "\<exists>e. r = Inl e \<and> db' = db" using run TNext by (auto simp: NextTicket_def split: option.splits)
    then show thesis using failed by blast
  next
    case True
    define q where "q = sort_key queueKey (filter (\<lambda>t. tk_Status t = TicketReady) (td_rows db))"
    have "q \<noteq> []" using True unfolding q_def by (metis length_0_conv length_sort)
    then obtain t rest where q: "q = t # rest" by (cases q) auto
    have "set q = set (filter (\<lambda>t. tk_Status t = TicketReady) (td_rows db))" by (simp add: q_def)
    then have t: "t \<in> set (td_rows db)" "tk_Status t = TicketReady" using q by auto
    let ?t = "t\<lparr>tk_Status := TicketInProgress, tk_UpdatedAt := now, tk_StartedAt := Some now\<rparr>"
    have "changes TNext t ?t" using ok t by (auto simp: tickets_ok_def changes_def times_ok_def)
    moreover have "r = Inr ?t" "db' = storeTicket ?t db"
      using run TNext True q unfolding q_def by (simp_all add: NextTicket_def Let_def)
    ultimately show thesis using changed [of ?t t] t TNext by simp
  qed
next
  case (TTransition i a)
  show thesis
  proof (cases "GetTicket fault i db")
    case (Inl e)
    then have "r = Inl e" "db' = db" using run TTransition by (auto simp: TransitionTicket_def)
    then show thesis by (rule failed)
  next
    case (Inr t)
    let ?t = "\<lambda>target. (stampAction a now t)\<lparr>tk_Status := target, tk_UpdatedAt := now\<rparr>"
    have m: "t \<in> set (td_rows db)" using Inr by (auto simp: GetTicket_def findTicket_def find_Some_iff split: option.splits)
    consider "\<exists>e. r = Inl e \<and> db' = db"
      | targets target where "mget allowedTransitions a = Some targets" "mget targets (tk_Status t) = Some target"
          "r = Inr (?t target)" "db' = storeTicket (?t target) db"
      using run TTransition Inr by (auto simp: TransitionTicket_def Let_def split: option.splits)
    then show thesis
    proof cases
      case 1
      then show thesis using failed by blast
    next
      case 2
      then show thesis
        using changed [OF _ 2(3,4) m] transition_changes [OF _ 2(1,2), of i now] ok m TTransition by (auto simp: tickets_ok_def)
    qed
  qed
next
  case (TRequeue i)
  show thesis
  proof (cases "GetTicket fault i db")
    case (Inl e)
    then have "r = Inl e" "db' = db" using run TRequeue by (auto simp: RequeueTicket_def)
    then show thesis by (rule failed)
  next
    case (Inr t)
    let ?t = "t\<lparr>tk_Status := TicketReady, tk_UpdatedAt := now, tk_StartedAt := None\<rparr>"
    have m: "t \<in> set (td_rows db)" using Inr by (auto simp: GetTicket_def findTicket_def find_Some_iff split: option.splits)
    show thesis
    proof (cases "tk_Status t = TicketInProgress")
      case False
      then have "r = Inl ErrInvalidTransition" "db' = db" using run TRequeue Inr by (auto simp: RequeueTicket_def)
      then show thesis by (rule failed)
    next
      case True
      then have "r = Inr ?t" "db' = storeTicket ?t db" using run TRequeue Inr by (auto simp: RequeueTicket_def Let_def)
      moreover have "changes (TRequeue i) t ?t" using ok m True by (auto simp: tickets_ok_def changes_def times_ok_def)
      ultimately show thesis using changed [of ?t t] m TRequeue by simp
    qed
  qed
qed

lemma tickets_ok_exec:
  assumes ok: "tickets_ok db" and run: "ticket_exec fault now op db = (db', r)"
  shows "tickets_ok db'"
  using ok run
proof (cases rule: ticket_exec_cases)
  case (added t inp)
  then show ?thesis using ok by (auto simp: tickets_ok_def)
qed (auto intro: tickets_ok_store ok)

lemma tickets_ok_empty [simp]: "tickets_ok emptyTickets"
  by (simp add: tickets_ok_def emptyTickets_def)

section \<open>Claims\<close>

text \<open>How often a ticket is held: once when it is not ready.\<close>

definition held :: "int \<Rightarrow> TicketDB \<Rightarrow> nat" where
  "held i db = (case findTicket i db of None \<Rightarrow> 0 | Some t \<Rightarrow> if tk_Status t = TicketReady then 0 else 1)"

definition claims :: "int \<Rightarrow> (ticket_op \<times> int) list \<Rightarrow> nat" where
  "claims i tr = length (filter (\<lambda>(op, j). j = i \<and> claiming op) tr)"

definition releases :: "int \<Rightarrow> (ticket_op \<times> int) list \<Rightarrow> nat" where
  "releases i tr = length (filter (\<lambda>(op, j). j = i \<and> releasing op) tr)"

lemma findTicket_unique:
  assumes "distinct (map tk_ID (td_rows db))" "t \<in> set (td_rows db)"
  shows "findTicket (tk_ID t) db = Some t"
proof -
  obtain t' where f: "findTicket (tk_ID t) db = Some t'" using assms(2) by (cases "findTicket (tk_ID t) db") (auto simp: findTicket_def find_None_iff)
  then have "t' \<in> set (td_rows db)" "tk_ID t' = tk_ID t" by (auto simp: findTicket_def find_Some_iff)
  then show ?thesis using assms f by (metis eq_key_imp_eq_value inj_onD distinct_map)
qed

lemma findTicket_store:
  assumes "tickets_ok db" "t \<in> set (td_rows db)" "tk_ID t' = tk_ID t"
  shows "findTicket i (storeTicket t' db) = (if i = tk_ID t then Some t' else findTicket i db)"
proof (cases "i = tk_ID t")
  case True
  have d: "distinct (map tk_ID (td_rows db))" using assms(1) by (simp add: tickets_ok_def)
  note s = set_storeTicket [OF d assms(2,3)]
  have "findTicket (tk_ID t') (storeTicket t' db) = Some t'" using findTicket_unique [of "storeTicket t' db" t'] s d by simp
  then show ?thesis using True assms(3) by simp
next
  case False
  have "find (\<lambda>r. tk_ID r = i) (map (\<lambda>r. if tk_ID r = tk_ID t' then t' else r) rows) = find (\<lambda>r. tk_ID r = i) rows" for rows
    using False assms(3) by (induction rows) auto
  then show ?thesis using False by (simp add: findTicket_def storeTicket_def)
qed

lemma findTicket_append:
  "findTicket i \<lparr>td_rows = td_rows db @ [t], td_next = n\<rparr> =
     (case findTicket i db of Some r \<Rightarrow> Some r | None \<Rightarrow> if tk_ID t = i then Some t else None)"
proof -
  have "find P (rows @ [t]) = (case find P rows of Some r \<Rightarrow> Some r | None \<Rightarrow> if P t then Some t else None)" for P rows
    by (induction rows) auto
  then show ?thesis by (simp add: findTicket_def)
qed

text \<open>An operation holds a ticket exactly when it claims it, and gives it up exactly when it releases it.\<close>

lemma held_exec:
  assumes ok: "tickets_ok db" and run: "ticket_exec fault now op db = (db', r)"
  shows "held i db' + (case r of Inr t \<Rightarrow> if tk_ID t = i \<and> releasing op then 1 else 0 | Inl _ \<Rightarrow> 0) \<ge>
         (case r of Inr t \<Rightarrow> if tk_ID t = i \<and> claiming op then 1 else 0 | Inl _ \<Rightarrow> 0) + held i db"
  using ok run
proof (cases rule: ticket_exec_cases)
  case (failed e)
  then show ?thesis by simp
next
  case (added t inp)
  then show ?thesis by (auto simp: held_def findTicket_append split: option.splits)
next
  case (changed t t')
  have d: "distinct (map tk_ID (td_rows db))" using ok by (simp add: tickets_ok_def)
  have t: "findTicket (tk_ID t) db = Some t" using findTicket_unique [OF d changed(4)] .
  have "findTicket i db' = (if i = tk_ID t then Some t' else findTicket i db)"
    using findTicket_store [OF ok changed(4)] changed by (simp add: changes_def)
  then show ?thesis using changed t by (auto simp: held_def changes_def split: option.splits)
qed

lemma claims_run:
  assumes "tickets_ok db" "ticket_run ops db = (db', tr)"
  shows "claims i tr + held i db \<le> releases i tr + held i db'"
  using assms
proof (induction ops arbitrary: db tr)
  case Nil
  then show ?case by (simp add: claims_def releases_def)
next
  case (Cons x ops)
  obtain fault now op where x: "x = (fault, now, op)" by (cases x)
  obtain db1 r where e: "ticket_exec fault now op db = (db1, r)" by fastforce
  obtain tr1 where r1: "ticket_run ops db1 = (db', tr1)" and tr: "tr = (case r of Inl _ \<Rightarrow> tr1 | Inr t \<Rightarrow> (op, tk_ID t) # tr1)"
    using Cons.prems(2) x e by (auto split: prod.splits)
  have "claims i tr1 + held i db1 \<le> releases i tr1 + held i db'" using Cons.IH [OF tickets_ok_exec [OF Cons.prems(1) e] r1] .
  then show ?case using held_exec [OF Cons.prems(1) e, of i] tr by (auto simp: claims_def releases_def split: sum.splits)
qed

lemma tickets_ok_run:
  assumes "tickets_ok db" "ticket_run ops db = (db', tr)"
  shows "tickets_ok db'"
  using assms
proof (induction ops arbitrary: db tr)
  case (Cons x ops)
  then show ?case using tickets_ok_exec by (cases x) (fastforce split: prod.splits)
qed simp

section \<open>Properties\<close>


text \<open>In every run identifiers stay unique, every ticket has one of the four statuses, and its times say which: a
  ready ticket has none, one in progress has been started, one that is done has been started and completed, and one
  that is cancelled has been cancelled and not completed.\<close>

theorem ticket_times_consistent: "tickets_ok (fst (ticket_run ops emptyTickets))"
  using tickets_ok_run [OF tickets_ok_empty surjective_pairing] .

text \<open>The queue is ordered by the texts of the times, which drop the zeros at the end of the fraction: \<open>.5Z\<close> comes before
  \<open>Z\<close>.\<close>

definition sampleTicket :: CreateInput where
  "sampleTicket = \<lparr>ci_Title = ''t'', ci_Summary = ''s'', ci_SpecPath = [], ci_PlanPath = [], ci_WorktreeBranch = ''b'', ci_Worktree = False, ci_Agent = [], ci_Prompt = ''p''\<rparr>"

lemma nat_digits_steps:
  "n < 10 \<Longrightarrow> nat_digits n = [char_of (48 + n)]" "\<not> n < 10 \<Longrightarrow> nat_digits n = nat_digits (n div 10) @ [char_of (48 + n mod 10)]"
  by (simp_all add: nat_digits.simps [of n])

lemma civil_samples: "civil 0 = (1970, 1, 1)" "civil 20666 = (2026, 8, 1)"
  by code_simp+

lemma digits_samples: "nat_digits 0 = ''0''" "nat_digits (Suc 0) = ''1''" "nat_digits 1970 = ''1970''" "nat_digits 500000000 = ''500000000''"
  by (simp_all add: nat_digits_steps char_of_def bit_0)

lemma padded_samples: "padded 2 0 = ''00''" "padded 2 1 = ''01''" "padded 4 1970 = ''1970''" "padded 9 500000000 = ''500000000''"
  by (simp_all add: padded_def Itoa_def digits_samples)

lemma RFC3339Nano_samples: "RFC3339Nano 0 = ''1970-01-01T00:00:00Z''" "RFC3339Nano 500000000 = ''1970-01-01T00:00:00.5Z''"
  by (simp_all add: RFC3339Nano_def civil_samples fraction_def padded_samples)

lemma add_sample:
  "AddTicket None now sampleTicket db =
     (let t = \<lparr>tk_ID = td_next db, tk_Title = ''t'', tk_Summary = ''s'', tk_SpecPath = [], tk_PlanPath = [], tk_WorktreeBranch = ''b'',
        tk_Worktree = False, tk_Agent = ''codex'', tk_Prompt = ''p'', tk_Status = TicketReady, tk_CreatedAt = now, tk_UpdatedAt = now,
        tk_StartedAt = None, tk_CompletedAt = None, tk_CancelledAt = None\<rparr>
      in (\<lparr>td_rows = td_rows db @ [t], td_next = td_next db + 1\<rparr>, Inr t))"
proof -
  have "normalizeCreateInput sampleTicket = Inr (''t'', ''s'', ''b'', ''codex'', ''p'')" by code_simp
  then show ?thesis by (simp add: AddTicket_def insertTicket_def sampleTicket_def Let_def)
qed


end
