(* ===== verification/Ticket_Prompt.thy ===== *)
theory Ticket_Prompt
  imports Ticket_Store
begin

text \<open>
  The instruction given to a worker and the marker by which the worker reports that it is finished,
  \<^verbatim>\<open>src/internal/ticketworker/prompt.go\<close>. The worker's pane shows the instruction, so the instruction itself must not
  count as a report.
\<close>

section \<open>Definitions\<close>

definition completionSummaryPrefix :: string where
  "completionSummaryPrefix = ''ZELLIJ_AGENT_TICKET_SUMMARY''"

definition CompletionMarker :: "int \<Rightarrow> string option" where
  "CompletionMarker i = (if i \<le> 0 then None else Some (completionMarkerPrefix @ '' '' @ Itoa i))"

definition bullet :: string where
  "bullet = [CHR 0xE2, CHR 0x80, CHR 0xA2, CHR '' '']"

definition normalizeCompletionLine :: "string \<Rightarrow> string" where
  "normalizeCompletionLine line = TrimSpace (TrimPrefix (TrimSpace line) bullet)"

text \<open>The loop over the lines.\<close>

fun completionScan :: "string \<Rightarrow> string \<Rightarrow> string list \<Rightarrow> bool \<times> string" where
  "completionScan marker previous [] = (False, [])"
| "completionScan marker previous (l # ls) =
     (let line = normalizeCompletionLine l; prefix = completionSummaryPrefix @ '' ''
      in if line = marker then (True, if HasPrefix previous prefix then TrimSpace (TrimPrefix previous prefix) else [])
         else completionScan marker line ls)"

definition parseCompletionOutput :: "string \<Rightarrow> string \<Rightarrow> bool \<times> string" where
  "parseCompletionOutput output marker = completionScan marker [] (scanLines output)"

definition quoted :: "string \<Rightarrow> string" where
  "quoted s = [CHR 0x22] @ s @ [CHR 0x22]"

text \<open>The three parts of the instruction, in UTF-8; \<open>%q\<close> of printable ASCII is the text in quotes.\<close>

definition instructionStart :: string where
  "instructionStart = map char_of [
    236, 158, 145, 236, 151, 133, 236, 157, 132, 32, 235, 170, 168, 235, 145, 144, 32, 236, 153, 132, 235, 163,
    140, 237, 149, 156, 32, 235, 146, 164, 32, 236, 181, 156, 236, 162, 133, 32, 236, 182, 156, 235, 160, 165,
    236, 157, 152, 32, 235, 167, 136, 236, 167, 128, 235, 167, 137, 32, 235, 145, 144, 32, 236, 164, 132, 236,
    157, 132, 32, 235, 139, 164, 236, 157, 140, 32, 237, 152, 149, 236, 139, 157, 236, 156, 188, 235, 161, 156,
    32, 236, 158, 145, 236, 132, 177, 237, 149, 152, 236, 132, 184, 236, 154, 148, 46, 32, 236, 178, 171, 236,
    167, 184, 32, 236, 164, 132, 236, 157, 128, 32 :: nat]"

definition instructionMiddle :: string where
  "instructionMiddle = map char_of [
    32, 235, 139, 164, 236, 157, 140, 236, 151, 144, 32, 236, 139, 164, 236, 160, 156, 32, 235, 179, 128, 234,
    178, 189, 32, 236, 130, 172, 237, 149, 173, 236, 157, 132, 32, 237, 149, 156, 32, 236, 164, 132, 235, 161,
    156, 32, 234, 176, 132, 234, 178, 176, 237, 149, 152, 234, 178, 140, 32, 236, 154, 148, 236, 149, 189, 237,
    149, 152, 234, 179, 160, 44, 32, 235, 145, 152, 236, 167, 184, 32, 236, 164, 132, 236, 157, 128, 32, 236, 160,
    149, 237, 153, 149, 237, 158, 136, 32 :: nat]"

definition instructionEnd :: string where
  "instructionEnd = map char_of [
    235, 161, 156, 32, 236, 158, 145, 236, 132, 177, 237, 149, 152, 236, 132, 184, 236, 154, 148, 46, 32, 236,
    151, 172, 234, 184, 176, 236, 157, 152, 32, 235, 148, 176, 236, 152, 180, 237, 145, 156, 235, 138, 148, 32,
    236, 132, 164, 235, 170, 133, 236, 154, 169, 236, 157, 180, 235, 169, 176, 32, 236, 139, 164, 236, 160, 156,
    32, 236, 182, 156, 235, 160, 165, 236, 151, 144, 235, 138, 148, 32, 235, 148, 176, 236, 152, 180, 237, 145,
    156, 235, 165, 188, 32, 237, 143, 172, 237, 149, 168, 237, 149, 152, 236, 167, 128, 32, 235, 167, 136, 236,
    132, 184, 236, 154, 148, 46 :: nat]"

definition completionInstruction :: "string \<Rightarrow> string" where
  "completionInstruction marker =
     instructionStart @ quoted completionSummaryPrefix @ instructionMiddle @ quoted marker @ instructionEnd"

definition RenderTicketPrompt :: "Ticket \<Rightarrow> ticket_error + string \<times> string" where
  "RenderTicketPrompt t =
     (case CompletionMarker (tk_ID t) of
        None \<Rightarrow> Inl (ErrTicketStorage ''ticket ID must be positive'')
      | Some marker \<Rightarrow>
          let body = TrimSpace (tk_Prompt t)
          in if body = [] then Inl ErrInvalidPrompt
             else if fst (parseCompletionOutput body marker) then Inl ErrInvalidPrompt
             else Inr (body @ [NL, NL] @ completionInstruction marker, marker))"

section \<open>Lines\<close>

lemma completionScan_done: "fst (completionScan marker previous ls) \<longleftrightarrow> marker \<in> normalizeCompletionLine ` set ls"
  by (induction ls arbitrary: previous) (auto simp: Let_def)

lemma SplitByte_append: "SplitByte c (a @ c # b) = SplitByte c a @ SplitByte c b"
proof (induction a)
  case (Cons x a)
  then show ?case by (cases "SplitByte c a") (auto split: list.splits)
qed simp

lemma SplitByte_none: "c \<notin> set s \<Longrightarrow> SplitByte c s = [s]"
  by (induction s) auto

text \<open>A text that starts with a byte that starts no white space keeps it when it is trimmed at the end.\<close>

definition starts :: "char \<Rightarrow> string \<Rightarrow> bool" where
  "starts c s \<longleftrightarrow> s = [] \<or> hd s = c"

lemma starts_prefix: "starts c (s @ t) \<Longrightarrow> starts c s"
  by (cases s) (auto simp: starts_def)

lemma starts_TrimSpace:
  assumes "starts c s" "\<forall>e \<in> set space_encodings. hd e \<noteq> c"
  shows "starts c (TrimSpace s)"
proof -
  have "False" if "s \<noteq> []" "e \<in> set space_encodings" "s = e @ t" for e t
    using assms that space_encodings_nonempty [OF that(2)] by (auto simp: starts_def)
  then have "s = [] \<or> lead_space s = 0" by (auto simp: lead_space_0 HasPrefix_iff)
  then have "TrimLeftSpace s = s" by (auto simp: TrimLeftSpace.simps)
  moreover obtain t where "s = TrimRightSpace s @ t" using TrimRightSpace_prefix by blast
  ultimately show ?thesis unfolding TrimSpace_def using assms(1) starts_prefix [of c "TrimRightSpace s" t] by simp
qed

lemma starts_normalize:
  assumes "starts c s" "\<forall>e \<in> set space_encodings. hd e \<noteq> c" "c \<noteq> CHR 0xE2"
  shows "starts c (normalizeCompletionLine s)"
proof -
  have "starts c (TrimSpace s)" using starts_TrimSpace assms by blast
  moreover from this have "TrimPrefix (TrimSpace s) bullet = TrimSpace s"
    using assms(3) by (auto simp: TrimPrefix_def HasPrefix_iff bullet_def starts_def)
  ultimately show ?thesis unfolding normalizeCompletionLine_def using starts_TrimSpace assms by simp
qed

lemma scanLines_instruction:
  assumes "NL \<notin> set s" "s \<noteq> []" "l \<in> set (scanLines (body @ [NL, NL] @ s))"
  shows "l \<in> set (scanLines body) \<or> l = [] \<or> l = TrimSuffix s [CR]"
proof -
  let ?P = "\<lambda>l. length l < 65536"
  define ps where "ps = SplitByte NL body"
  have ps: "ps \<noteq> []" by (simp add: ps_def)
  have "SplitByte NL (body @ [NL, NL] @ s) = ps @ [[], s]"
    using SplitByte_append [of NL body "NL # s"] SplitByte_none [OF assms(1)] by (simp add: ps_def)
  then obtain x where x: "x \<in> set (takeWhile ?P (ps @ [[], s]))" "l = TrimSuffix x [CR]"
    using assms(2,3) by (auto simp: scanLines_def)
  define qs where "qs = (if last ps = [] then butlast ps else ps)"
  have "set (takeWhile ?P (ps @ [[], s])) \<subseteq> set (takeWhile ?P qs) \<union> {[], s}"
  proof -
    have "set (takeWhile ?P (xs @ ys)) \<subseteq> set (takeWhile ?P xs) \<union> set ys" for xs ys :: "string list"
      by (induction xs) (auto dest: set_takeWhileD)
    moreover have "ps @ [[], s] = qs @ [[], [], s] \<or> ps @ [[], s] = qs @ [[], s]"
    proof (cases "last ps = []")
      case True
      then have "ps = qs @ [[]]" using append_butlast_last_id [OF ps] by (simp add: qs_def)
      then show ?thesis by simp
    qed (simp add: qs_def)
    ultimately show ?thesis by (metis Un_insert_right empty_set insert_absorb2 list.simps(15))
  qed
  then consider "x \<in> set (takeWhile ?P qs)" | "x = []" | "x = s" using x(1) by auto
  then show ?thesis
  proof cases
    case 1
    moreover have "scanLines body = map (\<lambda>l. TrimSuffix l [CR]) (takeWhile ?P qs)" by (simp add: scanLines_def qs_def ps_def Let_def)
    ultimately show ?thesis using x(2) by auto
  qed (auto simp: x(2) TrimSuffix_def HasSuffix_def)
qed

section \<open>Properties\<close>

lemma instruction_start: "starts (CHR 0xEC) (completionInstruction marker)" "completionInstruction marker \<noteq> []"
  by (simp_all add: completionInstruction_def instructionStart_def starts_def char_of_def bit_0)

lemma space_starts: "\<forall>e \<in> set space_encodings. hd e \<noteq> CHR 0xEC"
  by (simp add: space_encodings_def)

lemma Itoa_no_newline: "NL \<notin> set (Itoa i)"
  using nat_digits_chars [of NL] by (auto simp: Itoa_def less_eq_char_def)

lemma instruction_no_newline:
  assumes "CompletionMarker i = Some marker"
  shows "NL \<notin> set (completionInstruction marker)"
proof -
  have "NL \<notin> set instructionStart" "NL \<notin> set instructionMiddle" "NL \<notin> set instructionEnd"
    by (simp_all add: instructionStart_def instructionMiddle_def instructionEnd_def char_of_def bit_0)
  moreover have "NL \<notin> set marker" using assms Itoa_no_newline [of i]
    by (auto simp: CompletionMarker_def completionMarkerPrefix_def split: if_splits)
  ultimately show ?thesis by (simp add: completionInstruction_def quoted_def completionSummaryPrefix_def)
qed

text \<open>C29. The instruction a worker is given never counts as its report: when its pane shows the rendered prompt, the
  manager does not take the ticket to be completed.\<close>

theorem prompt_is_no_report:
  assumes "RenderTicketPrompt t = Inr (prompt, marker)"
  shows "\<not> fst (parseCompletionOutput prompt marker)"
proof -
  obtain m where m: "CompletionMarker (tk_ID t) = Some marker"
    and p: "prompt = TrimSpace (tk_Prompt t) @ [NL, NL] @ completionInstruction marker"
    and b: "\<not> fst (parseCompletionOutput (TrimSpace (tk_Prompt t)) marker)"
    using assms by (auto simp: RenderTicketPrompt_def Let_def split: option.splits if_splits)
  have z: "\<not> starts (CHR 0xEC) marker" using m by (auto simp: CompletionMarker_def completionMarkerPrefix_def starts_def split: if_splits)
  have "starts (CHR 0xEC) (TrimSuffix (completionInstruction marker) [CR])"
    using instruction_start [of marker] by (auto simp: TrimSuffix_def HasSuffix_iff intro: starts_prefix)
  then have instruction: "normalizeCompletionLine (TrimSuffix (completionInstruction marker) [CR]) \<noteq> marker"
    using starts_normalize [OF _ space_starts] z by force
  have empty: "normalizeCompletionLine [] \<noteq> marker" using z by (auto simp: normalizeCompletionLine_def TrimPrefix_def HasPrefix_def bullet_def starts_def)
  have report: "marker \<notin> normalizeCompletionLine ` set (scanLines (TrimSpace (tk_Prompt t)))"
    using b by (simp add: parseCompletionOutput_def completionScan_done)
  have "normalizeCompletionLine l \<noteq> marker" if l: "l \<in> set (scanLines prompt)" for l
  proof -
    consider "l \<in> set (scanLines (TrimSpace (tk_Prompt t)))" | "l = []" | "l = TrimSuffix (completionInstruction marker) [CR]"
      using scanLines_instruction [OF instruction_no_newline [OF m] instruction_start(2), of l "TrimSpace (tk_Prompt t)"] l p by blast
    then show ?thesis
    proof cases
      case 1
      then show ?thesis using report by blast
    next
      case 2
      then show ?thesis using empty by simp
    next
      case 3
      then show ?thesis using instruction by simp
    qed
  qed
  then show ?thesis by (auto simp: parseCompletionOutput_def completionScan_done)
qed

text \<open>Its hypothesis at a concrete ticket.\<close>

definition sampleRow :: Ticket where
  "sampleRow = \<lparr>tk_ID = 1, tk_Title = ''t'', tk_Summary = ''s'', tk_SpecPath = [], tk_PlanPath = [], tk_WorktreeBranch = ''b'',
     tk_Worktree = False, tk_Agent = ''codex'', tk_Prompt = ''p'', tk_Status = TicketReady, tk_CreatedAt = 0, tk_UpdatedAt = 0,
     tk_StartedAt = None, tk_CompletedAt = None, tk_CancelledAt = None\<rparr>"

lemma sample_marker: "CompletionMarker 1 = Some ''ZELLIJ_AGENT_TICKET_DONE 1''"
  by (simp add: CompletionMarker_def completionMarkerPrefix_def Itoa_def digits_samples)

lemma sample_prompt:
  "RenderTicketPrompt sampleRow = Inr (''p'' @ [NL, NL] @ completionInstruction ''ZELLIJ_AGENT_TICKET_DONE 1'', ''ZELLIJ_AGENT_TICKET_DONE 1'')"
proof -
  have "TrimSpace ''p'' = ''p''" "normalizeCompletionLine ''p'' = ''p''" by code_simp+
  moreover have "scanLines ''p'' = [''p'']" by (simp add: scanLines_def TrimSuffix_def HasSuffix_def)
  ultimately show ?thesis by (simp add: RenderTicketPrompt_def sampleRow_def sample_marker Let_def parseCompletionOutput_def)
qed

theorem prompt_is_no_report_witness:
  "\<not> fst (parseCompletionOutput (''p'' @ [NL, NL] @ completionInstruction ''ZELLIJ_AGENT_TICKET_DONE 1'') ''ZELLIJ_AGENT_TICKET_DONE 1'')"
  using prompt_is_no_report [OF sample_prompt] .

text \<open>The line before the marker, a summary in its own form.\<close>

lemma space_encodings_blank: "e \<in> set space_encodings \<Longrightarrow> CHR '' '' \<in> set e \<Longrightarrow> length e = 1"
  by (auto simp: space_encodings_def)

lemma TrimSpace_after_blank:
  assumes "TrimSpace s = s" "s \<noteq> []" "a \<noteq> []" "lead_space (a @ '' '' @ s) = 0"
  shows "TrimSpace (a @ '' '' @ s) = a @ '' '' @ s"
proof -
  have s: "trail_space s = 0" using TrimRightSpace_trail [of "TrimLeftSpace s"] assms(1,2) unfolding TrimSpace_def by simp
  have "\<not> HasSuffix (a @ '' '' @ s) e" if e: "e \<in> set space_encodings" for e
  proof
    assume "HasSuffix (a @ '' '' @ s) e"
    then obtain t where t: "a @ '' '' @ s = t @ e" by (auto simp: HasSuffix_iff)
    have "\<not> HasSuffix s e" using s e by (simp add: trail_space_0)
    moreover obtain us where "(a @ '' '' = t @ us \<and> us @ s = e) \<or> ((a @ '' '') @ us = t \<and> s = us @ e)"
      using t append_eq_append_conv2 [of "a @ '' ''" s t e] by auto
    ultimately have us: "a @ '' '' = t @ us" "e = us @ s" by (auto simp: HasSuffix_iff)
    have "us \<noteq> []" using us \<open>\<not> HasSuffix s e\<close> by (auto simp: HasSuffix_iff)
    then have "last us = CHR '' ''" using us(1) by (metis last_append last_ConsL list.distinct(1))
    then have "CHR '' '' \<in> set e" using us(2) \<open>us \<noteq> []\<close> by (metis UnCI last_in_set set_append)
    then show False using space_encodings_blank [OF e] us(2) \<open>us \<noteq> []\<close> assms(2) by (cases us; cases s) auto
  qed
  then have "trail_space (a @ '' '' @ s) = 0" by (simp add: trail_space_0)
  then show ?thesis using assms(4) by (simp add: TrimSpace_def TrimLeftSpace.simps TrimRightSpace.simps)
qed

lemma completionScan_skip:
  "marker \<notin> normalizeCompletionLine ` set ls \<Longrightarrow>
     completionScan marker previous (ls @ rest) = completionScan marker (last (previous # map normalizeCompletionLine ls)) rest"
  by (induction ls arbitrary: previous) (auto simp: Let_def)

lemma digits_no_space:
  assumes "s \<noteq> []" "\<forall>c \<in> set s. CHR ''0'' \<le> c \<and> c \<le> CHR ''9''"
  shows "TrimSpace s = s"
proof -
  have "\<exists>c \<in> set e. \<not> (CHR ''0'' \<le> c \<and> c \<le> CHR ''9'')" if "e \<in> set space_encodings" for e
    using that by (auto simp: space_encodings_def less_eq_char_def)
  then have "\<not> HasPrefix s e \<and> \<not> HasSuffix s e" if "e \<in> set space_encodings" for e
    using assms(2) that by (fastforce simp: HasPrefix_iff HasSuffix_iff)
  then have "lead_space s = 0" "trail_space s = 0" by (auto simp: lead_space_0 trail_space_0)
  then show ?thesis by (simp add: TrimSpace_def TrimLeftSpace.simps TrimRightSpace.simps)
qed

lemma Z_no_space: "lead_space (CHR ''Z'' # s) = 0"
  by (auto simp: lead_space_0 space_encodings_def HasPrefix_def)

text \<open>A line of the form the instruction asks for is left as it is.\<close>

lemma normalize_report:
  assumes "TrimSpace s = s" "s \<noteq> []"
  shows "normalizeCompletionLine (TrimSuffix ((CHR ''Z'' # a) @ '' '' @ s) [CR]) = (CHR ''Z'' # a) @ '' '' @ s"
proof -
  have t: "TrimSpace ((CHR ''Z'' # a) @ '' '' @ s) = (CHR ''Z'' # a) @ '' '' @ s"
    using TrimSpace_after_blank [OF assms, of "CHR ''Z'' # a"] Z_no_space by simp
  have "trail_space s = 0" using TrimRightSpace_trail [of "TrimLeftSpace s"] assms unfolding TrimSpace_def by simp
  then have "\<not> HasSuffix s [CR]" by (simp add: trail_space_0 space_encodings_def)
  then have "last s \<noteq> CR" using assms(2) append_butlast_last_id [OF assms(2)] by (metis HasSuffix_iff)
  then have "last ((CHR ''Z'' # a) @ '' '' @ s) \<noteq> CR" using assms(2) by simp
  then have "\<not> HasSuffix ((CHR ''Z'' # a) @ '' '' @ s) [CR]" unfolding HasSuffix_iff by (metis last_snoc)
  then show ?thesis using t by (simp add: normalizeCompletionLine_def TrimSuffix_def TrimPrefix_def HasPrefix_def bullet_def)
qed

lemma length_nat_digits: "n < 10 ^ Suc k \<Longrightarrow> length (nat_digits n) \<le> Suc k"
proof (induction k arbitrary: n)
  case 0
  then show ?case by (simp add: nat_digits_steps)
next
  case (Suc k)
  have "n div 10 < 10 ^ Suc k" using Suc.prems by simp
  then show ?case using Suc.IH [of "n div 10"] by (subst nat_digits.simps) simp
qed

lemma marker_report:
  assumes "CompletionMarker i = Some marker" "i < 2 ^ 63"
  shows "normalizeCompletionLine (TrimSuffix marker [CR]) = marker" "marker = completionMarkerPrefix @ '' '' @ Itoa i" "length marker < 65536"
proof -
  have i: "0 < i" and m: "marker = completionMarkerPrefix @ '' '' @ Itoa i" using assms(1) by (auto simp: CompletionMarker_def split: if_splits)
  have "Itoa i \<noteq> []" using i by (subst Itoa_def, subst nat_digits.simps) simp
  moreover have "\<forall>c \<in> set (Itoa i). CHR ''0'' \<le> c \<and> c \<le> CHR ''9''" using i nat_digits_chars by (simp add: Itoa_def)
  ultimately show "normalizeCompletionLine (TrimSuffix marker [CR]) = marker"
    using normalize_report [OF digits_no_space] unfolding m completionMarkerPrefix_def by blast
  show "marker = completionMarkerPrefix @ '' '' @ Itoa i" by (fact m)
  have "nat i < 10 ^ Suc 18" using assms(2) by simp
  then have "length (Itoa i) \<le> 19" using length_nat_digits [of "nat i" 18] i by (simp add: Itoa_def)
  then show "length marker < 65536" by (simp add: m completionMarkerPrefix_def)
qed

text \<open>A worker that follows the instruction is understood: when the last two lines of its output are the summary in its form
  and the marker, and no earlier line is the marker, the manager takes the ticket to be completed with that summary.\<close>

theorem report_is_understood:
  assumes marker: "CompletionMarker i = Some marker" "i < 2 ^ 63"
    and summary: "TrimSpace summary = summary" "summary \<noteq> []" "NL \<notin> set summary" "length summary < 65500"
    and before: "marker \<notin> normalizeCompletionLine ` set (scanLines before)" "\<forall>l \<in> set (SplitByte NL before). length l < 65536"
  shows "parseCompletionOutput (before @ [NL] @ completionSummaryPrefix @ '' '' @ summary @ [NL] @ marker) marker = (True, summary)"
proof -
  define line where "line = completionSummaryPrefix @ '' '' @ summary"
  define ls where "ls = map (\<lambda>l. TrimSuffix l [CR]) (SplitByte NL before)"
  note m = marker_report [OF marker]
  have nl: "NL \<notin> set line" "NL \<notin> set marker"
    using summary(3) Itoa_no_newline [of i] by (auto simp: line_def m(2) completionSummaryPrefix_def completionMarkerPrefix_def)
  have parts: "SplitByte NL (before @ [NL] @ line @ [NL] @ marker) = SplitByte NL before @ [line, marker]"
    using SplitByte_append [of NL before "line @ NL # marker"] SplitByte_append [of NL line marker] by (simp add: SplitByte_none nl)
  have "length line < 65536" using summary(4) by (simp add: line_def completionSummaryPrefix_def)
  then have "takeWhile (\<lambda>l. length l < 65536) (SplitByte NL before @ [line, marker]) = SplitByte NL before @ [line, marker]"
    using before(2) m(3) by (intro takeWhile_eq_all_conv [THEN iffD2]) auto
  then have lines: "scanLines (before @ [NL] @ line @ [NL] @ marker) = ls @ [TrimSuffix line [CR], TrimSuffix marker [CR]]"
    unfolding scanLines_def Let_def parts ls_def using m(2) by (simp add: completionMarkerPrefix_def)
  have line: "normalizeCompletionLine (TrimSuffix line [CR]) = line"
    using normalize_report [OF summary(1,2)] unfolding line_def completionSummaryPrefix_def by blast
  have "line \<noteq> marker" by (simp add: line_def m(2) completionSummaryPrefix_def completionMarkerPrefix_def)
  have "set ls \<subseteq> set (scanLines before) \<union> {[]}"
  proof -
    have "takeWhile (\<lambda>l. length l < 65536) (SplitByte NL before) = SplitByte NL before"
      "takeWhile (\<lambda>l. length l < 65536) (butlast (SplitByte NL before)) = butlast (SplitByte NL before)"
      using before(2) by (auto simp: takeWhile_eq_all_conv dest: in_set_butlastD)
    then have "scanLines before = map (\<lambda>l. TrimSuffix l [CR]) (if last (SplitByte NL before) = [] then butlast (SplitByte NL before) else SplitByte NL before)"
      unfolding scanLines_def Let_def by (auto simp only: split: if_splits)
    moreover have "set (SplitByte NL before) \<subseteq> insert (last (SplitByte NL before)) (set (butlast (SplitByte NL before)))"
      by (metis SplitByte_nonempty append_butlast_last_id list.simps(15) rotate1.simps(2) set_rotate1 subset_refl)
    ultimately show ?thesis by (auto simp: ls_def TrimSuffix_def HasSuffix_def split: if_splits)
  qed
  moreover have "normalizeCompletionLine [] \<noteq> marker"
    by (simp add: m(2) normalizeCompletionLine_def TrimPrefix_def HasPrefix_def bullet_def)
  ultimately have "marker \<notin> normalizeCompletionLine ` set ls" using before(1) by auto
  then have "completionScan marker [] (ls @ [TrimSuffix line [CR], TrimSuffix marker [CR]]) = (True, summary)"
    using \<open>line \<noteq> marker\<close> by (simp add: completionScan_skip line m(1) Let_def) (simp add: line_def TrimPrefix_def HasPrefix_def summary(1))
  then show ?thesis unfolding parseCompletionOutput_def using lines by (simp add: line_def)
qed

lemma sample_summary: "TrimSpace ''ok'' = ''ok''" "normalizeCompletionLine ''working'' = ''working''"
  by code_simp+

lemma sample_lines: "SplitByte NL ''working'' = [''working'']" "scanLines ''working'' = [''working'']"
  by (simp_all add: scanLines_def TrimSuffix_def HasSuffix_def)

theorem report_is_understood_witness:
  "parseCompletionOutput (''working'' @ [NL] @ completionSummaryPrefix @ '' '' @ ''ok'' @ [NL] @ ''ZELLIJ_AGENT_TICKET_DONE 1'') ''ZELLIJ_AGENT_TICKET_DONE 1'' =
     (True, ''ok'')"
  using report_is_understood [of 1 "''ZELLIJ_AGENT_TICKET_DONE 1''" "''ok''" "''working''"]
  by (simp add: sample_marker sample_summary sample_lines)

end
