(* ===== verification/Ticket_Manager.thy ===== *)
theory Ticket_Manager
  imports Ticket_Prompt Go_Utf8 Go_Monad
begin

text \<open>
  The ticket manager, \<^verbatim>\<open>src/internal/ticketworker/manager.go\<close>: a process that claims tickets, runs each in a worker
  pane, recognises the worker's report, completes the ticket and closes the pane. It has a fixed number of slots,
  each with at most one ticket.

  Everything outside the manager is the state \<open>World\<close> of the state monad: the table of tickets (theory \<open>Ticket_Store\<close>) and
  the panes of the runtime. Before a call takes effect other processes may work on both: \<open>wo_script\<close> says what
  happens at each call, what others do before it, whether and how it fails, and whether a call that failed has
  taken effect nonetheless. A slot is passed by value; the Go code passes a pointer that nothing else
  uses meanwhile. \<open>wo_seen\<close>, \<open>wo_completed\<close> and \<open>wo_held\<close> record the outputs the manager was shown, the tickets it
  completed, and those it claimed and has not given back. Of the log, the events with their tickets are kept.
\<close>

section \<open>Data\<close>

text \<open>An error of the daemon's client: an answer of the daemon with its code, status and whether to retry, or anything
  else.\<close>

datatype client_error = ClientError string int bool | OtherError string

definition CodeBadRequest :: string where "CodeBadRequest = ''bad_request''"
definition CodeNotFound :: string where "CodeNotFound = ''not_found''"
definition CodeInitializationFailed :: string where "CodeInitializationFailed = ''initialization_failed''"

datatype manager_error = ClientFailed client_error | StoreFailed ticket_error | BothFailed client_error client_error

text \<open>The fields of a pane and of a request for one that the manager uses.\<close>

record WorkerPane =
  wp_ID :: string
  wp_TaskID :: string
  wp_SessionID :: string
  wp_Role :: string
  wp_Status :: string

record PaneRequest =
  pq_ID :: string
  pq_TaskID :: string
  pq_ZellijSession :: string
  pq_Role :: string
  pq_Name :: string
  pq_SameTabAsPaneID :: string
  pq_Command :: "string list"
  pq_CWD :: string

record VoiceRequest =
  vr_RequestID :: string
  vr_Prefix :: string
  vr_TicketID :: int
  vr_Summary :: string

datatype managerSlotState = SlotEmpty | SlotStarting | SlotWorking | SlotCompleting | SlotClosing | SlotCleanupFailed

record managerSlot =
  sl_state :: managerSlotState
  sl_ticket :: "Ticket option"
  sl_paneID :: string
  sl_marker :: string
  sl_prompt :: string
  sl_createRequest :: PaneRequest
  sl_paneCreated :: bool
  sl_creationUncertain :: bool
  sl_done :: bool
  sl_summary :: string
  sl_lastError :: "manager_error option"

definition zeroRequest :: PaneRequest where
  "zeroRequest = \<lparr>pq_ID = [], pq_TaskID = [], pq_ZellijSession = [], pq_Role = [], pq_Name = [], pq_SameTabAsPaneID = [], pq_Command = [], pq_CWD = []\<rparr>"

definition emptySlot :: managerSlot where
  "emptySlot = \<lparr>sl_state = SlotEmpty, sl_ticket = None, sl_paneID = [], sl_marker = [], sl_prompt = [], sl_createRequest = zeroRequest,
     sl_paneCreated = False, sl_creationUncertain = False, sl_done = False, sl_summary = [], sl_lastError = None\<rparr>"

record TicketConfig =
  tc_DefaultAgent :: string
  tc_Version :: int
  tc_MaxWorkers :: int
  tc_PollInterval :: int
  tc_VoiceNotifications :: bool
  tc_VoiceNotificationPrefix :: string

text \<open>The manager without its slots and its stream. \<open>ma_sha256\<close> is the digest in hexadecimal.\<close>

record Manager =
  ma_config :: TicketConfig
  ma_root :: string
  ma_taskID :: string
  ma_anchorPaneID :: string
  ma_zellijSession :: string
  ma_roleBin :: string
  ma_managerID :: string
  ma_sha256 :: "string \<Rightarrow> string"

section \<open>The world\<close>

text \<open>What happens at a call: the time, whether the context is done, what other processes do to tickets and panes, and how
  the call ends.\<close>

record happening =
  ha_now :: time
  ha_cancelled :: bool
  ha_others :: "(string option \<times> time \<times> ticket_op) list"
  ha_status :: "(string \<times> string) list"
  ha_gone :: "string list"
  ha_store :: "string option"
  ha_fault :: "client_error option"
  ha_applied :: bool
  ha_output :: string
  ha_answer :: string

definition calm :: happening where
  "calm = \<lparr>ha_now = 0, ha_cancelled = False, ha_others = [], ha_status = [], ha_gone = [], ha_store = None, ha_fault = None,
     ha_applied = False, ha_output = [], ha_answer = ''queued''\<rparr>"

record World =
  wo_db :: TicketDB
  wo_panes :: "WorkerPane list"
  wo_script :: "happening list"
  wo_seen :: "(string \<times> string) list"
  wo_completed :: "int list"
  wo_held :: "int list"
  wo_voices :: "VoiceRequest list"
  wo_log :: "(string \<times> int) list"

definition paneOver :: "WorkerPane \<Rightarrow> bool" where
  "paneOver p \<longleftrightarrow> wp_Status p \<in> {''closed'', ''exited'', ''lost''}"

text \<open>Other processes do not open panes with the manager's identifiers, and no pane comes back.\<close>

definition elapse :: "happening \<Rightarrow> WorkerPane list \<Rightarrow> WorkerPane list" where
  "elapse h panes =
     filter (\<lambda>p. wp_ID p \<notin> set (ha_gone h))
       (map (\<lambda>p. case mget (ha_status h) (wp_ID p) of
               Some st \<Rightarrow> if paneOver p then p else p\<lparr>wp_Status := st\<rparr>
             | None \<Rightarrow> p) panes)"

definition arrive :: "(World, happening) state" where
  "arrive = State (\<lambda>w. case wo_script w of
     [] \<Rightarrow> (calm, w)
   | h # hs \<Rightarrow> (h, w\<lparr>wo_script := hs, wo_db := fst (ticket_run (ha_others h) (wo_db w)), wo_panes := elapse h (wo_panes w)\<rparr>))"

definition logTicketf :: "string \<Rightarrow> int \<Rightarrow> (World, unit) state" where
  "logTicketf event i = modify (\<lambda>w. w\<lparr>wo_log := wo_log w @ [(event, i)]\<rparr>)"

section \<open>Calls\<close>

definition letGo :: "int \<Rightarrow> ticket_error + Ticket \<Rightarrow> int list \<Rightarrow> int list" where
  "letGo i r hs = (if \<not> isl r \<or> r = Inl ErrInvalidTransition then removeAll i hs else hs)"

definition storeNext :: "(World, ticket_error + Ticket) state" where
  "storeNext = do {
     h \<leftarrow> arrive;
     r \<leftarrow> gets (\<lambda>w. NextTicket (ha_store h) (ha_now h) (wo_db w));
     modify (\<lambda>w. w\<lparr>wo_db := fst r, wo_held := (case snd r of Inl _ \<Rightarrow> wo_held w | Inr t \<Rightarrow> tk_ID t # wo_held w)\<rparr>);
     return (snd r) }"

definition storeGet :: "int \<Rightarrow> (World, ticket_error + Ticket) state" where
  "storeGet i = do { h \<leftarrow> arrive; gets (\<lambda>w. GetTicket (ha_store h) i (wo_db w)) }"

text \<open>The manager only makes the transition \<open>done\<close>.\<close>

definition storeDone :: "int \<Rightarrow> (World, ticket_error + Ticket) state" where
  "storeDone i = do {
     h \<leftarrow> arrive;
     r \<leftarrow> gets (\<lambda>w. TransitionTicket (ha_store h) (ha_now h) i ActionDone (wo_db w));
     modify (\<lambda>w. w\<lparr>wo_db := fst r, wo_held := letGo i (snd r) (wo_held w),
       wo_completed := (case snd r of Inl _ \<Rightarrow> wo_completed w | Inr _ \<Rightarrow> i # wo_completed w)\<rparr>);
     return (snd r) }"

definition storeRequeue :: "int \<Rightarrow> (World, ticket_error + Ticket) state" where
  "storeRequeue i = do {
     h \<leftarrow> arrive;
     r \<leftarrow> gets (\<lambda>w. RequeueTicket (ha_store h) (ha_now h) i (wo_db w));
     modify (\<lambda>w. w\<lparr>wo_db := fst r, wo_held := letGo i (snd r) (wo_held w)\<rparr>);
     return (snd r) }"

definition safeCreateFailure :: "client_error \<Rightarrow> bool" where
  "safeCreateFailure e =
     (case e of
        ClientError code _ _ \<Rightarrow> code = CodeBadRequest \<or> code = CodeNotFound \<or> code = CodeInitializationFailed
      | OtherError _ \<Rightarrow> False)"

definition IsNotFound :: "client_error \<Rightarrow> bool" where
  "IsNotFound e = (case e of ClientError code _ _ \<Rightarrow> code = CodeNotFound | OtherError _ \<Rightarrow> False)"

text \<open>Creating a pane that is there is answered with that pane. A creation that fails with one of the codes of
  \<open>safeCreateFailure\<close> has left no pane; any other failure may have.\<close>

definition openPane :: "PaneRequest \<Rightarrow> WorkerPane list \<Rightarrow> WorkerPane list" where
  "openPane req panes =
     (if list_ex (\<lambda>p. wp_ID p = pq_ID req \<and> \<not> paneOver p) panes then panes
      else filter (\<lambda>p. wp_ID p \<noteq> pq_ID req) panes @
        [\<lparr>wp_ID = pq_ID req, wp_TaskID = pq_TaskID req, wp_SessionID = pq_ZellijSession req, wp_Role = pq_Role req, wp_Status = ''starting''\<rparr>])"

definition clientCreatePane :: "PaneRequest \<Rightarrow> (World, client_error option) state" where
  "clientCreatePane req = do {
     h \<leftarrow> arrive;
     case ha_fault h of
       None \<Rightarrow> do { modify (\<lambda>w. w\<lparr>wo_panes := openPane req (wo_panes w)\<rparr>); return None }
     | Some e \<Rightarrow> do {
         (if ha_applied h \<and> \<not> safeCreateFailure e then modify (\<lambda>w. w\<lparr>wo_panes := openPane req (wo_panes w)\<rparr>) else return ());
         return (Some e) } }"

definition endPane :: "string \<Rightarrow> WorkerPane list \<Rightarrow> WorkerPane list" where
  "endPane i panes = map (\<lambda>p. if wp_ID p = i \<and> \<not> paneOver p then p\<lparr>wp_Status := ''closed''\<rparr> else p) panes"

definition clientClosePane :: "string \<Rightarrow> (World, client_error option) state" where
  "clientClosePane i = do {
     h \<leftarrow> arrive;
     (if ha_fault h = None \<or> ha_applied h then modify (\<lambda>w. w\<lparr>wo_panes := endPane i (wo_panes w)\<rparr>) else return ());
     return (ha_fault h) }"

definition clientInspect :: "(World, client_error + WorkerPane list) state" where
  "clientInspect = do {
     h \<leftarrow> arrive;
     gets (\<lambda>w. case ha_fault h of None \<Rightarrow> Inr (wo_panes w) | Some e \<Rightarrow> Inl e) }"

definition clientSnapshot :: "string \<Rightarrow> (World, client_error + WorkerPane \<times> string) state" where
  "clientSnapshot i = do {
     h \<leftarrow> arrive;
     p \<leftarrow> gets (\<lambda>w. find (\<lambda>p. wp_ID p = i) (wo_panes w));
     case ha_fault h of
       Some e \<Rightarrow> return (Inl e)
     | None \<Rightarrow> (case p of
           None \<Rightarrow> return (Inl (ClientError CodeNotFound 404 False))
         | Some pane \<Rightarrow> do {
             modify (\<lambda>w. w\<lparr>wo_seen := (i, ha_output h) # wo_seen w\<rparr>);
             return (Inr (pane, ha_output h)) }) }"

definition clientVoice :: "VoiceRequest \<Rightarrow> (World, client_error + string) state" where
  "clientVoice req = do {
     h \<leftarrow> arrive;
     case ha_fault h of
       Some e \<Rightarrow> return (Inl e)
     | None \<Rightarrow> do { modify (\<lambda>w. w\<lparr>wo_voices := wo_voices w @ [req]\<rparr>); return (Inr (ha_answer h)) } }"

text \<open>\<open>WorktreePreparer.Prepare\<close>, and whether the context is done.\<close>

definition prepareWorktree :: "(World, client_error + string) state" where
  "prepareWorktree = do {
     h \<leftarrow> arrive;
     return (case ha_fault h of None \<Rightarrow> Inr (ha_output h) | Some e \<Rightarrow> Inl e) }"

definition ctxDone :: "(World, bool) state" where
  "ctxDone = do { h \<leftarrow> arrive; return (ha_cancelled h) }"

section \<open>Set-up\<close>

definition validTicketConfig :: "TicketConfig \<Rightarrow> bool" where
  "validTicketConfig cfg \<longleftrightarrow>
     (tc_DefaultAgent cfg = [] \<or> ParseKind (tc_DefaultAgent cfg) \<noteq> None) \<and> tc_Version cfg = 1 \<and> 0 < tc_MaxWorkers cfg \<and>
     0 < tc_PollInterval cfg \<and> (tc_VoiceNotifications cfg \<longrightarrow> TrimSpace (tc_VoiceNotificationPrefix cfg) \<noteq> [])"

definition validManagerID :: "string \<Rightarrow> bool" where
  "validManagerID s \<longleftrightarrow> s \<noteq> [] \<and> list_all (\<lambda>c. (CHR ''a'' \<le> c \<and> c \<le> CHR ''z'') \<or> (CHR ''A'' \<le> c \<and> c \<le> CHR ''Z'') \<or>
     (CHR ''0'' \<le> c \<and> c \<le> CHR ''9'') \<or> c = CHR ''-'' \<or> c = CHR ''_'') s"

record ManagerOptions =
  mo_Store :: bool
  mo_Client :: bool
  mo_Config :: TicketConfig
  mo_Root :: string
  mo_TaskID :: string
  mo_AnchorPaneID :: string
  mo_ZellijSession :: string
  mo_RoleBin :: string
  mo_StartupTimeout :: int
  mo_PollInterval :: int
  mo_ReadyPollInterval :: int
  mo_ManagerID :: string

text \<open>\<open>generated\<close> is what \<open>newManagerID\<close> returns; the result has the slots of the manager.\<close>

definition NewManager :: "(string \<Rightarrow> string) \<Rightarrow> string + string \<Rightarrow> ManagerOptions \<Rightarrow> string + Manager \<times> managerSlot list" where
  "NewManager sha256 generated opts =
     (let cfg0 = mo_Config opts;
          cfg1 = (if tc_DefaultAgent cfg0 = [] then cfg0\<lparr>tc_DefaultAgent := ''codex''\<rparr> else cfg0);
          cfg = cfg1\<lparr>tc_VoiceNotificationPrefix := TrimSpace (tc_VoiceNotificationPrefix cfg1)\<rparr>;
          startupTimeout = (if mo_StartupTimeout opts = 0 then 15 * 10 ^ 9 else mo_StartupTimeout opts);
          pollInterval = (if mo_PollInterval opts = 0 then tc_PollInterval cfg else mo_PollInterval opts);
          readyPollInterval = (if mo_ReadyPollInterval opts = 0 then 50 * 10 ^ 6 else mo_ReadyPollInterval opts);
          given = TrimSpace (mo_ManagerID opts)
      in if \<not> mo_Store opts then Inl ''ticket manager store is required''
         else if \<not> mo_Client opts then Inl ''ticket manager client is required''
         else if \<not> validTicketConfig cfg then Inl ''ticket manager config''
         else if TrimSpace (mo_Root opts) = [] then Inl ''ticket manager root is required''
         else if TrimSpace (mo_TaskID opts) = [] then Inl ''ticket manager task ID is required''
         else if TrimSpace (mo_AnchorPaneID opts) = [] then Inl ''ticket manager anchor pane ID is required''
         else if TrimSpace (mo_ZellijSession opts) = [] then Inl ''ticket manager Zellij session is required''
         else if TrimSpace (mo_RoleBin opts) = [] then Inl ''ticket manager role executable is required''
         else if startupTimeout < 0 then Inl ''ticket manager startup timeout must be positive''
         else if pollInterval \<le> 0 then Inl ''ticket manager poll interval must be positive''
         else if readyPollInterval < 0 then Inl ''ticket manager ready poll interval must be positive''
         else case (if given = [] then generated else Inr given) of
           Inl e \<Rightarrow> Inl e
         | Inr managerID \<Rightarrow>
             if \<not> validManagerID managerID then Inl ''ticket manager ID must contain only letters, digits, hyphens, or underscores''
             else Inr (\<lparr>ma_config = cfg, ma_root = TrimSpace (mo_Root opts), ma_taskID = TrimSpace (mo_TaskID opts),
               ma_anchorPaneID = TrimSpace (mo_AnchorPaneID opts), ma_zellijSession = TrimSpace (mo_ZellijSession opts),
               ma_roleBin = TrimSpace (mo_RoleBin opts), ma_managerID = managerID, ma_sha256 = sha256\<rparr>,
               replicate (nat (tc_MaxWorkers cfg)) emptySlot))"

definition hasReadyAnchor :: "Manager \<Rightarrow> WorkerPane list \<Rightarrow> bool" where
  "hasReadyAnchor m panes = list_ex (\<lambda>p. wp_ID p = ma_anchorPaneID m \<and> wp_TaskID p = ma_taskID m \<and> wp_SessionID p = ma_zellijSession m \<and>
     (wp_Status p = ''starting'' \<or> wp_Status p = ''running'')) panes"

text \<open>\<open>polls\<close> is how often the ticker fires before the time to start is over.\<close>

fun waitForAnchor :: "Manager \<Rightarrow> nat \<Rightarrow> (World, bool) state" where
  "waitForAnchor m polls = do {
     r \<leftarrow> clientInspect;
     if (case r of Inr panes \<Rightarrow> hasReadyAnchor m panes | Inl _ \<Rightarrow> False) then return True
     else case polls of 0 \<Rightarrow> return False | Suc n \<Rightarrow> waitForAnchor m n }"

declare waitForAnchor.simps [simp del]

section \<open>Starting a worker\<close>

text \<open>\<open>strings.Fields\<close>: no white space starts inside the encoding of another rune.\<close>

fun fieldPrefix :: "string \<Rightarrow> string" where
  "fieldPrefix [] = []"
| "fieldPrefix (c # s) = (if lead_space (c # s) \<noteq> 0 then [] else c # fieldPrefix s)"

function Fields :: "string \<Rightarrow> string list" where
  "Fields s =
     (if s = [] then []
      else if lead_space s \<noteq> 0 then Fields (drop (lead_space s) s)
      else fieldPrefix s # Fields (drop (length (fieldPrefix s)) s))"
  by pat_completeness auto
termination
proof (relation "measure length")
  fix s :: string
  assume "s \<noteq> []" "\<not> lead_space s \<noteq> 0"
  then show "(drop (length (fieldPrefix s)) s, s) \<in> measure length" by (cases s) auto
qed auto

declare Fields.simps [simp del]

definition ellipsis :: string where
  "ellipsis = [CHR 0xE2, CHR 0x80, CHR 0xA6]"

definition workerPaneName :: "Ticket \<Rightarrow> string" where
  "workerPaneName t =
     (let title = Join (Fields (tk_Title t)) '' '';
          shown = (if length (runes title) > 32 then string_of_runes (take 31 (runes title)) @ ellipsis else title)
      in ''['' @ Itoa (tk_ID t) @ ''] '' @ shown)"

definition workerPaneID :: "Manager \<Rightarrow> int \<Rightarrow> string" where
  "workerPaneID m i = ''ticket-coding-'' @ ma_managerID m @ ''-'' @ Itoa i"

definition slotTicket :: "managerSlot \<Rightarrow> int" where
  "slotTicket s = (case sl_ticket s of Some t \<Rightarrow> tk_ID t | None \<Rightarrow> 0)"

definition ticketAssignedElsewhere :: "managerSlot list \<Rightarrow> int \<Rightarrow> bool" where
  "ticketAssignedElsewhere others i = list_ex (\<lambda>s. sl_state s \<noteq> SlotEmpty \<and> slotTicket s = i) others"

definition requeueWithoutPane :: "managerSlot \<Rightarrow> (World, managerSlot) state" where
  "requeueWithoutPane s = do {
     r \<leftarrow> storeRequeue (slotTicket s);
     return (case r of Inl e \<Rightarrow> s\<lparr>sl_state := SlotCleanupFailed, sl_lastError := Some (StoreFailed e)\<rparr> | Inr _ \<Rightarrow> emptySlot) }"

definition giveUp :: "string \<Rightarrow> managerSlot \<Rightarrow> (World, managerSlot \<times> bool) state" where
  "giveUp event s = do {
     logTicketf event (slotTicket s);
     s' \<leftarrow> requeueWithoutPane s;
     return (s', True) }"

definition workerRequest :: "Manager \<Rightarrow> Ticket \<Rightarrow> string \<Rightarrow> string \<Rightarrow> PaneRequest" where
  "workerRequest m t prompt dir =
     \<lparr>pq_ID = workerPaneID m (tk_ID t), pq_TaskID = ma_taskID m, pq_ZellijSession = ma_zellijSession m, pq_Role = ''coding-agent'',
      pq_Name = workerPaneName t, pq_SameTabAsPaneID = ma_anchorPaneID m,
      pq_Command = [ma_roleBin m, ''role'', ''coding-agent'', ''--agent'', tc_DefaultAgent (ma_config m), ''--yolo'', dir, ''--'', prompt],
      pq_CWD = dir\<rparr>"

definition createWorker :: "Manager \<Rightarrow> Ticket \<Rightarrow> string \<Rightarrow> managerSlot \<Rightarrow> (World, managerSlot \<times> bool) state" where
  "createWorker m t dir s =
     (let req = workerRequest m t (sl_prompt s) dir; s1 = s\<lparr>sl_createRequest := req\<rparr> in
      do {
        r \<leftarrow> clientCreatePane req;
        case r of
          Some e \<Rightarrow>
            if safeCreateFailure e then giveUp ''create'' s1
            else do {
              logTicketf ''create'' (tk_ID t);
              return (s1\<lparr>sl_state := SlotCleanupFailed, sl_creationUncertain := True, sl_lastError := Some (ClientFailed e)\<rparr>, True) }
        | None \<Rightarrow> do {
            logTicketf ''started'' (tk_ID t);
            return (s1\<lparr>sl_paneCreated := True, sl_state := SlotWorking\<rparr>, False) } })"

definition startSlot :: "Manager \<Rightarrow> managerSlot list \<Rightarrow> managerSlot \<Rightarrow> (World, managerSlot \<times> bool) state" where
  "startSlot m others s = do {
     r \<leftarrow> storeNext;
     case r of
       Inl _ \<Rightarrow> return (s, True)
     | Inr t \<Rightarrow>
         if ticketAssignedElsewhere others (tk_ID t) then do { logTicketf ''duplicate claim'' (tk_ID t); return (emptySlot, False) }
         else
           let s1 = s\<lparr>sl_state := SlotStarting, sl_ticket := Some t, sl_paneID := workerPaneID m (tk_ID t)\<rparr> in
           (case RenderTicketPrompt t of
              Inl _ \<Rightarrow> giveUp ''render'' (s1\<lparr>sl_prompt := [], sl_marker := []\<rparr>)
            | Inr (prompt, marker) \<Rightarrow>
                let s2 = s1\<lparr>sl_prompt := prompt, sl_marker := marker\<rparr> in
                if \<not> tk_Worktree t then createWorker m t (ma_root m) s2
                else do {
                  dir \<leftarrow> prepareWorktree;
                  case dir of
                    Inl _ \<Rightarrow> giveUp ''worktree'' s2
                  | Inr d \<Rightarrow> if TrimSpace d = [] then giveUp ''worktree'' s2 else createWorker m t d s2 }) }"

fun fillFrom :: "Manager \<Rightarrow> managerSlot list \<Rightarrow> managerSlot list \<Rightarrow> (World, managerSlot list) state" where
  "fillFrom m before [] = return before"
| "fillFrom m before (s # rest) = do {
     stopped \<leftarrow> ctxDone;
     if stopped then return (before @ s # rest)
     else if sl_state s \<noteq> SlotEmpty then fillFrom m (before @ [s]) rest
     else do {
       (s', stop) \<leftarrow> startSlot m (before @ rest) s;
       if stop then return (before @ s' # rest) else fillFrom m (before @ [s']) rest } }"

definition fillEmptySlots :: "Manager \<Rightarrow> bool \<Rightarrow> managerSlot list \<Rightarrow> (World, managerSlot list) state" where
  "fillEmptySlots m stream slots = (if \<not> stream then return slots else fillFrom m [] slots)"

section \<open>Closing a pane\<close>

definition paneConsumesCapacity :: "Manager \<Rightarrow> WorkerPane list \<Rightarrow> string \<Rightarrow> bool" where
  "paneConsumesCapacity m panes i =
     (case find (\<lambda>p. wp_ID p = i \<and> wp_TaskID p = ma_taskID m \<and> wp_SessionID p = ma_zellijSession m) panes of
        None \<Rightarrow> False
      | Some p \<Rightarrow> \<not> paneOver p)"

definition closeOrAbsent :: "Manager \<Rightarrow> string \<Rightarrow> (World, manager_error option) state" where
  "closeOrAbsent m i = do {
     r \<leftarrow> clientClosePane i;
     case r of
       None \<Rightarrow> return None
     | Some e \<Rightarrow> do {
         q \<leftarrow> clientInspect;
         return (case q of
             Inl e' \<Rightarrow> Some (BothFailed e e')
           | Inr panes \<Rightarrow> if \<not> paneConsumesCapacity m panes i then None else Some (ClientFailed e)) } }"

definition matchesWorkerPane :: "Manager \<Rightarrow> managerSlot \<Rightarrow> bool \<Rightarrow> WorkerPane \<Rightarrow> bool" where
  "matchesWorkerPane m s requireActive p \<longleftrightarrow>
     wp_ID p = sl_paneID s \<and> wp_TaskID p = ma_taskID m \<and> wp_SessionID p = ma_zellijSession m \<and> wp_Role p = ''coding-agent'' \<and>
     (requireActive \<longrightarrow> wp_Status p = ''starting'' \<or> wp_Status p = ''running'')"

section \<open>Completion\<close>

definition completionVoiceRequestID :: "Manager \<Rightarrow> Ticket \<Rightarrow> string option" where
  "completionVoiceRequestID m t =
     (case tk_CompletedAt t of
        None \<Rightarrow> None
      | Some completedAt \<Rightarrow>
          let raw = ma_taskID m @ '':'' @ Itoa (tk_ID t) @ '':'' @ Itoa completedAt
          in if length raw \<le> 256 then Some raw
             else Some (''sha256:'' @ ma_sha256 m (ma_taskID m) @ '':'' @ Itoa (tk_ID t) @ '':'' @ Itoa completedAt))"

definition retryVoiceNotificationError :: "client_error \<Rightarrow> bool" where
  "retryVoiceNotificationError e =
     (case e of
        ClientError _ status retryable \<Rightarrow>
          if 500 \<le> status \<and> status < 600 then True else if 400 \<le> status \<and> status < 500 then False else retryable
      | OtherError _ \<Rightarrow> True)"

text \<open>The attempts, with the pauses that are left between them.\<close>

fun voiceAttempts :: "VoiceRequest \<Rightarrow> int list \<Rightarrow> (World, bool) state" where
  "voiceAttempts req delays = do {
     r \<leftarrow> clientVoice req;
     case r of
       Inr status \<Rightarrow> return (status = ''queued'' \<or> status = ''duplicate'')
     | Inl e \<Rightarrow>
         if \<not> retryVoiceNotificationError e then return False
         else case delays of
           [] \<Rightarrow> return False
         | d # ds \<Rightarrow> do {
             stopped \<leftarrow> ctxDone;
             if stopped then return False else voiceAttempts req ds } }"

declare voiceAttempts.simps [simp del]

definition queueCompletionVoice :: "Manager \<Rightarrow> managerSlot \<Rightarrow> (World, bool) state" where
  "queueCompletionVoice m s =
     (case sl_ticket s of
        None \<Rightarrow> return False
      | Some t \<Rightarrow> (case completionVoiceRequestID m t of
            None \<Rightarrow> return False
          | Some i \<Rightarrow> voiceAttempts \<lparr>vr_RequestID = i, vr_Prefix = tc_VoiceNotificationPrefix (ma_config m), vr_TicketID = tk_ID t,
              vr_Summary = sl_summary s\<rparr> [100 * 10 ^ 6, 200 * 10 ^ 6]))"

definition finalizeCompletedSlot :: "Manager \<Rightarrow> managerSlot \<Rightarrow> (World, managerSlot) state" where
  "finalizeCompletedSlot m s = do {
     (if tc_VoiceNotifications (ma_config m)
      then do { sent \<leftarrow> queueCompletionVoice m s; if sent then return () else logTicketf ''notify'' (slotTicket s) }
      else return ());
     logTicketf ''closed'' (slotTicket s);
     return emptySlot }"

definition retryClose :: "Manager \<Rightarrow> managerSlot \<Rightarrow> (World, managerSlot) state" where
  "retryClose m s = do {
     r \<leftarrow> closeOrAbsent m (sl_paneID s);
     case r of
       Some e \<Rightarrow> do { logTicketf ''close'' (slotTicket s); return (s\<lparr>sl_lastError := Some e\<rparr>) }
     | None \<Rightarrow> finalizeCompletedSlot m s }"

definition closing :: "Ticket \<Rightarrow> managerSlot \<Rightarrow> managerSlot" where
  "closing t s = s\<lparr>sl_ticket := Some t, sl_done := True, sl_state := SlotClosing\<rparr>"

definition retryComplete :: "Manager \<Rightarrow> managerSlot \<Rightarrow> (World, managerSlot) state" where
  "retryComplete m s = do {
     r \<leftarrow> storeDone (slotTicket s);
     case r of
       Inr completed \<Rightarrow> retryClose m (closing completed s)
     | Inl e \<Rightarrow> do {
         g \<leftarrow> (if e = ErrInvalidTransition then storeGet (slotTicket s) else return (Inl e));
         case g of
           Inr current \<Rightarrow>
             if tk_Status current = TicketDone then retryClose m (closing current s)
             else do { logTicketf ''complete'' (slotTicket s); return (s\<lparr>sl_lastError := Some (StoreFailed e)\<rparr>) }
         | Inl _ \<Rightarrow> do { logTicketf ''complete'' (slotTicket s); return (s\<lparr>sl_lastError := Some (StoreFailed e)\<rparr>) } } }"

definition completeSlot :: "Manager \<Rightarrow> managerSlot \<Rightarrow> (World, managerSlot) state" where
  "completeSlot m s =
     (if sl_state s \<noteq> SlotWorking then return s else retryComplete m (s\<lparr>sl_state := SlotCompleting\<rparr>))"

section \<open>Clean-up\<close>

definition found :: "managerSlot \<Rightarrow> managerSlot" where
  "found s = s\<lparr>sl_creationUncertain := False, sl_paneCreated := True\<rparr>"

text \<open>Creating the pane once more: the slot and whether the uncertainty is over.\<close>

definition createAgain :: "Manager \<Rightarrow> managerSlot \<Rightarrow> (World, managerSlot \<times> bool) state" where
  "createAgain m s = do {
     r \<leftarrow> clientCreatePane (sl_createRequest s);
     case r of
       None \<Rightarrow> return (found s, True)
     | Some e \<Rightarrow>
         if safeCreateFailure e then return (s\<lparr>sl_creationUncertain := False\<rparr>, True)
         else do {
           q \<leftarrow> clientInspect;
           return (case q of
               Inl e' \<Rightarrow> (s\<lparr>sl_lastError := Some (ClientFailed e')\<rparr>, False)
             | Inr panes \<Rightarrow>
                 if list_ex (matchesWorkerPane m s False) panes then ((found s)\<lparr>sl_lastError := Some (ClientFailed e)\<rparr>, True)
                 else (s\<lparr>sl_lastError := Some (ClientFailed e)\<rparr>, False)) } }"

definition resolveUncertainCreation :: "Manager \<Rightarrow> managerSlot \<Rightarrow> (World, managerSlot \<times> bool) state" where
  "resolveUncertainCreation m s = do {
     q \<leftarrow> clientInspect;
     case q of
       Inl e \<Rightarrow> return (s\<lparr>sl_lastError := Some (ClientFailed e)\<rparr>, False)
     | Inr panes \<Rightarrow> if list_ex (matchesWorkerPane m s False) panes then return (found s, True) else createAgain m s }"

definition cleanupRequeue :: "managerSlot \<Rightarrow> (World, managerSlot) state" where
  "cleanupRequeue s = do {
     r \<leftarrow> storeRequeue (slotTicket s);
     case r of
       Inr _ \<Rightarrow> return emptySlot
     | Inl e \<Rightarrow>
         if e = ErrInvalidTransition then do { logTicketf ''released'' (slotTicket s); return emptySlot }
         else return (s\<lparr>sl_lastError := Some (StoreFailed e)\<rparr>) }"

definition retryCleanup :: "Manager \<Rightarrow> managerSlot \<Rightarrow> (World, managerSlot) state" where
  "retryCleanup m s = do {
     (s1, resolved) \<leftarrow> (if sl_creationUncertain s then resolveUncertainCreation m s else return (s, True));
     if \<not> resolved then return s1
     else if sl_paneCreated s1 then do {
       r \<leftarrow> closeOrAbsent m (sl_paneID s1);
       case r of
         Some e \<Rightarrow> return (s1\<lparr>sl_lastError := Some e\<rparr>)
       | None \<Rightarrow> cleanupRequeue (s1\<lparr>sl_paneCreated := False\<rparr>) }
     else cleanupRequeue s1 }"

definition retrySlot :: "Manager \<Rightarrow> managerSlot \<Rightarrow> (World, managerSlot) state" where
  "retrySlot m s =
     (case sl_state s of
        SlotCompleting \<Rightarrow> retryComplete m s
      | SlotClosing \<Rightarrow> retryClose m s
      | SlotCleanupFailed \<Rightarrow> retryCleanup m s
      | _ \<Rightarrow> return s)"

fun eachSlot :: "(managerSlot \<Rightarrow> (World, managerSlot) state) \<Rightarrow> managerSlot list \<Rightarrow> (World, managerSlot list) state" where
  "eachSlot f [] = return []"
| "eachSlot f (s # ss) = do { s' \<leftarrow> f s; ss' \<leftarrow> eachSlot f ss; return (s' # ss') }"

definition retrySlots :: "Manager \<Rightarrow> managerSlot list \<Rightarrow> (World, managerSlot list) state" where
  "retrySlots m = eachSlot (retrySlot m)"

section \<open>Output of the workers\<close>

definition workerExists :: "Manager \<Rightarrow> managerSlot \<Rightarrow> (World, bool) state" where
  "workerExists m s = do {
     q \<leftarrow> clientInspect;
     case q of
       Inl _ \<Rightarrow> do { logTicketf ''inspect worker'' (slotTicket s); return False }
     | Inr panes \<Rightarrow> return (list_ex (matchesWorkerPane m s False) panes) }"

text \<open>The summary for a completed slot, or none when the worker is not there.\<close>

definition completionSummary :: "Manager \<Rightarrow> string \<Rightarrow> managerSlot \<Rightarrow> (World, string option) state" where
  "completionSummary m summary s =
     (if summary = [] then do {
        r \<leftarrow> clientSnapshot (sl_paneID s);
        case r of
          Inl _ \<Rightarrow> do {
            logTicketf ''completion snapshot'' (slotTicket s);
            there \<leftarrow> workerExists m s;
            return (if there then Some [] else None) }
        | Inr (pane, output) \<Rightarrow>
            return (if matchesWorkerPane m s True pane then Some (snd (parseCompletionOutput output (sl_marker s))) else None) }
      else do {
        there \<leftarrow> workerExists m s;
        return (if there then Some summary else None) })"

definition workerOutput :: "Manager \<Rightarrow> string \<Rightarrow> managerSlot \<Rightarrow> (World, managerSlot) state" where
  "workerOutput m message s =
     (let (finished, summary) = parseCompletionOutput message (sl_marker s) in
      if \<not> finished then return s
      else do {
        r \<leftarrow> completionSummary m summary s;
        case r of
          None \<Rightarrow> return s
        | Some text' \<Rightarrow> completeSlot m (s\<lparr>sl_summary := text'\<rparr>) })"

fun dispatchOutput :: "Manager \<Rightarrow> string \<Rightarrow> string \<Rightarrow> managerSlot list \<Rightarrow> (World, managerSlot list) state" where
  "dispatchOutput m pane message [] = return []"
| "dispatchOutput m pane message (s # ss) =
     (if sl_state s = SlotWorking \<and> sl_paneID s = pane then do { s' \<leftarrow> workerOutput m message s; return (s' # ss) }
      else do { ss' \<leftarrow> dispatchOutput m pane message ss; return (s # ss') })"

text \<open>The type, task, pane and message of an event.\<close>

definition handleEvent :: "Manager \<Rightarrow> string \<Rightarrow> string \<Rightarrow> string \<Rightarrow> string \<Rightarrow> managerSlot list \<Rightarrow> (World, managerSlot list) state" where
  "handleEvent m type task pane message slots =
     (if type \<noteq> ''raw_output'' \<or> task \<noteq> ma_taskID m then return slots
      else do {
        modify (\<lambda>w. w\<lparr>wo_seen := (pane, message) # wo_seen w\<rparr>);
        dispatchOutput m pane message slots })"

definition recoverSlot :: "Manager \<Rightarrow> managerSlot \<Rightarrow> (World, managerSlot) state" where
  "recoverSlot m s =
     (if sl_state s \<noteq> SlotWorking then return s
      else do {
        r \<leftarrow> clientSnapshot (sl_paneID s);
        case r of
          Inl e \<Rightarrow> do {
            logTicketf ''snapshot recovery'' (slotTicket s);
            if IsNotFound e then retryCleanup m (s\<lparr>sl_lastError := Some (ClientFailed e), sl_state := SlotCleanupFailed\<rparr>)
            else return s }
        | Inr (pane, output) \<Rightarrow>
            let (finished, summary) = parseCompletionOutput output (sl_marker s) in
            if matchesWorkerPane m s True pane \<and> finished then completeSlot m (s\<lparr>sl_summary := summary\<rparr>) else return s })"

definition recoverSnapshots :: "Manager \<Rightarrow> managerSlot list \<Rightarrow> (World, managerSlot list) state" where
  "recoverSnapshots m = eachSlot (recoverSlot m)"

section \<open>Shut-down and the loop\<close>

text \<open>The slot and whether it could be given up.\<close>

definition shutdownRelease :: "Manager \<Rightarrow> managerSlot \<Rightarrow> (World, managerSlot \<times> bool) state" where
  "shutdownRelease m s =
     (if \<not> sl_done s then do {
        r \<leftarrow> storeRequeue (slotTicket s);
        return (case r of Inl _ \<Rightarrow> (s, False) | Inr _ \<Rightarrow> (emptySlot, True)) }
      else do { s' \<leftarrow> finalizeCompletedSlot m s; return (s', True) })"

definition shutdownSlot :: "Manager \<Rightarrow> managerSlot \<Rightarrow> (World, managerSlot \<times> bool) state" where
  "shutdownSlot m s =
     (if sl_state s = SlotEmpty then return (s, True)
      else do {
        (s1, resolved) \<leftarrow> (if sl_creationUncertain s then resolveUncertainCreation m s else return (s, True));
        if \<not> resolved then return (s1, False)
        else if sl_paneCreated s1 then do {
          r \<leftarrow> closeOrAbsent m (sl_paneID s1);
          case r of Some _ \<Rightarrow> return (s1, False) | None \<Rightarrow> shutdownRelease m s1 }
        else shutdownRelease m s1 })"

text \<open>The second part of the result is whether \<open>nil\<close> is returned.\<close>

fun shutdownSlots :: "Manager \<Rightarrow> managerSlot list \<Rightarrow> (World, managerSlot list \<times> bool) state" where
  "shutdownSlots m [] = return ([], True)"
| "shutdownSlots m (s # ss) = do {
     (s', ok) \<leftarrow> shutdownSlot m s;
     (ss', oks) \<leftarrow> shutdownSlots m ss;
     return (s' # ss', ok \<and> oks) }"

text \<open>What the loop selects: a tick, an event of the stream (its type, task, pane and message), or the end of the stream.\<close>

datatype manager_event = Ticked | Streamed string string string string | StreamEnded

definition connectStream :: "(World, bool) state" where
  "connectStream = do { h \<leftarrow> arrive; return (ha_fault h = None) }"

definition managerTick :: "Manager \<Rightarrow> managerSlot list \<times> bool \<Rightarrow> (World, managerSlot list \<times> bool) state" where
  "managerTick m ss = do {
     slots \<leftarrow> retrySlots m (fst ss);
     stream \<leftarrow> (if snd ss then return True else connectStream);
     if \<not> stream then return (slots, False)
     else do {
       slots1 \<leftarrow> recoverSnapshots m slots;
       slots2 \<leftarrow> fillEmptySlots m True slots1;
       return (slots2, True) } }"

text \<open>Without a stream its channels are nil and select nothing.\<close>

fun managerStep :: "Manager \<Rightarrow> manager_event \<Rightarrow> managerSlot list \<times> bool \<Rightarrow> (World, managerSlot list \<times> bool) state" where
  "managerStep m Ticked ss = managerTick m ss"
| "managerStep m (Streamed type task pane message) ss =
     (if \<not> snd ss then return ss else do { slots \<leftarrow> handleEvent m type task pane message (fst ss); return (slots, True) })"
| "managerStep m StreamEnded ss = return (fst ss, False)"

fun managerLoop :: "Manager \<Rightarrow> manager_event list \<Rightarrow> managerSlot list \<times> bool \<Rightarrow> (World, managerSlot list \<times> bool) state" where
  "managerLoop m [] ss = return ss"
| "managerLoop m (ev # evs) ss = do { ss' \<leftarrow> managerStep m ev ss; managerLoop m evs ss' }"

text \<open>\<open>Run\<close> up to the end of the context: \<open>Inl\<close> when it ends before its loop.\<close>

definition managerRun :: "Manager \<Rightarrow> nat \<Rightarrow> manager_event list \<Rightarrow> managerSlot list \<Rightarrow> (World, string + managerSlot list \<times> bool) state" where
  "managerRun m polls evs slots = do {
     ready \<leftarrow> waitForAnchor m polls;
     if \<not> ready then return (Inl ''ticket manager anchor not ready'')
     else do {
       connected \<leftarrow> connectStream;
       if \<not> connected then return (Inl ''connect ticket manager event stream'')
       else do {
         slots1 \<leftarrow> fillEmptySlots m True slots;
         ss \<leftarrow> managerLoop m evs (slots1, True);
         return (Inr ss) } } }"

definition Run :: "Manager \<Rightarrow> nat \<Rightarrow> manager_event list \<Rightarrow> managerSlot list \<Rightarrow> (World, string + managerSlot list \<times> bool) state" where
  "Run m polls evs slots = do {
     r \<leftarrow> managerRun m polls evs slots;
     case r of
       Inl e \<Rightarrow> return (Inl e)
     | Inr ss \<Rightarrow> do { done' \<leftarrow> shutdownSlots m (fst ss); return (Inr done') } }"

end
