(* ===== verification/Ticket_Safety.thy ===== *)
theory Ticket_Safety
  imports Ticket_Manager
begin

text \<open>
  What the ticket manager guarantees, whatever other processes do and whichever calls fail: every worker pane that is
  open belongs to a slot, a ticket is in one slot, a ticket is completed only on the worker's report, and a
  claimed ticket is not forgotten. The account of the outside (\<open>acct\<close>) says which panes, claims and
  reports the slots stand for; each call of the manager moves the account, and a slot's operation keeps it.
\<close>

section \<open>The account\<close>

definition live :: "Manager \<Rightarrow> WorkerPane list \<Rightarrow> string set" where
  "live m panes = {x. \<exists>p \<in> set panes. wp_ID p = x \<and> \<not> paneOver p \<and> (\<exists>i. x = workerPaneID m i)}"

definition pane_ok :: "Manager \<Rightarrow> WorkerPane \<Rightarrow> bool" where
  "pane_ok m p \<longleftrightarrow> (\<forall>i. wp_ID p = workerPaneID m i \<longrightarrow>
     wp_TaskID p = ma_taskID m \<and> wp_SessionID p = ma_zellijSession m \<and> wp_Role p = ''coding-agent'')"

definition panes_ok :: "Manager \<Rightarrow> WorkerPane list \<Rightarrow> bool" where
  "panes_ok m panes \<longleftrightarrow> distinct (map wp_ID panes) \<and> (\<forall>p \<in> set panes. pane_ok m p)"

definition dups :: "World \<Rightarrow> int set" where
  "dups w = {i. (''duplicate claim'', i) \<in> set (wo_log w)}"

definition reported :: "Manager \<Rightarrow> World \<Rightarrow> int \<Rightarrow> bool" where
  "reported m w i \<longleftrightarrow> (\<exists>out marker. (workerPaneID m i, out) \<in> set (wo_seen w) \<and> CompletionMarker i = Some marker \<and> fst (parseCompletionOutput out marker))"

text \<open>\<open>R\<close>: the panes the slots account for; \<open>H\<close>: their tickets; \<open>D\<close>: the tickets of slots that are done; \<open>E\<close>: those of slots
  that wait to be completed.\<close>

definition acct :: "Manager \<Rightarrow> string set \<Rightarrow> int set \<Rightarrow> int set \<Rightarrow> int set \<Rightarrow> World \<Rightarrow> bool" where
  "acct m R H D E w \<longleftrightarrow> panes_ok m (wo_panes w) \<and> live m (wo_panes w) \<subseteq> R \<and> set (wo_held w) \<subseteq> H \<union> dups w \<and>
     (\<forall>i \<in> D. i \<notin> set (wo_held w) \<or> i \<in> dups w) \<and> (\<forall>i \<in> E \<union> set (wo_completed w). reported m w i)"

lemma acct_mono: "acct m R H D E w \<Longrightarrow> R \<subseteq> R' \<Longrightarrow> H \<subseteq> H' \<Longrightarrow> D' \<subseteq> D \<Longrightarrow> E' \<subseteq> E \<Longrightarrow> acct m R' H' D' E' w"
  by (fastforce simp: acct_def)

lemma run_bindE:
  assumes "run_state (State_Monad.bind f g) w = (r, w')"
  obtains x w1 where "run_state f w = (x, w1)" "run_state (g x) w1 = (r, w')"
  using assms by (auto split: prod.splits)

section \<open>Panes\<close>

lemma panes_ok_map:
  assumes "panes_ok m panes" "\<And>p. wp_ID (f p) = wp_ID p \<and> (pane_ok m p \<longrightarrow> pane_ok m (f p))"
  shows "panes_ok m (map f panes)"
proof -
  have "map wp_ID (map f panes) = map wp_ID panes" using assms(2) by simp
  then have "distinct (map wp_ID (map f panes))" using assms(1) by (metis panes_ok_def)
  then show ?thesis using assms by (simp add: panes_ok_def)
qed

lemma pane_ok_status [simp]: "pane_ok m (p\<lparr>wp_Status := st\<rparr>) = pane_ok m p"
  by (simp add: pane_ok_def)

lemma panes_ok_filter: "panes_ok m panes \<Longrightarrow> panes_ok m (filter P panes)"
  by (simp add: panes_ok_def distinct_map_filter)

lemma elapse_ok: "panes_ok m panes \<Longrightarrow> panes_ok m (elapse h panes)"
  unfolding elapse_def by (intro panes_ok_filter panes_ok_map) (auto split: option.splits)

lemma live_elapse: "live m (elapse h panes) \<subseteq> live m panes"
proof -
  have "\<exists>q \<in> set panes. wp_ID q = wp_ID p \<and> \<not> paneOver q" if "p \<in> set (elapse h panes)" "\<not> paneOver p" for p
    using that unfolding elapse_def by (auto split: option.splits if_splits)
  then show ?thesis unfolding live_def by blast
qed

lemma endPane_ok: "panes_ok m panes \<Longrightarrow> panes_ok m (endPane x panes)"
  unfolding endPane_def by (intro panes_ok_map) auto

lemma live_endPane: "live m (endPane x panes) \<subseteq> live m panes - {x}"
proof -
  have "p \<in> set panes \<and> wp_ID p \<noteq> x" if "p \<in> set (endPane x panes)" "\<not> paneOver p" for p
    using that unfolding endPane_def by (auto simp: paneOver_def split: if_splits)
  then show ?thesis unfolding live_def by blast
qed

definition request_ok :: "Manager \<Rightarrow> PaneRequest \<Rightarrow> bool" where
  "request_ok m req \<longleftrightarrow> pq_TaskID req = ma_taskID m \<and> pq_ZellijSession req = ma_zellijSession m \<and> pq_Role req = ''coding-agent''"

lemma openPane_ok: "panes_ok m panes \<Longrightarrow> request_ok m req \<Longrightarrow> panes_ok m (openPane req panes)"
  by (auto simp: panes_ok_def openPane_def request_ok_def pane_ok_def distinct_map_filter)

lemma live_openPane: "live m (openPane req panes) \<subseteq> insert (pq_ID req) (live m panes)"
  by (auto simp: live_def openPane_def)

section \<open>Calls\<close>

lemma arrive_acct: "acct m R H D E w \<Longrightarrow> run_state arrive w = (h, w') \<Longrightarrow> acct m R H D E w'"
  using live_elapse [of m]
  by (auto simp: arrive_def acct_def elapse_ok dups_def reported_def split: list.splits) blast+

lemma run_logTicketf [simp]: "run_state (logTicketf ev i) w = ((), w\<lparr>wo_log := wo_log w @ [(ev, i)]\<rparr>)"
  by (simp add: logTicketf_def)

lemma acct_log [simp]: "acct m R H D E w \<Longrightarrow> acct m R H D E (w\<lparr>wo_log := wo_log w @ l\<rparr>)"
  by (auto simp: acct_def dups_def reported_def)

lemma log_acct: "acct m R H D E w \<Longrightarrow> run_state (logTicketf ev i) w = (u, w') \<Longrightarrow> acct m R H D E w'"
  by auto

lemma log_duplicate: "acct m R (insert i H) (D - {i}) E w \<Longrightarrow> run_state (logTicketf ''duplicate claim'' i) w = (u, w') \<Longrightarrow> acct m R H D E w'"
  by (auto simp: logTicketf_def acct_def dups_def reported_def)

lemma get_acct: "acct m R H D E w \<Longrightarrow> run_state (storeGet i) w = (r, w') \<Longrightarrow> acct m R H D E w'"
  unfolding storeGet_def by (auto split: prod.splits dest: arrive_acct)

lemma get_ID: "run_state (storeGet i) w = (Inr t, w') \<Longrightarrow> tk_ID t = i"
  unfolding storeGet_def
  by (auto split: prod.splits simp: GetTicket_def findTicket_def find_Some_iff split: option.splits)

lemma inspect_acct:
  assumes "acct m R H D E w" "run_state clientInspect w = (r, w')"
  shows "acct m R H D E w'" "r = Inr panes \<Longrightarrow> panes = wo_panes w'"
  using assms unfolding clientInspect_def by (auto split: prod.splits dest: arrive_acct split: option.splits)

lemma prepare_acct: "acct m R H D E w \<Longrightarrow> run_state prepareWorktree w = (r, w') \<Longrightarrow> acct m R H D E w'"
  unfolding prepareWorktree_def by (auto split: prod.splits dest: arrive_acct)

lemma ctxDone_acct: "acct m R H D E w \<Longrightarrow> run_state ctxDone w = (r, w') \<Longrightarrow> acct m R H D E w'"
  unfolding ctxDone_def by (auto split: prod.splits dest: arrive_acct)

lemma connect_acct: "acct m R H D E w \<Longrightarrow> run_state connectStream w = (r, w') \<Longrightarrow> acct m R H D E w'"
  unfolding connectStream_def by (auto split: prod.splits dest: arrive_acct)

lemma acct_voices [simp]: "acct m R H D E (w\<lparr>wo_voices := vs\<rparr>) = acct m R H D E w"
  by (simp add: acct_def dups_def reported_def)

lemma acct_db [simp]: "acct m R H D E (w\<lparr>wo_db := db\<rparr>) = acct m R H D E w"
  by (simp add: acct_def dups_def reported_def)

lemma voice_acct: "acct m R H D E w \<Longrightarrow> run_state (clientVoice req) w = (r, w') \<Longrightarrow> acct m R H D E w'"
  unfolding clientVoice_def by (auto split: prod.splits dest: arrive_acct split: option.splits)

lemma seen_acct: "acct m R H D E w \<Longrightarrow> acct m R H D E (w\<lparr>wo_seen := x # wo_seen w\<rparr>)"
  by (fastforce simp: acct_def dups_def reported_def)

lemma snapshot_acct:
  assumes "acct m R H D E w" "run_state (clientSnapshot x) w = (r, w')"
  shows "acct m R H D E w'" "r = Inr (p, out) \<Longrightarrow> (x, out) \<in> set (wo_seen w')"
proof -
  obtain h w1 where a: "run_state arrive w = (h, w1)" by fastforce
  have w1: "acct m R H D E w1" using arrive_acct [OF assms(1) a] .
  show "acct m R H D E w'" "r = Inr (p, out) \<Longrightarrow> (x, out) \<in> set (wo_seen w')"
    using assms(2) a w1 seen_acct [OF w1] unfolding clientSnapshot_def by (auto split: option.splits)
qed

text \<open>A claim enters the account.\<close>

lemma next_acct:
  assumes "acct m R H D E w" "run_state storeNext w = (r, w')"
  shows "r = Inl e \<Longrightarrow> acct m R H D E w'" "r = Inr t \<Longrightarrow> acct m R (insert (tk_ID t) H) (D - {tk_ID t}) E w'"
proof -
  obtain h w1 where a: "run_state arrive w = (h, w1)" by fastforce
  have w1: "acct m R H D E w1" using arrive_acct [OF assms(1) a] .
  have r: "r = snd (NextTicket (ha_store h) (ha_now h) (wo_db w1))" and w': "w' = w1\<lparr>wo_db := fst (NextTicket (ha_store h) (ha_now h) (wo_db w1)),
      wo_held := (case r of Inl _ \<Rightarrow> wo_held w1 | Inr t \<Rightarrow> tk_ID t # wo_held w1)\<rparr>"
    using assms(2) a unfolding storeNext_def by (auto split: option.splits if_splits)
  show "acct m R H D E w'" if "r = Inl e" using w1 that by (simp add: w')
  show "acct m R (insert (tk_ID t) H) (D - {tk_ID t}) E w'" if "r = Inr t"
    using w1 that by (auto simp: w' acct_def dups_def reported_def)
qed

lemma acct_letGo:
  assumes "acct m R (insert i H) D E w" "\<not> isl r \<or> r = Inl ErrInvalidTransition"
  shows "acct m R (H - {i}) (insert i D) E (w\<lparr>wo_held := letGo i r (wo_held w)\<rparr>)"
  using assms by (auto simp: acct_def letGo_def dups_def reported_def)

lemma requeue_acct:
  assumes "acct m R (insert i H) D E w" "run_state (storeRequeue i) w = (r, w')"
  shows "acct m R (insert i H) D E w'" "\<not> isl r \<or> r = Inl ErrInvalidTransition \<Longrightarrow> acct m R H D E w'"
proof -
  obtain h w1 where a: "run_state arrive w = (h, w1)" by fastforce
  have w1: "acct m R (insert i H) D E w1" using arrive_acct [OF assms(1) a] .
  have r: "r = snd (RequeueTicket (ha_store h) (ha_now h) i (wo_db w1))" and w': "w' = w1\<lparr>wo_db := fst (RequeueTicket (ha_store h) (ha_now h) i (wo_db w1)), wo_held := letGo i r (wo_held w1)\<rparr>"
    using assms(2) a unfolding storeRequeue_def by (auto split: option.splits if_splits)
  show b: "acct m R H D E w'" if "\<not> isl r \<or> r = Inl ErrInvalidTransition"
  proof -
    have "acct m R H D E (w1\<lparr>wo_held := letGo i r (wo_held w1)\<rparr>)" by (rule acct_mono [OF acct_letGo [OF w1 that]]) auto
    moreover have "w' = (w1\<lparr>wo_held := letGo i r (wo_held w1)\<rparr>)\<lparr>wo_db := fst (RequeueTicket (ha_store h) (ha_now h) i (wo_db w1))\<rparr>"
      by (simp add: w')
    ultimately show ?thesis by simp
  qed
  show "acct m R (insert i H) D E w'"
  proof (cases "\<not> isl r \<or> r = Inl ErrInvalidTransition")
    case True
    show ?thesis by (rule acct_mono [OF b [OF True]]) auto
  next
    case False
    then show ?thesis using w1 by (simp add: w' letGo_def)
  qed
qed

text \<open>A completion needs the report.\<close>

lemma done_acct:
  assumes "acct m R H D E w" "i \<in> E" "run_state (storeDone i) w = (r, w')"
  shows "acct m R H D E w'" "\<not> isl r \<or> r = Inl ErrInvalidTransition \<Longrightarrow> acct m R H (insert i D) E w'"
    "r = Inr t \<Longrightarrow> tk_ID t = i"
proof -
  obtain h w1 where a: "run_state arrive w = (h, w1)" by fastforce
  have w1: "acct m R H D E w1" using arrive_acct [OF assms(1) a] .
  have r: "r = snd (TransitionTicket (ha_store h) (ha_now h) i ActionDone (wo_db w1))" and w': "w' = w1\<lparr>wo_db := fst (TransitionTicket (ha_store h) (ha_now h) i ActionDone (wo_db w1)),
      wo_held := letGo i r (wo_held w1), wo_completed := (case r of Inl _ \<Rightarrow> wo_completed w1 | Inr _ \<Rightarrow> i # wo_completed w1)\<rparr>"
    using assms(3) a unfolding storeDone_def by (auto split: option.splits if_splits)
  show "acct m R H (insert i D) E w'" if "\<not> isl r \<or> r = Inl ErrInvalidTransition"
    using w1 assms(2) that by (auto simp: w' acct_def letGo_def dups_def reported_def split: sum.splits)
  show "acct m R H D E w'"
    using w1 assms(2) by (auto simp: w' acct_def letGo_def dups_def reported_def split: sum.splits)
  show "tk_ID t = i" if "r = Inr t"
    using that r [symmetric]
    by (auto simp: TransitionTicket_def GetTicket_def findTicket_def find_Some_iff Let_def stampAction_def split: option.splits sum.splits if_splits)
qed

lemma create_acct:
  assumes "acct m R H D E w" "request_ok m req" "run_state (clientCreatePane req) w = (r, w')"
  shows "r = Some e \<Longrightarrow> safeCreateFailure e \<Longrightarrow> acct m R H D E w'" "acct m (insert (pq_ID req) R) H D E w'"
proof -
  obtain h w1 where a: "run_state arrive w = (h, w1)" by fastforce
  have w1: "acct m R H D E w1" using arrive_acct [OF assms(1) a] .
  have r: "r = ha_fault h" and w': "w' = (if (case r of None \<Rightarrow> True | Some e \<Rightarrow> ha_applied h \<and> \<not> safeCreateFailure e) then w1\<lparr>wo_panes := openPane req (wo_panes w1)\<rparr> else w1)"
    using assms(3) a unfolding clientCreatePane_def by (auto split: option.splits if_splits)
  show "acct m R H D E w'" if "r = Some e" "safeCreateFailure e" using w1 that by (simp add: w')
  have "acct m (insert (pq_ID req) R) H D E (w1\<lparr>wo_panes := openPane req (wo_panes w1)\<rparr>)"
    using w1 openPane_ok [OF _ assms(2)] live_openPane [of m req "wo_panes w1"] by (auto simp: acct_def dups_def reported_def)
  then show "acct m (insert (pq_ID req) R) H D E w'" using acct_mono [OF w1, of "insert (pq_ID req) R" H D E] by (auto simp: w')
qed

lemma close_acct:
  assumes "acct m R H D E w" "run_state (clientClosePane x) w = (r, w')"
  shows "r = None \<Longrightarrow> acct m (R - {x}) H D E w'" "acct m R H D E w'"
proof -
  obtain h w1 where a: "run_state arrive w = (h, w1)" by fastforce
  have w1: "acct m R H D E w1" using arrive_acct [OF assms(1) a] .
  have r: "r = ha_fault h" and w': "w' = (if ha_fault h = None \<or> ha_applied h then w1\<lparr>wo_panes := endPane x (wo_panes w1)\<rparr> else w1)"
    using assms(2) a unfolding clientClosePane_def by (auto split: option.splits if_splits)
  have c: "acct m (R - {x}) H D E (w1\<lparr>wo_panes := endPane x (wo_panes w1)\<rparr>)"
    using w1 endPane_ok live_endPane [of m x "wo_panes w1"] by (auto simp: acct_def dups_def reported_def)
  show "acct m (R - {x}) H D E w'" if "r = None" using c r that by (simp add: w')
  show "acct m R H D E w'" using acct_mono [OF c, of R H D E] w1 by (auto simp: w')
qed

text \<open>A pane that takes no capacity is not open.\<close>

lemma not_consuming:
  assumes "panes_ok m panes" "\<not> paneConsumesCapacity m panes (workerPaneID m i)"
  shows "workerPaneID m i \<notin> live m panes"
proof
  assume "workerPaneID m i \<in> live m panes"
  then obtain p where p: "p \<in> set panes" "wp_ID p = workerPaneID m i" "\<not> paneOver p" by (auto simp: live_def)
  then have t: "wp_TaskID p = ma_taskID m" "wp_SessionID p = ma_zellijSession m" using assms(1) by (auto simp: panes_ok_def pane_ok_def)
  let ?P = "\<lambda>p. wp_ID p = workerPaneID m i \<and> wp_TaskID p = ma_taskID m \<and> wp_SessionID p = ma_zellijSession m"
  obtain q where q: "find ?P panes = Some q" using p t by (cases "find ?P panes") (auto simp: find_None_iff)
  then have "q \<in> set panes" "wp_ID q = wp_ID p" using p by (auto simp: find_Some_iff)
  then have "q = p" using assms(1) p(1) by (metis panes_ok_def distinct_map inj_onD)
  then show False using assms(2) q p(3) by (simp add: paneConsumesCapacity_def)
qed

lemma closeOrAbsent_acct:
  assumes "acct m R H D E w" "run_state (closeOrAbsent m (workerPaneID m i)) w = (r, w')"
  shows "r = None \<Longrightarrow> acct m (R - {workerPaneID m i}) H D E w'" "acct m R H D E w'"
proof -
  obtain c w1 where c: "run_state (clientClosePane (workerPaneID m i)) w = (c, w1)"
    and rest: "run_state (case c of None \<Rightarrow> return None | Some e \<Rightarrow> do {
         q \<leftarrow> clientInspect;
         return (case q of
             Inl e' \<Rightarrow> Some (BothFailed e e')
           | Inr panes \<Rightarrow> if \<not> paneConsumesCapacity m panes (workerPaneID m i) then None else Some (ClientFailed e)) }) w1 = (r, w')"
    using assms(2) unfolding closeOrAbsent_def by (auto split: prod.splits)
  note c1 = close_acct [OF assms(1) c]
  have "(r = None \<longrightarrow> acct m (R - {workerPaneID m i}) H D E w') \<and> acct m R H D E w'"
  proof (cases c)
    case None
    then show ?thesis using rest c1 by auto
  next
    case (Some e)
    then obtain q where q: "run_state clientInspect w1 = (q, w')"
      and r: "r = (case q of Inl e' \<Rightarrow> Some (BothFailed e e')
           | Inr panes \<Rightarrow> if \<not> paneConsumesCapacity m panes (workerPaneID m i) then None else Some (ClientFailed e))"
      using rest by (auto split: prod.splits)
    note q1 = inspect_acct [OF c1(2) q]
    have "acct m (R - {workerPaneID m i}) H D E w'" if "r = None"
    proof -
      have "\<not> paneConsumesCapacity m (wo_panes w') (workerPaneID m i)" using that r q1(2) by (auto split: sum.splits if_splits)
      then have "workerPaneID m i \<notin> live m (wo_panes w')" using not_consuming q1(1) by (auto simp: acct_def)
      then show ?thesis using q1(1) by (auto simp: acct_def)
    qed
    then show ?thesis using q1(1) by blast
  qed
  then show "r = None \<Longrightarrow> acct m (R - {workerPaneID m i}) H D E w'" "acct m R H D E w'" by auto
qed

section \<open>Slots\<close>

definition owned :: "managerSlot \<Rightarrow> string set" where
  "owned s = (if sl_paneCreated s \<or> sl_creationUncertain s then {sl_paneID s} else {})"

definition ticketOf :: "managerSlot \<Rightarrow> int set" where
  "ticketOf s = (if sl_state s = SlotEmpty then {} else {slotTicket s})"

definition doneOf :: "managerSlot \<Rightarrow> int set" where
  "doneOf s = (if sl_done s then {slotTicket s} else {})"

definition awaited :: "managerSlot \<Rightarrow> int set" where
  "awaited s = (if sl_state s = SlotCompleting then {slotTicket s} else {})"

lemmas slot_sets = owned_def ticketOf_def doneOf_def awaited_def

definition slot_ok :: "Manager \<Rightarrow> managerSlot \<Rightarrow> bool" where
  "slot_ok m s \<longleftrightarrow>
     (sl_state s = SlotEmpty \<longrightarrow> \<not> sl_paneCreated s \<and> \<not> sl_creationUncertain s \<and> \<not> sl_done s) \<and>
     (sl_state s \<noteq> SlotEmpty \<longrightarrow> sl_paneID s = workerPaneID m (slotTicket s)) \<and>
     (sl_paneCreated s \<or> sl_creationUncertain s \<longrightarrow> request_ok m (sl_createRequest s) \<and> pq_ID (sl_createRequest s) = sl_paneID s) \<and>
     (sl_state s = SlotWorking \<longrightarrow> CompletionMarker (slotTicket s) = Some (sl_marker s)) \<and>
     (sl_done s \<longleftrightarrow> sl_state s = SlotClosing)"

text \<open>The account of a slot beside the others, and what an operation on the slot keeps.\<close>

definition slot_acct :: "Manager \<Rightarrow> string set \<Rightarrow> int set \<Rightarrow> int set \<Rightarrow> int set \<Rightarrow> managerSlot \<Rightarrow> World \<Rightarrow> bool" where
  "slot_acct m R H D E s w \<longleftrightarrow> slot_ok m s \<and> acct m (R \<union> owned s) (H \<union> ticketOf s) (D \<union> doneOf s) (E \<union> awaited s) w"

definition same_ticket :: "managerSlot \<Rightarrow> managerSlot \<Rightarrow> bool" where
  "same_ticket s s' \<longleftrightarrow> sl_state s' = SlotEmpty \<or> sl_state s \<noteq> SlotEmpty \<and> slotTicket s' = slotTicket s"

lemma same_ticket_refl [simp]: "same_ticket s s"
  by (simp add: same_ticket_def)

lemma same_ticket_empty [simp]: "same_ticket s emptySlot"
  by (simp add: same_ticket_def emptySlot_def)

lemma slot_acct_empty [simp]: "slot_acct m R H D E emptySlot w = acct m R H D E w"
  by (simp add: slot_acct_def slot_ok_def slot_sets emptySlot_def)

lemma acct_done: "acct m R (insert i H) (insert i D) E w \<Longrightarrow> acct m R H D E w"
  by (auto simp: acct_def)

lemma slotTicket_update [simp]:
  "slotTicket (s\<lparr>sl_state := st\<rparr>) = slotTicket s" "slotTicket (s\<lparr>sl_paneID := x\<rparr>) = slotTicket s" "slotTicket (s\<lparr>sl_marker := x\<rparr>) = slotTicket s"
  "slotTicket (s\<lparr>sl_prompt := x\<rparr>) = slotTicket s" "slotTicket (s\<lparr>sl_createRequest := q\<rparr>) = slotTicket s"
  "slotTicket (s\<lparr>sl_paneCreated := b\<rparr>) = slotTicket s" "slotTicket (s\<lparr>sl_creationUncertain := b\<rparr>) = slotTicket s"
  "slotTicket (s\<lparr>sl_done := b\<rparr>) = slotTicket s" "slotTicket (s\<lparr>sl_summary := x\<rparr>) = slotTicket s" "slotTicket (s\<lparr>sl_lastError := er\<rparr>) = slotTicket s"
  "slotTicket (s\<lparr>sl_ticket := Some t\<rparr>) = tk_ID t"
  by (simp_all add: slotTicket_def)

lemma slot_acct_lastError [simp]: "slot_acct m R H D E (s\<lparr>sl_lastError := er\<rparr>) w = slot_acct m R H D E s w"
  by (simp add: slot_acct_def slot_ok_def slot_sets)

lemma slot_acct_summary [simp]: "slot_acct m R H D E (s\<lparr>sl_summary := x\<rparr>) w = slot_acct m R H D E s w"
  by (simp add: slot_acct_def slot_ok_def slot_sets)

lemma same_ticket_fields [simp]:
  "same_ticket s (s\<lparr>sl_lastError := er\<rparr>)" "same_ticket (s\<lparr>sl_summary := x\<rparr>) s' = same_ticket s s'"
  by (simp_all add: same_ticket_def)

lemma slot_acctD: "slot_acct m R H D E s w \<Longrightarrow> acct m (R \<union> owned s) (H \<union> ticketOf s) (D \<union> doneOf s) (E \<union> awaited s) w"
  by (simp add: slot_acct_def)

lemma slot_acctI: "slot_acct m R H D E s w \<Longrightarrow> acct m (R \<union> owned s) (H \<union> ticketOf s) (D \<union> doneOf s) (E \<union> awaited s) w' \<Longrightarrow> slot_acct m R H D E s w'"
  by (simp add: slot_acct_def)

subsection \<open>Finishing\<close>

lemma voiceAttempts_acct: "acct m R H D E w \<Longrightarrow> run_state (voiceAttempts req ds) w = (r, w') \<Longrightarrow> acct m R H D E w'"
proof (induction ds arbitrary: w)
  case Nil
  then show ?case by (auto simp: voiceAttempts.simps [of req "[]"] split: prod.splits sum.splits if_splits dest: voice_acct)
next
  case (Cons d ds)
  obtain q w1 where q: "run_state (clientVoice req) w = (q, w1)" by fastforce
  have w1: "acct m R H D E w1" using voice_acct [OF Cons.prems(1) q] .
  obtain b w2 where b: "run_state ctxDone w1 = (b, w2)" by fastforce
  have w2: "acct m R H D E w2" using ctxDone_acct [OF w1 b] .
  have "w' = w1 \<or> w' = w2 \<or> run_state (voiceAttempts req ds) w2 = (r, w')"
    using Cons.prems(2) q b by (subst (asm) voiceAttempts.simps) (auto split: sum.splits if_splits)
  then show ?case using Cons.IH [OF w2] w1 w2 by blast
qed

lemma finalize_acct:
  assumes "acct m R H D E w" "run_state (finalizeCompletedSlot m s) w = (s', w')"
  shows "acct m R H D E w'" "s' = emptySlot"
proof -
  have v: "acct m R H D E w1" if "run_state (queueCompletionVoice m s) w = (b, w1)" for b w1
    using that assms(1) unfolding queueCompletionVoice_def by (auto split: option.splits dest: voiceAttempts_acct)
  obtain b w1 where b: "run_state (queueCompletionVoice m s) w = (b, w1)" by fastforce
  show "acct m R H D E w'"
    using assms(2) b v [OF b] assms(1) unfolding finalizeCompletedSlot_def by (auto split: if_splits)
  show "s' = emptySlot" using assms(2) unfolding finalizeCompletedSlot_def by (auto split: prod.splits)
qed

lemma retryClose_ok:
  assumes "slot_acct m R H D E s w" "sl_done s" "run_state (retryClose m s) w = (s', w')"
  shows "slot_acct m R H D E s' w'" "same_ticket s s'"
proof -
  have st: "sl_state s = SlotClosing" "sl_paneID s = workerPaneID m (slotTicket s)" using assms(1,2) by (auto simp: slot_acct_def slot_ok_def)
  obtain r w1 where r: "run_state (closeOrAbsent m (sl_paneID s)) w = (r, w1)" by fastforce
  note c = closeOrAbsent_acct [OF slot_acctD [OF assms(1)] r [unfolded st(2)]]
  have "slot_acct m R H D E s' w' \<and> same_ticket s s'"
  proof (cases r)
    case (Some e)
    then have "w' = w1\<lparr>wo_log := wo_log w1 @ [(''close'', slotTicket s)]\<rparr>" "s' = s\<lparr>sl_lastError := Some e\<rparr>"
      using assms(3) r unfolding retryClose_def by auto
    then show ?thesis using slot_acctI [OF assms(1) acct_log [OF c(2)]] by simp
  next
    case None
    have "acct m R (insert (slotTicket s) H) (insert (slotTicket s) D) E w1"
      using c(1) [OF None] st assms(2) by (rule_tac acct_mono) (auto simp: slot_sets split: if_splits)
    then have w1: "acct m R H D E w1" by (rule acct_done)
    have "run_state (finalizeCompletedSlot m s) w1 = (s', w')"
      using assms(3) r None unfolding retryClose_def by (auto split: prod.splits)
    from finalize_acct [OF w1 this] show ?thesis by simp
  qed
  then show "slot_acct m R H D E s' w'" "same_ticket s s'" by auto
qed

lemma slot_acct_log: "slot_acct m R H D E s w \<Longrightarrow> slot_acct m R H D E s (w\<lparr>wo_log := wo_log w @ l\<rparr>)"
  by (simp add: slot_acct_def)

lemma retryComplete_ok:
  assumes "slot_acct m R H D E s w" "sl_state s = SlotCompleting" "run_state (retryComplete m s) w = (s', w')"
  shows "slot_acct m R H D E s' w'" "same_ticket s s'"
proof -
  let ?i = "slotTicket s"
  have ok: "slot_ok m s" using assms(1) by (simp add: slot_acct_def)
  have nd: "\<not> sl_done s" using ok assms(2) by (auto simp: slot_ok_def)
  obtain r w1 where r: "run_state (storeDone ?i) w = (r, w1)" by fastforce
  have i: "?i \<in> E \<union> awaited s" using assms(2) by (simp add: awaited_def)
  note d = done_acct [OF slot_acctD [OF assms(1)] i r]
  have closing: "slot_acct m R H D E (closing t s) w2"
    if "acct m (R \<union> owned s) (H \<union> ticketOf s) (insert ?i (D \<union> doneOf s)) (E \<union> awaited s) w2" "tk_ID t = ?i" for t w2
    unfolding slot_acct_def
  proof
    show "slot_ok m (closing t s)" using ok that(2) assms(2) by (auto simp: slot_ok_def closing_def)
    show "acct m (R \<union> owned (closing t s)) (H \<union> ticketOf (closing t s)) (D \<union> doneOf (closing t s)) (E \<union> awaited (closing t s)) w2"
      using that(2) assms(2) by (intro acct_mono [OF that(1)]) (auto simp: slot_sets closing_def)
  qed
  have close: "slot_acct m R H D E s' w' \<and> same_ticket s s'"
    if "acct m (R \<union> owned s) (H \<union> ticketOf s) (insert ?i (D \<union> doneOf s)) (E \<union> awaited s) w2" "tk_ID t = ?i"
      "run_state (retryClose m (closing t s)) w2 = (s', w')" for t w2
  proof -
    have "slot_acct m R H D E s' w'" "same_ticket (closing t s) s'"
      using retryClose_ok [OF closing [OF that(1,2)] _ that(3)] by (simp_all add: closing_def)
    then show ?thesis using that(2) assms(2) by (auto simp: same_ticket_def closing_def)
  qed
  have stay: "slot_acct m R H D E s' w' \<and> same_ticket s s'"
    if "acct m (R \<union> owned s) (H \<union> ticketOf s) (D \<union> doneOf s) (E \<union> awaited s) w2" "w' = w2\<lparr>wo_log := wo_log w2 @ [(''complete'', ?i)]\<rparr>" "s' = s\<lparr>sl_lastError := er\<rparr>" for w2 er
    using slot_acctI [OF assms(1) acct_log [OF that(1)]] that(2,3) by simp
  have "slot_acct m R H D E s' w' \<and> same_ticket s s'"
  proof (cases r)
    case (Inr t)
    then show ?thesis using close [OF d(2) d(3)] assms(3) r unfolding retryComplete_def by simp
  next
    case (Inl e)
    show ?thesis
    proof (cases "e = ErrInvalidTransition")
      case False
      then show ?thesis using stay [OF d(1)] assms(3) r Inl unfolding retryComplete_def by auto
    next
      case True
      obtain g w2 where g: "run_state (storeGet ?i) w1 = (g, w2)" by fastforce
      have w2: "acct m (R \<union> owned s) (H \<union> ticketOf s) (insert ?i (D \<union> doneOf s)) (E \<union> awaited s) w2"
        using get_acct [OF d(2) g] Inl True by simp
      have w2': "acct m (R \<union> owned s) (H \<union> ticketOf s) (D \<union> doneOf s) (E \<union> awaited s) w2" by (rule acct_mono [OF w2]) auto
      show ?thesis
      proof (cases "\<exists>t. g = Inr t \<and> tk_Status t = TicketDone")
        case found: True
        then obtain t where t: "g = Inr t" "tk_Status t = TicketDone" by blast
        show ?thesis using close [OF w2 get_ID [OF g [unfolded t(1)]]] assms(3) r g t Inl True unfolding retryComplete_def by simp
      next
        case False
        then show ?thesis using stay [OF w2'] assms(3) r g Inl True unfolding retryComplete_def by (auto split: sum.splits)
      qed
    qed
  qed
  then show "slot_acct m R H D E s' w'" "same_ticket s s'" by auto
qed

lemma completeSlot_ok:
  assumes "slot_acct m R H D E s w" "sl_state s = SlotWorking" "reported m w (slotTicket s)" "run_state (completeSlot m s) w = (s', w')"
  shows "slot_acct m R H D E s' w'" "same_ticket s s'"
proof -
  let ?s = "s\<lparr>sl_state := SlotCompleting\<rparr>"
  have "slot_ok m ?s" using assms(1,2) by (auto simp: slot_acct_def slot_ok_def)
  moreover have "acct m (R \<union> owned ?s) (H \<union> ticketOf ?s) (D \<union> doneOf ?s) (E \<union> awaited ?s) w"
    using slot_acctD [OF assms(1)] assms(2,3) by (auto simp: slot_sets acct_def)
  ultimately have a: "slot_acct m R H D E ?s w" by (simp add: slot_acct_def)
  have r: "run_state (retryComplete m ?s) w = (s', w')" using assms(2,4) by (simp add: completeSlot_def)
  show "slot_acct m R H D E s' w'" using retryComplete_ok(1) [OF a _ r] by simp
  show "same_ticket s s'" using retryComplete_ok(2) [OF a _ r] assms(2) by (auto simp: same_ticket_def)
qed

subsection \<open>Cleaning up\<close>

lemma no_match_not_live:
  assumes "panes_ok m panes" "\<not> list_ex (matchesWorkerPane m s False) panes" "sl_paneID s = workerPaneID m i"
  shows "sl_paneID s \<notin> live m panes"
  using assms by (auto simp: live_def list_ex_iff matchesWorkerPane_def panes_ok_def pane_ok_def)

lemma found_acct: "slot_acct m R H D E s w \<Longrightarrow> sl_creationUncertain s \<Longrightarrow> slot_acct m R H D E (found s) w"
proof -
  assume a: "slot_acct m R H D E s w" and u: "sl_creationUncertain s"
  have t: "slotTicket (found s) = slotTicket s" by (simp add: found_def)
  have "slot_ok m (found s)" using a u by (auto simp: slot_acct_def slot_ok_def t) (auto simp: found_def)
  moreover have "owned (found s) = owned s" "ticketOf (found s) = ticketOf s" "doneOf (found s) = doneOf s" "awaited (found s) = awaited s"
    using u by (auto simp: slot_sets t) (auto simp: found_def)
  ultimately show ?thesis using a by (simp add: slot_acct_def)
qed

definition same_phase :: "managerSlot \<Rightarrow> managerSlot \<Rightarrow> bool" where
  "same_phase s s' \<longleftrightarrow> sl_state s' = sl_state s \<and> slotTicket s' = slotTicket s \<and> sl_done s' = sl_done s"

lemma same_phase_fields [simp]:
  "same_phase s s" "same_phase s (s\<lparr>sl_lastError := e\<rparr>)" "same_phase s (found s)" "same_phase s ((found s)\<lparr>sl_lastError := e\<rparr>)"
  "same_phase s (s\<lparr>sl_creationUncertain := b\<rparr>)"
  by (simp_all add: same_phase_def found_def)

lemma found_certain [simp]: "\<not> sl_creationUncertain (found s)"
  by (simp add: found_def)

text \<open>Here the pane is known not to be open.\<close>

lemma createAgain_ok:
  assumes "slot_ok m s" "sl_creationUncertain s" "acct m R (H \<union> ticketOf s) (D \<union> doneOf s) (E \<union> awaited s) w"
    "run_state (createAgain m s) w = ((s', b), w')"
  shows "slot_acct m R H D E s' w' \<and> same_phase s s' \<and> (b \<longrightarrow> \<not> sl_creationUncertain s')"
proof -
  let ?req = "sl_createRequest s"
  have ne: "sl_state s \<noteq> SlotEmpty" and req: "request_ok m ?req" "pq_ID ?req = sl_paneID s" using assms(1,2) by (auto simp: slot_ok_def)
  have own: "owned s = {sl_paneID s}" using assms(2) by (simp add: owned_def)
  obtain r w2 where r: "run_state (clientCreatePane ?req) w = (r, w2)" by fastforce
  note c = create_acct [OF assms(3) req(1) r]
  have s2: "slot_acct m R H D E s w2" using c(2) req(2) own assms(1) by (simp add: slot_acct_def)
  show ?thesis
  proof (cases r)
    case None
    then show ?thesis using assms(4) r found_acct [OF s2 assms(2)] by (auto simp: createAgain_def)
  next
    case (Some e)
    show ?thesis
    proof (cases "safeCreateFailure e")
      case True
      let ?s = "s\<lparr>sl_creationUncertain := False\<rparr>"
      have "slot_ok m ?s" using assms(1) ne by (auto simp: slot_ok_def)
      moreover have "acct m (R \<union> owned ?s) (H \<union> ticketOf ?s) (D \<union> doneOf ?s) (E \<union> awaited ?s) w2"
        by (rule acct_mono [OF c(1) [OF Some True]]) (auto simp: slot_sets)
      ultimately show ?thesis using assms(4) r Some True by (auto simp: createAgain_def slot_acct_def)
    next
      case False
      obtain q w3 where q: "run_state clientInspect w2 = (q, w3)" by fastforce
      have s3: "slot_acct m R H D E s w3" using slot_acctI [OF s2 inspect_acct(1) [OF slot_acctD [OF s2] q]] .
      show ?thesis using assms(4) r Some False q s3 found_acct [OF s3 assms(2)]
        by (auto simp: createAgain_def split: sum.splits if_splits)
    qed
  qed
qed

lemma resolve_ok:
  assumes "slot_acct m R H D E s w" "sl_creationUncertain s" "run_state (resolveUncertainCreation m s) w = ((s', b), w')"
  shows "slot_acct m R H D E s' w' \<and> same_phase s s' \<and> (b \<longrightarrow> \<not> sl_creationUncertain s')"
proof -
  have ok: "slot_ok m s" using assms(1) by (simp add: slot_acct_def)
  then have pid: "sl_paneID s = workerPaneID m (slotTicket s)" using assms(2) by (auto simp: slot_ok_def)
  obtain q w1 where q: "run_state clientInspect w = (q, w1)" by fastforce
  note i = inspect_acct [OF slot_acctD [OF assms(1)] q]
  have s1: "slot_acct m R H D E s w1" using slot_acctI [OF assms(1) i(1)] .
  show ?thesis
  proof (cases q)
    case (Inl e)
    then show ?thesis using assms(3) q s1 by (auto simp: resolveUncertainCreation_def)
  next
    case (Inr panes)
    show ?thesis
    proof (cases "list_ex (matchesWorkerPane m s False) panes")
      case True
      then show ?thesis using assms(3) q Inr found_acct [OF s1 assms(2)] by (auto simp: resolveUncertainCreation_def)
    next
      case False
      have "sl_paneID s \<notin> live m (wo_panes w1)" using no_match_not_live [OF _ False pid] i Inr by (simp add: acct_def)
      then have "acct m R (H \<union> ticketOf s) (D \<union> doneOf s) (E \<union> awaited s) w1" using i(1) assms(2) by (auto simp: acct_def owned_def)
      moreover have "run_state (createAgain m s) w1 = ((s', b), w')" using assms(3) q Inr False by (simp add: resolveUncertainCreation_def)
      ultimately show ?thesis using createAgain_ok [OF ok assms(2)] by blast
    qed
  qed
qed

text \<open>The panes of the slot are closed; its ticket goes back.\<close>

lemma closed_acct:
  assumes "slot_acct m R H D E s w" "sl_state s \<noteq> SlotEmpty" "run_state (closeOrAbsent m (sl_paneID s)) w = (None, w')"
  shows "acct m R (H \<union> ticketOf s) (D \<union> doneOf s) (E \<union> awaited s) w'"
proof -
  have pid: "sl_paneID s = workerPaneID m (slotTicket s)" using assms(1,2) by (auto simp: slot_acct_def slot_ok_def)
  show ?thesis by (rule acct_mono [OF closeOrAbsent_acct(1) [OF slot_acctD [OF assms(1)] assms(3) [unfolded pid]]]) (auto simp: owned_def pid)
qed

lemma requeue_slot:
  assumes "slot_ok m s" "sl_state s \<noteq> SlotEmpty" "\<not> sl_done s"
    "acct m R (H \<union> ticketOf s) (D \<union> doneOf s) (E \<union> awaited s) w" "run_state (storeRequeue (slotTicket s)) w = (r, w')"
  shows "\<not> isl r \<or> r = Inl ErrInvalidTransition \<Longrightarrow> acct m R H D E w'" "slot_acct m R H D E s w'"
proof -
  have h: "acct m R (insert (slotTicket s) H) (D \<union> doneOf s) (E \<union> awaited s) w" using assms(2,4) by (simp add: ticketOf_def)
  note r = requeue_acct [OF h assms(5)]
  show "acct m R H D E w'" if "\<not> isl r \<or> r = Inl ErrInvalidTransition" by (rule acct_mono [OF r(2) [OF that]]) auto
  have "acct m (R \<union> owned s) (H \<union> ticketOf s) (D \<union> doneOf s) (E \<union> awaited s) w'"
    by (rule acct_mono [OF r(1)]) (use assms(2) in \<open>auto simp: ticketOf_def\<close>)
  then show "slot_acct m R H D E s w'" using assms(1) by (simp add: slot_acct_def)
qed

lemma cleanupRequeue_ok:
  assumes "slot_ok m s" "sl_state s \<noteq> SlotEmpty" "\<not> sl_done s"
    "acct m R (H \<union> ticketOf s) (D \<union> doneOf s) (E \<union> awaited s) w" "run_state (cleanupRequeue s) w = (s', w')"
  shows "slot_acct m R H D E s' w' \<and> same_ticket s s'"
proof -
  obtain r w1 where r: "run_state (storeRequeue (slotTicket s)) w = (r, w1)" by fastforce
  note q = requeue_slot [OF assms(1-4) r]
  consider t where "r = Inr t" | "r = Inl ErrInvalidTransition" | e where "r = Inl e" "e \<noteq> ErrInvalidTransition" by (cases r) auto
  then show ?thesis
  proof cases
    case 1
    then show ?thesis using assms(5) r q(1) by (auto simp: cleanupRequeue_def)
  next
    case 2
    then show ?thesis using assms(5) r q(1) by (auto simp: cleanupRequeue_def)
  next
    case 3
    then show ?thesis using assms(5) r q(2) by (auto simp: cleanupRequeue_def)
  qed
qed

lemma resolve_step:
  assumes "slot_acct m R H D E s w"
    "run_state (if sl_creationUncertain s then resolveUncertainCreation m s else return (s, True)) w = ((s1, b), w1)"
  shows "slot_acct m R H D E s1 w1 \<and> same_phase s s1 \<and> (b \<longrightarrow> \<not> sl_creationUncertain s1)"
  using assms resolve_ok [OF assms(1)] by (cases "sl_creationUncertain s") auto

lemma same_phase_ticket: "same_phase s s1 \<Longrightarrow> same_ticket s1 s' \<Longrightarrow> same_ticket s s'"
  by (auto simp: same_phase_def same_ticket_def)

lemma retryCleanup_ok:
  assumes "slot_acct m R H D E s w" "sl_state s = SlotCleanupFailed" "run_state (retryCleanup m s) w = (s', w')"
  shows "slot_acct m R H D E s' w' \<and> same_ticket s s'"
proof -
  obtain s1 b w1 where u: "run_state (if sl_creationUncertain s then resolveUncertainCreation m s else return (s, True)) w = ((s1, b), w1)"
    by (metis surj_pair)
  note s1 = resolve_step [OF assms(1) u]
  have st: "sl_state s1 = SlotCleanupFailed" using s1 assms(2) by (simp add: same_phase_def)
  have ok: "slot_ok m s1" using s1 by (simp add: slot_acct_def)
  then have nd: "\<not> sl_done s1" using st by (auto simp: slot_ok_def)
  have "slot_acct m R H D E s' w' \<and> same_ticket s1 s'"
  proof (cases "b \<and> sl_paneCreated s1")
    case False
    show ?thesis
    proof (cases b)
      case True
      then have "owned s1 = {}" using s1 False by (simp add: owned_def)
      then have "acct m R (H \<union> ticketOf s1) (D \<union> doneOf s1) (E \<union> awaited s1) w1" using s1 slot_acctD by fastforce
      moreover have "run_state (cleanupRequeue s1) w1 = (s', w')" using assms(3) u True False by (simp add: retryCleanup_def)
      ultimately show ?thesis using cleanupRequeue_ok [OF ok _ nd] st by simp
    qed (use assms(3) u s1 in \<open>auto simp: retryCleanup_def\<close>)
  next
    case True
    obtain r w2 where r: "run_state (closeOrAbsent m (sl_paneID s1)) w1 = (r, w2)" by fastforce
    have pid: "sl_paneID s1 = workerPaneID m (slotTicket s1)" using ok st by (simp add: slot_ok_def)
    show ?thesis
    proof (cases r)
      case (Some e)
      then have "w' = w2" "s' = s1\<lparr>sl_lastError := Some e\<rparr>" using assms(3) u r True by (auto simp: retryCleanup_def)
      moreover have "slot_acct m R H D E s1 w2" using s1 closeOrAbsent_acct(2) [OF slot_acctD r [unfolded pid]] slot_acctI by blast
      ultimately show ?thesis by simp
    next
      case None
      let ?s = "s1\<lparr>sl_paneCreated := False\<rparr>"
      have a: "acct m R (H \<union> ticketOf ?s) (D \<union> doneOf ?s) (E \<union> awaited ?s) w2"
        using closed_acct [of m R H D E s1 w1 w2] s1 st nd r None by (simp add: slot_sets)
      have "run_state (cleanupRequeue ?s) w2 = (s', w')" using assms(3) u r True None by (simp add: retryCleanup_def)
      moreover have "slot_ok m ?s" using ok st by (simp add: slot_ok_def)
      ultimately have "slot_acct m R H D E s' w' \<and> same_ticket ?s s'" using cleanupRequeue_ok [OF _ _ _ a] st nd by simp
      then show ?thesis by (simp add: same_ticket_def)
    qed
  qed
  then show ?thesis using s1 same_phase_ticket by blast
qed

lemma retrySlot_ok:
  assumes "slot_acct m R H D E s w" "run_state (retrySlot m s) w = (s', w')"
  shows "slot_acct m R H D E s' w' \<and> same_ticket s s'"
proof (cases "sl_state s")
  case SlotCompleting
  then show ?thesis using retryComplete_ok [OF assms(1)] assms(2) by (simp add: retrySlot_def)
next
  case SlotClosing
  then have "sl_done s" using assms(1) by (simp add: slot_acct_def slot_ok_def)
  then show ?thesis using retryClose_ok [OF assms(1)] assms(2) SlotClosing by (simp add: retrySlot_def)
next
  case SlotCleanupFailed
  then show ?thesis using retryCleanup_ok [OF assms(1)] assms(2) by (simp add: retrySlot_def)
qed (use assms in \<open>auto simp: retrySlot_def\<close>)

subsection \<open>Reports\<close>

lemma workerExists_acct: "acct m R H D E w \<Longrightarrow> run_state (workerExists m s) w = (b, w') \<Longrightarrow> acct m R H D E w'"
  unfolding workerExists_def by (auto split: prod.splits sum.splits dest: inspect_acct(1))

lemma reported_mono:
  assumes "reported m w i" "set (wo_seen w) \<subseteq> set (wo_seen w')"
  shows "reported m w' i"
  using assms unfolding reported_def by blast

lemma completionSummary_acct:
  assumes "acct m R H D E w" "run_state (completionSummary m summary s) w = (r, w')"
  shows "acct m R H D E w'"
proof (cases "summary = []")
  case False
  obtain b w1 where b: "run_state (workerExists m s) w = (b, w1)" by fastforce
  then show ?thesis using assms False workerExists_acct [OF assms(1) b] by (auto simp: completionSummary_def)
next
  case True
  obtain q w1 where q: "run_state (clientSnapshot (sl_paneID s)) w = (q, w1)" by fastforce
  have w1: "acct m R H D E w1" using snapshot_acct(1) [OF assms(1) q] .
  obtain b w2 where b: "run_state (workerExists m s) (w1\<lparr>wo_log := wo_log w1 @ [(''completion snapshot'', slotTicket s)]\<rparr>) = (b, w2)" by fastforce
  have "acct m R H D E w2" using workerExists_acct [OF acct_log [OF w1] b] .
  then show ?thesis using assms(2) True q w1 b by (auto simp: completionSummary_def split: sum.splits)
qed

text \<open>Having seen the report of a worker is part of the account.\<close>

lemma acct_reported: "acct m R H D E w \<Longrightarrow> reported m w i \<Longrightarrow> acct m R H D (insert i E) w"
  by (auto simp: acct_def)

lemma workerOutput_ok:
  assumes "slot_acct m R H D E s w" "sl_state s = SlotWorking" "(sl_paneID s, message) \<in> set (wo_seen w)"
    "run_state (workerOutput m message s) w = (s', w')"
  shows "slot_acct m R H D E s' w' \<and> same_ticket s s'"
proof (cases "fst (parseCompletionOutput message (sl_marker s))")
  case False
  then show ?thesis using assms(1,4) by (auto simp: workerOutput_def split: prod.splits)
next
  case True
  have ok: "slot_ok m s" using assms(1) by (simp add: slot_acct_def)
  then have "reported m w (slotTicket s)" using assms(2,3) True unfolding reported_def slot_ok_def by fastforce
  then have e: "acct m (R \<union> owned s) (H \<union> ticketOf s) (D \<union> doneOf s) (insert (slotTicket s) (E \<union> awaited s)) w"
    using acct_reported [OF slot_acctD [OF assms(1)]] by simp
  obtain r w1 where r: "run_state (completionSummary m (snd (parseCompletionOutput message (sl_marker s))) s) w = (r, w1)" by fastforce
  have w1: "acct m (R \<union> owned s) (H \<union> ticketOf s) (D \<union> doneOf s) (insert (slotTicket s) (E \<union> awaited s)) w1"
    using completionSummary_acct [OF e r] .
  then have rep: "reported m w1 (slotTicket s)" by (simp add: acct_def)
  have s1: "slot_acct m R H D E s w1" unfolding slot_acct_def by (rule conjI [OF ok acct_mono [OF w1]]) auto
  show ?thesis
  proof (cases r)
    case None
    then show ?thesis using assms(4) True r s1 by (auto simp: workerOutput_def split: prod.splits)
  next
    case (Some t)
    have "slot_acct m R H D E (s\<lparr>sl_summary := t\<rparr>) w1" using s1 by simp
    moreover have "run_state (completeSlot m (s\<lparr>sl_summary := t\<rparr>)) w1 = (s', w')"
      using assms(4) True r Some by (auto simp: workerOutput_def split: prod.splits)
    ultimately show ?thesis using completeSlot_ok [of m R H D E "s\<lparr>sl_summary := t\<rparr>"] assms(2) rep by simp
  qed
qed

lemma recoverSlot_ok:
  assumes "slot_acct m R H D E s w" "run_state (recoverSlot m s) w = (s', w')"
  shows "slot_acct m R H D E s' w' \<and> same_ticket s s'"
proof (cases "sl_state s = SlotWorking")
  case False
  then show ?thesis using assms by (simp add: recoverSlot_def)
next
  case st: True
  have ok: "slot_ok m s" using assms(1) by (simp add: slot_acct_def)
  obtain r w1 where r: "run_state (clientSnapshot (sl_paneID s)) w = (r, w1)" by fastforce
  note sn = snapshot_acct [OF slot_acctD [OF assms(1)] r]
  have s1: "slot_acct m R H D E s w1" using slot_acctI [OF assms(1) sn(1)] .
  show ?thesis
  proof (cases r)
    case (Inl e)
    let ?w = "w1\<lparr>wo_log := wo_log w1 @ [(''snapshot recovery'', slotTicket s)]\<rparr>"
    let ?s = "s\<lparr>sl_lastError := Some (ClientFailed e), sl_state := SlotCleanupFailed\<rparr>"
    have lg: "slot_acct m R H D E s ?w" using slot_acct_log [OF s1] .
    show ?thesis
    proof (cases "IsNotFound e")
      case False
      then show ?thesis using assms(2) st r Inl lg by (auto simp: recoverSlot_def)
    next
      case True
      have "slot_ok m ?s" using ok st by (auto simp: slot_ok_def)
      moreover have "acct m (R \<union> owned ?s) (H \<union> ticketOf ?s) (D \<union> doneOf ?s) (E \<union> awaited ?s) ?w"
        by (rule acct_mono [OF slot_acctD [OF lg]]) (use st in \<open>auto simp: slot_sets\<close>)
      ultimately have "slot_acct m R H D E ?s ?w" by (simp add: slot_acct_def)
      moreover have "run_state (retryCleanup m ?s) ?w = (s', w')" using assms(2) st r Inl True by (simp add: recoverSlot_def)
      ultimately have "slot_acct m R H D E s' w' \<and> same_ticket ?s s'" using retryCleanup_ok [of m R H D E ?s] by simp
      then show ?thesis using st by (simp add: same_ticket_def)
    qed
  next
    case (Inr x)
    obtain p out where x: "x = (p, out)" by (cases x)
    show ?thesis
    proof (cases "matchesWorkerPane m s True p \<and> fst (parseCompletionOutput out (sl_marker s))")
      case False
      then show ?thesis using assms(2) st r Inr x s1 by (auto simp: recoverSlot_def split: prod.splits)
    next
      case True
      let ?s = "s\<lparr>sl_summary := snd (parseCompletionOutput out (sl_marker s))\<rparr>"
      have "(sl_paneID s, out) \<in> set (wo_seen w1)" using sn(2) Inr x by simp
      then have "reported m w1 (slotTicket s)" using ok st True unfolding reported_def slot_ok_def by fastforce
      moreover have "run_state (completeSlot m ?s) w1 = (s', w')" using assms(2) st r Inr x True by (auto simp: recoverSlot_def split: prod.splits)
      ultimately show ?thesis using completeSlot_ok [of m R H D E ?s w1] s1 st by simp
    qed
  qed
qed

subsection \<open>Starting and shutting down\<close>

lemma requeueWithoutPane_ok:
  assumes "slot_ok m s" "sl_state s = SlotStarting" "\<not> sl_paneCreated s" "\<not> sl_creationUncertain s"
    "acct m R (insert (slotTicket s) H) D E w" "run_state (requeueWithoutPane s) w = (s', w')"
  shows "slot_acct m R H D E s' w' \<and> same_ticket s s'"
proof -
  let ?s = "\<lambda>e. s\<lparr>sl_state := SlotCleanupFailed, sl_lastError := Some (StoreFailed e)\<rparr>"
  obtain r w1 where r: "run_state (storeRequeue (slotTicket s)) w = (r, w1)" by fastforce
  note q = requeue_acct [OF assms(5) r]
  have nd: "\<not> sl_done s" using assms(1,2) by (simp add: slot_ok_def)
  show ?thesis
  proof (cases r)
    case (Inl e)
    have "slot_ok m (?s e)" using assms(1-4) nd by (auto simp: slot_ok_def)
    moreover have "owned (?s e) = {}" "ticketOf (?s e) = {slotTicket s}" "doneOf (?s e) = {}" "awaited (?s e) = {}"
      using assms(3,4) nd by (simp_all add: slot_sets)
    ultimately have "slot_acct m R H D E (?s e) w1" using q(1) by (simp add: slot_acct_def)
    moreover have "s' = ?s e" "w' = w1" using assms(6) r Inl by (simp_all add: requeueWithoutPane_def)
    ultimately show ?thesis using assms(2) by (simp add: same_ticket_def)
  next
    case (Inr t)
    then show ?thesis using assms(6) r q(2) by (auto simp: requeueWithoutPane_def)
  qed
qed

lemma giveUp_ok:
  assumes "slot_ok m s" "sl_state s = SlotStarting" "\<not> sl_paneCreated s" "\<not> sl_creationUncertain s"
    "acct m R (insert (slotTicket s) H) D E w" "run_state (giveUp ev s) w = ((s', b), w')"
  shows "slot_acct m R H D E s' w' \<and> same_ticket s s'"
proof -
  have "run_state (requeueWithoutPane s) (w\<lparr>wo_log := wo_log w @ [(ev, slotTicket s)]\<rparr>) = (s', w')"
    using assms(6) unfolding giveUp_def by (auto split: prod.splits)
  then show ?thesis using requeueWithoutPane_ok [OF assms(1-4) acct_log [OF assms(5)]] by blast
qed

lemma createWorker_ok:
  assumes "slot_ok m s" "sl_state s = SlotStarting" "\<not> sl_paneCreated s" "\<not> sl_creationUncertain s" "slotTicket s = tk_ID t"
    "CompletionMarker (tk_ID t) = Some (sl_marker s)"
    "acct m R (insert (slotTicket s) H) D E w" "run_state (createWorker m t dir s) w = ((s', b), w')"
  shows "slot_acct m R H D E s' w' \<and> same_ticket s s'"
proof -
  let ?req = "workerRequest m t (sl_prompt s) dir"
  let ?s = "s\<lparr>sl_createRequest := ?req\<rparr>"
  have pid: "sl_paneID s = workerPaneID m (tk_ID t)" and nd: "\<not> sl_done s" using assms(1,2,5) by (auto simp: slot_ok_def)
  have req: "request_ok m ?req" "pq_ID ?req = sl_paneID s" using pid by (simp_all add: request_ok_def workerRequest_def)
  obtain r w1 where r: "run_state (clientCreatePane ?req) w = (r, w1)" by fastforce
  note c = create_acct [OF assms(7) req(1) r]
  have opened: "slot_acct m R H D E s2 (w1\<lparr>wo_log := wo_log w1 @ l\<rparr>)"
    if "slot_ok m s2" "owned s2 = {sl_paneID s}" "ticketOf s2 = {slotTicket s}" "doneOf s2 = {}" "awaited s2 = {}" for s2 l
    using that acct_log [OF c(2)] req(2) by (simp add: slot_acct_def)
  show ?thesis
  proof (cases r)
    case None
    let ?s2 = "?s\<lparr>sl_paneCreated := True, sl_state := SlotWorking\<rparr>"
    have "slot_ok m ?s2" using assms(1-6) nd req pid by (auto simp: slot_ok_def)
    moreover have "owned ?s2 = {sl_paneID s}" "ticketOf ?s2 = {slotTicket s}" "doneOf ?s2 = {}" "awaited ?s2 = {}" using nd by (simp_all add: slot_sets)
    ultimately show ?thesis using assms(2,8) r None opened [of ?s2] by (auto simp: createWorker_def Let_def same_ticket_def)
  next
    case (Some e)
    show ?thesis
    proof (cases "safeCreateFailure e")
      case True
      have "run_state (giveUp ''create'' ?s) w1 = ((s', b), w')" using assms(8) r Some True by (simp add: createWorker_def Let_def)
      moreover have "slot_ok m ?s" using assms(1-4) by (auto simp: slot_ok_def)
      ultimately have "slot_acct m R H D E s' w' \<and> same_ticket ?s s'"
        using giveUp_ok [of m ?s R H D E w1] c(1) [OF Some True] assms(2-4) by simp
      then show ?thesis by (simp add: same_ticket_def)
    next
      case False
      let ?s2 = "?s\<lparr>sl_state := SlotCleanupFailed, sl_creationUncertain := True, sl_lastError := Some (ClientFailed e)\<rparr>"
      have "slot_ok m ?s2" using assms(1-6) nd req pid by (auto simp: slot_ok_def)
      moreover have "owned ?s2 = {sl_paneID s}" "ticketOf ?s2 = {slotTicket s}" "doneOf ?s2 = {}" "awaited ?s2 = {}" using nd by (simp_all add: slot_sets)
      ultimately show ?thesis using assms(2,8) r Some False opened [of ?s2] by (auto simp: createWorker_def Let_def same_ticket_def)
    qed
  qed
qed

lemma Render_marker: "RenderTicketPrompt t = Inr (p, marker) \<Longrightarrow> CompletionMarker (tk_ID t) = Some marker"
  by (auto simp: RenderTicketPrompt_def Let_def split: option.splits if_splits)

text \<open>A claimed ticket that no other slot has.\<close>

definition claimed :: "Manager \<Rightarrow> Ticket \<Rightarrow> managerSlot \<Rightarrow> managerSlot" where
  "claimed m t s = s\<lparr>sl_state := SlotStarting, sl_ticket := Some t, sl_paneID := workerPaneID m (tk_ID t)\<rparr>"

lemma slotTicket_claimed [simp]: "slotTicket (claimed m t s) = tk_ID t"
  by (simp add: claimed_def)

lemma startSlot_cases:
  assumes "run_state (startSlot m others s) w = ((s', b), w')"
  obtains (none) e where "run_state storeNext w = (Inl e, w')" "s' = s"
  | (twice) t w1 where "run_state storeNext w = (Inr t, w1)" "ticketAssignedElsewhere others (tk_ID t)" "s' = emptySlot"
      "w' = w1\<lparr>wo_log := wo_log w1 @ [(''duplicate claim'', tk_ID t)]\<rparr>"
  | (quit) t w1 ev p mk w2 where "run_state storeNext w = (Inr t, w1)" "\<not> ticketAssignedElsewhere others (tk_ID t)"
      "w2 = w1 \<or> (\<exists>d. run_state prepareWorktree w1 = (d, w2))"
      "run_state (giveUp ev ((claimed m t s)\<lparr>sl_prompt := p, sl_marker := mk\<rparr>)) w2 = ((s', b), w')"
  | (go) t w1 p mk dir w2 where "run_state storeNext w = (Inr t, w1)" "\<not> ticketAssignedElsewhere others (tk_ID t)"
      "w2 = w1 \<or> (\<exists>d. run_state prepareWorktree w1 = (d, w2))" "CompletionMarker (tk_ID t) = Some mk"
      "run_state (createWorker m t dir ((claimed m t s)\<lparr>sl_prompt := p, sl_marker := mk\<rparr>)) w2 = ((s', b), w')"
proof -
  obtain r w1 where r: "run_state storeNext w = (r, w1)" by fastforce
  show thesis
  proof (cases r)
    case (Inl e)
    then show thesis using none assms r by (auto simp: startSlot_def)
  next
    case (Inr t)
    show thesis
    proof (cases "ticketAssignedElsewhere others (tk_ID t)")
      case True
      then show thesis using twice assms r Inr by (auto simp: startSlot_def)
    next
      case fresh: False
      show thesis
      proof (cases "RenderTicketPrompt t")
        case (Inl e)
        then show thesis using quit [OF r [unfolded Inr] fresh, of w1] assms r Inr fresh by (simp add: startSlot_def Let_def claimed_def)
      next
        case rendered: (Inr x)
        obtain p mk where x: "x = (p, mk)" by (cases x)
        have mk: "CompletionMarker (tk_ID t) = Some mk" using Render_marker rendered x by simp
        obtain d w2 where d: "run_state prepareWorktree w1 = (d, w2)" by fastforce
        show thesis
        proof (cases "tk_Worktree t")
          case False
          then show thesis using go [OF r [unfolded Inr] fresh _ mk, of w1] assms r Inr fresh rendered x by (simp add: startSlot_def Let_def claimed_def)
        next
          case True
          note run = assms [unfolded startSlot_def]
          show thesis
          proof (cases "\<exists>y. d = Inr y \<and> TrimSpace y \<noteq> []")
            case dir: True
            then show thesis using go [OF r [unfolded Inr] fresh _ mk, of w2] run r Inr fresh rendered x True d by (auto simp: Let_def claimed_def)
          next
            case False
            then show thesis using quit [OF r [unfolded Inr] fresh, of w2] run r Inr fresh rendered x True d
              by (auto simp: Let_def claimed_def split: sum.splits)
          qed
        qed
      qed
    qed
  qed
qed

lemma startSlot_ok:
  assumes "slot_acct m R H D E s w" "sl_state s = SlotEmpty" "\<And>i. i \<in> D \<Longrightarrow> ticketAssignedElsewhere others i"
    "run_state (startSlot m others s) w = ((s', b), w')"
  shows "slot_acct m R H D E s' w' \<and> (sl_state s' = SlotEmpty \<or> \<not> ticketAssignedElsewhere others (slotTicket s'))"
proof -
  have ok: "slot_ok m s" and a: "acct m R H D E w" using assms(1,2) by (auto simp: slot_acct_def slot_sets slot_ok_def)
  have fresh: "acct m R (insert (tk_ID t) H) D E w2" if "run_state storeNext w = (Inr t, w1)" "\<not> ticketAssignedElsewhere others (tk_ID t)"
    "w2 = w1 \<or> (\<exists>d. run_state prepareWorktree w1 = (d, w2))" for t w1 w2
  proof -
    have "acct m R (insert (tk_ID t) H) D E w1" using next_acct(2) [OF a that(1) refl] assms(3) that(2) by (metis Diff_insert_absorb Diff_insert0 Diff_empty)
    then show ?thesis using that(3) prepare_acct by auto
  qed
  have cl: "slot_ok m ((claimed m t s)\<lparr>sl_prompt := p, sl_marker := mk\<rparr>)" for t p mk
    using ok assms(2) by (simp add: slot_ok_def claimed_def)
  have st: "sl_state ((claimed m t s)\<lparr>sl_prompt := p, sl_marker := mk\<rparr>) = SlotStarting" "slotTicket ((claimed m t s)\<lparr>sl_prompt := p, sl_marker := mk\<rparr>) = tk_ID t"
    "\<not> sl_paneCreated ((claimed m t s)\<lparr>sl_prompt := p, sl_marker := mk\<rparr>)" "\<not> sl_creationUncertain ((claimed m t s)\<lparr>sl_prompt := p, sl_marker := mk\<rparr>)"
    for t p mk using ok assms(2) by (simp_all add: slot_ok_def claimed_def slotTicket_def)
  show ?thesis using assms(4)
  proof (cases rule: startSlot_cases)
    case (none e)
    then show ?thesis using next_acct(1) [OF a none(1) refl] assms(2) ok by (simp add: slot_acct_def slot_sets slot_ok_def)
  next
    case (twice t w1)
    have "acct m R H D E w'" using log_duplicate [OF next_acct(2) [OF a twice(1) refl]] twice(4) by simp
    then show ?thesis using twice(3) by (simp add: emptySlot_def [symmetric]) (simp add: emptySlot_def)
  next
    case (quit t w1 ev p mk w2)
    let ?s = "(claimed m t s)\<lparr>sl_prompt := p, sl_marker := mk\<rparr>"
    have "slot_acct m R H D E s' w' \<and> same_ticket ?s s'"
      using giveUp_ok [OF cl st(1,3,4) _ quit(4)] fresh [OF quit(1-3)] by (simp add: st(2))
    then show ?thesis using quit(2) by (auto simp: same_ticket_def st)
  next
    case (go t w1 p mk dir w2)
    let ?s = "(claimed m t s)\<lparr>sl_prompt := p, sl_marker := mk\<rparr>"
    have "slot_acct m R H D E s' w' \<and> same_ticket ?s s'"
      using createWorker_ok [OF cl st(1,3,4) st(2) _ _ go(5)] fresh [OF go(1-3)] go(4) by (simp add: st(2))
    then show ?thesis using go(2) by (auto simp: same_ticket_def st)
  qed
qed

lemma shutdownRelease_ok:
  assumes "slot_ok m s" "sl_state s \<noteq> SlotEmpty" "acct m R (H \<union> ticketOf s) (D \<union> doneOf s) (E \<union> awaited s) w"
    "run_state (shutdownRelease m s) w = ((s', b), w')"
  shows "slot_acct m R H D E s' w' \<and> same_ticket s s' \<and> (b \<longrightarrow> s' = emptySlot)"
proof (cases "sl_done s")
  case True
  have "acct m R (insert (slotTicket s) H) (insert (slotTicket s) D) E w"
    by (rule acct_mono [OF assms(3)]) (use True assms(2) in \<open>auto simp: slot_sets\<close>)
  then have a: "acct m R H D E w" by (rule acct_done)
  have "run_state (finalizeCompletedSlot m s) w = (s', w')" using assms(4) True by (auto simp: shutdownRelease_def split: prod.splits)
  from finalize_acct [OF a this] show ?thesis by simp
next
  case False
  obtain r w1 where r: "run_state (storeRequeue (slotTicket s)) w = (r, w1)" by fastforce
  note q = requeue_slot [OF assms(1,2) False assms(3) r]
  show ?thesis
  proof (cases r)
    case (Inl e)
    then show ?thesis using assms(4) False r q(2) by (auto simp: shutdownRelease_def)
  next
    case (Inr t)
    then show ?thesis using assms(4) False r q(1) by (auto simp: shutdownRelease_def)
  qed
qed

lemma shutdownSlot_ok:
  assumes "slot_acct m R H D E s w" "run_state (shutdownSlot m s) w = ((s', b), w')"
  shows "slot_acct m R H D E s' w' \<and> same_ticket s s' \<and> (b \<longrightarrow> sl_state s' = SlotEmpty)"
proof (cases "sl_state s = SlotEmpty")
  case True
  then show ?thesis using assms by (simp add: shutdownSlot_def)
next
  case ne: False
  obtain s1 r1 w1 where u: "run_state (if sl_creationUncertain s then resolveUncertainCreation m s else return (s, True)) w = ((s1, r1), w1)"
    by (metis surj_pair)
  note s1 = resolve_step [OF assms(1) u]
  have st: "sl_state s1 \<noteq> SlotEmpty" and ok: "slot_ok m s1" using s1 ne by (auto simp: same_phase_def slot_acct_def)
  have pid: "sl_paneID s1 = workerPaneID m (slotTicket s1)" using ok st by (simp add: slot_ok_def)
  have em: "sl_state emptySlot = SlotEmpty" by (simp add: emptySlot_def)
  obtain r w2 where r: "run_state (closeOrAbsent m (sl_paneID s1)) w1 = (r, w2)" by fastforce
  consider "\<not> r1" | "r1" "\<not> sl_paneCreated s1" | e where "r1" "sl_paneCreated s1" "r = Some e" | "r1" "sl_paneCreated s1" "r = None" by (cases r) auto
  then have "slot_acct m R H D E s' w' \<and> same_ticket s1 s' \<and> (b \<longrightarrow> sl_state s' = SlotEmpty)"
  proof cases
    case 1
    then show ?thesis using assms(2) ne u s1 by (auto simp: shutdownSlot_def)
  next
    case 2
    then have "acct m R (H \<union> ticketOf s1) (D \<union> doneOf s1) (E \<union> awaited s1) w1" using s1 slot_acctD [of m R H D E s1 w1] by (simp add: owned_def)
    moreover have "run_state (shutdownRelease m s1) w1 = ((s', b), w')" using assms(2) ne u 2 by (simp add: shutdownSlot_def)
    ultimately show ?thesis using shutdownRelease_ok [OF ok st] em by metis
  next
    case 3
    then have "w' = w2" "s' = s1" "\<not> b" using assms(2) ne u r by (auto simp: shutdownSlot_def)
    moreover have "slot_acct m R H D E s1 w2" using s1 closeOrAbsent_acct(2) [OF slot_acctD r [unfolded pid]] slot_acctI by blast
    ultimately show ?thesis by simp
  next
    case 4
    then have "acct m R (H \<union> ticketOf s1) (D \<union> doneOf s1) (E \<union> awaited s1) w2" using closed_acct [of m R H D E s1 w1 w2] s1 st r by simp
    moreover have "run_state (shutdownRelease m s1) w2 = ((s', b), w')" using assms(2) ne u r 4 by (simp add: shutdownSlot_def)
    ultimately show ?thesis using shutdownRelease_ok [OF ok st] em by metis
  qed
  then show ?thesis using s1 same_phase_ticket by blast
qed

section \<open>All slots\<close>

definition tickets :: "managerSlot list \<Rightarrow> int list" where
  "tickets slots = map slotTicket (filter (\<lambda>s. sl_state s \<noteq> SlotEmpty) slots)"

definition pool :: "Manager \<Rightarrow> managerSlot list \<Rightarrow> World \<Rightarrow> bool" where
  "pool m slots w \<longleftrightarrow> (\<forall>s \<in> set slots. slot_ok m s) \<and> distinct (tickets slots) \<and>
     acct m (\<Union> (owned ` set slots)) (\<Union> (ticketOf ` set slots)) (\<Union> (doneOf ` set slots)) (\<Union> (awaited ` set slots)) w"

abbreviation beside :: "Manager \<Rightarrow> managerSlot list \<Rightarrow> managerSlot \<Rightarrow> World \<Rightarrow> bool" where
  "beside m others \<equiv> slot_acct m (\<Union> (owned ` set others)) (\<Union> (ticketOf ` set others)) (\<Union> (doneOf ` set others)) (\<Union> (awaited ` set others))"

lemma pool_focus:
  "pool m (a @ s # b) w \<longleftrightarrow> beside m (a @ b) s w \<and> (\<forall>s' \<in> set (a @ b). slot_ok m s') \<and> distinct (tickets (a @ s # b))"
  by (auto simp: pool_def slot_acct_def Un_ac)

lemma set_tickets: "set (tickets slots) = \<Union> (ticketOf ` set slots)"
  by (auto simp: tickets_def ticketOf_def split: if_splits)

lemma tickets_append: "tickets (a @ b) = tickets a @ tickets b"
  by (simp add: tickets_def)

lemma tickets_Cons: "tickets (s # b) = (if sl_state s = SlotEmpty then tickets b else slotTicket s # tickets b)"
  by (simp add: tickets_def)

lemma assigned_iff: "ticketAssignedElsewhere others i \<longleftrightarrow> i \<in> set (tickets others)"
  by (auto simp: ticketAssignedElsewhere_def tickets_def list_ex_iff)

lemma pool_update:
  assumes "pool m (a @ s # b) w" "beside m (a @ b) s' w'"
    "same_ticket s s' \<or> sl_state s' = SlotEmpty \<or> slotTicket s' \<notin> set (tickets (a @ b))"
  shows "pool m (a @ s' # b) w'"
proof -
  have "distinct (tickets (a @ s # b))" using assms(1) by (simp add: pool_def)
  then have "distinct (tickets (a @ s' # b))" using assms(3) by (auto simp: tickets_append tickets_Cons same_ticket_def split: if_splits)
  then show ?thesis using assms(1,2) unfolding pool_focus by blast
qed

lemma eachSlot_pool:
  assumes f: "\<And>R H D E s w s' w'. slot_acct m R H D E s w \<Longrightarrow> run_state (f s) w = (s', w') \<Longrightarrow> slot_acct m R H D E s' w' \<and> same_ticket s s'"
  shows "pool m (a @ ss) w \<Longrightarrow> run_state (eachSlot f ss) w = (ss', w') \<Longrightarrow> pool m (a @ ss') w' \<and> length ss' = length ss"
proof (induction ss arbitrary: a w ss')
  case (Cons s ss)
  obtain s1 w1 where s1: "run_state (f s) w = (s1, w1)" by fastforce
  obtain ss1 where ss1: "run_state (eachSlot f ss) w1 = (ss1, w')" "ss' = s1 # ss1" using Cons.prems(2) s1 by (auto split: prod.splits)
  have "beside m (a @ ss) s w" using Cons.prems(1) by (simp add: pool_focus)
  from f [OF this s1] have "pool m ((a @ [s1]) @ ss) w1" using pool_update [OF Cons.prems(1)] by simp
  from Cons.IH [OF this ss1(1)] show ?case using ss1(2) by simp
qed simp

lemma fillFrom_pool:
  "pool m (a @ ss) w \<Longrightarrow> run_state (fillFrom m a ss) w = (ss', w') \<Longrightarrow> pool m ss' w' \<and> length ss' = length (a @ ss)"
proof (induction ss arbitrary: a w)
  case (Cons s ss)
  obtain stop w1 where c: "run_state ctxDone w = (stop, w1)" by fastforce
  have p1: "pool m (a @ s # ss) w1" using Cons.prems(1) ctxDone_acct [OF _ c] by (auto simp: pool_def)
  show ?case
  proof (cases "stop \<or> sl_state s \<noteq> SlotEmpty")
    case True
    then show ?thesis using Cons.prems(2) c p1 Cons.IH [of "a @ [s]" w1] by (auto split: if_splits)
  next
    case False
    obtain s1 b w2 where st: "run_state (startSlot m (a @ ss) s) w1 = ((s1, b), w2)" by (metis surj_pair)
    have bes: "beside m (a @ ss) s w1" and oks: "\<forall>s' \<in> set (a @ ss). slot_ok m s'" using p1 by (simp_all add: pool_focus)
    have "ticketAssignedElsewhere (a @ ss) i" if "i \<in> \<Union> (doneOf ` set (a @ ss))" for i
      using that oks by (fastforce simp: assigned_iff set_tickets doneOf_def ticketOf_def slot_ok_def split: if_splits)
    from startSlot_ok [OF bes _ this st] have "beside m (a @ ss) s1 w2" "sl_state s1 = SlotEmpty \<or> slotTicket s1 \<notin> set (tickets (a @ ss))"
      using False by (auto simp: assigned_iff)
    then have p2: "pool m (a @ s1 # ss) w2" using pool_update [OF p1] by blast
    then show ?thesis using Cons.prems(2) c st False Cons.IH [of "a @ [s1]" w2] by (auto split: if_splits)
  qed
qed simp

lemma dispatch_pool:
  "pool m (a @ ss) w \<Longrightarrow> (pane, message) \<in> set (wo_seen w) \<Longrightarrow> run_state (dispatchOutput m pane message ss) w = (ss', w') \<Longrightarrow>
     pool m (a @ ss') w' \<and> length ss' = length ss"
proof (induction ss arbitrary: a ss')
  case (Cons s ss)
  show ?case
  proof (cases "sl_state s = SlotWorking \<and> sl_paneID s = pane")
    case True
    obtain s1 where s1: "run_state (workerOutput m message s) w = (s1, w')" "ss' = s1 # ss" using Cons.prems(3) True by (auto split: prod.splits)
    have bes: "beside m (a @ ss) s w" using Cons.prems(1) by (simp add: pool_focus)
    have "beside m (a @ ss) s1 w' \<and> same_ticket s s1" using workerOutput_ok [OF bes _ _ s1(1)] True Cons.prems(2) by simp
    then show ?thesis using pool_update [OF Cons.prems(1)] s1(2) by simp
  next
    case False
    then obtain ss1 where "run_state (dispatchOutput m pane message ss) w = (ss1, w')" "ss' = s # ss1" using Cons.prems(3) by (auto split: prod.splits)
    then show ?thesis using Cons.IH [of "a @ [s]" ss1] Cons.prems(1,2) by auto
  qed
qed simp

lemma shutdownSlots_pool:
  "pool m (a @ ss) w \<Longrightarrow> run_state (shutdownSlots m ss) w = ((ss', b), w') \<Longrightarrow>
     pool m (a @ ss') w' \<and> (b \<longrightarrow> (\<forall>s \<in> set ss'. sl_state s = SlotEmpty))"
proof (induction ss arbitrary: a w ss' b)
  case (Cons s ss)
  obtain s1 b1 w1 where s1: "run_state (shutdownSlot m s) w = ((s1, b1), w1)" by (metis surj_pair)
  obtain ss1 b2 where ss1: "run_state (shutdownSlots m ss) w1 = ((ss1, b2), w')" "ss' = s1 # ss1" "b = (b1 \<and> b2)"
    using Cons.prems(2) s1 by (auto split: prod.splits)
  have "beside m (a @ ss) s w" using Cons.prems(1) by (simp add: pool_focus)
  note e = shutdownSlot_ok [OF this s1]
  then have "pool m ((a @ [s1]) @ ss) w1" using pool_update [OF Cons.prems(1)] by simp
  from Cons.IH [OF this ss1(1)] show ?case using ss1(2,3) e by auto
qed simp

section \<open>Runs\<close>

lemma pool_acct: "pool m slots w \<Longrightarrow> (\<And>R H D E. acct m R H D E w \<Longrightarrow> acct m R H D E w') \<Longrightarrow> pool m slots w'"
  by (simp add: pool_def)

lemma managerStep_pool:
  assumes "pool m (fst ss) w" "run_state (managerStep m ev ss) w = (ss', w')"
  shows "pool m (fst ss') w' \<and> length (fst ss') = length (fst ss)"
proof (cases ev)
  case StreamEnded
  then show ?thesis using assms by auto
next
  case (Streamed type task pane message)
  show ?thesis
  proof (cases "\<not> snd ss \<or> type \<noteq> ''raw_output'' \<or> task \<noteq> ma_taskID m")
    case True
    then show ?thesis using assms Streamed by (auto simp: handleEvent_def split: if_splits)
  next
    case False
    let ?w = "w\<lparr>wo_seen := (pane, message) # wo_seen w\<rparr>"
    obtain slots where r: "run_state (dispatchOutput m pane message (fst ss)) ?w = (slots, w')" "ss' = (slots, True)"
      using assms(2) Streamed False by (auto simp: handleEvent_def split: prod.splits)
    have "pool m ([] @ fst ss) ?w" using pool_acct [OF assms(1) seen_acct] by simp
    from dispatch_pool [OF this _ r(1)] show ?thesis using r(2) by simp
  qed
next
  case Ticked
  obtain slots w1 where r: "run_state (retrySlots m (fst ss)) w = (slots, w1)" by fastforce
  have p1: "pool m slots w1" "length slots = length (fst ss)"
    using eachSlot_pool [OF retrySlot_ok, where a = "[]"] assms(1) r by (auto simp: retrySlots_def)
  obtain c w2 where c: "run_state (if snd ss then return True else connectStream) w1 = (c, w2)" by fastforce
  have p2: "pool m slots w2" using pool_acct [OF p1(1)] connect_acct c by (cases "snd ss") auto
  obtain slots1 w3 where r3: "run_state (recoverSnapshots m slots) w2 = (slots1, w3)" by fastforce
  have p3: "pool m slots1 w3" "length slots1 = length slots"
    using eachSlot_pool [OF recoverSlot_ok, where a = "[]"] p2 r3 by (auto simp: recoverSnapshots_def)
  obtain slots2 w4 where r4: "run_state (fillEmptySlots m True slots1) w3 = (slots2, w4)" by fastforce
  have p4: "pool m slots2 w4" "length slots2 = length slots1" using fillFrom_pool [of m "[]"] p3 r4 by (auto simp: fillEmptySlots_def)
  have "ss' = (slots, False) \<and> w' = w2 \<or> ss' = (slots2, True) \<and> w' = w4"
    using assms(2) Ticked r c r3 r4 by (auto simp: managerTick_def split: if_splits)
  then show ?thesis using p1 p2 p3 p4 by auto
qed

lemma managerLoop_pool:
  "pool m (fst ss) w \<Longrightarrow> run_state (managerLoop m evs ss) w = (ss', w') \<Longrightarrow> pool m (fst ss') w' \<and> length (fst ss') = length (fst ss)"
proof (induction evs arbitrary: ss w)
  case (Cons ev evs)
  obtain ss1 w1 where s1: "run_state (managerStep m ev ss) w = (ss1, w1)" by fastforce
  note p1 = managerStep_pool [OF Cons.prems(1) s1]
  have "run_state (managerLoop m evs ss1) w1 = (ss', w')" using Cons.prems(2) s1 by simp
  then show ?case using Cons.IH [of ss1 w1] p1 by simp
qed simp

lemma anchor_acct: "acct m R H D E w \<Longrightarrow> run_state (waitForAnchor m' polls) w = (b, w') \<Longrightarrow> acct m R H D E w'"
proof (induction polls arbitrary: w)
  case 0
  then show ?case by (auto simp: waitForAnchor.simps [of m' 0] split: prod.splits if_splits dest: inspect_acct(1))
next
  case (Suc n)
  obtain r w1 where r: "run_state clientInspect w = (r, w1)" by fastforce
  have "acct m R H D E w1" using inspect_acct(1) [OF Suc.prems(1) r] .
  moreover have "w' = w1 \<or> run_state (waitForAnchor m' n) w1 = (b, w')"
    using Suc.prems(2) r by (subst (asm) waitForAnchor.simps) (auto split: if_splits)
  ultimately show ?case using Suc.IH by blast
qed

text \<open>A world in which the manager has done nothing yet.\<close>

definition freshWorld :: "Manager \<Rightarrow> World \<Rightarrow> bool" where
  "freshWorld m w \<longleftrightarrow> distinct (map wp_ID (wo_panes w)) \<and> (\<forall>p \<in> set (wo_panes w). \<forall>i. wp_ID p \<noteq> workerPaneID m i) \<and>
     wo_held w = [] \<and> wo_completed w = []"

lemma fresh_pool: "freshWorld m w \<Longrightarrow> pool m (replicate n emptySlot) w"
  by (auto simp: pool_def freshWorld_def acct_def panes_ok_def pane_ok_def live_def slot_ok_def emptySlot_def slot_sets tickets_def)

lemma managerRun_pool:
  assumes "freshWorld m w" "run_state (managerRun m polls evs (replicate n emptySlot)) w = (r, w')"
  shows "r = Inr (slots, stream) \<Longrightarrow> pool m slots w' \<and> length slots = n" "r = Inl e \<Longrightarrow> pool m (replicate n emptySlot) w'"
proof -
  obtain b w1 where b: "run_state (waitForAnchor m polls) w = (b, w1)" by fastforce
  have p1: "pool m (replicate n emptySlot) w1" using pool_acct [OF fresh_pool [OF assms(1)]] anchor_acct b by blast
  obtain c w2 where c: "run_state connectStream w1 = (c, w2)" by fastforce
  have p2: "pool m ([] @ replicate n emptySlot) w2" using pool_acct [OF p1] connect_acct c by simp
  obtain slots1 w3 where f: "run_state (fillFrom m [] (replicate n emptySlot)) w2 = (slots1, w3)" by fastforce
  note p3 = fillFrom_pool [OF p2 f]
  show "pool m slots w' \<and> length slots = n" if "r = Inr (slots, stream)"
    using assms(2) that b c f p3 managerLoop_pool [of m "(slots1, True)" w3 evs "(slots, stream)" w']
    by (auto simp: managerRun_def fillEmptySlots_def split: if_splits prod.splits)
  show "pool m (replicate n emptySlot) w'" if "r = Inl e"
    using assms(2) that b c f p1 p2 by (auto simp: managerRun_def fillEmptySlots_def split: if_splits prod.splits)
qed

lemma card_owned:
  assumes "finite S" shows "card (\<Union> (owned ` S)) \<le> card S"
proof -
  have "card (\<Union> (owned ` S)) \<le> (\<Sum>s \<in> S. card (owned s))" using assms by (rule card_UN_le)
  also have "\<dots> \<le> (\<Sum>s \<in> S. 1)" by (rule sum_mono) (simp add: owned_def)
  finally show ?thesis by simp
qed

section \<open>Properties\<close>

text \<open>C3. Whatever other processes do and whichever calls fail or take effect after failing, after any events every open worker
  pane of the manager belongs to one of its slots, so there are never more than its slots allow; no ticket is in two
  slots; and every ticket that it has claimed and not given back is in a slot, unless the claim was ignored as
  a duplicate.\<close>

theorem workers_accounted_for:
  assumes "freshWorld m w" "run_state (managerRun m polls evs (replicate n emptySlot)) w = (Inr (slots, stream), w')"
  shows "live m (wo_panes w') \<subseteq> \<Union> (owned ` set slots) \<and> card (live m (wo_panes w')) \<le> n \<and> distinct (tickets slots) \<and>
    set (wo_held w') \<subseteq> set (tickets slots) \<union> dups w'"
proof -
  have p: "pool m slots w'" "length slots = n" using managerRun_pool(1) [OF assms refl] by auto
  then have l: "live m (wo_panes w') \<subseteq> \<Union> (owned ` set slots)" by (simp add: pool_def acct_def)
  have "card (live m (wo_panes w')) \<le> card (\<Union> (owned ` set slots))" by (rule card_mono [OF _ l]) (auto simp: owned_def)
  also have "\<dots> \<le> card (set slots)" by (rule card_owned) simp
  also have "\<dots> \<le> n" using card_length [of slots] p(2) by simp
  finally show ?thesis using l p(1) by (simp add: pool_def acct_def set_tickets)
qed

text \<open>C26. A ticket is completed only on the report of its own worker: for every ticket that the manager has moved to done, up to
  and including the shut-down, an output of that ticket's pane had the marker of that ticket on a line.\<close>

theorem completion_needs_report:
  assumes "freshWorld m w" "run_state (Run m polls evs (replicate n emptySlot)) w = (r, w')" "i \<in> set (wo_completed w')"
  shows "\<exists>out marker. (workerPaneID m i, out) \<in> set (wo_seen w') \<and> CompletionMarker i = Some marker \<and> fst (parseCompletionOutput out marker)"
proof -
  obtain q w1 where q: "run_state (managerRun m polls evs (replicate n emptySlot)) w = (q, w1)" by fastforce
  have "\<exists>slots. pool m slots w'"
  proof (cases q)
    case (Inl e)
    then show ?thesis using assms(2) q managerRun_pool(2) [OF assms(1) q] by (auto simp: Run_def)
  next
    case (Inr ss)
    have p: "pool m ([] @ fst ss) w1" using managerRun_pool(1) [OF assms(1) q, of "fst ss" "snd ss"] Inr by simp
    obtain z where z: "run_state (shutdownSlots m (fst ss)) w1 = (z, w')" using assms(2) q Inr by (auto simp: Run_def split: prod.splits)
    have "pool m ([] @ fst z) w'" using shutdownSlots_pool [OF p, of "fst z" "snd z"] z by simp
    then show ?thesis by auto
  qed
  then have "reported m w' i" using assms(3) by (auto simp: pool_def acct_def)
  then show ?thesis by (simp add: reported_def)
qed

text \<open>C27. When the shut-down reports no error, it leaves no worker pane open, and every ticket that the manager had claimed was
  completed or went back to the queue (or was found to be no longer in progress), but for duplicate claims.\<close>

theorem shutdown_leaves_no_worker:
  assumes "freshWorld m w" "run_state (Run m polls evs (replicate n emptySlot)) w = (Inr (slots, True), w')"
  shows "live m (wo_panes w') = {} \<and> set (wo_held w') \<subseteq> dups w'"
proof -
  obtain q w1 where q: "run_state (managerRun m polls evs (replicate n emptySlot)) w = (q, w1)" by fastforce
  obtain ss where ss: "q = Inr ss" using assms(2) q by (cases q) (auto simp: Run_def)
  have p: "pool m ([] @ fst ss) w1" using managerRun_pool(1) [OF assms(1) q, of "fst ss" "snd ss"] ss by simp
  have z: "run_state (shutdownSlots m (fst ss)) w1 = ((slots, True), w')" using assms(2) q ss by (auto simp: Run_def split: prod.splits)
  have "pool m slots w'" and e: "\<forall>s \<in> set slots. sl_state s = SlotEmpty" using shutdownSlots_pool [OF p z] by auto
  moreover from this have "\<forall>s \<in> set slots. owned s = {} \<and> ticketOf s = {}" by (auto simp: pool_def slot_ok_def slot_sets)
  ultimately show ?thesis by (auto simp: pool_def acct_def)
qed

section \<open>A run\<close>

text \<open>A manager with one slot, a ticket in the queue, and a run in which the worker reports at once.\<close>

definition sampleManager :: Manager where
  "sampleManager = \<lparr>ma_config = \<lparr>tc_DefaultAgent = ''codex'', tc_Version = 1, tc_MaxWorkers = 1, tc_PollInterval = 1, tc_VoiceNotifications = False,
     tc_VoiceNotificationPrefix = []\<rparr>, ma_root = ''/r'', ma_taskID = ''t'', ma_anchorPaneID = ''a'', ma_zellijSession = ''z'', ma_roleBin = ''b'',
     ma_managerID = ''m'', ma_sha256 = id\<rparr>"

definition sampleWorld :: World where
  "sampleWorld = \<lparr>wo_db = \<lparr>td_rows = [sampleRow], td_next = 2\<rparr>,
     wo_panes = [\<lparr>wp_ID = ''a'', wp_TaskID = ''t'', wp_SessionID = ''z'', wp_Role = ''ticket-manager'', wp_Status = ''running''\<rparr>],
     wo_script = [], wo_seen = [], wo_completed = [], wo_held = [], wo_voices = [], wo_log = []\<rparr>"

lemma sample_fresh: "freshWorld sampleManager sampleWorld"
  by (simp add: freshWorld_def sampleWorld_def workerPaneID_def)

lemma arrive_calm: "wo_script w = [] \<Longrightarrow> run_state arrive w = (calm, w)"
  by (simp add: arrive_def)

lemma sample_anchor: "run_state (waitForAnchor sampleManager 0) sampleWorld = (True, sampleWorld)"
  by (simp add: waitForAnchor.simps [of _ 0] clientInspect_def arrive_calm sampleWorld_def sampleManager_def hasReadyAnchor_def calm_def)

definition sampleClaimed :: Ticket where
  "sampleClaimed = sampleRow\<lparr>tk_Status := TicketInProgress, tk_UpdatedAt := 0, tk_StartedAt := Some 0\<rparr>"

lemma sample_next: "NextTicket None 0 \<lparr>td_rows = [sampleRow], td_next = 2\<rparr> = (\<lparr>td_rows = [sampleClaimed], td_next = 2\<rparr>, Inr sampleClaimed)"
  by (simp add: NextTicket_def sampleRow_def sampleClaimed_def storeTicket_def Let_def)

lemma sample_render: "RenderTicketPrompt sampleClaimed = Inr (''p'' @ [NL, NL] @ completionInstruction ''ZELLIJ_AGENT_TICKET_DONE 1'', ''ZELLIJ_AGENT_TICKET_DONE 1'')"
proof -
  have e: "tk_ID sampleClaimed = tk_ID sampleRow" "tk_Prompt sampleClaimed = tk_Prompt sampleRow" by (simp_all add: sampleClaimed_def)
  have "RenderTicketPrompt sampleClaimed = RenderTicketPrompt sampleRow" unfolding RenderTicketPrompt_def e ..
  then show ?thesis using sample_prompt by simp
qed

lemma sample_ID [simp]: "tk_ID sampleClaimed = 1" "tk_Worktree sampleClaimed = False"
  by (simp_all add: sampleClaimed_def sampleRow_def)

definition samplePane :: string where "samplePane = ''ticket-coding-m-1''"

lemma sample_pane: "workerPaneID sampleManager 1 = samplePane"
  by (simp add: workerPaneID_def sampleManager_def Itoa_def digits_samples samplePane_def)

definition sampleSlot :: managerSlot where
  "sampleSlot = \<lparr>sl_state = SlotWorking, sl_ticket = Some sampleClaimed, sl_paneID = samplePane, sl_marker = ''ZELLIJ_AGENT_TICKET_DONE 1'',
     sl_prompt = ''p'' @ [NL, NL] @ completionInstruction ''ZELLIJ_AGENT_TICKET_DONE 1'',
     sl_createRequest = workerRequest sampleManager sampleClaimed (''p'' @ [NL, NL] @ completionInstruction ''ZELLIJ_AGENT_TICKET_DONE 1'') ''/r'',
     sl_paneCreated = True, sl_creationUncertain = False, sl_done = False, sl_summary = [], sl_lastError = None\<rparr>"

definition workingWorld :: World where
  "workingWorld = sampleWorld\<lparr>wo_db := \<lparr>td_rows = [sampleClaimed], td_next = 2\<rparr>,
     wo_panes := wo_panes sampleWorld @ [\<lparr>wp_ID = samplePane, wp_TaskID = ''t'', wp_SessionID = ''z'', wp_Role = ''coding-agent'', wp_Status = ''starting''\<rparr>],
     wo_held := [1], wo_log := [(''started'', 1)]\<rparr>"

lemma sample_start:
  "run_state (startSlot sampleManager [] emptySlot) sampleWorld = ((sampleSlot, False), workingWorld)"
  by (simp add: startSlot_def storeNext_def arrive_calm sampleWorld_def calm_def sample_next ticketAssignedElsewhere_def Let_def sample_render
    createWorker_def clientCreatePane_def sample_pane sampleSlot_def emptySlot_def workingWorld_def openPane_def workerRequest_def)
   (simp add: sampleManager_def samplePane_def)

lemma sample_managerRun: "run_state (managerRun sampleManager 0 [] (replicate 1 emptySlot)) sampleWorld = (Inr ([sampleSlot], True), workingWorld)"
proof -
  have c: "run_state connectStream sampleWorld = (True, sampleWorld)" "run_state ctxDone sampleWorld = (False, sampleWorld)"
    by (simp_all add: connectStream_def ctxDone_def arrive_calm sampleWorld_def calm_def)
  have e: "sl_state emptySlot = SlotEmpty" by (simp add: emptySlot_def)
  show ?thesis by (simp add: managerRun_def sample_anchor fillEmptySlots_def c e sample_start)
qed

theorem workers_accounted_for_witness:
  "live sampleManager (wo_panes workingWorld) \<subseteq> \<Union> (owned ` set [sampleSlot]) \<and> card (live sampleManager (wo_panes workingWorld)) \<le> 1 \<and> distinct (tickets [sampleSlot]) \<and>
     set (wo_held workingWorld) \<subseteq> set (tickets [sampleSlot]) \<union> dups workingWorld"
  using workers_accounted_for [OF sample_fresh sample_managerRun] .

lemma sample_report: "parseCompletionOutput ''ZELLIJ_AGENT_TICKET_DONE 1'' ''ZELLIJ_AGENT_TICKET_DONE 1'' = (True, [])"
  "parseCompletionOutput [] ''ZELLIJ_AGENT_TICKET_DONE 1'' = (False, [])"
proof -
  have "scanLines ''ZELLIJ_AGENT_TICKET_DONE 1'' = [''ZELLIJ_AGENT_TICKET_DONE 1'']" "scanLines [] = []"
    by (simp_all add: scanLines_def TrimSuffix_def HasSuffix_def)
  moreover have "normalizeCompletionLine ''ZELLIJ_AGENT_TICKET_DONE 1'' = ''ZELLIJ_AGENT_TICKET_DONE 1''"
    using marker_report(1) [OF sample_marker] by (simp add: TrimSuffix_def HasSuffix_def)
  ultimately show "parseCompletionOutput ''ZELLIJ_AGENT_TICKET_DONE 1'' ''ZELLIJ_AGENT_TICKET_DONE 1'' = (True, [])"
    "parseCompletionOutput [] ''ZELLIJ_AGENT_TICKET_DONE 1'' = (False, [])"
    by (simp_all add: parseCompletionOutput_def HasPrefix_def completionSummaryPrefix_def)
qed

definition sampleDone :: Ticket where
  "sampleDone = sampleClaimed\<lparr>tk_Status := TicketDone, tk_UpdatedAt := 0, tk_CompletedAt := Some 0\<rparr>"

lemma sample_done: "TransitionTicket None 0 1 ActionDone \<lparr>td_rows = [sampleClaimed], td_next = 2\<rparr> = (\<lparr>td_rows = [sampleDone], td_next = 2\<rparr>, Inr sampleDone)"
  by (simp add: TransitionTicket_def GetTicket_def findTicket_def allowedTransitions_def stampAction_def sampleDone_def Let_def storeTicket_def)
     (simp add: sampleClaimed_def)

definition reportedWorld :: World where
  "reportedWorld = workingWorld\<lparr>wo_seen := [(samplePane, ''ZELLIJ_AGENT_TICKET_DONE 1'')]\<rparr>"

lemma sample_summary_read:
  "run_state (completionSummary sampleManager [] sampleSlot) reportedWorld =
     (Some [], reportedWorld\<lparr>wo_seen := (samplePane, []) # wo_seen reportedWorld\<rparr>)"
  by (simp add: completionSummary_def clientSnapshot_def arrive_calm reportedWorld_def workingWorld_def sampleWorld_def sampleSlot_def calm_def samplePane_def
    matchesWorkerPane_def sampleManager_def sample_report)

definition doneWorld :: World where
  "doneWorld = reportedWorld\<lparr>wo_seen := (samplePane, []) # wo_seen reportedWorld, wo_db := \<lparr>td_rows = [sampleDone], td_next = 2\<rparr>, wo_held := [], wo_completed := [1],
     wo_panes := endPane samplePane (wo_panes workingWorld), wo_log := [(''started'', 1), (''closed'', 1)]\<rparr>"

lemma sample_complete:
  "run_state (completeSlot sampleManager sampleSlot) (reportedWorld\<lparr>wo_seen := (samplePane, []) # wo_seen reportedWorld\<rparr>) = (emptySlot, doneWorld)"
proof -
  have d: "slotTicket sampleSlot = 1" "sl_state sampleSlot = SlotWorking" "sl_paneID sampleSlot = samplePane" "tk_ID sampleDone = 1"
    by (simp_all add: sampleSlot_def slotTicket_def sampleDone_def)
  show ?thesis
    by (simp add: completeSlot_def retryComplete_def d storeDone_def arrive_calm reportedWorld_def workingWorld_def sampleWorld_def calm_def sample_done letGo_def
      closing_def retryClose_def closeOrAbsent_def clientClosePane_def finalizeCompletedSlot_def doneWorld_def)
      (simp add: sampleManager_def)
qed

lemma sample_Run:
  "run_state (Run sampleManager 0 [Streamed ''raw_output'' ''t'' samplePane ''ZELLIJ_AGENT_TICKET_DONE 1''] (replicate 1 emptySlot)) sampleWorld =
     (Inr ([emptySlot], True), doneWorld)"
proof -
  let ?ev = "Streamed ''raw_output'' ''t'' samplePane ''ZELLIJ_AGENT_TICKET_DONE 1''"
  have d: "sl_state sampleSlot = SlotWorking" "sl_paneID sampleSlot = samplePane" "sl_marker sampleSlot = ''ZELLIJ_AGENT_TICKET_DONE 1''" "sampleSlot\<lparr>sl_summary := []\<rparr> = sampleSlot"
    "ma_taskID sampleManager = ''t''" "sl_state emptySlot = SlotEmpty"
    by (simp_all add: sampleSlot_def sampleManager_def emptySlot_def)
  have "run_state (managerStep sampleManager ?ev ([sampleSlot], True)) workingWorld = (([emptySlot], True), doneWorld)"
    using sample_summary_read sample_complete
    by (simp add: handleEvent_def d workerOutput_def sample_report reportedWorld_def) (simp add: workingWorld_def sampleWorld_def d)
  moreover have "run_state (managerRun sampleManager 0 [?ev] (replicate 1 emptySlot)) sampleWorld =
      (case run_state (managerStep sampleManager ?ev ([sampleSlot], True)) workingWorld of (ss, w') \<Rightarrow> (Inr ss, w'))"
    using sample_managerRun by (auto simp: managerRun_def split: prod.splits if_splits)
  ultimately show ?thesis by (simp add: Run_def shutdownSlot_def d)
qed

theorem completion_needs_report_witness: "\<exists>out marker. (workerPaneID sampleManager 1, out) \<in> set (wo_seen doneWorld) \<and> CompletionMarker 1 = Some marker \<and> fst (parseCompletionOutput out marker)"
  using completion_needs_report [OF sample_fresh sample_Run, of 1] by (simp add: doneWorld_def)

theorem shutdown_leaves_no_worker_witness: "live sampleManager (wo_panes doneWorld) = {} \<and> set (wo_held doneWorld) \<subseteq> dups doneWorld"
  using shutdown_leaves_no_worker [OF sample_fresh sample_Run] .

text \<open>C35. A ticket that is cancelled while its worker reports completion blocks the slot: the transition to done is refused, the ticket
  is not done, and every further attempt ends the same way, with the slot taken and the pane open.\<close>

theorem cancelled_ticket_blocks_slot:
  assumes "sl_state s = SlotCompleting" "findTicket (slotTicket s) (wo_db w) = Some t" "tk_Status t = TicketCancelled" "wo_script w = []"
  shows "\<exists>w'. run_state (retrySlot m s) w = (s\<lparr>sl_lastError := Some (StoreFailed ErrInvalidTransition)\<rparr>, w') \<and> wo_db w' = wo_db w \<and> wo_panes w' = wo_panes w \<and> wo_script w' = []"
  using assms
  by (simp add: retrySlot_def retryComplete_def storeDone_def storeGet_def arrive_calm calm_def TransitionTicket_def GetTicket_def allowedTransitions_def)

theorem cancelled_ticket_blocks_slot_witness:
  "\<exists>w'. run_state (retrySlot sampleManager (sampleSlot\<lparr>sl_state := SlotCompleting\<rparr>)) (workingWorld\<lparr>wo_db := \<lparr>td_rows = [sampleClaimed\<lparr>tk_Status := TicketCancelled\<rparr>], td_next = 2\<rparr>\<rparr>) =
     (sampleSlot\<lparr>sl_state := SlotCompleting, sl_lastError := Some (StoreFailed ErrInvalidTransition)\<rparr>, w') \<and>
     wo_panes w' = wo_panes workingWorld"
proof -
  let ?s = "sampleSlot\<lparr>sl_state := SlotCompleting\<rparr>"
  let ?w = "workingWorld\<lparr>wo_db := \<lparr>td_rows = [sampleClaimed\<lparr>tk_Status := TicketCancelled\<rparr>], td_next = 2\<rparr>\<rparr>"
  have "slotTicket ?s = 1" by (simp add: sampleSlot_def slotTicket_def)
  then have "findTicket (slotTicket ?s) (wo_db ?w) = Some (sampleClaimed\<lparr>tk_Status := TicketCancelled\<rparr>)" by (simp add: findTicket_def)
  from cancelled_ticket_blocks_slot [OF _ this, of sampleManager] show ?thesis by (auto simp: workingWorld_def sampleWorld_def)
qed

text \<open>A slot whose ticket is done and whose pane could not be closed yet; the ticket was reopened.\<close>

definition closingSlot :: managerSlot where
  "closingSlot = closing sampleDone sampleSlot"

definition lost :: happening where
  "lost = calm\<lparr>ha_fault := Some (OtherError ''connection reset'')\<rparr>"

definition closingWorld :: World where
  "closingWorld = workingWorld\<lparr>wo_db := \<lparr>td_rows = [sampleRow], td_next = 2\<rparr>, wo_held := [], wo_completed := [1], wo_script := [lost]\<rparr>"

lemma sample_empty: "NextTicket None 0 \<lparr>td_rows = [sampleClaimed], td_next = 2\<rparr> = (\<lparr>td_rows = [sampleClaimed], td_next = 2\<rparr>, Inl ErrEmptyQueue)"
  by (simp add: NextTicket_def sampleClaimed_def)

lemma sample_ticks:
  "run_state (managerStep sampleManager Ticked ([closingSlot, emptySlot], True)) closingWorld =
     (([closingSlot\<lparr>sl_lastError := Some (ClientFailed (OtherError ''connection reset''))\<rparr>, emptySlot], True),
      closingWorld\<lparr>wo_script := [], wo_db := \<lparr>td_rows = [sampleClaimed], td_next = 2\<rparr>, wo_held := [1],
        wo_log := [(''started'', 1), (''close'', 1), (''duplicate claim'', 1)]\<rparr>)"
proof -
  have d: "sl_state closingSlot = SlotClosing" "sl_paneID closingSlot = samplePane" "slotTicket closingSlot = 1" "sl_state emptySlot = SlotEmpty"
    by (simp_all add: closingSlot_def closing_def sampleSlot_def emptySlot_def sampleDone_def slotTicket_def)
  have e: "elapse lost panes = panes" for panes by (simp add: elapse_def lost_def calm_def)
  have l: "ha_fault lost = Some (OtherError ''connection reset'')" "ha_others lost = []" "ha_applied lost = False" by (simp_all add: lost_def calm_def)
  have c: "ha_fault calm = None" "ha_cancelled calm = False" "ha_store calm = None" "ha_now calm = 0" by (simp_all add: calm_def)
  have r: "run_state (retrySlots sampleManager [closingSlot, emptySlot]) closingWorld =
     ([closingSlot\<lparr>sl_lastError := Some (ClientFailed (OtherError ''connection reset''))\<rparr>, emptySlot],
      closingWorld\<lparr>wo_script := [], wo_log := [(''started'', 1), (''close'', 1)]\<rparr>)"
    by (simp add: retrySlots_def retrySlot_def d retryClose_def closeOrAbsent_def clientClosePane_def arrive_def clientInspect_def closingWorld_def l e c
      workingWorld_def sampleWorld_def paneConsumesCapacity_def samplePane_def sampleManager_def paneOver_def)
  show ?thesis
    by (simp add: managerTick_def r recoverSnapshots_def recoverSlot_def d fillEmptySlots_def)
      (simp add: closingWorld_def ctxDone_def arrive_calm c d startSlot_def storeNext_def sample_next ticketAssignedElsewhere_def)
qed

lemma sample_stranded:
  "run_state (managerStep sampleManager Ticked ([closingSlot\<lparr>sl_lastError := Some (ClientFailed (OtherError ''connection reset''))\<rparr>, emptySlot], True))
      (closingWorld\<lparr>wo_script := [], wo_db := \<lparr>td_rows = [sampleClaimed], td_next = 2\<rparr>, wo_held := [1],
        wo_log := [(''started'', 1), (''close'', 1), (''duplicate claim'', 1)]\<rparr>) =
     (([emptySlot, emptySlot], True),
      closingWorld\<lparr>wo_script := [], wo_db := \<lparr>td_rows = [sampleClaimed], td_next = 2\<rparr>, wo_held := [1], wo_panes := endPane samplePane (wo_panes workingWorld),
        wo_log := [(''started'', 1), (''close'', 1), (''duplicate claim'', 1), (''closed'', 1)]\<rparr>)"
proof -
  let ?s = "closingSlot\<lparr>sl_lastError := Some (ClientFailed (OtherError ''connection reset''))\<rparr>"
  have d: "sl_state ?s = SlotClosing" "sl_paneID ?s = samplePane" "slotTicket ?s = 1" "sl_state emptySlot = SlotEmpty"
    by (simp_all add: closingSlot_def closing_def sampleSlot_def emptySlot_def sampleDone_def slotTicket_def)
  have c: "ha_fault calm = None" "ha_cancelled calm = False" "ha_store calm = None" "ha_now calm = 0" by (simp_all add: calm_def)
  have v: "tc_VoiceNotifications (ma_config sampleManager) = False" by (simp add: sampleManager_def)
  show ?thesis
    by (simp add: managerTick_def retrySlots_def retrySlot_def d [simplified] v retryClose_def closeOrAbsent_def clientClosePane_def finalizeCompletedSlot_def
      recoverSnapshots_def recoverSlot_def fillEmptySlots_def ctxDone_def arrive_calm c startSlot_def storeNext_def sample_empty closingWorld_def)
qed


end
