(* ===== verification/Debate.thy ===== *)
theory Debate
  imports Runtime_Plan
begin

text \<open>
  Debates between agents, \<^verbatim>\<open>src/internal/debate/debate.go\<close>: preparing the agents from the options or a configuration file, the
  execution plan that opens their panes, sending input, and waiting until every agent has printed the
  marker of the round or its time is over. The configuration is the value that the YAML decoder returns. The
  plan is checked by the runtime as modelled in theory \<open>Runtime_Plan\<close>. The wait loop gets a list of what each
  turn of its \<open>select\<close> finds, with the clock; the texts of the prompts and reports are left out.
\<close>

section \<open>Options and agents\<close>

record DebateOptions =
  do_Topic :: string
  do_Agents :: "string list"
  do_Rounds :: int
  do_AgentTimeout :: int
  do_ConfigPath :: string
  do_CWD :: string
  do_AgentRoleBin :: string
  do_ZellijSession :: string

definition ValidateOptions :: "DebateOptions \<Rightarrow> string option" where
  "ValidateOptions opts =
     (if TrimSpace (do_Topic opts) = [] then Some ''debate requires --topic <text>''
      else if do_Agents opts = [] then Some ''debate requires at least one agent''
      else if do_Rounds opts < 1 \<or> do_Rounds opts > 3 then Some ''debate requires --rounds between 1 and 3''
      else if do_AgentTimeout opts \<le> 0 then Some ''debate requires --agent-timeout greater than 0''
      else None)"

fun addAgents :: "string list \<Rightarrow> string list \<Rightarrow> string list" where
  "addAgents [] agents = agents"
| "addAgents (p # ps) agents =
     (let agent = TrimSpace p
      in if agent = [] \<or> agent \<in> set agents then addAgents ps agents else addAgents ps (agents @ [agent]))"

definition ParseAgents :: "string \<Rightarrow> string list" where
  "ParseAgents raw = addAgents (SplitByte CHR '','' raw) []"

record agentSpec =
  as_ID :: string
  as_Role :: string
  as_Command :: "string list"
  as_CWD :: string
  as_StartupDelayMS :: int
  as_SubmitNewlines :: int
  as_ExtraSubmitEnters :: int
  as_ExtraSubmitDelayMS :: int
  as_PrintCommand :: "string list"
  as_PromptDelivery :: string

record coordinatorSpec =
  cs_Role :: string
  cs_Command :: "string list"
  cs_CWD :: string

definition promptDeliveryArg :: string where "promptDeliveryArg = ''arg''"
definition promptDeliveryStdin :: string where "promptDeliveryStdin = ''stdin''"

definition agySpec :: "string \<Rightarrow> string \<Rightarrow> agentSpec" where
  "agySpec i cwd = \<lparr>as_ID = i, as_Role = ''coding-agent'', as_Command = [''agy'', ''--dangerously-skip-permissions''], as_CWD = cwd,
     as_StartupDelayMS = 10000, as_SubmitNewlines = 1, as_ExtraSubmitEnters = 0, as_ExtraSubmitDelayMS = 0,
     as_PrintCommand = [''agy'', ''--dangerously-skip-permissions'', ''--print''], as_PromptDelivery = promptDeliveryArg\<rparr>"

definition agentAgentSpec :: "string \<Rightarrow> string \<Rightarrow> agentSpec" where
  "agentAgentSpec i cwd = \<lparr>as_ID = i, as_Role = ''coding-agent'', as_Command = [''agent'', ''--yolo'', ''--model'', ''claude-opus-4-8-thinking-high''], as_CWD = cwd,
     as_StartupDelayMS = 0, as_SubmitNewlines = 2, as_ExtraSubmitEnters = 1, as_ExtraSubmitDelayMS = 300,
     as_PrintCommand = [''agent'', ''--yolo'', ''--print'', ''--model'', ''claude-opus-4-8-thinking-high'', ''--trust''], as_PromptDelivery = promptDeliveryArg\<rparr>"

definition codexSpec :: "string \<Rightarrow> string \<Rightarrow> agentSpec" where
  "codexSpec i cwd = \<lparr>as_ID = i, as_Role = ''coding-agent'', as_Command = [''codex'', ''--dangerously-bypass-approvals-and-sandbox''], as_CWD = cwd,
     as_StartupDelayMS = 0, as_SubmitNewlines = 1, as_ExtraSubmitEnters = 0, as_ExtraSubmitDelayMS = 0,
     as_PrintCommand = [''codex'', ''exec'', ''--dangerously-bypass-approvals-and-sandbox'', ''--cd'', cwd, ''-''], as_PromptDelivery = promptDeliveryStdin\<rparr>"

definition defaultAgentCommandSpec :: "string \<Rightarrow> string \<Rightarrow> agentSpec option" where
  "defaultAgentCommandSpec agent cwd =
     mget [(''agy'', agySpec ''agy'' cwd), (''agent'', agentAgentSpec ''agent'' cwd), (''codex'', codexSpec ''codex'' cwd),
           (''a'', agySpec ''a'' cwd), (''b'', agentAgentSpec ''b'' cwd), (''c'', codexSpec ''c'' cwd)] agent"

definition fallbackAgentSpec :: "string \<Rightarrow> string \<Rightarrow> string list \<Rightarrow> agentSpec" where
  "fallbackAgentSpec agent cwd roleCommand = \<lparr>as_ID = agent, as_Role = ''coding-agent'', as_Command = roleCommand @ [''coding-agent'', cwd], as_CWD = cwd,
     as_StartupDelayMS = 0, as_SubmitNewlines = 1, as_ExtraSubmitEnters = 0, as_ExtraSubmitDelayMS = 0, as_PrintCommand = [], as_PromptDelivery = []\<rparr>"

definition defaultAgentSpecs :: "string list \<Rightarrow> string \<Rightarrow> string list \<Rightarrow> agentSpec list" where
  "defaultAgentSpecs agents cwd roleCommand =
     map (\<lambda>agent. case defaultAgentCommandSpec agent cwd of Some spec \<Rightarrow> spec | None \<Rightarrow> fallbackAgentSpec agent cwd roleCommand) agents"

definition defaultCoordinatorSpec :: "string \<Rightarrow> string list \<Rightarrow> coordinatorSpec" where
  "defaultCoordinatorSpec cwd roleCommand = \<lparr>cs_Role = ''debate-coordinator'', cs_Command = roleCommand @ [''debate-coordinator'', cwd], cs_CWD = cwd\<rparr>"

text \<open>\<open>exe\<close> is what \<open>os.Executable\<close> returns.\<close>

definition roleCommand :: "string option \<Rightarrow> string \<Rightarrow> string list" where
  "roleCommand exe bin =
     (if TrimSpace bin \<noteq> [] then [bin, ''role'']
      else case exe of Some e \<Rightarrow> if e \<noteq> [] then [e, ''role''] else [''zellij-agent'', ''role''] | None \<Rightarrow> [''zellij-agent'', ''role''])"

section \<open>The configuration file\<close>

record configFile =
  cf_Agents :: "agentSpec list"
  cf_Coordinator :: coordinatorSpec

text \<open>An entry for an agent has the fields of its specification.\<close>

definition configAgent :: "string \<Rightarrow> agentSpec \<Rightarrow> string + agentSpec" where
  "configAgent defaultCWD a =
     (let i = TrimSpace (as_ID a); lines = (if as_SubmitNewlines a = 0 then 1 else as_SubmitNewlines a); delivery = TrimSpace (as_PromptDelivery a)
      in if as_Command a = [] then Inl (''agent '' @ i @ '' command is required'')
         else if lines < 1 then Inl (''agent '' @ i @ '' submit_newlines must be at least 1'')
         else if as_ExtraSubmitEnters a < 0 then Inl (''agent '' @ i @ '' extra_submit_enters must not be negative'')
         else if as_ExtraSubmitDelayMS a < 0 then Inl (''agent '' @ i @ '' extra_submit_delay_ms must not be negative'')
         else if as_StartupDelayMS a < 0 then Inl (''agent '' @ i @ '' startup_delay_ms must not be negative'')
         else if delivery \<noteq> [] \<and> delivery \<noteq> promptDeliveryArg \<and> delivery \<noteq> promptDeliveryStdin then
           Inl (''agent '' @ i @ '' prompt_delivery must be '' @ [CHR 0x22] @ promptDeliveryArg @ [CHR 0x22] @ '' or '' @ [CHR 0x22] @ promptDeliveryStdin @ [CHR 0x22])
         else Inr (a\<lparr>as_ID := i, as_Role := (if TrimSpace (as_Role a) = [] then ''coding-agent'' else TrimSpace (as_Role a)),
           as_CWD := (if TrimSpace (as_CWD a) = [] then defaultCWD else TrimSpace (as_CWD a)), as_SubmitNewlines := lines, as_PromptDelivery := delivery\<rparr>))"

fun configAgents :: "string \<Rightarrow> string list \<Rightarrow> agentSpec list \<Rightarrow> string + agentSpec list" where
  "configAgents defaultCWD seen [] = Inr []"
| "configAgents defaultCWD seen (a # as) =
     (let i = TrimSpace (as_ID a)
      in if i = [] then Inl ''agent id is required''
         else if i \<in> set seen then Inl (''duplicate agent id '' @ [CHR 0x22] @ i @ [CHR 0x22])
         else case configAgent defaultCWD a of
           Inl e \<Rightarrow> Inl e
         | Inr spec \<Rightarrow> (case configAgents defaultCWD (i # seen) as of Inl e \<Rightarrow> Inl e | Inr specs \<Rightarrow> Inr (spec # specs)))"

definition configCoordinator :: "coordinatorSpec \<Rightarrow> coordinatorSpec \<Rightarrow> coordinatorSpec" where
  "configCoordinator c d =
     \<lparr>cs_Role = (if TrimSpace (cs_Role c) \<noteq> [] then TrimSpace (cs_Role c) else cs_Role d),
      cs_Command = (if cs_Command c \<noteq> [] then cs_Command c else cs_Command d),
      cs_CWD = (if TrimSpace (cs_CWD c) \<noteq> [] then TrimSpace (cs_CWD c) else cs_CWD d)\<rparr>"

definition loadConfig :: "string + configFile \<Rightarrow> string \<Rightarrow> coordinatorSpec \<Rightarrow> string + agentSpec list \<times> coordinatorSpec" where
  "loadConfig decoded defaultCWD defaultCoordinator =
     (case decoded of
        Inl e \<Rightarrow> Inl e
      | Inr cfg \<Rightarrow>
          if cf_Agents cfg = [] then Inl ''agents are required''
          else case configAgents defaultCWD [] (cf_Agents cfg) of
            Inl e \<Rightarrow> Inl e
          | Inr specs \<Rightarrow> Inr (specs, configCoordinator (cf_Coordinator cfg) defaultCoordinator))"

record Prepared =
  pp_opts :: DebateOptions
  pp_agentSpecs :: "agentSpec list"
  pp_coordinatorSpec :: coordinatorSpec
  pp_agents :: "string list"

text \<open>\<open>decoded\<close> is what reading and decoding the configuration file gives.\<close>

definition Prepare :: "string option \<Rightarrow> (string \<Rightarrow> string + configFile) \<Rightarrow> DebateOptions \<Rightarrow> string + Prepared" where
  "Prepare exe decoded opts =
     (case ValidateOptions opts of
        Some e \<Rightarrow> Inl e
      | None \<Rightarrow>
          let role = roleCommand exe (do_AgentRoleBin opts); coordinator = defaultCoordinatorSpec (do_CWD opts) role
          in if TrimSpace (do_ConfigPath opts) = []
             then Inr \<lparr>pp_opts = opts, pp_agentSpecs = defaultAgentSpecs (do_Agents opts) (do_CWD opts) role, pp_coordinatorSpec = coordinator, pp_agents = do_Agents opts\<rparr>
             else case loadConfig (decoded (do_ConfigPath opts)) (do_CWD opts) coordinator of
               Inl e \<Rightarrow> Inl (''debate config failed: '' @ e)
             | Inr (specs, c) \<Rightarrow> Inr \<lparr>pp_opts = opts, pp_agentSpecs = specs, pp_coordinatorSpec = c, pp_agents = map as_ID specs\<rparr>)"

section \<open>The plan\<close>

definition debatePane :: "string \<Rightarrow> string" where
  "debatePane agent = ''debate-'' @ agent"

text \<open>The payload as \<open>ToRuntime\<close> passes it on.\<close>

definition debatePlan :: "string \<Rightarrow> string \<Rightarrow> agentSpec list \<Rightarrow> coordinatorSpec \<Rightarrow> ApplyExecutionPlanRequest" where
  "debatePlan requestID zellijSession agents coordinator =
     \<lparr>ap_RequestID = requestID, ap_Session = requestID, ap_ZellijSession = zellijSession, ap_Layout = ''debate'',
      ap_Tabs = [\<lparr>ts_Name = requestID, ts_LayoutString = [],
        ts_Panes = \<lparr>ps_ID = ''debate-coordinator'', ps_Role = cs_Role coordinator, ps_AgentID = ''coordinator'', ps_Command = cs_Command coordinator,
            ps_CWD = cs_CWD coordinator, ps_InitialInput = [], ps_InitialInputReadyText = []\<rparr> #
          map (\<lambda>a. \<lparr>ps_ID = debatePane (as_ID a), ps_Role = as_Role a, ps_AgentID = as_ID a, ps_Command = as_Command a, ps_CWD = as_CWD a,
            ps_InitialInput = [], ps_InitialInputReadyText = []\<rparr>) agents\<rparr>]\<rparr>"

section \<open>Markers\<close>

definition debateMarker :: "string \<Rightarrow> int \<Rightarrow> string \<Rightarrow> string" where
  "debateMarker requestID rnd agent =
     ''<<<AGENT_DEBATE_DONE debate='' @ requestID @ '' round='' @ Itoa rnd @ '' agent='' @ agent @ '' token='' @ requestID @ ''-'' @ Itoa rnd @ ''-'' @ agent @ ''>>>''"

definition debateMarkers :: "string \<Rightarrow> string list \<Rightarrow> int \<Rightarrow> (string, string) gomap" where
  "debateMarkers requestID agents rnd = fold (\<lambda>agent ms. mput ms (debatePane agent) (debateMarker requestID rnd agent)) agents []"

definition compactWhitespace :: "string \<Rightarrow> string" where
  "compactWhitespace s = filter (\<lambda>c. c \<notin> {CHR '' '', NL, CR, CHR 0x09}) s"

definition debateMarkerMatches :: "string \<Rightarrow> string \<Rightarrow> bool" where
  "debateMarkerMatches message marker \<longleftrightarrow> Contains message marker \<or> Contains (compactWhitespace message) (compactWhitespace marker)"

section \<open>Waiting\<close>

definition paneStatusDone :: string where "paneStatusDone = ''done''"
definition paneStatusTimedOut :: string where "paneStatusTimedOut = ''timed_out''"

record paneWaitStatus =
  ws_PaneID :: string
  ws_Status :: string
  ws_Elapsed :: int
  ws_Timeout :: int

datatype wait_error = StreamClosedEarly "string list" | StreamFailed string | WaitCancelled "string list"

text \<open>What the \<open>select\<close> finds: an event (type, pane and message), the end of the events, an error other than a cancellation, the end of
  the errors or one that is ignored, the timer, the end of the context.\<close>

datatype selected = GotEvent string string string | EventsClosed | GotError string | ErrorIgnored | TimerFired | CtxDone

definition missingMarkers :: "(string, string) gomap \<Rightarrow> (string, paneWaitStatus) gomap \<Rightarrow> string list" where
  "missingMarkers ms statuses = sort (filter (\<lambda>pane. mget statuses pane = None) (map fst ms))"

definition nextDeadline :: "(string, string) gomap \<Rightarrow> (string, paneWaitStatus) gomap \<Rightarrow> (string, time) gomap \<Rightarrow> time option" where
  "nextDeadline ms statuses deadlines =
     (case filter (\<lambda>pane. mget statuses pane = None) (map fst ms) of
        [] \<Rightarrow> None
      | pane # panes \<Rightarrow> Some (fold (\<lambda>q d. min d (the (mget deadlines q))) panes (the (mget deadlines pane))))"

definition markTimeouts :: "(string, string) gomap \<Rightarrow> (string, time) gomap \<Rightarrow> time \<Rightarrow> int \<Rightarrow> time \<Rightarrow> (string, paneWaitStatus) gomap \<Rightarrow> (string, paneWaitStatus) gomap" where
  "markTimeouts ms deadlines started timeout now statuses =
     fold (\<lambda>pane sts. if mget sts pane \<noteq> None \<or> the (mget deadlines pane) > now then sts
       else mput sts pane \<lparr>ws_PaneID = pane, ws_Status = paneStatusTimedOut, ws_Elapsed = now - started, ws_Timeout = timeout\<rparr>) (map fst ms) statuses"

definition recordMarker :: "(string, string) gomap \<Rightarrow> time \<Rightarrow> int \<Rightarrow> time \<Rightarrow> string \<Rightarrow> string \<Rightarrow> string \<Rightarrow> (string, paneWaitStatus) gomap \<Rightarrow> (string, paneWaitStatus) gomap" where
  "recordMarker ms started timeout now type pane message statuses =
     (case mget ms pane of
        None \<Rightarrow> statuses
      | Some marker \<Rightarrow>
          if type = ''raw_output'' \<and> debateMarkerMatches message marker \<and> mget statuses pane = None
          then mput statuses pane \<lparr>ws_PaneID = pane, ws_Status = paneStatusDone, ws_Elapsed = now - started, ws_Timeout = timeout\<rparr>
          else statuses)"

text \<open>A turn of the loop has the time when it looks at the deadline, the time when it acts, and what it finds. \<open>None\<close>: the loop
  still waits after all these turns.\<close>

fun waitLoop :: "(string, string) gomap \<Rightarrow> (string, time) gomap \<Rightarrow> time \<Rightarrow> int \<Rightarrow> (string, paneWaitStatus) gomap \<Rightarrow> (time \<times> time \<times> selected) list \<Rightarrow>
    (wait_error + (string, paneWaitStatus) gomap) option" where
  "waitLoop ms deadlines started timeout statuses turns =
     (if length statuses \<ge> length ms then Some (Inr statuses)
      else case nextDeadline ms statuses deadlines of
        None \<Rightarrow> Some (Inr statuses)
      | Some deadline \<Rightarrow> (case turns of
          [] \<Rightarrow> None
        | (looked, now, sel) # rest \<Rightarrow>
            if deadline \<le> looked then waitLoop ms deadlines started timeout (markTimeouts ms deadlines started timeout now statuses) rest
            else (case sel of
                GotEvent type pane message \<Rightarrow> waitLoop ms deadlines started timeout (recordMarker ms started timeout now type pane message statuses) rest
              | EventsClosed \<Rightarrow> Some (Inl (StreamClosedEarly (missingMarkers ms statuses)))
              | GotError e \<Rightarrow> Some (Inl (StreamFailed e))
              | ErrorIgnored \<Rightarrow> waitLoop ms deadlines started timeout statuses rest
              | TimerFired \<Rightarrow> waitLoop ms deadlines started timeout (markTimeouts ms deadlines started timeout now statuses) rest
              | CtxDone \<Rightarrow> Some (Inl (WaitCancelled (missingMarkers ms statuses))))))"

declare waitLoop.simps [simp del]

definition waitForMarkers :: "(string, string) gomap \<Rightarrow> int \<Rightarrow> time \<Rightarrow> (time \<times> time \<times> selected) list \<Rightarrow>
    (wait_error + (string, paneWaitStatus) gomap) option" where
  "waitForMarkers ms timeout started turns = waitLoop ms (map (\<lambda>(pane, _). (pane, started + timeout)) ms) started timeout [] turns"

section \<open>Sending input\<close>

definition withTrailingNewlines :: "string \<Rightarrow> int \<Rightarrow> string" where
  "withTrailingNewlines s n = TrimRightByte NL s @ replicate (nat (if n < 1 then 1 else n)) NL"

text \<open>The inputs sent to the pane; \<open>fails\<close> says which call of \<open>SendInput\<close> or pause (by its number) fails, and ends the sending.\<close>

fun extraEnters :: "(nat \<Rightarrow> bool) \<Rightarrow> nat \<Rightarrow> bool \<Rightarrow> nat \<Rightarrow> string list" where
  "extraEnters fails k pause 0 = []"
| "extraEnters fails k pause (Suc n) =
     (if pause \<and> fails k then []
      else [NL] # (if fails (Suc k) then [] else extraEnters fails (Suc (Suc k)) pause n))"

definition sendAgentInput :: "(nat \<Rightarrow> bool) \<Rightarrow> string \<Rightarrow> agentSpec \<Rightarrow> string list" where
  "sendAgentInput fails prompt a =
     withTrailingNewlines prompt (as_SubmitNewlines a) #
       (if fails 0 then [] else extraEnters fails 1 (as_ExtraSubmitDelayMS a > 0) (nat (as_ExtraSubmitEnters a)))"

section \<open>What a plan needs\<close>

lemma debatePane_inject [simp]: "debatePane a = debatePane b \<longleftrightarrow> a = b"
  by (simp add: debatePane_def)

lemma plan_ids_debate: "plan_ids (ap_Tabs (debatePlan r z agents c)) = map debatePane (''coordinator'' # map as_ID agents)"
  by (simp add: plan_ids_def debatePlan_def debatePane_def)

text \<open>The runtime accepts the plan of a debate exactly if it names a Zellij session, no two agents have the same
  identifier, and none is called coordinator.\<close>

theorem debate_plan_accepted_iff:
  assumes "requestID \<noteq> []"
  shows "validateExecutionPlan (debatePlan requestID zellijSession agents coordinator) = None \<longleftrightarrow>
    TrimSpace zellijSession \<noteq> [] \<and> distinct (map as_ID agents) \<and> ''coordinator'' \<notin> as_ID ` set agents"
proof -
  have "[] \<notin> set (plan_ids (ap_Tabs (debatePlan requestID zellijSession agents coordinator)))"
    unfolding plan_ids_debate by (auto simp: debatePane_def)
  moreover have "distinct (plan_ids (ap_Tabs (debatePlan requestID zellijSession agents coordinator))) \<longleftrightarrow>
      distinct (map as_ID agents) \<and> ''coordinator'' \<notin> as_ID ` set agents"
    unfolding plan_ids_debate by (auto simp: distinct_map inj_on_def)
  moreover have "\<forall>t \<in> set (ap_Tabs (debatePlan requestID zellijSession agents coordinator)). ts_Panes t \<noteq> []"
    "ap_Tabs (debatePlan requestID zellijSession agents coordinator) \<noteq> []" by (simp_all add: debatePlan_def)
  moreover have "ap_ZellijSession (debatePlan requestID zellijSession agents coordinator) = zellijSession"
    "ap_Session (debatePlan requestID zellijSession agents coordinator) = requestID" by (simp_all add: debatePlan_def)
  ultimately show ?thesis using assms by (simp add: validateExecutionPlan_def validateTabs_None)
qed

lemma addAgents_distinct: "distinct agents \<Longrightarrow> distinct (addAgents ps agents)"
proof (induction ps arbitrary: agents)
  case (Cons p ps)
  show ?case
  proof (cases "TrimSpace p = [] \<or> TrimSpace p \<in> set agents")
    case True
    then show ?thesis using Cons by auto
  next
    case False
    then show ?thesis using Cons.IH [of "agents @ [TrimSpace p]"] Cons.prems by simp
  qed
qed simp

lemma configAgents_distinct:
  "configAgents cwd seen as = Inr specs \<Longrightarrow> distinct (map as_ID specs) \<and> as_ID ` set specs \<inter> set seen = {}"
proof (induction "as" arbitrary: seen specs)
  case (Cons a "as")
  let ?i = "TrimSpace (as_ID a)"
  obtain s ss where s: "configAgent cwd a = Inr s" "configAgents cwd (?i # seen) as = Inr ss" "specs = s # ss" "?i \<notin> set seen"
    using Cons.prems by (auto simp: Let_def split: if_splits sum.splits)
  have "as_ID s = ?i" using s(1) by (auto simp: configAgent_def Let_def split: if_splits)
  then show ?case using s(3,4) Cons.IH [OF s(2)] by auto
qed simp

lemma default_ids: "map as_ID (defaultAgentSpecs agents cwd role) = agents"
  by (induction agents)
     (auto simp: defaultAgentSpecs_def defaultAgentCommandSpec_def fallbackAgentSpec_def agySpec_def agentAgentSpec_def codexSpec_def split: option.splits if_splits)

text \<open>Preparing a debate rules out all reasons but two for its plan to be refused: for agents from the command line or
  from a configuration file, the runtime accepts the plan exactly if a Zellij session is named and no agent is
  called coordinator.\<close>

theorem prepared_debate_plan:
  assumes "do_Agents opts = ParseAgents raw" "Prepare exe decoded opts = Inr p" "requestID \<noteq> []"
  shows "validateExecutionPlan (debatePlan requestID zellijSession (pp_agentSpecs p) (pp_coordinatorSpec p)) = None \<longleftrightarrow>
    TrimSpace zellijSession \<noteq> [] \<and> ''coordinator'' \<notin> set (pp_agents p)"
proof -
  have "distinct (map as_ID (pp_agentSpecs p)) \<and> map as_ID (pp_agentSpecs p) = pp_agents p"
    using assms(1,2) addAgents_distinct [of "[]"] configAgents_distinct
    by (auto simp: Prepare_def loadConfig_def Let_def ParseAgents_def default_ids split: option.splits if_splits sum.splits)
  then show ?thesis unfolding debate_plan_accepted_iff [OF assms(3)] by (metis set_map)
qed

section \<open>What waiting gives\<close>

definition settled :: "(string, string) gomap \<Rightarrow> int \<Rightarrow> (time \<times> time \<times> selected) list \<Rightarrow> string \<Rightarrow> paneWaitStatus \<Rightarrow> bool" where
  "settled ms timeout turns pane st \<longleftrightarrow>
     (ws_Status st = paneStatusDone \<and> (\<exists>looked now message marker. (looked, now, GotEvent ''raw_output'' pane message) \<in> set turns \<and>
        mget ms pane = Some marker \<and> debateMarkerMatches message marker)) \<or>
     (ws_Status st = paneStatusTimedOut \<and> timeout \<le> ws_Elapsed st)"

definition wait_ok :: "(string, string) gomap \<Rightarrow> int \<Rightarrow> (time \<times> time \<times> selected) list \<Rightarrow> (string, paneWaitStatus) gomap \<Rightarrow> bool" where
  "wait_ok ms timeout turns statuses \<longleftrightarrow> mapok statuses \<and> fst ` set statuses \<subseteq> fst ` set ms \<and>
     (\<forall>pane st. mget statuses pane = Some st \<longrightarrow> settled ms timeout turns pane st)"

lemma mget_None_iff: "mget m k = None \<longleftrightarrow> k \<notin> fst ` set m"
  by (simp add: map_of_eq_None_iff)

lemma wait_ok_mput:
  assumes "wait_ok ms timeout turns statuses" "pane \<in> fst ` set ms" "settled ms timeout turns pane st"
  shows "wait_ok ms timeout turns (mput statuses pane st)"
proof -
  have "fst ` set (mput statuses pane st) = insert pane (fst ` set statuses)"
    unfolding dom_map_of_conv_image_fst [symmetric] by (auto simp: dom_def split: if_splits)
  then show ?thesis using assms by (auto simp: wait_ok_def)
qed

abbreviation sameDeadlines :: "(string, string) gomap \<Rightarrow> time \<Rightarrow> (string, time) gomap" where
  "sameDeadlines ms d \<equiv> map (\<lambda>(pane, _). (pane, d)) ms"

lemma mget_deadlines: "pane \<in> fst ` set ms \<Longrightarrow> mget (sameDeadlines ms d) pane = Some d"
  by (induction ms) auto

lemma markTimeouts_ok:
  assumes "wait_ok ms timeout turns statuses"
  shows "wait_ok ms timeout turns (markTimeouts ms (sameDeadlines ms (started + timeout)) started timeout now statuses)"
proof -
  have "wait_ok ms timeout turns (fold (\<lambda>pane sts. if mget sts pane \<noteq> None \<or> the (mget (sameDeadlines ms (started + timeout)) pane) > now then sts
      else mput sts pane \<lparr>ws_PaneID = pane, ws_Status = paneStatusTimedOut, ws_Elapsed = now - started, ws_Timeout = timeout\<rparr>) panes statuses)"
    if "set panes \<subseteq> fst ` set ms" for panes
    using assms that
  proof (induction panes arbitrary: statuses)
    case (Cons pane panes)
    let ?st = "\<lparr>ws_PaneID = pane, ws_Status = paneStatusTimedOut, ws_Elapsed = now - started, ws_Timeout = timeout\<rparr>"
    have pane: "pane \<in> fst ` set ms" using Cons.prems(2) by auto
    have "wait_ok ms timeout turns (mput statuses pane ?st)" if "\<not> now < started + timeout"
      using wait_ok_mput [OF Cons.prems(1) pane] that by (simp add: settled_def)
    then show ?case using Cons mget_deadlines [OF pane] by simp
  qed simp
  from this [of "map fst ms"] show ?thesis by (simp add: markTimeouts_def)
qed

lemma recordMarker_ok:
  assumes "wait_ok ms timeout turns statuses" "(looked, now, GotEvent type pane message) \<in> set turns"
  shows "wait_ok ms timeout turns (recordMarker ms started timeout now' type pane message statuses)"
proof (cases "mget ms pane")
  case None
  then show ?thesis using assms by (simp add: recordMarker_def)
next
  case (Some marker)
  then have "pane \<in> fst ` set ms" by (metis mget_None_iff option.distinct(1))
  note put = wait_ok_mput [OF assms(1) this]
  show ?thesis
  proof (cases "type = ''raw_output'' \<and> debateMarkerMatches message marker \<and> mget statuses pane = None")
    case True
    then have "settled ms timeout turns pane \<lparr>ws_PaneID = pane, ws_Status = paneStatusDone, ws_Elapsed = now' - started, ws_Timeout = timeout\<rparr>"
      using assms(2) Some by (auto simp: settled_def)
    from put [OF this] show ?thesis using True Some by (simp add: recordMarker_def)
  qed (use assms(1) Some in \<open>auto simp: recordMarker_def\<close>)
qed

lemma all_recorded:
  assumes "wait_ok ms timeout turns statuses" "mapok ms" "length ms \<le> length statuses \<or> nextDeadline ms statuses ds = None" "(pane, marker) \<in> set ms"
  shows "\<exists>st. mget statuses pane = Some st \<and> settled ms timeout turns pane st"
proof -
  have "pane \<in> fst ` set statuses"
  proof (cases "length ms \<le> length statuses")
    case True
    have "card (fst ` set statuses) = length statuses" "card (fst ` set ms) = length ms"
      using assms(1,2) by (simp_all add: wait_ok_def distinct_card flip: set_map)
    moreover have sub: "fst ` set statuses \<subseteq> fst ` set ms" using assms(1) by (simp add: wait_ok_def)
    moreover have "card (fst ` set statuses) \<le> card (fst ` set ms)" by (rule card_mono [OF _ sub]) simp
    ultimately have "fst ` set statuses = fst ` set ms" using True by (intro card_subset_eq) simp_all
    then show ?thesis using assms(4) by force
  next
    case False
    then have "filter (\<lambda>pane. mget statuses pane = None) (map fst ms) = []" using assms(3) by (auto simp: nextDeadline_def split: list.splits)
    then show ?thesis using assms(4) by (force simp: filter_empty_conv mget_None_iff)
  qed
  then obtain st where "mget statuses pane = Some st" by (metis mget_None_iff option.exhaust)
  then show ?thesis using assms(1) by (auto simp: wait_ok_def)
qed

lemma waitLoop_settles:
  assumes "mapok ms"
  shows "wait_ok ms timeout turns statuses \<Longrightarrow> set rest \<subseteq> set turns \<Longrightarrow>
    waitLoop ms (sameDeadlines ms (started + timeout)) started timeout statuses rest = Some (Inr final) \<Longrightarrow> (pane, marker) \<in> set ms \<Longrightarrow>
    \<exists>st. mget final pane = Some st \<and> settled ms timeout turns pane st"
proof (induction rest arbitrary: statuses)
  case Nil
  then show ?case using all_recorded [OF Nil.prems(1) assms _ Nil.prems(4)]
    by (subst (asm) waitLoop.simps) (auto split: if_splits option.splits)
next
  case (Cons t rest)
  obtain looked now sel where t: "t = (looked, now, sel)" by (cases t)
  let ?ds = "sameDeadlines ms (started + timeout)"
  show ?case
  proof (cases "length ms \<le> length statuses \<or> nextDeadline ms statuses ?ds = None")
    case True
    then have "final = statuses" using Cons.prems(3) by (subst (asm) waitLoop.simps) (auto split: if_splits)
    then show ?thesis using all_recorded [OF Cons.prems(1) assms True Cons.prems(4)] by simp
  next
    case False
    then obtain d where d: "\<not> length ms \<le> length statuses" "nextDeadline ms statuses ?ds = Some d" by auto
    have turn: "(looked, now, sel) \<in> set turns" and rest: "set rest \<subseteq> set turns" using Cons.prems(2) t by auto
    note step = Cons.prems(3) [unfolded t, simplified waitLoop.simps [of _ _ _ _ _ "_ # _"]]
    have recorded: "wait_ok ms timeout turns (recordMarker ms started timeout now type p msg statuses)" if "sel = GotEvent type p msg" for type p msg
      using recordMarker_ok [OF Cons.prems(1) turn [unfolded that]] .
    have timed: "wait_ok ms timeout turns (markTimeouts ms ?ds started timeout now statuses)" using markTimeouts_ok [OF Cons.prems(1)] .
    have "\<exists>sts. wait_ok ms timeout turns sts \<and> waitLoop ms ?ds started timeout sts rest = Some (Inr final)"
    proof (cases "d \<le> looked")
      case True
      then show ?thesis using step d timed by auto
    next
      case False
      then show ?thesis using step d timed recorded Cons.prems(1) by (cases sel) auto
    qed
    then show ?thesis using Cons.IH [OF _ rest _ Cons.prems(4)] by blast
  qed
qed

text \<open>C32. When waiting for the markers of a round succeeds, every agent has a status: done only if an event of its own pane
  contained its marker (line breaks and spaces aside), otherwise timed out, and then the whole time was waited.\<close>

theorem debate_wait_settles:
  assumes "mapok ms" "waitForMarkers ms timeout started turns = Some (Inr statuses)" "(pane, marker) \<in> set ms"
  shows "\<exists>st. mget statuses pane = Some st \<and>
    ((ws_Status st = paneStatusDone \<and> (\<exists>looked now message. (looked, now, GotEvent ''raw_output'' pane message) \<in> set turns \<and> debateMarkerMatches message marker)) \<or>
     (ws_Status st = paneStatusTimedOut \<and> timeout \<le> ws_Elapsed st))"
proof -
  have "wait_ok ms timeout turns []" by (simp add: wait_ok_def)
  from waitLoop_settles [OF assms(1) this subset_refl _ assms(3)] assms(2)
  obtain st where "mget statuses pane = Some st" "settled ms timeout turns pane st" by (auto simp: waitForMarkers_def)
  moreover have "mget ms pane = Some marker" using assms(1,3) by simp
  ultimately show ?thesis by (auto simp: settled_def)
qed

text \<open>Waiting ends: once the clock has passed the time of the round, the loop returns without waiting for another event.\<close>

lemma markTimeouts_all:
  assumes "started + timeout \<le> now" "pane \<in> fst ` set ms"
  shows "mget (markTimeouts ms (sameDeadlines ms (started + timeout)) started timeout now statuses) pane \<noteq> None"
proof -
  let ?f = "\<lambda>pane sts. if mget sts pane \<noteq> None \<or> the (mget (sameDeadlines ms (started + timeout)) pane) > now then sts
      else mput sts pane \<lparr>ws_PaneID = pane, ws_Status = paneStatusTimedOut, ws_Elapsed = now - started, ws_Timeout = timeout\<rparr>"
  have keep: "mget sts pane \<noteq> None \<Longrightarrow> mget (fold ?f panes sts) pane \<noteq> None" for panes sts pane
    by (induction panes arbitrary: sts) auto
  have "pane \<in> set panes \<Longrightarrow> set panes \<subseteq> fst ` set ms \<Longrightarrow> mget (fold ?f panes sts) pane \<noteq> None" for panes sts
  proof (induction panes arbitrary: sts)
    case (Cons q panes)
    have q: "mget (sameDeadlines ms (started + timeout)) q = Some (started + timeout)" using Cons.prems(2) by (intro mget_deadlines) auto
    have "mget (?f q sts) q \<noteq> None" using q assms(1) by auto
    then show ?case using Cons keep [of "?f q sts" q panes] by (cases "pane = q") auto
  qed simp
  from this [of "map fst ms"] show ?thesis using assms(2) by (simp add: markTimeouts_def)
qed

lemma waitLoop_returns:
  assumes "\<forall>pane \<in> fst ` set ms. mget statuses pane \<noteq> None"
  shows "waitLoop ms ds started timeout statuses turns = Some (Inr statuses)"
proof -
  have "filter (\<lambda>pane. mget statuses pane = None) (map fst ms) = []" using assms by (auto simp: filter_empty_conv)
  then show ?thesis by (subst waitLoop.simps) (simp add: nextDeadline_def)
qed

lemma nextDeadline_same: "nextDeadline ms statuses (sameDeadlines ms d) = Some e \<Longrightarrow> e = d"
proof -
  assume a: "nextDeadline ms statuses (sameDeadlines ms d) = Some e"
  then obtain pane panes where p: "filter (\<lambda>pane. mget statuses pane = None) (map fst ms) = pane # panes"
    and e: "e = fold (\<lambda>q d'. min d' (the (mget (sameDeadlines ms d) q))) panes (the (mget (sameDeadlines ms d) pane))"
    by (auto simp: nextDeadline_def split: list.splits)
  have "set (pane # panes) \<subseteq> fst ` set ms" unfolding p [symmetric] by auto
  then have k: "\<forall>q \<in> set (pane # panes). mget (sameDeadlines ms d) q = Some d" using mget_deadlines by blast
  have "\<forall>q \<in> set qs. mget (sameDeadlines ms d) q = Some d \<Longrightarrow> fold (\<lambda>q d'. min d' (the (mget (sameDeadlines ms d) q))) qs d = d" for qs
    by (induction qs) auto
  then show "e = d" using e k by auto
qed

lemma waitLoop_ends:
  assumes "started + timeout \<le> looked" "looked \<le> now"
  shows "\<exists>r. waitLoop ms (sameDeadlines ms (started + timeout)) started timeout statuses (turns @ [(looked, now, sel)]) = Some r"
proof (induction turns arbitrary: statuses)
  case Nil
  have "\<forall>pane \<in> fst ` set ms. mget (markTimeouts ms (sameDeadlines ms (started + timeout)) started timeout now statuses) pane \<noteq> None"
    using markTimeouts_all assms by auto
  note done' = waitLoop_returns [OF this]
  show ?case using assms nextDeadline_same [of ms statuses "started + timeout"]
    by (subst waitLoop.simps) (auto split: option.splits simp: done')
next
  case (Cons t turns)
  obtain l n s where t: "t = (l, n, s)" by (cases t)
  show ?case using Cons.IH by (subst waitLoop.simps) (auto simp: t split: option.splits selected.splits)
qed

theorem debate_wait_ends:
  assumes "started + timeout \<le> looked" "looked \<le> now"
  shows "\<exists>r. waitForMarkers ms timeout started (turns @ [(looked, now, sel)]) = Some r"
  using waitLoop_ends [OF assms] by (simp add: waitForMarkers_def)

text \<open>A round in which the agent answers.\<close>

theorem debate_wait_settles_witness:
  "\<exists>st. mget [(''debate-a'', \<lparr>ws_PaneID = ''debate-a'', ws_Status = paneStatusDone, ws_Elapsed = 2, ws_Timeout = 5\<rparr>)] ''debate-a'' = Some st \<and>
    ((ws_Status st = paneStatusDone \<and> (\<exists>looked now message. (looked, now, GotEvent ''raw_output'' ''debate-a'' message) \<in> set [(1 :: time, 2 :: time, GotEvent ''raw_output'' ''debate-a'' ''x m'')] \<and>
        debateMarkerMatches message ''m'')) \<or>
     (ws_Status st = paneStatusTimedOut \<and> 5 \<le> ws_Elapsed st))"
proof -
  have m: "debateMarkerMatches ''x m'' ''m''" by (simp add: debateMarkerMatches_def HasPrefix_def)
  have w: "waitForMarkers [(''debate-a'', ''m'')] 5 0 [(1, 2, GotEvent ''raw_output'' ''debate-a'' ''x m'')] =
      Some (Inr [(''debate-a'', \<lparr>ws_PaneID = ''debate-a'', ws_Status = paneStatusDone, ws_Elapsed = 2, ws_Timeout = 5\<rparr>)])"
    by (simp add: waitForMarkers_def waitLoop.simps nextDeadline_def recordMarker_def m)
  show ?thesis by (rule debate_wait_settles [OF _ w, of "''debate-a''" "''m''"]) simp_all
qed

end
